(* ===== verification/Prelude.thy ===== *)
theory Prelude
  imports Main "HOL-Library.Char_ord" "HOL-Library.List_Lexorder"
begin

text \<open>
  What every component shares: how a thrown error is a value, the fragment of the
  JavaScript string and number library the components call, the stable array sort, and
  generic facts on lists and maps.

  Strings are lists of UTF-16 code units below 256 (the type \<^typ>\<open>char\<close>): \<open>js_trim\<close> and
  \<open>js_lower\<close> are exact on that range. Numbers are \<^typ>\<open>int\<close>; \<open>safe_int\<close> is
  \<^verbatim>\<open>Number.isSafeInteger\<close> on integers. Instants are milliseconds since the epoch: every
  timestamp of the modelled code is written by \<^verbatim>\<open>toISOString\<close>, whose text order is the
  order of the instants.
\<close>

section \<open>Collections used across the development\<close>

named_theorems result_simps \<open>case analysis of computations that may throw\<close>

section \<open>Errors as values\<close>

text \<open>The exit codes a \<^verbatim>\<open>RalphError\<close> can carry, with the aliases of the source.\<close>

datatype exit_code =
    Exit_success | Exit_operationalError | Exit_invalidUsage | Exit_invalidPrd
  | Exit_verificationFailed | Exit_blocked | Exit_providerUnavailable | Exit_conflict
  | Exit_interrupted | Exit_budgetExceeded | Exit_policyDenied

abbreviation Exit_notFound :: exit_code where
  "Exit_notFound \<equiv> Exit_operationalError"

abbreviation Exit_permissionDenied :: exit_code where
  "Exit_permissionDenied \<equiv> Exit_policyDenied"

text \<open>
  A thrown value: a \<^verbatim>\<open>RalphError\<close> with its code and exit code, an
  \<^verbatim>\<open>ExecutionTransitionError\<close> with its code, the exception of a schema's
  \<^verbatim>\<open>parse\<close>, the exception of a statement the ledger's constraints reject, or any other
  error.
\<close>

datatype failure =
    RalphError string exit_code
  | TransitionError string
  | ZodError
  | SqliteError
  | PlainError string

type_synonym 'a result = "failure + 'a"

definition error_code :: "failure \<Rightarrow> string option" where
  "error_code e = (case e of RalphError c _ \<Rightarrow> Some c | TransitionError c \<Rightarrow> Some c | _ \<Rightarrow> None)"

lemma error_code_simps [simp]:
  "error_code (RalphError c x) = Some c"
  "error_code (TransitionError c) = Some c"
  "error_code ZodError = None"
  "error_code SqliteError = None"
  "error_code (PlainError m) = None"
  by (simp_all add: error_code_def)

text \<open>Sequencing: the rest runs on the value, an error skips it.\<close>

definition and_then :: "'a result \<Rightarrow> ('a \<Rightarrow> 'b result) \<Rightarrow> 'b result" where
  "and_then r k = (case r of Inl e \<Rightarrow> Inl e | Inr x \<Rightarrow> k x)"

lemma and_then_simps [simp]:
  "and_then (Inl e) k = Inl e"
  "and_then (Inr x) k = k x"
  by (simp_all add: and_then_def)

lemma and_then_Inr [result_simps]:
  "and_then r k = Inr y \<longleftrightarrow> (\<exists>x. r = Inr x \<and> k x = Inr y)"
  by (cases r) simp_all

lemma and_then_Inl [result_simps]:
  "and_then r k = Inl e \<longleftrightarrow> r = Inl e \<or> (\<exists>x. r = Inr x \<and> k x = Inl e)"
  by (cases r) simp_all

text \<open>A check that throws unless its condition holds.\<close>

definition require :: "bool \<Rightarrow> failure \<Rightarrow> unit result" where
  "require b e = (if b then Inr () else Inl e)"

lemma require_simps [simp]:
  "require True e = Inr ()"
  "require False e = Inl e"
  by (simp_all add: require_def)

lemma require_Inr [result_simps]: "require b e = Inr u \<longleftrightarrow> b"
  by (simp add: require_def)

lemma require_Inl [result_simps]: "require b e = Inl f \<longleftrightarrow> \<not> b \<and> f = e"
  by (auto simp: require_def)

definition ok :: "'a result \<Rightarrow> bool" where
  "ok r = (case r of Inl _ \<Rightarrow> False | Inr _ \<Rightarrow> True)"

lemma ok_simps [simp]: "ok (Inr x)" "\<not> ok (Inl e)"
  by (simp_all add: ok_def)

lemma ok_iff: "ok r \<longleftrightarrow> (\<exists>x. r = Inr x)"
  by (cases r) simp_all

section \<open>The JavaScript library on strings and numbers\<close>

text \<open>The white space \<^verbatim>\<open>String.prototype.trim\<close> removes, below 256.\<close>

definition js_space :: "char \<Rightarrow> bool" where
  "js_space c \<longleftrightarrow> (of_char c :: nat) \<in> {9, 10, 11, 12, 13, 32, 160}"

definition js_trim :: "string \<Rightarrow> string" where
  "js_trim s = rev (dropWhile js_space (rev (dropWhile js_space s)))"

text \<open>\<^verbatim>\<open>toLocaleLowerCase("und")\<close>: A to Z, and the Latin-1 capitals but the times sign.\<close>

definition lower_char :: "char \<Rightarrow> char" where
  "lower_char c =
     (let n = (of_char c :: nat)
      in if 65 \<le> n \<and> n \<le> 90 \<or> 192 \<le> n \<and> n \<le> 222 \<and> n \<noteq> 215 then char_of (n + 32) else c)"

definition js_lower :: "string \<Rightarrow> string" where
  "js_lower s = map lower_char s"

definition starts_with :: "string \<Rightarrow> string \<Rightarrow> bool" where
  "starts_with s p \<longleftrightarrow> take (length p) s = p"

definition ends_with :: "string \<Rightarrow> string \<Rightarrow> bool" where
  "ends_with s p \<longleftrightarrow> length p \<le> length s \<and> drop (length s - length p) s = p"

text \<open>\<^verbatim>\<open>s.split(c)\<close> for a separator of one code unit.\<close>

fun split_on :: "char \<Rightarrow> string \<Rightarrow> string list" where
  "split_on c [] = [[]]"
| "split_on c (x # xs) =
     (if x = c then [] # split_on c xs
      else (case split_on c xs of [] \<Rightarrow> [[x]] | w # ws \<Rightarrow> (x # w) # ws))"

definition replace_char :: "char \<Rightarrow> char \<Rightarrow> string \<Rightarrow> string" where
  "replace_char a b s = map (\<lambda>c. if c = a then b else c) s"

definition safe_int :: "int \<Rightarrow> bool" where
  "safe_int n \<longleftrightarrow> - 9007199254740991 \<le> n \<and> n \<le> 9007199254740991"

section \<open>Schema fragments\<close>

definition nonempty :: "string \<Rightarrow> bool" where
  "nonempty s \<longleftrightarrow> s \<noteq> []"

definition nonempty_opt :: "string option \<Rightarrow> bool" where
  "nonempty_opt s \<longleftrightarrow> (case s of None \<Rightarrow> True | Some x \<Rightarrow> nonempty x)"

text \<open>\<^verbatim>\<open>/^[a-f0-9]{64}$/\<close>\<close>

definition hex_char :: "char \<Rightarrow> bool" where
  "hex_char c \<longleftrightarrow> (let n = (of_char c :: nat) in 48 \<le> n \<and> n \<le> 57 \<or> 97 \<le> n \<and> n \<le> 102)"

definition sha256 :: "string \<Rightarrow> bool" where
  "sha256 s \<longleftrightarrow> length s = 64 \<and> list_all hex_char s"

definition sha256_opt :: "string option \<Rightarrow> bool" where
  "sha256_opt s \<longleftrightarrow> (case s of None \<Rightarrow> True | Some x \<Rightarrow> sha256 x)"

section \<open>Facts on the library fragment\<close>

lemma of_char_lt_256: "(of_char c :: nat) < 256"
  using range_nat_of_char by auto

lemma lower_char_idem [simp]: "lower_char (lower_char c) = lower_char c"
proof -
  have lt: "(of_char c :: nat) < 256"
    by (rule of_char_lt_256)
  show ?thesis
    using lt by (auto simp: lower_char_def Let_def of_char_of)
qed

lemma js_lower_idem [simp]: "js_lower (js_lower s) = js_lower s"
  by (simp add: js_lower_def)

lemma js_lower_append: "js_lower (s @ t) = js_lower s @ js_lower t"
  by (simp add: js_lower_def)

lemma length_js_lower [simp]: "length (js_lower s) = length s"
  by (simp add: js_lower_def)

lemma js_trim_Nil_iff: "js_trim s = [] \<longleftrightarrow> list_all js_space s"
  by (auto simp: js_trim_def dropWhile_eq_Nil_conv list_all_iff dest: set_dropWhileD)
     (metis dropWhile_eq_Nil_conv hd_dropWhile hd_in_set)

lemma dropWhile_snoc_False: "\<not> p x \<Longrightarrow> dropWhile p (xs @ [x]) = dropWhile p xs @ [x]"
  by (induction xs) auto

lemma dropWhile_twice [simp]: "dropWhile p (dropWhile p xs) = dropWhile p xs"
  by (induction xs) auto

lemma dropWhile_id: "xs = [] \<or> \<not> p (hd xs) \<Longrightarrow> dropWhile p xs = xs"
  by (cases xs) auto

lemma js_trim_idem [simp]: "js_trim (js_trim s) = js_trim s"
proof -
  let ?t = "dropWhile js_space s"
  let ?u = "rev (dropWhile js_space (rev ?t))"
  obtain ys where ys: "?t = ?u @ ys"
    by (metis rev_append rev_rev_ident takeWhile_dropWhile_id)
  have "?u = [] \<or> \<not> js_space (hd ?u)"
  proof (cases "?u = []")
    case False
    then have "hd ?u = hd ?t" and "?t \<noteq> []"
      by (metis ys hd_append2, metis ys append_is_Nil_conv)
    then show ?thesis
      by (metis hd_dropWhile)
  qed simp
  then have "dropWhile js_space ?u = ?u"
    by (rule dropWhile_id)
  then show ?thesis
    by (simp add: js_trim_def)
qed

lemma starts_with_iff: "starts_with s p \<longleftrightarrow> (\<exists>t. s = p @ t)"
  unfolding starts_with_def by (metis append_eq_conv_conj append_take_drop_id)

lemma starts_with_refl [simp]: "starts_with s s"
  by (simp add: starts_with_def)

lemma starts_with_trans: "starts_with s p \<Longrightarrow> starts_with p q \<Longrightarrow> starts_with s q"
  by (auto simp: starts_with_iff)

lemma starts_with_total: "starts_with s p \<Longrightarrow> starts_with s q \<Longrightarrow> starts_with p q \<or> starts_with q p"
  by (auto simp: starts_with_iff append_eq_append_conv2)

section \<open>Array.prototype.sort with a comparator\<close>

text \<open>The engine's sort is stable; insertion from the right with \<open>le\<close> is a stable sort.\<close>

fun insert_by :: "('a \<Rightarrow> 'a \<Rightarrow> bool) \<Rightarrow> 'a \<Rightarrow> 'a list \<Rightarrow> 'a list" where
  "insert_by le x [] = [x]"
| "insert_by le x (y # ys) = (if le x y then x # y # ys else y # insert_by le x ys)"

fun sort_by :: "('a \<Rightarrow> 'a \<Rightarrow> bool) \<Rightarrow> 'a list \<Rightarrow> 'a list" where
  "sort_by le [] = []"
| "sort_by le (x # xs) = insert_by le x (sort_by le xs)"

lemma set_insert_by [simp]: "set (insert_by le x xs) = insert x (set xs)"
  by (induction xs) auto

lemma set_sort_by [simp]: "set (sort_by le xs) = set xs"
  by (induction xs) auto

lemma length_insert_by [simp]: "length (insert_by le x xs) = Suc (length xs)"
  by (induction xs) auto

lemma length_sort_by [simp]: "length (sort_by le xs) = length xs"
  by (induction xs) auto

lemma distinct_insert_by: "distinct (insert_by le x xs) \<longleftrightarrow> x \<notin> set xs \<and> distinct xs"
  by (induction xs) auto

lemma distinct_sort_by [simp]: "distinct (sort_by le xs) \<longleftrightarrow> distinct xs"
  by (induction xs) (auto simp: distinct_insert_by)

text \<open>A comparator that is a total preorder: what \<^verbatim>\<open>sort\<close> asks of its argument.\<close>

definition comparator :: "('a \<Rightarrow> 'a \<Rightarrow> bool) \<Rightarrow> bool" where
  "comparator le \<longleftrightarrow> (\<forall>x y. le x y \<or> le y x) \<and> (\<forall>x y z. le x y \<longrightarrow> le y z \<longrightarrow> le x z)"

lemma sorted_insert_by:
  assumes "comparator le" and "sorted_wrt le xs"
  shows "sorted_wrt le (insert_by le x xs)"
  using assms(2)
proof (induction xs)
  case Nil
  then show ?case by simp
next
  case (Cons y ys)
  then show ?case
    using assms(1) unfolding comparator_def by (auto dest: spec)
qed

lemma sorted_sort_by: "comparator le \<Longrightarrow> sorted_wrt le (sort_by le xs)"
  by (induction xs) (auto intro: sorted_insert_by)

section \<open>Lists and maps\<close>

lemma find_SomeD: "find p xs = Some x \<Longrightarrow> p x \<and> x \<in> set xs"
  by (induction xs) (auto split: if_splits)

lemma find_None_conv: "find p xs = None \<longleftrightarrow> (\<forall>x \<in> set xs. \<not> p x)"
  by (induction xs) auto

lemma find_Some_split:
  "find p xs = Some x \<longleftrightarrow> (\<exists>ys zs. xs = ys @ x # zs \<and> p x \<and> (\<forall>y \<in> set ys. \<not> p y))"
proof
  show "find p xs = Some x \<Longrightarrow> \<exists>ys zs. xs = ys @ x # zs \<and> p x \<and> (\<forall>y \<in> set ys. \<not> p y)"
  proof (induction xs)
    case Nil
    then show ?case by simp
  next
    case (Cons a xs)
    then show ?case
      by (cases "p a") (force, metis append_Cons find.simps(2) set_ConsD)
  qed
next
  assume "\<exists>ys zs. xs = ys @ x # zs \<and> p x \<and> (\<forall>y \<in> set ys. \<not> p y)"
  then obtain ys zs where "xs = ys @ x # zs" and "p x" and "\<forall>y \<in> set ys. \<not> p y"
    by blast
  then show "find p xs = Some x"
    by (induction ys arbitrary: xs) auto
qed

lemma find_append: "find p (xs @ ys) = (case find p xs of None \<Rightarrow> find p ys | Some x \<Rightarrow> Some x)"
  by (induction xs) auto

text \<open>\<^verbatim>\<open>new Map(entries)\<close>: the last entry of a key is kept.\<close>

definition js_map :: "(string \<times> 'a) list \<Rightarrow> string \<rightharpoonup> 'a" where
  "js_map entries = map_of (rev entries)"

lemma js_map_distinct: "distinct (map fst kvs) \<Longrightarrow> js_map kvs = map_of kvs"
proof (rule ext)
  fix k
  assume d: "distinct (map fst kvs)"
  then have "map_of (rev kvs) k = Some v \<longleftrightarrow> map_of kvs k = Some v" for v
    by (simp add: map_of_eq_Some_iff rev_map [symmetric])
  then show "js_map kvs k = map_of kvs k"
    unfolding js_map_def by (metis option.exhaust)
qed

text \<open>\<^verbatim>\<open>[...new Set(xs)]\<close>: the first occurrence of each value, in order.\<close>

fun js_unique_from :: "'a list \<Rightarrow> 'a list \<Rightarrow> 'a list" where
  "js_unique_from seen [] = []"
| "js_unique_from seen (x # xs) =
     (if List.member seen x then js_unique_from seen xs else x # js_unique_from (x # seen) xs)"

definition js_unique :: "'a list \<Rightarrow> 'a list" where
  "js_unique xs = js_unique_from [] xs"

lemma set_js_unique_from: "set (js_unique_from seen xs) = set xs - set seen"
  by (induction seen xs rule: js_unique_from.induct) auto

lemma set_js_unique [simp]: "set (js_unique xs) = set xs"
  by (simp add: js_unique_def set_js_unique_from)

lemma distinct_js_unique_from: "distinct (js_unique_from seen xs)"
  by (induction seen xs rule: js_unique_from.induct) (auto simp: set_js_unique_from)

lemma distinct_js_unique [simp]: "distinct (js_unique xs)"
  by (simp add: js_unique_def distinct_js_unique_from)

end
