(* ===== verification/Lifecycle.thy ===== *)
theory Lifecycle
  imports Prelude "HOL-Library.Multiset"
begin

text \<open>
  \<^verbatim>\<open>packages/domain/src/execution.ts\<close>: the statuses of runs, tasks and attempts, their
  closed transition matrices, the records and their schemas, the transition functions, and
  the completion authority (\<^verbatim>\<open>assertTaskCompletionAuthorized\<close>, \<^verbatim>\<open>completeTask\<close> and their
  override variants).

  A schema's \<^verbatim>\<open>parse\<close> is a function to \<^typ>\<open>'a result\<close>: it throws \<^const>\<open>ZodError\<close> when
  a field check or a refinement of the source fails, and otherwise returns the value with the
  transformations of the source (\<^verbatim>\<open>trim\<close>) applied. Fields declared
  \<^verbatim>\<open>int().nonnegative()\<close> have type \<^typ>\<open>nat\<close>. The effective options of a run are opaque
  (type \<open>'o\<close>, their schema a predicate \<open>okO\<close>) but for their content hash, and the digest of
  node's crypto library is the parameter \<open>H\<close>.
\<close>

section \<open>Statuses and phases\<close>

datatype run_status =
    Run_created | Run_running | Run_stopping | Run_interrupted | Run_waiting
  | Run_completed | Run_failed | Run_cancelled

datatype task_status =
    Task_pending | Task_eligible | Task_active | Task_verifying | Task_evaluating
  | Task_retryable_failed | Task_interrupted | Task_blocked | Task_rejected
  | Task_cancelled | Task_completed | Task_completed_with_override

datatype attempt_phase =
    Phase_created | Phase_preparing | Phase_invoking | Phase_tools | Phase_settling
  | Phase_evidence | Phase_gates | Phase_judgment | Phase_decision

datatype attempt_status =
    Attempt_active | Attempt_passed | Attempt_failed | Attempt_interrupted | Attempt_rejected

section \<open>The transition matrices\<close>

fun RUN_STATUS_TRANSITIONS :: "run_status \<Rightarrow> run_status list" where
  "RUN_STATUS_TRANSITIONS Run_created = [Run_running, Run_cancelled]"
| "RUN_STATUS_TRANSITIONS Run_running =
     [Run_stopping, Run_interrupted, Run_waiting, Run_completed, Run_failed, Run_cancelled]"
| "RUN_STATUS_TRANSITIONS Run_stopping =
     [Run_interrupted, Run_completed, Run_failed, Run_cancelled]"
| "RUN_STATUS_TRANSITIONS Run_interrupted = [Run_running, Run_cancelled]"
| "RUN_STATUS_TRANSITIONS Run_waiting = [Run_running, Run_stopping, Run_failed, Run_cancelled]"
| "RUN_STATUS_TRANSITIONS Run_completed = []"
| "RUN_STATUS_TRANSITIONS Run_failed = []"
| "RUN_STATUS_TRANSITIONS Run_cancelled = []"

fun TASK_RUNTIME_STATUS_TRANSITIONS :: "task_status \<Rightarrow> task_status list" where
  "TASK_RUNTIME_STATUS_TRANSITIONS Task_pending = [Task_eligible, Task_blocked, Task_cancelled]"
| "TASK_RUNTIME_STATUS_TRANSITIONS Task_eligible = [Task_active, Task_blocked, Task_cancelled]"
| "TASK_RUNTIME_STATUS_TRANSITIONS Task_active =
     [Task_verifying, Task_retryable_failed, Task_interrupted, Task_blocked, Task_rejected,
      Task_cancelled]"
| "TASK_RUNTIME_STATUS_TRANSITIONS Task_verifying =
     [Task_evaluating, Task_retryable_failed, Task_interrupted, Task_blocked, Task_rejected,
      Task_cancelled]"
| "TASK_RUNTIME_STATUS_TRANSITIONS Task_evaluating =
     [Task_completed, Task_completed_with_override, Task_retryable_failed, Task_interrupted,
      Task_blocked, Task_rejected, Task_cancelled]"
| "TASK_RUNTIME_STATUS_TRANSITIONS Task_retryable_failed =
     [Task_active, Task_blocked, Task_rejected, Task_cancelled]"
| "TASK_RUNTIME_STATUS_TRANSITIONS Task_interrupted = [Task_active, Task_blocked, Task_cancelled]"
| "TASK_RUNTIME_STATUS_TRANSITIONS Task_blocked = [Task_eligible, Task_cancelled]"
| "TASK_RUNTIME_STATUS_TRANSITIONS Task_rejected = []"
| "TASK_RUNTIME_STATUS_TRANSITIONS Task_cancelled = []"
| "TASK_RUNTIME_STATUS_TRANSITIONS Task_completed = []"
| "TASK_RUNTIME_STATUS_TRANSITIONS Task_completed_with_override = []"

fun ATTEMPT_PHASE_TRANSITIONS :: "attempt_phase \<Rightarrow> attempt_phase list" where
  "ATTEMPT_PHASE_TRANSITIONS Phase_created = [Phase_preparing]"
| "ATTEMPT_PHASE_TRANSITIONS Phase_preparing = [Phase_invoking]"
| "ATTEMPT_PHASE_TRANSITIONS Phase_invoking = [Phase_tools, Phase_settling]"
| "ATTEMPT_PHASE_TRANSITIONS Phase_tools = [Phase_settling]"
| "ATTEMPT_PHASE_TRANSITIONS Phase_settling = [Phase_invoking, Phase_evidence]"
| "ATTEMPT_PHASE_TRANSITIONS Phase_evidence = [Phase_gates]"
| "ATTEMPT_PHASE_TRANSITIONS Phase_gates = [Phase_judgment, Phase_decision]"
| "ATTEMPT_PHASE_TRANSITIONS Phase_judgment = [Phase_decision]"
| "ATTEMPT_PHASE_TRANSITIONS Phase_decision = []"

fun ATTEMPT_STATUS_TRANSITIONS :: "attempt_status \<Rightarrow> attempt_status list" where
  "ATTEMPT_STATUS_TRANSITIONS Attempt_active =
     [Attempt_passed, Attempt_failed, Attempt_interrupted, Attempt_rejected]"
| "ATTEMPT_STATUS_TRANSITIONS Attempt_passed = []"
| "ATTEMPT_STATUS_TRANSITIONS Attempt_failed = []"
| "ATTEMPT_STATUS_TRANSITIONS Attempt_interrupted = []"
| "ATTEMPT_STATUS_TRANSITIONS Attempt_rejected = []"

definition allows :: "('s \<Rightarrow> 's list) \<Rightarrow> 's \<Rightarrow> 's \<Rightarrow> bool" where
  "allows matrix from_s to_s \<longleftrightarrow> to_s \<in> set (matrix from_s)"

definition canTransitionRunStatus :: "run_status \<Rightarrow> run_status \<Rightarrow> bool" where
  "canTransitionRunStatus a b = allows RUN_STATUS_TRANSITIONS a b"

definition canTransitionTaskRuntimeStatus :: "task_status \<Rightarrow> task_status \<Rightarrow> bool" where
  "canTransitionTaskRuntimeStatus a b = allows TASK_RUNTIME_STATUS_TRANSITIONS a b"

definition canTransitionAttemptPhase :: "attempt_phase \<Rightarrow> attempt_phase \<Rightarrow> bool" where
  "canTransitionAttemptPhase a b = allows ATTEMPT_PHASE_TRANSITIONS a b"

definition canTransitionAttemptStatus :: "attempt_status \<Rightarrow> attempt_status \<Rightarrow> bool" where
  "canTransitionAttemptStatus a b = allows ATTEMPT_STATUS_TRANSITIONS a b"

text \<open>\<^verbatim>\<open>RALPH_${kind}_TRANSITION_INVALID\<close>\<close>

definition invalidTransition :: "string \<Rightarrow> failure" where
  "invalidTransition kind = TransitionError (''RALPH_'' @ kind @ ''_TRANSITION_INVALID'')"

section \<open>The no-change policy\<close>

datatype no_change_policy =
    Require_change | Allow_no_change | Fail_on_no_change | Retry_on_no_change

fun policy_name :: "no_change_policy \<Rightarrow> string" where
  "policy_name Require_change = ''require-change''"
| "policy_name Allow_no_change = ''allow-no-change''"
| "policy_name Fail_on_no_change = ''fail-on-no-change''"
| "policy_name Retry_on_no_change = ''retry-on-no-change''"

definition parse_no_change_policy :: "string \<Rightarrow> no_change_policy option" where
  "parse_no_change_policy s =
     find (\<lambda>p. policy_name p = s)
       [Require_change, Allow_no_change, Fail_on_no_change, Retry_on_no_change]"

definition NO_CHANGE_POLICY_ALIASES :: "(string \<times> no_change_policy \<times> string) list" where
  "NO_CHANGE_POLICY_ALIASES =
     [(''retry'', Retry_on_no_change,
       ''Legacy no-change policy `retry` normalized to `retry-on-no-change`.''),
      (''fail-fast'', Fail_on_no_change,
       ''Legacy no-change policy `fail-fast` normalized to `fail-on-no-change`.''),
      (''fallback'', Retry_on_no_change,
       ''Legacy no-change policy `fallback` normalized to bounded `retry-on-no-change`; it does not switch provider or model.'')]"

text \<open>
  The alias table is an object literal, so indexing it also finds what objects inherit: of the
  lower-case names only these two. The inherited value is truthy and has no own fields, and
  the schema then rejects the record built from it.
\<close>

definition inherited_object_key :: "string \<Rightarrow> bool" where
  "inherited_object_key s \<longleftrightarrow> s = ''constructor'' \<or> s = ''__proto__''"

record normalized_policy =
  np_value :: no_change_policy
  np_original :: string
  np_notice :: "string option"

definition normalizeNoChangePolicy :: "string \<Rightarrow> normalized_policy result" where
  "normalizeNoChangePolicy input =
     (if \<not> nonempty input then Inl ZodError
      else
        (let original = input; normalized = js_lower (js_trim original)
         in case parse_no_change_policy normalized of
              Some p \<Rightarrow> Inr \<lparr>np_value = p, np_original = original, np_notice = None\<rparr>
            | None \<Rightarrow>
                (case map_of NO_CHANGE_POLICY_ALIASES normalized of
                   Some (p, notice) \<Rightarrow>
                     Inr \<lparr>np_value = p, np_original = original, np_notice = Some notice\<rparr>
                 | None \<Rightarrow>
                     if inherited_object_key normalized then Inl ZodError
                     else Inl (TransitionError ''RALPH_NO_CHANGE_POLICY_INVALID''))))"

section \<open>Evidence\<close>

datatype change_status = Changed | Unchanged | Out_of_scope

datatype change_kind = Created_file | Modified_file | Deleted_file | Renamed_file

record changed_file =
  cf_path :: string
  cf_kind :: change_kind
  cf_previousPath :: "string option"
  cf_contentHash :: "string option"
  cf_sizeBytes :: "nat option"

datatype change_side = Before_side | After_side

record missing_content =
  mc_path :: string
  mc_side :: change_side
  mc_reason :: string

record change_evidence =
  ce_policy :: no_change_policy
  ce_status :: change_status
  ce_files :: "changed_file list"
  ce_outsideScopePaths :: "string list"
  ce_reproducible :: bool
  ce_missingContent :: "missing_content list"
  ce_diffHash :: "string option"
  ce_diffRef :: "string option"
  ce_attemptDiffHash :: "string option"
  ce_attemptDiffRef :: "string option"

definition valid_changed_file :: "changed_file \<Rightarrow> bool" where
  "valid_changed_file f \<longleftrightarrow>
     nonempty (cf_path f) \<and> nonempty_opt (cf_previousPath f) \<and> sha256_opt (cf_contentHash f)"

definition valid_missing_content :: "missing_content \<Rightarrow> bool" where
  "valid_missing_content m \<longleftrightarrow> nonempty (mc_path m) \<and> nonempty (mc_reason m)"

definition valid_change_evidence :: "change_evidence \<Rightarrow> bool" where
  "valid_change_evidence c \<longleftrightarrow>
     list_all valid_changed_file (ce_files c) \<and>
     list_all nonempty (ce_outsideScopePaths c) \<and>
     list_all valid_missing_content (ce_missingContent c) \<and>
     sha256_opt (ce_diffHash c) \<and> nonempty_opt (ce_diffRef c) \<and>
     sha256_opt (ce_attemptDiffHash c) \<and> nonempty_opt (ce_attemptDiffRef c) \<and>
     (ce_diffHash c = None) = (ce_diffRef c = None) \<and>
     (ce_attemptDiffHash c = None) = (ce_attemptDiffRef c = None) \<and>
     ce_reproducible c = (ce_missingContent c = []) \<and>
     \<not> (ce_status c = Unchanged \<and> ce_files c \<noteq> []) \<and>
     \<not> (ce_status c = Out_of_scope \<and> ce_outsideScopePaths c = [])"

datatype gate_status =
    Gate_passed | Gate_failed | Gate_timeout | Gate_error | Gate_skipped_by_cli
  | Gate_skipped_by_policy | Gate_not_applicable | Gate_unavailable

datatype skip_policy = Skip_required | Skip_optional | Skip_allowed | Skip_never_run

text \<open>A gate result; its command, output references and byte counts are left out.\<close>

record gate_result =
  gr_gateId :: string
  gr_category :: string
  gr_blocking :: bool
  gr_skipPolicy :: "skip_policy option"
  gr_criterionIds :: "string list option"
  gr_status :: gate_status
  gr_exitCode :: "int option"
  gr_durationMs :: nat
  gr_reason :: "string option"

definition valid_gate_result :: "gate_result \<Rightarrow> bool" where
  "valid_gate_result g \<longleftrightarrow>
     nonempty (gr_gateId g) \<and> nonempty (gr_category g) \<and> nonempty_opt (gr_reason g) \<and>
     (case gr_criterionIds g of None \<Rightarrow> True | Some cs \<Rightarrow> cs \<noteq> [] \<and> list_all nonempty cs)"

text \<open>
  The two bundle versions. Version 2 adds a context binding and a task snapshot that must
  agree with the bundle's own hashes; the sections of a bundle that no operation below reads
  (baseline, artifacts, executor outcome, tool calls, usage) are left out.
\<close>

datatype evidence_version =
    Evidence_v1
  | Evidence_v2 (context_manifestHash: string) (task_snapshotHash: string)

record evidence_bundle =
  ev_version :: evidence_version
  ev_id :: string
  ev_runId :: string
  ev_documentId :: string
  ev_taskId :: string
  ev_attemptId :: string
  ev_taskSpecHash :: string
  ev_changes :: change_evidence
  ev_gates :: "gate_result list"
  ev_contextManifestHash :: string
  ev_contentHash :: string

definition diff_bindings_present :: "change_evidence \<Rightarrow> bool" where
  "diff_bindings_present c \<longleftrightarrow>
     ce_diffHash c \<noteq> None \<and> ce_diffRef c \<noteq> None \<and>
     ce_attemptDiffHash c \<noteq> None \<and> ce_attemptDiffRef c \<noteq> None"

definition valid_evidence_fields :: "evidence_bundle \<Rightarrow> bool" where
  "valid_evidence_fields e \<longleftrightarrow>
     nonempty (ev_id e) \<and> nonempty (ev_runId e) \<and> nonempty (ev_documentId e) \<and>
     nonempty (ev_taskId e) \<and> nonempty (ev_attemptId e) \<and> sha256 (ev_taskSpecHash e) \<and>
     valid_change_evidence (ev_changes e) \<and> list_all valid_gate_result (ev_gates e) \<and>
     sha256 (ev_contextManifestHash e) \<and> sha256 (ev_contentHash e)"

definition valid_evidence_v1 :: "evidence_bundle \<Rightarrow> bool" where
  "valid_evidence_v1 e \<longleftrightarrow> valid_evidence_fields e \<and> diff_bindings_present (ev_changes e)"

definition valid_evidence_v2 :: "string \<Rightarrow> string \<Rightarrow> evidence_bundle \<Rightarrow> bool" where
  "valid_evidence_v2 manifestHash snapshotHash e \<longleftrightarrow>
     valid_evidence_fields e \<and> sha256 manifestHash \<and> sha256 snapshotHash \<and>
     diff_bindings_present (ev_changes e) \<and>
     manifestHash = ev_contextManifestHash e \<and> snapshotHash = ev_taskSpecHash e"

definition valid_evidence :: "evidence_bundle \<Rightarrow> bool" where
  "valid_evidence e \<longleftrightarrow>
     (case ev_version e of
        Evidence_v1 \<Rightarrow> valid_evidence_v1 e
      | Evidence_v2 m t \<Rightarrow> valid_evidence_v2 m t e)"

section \<open>Decisions, receipts and overrides\<close>

datatype decision_status =
    Decision_passed | Decision_failed | Decision_revision_required | Decision_blocked
  | Decision_overridden

datatype decision_evaluation = Eval_none | Eval_external | Eval_self | Eval_manual

record completion_decision =
  cd_status :: decision_status
  cd_deterministicPassed :: bool
  cd_evaluationMode :: decision_evaluation
  cd_score :: "int option"
  cd_threshold :: "int option"
  cd_severityRulesPassed :: "bool option"
  cd_evidenceBundleId :: string
  cd_assessmentId :: "string option"
  cd_reasons :: "string list"
  cd_decidedAt :: int

definition percentage_opt :: "int option \<Rightarrow> bool" where
  "percentage_opt n \<longleftrightarrow> (case n of None \<Rightarrow> True | Some x \<Rightarrow> 0 \<le> x \<and> x \<le> 100)"

definition valid_decision :: "completion_decision \<Rightarrow> bool" where
  "valid_decision d \<longleftrightarrow>
     percentage_opt (cd_score d) \<and> percentage_opt (cd_threshold d) \<and>
     nonempty (cd_evidenceBundleId d) \<and> nonempty_opt (cd_assessmentId d) \<and>
     list_all nonempty (cd_reasons d)"

record persistence_receipt =
  pr_evidenceBundleId :: string
  pr_contentHash :: string
  pr_persistedAt :: int

definition valid_receipt :: "persistence_receipt \<Rightarrow> bool" where
  "valid_receipt p \<longleftrightarrow> nonempty (pr_evidenceBundleId p) \<and> sha256 (pr_contentHash p)"

record completion_authorization =
  au_decision :: completion_decision
  au_evidence :: evidence_bundle
  au_persistence :: persistence_receipt

definition valid_authorization :: "completion_authorization \<Rightarrow> bool" where
  "valid_authorization a \<longleftrightarrow>
     valid_decision (au_decision a) \<and> valid_evidence (au_evidence a) \<and>
     valid_receipt (au_persistence a)"

datatype audit_source = Audit_cli | Audit_tui | Audit_api

text \<open>The literal field \<^verbatim>\<open>force: true\<close> of the audit carries no information.\<close>

record override_audit =
  oa_eventId :: string
  oa_source :: audit_source
  oa_reason :: string
  oa_overriddenGateIds :: "string list"
  oa_recordedAt :: int

definition valid_audit :: "override_audit \<Rightarrow> bool" where
  "valid_audit a \<longleftrightarrow>
     nonempty (oa_eventId a) \<and> nonempty (oa_reason a) \<and>
     list_all nonempty (oa_overriddenGateIds a) \<and> distinct (oa_overriddenGateIds a)"

record override_authorization =
  oz_decision :: completion_decision
  oz_evidence :: evidence_bundle
  oz_persistence :: persistence_receipt
  oz_audit :: override_audit

definition valid_override_authorization :: "override_authorization \<Rightarrow> bool" where
  "valid_override_authorization a \<longleftrightarrow>
     valid_decision (oz_decision a) \<and> valid_evidence (oz_evidence a) \<and>
     valid_receipt (oz_persistence a) \<and> valid_audit (oz_audit a)"

section \<open>Run, task and attempt records\<close>

datatype work_source =
    Prd_source (source_prdId: string) (source_prdFile: string)
  | Adhoc_source (source_description: string) (source_descriptionHash: string)

definition parse_work_source :: "(string \<Rightarrow> string) \<Rightarrow> work_source \<Rightarrow> work_source result" where
  "parse_work_source H w =
     (case w of
        Prd_source i f \<Rightarrow> if nonempty i \<and> nonempty f then Inr w else Inl ZodError
      | Adhoc_source d h \<Rightarrow>
          (let t = js_trim d
           in if 1 \<le> length t \<and> length t \<le> 65536 \<and> sha256 h \<and> H (js_trim t) = h
              then Inr (Adhoc_source t h) else Inl ZodError))"

datatype run_mode = Mode_once | Mode_loop | Mode_wiggum | Mode_parallel

record 'o effective_options =
  eo_body :: 'o
  eo_contentHash :: string

definition valid_options :: "('o \<Rightarrow> bool) \<Rightarrow> 'o effective_options \<Rightarrow> bool" where
  "valid_options okO e \<longleftrightarrow> okO (eo_body e) \<and> sha256 (eo_contentHash e)"

record 'o run_record =
  rr_id :: string
  rr_workspaceId :: string
  rr_rootPrdId :: string
  rr_rootPrdFile :: string
  rr_source :: "work_source option"
  rr_definitionHash :: string
  rr_graphHash :: string
  rr_mode :: run_mode
  rr_status :: run_status
  rr_effectiveOptionsHash :: string
  rr_effectiveOptions :: "'o effective_options"
  rr_createdAt :: int
  rr_startedAt :: "int option"
  rr_finishedAt :: "int option"
  rr_stopReason :: "string option"
  rr_updatedAt :: int

definition source_root_id :: "work_source \<Rightarrow> string" where
  "source_root_id w =
     (case w of Prd_source i _ \<Rightarrow> i | Adhoc_source _ h \<Rightarrow> ''ad-hoc-'' @ take 16 h)"

definition source_root_file :: "work_source \<Rightarrow> string" where
  "source_root_file w =
     (case w of Prd_source _ f \<Rightarrow> f | Adhoc_source _ h \<Rightarrow> ''@ad-hoc/'' @ h)"

definition run_fields_ok :: "('o \<Rightarrow> bool) \<Rightarrow> 'o run_record \<Rightarrow> bool" where
  "run_fields_ok okO r \<longleftrightarrow>
     nonempty (rr_id r) \<and> nonempty (rr_workspaceId r) \<and> nonempty (rr_rootPrdId r) \<and>
     nonempty (rr_rootPrdFile r) \<and> sha256 (rr_definitionHash r) \<and> sha256 (rr_graphHash r) \<and>
     sha256 (rr_effectiveOptionsHash r) \<and> valid_options okO (rr_effectiveOptions r) \<and>
     nonempty_opt (rr_stopReason r)"

definition parse_run_record ::
  "(string \<Rightarrow> string) \<Rightarrow> ('o \<Rightarrow> bool) \<Rightarrow> 'o run_record \<Rightarrow> 'o run_record result" where
  "parse_run_record H okO r =
     (if run_fields_ok okO r
      then
        (case rr_source r of
           None \<Rightarrow> Inr r
         | Some w \<Rightarrow>
             and_then (parse_work_source H w) (\<lambda>w'.
               if rr_rootPrdId r = source_root_id w' \<and> rr_rootPrdFile r = source_root_file w'
               then Inr (r\<lparr>rr_source := Some w'\<rparr>) else Inl ZodError))
      else Inl ZodError)"

record task_record =
  tr_runId :: string
  tr_taskId :: string
  tr_documentId :: string
  tr_status :: task_status
  tr_markerContentHash :: string
  tr_activeAttemptId :: "string option"
  tr_completion :: "completion_decision option"
  tr_updatedAt :: int

definition valid_task_record :: "task_record \<Rightarrow> bool" where
  "valid_task_record t \<longleftrightarrow>
     nonempty (tr_runId t) \<and> nonempty (tr_taskId t) \<and> nonempty (tr_documentId t) \<and>
     sha256 (tr_markerContentHash t) \<and> nonempty_opt (tr_activeAttemptId t) \<and>
     (case tr_completion t of None \<Rightarrow> True | Some d \<Rightarrow> valid_decision d)"

definition parse_task_record :: "task_record \<Rightarrow> task_record result" where
  "parse_task_record t = (if valid_task_record t then Inr t else Inl ZodError)"

record attempt_counters =
  ac_modelCalls :: nat
  ac_toolCalls :: nat
  ac_wiggumIterations :: nat
  ac_executorRetries :: nat
  ac_watchdogRestarts :: nat
  ac_judgeTransportRetries :: nat
  ac_revisionAttempts :: nat
  ac_noChangeAttempts :: nat
  ac_gateRuns :: nat

text \<open>An attempt; its baseline and executor outcome, which no operation reads, are left out.\<close>

record 'o attempt_record =
  at_id :: string
  at_runId :: string
  at_documentId :: string
  at_taskId :: string
  at_ordinal :: nat
  at_phase :: attempt_phase
  at_status :: attempt_status
  at_contextManifestHash :: string
  at_effectiveOptionsHash :: string
  at_effectiveOptions :: "'o effective_options"
  at_counters :: attempt_counters
  at_evidenceBundleId :: "string option"
  at_completionDecision :: "completion_decision option"
  at_startedAt :: int
  at_finishedAt :: "int option"
  at_updatedAt :: int

definition valid_attempt_record :: "('o \<Rightarrow> bool) \<Rightarrow> 'o attempt_record \<Rightarrow> bool" where
  "valid_attempt_record okO a \<longleftrightarrow>
     nonempty (at_id a) \<and> nonempty (at_runId a) \<and> nonempty (at_documentId a) \<and>
     nonempty (at_taskId a) \<and> 0 < at_ordinal a \<and> sha256 (at_contextManifestHash a) \<and>
     sha256 (at_effectiveOptionsHash a) \<and> valid_options okO (at_effectiveOptions a) \<and>
     nonempty_opt (at_evidenceBundleId a) \<and>
     (case at_completionDecision a of None \<Rightarrow> True | Some d \<Rightarrow> valid_decision d) \<and>
     at_effectiveOptionsHash a = eo_contentHash (at_effectiveOptions a)"

definition parse_attempt_record ::
  "('o \<Rightarrow> bool) \<Rightarrow> 'o attempt_record \<Rightarrow> 'o attempt_record result" where
  "parse_attempt_record okO a = (if valid_attempt_record okO a then Inr a else Inl ZodError)"

section \<open>Transitions\<close>

definition transitionRunStatus ::
  "(string \<Rightarrow> string) \<Rightarrow> ('o \<Rightarrow> bool) \<Rightarrow> 'o run_record \<Rightarrow> run_status \<Rightarrow> 'o run_record result" where
  "transitionRunStatus H okO r target =
     and_then (parse_run_record H okO r) (\<lambda>current.
       if \<not> canTransitionRunStatus (rr_status current) target
       then Inl (invalidTransition ''RUN_STATUS'')
       else parse_run_record H okO (current\<lparr>rr_status := target\<rparr>))"

definition transitionTaskRuntimeStatus :: "task_record \<Rightarrow> task_status \<Rightarrow> task_record result" where
  "transitionTaskRuntimeStatus t target =
     and_then (parse_task_record t) (\<lambda>current.
       if \<not> canTransitionTaskRuntimeStatus (tr_status current) target
       then Inl (invalidTransition ''TASK_STATUS'')
       else if target = Task_completed \<or> target = Task_completed_with_override
       then Inl (TransitionError ''RALPH_TASK_COMPLETION_AUTHORITY_REQUIRED'')
       else parse_task_record (current\<lparr>tr_status := target\<rparr>))"

definition transitionAttemptPhase ::
  "('o \<Rightarrow> bool) \<Rightarrow> 'o attempt_record \<Rightarrow> attempt_phase \<Rightarrow> 'o attempt_record result" where
  "transitionAttemptPhase okO a target =
     and_then (parse_attempt_record okO a) (\<lambda>current.
       if at_status current \<noteq> Attempt_active
       then Inl (TransitionError ''RALPH_ATTEMPT_PHASE_TERMINAL'')
       else if \<not> canTransitionAttemptPhase (at_phase current) target
       then Inl (invalidTransition ''ATTEMPT_PHASE'')
       else parse_attempt_record okO (current\<lparr>at_phase := target\<rparr>))"

definition transitionAttemptStatus ::
  "('o \<Rightarrow> bool) \<Rightarrow> 'o attempt_record \<Rightarrow> attempt_status \<Rightarrow> 'o attempt_record result" where
  "transitionAttemptStatus okO a target =
     and_then (parse_attempt_record okO a) (\<lambda>current.
       if \<not> canTransitionAttemptStatus (at_status current) target
       then Inl (invalidTransition ''ATTEMPT_STATUS'')
       else parse_attempt_record okO (current\<lparr>at_status := target\<rparr>))"

section \<open>The completion authority\<close>

definition assertCompletionEvidenceBinding ::
  "task_record \<Rightarrow> completion_decision \<Rightarrow> evidence_bundle \<Rightarrow> persistence_receipt \<Rightarrow> unit result" where
  "assertCompletionEvidenceBinding current decision evidence persistence =
     (if ev_runId evidence \<noteq> tr_runId current \<or>
         ev_documentId evidence \<noteq> tr_documentId current \<or>
         ev_taskId evidence \<noteq> tr_taskId current \<or>
         tr_activeAttemptId current \<noteq> Some (ev_attemptId evidence)
      then Inl (TransitionError ''RALPH_TASK_COMPLETION_CONTEXT_MISMATCH'')
      else if cd_evidenceBundleId decision \<noteq> ev_id evidence
      then Inl (TransitionError ''RALPH_TASK_COMPLETION_EVIDENCE_MISMATCH'')
      else if pr_evidenceBundleId persistence \<noteq> ev_id evidence \<or>
              pr_contentHash persistence \<noteq> ev_contentHash evidence
      then Inl (TransitionError ''RALPH_TASK_COMPLETION_EVIDENCE_NOT_PERSISTED'')
      else if \<not> ce_reproducible (ev_changes evidence)
      then Inl (TransitionError ''RALPH_TASK_COMPLETION_EVIDENCE_NOT_REPRODUCIBLE'')
      else Inr ())"

text \<open>The filter both assertions use on the bundle's gates.\<close>

definition blocking_gate_not_passed :: "gate_result \<Rightarrow> bool" where
  "blocking_gate_not_passed gate \<longleftrightarrow>
     gr_blocking gate \<and> gr_status gate \<noteq> Gate_passed \<and>
     \<not> (gr_status gate = Gate_skipped_by_cli \<and>
        (gr_skipPolicy gate = Some Skip_allowed \<or> gr_skipPolicy gate = Some Skip_optional))"

definition evaluation_not_passed :: "completion_decision \<Rightarrow> bool" where
  "evaluation_not_passed d \<longleftrightarrow>
     cd_severityRulesPassed d = Some False \<or>
     (case (cd_score d, cd_threshold d) of (Some s, Some t) \<Rightarrow> s < t | _ \<Rightarrow> False)"

definition assertTaskCompletionAuthorized ::
  "task_record \<Rightarrow> completion_authorization \<Rightarrow> unit result" where
  "assertTaskCompletionAuthorized t a =
     and_then (parse_task_record t) (\<lambda>current.
       if \<not> valid_authorization a then Inl ZodError
       else
         (let decision = au_decision a; evidence = au_evidence a; persistence = au_persistence a
          in if \<not> canTransitionTaskRuntimeStatus (tr_status current) Task_completed
             then Inl (invalidTransition ''TASK_STATUS'')
             else if cd_status decision \<noteq> Decision_passed \<or> \<not> cd_deterministicPassed decision
             then Inl (TransitionError ''RALPH_TASK_COMPLETION_DECISION_NOT_PASSED'')
             else if evaluation_not_passed decision
             then Inl (TransitionError ''RALPH_TASK_COMPLETION_EVALUATION_NOT_PASSED'')
             else and_then (assertCompletionEvidenceBinding current decision evidence persistence)
               (\<lambda>_. if filter blocking_gate_not_passed (ev_gates evidence) \<noteq> []
                    then Inl (TransitionError ''RALPH_TASK_COMPLETION_BLOCKING_GATE_NOT_PASSED'')
                    else Inr ())))"

definition assertTaskOverrideCompletionAuthorized ::
  "task_record \<Rightarrow> override_authorization \<Rightarrow> unit result" where
  "assertTaskOverrideCompletionAuthorized t a =
     and_then (parse_task_record t) (\<lambda>current.
       if \<not> valid_override_authorization a then Inl ZodError
       else
         (let decision = oz_decision a; evidence = oz_evidence a;
              persistence = oz_persistence a; audit = oz_audit a
          in if \<not> canTransitionTaskRuntimeStatus (tr_status current) Task_completed_with_override
             then Inl (invalidTransition ''TASK_STATUS'')
             else if cd_status decision \<noteq> Decision_overridden
             then Inl (TransitionError ''RALPH_TASK_OVERRIDE_DECISION_REQUIRED'')
             else and_then (assertCompletionEvidenceBinding current decision evidence persistence)
               (\<lambda>_.
                 let nonPassedBlockingGates = filter blocking_gate_not_passed (ev_gates evidence);
                     nonOverridableGates =
                       filter (\<lambda>g. gr_status g \<noteq> Gate_skipped_by_cli) nonPassedBlockingGates;
                     expectedGateIds = sort (map gr_gateId nonPassedBlockingGates);
                     auditedGateIds = sort (oa_overriddenGateIds audit)
                 in if nonOverridableGates \<noteq> []
                    then Inl (TransitionError ''RALPH_TASK_OVERRIDE_BLOCKING_GATE_NOT_OVERRIDABLE'')
                    else if expectedGateIds \<noteq> auditedGateIds
                    then Inl (TransitionError ''RALPH_TASK_OVERRIDE_AUDIT_MISMATCH'')
                    else Inr ())))"

definition completeTask :: "task_record \<Rightarrow> completion_authorization \<Rightarrow> task_record result" where
  "completeTask t a =
     and_then (parse_task_record t) (\<lambda>current.
       if \<not> valid_authorization a then Inl ZodError
       else and_then (assertTaskCompletionAuthorized current a) (\<lambda>_.
         parse_task_record
           (current\<lparr>tr_status := Task_completed, tr_completion := Some (au_decision a),
                    tr_activeAttemptId := None\<rparr>)))"

definition completeTaskWithOverride ::
  "task_record \<Rightarrow> override_authorization \<Rightarrow> task_record result" where
  "completeTaskWithOverride t a =
     and_then (parse_task_record t) (\<lambda>current.
       if \<not> valid_override_authorization a then Inl ZodError
       else and_then (assertTaskOverrideCompletionAuthorized current a) (\<lambda>_.
         parse_task_record
           (current\<lparr>tr_status := Task_completed_with_override, tr_completion := Some (oz_decision a),
                    tr_activeAttemptId := None\<rparr>)))"

section \<open>Facts on the matrices\<close>

lemmas transition_defs =
  canTransitionRunStatus_def canTransitionTaskRuntimeStatus_def
  canTransitionAttemptPhase_def canTransitionAttemptStatus_def allows_def

lemma to_completed_iff [simp]:
  "canTransitionTaskRuntimeStatus s Task_completed \<longleftrightarrow> s = Task_evaluating"
  "canTransitionTaskRuntimeStatus s Task_completed_with_override \<longleftrightarrow> s = Task_evaluating"
  by (cases s; simp add: transition_defs)+

definition run_terminal :: "run_status \<Rightarrow> bool" where
  "run_terminal s \<longleftrightarrow> s = Run_completed \<or> s = Run_failed \<or> s = Run_cancelled"

definition task_terminal :: "task_status \<Rightarrow> bool" where
  "task_terminal s \<longleftrightarrow>
     s = Task_rejected \<or> s = Task_cancelled \<or> s = Task_completed \<or> s = Task_completed_with_override"

lemma run_terminal_iff: "run_terminal s \<longleftrightarrow> (\<forall>s'. \<not> canTransitionRunStatus s s')"
  by (cases s) (auto simp: run_terminal_def transition_defs)

lemma task_terminal_iff: "task_terminal s \<longleftrightarrow> (\<forall>s'. \<not> canTransitionTaskRuntimeStatus s s')"
  by (cases s) (auto simp: task_terminal_def transition_defs)

section \<open>Parsing\<close>

lemma parse_task_record_Inr [simp]: "parse_task_record t = Inr t' \<longleftrightarrow> valid_task_record t \<and> t' = t"
  by (auto simp: parse_task_record_def)

lemma parse_attempt_record_Inr [simp]:
  "parse_attempt_record okO a = Inr a' \<longleftrightarrow> valid_attempt_record okO a \<and> a' = a"
  by (auto simp: parse_attempt_record_def)

lemma parse_work_source_idem: "parse_work_source H w = Inr w' \<Longrightarrow> parse_work_source H w' = Inr w'"
  by (cases w) (auto simp: parse_work_source_def Let_def split: if_splits)

definition run_source_ok :: "(string \<Rightarrow> string) \<Rightarrow> 'o run_record \<Rightarrow> bool" where
  "run_source_ok H r \<longleftrightarrow>
     (case rr_source r of
        None \<Rightarrow> True
      | Some w \<Rightarrow> parse_work_source H w = Inr w \<and> rr_rootPrdId r = source_root_id w \<and>
          rr_rootPrdFile r = source_root_file w)"

lemma run_fields_ok_update [simp]:
  "run_fields_ok okO (r\<lparr>rr_status := s\<rparr>) = run_fields_ok okO r"
  "run_fields_ok okO (r\<lparr>rr_source := w\<rparr>) = run_fields_ok okO r"
  by (simp_all add: run_fields_ok_def)

lemma run_source_ok_update [simp]: "run_source_ok H (r\<lparr>rr_status := s\<rparr>) = run_source_ok H r"
  by (simp add: run_source_ok_def split: option.splits)

lemma parse_run_record_fixed:
  "run_fields_ok okO r \<Longrightarrow> run_source_ok H r \<Longrightarrow> parse_run_record H okO r = Inr r"
  by (auto simp: parse_run_record_def run_source_ok_def split: option.splits)

lemma parse_run_recordD:
  assumes "parse_run_record H okO r = Inr r'"
  shows "run_fields_ok okO r' \<and> run_source_ok H r' \<and> r' = r\<lparr>rr_source := rr_source r'\<rparr>"
proof (cases "rr_source r")
  case None
  with assms show ?thesis
    by (auto simp: parse_run_record_def run_source_ok_def split: if_splits)
next
  case (Some w)
  with assms obtain w' where "run_fields_ok okO r" and "parse_work_source H w = Inr w'"
    and "rr_rootPrdId r = source_root_id w'" and "rr_rootPrdFile r = source_root_file w'"
    and "r' = r\<lparr>rr_source := Some w'\<rparr>"
    by (auto simp: parse_run_record_def result_simps split: if_splits)
  then show ?thesis
    by (auto simp: run_source_ok_def dest: parse_work_source_idem)
qed

lemma parse_run_record_status:
  "parse_run_record H okO r = Inr r' \<Longrightarrow>
   parse_run_record H okO (r'\<lparr>rr_status := s\<rparr>) = Inr (r'\<lparr>rr_status := s\<rparr>)"
  by (drule parse_run_recordD) (simp add: parse_run_record_fixed)

lemma parse_run_record_idem: "parse_run_record H okO r = Inr r' \<Longrightarrow> parse_run_record H okO r' = Inr r'"
  by (drule parse_run_recordD) (simp add: parse_run_record_fixed)

section \<open>Completion, declaratively\<close>

text \<open>
  What Ralph promises of a completion: the decision passed deterministically, no evaluation
  result contradicts it, the evidence is that of the active attempt, persisted exactly and
  reproducible, and every blocking gate passed or was skippable and skipped by the command.
\<close>

definition evidence_bound ::
  "task_record \<Rightarrow> completion_decision \<Rightarrow> evidence_bundle \<Rightarrow> persistence_receipt \<Rightarrow> bool" where
  "evidence_bound t d e p \<longleftrightarrow>
     ev_runId e = tr_runId t \<and> ev_documentId e = tr_documentId t \<and> ev_taskId e = tr_taskId t \<and>
     tr_activeAttemptId t = Some (ev_attemptId e) \<and> cd_evidenceBundleId d = ev_id e \<and>
     pr_evidenceBundleId p = ev_id e \<and> pr_contentHash p = ev_contentHash e \<and>
     ce_missingContent (ev_changes e) = []"

definition gate_settled :: "gate_result \<Rightarrow> bool" where
  "gate_settled g \<longleftrightarrow>
     gr_status g = Gate_passed \<or>
     gr_status g = Gate_skipped_by_cli \<and> gr_skipPolicy g \<in> {Some Skip_allowed, Some Skip_optional}"

definition completion_granted :: "task_record \<Rightarrow> completion_authorization \<Rightarrow> bool" where
  "completion_granted t a \<longleftrightarrow>
     tr_status t = Task_evaluating \<and>
     cd_status (au_decision a) = Decision_passed \<and> cd_deterministicPassed (au_decision a) \<and>
     cd_severityRulesPassed (au_decision a) \<noteq> Some False \<and>
     (\<forall>s t'. cd_score (au_decision a) = Some s \<longrightarrow> cd_threshold (au_decision a) = Some t' \<longrightarrow> t' \<le> s) \<and>
     evidence_bound t (au_decision a) (au_evidence a) (au_persistence a) \<and>
     (\<forall>g \<in> set (ev_gates (au_evidence a)). gr_blocking g \<longrightarrow> gate_settled g)"

definition override_granted :: "task_record \<Rightarrow> override_authorization \<Rightarrow> bool" where
  "override_granted t a \<longleftrightarrow>
     tr_status t = Task_evaluating \<and> cd_status (oz_decision a) = Decision_overridden \<and>
     evidence_bound t (oz_decision a) (oz_evidence a) (oz_persistence a) \<and>
     (\<forall>g \<in> set (ev_gates (oz_evidence a)). gr_blocking g \<longrightarrow>
        gate_settled g \<or> gr_status g = Gate_skipped_by_cli) \<and>
     (\<forall>i. i \<in> set (oa_overriddenGateIds (oz_audit a)) \<longleftrightarrow>
        (\<exists>g \<in> set (ev_gates (oz_evidence a)). gr_blocking g \<and> \<not> gate_settled g \<and> gr_gateId g = i))"

lemma blocking_gate_not_passed_iff:
  "blocking_gate_not_passed g \<longleftrightarrow> gr_blocking g \<and> \<not> gate_settled g"
  by (auto simp: blocking_gate_not_passed_def gate_settled_def)

lemma evaluation_not_passed_iff:
  "evaluation_not_passed d \<longleftrightarrow>
     cd_severityRulesPassed d = Some False \<or>
     (\<exists>s t. cd_score d = Some s \<and> cd_threshold d = Some t \<and> s < t)"
  by (auto simp: evaluation_not_passed_def split: option.splits)

lemma valid_evidence_changes: "valid_evidence e \<Longrightarrow> valid_change_evidence (ev_changes e)"
  by (auto simp: valid_evidence_def valid_evidence_v1_def valid_evidence_v2_def
                 valid_evidence_fields_def split: evidence_version.splits)

lemma valid_evidence_reproducible:
  "valid_evidence e \<Longrightarrow> ce_reproducible (ev_changes e) \<longleftrightarrow> ce_missingContent (ev_changes e) = []"
  by (drule valid_evidence_changes) (simp add: valid_change_evidence_def)

lemma assert_binding_Inr:
  "valid_evidence e \<Longrightarrow> assertCompletionEvidenceBinding t d e p = Inr u \<longleftrightarrow> evidence_bound t d e p"
  by (auto simp: assertCompletionEvidenceBinding_def evidence_bound_def valid_evidence_reproducible)

lemma assert_completion_Inr:
  "assertTaskCompletionAuthorized t a = Inr u \<longleftrightarrow>
     valid_task_record t \<and> valid_authorization a \<and> completion_granted t a"
  by (auto simp: assertTaskCompletionAuthorized_def result_simps Let_def completion_granted_def
        evaluation_not_passed_iff assert_binding_Inr valid_authorization_def
        filter_empty_conv blocking_gate_not_passed_iff not_less split: if_splits)

text \<open>The sorted comparison of the override audit is equality of the identifiers as multisets.\<close>

lemma sort_eq_iff_mset: "sort xs = sort ys \<longleftrightarrow> mset xs = mset (ys :: 'a :: linorder list)"
  by (metis mset_sort properties_for_sort sorted_sort)

definition unsettled_gate_ids :: "evidence_bundle \<Rightarrow> string list" where
  "unsettled_gate_ids e = map gr_gateId (filter blocking_gate_not_passed (ev_gates e))"

lemma set_unsettled_gate_ids:
  "i \<in> set (unsettled_gate_ids e) \<longleftrightarrow>
     (\<exists>g \<in> set (ev_gates e). gr_blocking g \<and> \<not> gate_settled g \<and> gr_gateId g = i)"
  by (auto simp: unsettled_gate_ids_def blocking_gate_not_passed_iff)

lemma assert_override_Inr:
  "assertTaskOverrideCompletionAuthorized t a = Inr u \<longleftrightarrow>
     valid_task_record t \<and> valid_override_authorization a \<and>
     tr_status t = Task_evaluating \<and> cd_status (oz_decision a) = Decision_overridden \<and>
     evidence_bound t (oz_decision a) (oz_evidence a) (oz_persistence a) \<and>
     (\<forall>g \<in> set (ev_gates (oz_evidence a)). gr_blocking g \<longrightarrow>
        gate_settled g \<or> gr_status g = Gate_skipped_by_cli) \<and>
     mset (oa_overriddenGateIds (oz_audit a)) = mset (unsettled_gate_ids (oz_evidence a))"
  by (auto simp: assertTaskOverrideCompletionAuthorized_def result_simps Let_def
        assert_binding_Inr valid_override_authorization_def filter_empty_conv
        blocking_gate_not_passed_iff sort_eq_iff_mset unsettled_gate_ids_def split: if_splits)

lemma override_granted_iff:
  "assertTaskOverrideCompletionAuthorized t a = Inr u \<longleftrightarrow>
     valid_task_record t \<and> valid_override_authorization a \<and> override_granted t a \<and>
     distinct (unsettled_gate_ids (oz_evidence a))"
proof -
  have d: "valid_override_authorization a \<Longrightarrow> distinct (oa_overriddenGateIds (oz_audit a))"
    by (simp add: valid_override_authorization_def valid_audit_def)
  have m: "distinct xs \<Longrightarrow> mset xs = mset ys \<longleftrightarrow> set xs = set ys \<and> distinct ys" for xs ys :: "string list"
    by (metis mset_eq_imp_distinct_iff mset_eq_setD set_eq_iff_mset_eq_distinct)
  show ?thesis
    unfolding assert_override_Inr override_granted_def
    using d m [of "oa_overriddenGateIds (oz_audit a)" "unsettled_gate_ids (oz_evidence a)"]
    by (auto simp: set_unsettled_gate_ids)
qed

lemma completeTask_Inr:
  "completeTask t a = Inr t' \<longleftrightarrow>
     valid_task_record t \<and> valid_authorization a \<and> completion_granted t a \<and>
     t' = t\<lparr>tr_status := Task_completed, tr_completion := Some (au_decision a),
            tr_activeAttemptId := None\<rparr>"
  by (auto simp: completeTask_def result_simps assert_completion_Inr valid_task_record_def
        valid_authorization_def nonempty_opt_def)

lemma completeTaskWithOverride_Inr:
  "completeTaskWithOverride t a = Inr t' \<longleftrightarrow>
     valid_task_record t \<and> valid_override_authorization a \<and> override_granted t a \<and>
     distinct (unsettled_gate_ids (oz_evidence a)) \<and>
     t' = t\<lparr>tr_status := Task_completed_with_override, tr_completion := Some (oz_decision a),
            tr_activeAttemptId := None\<rparr>"
  by (auto simp: completeTaskWithOverride_def result_simps override_granted_iff
        valid_task_record_def valid_override_authorization_def nonempty_opt_def)

lemma transitionTask_Inr:
  "transitionTaskRuntimeStatus t s = Inr t' \<longleftrightarrow>
     valid_task_record t \<and> canTransitionTaskRuntimeStatus (tr_status t) s \<and>
     s \<noteq> Task_completed \<and> s \<noteq> Task_completed_with_override \<and> t' = t\<lparr>tr_status := s\<rparr>"
  by (auto simp: transitionTaskRuntimeStatus_def result_simps valid_task_record_def split: if_splits)

section \<open>The life of a task record\<close>

text \<open>Every exported function that returns an updated task record is one kind of step.\<close>

inductive task_step :: "task_record \<Rightarrow> task_record \<Rightarrow> bool" where
  transition: "transitionTaskRuntimeStatus t s = Inr t' \<Longrightarrow> task_step t t'"
| complete: "completeTask t a = Inr t' \<Longrightarrow> task_step t t'"
| override: "completeTaskWithOverride t z = Inr t' \<Longrightarrow> task_step t t'"

inductive_cases task_stepE: "task_step t t'"

inductive task_reaches :: "task_record \<Rightarrow> task_record \<Rightarrow> bool" where
  here: "task_reaches t t"
| more: "task_reaches t u \<Longrightarrow> task_step u v \<Longrightarrow> task_reaches t v"

lemma task_step_status: "task_step t t' \<Longrightarrow> canTransitionTaskRuntimeStatus (tr_status t) (tr_status t')"
  by (erule task_stepE)
     (auto simp: transitionTask_Inr completeTask_Inr completeTaskWithOverride_Inr
        completion_granted_def override_granted_def)

lemma task_step_identity:
  "task_step t t' \<Longrightarrow>
     tr_runId t' = tr_runId t \<and> tr_taskId t' = tr_taskId t \<and> tr_documentId t' = tr_documentId t \<and>
     tr_markerContentHash t' = tr_markerContentHash t"
  by (erule task_stepE) (auto simp: transitionTask_Inr completeTask_Inr completeTaskWithOverride_Inr)

lemma no_step_from_terminal: "task_terminal (tr_status t) \<Longrightarrow> \<not> task_step t t'"
  using task_step_status task_terminal_iff by blast

lemma task_step_completed:
  "task_step t t' \<Longrightarrow> tr_status t' = Task_completed \<Longrightarrow> \<exists>a. completeTask t a = Inr t'"
  by (erule task_stepE) (auto simp: transitionTask_Inr completeTaskWithOverride_Inr)

lemma task_step_overridden:
  "task_step t t' \<Longrightarrow> tr_status t' = Task_completed_with_override \<Longrightarrow>
   \<exists>z. completeTaskWithOverride t z = Inr t'"
  by (erule task_stepE) (auto simp: transitionTask_Inr completeTask_Inr)

lemma task_reaches_last:
  "task_reaches t v \<Longrightarrow> t = v \<or> (\<exists>u. task_reaches t u \<and> task_step u v)"
  by (erule task_reaches.cases) auto

section \<open>Sequences of transitions\<close>

fun run_attempt_phases ::
  "('o \<Rightarrow> bool) \<Rightarrow> 'o attempt_record \<Rightarrow> attempt_phase list \<Rightarrow> 'o attempt_record result" where
  "run_attempt_phases okO a [] = Inr a"
| "run_attempt_phases okO a (p # ps) =
     and_then (transitionAttemptPhase okO a p) (\<lambda>b. run_attempt_phases okO b ps)"

fun run_statuses ::
  "(string \<Rightarrow> string) \<Rightarrow> ('o \<Rightarrow> bool) \<Rightarrow> 'o run_record \<Rightarrow> run_status list \<Rightarrow> 'o run_record result" where
  "run_statuses H okO r [] = Inr r"
| "run_statuses H okO r (s # ss) =
     and_then (transitionRunStatus H okO r s) (\<lambda>u. run_statuses H okO u ss)"

lemma transitionAttemptPhase_Inr:
  "transitionAttemptPhase okO a p = Inr b \<longleftrightarrow>
     valid_attempt_record okO a \<and> at_status a = Attempt_active \<and>
     canTransitionAttemptPhase (at_phase a) p \<and> b = a\<lparr>at_phase := p\<rparr>"
  by (auto simp: transitionAttemptPhase_def result_simps valid_attempt_record_def split: if_splits)

lemma transitionRunStatus_Inr:
  "transitionRunStatus H okO r s = Inr u \<longleftrightarrow>
     (\<exists>r'. parse_run_record H okO r = Inr r' \<and> canTransitionRunStatus (rr_status r) s \<and>
           u = r'\<lparr>rr_status := s\<rparr>)"
proof (cases "parse_run_record H okO r")
  case (Inl e)
  then show ?thesis by (simp add: transitionRunStatus_def)
next
  case (Inr r')
  then have "rr_status r' = rr_status r"
    by (metis parse_run_recordD run_record.ext_inject run_record.surjective run_record.update_convs(5))
  with Inr parse_run_record_status [OF Inr] show ?thesis
    by (auto simp: transitionRunStatus_def)
qed

fun phase_path :: "attempt_phase \<Rightarrow> attempt_phase list \<Rightarrow> bool" where
  "phase_path p [] = True"
| "phase_path p (q # qs) \<longleftrightarrow> canTransitionAttemptPhase p q \<and> phase_path q qs"

lemma run_attempt_phases_path:
  "run_attempt_phases okO a ps = Inr b \<Longrightarrow>
   phase_path (at_phase a) ps \<and> at_phase b = last (at_phase a # ps)"
proof (induction ps arbitrary: a)
  case Nil
  then show ?case by simp
next
  case (Cons p ps)
  then obtain c where c: "transitionAttemptPhase okO a p = Inr c" and "run_attempt_phases okO c ps = Inr b"
    by (auto simp: and_then_Inr)
  with Cons.IH have "phase_path (at_phase c) ps \<and> at_phase b = last (at_phase c # ps)"
    by blast
  moreover have "at_phase c = p" and "canTransitionAttemptPhase (at_phase a) p"
    using c by (simp_all add: transitionAttemptPhase_Inr)
  ultimately show ?case by simp
qed

text \<open>Before the evidence is collected an attempt prepares, invokes, uses tools and settles.\<close>

definition working_phase :: "attempt_phase \<Rightarrow> bool" where
  "working_phase p \<longleftrightarrow>
     p \<in> {Phase_created, Phase_preparing, Phase_invoking, Phase_tools, Phase_settling}"

lemma working_successor:
  "working_phase p \<Longrightarrow> canTransitionAttemptPhase p q \<Longrightarrow> working_phase q \<or> q = Phase_evidence"
  by (auto simp: working_phase_def transition_defs)

lemma path_from_decision: "phase_path Phase_decision ps \<Longrightarrow> ps = []"
  by (cases ps) (auto simp: transition_defs)

lemma path_from_judgment:
  "phase_path Phase_judgment ps \<Longrightarrow> last (Phase_judgment # ps) = Phase_decision \<Longrightarrow>
   ps = [Phase_decision]"
  by (cases ps) (auto simp: transition_defs dest: path_from_decision)

lemma path_from_gates:
  "phase_path Phase_gates ps \<Longrightarrow> last (Phase_gates # ps) = Phase_decision \<Longrightarrow>
   ps = [Phase_decision] \<or> ps = [Phase_judgment, Phase_decision]"
  by (cases ps) (auto simp: transition_defs dest: path_from_decision path_from_judgment)

lemma path_from_evidence:
  "phase_path Phase_evidence ps \<Longrightarrow> last (Phase_evidence # ps) = Phase_decision \<Longrightarrow>
   ps = [Phase_gates, Phase_decision] \<or> ps = [Phase_gates, Phase_judgment, Phase_decision]"
  by (cases ps) (auto simp: transition_defs dest!: path_from_gates)

lemma path_to_decision:
  assumes "phase_path p ps" and "working_phase p" and "last (p # ps) = Phase_decision"
  shows "\<exists>pre post. ps = pre @ Phase_evidence # Phase_gates # post \<and>
           list_all working_phase pre \<and>
           (post = [Phase_decision] \<or> post = [Phase_judgment, Phase_decision])"
  using assms
proof (induction ps arbitrary: p)
  case Nil
  then show ?case by (simp add: working_phase_def)
next
  case (Cons q qs)
  show ?case
  proof (cases "q = Phase_evidence")
    case True
    with Cons.prems have "qs = [Phase_gates, Phase_decision] \<or> qs = [Phase_gates, Phase_judgment, Phase_decision]"
      by (intro path_from_evidence) auto
    then show ?thesis
      using True by (intro exI [of _ "[]"] exI [of _ "tl qs"]) auto
  next
    case False
    with Cons.prems have "working_phase q"
      using working_successor by auto
    moreover have "phase_path q qs" and "last (q # qs) = Phase_decision"
      using Cons.prems by auto
    ultimately obtain pre post where "qs = pre @ Phase_evidence # Phase_gates # post"
      and "list_all working_phase pre"
      and "post = [Phase_decision] \<or> post = [Phase_judgment, Phase_decision]"
      using Cons.IH by blast
    then show ?thesis
      using \<open>working_phase q\<close> by (intro exI [of _ "q # pre"] exI [of _ post]) auto
  qed
qed

lemma run_statuses_through:
  assumes "run_statuses H okO r ss = Inr r'" and "rr_status r = Run_stopping"
    and "Run_interrupted \<notin> set ss"
  shows "rr_status r' = Run_stopping \<or> run_terminal (rr_status r')"
proof -
  have step: "transitionRunStatus H okO r s = Inr u \<Longrightarrow>
      rr_status u = s \<and> canTransitionRunStatus (rr_status r) s" for r u :: "'a run_record" and s
    by (auto simp: transitionRunStatus_Inr)
  have "run_statuses H okO r ss = Inr r' \<Longrightarrow> Run_interrupted \<notin> set ss \<Longrightarrow>
      rr_status r = Run_stopping \<or> run_terminal (rr_status r) \<Longrightarrow>
      rr_status r' = Run_stopping \<or> run_terminal (rr_status r')"
  proof (induction ss arbitrary: r)
    case Nil
    then show ?case by simp
  next
    case (Cons s ss)
    then obtain u where u: "transitionRunStatus H okO r s = Inr u" "run_statuses H okO u ss = Inr r'"
      by (auto simp: and_then_Inr)
    have "rr_status u = s" and "canTransitionRunStatus (rr_status r) s" and "s \<noteq> Run_interrupted"
      using step [OF u(1)] Cons.prems by auto
    then have "rr_status u = Run_stopping \<or> run_terminal (rr_status u)"
      using Cons.prems(3) by (auto simp: run_terminal_def transition_defs)
    with u Cons show ?case by auto
  qed
  with assms show ?thesis by blast
qed

section \<open>Sample records\<close>

definition sample_hash :: string where
  "sample_hash = replicate 64 (CHR ''a'')"

definition sample_changes :: change_evidence where
  "sample_changes =
     \<lparr>ce_policy = Require_change, ce_status = Changed, ce_files = [], ce_outsideScopePaths = [],
      ce_reproducible = True, ce_missingContent = [],
      ce_diffHash = Some sample_hash, ce_diffRef = Some ''d'',
      ce_attemptDiffHash = Some sample_hash, ce_attemptDiffRef = Some ''a''\<rparr>"

definition sample_gate :: "string \<Rightarrow> gate_status \<Rightarrow> gate_result" where
  "sample_gate i s =
     \<lparr>gr_gateId = i, gr_category = ''test'', gr_blocking = True, gr_skipPolicy = None,
      gr_criterionIds = None, gr_status = s, gr_exitCode = None, gr_durationMs = 5,
      gr_reason = None\<rparr>"

definition sample_evidence :: "gate_result list \<Rightarrow> evidence_bundle" where
  "sample_evidence gs =
     \<lparr>ev_version = Evidence_v1, ev_id = ''e'', ev_runId = ''r'', ev_documentId = ''d'',
      ev_taskId = ''t'', ev_attemptId = ''a'', ev_taskSpecHash = sample_hash,
      ev_changes = sample_changes, ev_gates = gs, ev_contextManifestHash = sample_hash,
      ev_contentHash = sample_hash\<rparr>"

definition sample_decision :: "decision_status \<Rightarrow> completion_decision" where
  "sample_decision s =
     \<lparr>cd_status = s, cd_deterministicPassed = True, cd_evaluationMode = Eval_external,
      cd_score = Some 90, cd_threshold = Some 85, cd_severityRulesPassed = Some True,
      cd_evidenceBundleId = ''e'', cd_assessmentId = None, cd_reasons = [''ok''],
      cd_decidedAt = 7\<rparr>"

definition sample_receipt :: persistence_receipt where
  "sample_receipt =
     \<lparr>pr_evidenceBundleId = ''e'', pr_contentHash = sample_hash, pr_persistedAt = 6\<rparr>"

definition sample_authorization :: completion_authorization where
  "sample_authorization =
     \<lparr>au_decision = sample_decision Decision_passed,
      au_evidence = sample_evidence [sample_gate ''g'' Gate_passed],
      au_persistence = sample_receipt\<rparr>"

definition sample_override :: override_authorization where
  "sample_override =
     \<lparr>oz_decision = sample_decision Decision_overridden,
      oz_evidence = sample_evidence [sample_gate ''g'' Gate_passed, sample_gate ''h'' Gate_skipped_by_cli],
      oz_persistence = sample_receipt,
      oz_audit = \<lparr>oa_eventId = ''v'', oa_source = Audit_cli, oa_reason = ''because'',
                  oa_overriddenGateIds = [''h''], oa_recordedAt = 8\<rparr>\<rparr>"

definition sample_task :: task_record where
  "sample_task =
     \<lparr>tr_runId = ''r'', tr_taskId = ''t'', tr_documentId = ''d'', tr_status = Task_evaluating,
      tr_markerContentHash = sample_hash, tr_activeAttemptId = Some ''a'', tr_completion = None,
      tr_updatedAt = 1\<rparr>"

definition sample_run :: "run_status \<Rightarrow> unit run_record" where
  "sample_run s =
     \<lparr>rr_id = ''r'', rr_workspaceId = ''w'', rr_rootPrdId = ''p'', rr_rootPrdFile = ''p.md'',
      rr_source = None, rr_definitionHash = sample_hash, rr_graphHash = sample_hash,
      rr_mode = Mode_loop, rr_status = s, rr_effectiveOptionsHash = sample_hash,
      rr_effectiveOptions = \<lparr>eo_body = (), eo_contentHash = sample_hash\<rparr>,
      rr_createdAt = 0, rr_startedAt = None, rr_finishedAt = None, rr_stopReason = None,
      rr_updatedAt = 0\<rparr>"

definition sample_attempt :: "unit attempt_record" where
  "sample_attempt =
     \<lparr>at_id = ''a'', at_runId = ''r'', at_documentId = ''d'', at_taskId = ''t'', at_ordinal = 1,
      at_phase = Phase_created, at_status = Attempt_active, at_contextManifestHash = sample_hash,
      at_effectiveOptionsHash = sample_hash,
      at_effectiveOptions = \<lparr>eo_body = (), eo_contentHash = sample_hash\<rparr>,
      at_counters = \<lparr>ac_modelCalls = 0, ac_toolCalls = 0, ac_wiggumIterations = 0,
        ac_executorRetries = 0, ac_watchdogRestarts = 0, ac_judgeTransportRetries = 0,
        ac_revisionAttempts = 0, ac_noChangeAttempts = 0, ac_gateRuns = 0\<rparr>,
      at_evidenceBundleId = None, at_completionDecision = None, at_startedAt = 0,
      at_finishedAt = None, at_updatedAt = 0\<rparr>"

lemma sample_run_parses: "parse_run_record id (\<lambda>_. True) (sample_run s) = Inr (sample_run s)"
  unfolding parse_run_record_def sample_run_def run_fields_ok_def by code_simp

lemma sample_complete:
  "ok (completeTask sample_task sample_authorization)"
  "ok (completeTaskWithOverride sample_task sample_override)"
  by code_simp+

section \<open>Properties\<close>


definition sample_completed :: task_record where
  "sample_completed = sample_task\<lparr>tr_status := Task_completed,
     tr_completion := Some (sample_decision Decision_passed), tr_activeAttemptId := None\<rparr>"


text \<open>
  \<open>completeTask\<close> succeeds exactly when the records parse and the completion is granted,
  and then changes nothing but the status, the stored decision and the active attempt.
\<close>

theorem complete_task_characterised:
  "completeTask t a = Inr t' \<longleftrightarrow>
     valid_task_record t \<and> valid_authorization a \<and> completion_granted t a \<and>
     t' = t\<lparr>tr_status := Task_completed, tr_completion := Some (au_decision a),
            tr_activeAttemptId := None\<rparr>"
  by (rule completeTask_Inr)

text \<open>
  C17. An override completes a task only over gates that the command skipped: every blocking
  gate that was not skipped by the command passed, and the audit's list of gate identifiers is,
  up to its order, that of the unsettled blocking gate results of the evidence. It has no
  duplicates, so every unsettled blocking gate is listed exactly once and no other gate is; and
  what it lists was skipped by the command without a policy that lets it be skipped.
\<close>

theorem override_names_exactly_the_skipped_gates:
  assumes "completeTaskWithOverride t z = Inr t'"
  shows "set (oa_overriddenGateIds (oz_audit z)) =
           gr_gateId ` {g \<in> set (ev_gates (oz_evidence z)). gr_blocking g \<and> \<not> gate_settled g} \<and>
         distinct (oa_overriddenGateIds (oz_audit z)) \<and>
         mset (oa_overriddenGateIds (oz_audit z)) =
           image_mset gr_gateId {#g \<in># mset (ev_gates (oz_evidence z)). gr_blocking g \<and> \<not> gate_settled g#} \<and>
         distinct (unsettled_gate_ids (oz_evidence z)) \<and>
         (\<forall>g \<in> set (ev_gates (oz_evidence z)). gr_blocking g \<and> \<not> gate_settled g \<longrightarrow>
            gr_status g = Gate_skipped_by_cli \<and> gr_skipPolicy g \<notin> {Some Skip_allowed, Some Skip_optional}) \<and>
         (\<forall>g \<in> set (ev_gates (oz_evidence z)).
            gr_blocking g \<longrightarrow> gr_status g \<noteq> Gate_skipped_by_cli \<longrightarrow> gr_status g = Gate_passed)"
proof -
  have z: "valid_override_authorization z" "override_granted t z"
      "distinct (unsettled_gate_ids (oz_evidence z))"
    using assms by (simp_all add: completeTaskWithOverride_Inr)
  have "assertTaskOverrideCompletionAuthorized t z = Inr ()"
    using assms by (simp add: completeTaskWithOverride_Inr override_granted_iff)
  then have "mset (oa_overriddenGateIds (oz_audit z)) = mset (unsettled_gate_ids (oz_evidence z))"
    by (simp add: assert_override_Inr)
  moreover have "distinct (oa_overriddenGateIds (oz_audit z))"
    using z(1) by (simp add: valid_override_authorization_def valid_audit_def)
  moreover have "blocking_gate_not_passed = (\<lambda>g. gr_blocking g \<and> \<not> gate_settled g)"
    by (rule ext) (rule blocking_gate_not_passed_iff)
  ultimately show ?thesis
    using z(2,3) unfolding override_granted_def
    by (auto simp: gate_settled_def unsettled_gate_ids_def)
qed

theorem override_names_exactly_the_skipped_gates_witness:
  "\<exists>t'. completeTaskWithOverride sample_task sample_override = Inr t' \<and>
     mset (oa_overriddenGateIds (oz_audit sample_override)) =
       image_mset gr_gateId
         {#g \<in># mset (ev_gates (oz_evidence sample_override)). gr_blocking g \<and> \<not> gate_settled g#} \<and>
     set (oa_overriddenGateIds (oz_audit sample_override)) =
       gr_gateId ` {g \<in> set (ev_gates (oz_evidence sample_override)). gr_blocking g \<and> \<not> gate_settled g}"
  using sample_complete(2) override_names_exactly_the_skipped_gates [of sample_task sample_override]
  by (auto simp: ok_iff)

text \<open>
  An attempt driven by \<open>transitionAttemptPhase\<close> from its creation to its decision works for
  any number of invocations, then collects evidence once, runs the gates immediately after,
  and decides right then or after one judgment: no phase order skips evidence or gates.
\<close>

theorem attempt_decides_on_evidence_and_gates:
  assumes "run_attempt_phases okO a ps = Inr b"
    and "at_phase a = Phase_created" and "at_phase b = Phase_decision"
  shows "\<exists>pre post. ps = pre @ Phase_evidence # Phase_gates # post \<and> list_all working_phase pre \<and>
           (post = [Phase_decision] \<or> post = [Phase_judgment, Phase_decision])"
  using run_attempt_phases_path [OF assms(1)] assms(2,3)
  by (intro path_to_decision) (auto simp: working_phase_def)

definition sample_phases :: "attempt_phase list" where
  "sample_phases = [Phase_preparing, Phase_invoking, Phase_tools, Phase_settling, Phase_invoking,
     Phase_settling, Phase_evidence, Phase_gates, Phase_decision]"

theorem attempt_decides_on_evidence_and_gates_witness:
  "\<exists>pre post. sample_phases = pre @ Phase_evidence # Phase_gates # post \<and> list_all working_phase pre \<and>
     (post = [Phase_decision] \<or> post = [Phase_judgment, Phase_decision])"
proof -
  have "run_attempt_phases (\<lambda>_. True) sample_attempt sample_phases =
          Inr (sample_attempt\<lparr>at_phase := Phase_decision\<rparr>)"
    by code_simp
  then show ?thesis
    by (rule attempt_decides_on_evidence_and_gates) (simp_all add: sample_attempt_def)
qed

text \<open>
  A run that parses can be cancelled by one transition unless it is terminal, and a terminal
  run refuses every transition with the transition error.
\<close>

theorem run_cancellable_or_final:
  assumes "parse_run_record H okO r = Inr r"
  shows "(ok (transitionRunStatus H okO r Run_cancelled) \<longleftrightarrow> \<not> run_terminal (rr_status r)) \<and>
         (run_terminal (rr_status r) \<longrightarrow>
           transitionRunStatus H okO r s = Inl (TransitionError ''RALPH_RUN_STATUS_TRANSITION_INVALID''))"
proof
  show "ok (transitionRunStatus H okO r Run_cancelled) \<longleftrightarrow> \<not> run_terminal (rr_status r)"
    using assms
    by (cases "rr_status r") (auto simp: ok_iff transitionRunStatus_Inr run_terminal_def transition_defs)
  show "run_terminal (rr_status r) \<longrightarrow>
      transitionRunStatus H okO r s = Inl (TransitionError ''RALPH_RUN_STATUS_TRANSITION_INVALID'')"
    using assms run_terminal_iff [of "rr_status r"]
    by (simp add: transitionRunStatus_def invalidTransition_def)
qed

theorem run_cancellable_or_final_witness:
  "ok (transitionRunStatus id (\<lambda>_. True) (sample_run Run_waiting) Run_cancelled) \<and>
   transitionRunStatus id (\<lambda>_. True) (sample_run Run_failed) Run_running =
     Inl (TransitionError ''RALPH_RUN_STATUS_TRANSITION_INVALID'')"
proof -
  have "rr_status (sample_run s) = s" for s
    by (simp add: sample_run_def)
  then show ?thesis
    using run_cancellable_or_final [where s = Run_running, OF sample_run_parses [of Run_waiting]]
      run_cancellable_or_final [where s = Run_running, OF sample_run_parses [of Run_failed]]
    by (simp add: run_terminal_def)
qed

text \<open>
  A stopping run does not resume: a sequence of transitions that takes it back to running
  passes through interrupted.
\<close>

theorem stopping_resumes_only_through_interrupted:
  assumes "run_statuses H okO r ss = Inr r'" and "rr_status r = Run_stopping"
    and "rr_status r' = Run_running"
  shows "Run_interrupted \<in> set ss"
  using run_statuses_through [OF assms(1,2)] assms(3) by (auto simp: run_terminal_def)

theorem stopping_resumes_only_through_interrupted_witness:
  "Run_interrupted \<in> set [Run_interrupted, Run_running]"
proof (rule stopping_resumes_only_through_interrupted)
  show "run_statuses id (\<lambda>_. True) (sample_run Run_stopping) [Run_interrupted, Run_running] =
      Inr (sample_run Run_running)"
    by code_simp
qed (simp_all add: sample_run_def)

text \<open>
  The no-change policy normalises to a canonical name: whatever spelling was accepted, the
  name of the value is accepted again, means the same and needs no notice, and the input is
  kept for the record.
\<close>

theorem no_change_policy_canonical:
  assumes "normalizeNoChangePolicy s = Inr n"
  shows "np_original n = s \<and>
         normalizeNoChangePolicy (policy_name (np_value n)) =
           Inr \<lparr>np_value = np_value n, np_original = policy_name (np_value n), np_notice = None\<rparr> \<and>
         (np_notice n = None \<longleftrightarrow> js_lower (js_trim s) = policy_name (np_value n))"
proof -
  have name: "parse_no_change_policy t = Some p \<longleftrightarrow> t = policy_name p" for t p
    by (cases p) (auto simp: parse_no_change_policy_def)
  have canonical: "normalizeNoChangePolicy (policy_name p) =
      Inr \<lparr>np_value = p, np_original = policy_name p, np_notice = None\<rparr>" for p
    by (cases p; hypsubst, code_simp)
  have "np_original n = s \<and>
      (np_notice n = None \<longleftrightarrow> js_lower (js_trim s) = policy_name (np_value n))"
  proof (cases "parse_no_change_policy (js_lower (js_trim s))")
    case (Some p)
    with assms have "n = \<lparr>np_value = p, np_original = s, np_notice = None\<rparr>"
      by (simp add: normalizeNoChangePolicy_def Let_def split: if_splits)
    moreover have "js_lower (js_trim s) = policy_name p"
      using Some by (rule name [THEN iffD1])
    ultimately show ?thesis by simp
  next
    case None
    then have "js_lower (js_trim s) \<noteq> policy_name (np_value n)"
      using name by (metis option.distinct(1))
    moreover from None assms have "np_original n = s \<and> np_notice n \<noteq> None"
      by (auto simp: normalizeNoChangePolicy_def Let_def
          simp del: map_of.simps split: if_splits option.splits)
    ultimately show ?thesis by simp
  qed
  with canonical show ?thesis by simp
qed

theorem no_change_policy_canonical_witness:
  "\<exists>n. normalizeNoChangePolicy '' Fail-Fast '' = Inr n \<and> np_value n = Fail_on_no_change \<and>
     np_notice n \<noteq> None \<and>
     normalizeNoChangePolicy (policy_name (np_value n)) =
       Inr \<lparr>np_value = np_value n, np_original = policy_name (np_value n), np_notice = None\<rparr>"
proof -
  let ?n = "\<lparr>np_value = Fail_on_no_change, np_original = '' Fail-Fast '',
    np_notice = Some ''Legacy no-change policy `fail-fast` normalized to `fail-on-no-change`.''\<rparr>"
  have "normalizeNoChangePolicy '' Fail-Fast '' = Inr ?n"
    by code_simp
  then show ?thesis
    using no_change_policy_canonical [of "'' Fail-Fast ''" ?n] by (intro exI [of _ ?n]) simp
qed

end
