(* ===== verification/PrdModel.thy ===== *)
theory PrdModel
  imports Prelude
begin

text \<open>
  The data of \<^verbatim>\<open>packages/prd/src/contracts.ts\<close> that the graph compiler and the schedulers
  read: tasks, documents, task references, edges and the compiled graph. A task's texts,
  criteria, verifications, budget and notes are carried by no operation modelled here and are
  left out. JavaScript records keyed by document id are association lists.
\<close>

datatype task_marker = Marker_pending | Marker_active | Marker_completed

record prd_task =
  pt_id :: string
  pt_taskSpecHash :: string
  pt_status :: task_marker
  pt_dependencies :: "string list"
  pt_subPrd :: "string option"
  pt_parallelGroup :: "string option"

datatype document_kind = Kind_root | Kind_child

record prd_parent =
  pp_prd :: string
  pp_task :: string

record prd_document =
  pd_id :: string
  pd_kind :: document_kind
  pd_file :: string
  pd_contentHash :: string
  pd_parent :: "prd_parent option"
  pd_tasks :: "prd_task list"

record task_ref =
  ref_documentId :: string
  ref_taskId :: string
  ref_taskSpecHash :: string

record dependency_edge =
  de_task :: task_ref
  de_dependsOn :: task_ref

record child_edge =
  ch_parentTask :: task_ref
  ch_childDocument :: string

record parallel_group =
  pg_documentId :: string
  pg_id :: string
  pg_tasks :: "task_ref list"

record compiled_graph =
  cg_rootDocumentId :: string
  cg_rootFile :: string
  cg_documents :: "(string \<times> prd_document) list"
  cg_canonicalReferences :: "(string \<times> string) list"
  cg_dependencyEdges :: "dependency_edge list"
  cg_childEdges :: "child_edge list"
  cg_topologicalOrder :: "task_ref list"
  cg_eligibleTasks :: "task_ref list"
  cg_parallelGroups :: "parallel_group list"

text \<open>
  \<^verbatim>\<open>/^[a-z][a-z0-9]*(?:-[a-z0-9]+)*$/\<close>: words of lower-case letters and digits joined by
  single hyphens, the first starting with a letter.
\<close>

definition slug_letter :: "char \<Rightarrow> bool" where
  "slug_letter c \<longleftrightarrow> (let n = (of_char c :: nat) in 97 \<le> n \<and> n \<le> 122)"

definition slug_char :: "char \<Rightarrow> bool" where
  "slug_char c \<longleftrightarrow> slug_letter c \<or> (let n = (of_char c :: nat) in 48 \<le> n \<and> n \<le> 57)"

definition prd_slug :: "string \<Rightarrow> bool" where
  "prd_slug s \<longleftrightarrow>
     s \<noteq> [] \<and> slug_letter (hd s) \<and>
     list_all (\<lambda>w. w \<noteq> [] \<and> list_all slug_char w) (split_on (CHR ''-'') s)"

text \<open>\<^verbatim>\<open>refKey\<close> of the graph compiler and \<^verbatim>\<open>taskRefKey\<close> of the scheduler.\<close>

definition ref_key :: "string \<Rightarrow> string \<Rightarrow> string" where
  "ref_key documentId taskId = documentId @ ''/'' @ taskId"

definition taskRefKey :: "task_ref \<Rightarrow> string" where
  "taskRefKey r = ref_key (ref_documentId r) (ref_taskId r)"

section \<open>Slugs and keys\<close>

lemma split_on_chars:
  "\<forall>w \<in> set (split_on c s). \<forall>x \<in> set w. P x \<Longrightarrow> \<forall>x \<in> set s. x = c \<or> P x"
  by (induction s) (auto split: list.splits if_splits)

lemma slug_chars:
  assumes "prd_slug s" and "x \<in> set s"
  shows "x = CHR ''-'' \<or> slug_char x"
  using assms split_on_chars [of "CHR ''-''" s slug_char]
  by (auto simp: prd_slug_def list_all_iff)

lemma slug_no_slash: "prd_slug s \<Longrightarrow> CHR ''/'' \<notin> set s"
  using slug_chars [of s "CHR ''/''"] by (auto simp: slug_char_def slug_letter_def)

lemma slug_no_nul: "prd_slug s \<Longrightarrow> CHR 0x00 \<notin> set s"
  using slug_chars [of s "CHR 0x00"] by (auto simp: slug_char_def slug_letter_def)

lemma slug_nonempty: "prd_slug s \<Longrightarrow> s \<noteq> []"
  by (simp add: prd_slug_def)

lemma append_sep_eq:
  "c \<notin> set a \<Longrightarrow> c \<notin> set a' \<Longrightarrow> a @ c # b = a' @ c # b' \<longleftrightarrow> a = a' \<and> b = b'"
proof (induction a arbitrary: a')
  case Nil
  then show ?case by (cases a') auto
next
  case (Cons x a)
  then show ?case by (cases a') auto
qed

lemma ref_key_inject:
  "prd_slug d \<Longrightarrow> prd_slug d' \<Longrightarrow> ref_key d t = ref_key d' t' \<longleftrightarrow> d = d' \<and> t = t'"
  using append_sep_eq [of "CHR ''/''" d d'] by (simp add: ref_key_def slug_no_slash)

definition sample_ref :: "string \<Rightarrow> string \<Rightarrow> task_ref" where
  "sample_ref d t = \<lparr>ref_documentId = d, ref_taskId = t, ref_taskSpecHash = replicate 64 (CHR ''b'')\<rparr>"

lemma sample_ref_simps [simp]:
  "ref_documentId (sample_ref d t) = d" "ref_taskId (sample_ref d t) = t"
  by (simp_all add: sample_ref_def)

definition sample_prd_task :: "string \<Rightarrow> task_marker \<Rightarrow> string list \<Rightarrow> prd_task" where
  "sample_prd_task i m ds =
     \<lparr>pt_id = i, pt_taskSpecHash = replicate 64 (CHR ''b''), pt_status = m, pt_dependencies = ds,
      pt_subPrd = None, pt_parallelGroup = None\<rparr>"

definition sample_document :: "string \<Rightarrow> prd_task list \<Rightarrow> prd_document" where
  "sample_document i ts =
     \<lparr>pd_id = i, pd_kind = Kind_root, pd_file = i @ ''.md'', pd_contentHash = replicate 64 (CHR ''c''),
      pd_parent = None, pd_tasks = ts\<rparr>"

end
