(* ===== verification/Scheduler.thy ===== *)
theory Scheduler
  imports PrdModel Lifecycle
begin

text \<open>
  \<^verbatim>\<open>packages/orchestration/src/scheduler.ts\<close>: which task a run works on next. The ledger's
  task records are a map by \<^const>\<open>taskRefKey\<close>; an optional argument that the source tests
  for truth counts as absent when it is empty.
\<close>

section \<open>The scheduler\<close>

datatype selection_reason = Reason_resume | Reason_eligible | Reason_requested | Reason_forced

record task_selection =
  ts_task :: task_ref
  ts_reason :: selection_reason
  ts_dependencyOverride :: bool

definition SchedulingError :: "string \<Rightarrow> failure" where
  "SchedulingError code =
     RalphError code
       (if code = ''RALPH_TASK_NOT_ELIGIBLE'' \<or> code = ''RALPH_TASK_ALREADY_COMPLETED''
        then Exit_conflict
        else if code = ''RALPH_TASK_GRAPH_INCONSISTENT'' then Exit_operationalError
        else Exit_invalidUsage)"

definition taskFor :: "compiled_graph \<Rightarrow> task_ref \<Rightarrow> prd_task option" where
  "taskFor graph reference =
     (case map_of (cg_documents graph) (ref_documentId reference) of
        None \<Rightarrow> None
      | Some d \<Rightarrow> find (\<lambda>task. pt_id task = ref_taskId reference) (pd_tasks d))"

definition completed :: "task_status \<Rightarrow> bool" where
  "completed status \<longleftrightarrow> status = Task_completed \<or> status = Task_completed_with_override"

definition effectiveStatus ::
  "compiled_graph \<Rightarrow> (string \<rightharpoonup> task_record) \<Rightarrow> task_ref \<Rightarrow> task_status" where
  "effectiveStatus graph records reference =
     (case records (taskRefKey reference) of
        Some r \<Rightarrow> tr_status r
      | None \<Rightarrow>
          (case map_option pt_status (taskFor graph reference) of
             Some Marker_completed \<Rightarrow> Task_completed
           | Some Marker_active \<Rightarrow> Task_active
           | _ \<Rightarrow> Task_pending))"

definition dependenciesPassed ::
  "compiled_graph \<Rightarrow> (string \<rightharpoonup> task_record) \<Rightarrow> task_ref \<Rightarrow> bool" where
  "dependenciesPassed graph records reference =
     list_all (\<lambda>edge. completed (effectiveStatus graph records (de_dependsOn edge)))
       (filter (\<lambda>edge. taskRefKey (de_task edge) = taskRefKey reference) (cg_dependencyEdges graph))"

definition resolveRequestedTask ::
  "compiled_graph \<Rightarrow> string \<Rightarrow> string option \<Rightarrow> task_ref result" where
  "resolveRequestedTask graph value scopeDocumentId =
     (let normalized = js_trim value in
      if normalized = [] then Inl (SchedulingError ''RALPH_TASK_SELECTION_EMPTY'')
      else if CHR ''/'' \<in> set normalized then
        (case split_on (CHR ''/'') normalized of
           [requestedDocumentId, taskId] \<Rightarrow>
             if requestedDocumentId = [] \<or> taskId = []
             then Inl (SchedulingError ''RALPH_TASK_SELECTION_INVALID'')
             else
               (case find (\<lambda>r. ref_documentId r = requestedDocumentId \<and> ref_taskId r = taskId)
                       (cg_topologicalOrder graph) of
                  None \<Rightarrow> Inl (SchedulingError ''RALPH_TASK_NOT_FOUND'')
                | Some m \<Rightarrow>
                    if scopeDocumentId \<noteq> None \<and> Some (ref_documentId m) \<noteq> scopeDocumentId
                    then Inl (SchedulingError ''RALPH_TASK_NOT_FOUND'')
                    else Inr m)
         | _ \<Rightarrow> Inl (SchedulingError ''RALPH_TASK_SELECTION_INVALID''))
      else
        (case filter (\<lambda>r. ref_taskId r = normalized \<and>
                          (scopeDocumentId = None \<or> Some (ref_documentId r) = scopeDocumentId))
                (cg_topologicalOrder graph) of
           [] \<Rightarrow> Inl (SchedulingError ''RALPH_TASK_NOT_FOUND'')
         | [m] \<Rightarrow> Inr m
         | _ \<Rightarrow> Inl (SchedulingError ''RALPH_TASK_AMBIGUOUS'')))"

definition resumable :: "task_status \<Rightarrow> bool" where
  "resumable status \<longleftrightarrow>
     status \<in> {Task_active, Task_verifying, Task_evaluating, Task_interrupted, Task_retryable_failed}"

definition truthy_opt :: "string option \<Rightarrow> bool" where
  "truthy_opt s \<longleftrightarrow> s \<noteq> None \<and> s \<noteq> Some []"

text \<open>The tasks a scheduler call looks at: all, or those of one document.\<close>

definition task_order :: "compiled_graph \<Rightarrow> string option \<Rightarrow> task_ref list" where
  "task_order graph documentId =
     (if truthy_opt documentId
      then filter (\<lambda>r. Some (ref_documentId r) = documentId) (cg_topologicalOrder graph)
      else cg_topologicalOrder graph)"

definition select_requested ::
  "compiled_graph \<Rightarrow> (string \<rightharpoonup> task_record) \<Rightarrow> string option \<Rightarrow> string \<Rightarrow> bool \<Rightarrow> task_selection result" where
  "select_requested graph records documentId requested force =
     and_then (resolveRequestedTask graph requested documentId) (\<lambda>task.
       if completed (effectiveStatus graph records task)
       then Inl (SchedulingError ''RALPH_TASK_ALREADY_COMPLETED'')
       else
         (let eligible = dependenciesPassed graph records task in
          if \<not> eligible \<and> \<not> force
          then Inl (SchedulingError ''RALPH_TASK_NOT_ELIGIBLE'')
          else Inr \<lparr>ts_task = task,
                    ts_reason = (if eligible then Reason_requested else Reason_forced),
                    ts_dependencyOverride = \<not> eligible\<rparr>))"

definition select_next ::
  "compiled_graph \<Rightarrow> (string \<rightharpoonup> task_record) \<Rightarrow> string option \<Rightarrow> string list \<Rightarrow> task_selection option" where
  "select_next graph records documentId excluded =
     (case find (\<lambda>r. taskRefKey r \<notin> set excluded \<and> resumable (effectiveStatus graph records r))
             (task_order graph documentId) of
        Some r \<Rightarrow> Some \<lparr>ts_task = r, ts_reason = Reason_resume, ts_dependencyOverride = False\<rparr>
      | None \<Rightarrow>
          (case find (\<lambda>r. taskRefKey r \<notin> set excluded \<and>
                          \<not> completed (effectiveStatus graph records r) \<and>
                          effectiveStatus graph records r \<noteq> Task_blocked \<and>
                          dependenciesPassed graph records r)
                  (task_order graph documentId) of
             Some r \<Rightarrow> Some \<lparr>ts_task = r, ts_reason = Reason_eligible, ts_dependencyOverride = False\<rparr>
           | None \<Rightarrow> None))"

text \<open>\<open>selectTask\<close>: \<^term>\<open>Inr None\<close> is the source's \<^verbatim>\<open>undefined\<close>.\<close>

definition selectTask ::
  "compiled_graph \<Rightarrow> (string \<rightharpoonup> task_record) \<Rightarrow> string option \<Rightarrow> string option \<Rightarrow> bool \<Rightarrow>
   string list \<Rightarrow> task_selection option result" where
  "selectTask graph records documentId requestedTask force excludedTaskKeys =
     (if truthy_opt requestedTask
      then and_then (select_requested graph records documentId (the requestedTask) force)
             (\<lambda>s. Inr (Some s))
      else Inr (select_next graph records documentId excludedTaskKeys))"

definition initial_status :: "task_marker \<Rightarrow> task_status" where
  "initial_status m =
     (case m of Marker_completed \<Rightarrow> Task_completed | Marker_active \<Rightarrow> Task_active
              | Marker_pending \<Rightarrow> Task_pending)"

text \<open>\<^verbatim>\<open>1970-01-01T00:00:00.000Z\<close> is the instant 0.\<close>

definition initial_record ::
  "string \<Rightarrow> compiled_graph \<Rightarrow> task_ref \<Rightarrow> task_record result" where
  "initial_record runId graph reference =
     (case taskFor graph reference of
        None \<Rightarrow> Inl (SchedulingError ''RALPH_TASK_GRAPH_INCONSISTENT'')
      | Some task \<Rightarrow>
          (case map_of (cg_documents graph) (ref_documentId reference) of
             None \<Rightarrow> Inl ZodError
           | Some d \<Rightarrow>
               parse_task_record
                 \<lparr>tr_runId = runId, tr_taskId = ref_taskId reference,
                  tr_documentId = ref_documentId reference,
                  tr_status = initial_status (pt_status task),
                  tr_markerContentHash = pd_contentHash d, tr_activeAttemptId = None,
                  tr_completion = None, tr_updatedAt = 0\<rparr>))"

fun map_result :: "('a \<Rightarrow> 'b result) \<Rightarrow> 'a list \<Rightarrow> 'b list result" where
  "map_result f [] = Inr []"
| "map_result f (x # xs) = and_then (f x) (\<lambda>y. and_then (map_result f xs) (\<lambda>ys. Inr (y # ys)))"

definition initialTaskRecords ::
  "string \<Rightarrow> compiled_graph \<Rightarrow> string option \<Rightarrow> task_record list result" where
  "initialTaskRecords runId graph documentId =
     map_result (initial_record runId graph) (task_order graph documentId)"

text \<open>
  The run loop's exclusion key for a task whose sandbox may still be alive
  (\<^verbatim>\<open>${rootDocumentId}\u0000${taskId}\<close> in \<^verbatim>\<open>runner.ts\<close>).
\<close>

definition sandboxTerminationTaskKey :: "string \<Rightarrow> string \<Rightarrow> string" where
  "sandboxTerminationTaskKey documentId taskId = documentId @ [CHR 0x00] @ taskId"

section \<open>Facts on selections\<close>

abbreviation status_in :: "compiled_graph \<Rightarrow> (string \<rightharpoonup> task_record) \<Rightarrow> task_selection \<Rightarrow> task_status" where
  "status_in graph records s \<equiv> effectiveStatus graph records (ts_task s)"

lemma selectTask_unrequested:
  "\<not> truthy_opt q \<Longrightarrow> selectTask g recs d q f ex = Inr (select_next g recs d ex)"
  by (simp add: selectTask_def)

lemma resumable_open: "resumable s \<Longrightarrow> \<not> completed s \<and> s \<noteq> Task_blocked"
  by (auto simp: resumable_def completed_def)

lemma select_next_cases:
  "select_next g recs d ex = Some s \<longleftrightarrow>
     ts_dependencyOverride s = False \<and>
     (ts_reason s = Reason_resume \<and>
        find (\<lambda>r. taskRefKey r \<notin> set ex \<and> resumable (effectiveStatus g recs r)) (task_order g d)
          = Some (ts_task s) \<or>
      ts_reason s = Reason_eligible \<and>
        find (\<lambda>r. taskRefKey r \<notin> set ex \<and> resumable (effectiveStatus g recs r)) (task_order g d) = None \<and>
        find (\<lambda>r. taskRefKey r \<notin> set ex \<and> \<not> completed (effectiveStatus g recs r) \<and>
                   effectiveStatus g recs r \<noteq> Task_blocked \<and> dependenciesPassed g recs r)
             (task_order g d) = Some (ts_task s))"
  by (cases s) (auto simp: select_next_def split: option.splits)

lemma select_next_None:
  "select_next g recs d ex = None \<Longrightarrow> r \<in> set (task_order g d) \<Longrightarrow> taskRefKey r \<notin> set ex \<Longrightarrow>
     completed (effectiveStatus g recs r) \<or> effectiveStatus g recs r = Task_blocked \<or>
     \<not> dependenciesPassed g recs r"
  by (auto simp: select_next_def find_None_conv split: option.splits)

text \<open>A list of tasks in which every dependency of a task stands before it.\<close>

fun dependencies_first :: "dependency_edge list \<Rightarrow> task_ref list \<Rightarrow> task_ref list \<Rightarrow> bool" where
  "dependencies_first edges seen [] = True"
| "dependencies_first edges seen (r # rs) \<longleftrightarrow>
     (\<forall>e \<in> set edges. taskRefKey (de_task e) = taskRefKey r \<longrightarrow> de_dependsOn e \<in> set seen) \<and>
     dependencies_first edges (r # seen) rs"

lemma dependencies_first_append:
  "dependencies_first edges seen (xs @ r # ys) \<Longrightarrow> e \<in> set edges \<Longrightarrow>
   taskRefKey (de_task e) = taskRefKey r \<Longrightarrow> de_dependsOn e \<in> set seen \<union> set xs"
proof (induction xs arbitrary: seen)
  case (Cons a xs)
  then have "de_dependsOn e \<in> set (a # seen) \<union> set xs"
    by (metis append_Cons dependencies_first.simps(2))
  then show ?case by simp
qed simp

lemma first_open_task_is_ready:
  assumes "dependencies_first (cg_dependencyEdges g) [] (xs @ r # ys)"
    and "\<forall>x \<in> set xs. completed (effectiveStatus g recs x)"
  shows "dependenciesPassed g recs r"
  using assms dependencies_first_append [OF assms(1)]
  by (auto simp: dependenciesPassed_def list_all_iff)

lemma resolveRequestedTask_in_order:
  "resolveRequestedTask g v sc = Inr r \<Longrightarrow> r \<in> set (cg_topologicalOrder g)"
proof -
  assume h: "resolveRequestedTask g v sc = Inr r"
  have f: "filter P xs = [m] \<Longrightarrow> m \<in> set xs" for P m and xs :: "task_ref list"
    by (metis filter_is_subset list.set_intros(1) subsetD)
  from h show ?thesis
    by (auto simp: resolveRequestedTask_def Let_def dest: find_SomeD f
        split: if_splits list.splits option.splits)
qed

lemma map_result_Inr:
  "map_result f xs = Inr ys \<longleftrightarrow> list_all2 (\<lambda>x y. f x = Inr y) xs ys"
  by (induction xs arbitrary: ys)
     (auto simp: result_simps list_all2_Cons1)

lemma initial_record_Inr:
  assumes "initial_record i g r = Inr t"
  shows "tr_runId t = i \<and> tr_documentId t = ref_documentId r \<and> tr_taskId t = ref_taskId r \<and>
    valid_task_record t \<and> tr_status t = effectiveStatus g Map.empty r \<and>
    tr_activeAttemptId t = None \<and> tr_completion t = None"
  using assms
  by (auto simp: initial_record_def effectiveStatus_def initial_status_def
      split: option.splits task_marker.splits)

text \<open>The map a caller builds from the records: a later record replaces an earlier one.\<close>

definition recordsMap :: "task_record list \<Rightarrow> (string \<rightharpoonup> task_record)" where
  "recordsMap rs = map_of (rev (map (\<lambda>t. (ref_key (tr_documentId t) (tr_taskId t), t)) rs))"

lemma recordsMap_Some: "recordsMap rs k = Some t \<Longrightarrow> t \<in> set rs \<and> k = ref_key (tr_documentId t) (tr_taskId t)"
  by (auto simp: recordsMap_def dest!: map_of_SomeD)

definition slug_refs :: "task_ref list \<Rightarrow> bool" where
  "slug_refs rs \<longleftrightarrow> list_all (\<lambda>r. prd_slug (ref_documentId r) \<and> prd_slug (ref_taskId r)) rs"

lemma taskFor_by_ids:
  "ref_documentId r = ref_documentId r' \<Longrightarrow> ref_taskId r = ref_taskId r' \<Longrightarrow>
   effectiveStatus g Map.empty r = effectiveStatus g Map.empty r'"
proof -
  assume ids: "ref_documentId r = ref_documentId r'" "ref_taskId r = ref_taskId r'"
  have "taskFor g r = taskFor g r'"
    unfolding taskFor_def ids ..
  then show ?thesis
    by (simp add: effectiveStatus_def)
qed

lemma sandbox_key_is_no_ref_key:
  assumes "prd_slug (ref_documentId r)" and "prd_slug (ref_taskId r)"
  shows "taskRefKey r \<noteq> sandboxTerminationTaskKey d t"
proof
  assume eq: "taskRefKey r = sandboxTerminationTaskKey d t"
  have "CHR 0x00 \<in> set (sandboxTerminationTaskKey d t)"
    by (simp add: sandboxTerminationTaskKey_def)
  moreover have "CHR 0x00 \<notin> set (taskRefKey r)"
    using assms by (simp add: taskRefKey_def ref_key_def slug_no_nul)
  ultimately show False
    by (simp add: eq)
qed

lemma find_cong_set: "(\<And>x. x \<in> set xs \<Longrightarrow> p x = q x) \<Longrightarrow> find p xs = find q xs"
  by (induction xs) auto

lemma select_next_excluded_cong:
  assumes "\<And>r. r \<in> set (task_order g d) \<Longrightarrow> taskRefKey r \<in> set ex \<longleftrightarrow> taskRefKey r \<in> set ex'"
  shows "select_next g recs d ex = select_next g recs d ex'"
proof -
  have eq: "find (\<lambda>r. taskRefKey r \<notin> set ex \<and> p r) (task_order g d) =
      find (\<lambda>r. taskRefKey r \<notin> set ex' \<and> p r) (task_order g d)" for p
    by (rule find_cong_set) (simp add: assms)
  show ?thesis
    unfolding select_next_def eq ..
qed

lemma set_task_order: "set (task_order g d) \<subseteq> set (cg_topologicalOrder g)"
  by (auto simp: task_order_def)

lemma split_on_nonempty [simp]: "split_on c s \<noteq> []"
  by (cases s) (auto split: list.splits)

lemma split_on_single: "split_on c s = [b] \<Longrightarrow> s = b"
proof (induction s arbitrary: b)
  case (Cons x s)
  then show ?case by (auto split: if_splits list.splits)
qed simp

lemma list_all2_member2: "list_all2 P xs ys \<Longrightarrow> y \<in> set ys \<Longrightarrow> \<exists>x \<in> set xs. P x y"
  by (metis in_set_conv_nth list_all2_conv_all_nth)

lemma split_on_join:
  "split_on c s = [a, b] \<Longrightarrow> s = a @ c # b"
proof (induction s arbitrary: a)
  case (Cons x s)
  then show ?case
    by (cases a) (auto split: if_splits list.splits dest: split_on_single)
qed simp

lemma resolveRequestedTask_named:
  assumes "resolveRequestedTask g v d = Inr r"
  shows "(d = None \<or> d = Some (ref_documentId r)) \<and>
    (js_trim v = taskRefKey r \<or>
     js_trim v = ref_taskId r \<and>
     filter (\<lambda>r. ref_taskId r = js_trim v \<and> (d = None \<or> Some (ref_documentId r) = d))
       (cg_topologicalOrder g) = [r])"
proof (cases "CHR ''/'' \<in> set (js_trim v)")
  case True
  with assms obtain a b where s: "split_on (CHR ''/'') (js_trim v) = [a, b]"
    and f: "find (\<lambda>r. ref_documentId r = a \<and> ref_taskId r = b) (cg_topologicalOrder g) = Some r"
    and d: "d = None \<or> d = Some (ref_documentId r)"
    by (auto simp: resolveRequestedTask_def Let_def split: if_splits list.splits option.splits)
  show ?thesis
    using find_SomeD [OF f] split_on_join [OF s] d by (simp add: taskRefKey_def ref_key_def)
next
  case False
  with assms have m: "filter (\<lambda>r. ref_taskId r = js_trim v \<and> (d = None \<or> Some (ref_documentId r) = d))
       (cg_topologicalOrder g) = [r]"
    by (auto simp: resolveRequestedTask_def Let_def split: if_splits list.splits)
  then have "r \<in> set (filter (\<lambda>r. ref_taskId r = js_trim v \<and> (d = None \<or> Some (ref_documentId r) = d))
       (cg_topologicalOrder g))"
    by simp
  then have "ref_taskId r = js_trim v \<and> (d = None \<or> Some (ref_documentId r) = d)"
    by (simp only: set_filter mem_Collect_eq)
  with m show ?thesis
    by metis
qed

lemma initial_status_agrees:
  assumes "list_all2 (\<lambda>x y. initial_record i g x = Inr y) order recs"
    and "slug_refs order" and "prd_slug (ref_documentId r)"
  shows "effectiveStatus g (recordsMap recs) r = effectiveStatus g Map.empty r"
proof (cases "recordsMap recs (taskRefKey r)")
  case (Some t)
  have "t \<in> set recs" and key: "taskRefKey r = ref_key (tr_documentId t) (tr_taskId t)"
    using recordsMap_Some [OF Some] by simp_all
  then obtain x where x: "x \<in> set order" "initial_record i g x = Inr t"
    using list_all2_member2 [OF assms(1)] by blast
  then have ids: "tr_documentId t = ref_documentId x" "tr_taskId t = ref_taskId x"
    and st: "tr_status t = effectiveStatus g Map.empty x"
    using initial_record_Inr [OF x(2)] by simp_all
  have "prd_slug (ref_documentId x)"
    using assms(2) x(1) by (simp add: slug_refs_def list_all_iff)
  then have "ref_documentId r = ref_documentId x" "ref_taskId r = ref_taskId x"
    using key assms(3) by (simp_all add: ids taskRefKey_def ref_key_inject)
  then have "effectiveStatus g Map.empty r = effectiveStatus g Map.empty x"
    by (rule taskFor_by_ids)
  then show ?thesis
    using Some st by (simp add: effectiveStatus_def)
qed (simp add: effectiveStatus_def)

section \<open>A run that completes what it selects\<close>

text \<open>
  The serial loop of a run in which every attempt succeeds: ask the scheduler, complete the
  task, ask again; the list of the tasks in the order they were worked on.
\<close>

definition mark_completed :: "(string \<rightharpoonup> task_record) \<Rightarrow> task_ref \<Rightarrow> (string \<rightharpoonup> task_record)" where
  "mark_completed recs r =
     recs(taskRefKey r \<mapsto>
       \<lparr>tr_runId = ''run'', tr_taskId = ref_taskId r, tr_documentId = ref_documentId r,
        tr_status = Task_completed, tr_markerContentHash = [], tr_activeAttemptId = None,
        tr_completion = None, tr_updatedAt = 0\<rparr>)"

fun serial_run :: "nat \<Rightarrow> compiled_graph \<Rightarrow> (string \<rightharpoonup> task_record) \<Rightarrow> task_ref list" where
  "serial_run 0 g recs = []"
| "serial_run (Suc n) g recs =
     (case select_next g recs None [] of
        None \<Rightarrow> []
      | Some s \<Rightarrow> ts_task s # serial_run n g (mark_completed recs (ts_task s)))"

lemma effectiveStatus_mark:
  "effectiveStatus g (mark_completed recs r) x =
     (if taskRefKey x = taskRefKey r then Task_completed else effectiveStatus g recs x)"
  by (simp add: effectiveStatus_def mark_completed_def)

lemma task_order_all [simp]: "task_order g None = cg_topologicalOrder g"
  by (simp add: task_order_def truthy_opt_def)

lemma find_skip: "\<forall>x \<in> set xs. \<not> p x \<Longrightarrow> find p (xs @ ys) = find p ys"
  by (induction xs) auto

lemma select_next_first_pending:
  assumes "cg_topologicalOrder g = xs @ y # ys"
    and "dependencies_first (cg_dependencyEdges g) [] (xs @ y # ys)"
    and "\<forall>x \<in> set xs. effectiveStatus g recs x = Task_completed"
    and "\<forall>x \<in> set (y # ys). effectiveStatus g recs x = Task_pending"
  shows "select_next g recs None [] =
    Some \<lparr>ts_task = y, ts_reason = Reason_eligible, ts_dependencyOverride = False\<rparr>"
proof -
  have "dependenciesPassed g recs y"
    using first_open_task_is_ready [OF assms(2)] assms(3) by (simp add: completed_def)
  moreover have "find (\<lambda>r. resumable (effectiveStatus g recs r)) (xs @ y # ys) = None"
    using assms(3,4) by (auto simp: find_None_conv resumable_def)
  ultimately show ?thesis
    using assms(3,4)
    by (simp add: select_next_def assms(1) find_skip completed_def)
qed

lemma serial_run_suffix:
  assumes "cg_topologicalOrder g = xs @ ys"
    and "dependencies_first (cg_dependencyEdges g) [] (xs @ ys)"
    and "distinct (map taskRefKey (xs @ ys))"
    and "\<forall>x \<in> set xs. effectiveStatus g recs x = Task_completed"
    and "\<forall>x \<in> set ys. effectiveStatus g recs x = Task_pending"
  shows "serial_run (length ys) g recs = ys"
  using assms
proof (induction ys arbitrary: xs recs)
  case (Cons y ys)
  have "serial_run (length ys) g (mark_completed recs y) = ys"
  proof (rule Cons.IH [where xs = "xs @ [y]"])
    show "\<forall>x \<in> set (xs @ [y]). effectiveStatus g (mark_completed recs y) x = Task_completed"
      using Cons.prems(4) by (simp add: effectiveStatus_mark)
    show "\<forall>x \<in> set ys. effectiveStatus g (mark_completed recs y) x = Task_pending"
    proof
      fix x
      assume "x \<in> set ys"
      then have "taskRefKey x \<noteq> taskRefKey y"
        using Cons.prems(3) by (metis (no_types, lifting) append_is_Nil_conv distinct.simps(2) distinct_append image_eqI list.set_map list.simps(9) map_append)
      then show "effectiveStatus g (mark_completed recs y) x = Task_pending"
        using Cons.prems(5) \<open>x \<in> set ys\<close> by (simp add: effectiveStatus_mark)
    qed
  qed (use Cons.prems in auto)
  then show ?case
    using select_next_first_pending [OF Cons.prems(1,2,4,5)] by simp
qed simp

section \<open>Histories of work\<close>

text \<open>
  One turn of a run: a task is picked without an override, and the work on it leaves some record
  \<open>t\<close> for it.
\<close>

inductive work_step ::
  "compiled_graph \<Rightarrow> (string \<rightharpoonup> task_record) \<Rightarrow> (string \<rightharpoonup> task_record) \<Rightarrow> bool" for g where
  turn: "selectTask g recs d q f ex = Inr (Some s) \<Longrightarrow> \<not> ts_dependencyOverride s \<Longrightarrow>
   work_step g recs (recs(taskRefKey (ts_task s) \<mapsto> t))"

inductive_cases work_stepE: "work_step g recs recs'"

definition depends_on :: "compiled_graph \<Rightarrow> task_ref \<Rightarrow> task_ref \<Rightarrow> bool" where
  "depends_on g a b \<longleftrightarrow>
     (\<exists>e \<in> set (cg_dependencyEdges g).
        taskRefKey (de_task e) = taskRefKey a \<and> taskRefKey (de_dependsOn e) = taskRefKey b)"

definition records_cover :: "compiled_graph \<Rightarrow> (string \<rightharpoonup> task_record) \<Rightarrow> bool" where
  "records_cover g recs \<longleftrightarrow>
     (\<forall>e \<in> set (cg_dependencyEdges g).
        recs (taskRefKey (de_task e)) \<noteq> None \<and> recs (taskRefKey (de_dependsOn e)) \<noteq> None)"

definition ledger_in_order :: "compiled_graph \<Rightarrow> (string \<rightharpoonup> task_record) \<Rightarrow> bool" where
  "ledger_in_order g recs \<longleftrightarrow>
     (\<forall>e \<in> set (cg_dependencyEdges g).
        completed (effectiveStatus g recs (de_task e)) \<or> resumable (effectiveStatus g recs (de_task e)) \<longrightarrow>
        completed (effectiveStatus g recs (de_dependsOn e)))"

lemma effectiveStatus_key:
  "recs (taskRefKey r) \<noteq> None \<Longrightarrow> taskRefKey r' = taskRefKey r \<Longrightarrow>
   effectiveStatus g recs r' = effectiveStatus g recs r"
  by (auto simp: effectiveStatus_def)

lemma effectiveStatus_upd:
  "effectiveStatus g (recs(k \<mapsto> t)) r = (if taskRefKey r = k then tr_status t else effectiveStatus g recs r)"
  by (simp add: effectiveStatus_def)

text \<open>What is picked is open, and begun or with its dependencies passed.\<close>

lemma selected_cases:
  assumes "selectTask g recs d q f ex = Inr (Some s)"
  shows "\<not> completed (effectiveStatus g recs (ts_task s)) \<and>
    (ts_dependencyOverride s \<or> resumable (effectiveStatus g recs (ts_task s)) \<or>
     dependenciesPassed g recs (ts_task s))"
proof (cases "truthy_opt q")
  case True
  then show ?thesis
    using assms by (auto simp: selectTask_def select_requested_def result_simps Let_def split: if_splits)
next
  case False
  then have "select_next g recs d ex = Some s"
    using assms by (simp add: selectTask_unrequested)
  then show ?thesis
    by (auto simp: select_next_cases dest!: find_SomeD dest: resumable_open)
qed

lemma selected_open:
  "selectTask g recs d q f ex = Inr (Some s) \<Longrightarrow> \<not> completed (effectiveStatus g recs (ts_task s))"
  using selected_cases by blast

lemma selected_dependencies:
  assumes "records_cover g recs" and "ledger_in_order g recs"
    and "selectTask g recs d q f ex = Inr (Some s)" and "\<not> ts_dependencyOverride s"
    and "depends_on g (ts_task s) y"
  shows "completed (effectiveStatus g recs y)"
proof -
  obtain e where e: "e \<in> set (cg_dependencyEdges g)" "taskRefKey (de_task e) = taskRefKey (ts_task s)"
      "taskRefKey (de_dependsOn e) = taskRefKey y"
    using assms(5) by (auto simp: depends_on_def)
  have known: "recs (taskRefKey (de_task e)) \<noteq> None" "recs (taskRefKey (de_dependsOn e)) \<noteq> None"
    using assms(1) e(1) by (auto simp: records_cover_def)
  have begun: "effectiveStatus g recs (ts_task s) = effectiveStatus g recs (de_task e)"
    by (rule effectiveStatus_key) (fact known(1), rule e(2) [symmetric])
  have "dependenciesPassed g recs (ts_task s) \<Longrightarrow> completed (effectiveStatus g recs (de_dependsOn e))"
    using e(1,2) unfolding dependenciesPassed_def list_all_iff by force
  moreover have "resumable (effectiveStatus g recs (de_task e)) \<Longrightarrow>
      completed (effectiveStatus g recs (de_dependsOn e))"
    using assms(2) e(1) unfolding ledger_in_order_def by blast
  ultimately have "completed (effectiveStatus g recs (de_dependsOn e))"
    using selected_cases [OF assms(3)] assms(4) unfolding begun by blast
  moreover have "effectiveStatus g recs y = effectiveStatus g recs (de_dependsOn e)"
    by (rule effectiveStatus_key) (fact known(2), rule e(3) [symmetric])
  ultimately show ?thesis
    by metis
qed

lemma completed_dependencies:
  assumes "records_cover g recs" and "ledger_in_order g recs"
    and "completed (effectiveStatus g recs x)" and "depends_on g x y"
  shows "completed (effectiveStatus g recs y)"
proof -
  obtain e where e: "e \<in> set (cg_dependencyEdges g)" "taskRefKey (de_task e) = taskRefKey x"
      "taskRefKey (de_dependsOn e) = taskRefKey y"
    using assms(4) by (auto simp: depends_on_def)
  have known: "recs (taskRefKey (de_task e)) \<noteq> None" "recs (taskRefKey (de_dependsOn e)) \<noteq> None"
    using assms(1) e(1) by (auto simp: records_cover_def)
  have "effectiveStatus g recs x = effectiveStatus g recs (de_task e)"
    by (rule effectiveStatus_key) (fact known(1), rule e(2) [symmetric])
  then have "completed (effectiveStatus g recs (de_dependsOn e))"
    using assms(2,3) e(1) by (auto simp: ledger_in_order_def)
  moreover have "effectiveStatus g recs y = effectiveStatus g recs (de_dependsOn e)"
    by (rule effectiveStatus_key) (fact known(2), rule e(3) [symmetric])
  ultimately show ?thesis
    by metis
qed

text \<open>A turn changes an open task only, so what was completed stays so.\<close>

lemma work_step_completed:
  assumes "work_step g recs recs'" and "recs (taskRefKey y) \<noteq> None" and "completed (effectiveStatus g recs y)"
  shows "recs' (taskRefKey y) \<noteq> None \<and> completed (effectiveStatus g recs' y)"
  using assms(1)
proof (rule work_stepE)
  fix d q f ex s t
  assume s: "selectTask g recs d q f ex = Inr (Some s)"
    and recs': "recs' = recs(taskRefKey (ts_task s) \<mapsto> t)"
  have "taskRefKey y \<noteq> taskRefKey (ts_task s)"
    using selected_open [OF s] assms(2,3) effectiveStatus_key [of recs y "ts_task s" g] by auto
  then show ?thesis
    using assms(2,3) by (simp add: recs' effectiveStatus_upd)
qed

lemma work_step_in_order:
  assumes "work_step g recs recs'" and cover: "records_cover g recs" and ord: "ledger_in_order g recs"
  shows "records_cover g recs' \<and> ledger_in_order g recs'"
proof -
  obtain d q f ex s t where s: "selectTask g recs d q f ex = Inr (Some s)" "\<not> ts_dependencyOverride s"
    and recs': "recs' = recs(taskRefKey (ts_task s) \<mapsto> t)"
    using assms(1) by (rule work_stepE)
  have "completed (effectiveStatus g recs' (de_dependsOn e))"
    if e: "e \<in> set (cg_dependencyEdges g)"
      and st: "completed (effectiveStatus g recs' (de_task e)) \<or> resumable (effectiveStatus g recs' (de_task e))" for e
  proof -
    have "recs (taskRefKey (de_dependsOn e)) \<noteq> None"
      using cover e by (auto simp: records_cover_def)
    moreover have "completed (effectiveStatus g recs (de_dependsOn e))"
    proof (cases "taskRefKey (de_task e) = taskRefKey (ts_task s)")
      case True
      then have "depends_on g (ts_task s) (de_dependsOn e)"
        using e by (auto simp: depends_on_def)
      then show ?thesis
        using selected_dependencies [OF cover ord s] by blast
    next
      case False
      then show ?thesis
        using st ord e by (auto simp: recs' effectiveStatus_upd ledger_in_order_def)
    qed
    ultimately show ?thesis
      using work_step_completed [OF assms(1)] by blast
  qed
  then have "ledger_in_order g recs'"
    unfolding ledger_in_order_def by blast
  moreover have "records_cover g recs'"
    using cover by (auto simp: records_cover_def recs')
  ultimately show ?thesis by blast
qed

lemma history_in_order:
  "(work_step g)\<^sup>*\<^sup>* recs recs' \<Longrightarrow> records_cover g recs \<Longrightarrow> ledger_in_order g recs \<Longrightarrow>
   records_cover g recs' \<and> ledger_in_order g recs'"
  by (induction rule: rtranclp_induct) (use work_step_in_order in blast)+

lemma history_completed:
  "(work_step g)\<^sup>*\<^sup>* recs recs' \<Longrightarrow> recs (taskRefKey y) \<noteq> None \<Longrightarrow>
   completed (effectiveStatus g recs y) \<Longrightarrow>
   recs' (taskRefKey y) \<noteq> None \<and> completed (effectiveStatus g recs' y)"
  by (induction rule: rtranclp_induct) (use work_step_completed in blast)+

lemma completed_stays:
  assumes "(work_step g)\<^sup>*\<^sup>* recs recs'" and "records_cover g recs" and "depends_on g y x"
    and "completed (effectiveStatus g recs x)"
  shows "completed (effectiveStatus g recs' x)"
proof -
  have "recs (taskRefKey x) \<noteq> None"
    using assms(2,3) by (auto simp: records_cover_def depends_on_def)
  then show ?thesis
    using history_completed [OF assms(1)] assms(4) by blast
qed

section \<open>Properties\<close>

definition sample_graph :: compiled_graph where
  "sample_graph =
     \<lparr>cg_rootDocumentId = ''prd'', cg_rootFile = ''prd.md'',
      cg_documents =
        [(''prd'', sample_document ''prd''
            [sample_prd_task ''a'' Marker_completed [], sample_prd_task ''b'' Marker_pending [''a''],
             sample_prd_task ''c'' Marker_pending [''b'']])],
      cg_canonicalReferences = [(''prd'', ''prd.md'')],
      cg_dependencyEdges =
        [\<lparr>de_task = sample_ref ''prd'' ''b'', de_dependsOn = sample_ref ''prd'' ''a''\<rparr>,
         \<lparr>de_task = sample_ref ''prd'' ''c'', de_dependsOn = sample_ref ''prd'' ''b''\<rparr>],
      cg_childEdges = [],
      cg_topologicalOrder =
        [sample_ref ''prd'' ''a'', sample_ref ''prd'' ''b'', sample_ref ''prd'' ''c''],
      cg_eligibleTasks = [sample_ref ''prd'' ''b''], cg_parallelGroups = []\<rparr>"

definition sample_pending_graph :: compiled_graph where
  "sample_pending_graph =
     sample_graph\<lparr>cg_documents :=
        [(''prd'', sample_document ''prd''
            [sample_prd_task ''a'' Marker_pending [], sample_prd_task ''b'' Marker_pending [''a''],
             sample_prd_task ''c'' Marker_pending [''b'']])]\<rparr>"

text \<open>The ledger of a run of \<open>sample_graph\<close> in which only \<open>a\<close> is done.\<close>

definition sample_ledger :: "string \<rightharpoonup> task_record" where
  "sample_ledger =
     [taskRefKey (sample_ref ''prd'' ''a'') \<mapsto> sample_task\<lparr>tr_status := Task_completed\<rparr>,
      taskRefKey (sample_ref ''prd'' ''b'') \<mapsto> sample_task\<lparr>tr_status := Task_pending\<rparr>,
      taskRefKey (sample_ref ''prd'' ''c'') \<mapsto> sample_task\<lparr>tr_status := Task_pending\<rparr>]"

lemmas sample_graph_simps =
  sample_pending_graph_def sample_graph_def sample_document_def sample_prd_task_def sample_ref_def
  taskRefKey_def ref_key_def effectiveStatus_def taskFor_def task_order_def truthy_opt_def
  completed_def resumable_def dependenciesPassed_def select_next_def



text \<open>
  C13. Progress: while the compiled order lists dependencies first, some task is not completed
  and none is blocked, an unscoped scheduler call without exclusions always selects a task.
\<close>

theorem scheduler_makes_progress:
  assumes "dependencies_first (cg_dependencyEdges g) [] (cg_topologicalOrder g)"
    and "r \<in> set (cg_topologicalOrder g)"
    and "\<not> completed (effectiveStatus g recs r)"
    and "\<forall>x \<in> set (cg_topologicalOrder g). effectiveStatus g recs x \<noteq> Task_blocked"
  shows "\<exists>s. selectTask g recs None None f [] = Inr (Some s)"
proof (rule ccontr)
  assume "\<nexists>s. selectTask g recs None None f [] = Inr (Some s)"
  then have none: "select_next g recs None [] = None"
    by (simp add: selectTask_def truthy_opt_def)
  obtain xs y ys where split: "cg_topologicalOrder g = xs @ y # ys"
    and y: "\<not> completed (effectiveStatus g recs y)"
    and xs: "\<forall>x \<in> set xs. completed (effectiveStatus g recs x)"
    using split_list_first_prop [of "cg_topologicalOrder g" "\<lambda>r. \<not> completed (effectiveStatus g recs r)"]
      assms(2,3) by blast
  have "dependenciesPassed g recs y"
    using first_open_task_is_ready assms(1) xs unfolding split by blast
  then show False
    using select_next_None [OF none, of y] y assms(4) by (simp add: split)
qed

theorem scheduler_makes_progress_witness:
  "\<exists>s. selectTask sample_graph Map.empty None None False [] = Inr (Some s)"
  by (rule scheduler_makes_progress [where r = "sample_ref ''prd'' ''c''"])
     (simp_all add: sample_graph_simps)

text \<open>
  A run that starts with every task pending and completes what the scheduler selects works
  on each task of a dependencies-first order exactly once, in that order.
\<close>

theorem serial_run_follows_the_order:
  assumes "dependencies_first (cg_dependencyEdges g) [] (cg_topologicalOrder g)"
    and "distinct (map taskRefKey (cg_topologicalOrder g))"
    and "\<forall>x \<in> set (cg_topologicalOrder g). effectiveStatus g recs x = Task_pending"
  shows "serial_run (length (cg_topologicalOrder g)) g recs = cg_topologicalOrder g"
  by (rule serial_run_suffix [where xs = "[]"]) (use assms in simp_all)

theorem serial_run_follows_the_order_witness:
  "serial_run 3 sample_pending_graph Map.empty =
     [sample_ref ''prd'' ''a'', sample_ref ''prd'' ''b'', sample_ref ''prd'' ''c'']"
proof -
  have "serial_run (length (cg_topologicalOrder sample_pending_graph)) sample_pending_graph Map.empty
      = cg_topologicalOrder sample_pending_graph"
    by (rule serial_run_follows_the_order) (simp_all add: sample_graph_simps)
  then show ?thesis
    by (simp add: sample_pending_graph_def sample_graph_def eval_nat_numeral)
qed

text \<open>
  A task asked for by name is the one named: it is in the compiled order and in the scope,
  the trimmed text is its \<open>document/task\<close> key or its task id, which then no other task in
  scope has. It is never a completed task, and a selection overrides dependencies exactly when
  they have not passed, which needs force.
\<close>

theorem requested_selection_is_the_named_task:
  assumes "selectTask g recs d q f ex = Inr (Some s)" and "q = Some v" and "v \<noteq> []"
  shows "ts_task s \<in> set (cg_topologicalOrder g) \<and>
    (d = None \<or> d = Some (ref_documentId (ts_task s))) \<and>
    (js_trim v = taskRefKey (ts_task s) \<or>
     js_trim v = ref_taskId (ts_task s) \<and>
     filter (\<lambda>r. ref_taskId r = js_trim v \<and> (d = None \<or> Some (ref_documentId r) = d))
       (cg_topologicalOrder g) = [ts_task s]) \<and>
    \<not> completed (status_in g recs s) \<and>
    ts_dependencyOverride s = (\<not> dependenciesPassed g recs (ts_task s)) \<and>
    ts_reason s = (if ts_dependencyOverride s then Reason_forced else Reason_requested) \<and>
    (ts_dependencyOverride s \<longrightarrow> f)"
proof -
  have "select_requested g recs d v f = Inr s"
    using assms by (auto simp: selectTask_def truthy_opt_def result_simps)
  then have res: "resolveRequestedTask g v d = Inr (ts_task s)"
    and rest: "\<not> completed (status_in g recs s)"
      "ts_dependencyOverride s = (\<not> dependenciesPassed g recs (ts_task s))"
      "ts_reason s = (if ts_dependencyOverride s then Reason_forced else Reason_requested)"
      "ts_dependencyOverride s \<longrightarrow> f"
    by (auto simp: select_requested_def result_simps Let_def split: if_splits)
  show ?thesis
    using resolveRequestedTask_named [OF res] resolveRequestedTask_in_order [OF res] rest by blast
qed

theorem requested_selection_is_the_named_task_witness:
  "selectTask sample_graph Map.empty None (Some '' c '') True [] =
     Inr (Some \<lparr>ts_task = sample_ref ''prd'' ''c'', ts_reason = Reason_forced,
                ts_dependencyOverride = True\<rparr>) \<and>
   \<not> dependenciesPassed sample_graph Map.empty (sample_ref ''prd'' ''c'')"
proof -
  have eq: "selectTask sample_graph Map.empty None (Some '' c '') True [] =
     Inr (Some \<lparr>ts_task = sample_ref ''prd'' ''c'', ts_reason = Reason_forced,
                ts_dependencyOverride = True\<rparr>)"
    by (simp add: selectTask_def sample_graph_simps select_requested_def resolveRequestedTask_def
        js_trim_def js_space_def)
  show ?thesis
    using eq requested_selection_is_the_named_task [OF eq refl] by simp
qed

text \<open>
  The records a run starts with agree with the document: each is valid, carries no
  attempt and no completion, and reading a task's status through them gives the status its
  marker stands for.
\<close>

theorem initial_records_agree_with_markers:
  assumes "initialTaskRecords i g d = Inr recs"
    and "slug_refs (task_order g d)" and "prd_slug (ref_documentId r)"
  shows "list_all (\<lambda>t. valid_task_record t \<and> tr_runId t = i \<and> tr_activeAttemptId t = None \<and>
           tr_completion t = None) recs \<and>
    length recs = length (task_order g d) \<and>
    effectiveStatus g (recordsMap recs) r = effectiveStatus g Map.empty r"
proof -
  have rel: "list_all2 (\<lambda>x y. initial_record i g x = Inr y) (task_order g d) recs"
    using assms(1) by (simp add: initialTaskRecords_def map_result_Inr)
  have "list_all (\<lambda>t. valid_task_record t \<and> tr_runId t = i \<and> tr_activeAttemptId t = None \<and>
           tr_completion t = None) recs"
    unfolding list_all_iff
  proof
    fix t
    assume "t \<in> set recs"
    then obtain x where "initial_record i g x = Inr t"
      using list_all2_member2 [OF rel] by blast
    then show "valid_task_record t \<and> tr_runId t = i \<and> tr_activeAttemptId t = None \<and>
        tr_completion t = None"
      using initial_record_Inr by simp
  qed
  then show ?thesis
    using initial_status_agrees [OF rel assms(2,3)] list_all2_lengthD [OF rel] by simp
qed

theorem initial_records_agree_with_markers_witness:
  "\<exists>recs. initialTaskRecords ''run'' sample_graph None = Inr recs \<and>
     effectiveStatus sample_graph (recordsMap recs) (sample_ref ''prd'' ''a'') = Task_completed"
proof -
  have "\<exists>recs. initialTaskRecords ''run'' sample_graph None = Inr recs"
    by (simp add: initialTaskRecords_def initial_record_def sample_graph_simps result_simps
        parse_task_record_def valid_task_record_def initial_status_def nonempty_def nonempty_opt_def
        sha256_def hex_char_def list_all_iff)
  then obtain recs where recs: "initialTaskRecords ''run'' sample_graph None = Inr recs" ..
  have "slug_refs (task_order sample_graph None)"
    by (simp add: slug_refs_def sample_graph_simps prd_slug_def slug_letter_def slug_char_def)
  then show ?thesis
    using initial_records_agree_with_markers [OF recs, of "sample_ref ''prd'' ''a''"] recs
    by (simp add: sample_graph_simps prd_slug_def slug_letter_def slug_char_def)
qed

text \<open>
  The exclusion key the run loop builds for a task whose sandbox may still be alive
  excludes nothing: for slug identifiers, adding such keys never changes what the scheduler
  selects, because the scheduler looks tasks up under another key.
\<close>

theorem sandbox_exclusion_has_no_effect:
  assumes "slug_refs (cg_topologicalOrder g)"
  shows "selectTask g recs d q f
      (map (\<lambda>t. sandboxTerminationTaskKey (ref_documentId t) (ref_taskId t)) ts @ ex) =
    selectTask g recs d q f ex"
proof -
  have "taskRefKey r \<noteq> sandboxTerminationTaskKey d' t'"
    if "r \<in> set (cg_topologicalOrder g)" for r d' t'
    using assms that sandbox_key_is_no_ref_key by (simp add: slug_refs_def list_all_iff)
  then have "select_next g recs d
      (map (\<lambda>t. sandboxTerminationTaskKey (ref_documentId t) (ref_taskId t)) ts @ ex) =
    select_next g recs d ex"
    using set_task_order by (intro select_next_excluded_cong) fastforce
  then show ?thesis
    by (simp add: selectTask_def)
qed

theorem sandbox_exclusion_has_no_effect_witness:
  "selectTask sample_graph Map.empty None None False [sandboxTerminationTaskKey ''prd'' ''b''] =
     selectTask sample_graph Map.empty None None False []"
  using sandbox_exclusion_has_no_effect
    [of sample_graph Map.empty None None False "[sample_ref ''prd'' ''b'']" "[]"]
  by (simp add: slug_refs_def sample_graph_def prd_slug_def slug_letter_def slug_char_def)

end
