(* ===== verification/WatchdogModel.thy ===== *)
theory WatchdogModel
  imports Prelude
begin

text \<open>
  \<^verbatim>\<open>packages/domain/src/watchdog.ts\<close>: the watchdog's phases, states, profiles, observations,
  snapshots, decisions and budgets with the refinements of their schemas, the resolution of a
  phase's profile, the conversion of the human-facing configuration, and the state transition
  table. A schema's refinement is a predicate; fields declared as safe integers are \<^typ>\<open>int\<close>
  with their range in the predicate. ISO timestamps are carried as instants.
\<close>

section \<open>Enumerations\<close>

datatype wd_phase = Wp_model_call | Wp_tool | Wp_gate | Wp_judge | Wp_child | Wp_integration

datatype wd_state = Wd_healthy | Wd_quiet | Wd_slow | Wd_suspect | Wd_stalled | Wd_recovered

datatype wd_action = Act_notify | Act_cancel | Act_restart_attempt | Act_stop_run

datatype wd_decision_action = Do_none | Do wd_action

datatype tri_state = Yes | No | Unknown

datatype settlement = Settlement_running | Settlement_settled | Settlement_unknown

datatype signal_name =
    Sig_control_heartbeat | Sig_progress | Sig_process | Sig_process_activity | Sig_provider
  | Sig_provider_stream | Sig_deadline | Sig_child_heartbeat | Sig_settlement

datatype signal_verdict = Positive | Negative | Verdict_unknown | Not_applicable

datatype reason_code =
    R_watchdog_disabled | R_control_heartbeat_fresh | R_control_heartbeat_missing
  | R_progress_recent | R_progress_quiet | R_progress_slow | R_progress_stale
  | R_process_alive | R_process_dead | R_process_unknown | R_process_active | R_process_idle
  | R_provider_pending | R_provider_idle | R_provider_unknown | R_provider_stream_open
  | R_provider_stream_quiet | R_provider_retry_after | R_child_heartbeat_fresh
  | R_child_heartbeat_missing | R_settlement_running | R_settlement_finished
  | R_settlement_unknown | R_deadline_within_limit | R_phase_deadline_exceeded
  | R_hard_timeout_exceeded | R_negative_quorum | R_insufficient_negative_signals
  | R_awaiting_confirmation | R_recovered_signals | R_restart_budget_exhausted

datatype decision_cause =
    Cause_none | Cause_disabled | Cause_settled | Cause_suspect | Cause_stalled
  | Cause_hard_timeout | Cause_restart_budget_exhausted

definition watchdog_phases :: "wd_phase list" where
  "watchdog_phases = [Wp_model_call, Wp_tool, Wp_gate, Wp_judge, Wp_child, Wp_integration]"

definition signal_names :: "signal_name list" where
  "signal_names =
     [Sig_control_heartbeat, Sig_progress, Sig_process, Sig_process_activity, Sig_provider,
      Sig_provider_stream, Sig_deadline, Sig_child_heartbeat, Sig_settlement]"

section \<open>Profiles\<close>

definition milliseconds :: "int \<Rightarrow> bool" where
  "milliseconds n \<longleftrightarrow> safe_int n \<and> 0 \<le> n"

definition positive_milliseconds :: "int \<Rightarrow> bool" where
  "positive_milliseconds n \<longleftrightarrow> safe_int n \<and> 0 < n"

definition opt_all :: "('a \<Rightarrow> bool) \<Rightarrow> 'a option \<Rightarrow> bool" where
  "opt_all p x \<longleftrightarrow> (case x of None \<Rightarrow> True | Some y \<Rightarrow> p y)"

lemma opt_all_simps [simp]: "opt_all p None" "opt_all p (Some y) = p y"
  by (simp_all add: opt_all_def)

record phase_profile =
  wp_enabled :: bool
  wp_heartbeatIntervalMs :: int
  wp_heartbeatGraceMs :: int
  wp_quietAfterMs :: int
  wp_slowAfterMs :: int
  wp_suspectAfterMs :: int
  wp_hardTimeoutMs :: "int option"
  wp_probeIntervalMs :: int
  wp_confirmations :: int
  wp_action :: wd_action
  wp_maxRestarts :: int

definition timing_ok :: "phase_profile \<Rightarrow> bool" where
  "timing_ok p \<longleftrightarrow>
     wp_heartbeatIntervalMs p \<le> wp_heartbeatGraceMs p \<and>
     wp_heartbeatGraceMs p \<le> wp_quietAfterMs p \<and>
     wp_quietAfterMs p \<le> wp_slowAfterMs p \<and>
     wp_slowAfterMs p \<le> wp_suspectAfterMs p \<and>
     opt_all (\<lambda>h. wp_suspectAfterMs p \<le> h) (wp_hardTimeoutMs p)"

definition profile_fields_ok :: "phase_profile \<Rightarrow> bool" where
  "profile_fields_ok p \<longleftrightarrow>
     positive_milliseconds (wp_heartbeatIntervalMs p) \<and>
     positive_milliseconds (wp_heartbeatGraceMs p) \<and>
     positive_milliseconds (wp_quietAfterMs p) \<and> positive_milliseconds (wp_slowAfterMs p) \<and>
     positive_milliseconds (wp_suspectAfterMs p) \<and>
     opt_all positive_milliseconds (wp_hardTimeoutMs p) \<and>
     positive_milliseconds (wp_probeIntervalMs p) \<and>
     positive_milliseconds (wp_confirmations p) \<and> milliseconds (wp_maxRestarts p)"

definition valid_phase_profile :: "phase_profile \<Rightarrow> bool" where
  "valid_phase_profile p \<longleftrightarrow> profile_fields_ok p \<and> timing_ok p"

text \<open>An override: an absent field keeps the base, a null hard timeout removes it.\<close>

datatype 'a nullable = Null | Value 'a

record phase_override =
  wo_enabled :: "bool option"
  wo_heartbeatIntervalMs :: "int option"
  wo_heartbeatGraceMs :: "int option"
  wo_quietAfterMs :: "int option"
  wo_slowAfterMs :: "int option"
  wo_suspectAfterMs :: "int option"
  wo_hardTimeoutMs :: "int nullable option"
  wo_probeIntervalMs :: "int option"
  wo_confirmations :: "int option"
  wo_action :: "wd_action option"
  wo_maxRestarts :: "int option"

definition valid_phase_override :: "phase_override \<Rightarrow> bool" where
  "valid_phase_override v \<longleftrightarrow>
     opt_all positive_milliseconds (wo_heartbeatIntervalMs v) \<and>
     opt_all positive_milliseconds (wo_heartbeatGraceMs v) \<and>
     opt_all positive_milliseconds (wo_quietAfterMs v) \<and>
     opt_all positive_milliseconds (wo_slowAfterMs v) \<and>
     opt_all positive_milliseconds (wo_suspectAfterMs v) \<and>
     opt_all (case_nullable True positive_milliseconds) (wo_hardTimeoutMs v) \<and>
     opt_all positive_milliseconds (wo_probeIntervalMs v) \<and>
     opt_all positive_milliseconds (wo_confirmations v) \<and>
     opt_all milliseconds (wo_maxRestarts v)"

definition or_base :: "'a option \<Rightarrow> 'a \<Rightarrow> 'a" where
  "or_base v b = (case v of None \<Rightarrow> b | Some x \<Rightarrow> x)"

lemma or_base_simps [simp]: "or_base None b = b" "or_base (Some x) b = x"
  by (simp_all add: or_base_def)

definition apply_override :: "phase_profile \<Rightarrow> phase_override \<Rightarrow> phase_profile" where
  "apply_override b v =
     \<lparr>wp_enabled = or_base (wo_enabled v) (wp_enabled b),
      wp_heartbeatIntervalMs = or_base (wo_heartbeatIntervalMs v) (wp_heartbeatIntervalMs b),
      wp_heartbeatGraceMs = or_base (wo_heartbeatGraceMs v) (wp_heartbeatGraceMs b),
      wp_quietAfterMs = or_base (wo_quietAfterMs v) (wp_quietAfterMs b),
      wp_slowAfterMs = or_base (wo_slowAfterMs v) (wp_slowAfterMs b),
      wp_suspectAfterMs = or_base (wo_suspectAfterMs v) (wp_suspectAfterMs b),
      wp_hardTimeoutMs =
        (case wo_hardTimeoutMs v of
           None \<Rightarrow> wp_hardTimeoutMs b | Some Null \<Rightarrow> None | Some (Value h) \<Rightarrow> Some h),
      wp_probeIntervalMs = or_base (wo_probeIntervalMs v) (wp_probeIntervalMs b),
      wp_confirmations = or_base (wo_confirmations v) (wp_confirmations b),
      wp_action = or_base (wo_action v) (wp_action b),
      wp_maxRestarts = or_base (wo_maxRestarts v) (wp_maxRestarts b)\<rparr>"

record wd_profile =
  wd_base :: phase_profile
  wd_phases :: "wd_phase \<rightharpoonup> phase_override"

definition phase_profile_of :: "wd_profile \<Rightarrow> wd_phase \<Rightarrow> phase_profile" where
  "phase_profile_of p ph =
     (case wd_phases p ph of None \<Rightarrow> wd_base p | Some v \<Rightarrow> apply_override (wd_base p) v)"

text \<open>\<^verbatim>\<open>WatchdogProfileSchema\<close>: the base is valid and so is it under each override.\<close>

definition valid_wd_profile :: "wd_profile \<Rightarrow> bool" where
  "valid_wd_profile p \<longleftrightarrow>
     valid_phase_profile (wd_base p) \<and>
     list_all (\<lambda>ph. case wd_phases p ph of None \<Rightarrow> True
                  | Some v \<Rightarrow> valid_phase_override v \<and> valid_phase_profile (apply_override (wd_base p) v))
       watchdog_phases"

definition parse_with :: "('a \<Rightarrow> bool) \<Rightarrow> 'a \<Rightarrow> 'a result" where
  "parse_with valid x = (if valid x then Inr x else Inl ZodError)"

lemma parse_with_Inr [result_simps]: "parse_with v x = Inr y \<longleftrightarrow> v x \<and> y = x"
  by (auto simp: parse_with_def)

lemma parse_with_Inl [result_simps]: "parse_with v x = Inl e \<longleftrightarrow> \<not> v x \<and> e = ZodError"
  by (auto simp: parse_with_def)

lemma parse_with_valid [simp]: "v x \<Longrightarrow> parse_with v x = Inr x"
  by (simp add: parse_with_def)

definition resolveWatchdogPhaseProfile :: "wd_profile \<Rightarrow> wd_phase \<Rightarrow> phase_profile result" where
  "resolveWatchdogPhaseProfile input phase =
     and_then (parse_with valid_wd_profile input)
       (\<lambda>profile. parse_with valid_phase_profile (phase_profile_of profile phase))"

section \<open>Durations and the configuration\<close>

definition digit_value :: "char \<Rightarrow> int option" where
  "digit_value c = (let n = (of_char c :: nat) in if 48 \<le> n \<and> n \<le> 57 then Some (int (n - 48)) else None)"

definition is_digit :: "char \<Rightarrow> bool" where
  "is_digit c \<longleftrightarrow> digit_value c \<noteq> None"

definition digits_value :: "string \<Rightarrow> int" where
  "digits_value s = foldl (\<lambda>n c. 10 * n + the (digit_value c)) 0 s"

definition WATCHDOG_DURATION_MULTIPLIERS :: "string \<Rightarrow> int option" where
  "WATCHDOG_DURATION_MULTIPLIERS unit =
     map_of [(''ms'', 1), (''s'', 1000), (''m'', 60000), (''h'', 3600000), (''d'', 86400000)] unit"

text \<open>
  \<open>parseWatchdogDuration\<close>: a digit string without leading zero and a unit in any case. The
  product of doubles is a safe integer exactly when the product of the integers is: rounding is
  monotone and exact on safe integers, and both factors are at least 1.
\<close>

definition parseWatchdogDuration :: "string \<Rightarrow> int result" where
  "parseWatchdogDuration value =
     (let number = takeWhile is_digit value; unit = js_lower (dropWhile is_digit value) in
      case WATCHDOG_DURATION_MULTIPLIERS unit of
        None \<Rightarrow> Inl (PlainError ''duration'')
      | Some k \<Rightarrow>
          if number = [] \<or> hd number = CHR ''0'' then Inl (PlainError ''duration'')
          else
            let milliseconds = digits_value number * k in
            if \<not> safe_int milliseconds \<or> milliseconds \<le> 0 then Inl (PlainError ''duration range'')
            else Inr milliseconds)"

record phase_config =
  pc_enabled :: "bool option"
  pc_heartbeat_interval :: "string option"
  pc_heartbeat_grace :: "string option"
  pc_quiet_after :: "string option"
  pc_slow_after :: "string option"
  pc_suspect_after :: "string option"
  pc_hard_timeout :: "string nullable option"
  pc_probe_interval :: "string option"
  pc_confirmations :: "int option"
  pc_action :: "wd_action option"
  pc_max_restarts :: "int option"

record wd_config =
  wc_enabled :: bool
  wc_heartbeat_interval :: string
  wc_heartbeat_grace :: string
  wc_quiet_after :: string
  wc_slow_after :: string
  wc_suspect_after :: string
  wc_hard_timeout :: "string nullable"
  wc_probe_interval :: string
  wc_confirmations :: int
  wc_action :: wd_action
  wc_max_restarts :: int
  wc_phases :: "wd_phase \<rightharpoonup> phase_config"

text \<open>The shape \<^verbatim>\<open>WatchdogDurationSchema\<close> asks for.\<close>

definition duration_text :: "string \<Rightarrow> bool" where
  "duration_text value \<longleftrightarrow>
     (let number = takeWhile is_digit value; unit = js_lower (dropWhile is_digit value) in
      WATCHDOG_DURATION_MULTIPLIERS unit \<noteq> None \<and> number \<noteq> [] \<and> hd number \<noteq> CHR ''0'')"

definition valid_phase_config :: "phase_config \<Rightarrow> bool" where
  "valid_phase_config c \<longleftrightarrow>
     opt_all duration_text (pc_heartbeat_interval c) \<and> opt_all duration_text (pc_heartbeat_grace c) \<and>
     opt_all duration_text (pc_quiet_after c) \<and> opt_all duration_text (pc_slow_after c) \<and>
     opt_all duration_text (pc_suspect_after c) \<and>
     opt_all (case_nullable True duration_text) (pc_hard_timeout c) \<and>
     opt_all duration_text (pc_probe_interval c) \<and>
     opt_all positive_milliseconds (pc_confirmations c) \<and> opt_all milliseconds (pc_max_restarts c)"

definition valid_wd_config :: "wd_config \<Rightarrow> bool" where
  "valid_wd_config c \<longleftrightarrow>
     duration_text (wc_heartbeat_interval c) \<and> duration_text (wc_heartbeat_grace c) \<and>
     duration_text (wc_quiet_after c) \<and> duration_text (wc_slow_after c) \<and>
     duration_text (wc_suspect_after c) \<and> case_nullable True duration_text (wc_hard_timeout c) \<and>
     duration_text (wc_probe_interval c) \<and> positive_milliseconds (wc_confirmations c) \<and>
     milliseconds (wc_max_restarts c) \<and>
     list_all (\<lambda>ph. opt_all valid_phase_config (wc_phases c ph)) watchdog_phases"

definition opt_duration :: "string option \<Rightarrow> int option result" where
  "opt_duration v =
     (case v of None \<Rightarrow> Inr None
              | Some s \<Rightarrow> and_then (parseWatchdogDuration s) (\<lambda>n. Inr (Some n)))"

definition phaseOverrideFromConfig :: "phase_config option \<Rightarrow> phase_override result" where
  "phaseOverrideFromConfig value =
     (case value of
        None \<Rightarrow> Inr \<lparr>wo_enabled = None, wo_heartbeatIntervalMs = None, wo_heartbeatGraceMs = None,
          wo_quietAfterMs = None, wo_slowAfterMs = None, wo_suspectAfterMs = None,
          wo_hardTimeoutMs = None, wo_probeIntervalMs = None, wo_confirmations = None,
          wo_action = None, wo_maxRestarts = None\<rparr>
      | Some c \<Rightarrow>
          and_then (opt_duration (pc_heartbeat_interval c)) (\<lambda>interval.
          and_then (opt_duration (pc_heartbeat_grace c)) (\<lambda>grace.
          and_then (opt_duration (pc_quiet_after c)) (\<lambda>quiet.
          and_then (opt_duration (pc_slow_after c)) (\<lambda>slow.
          and_then (opt_duration (pc_suspect_after c)) (\<lambda>suspect.
          and_then
            (case pc_hard_timeout c of
               None \<Rightarrow> Inr None | Some Null \<Rightarrow> Inr (Some Null)
             | Some (Value s) \<Rightarrow> and_then (parseWatchdogDuration s) (\<lambda>n. Inr (Some (Value n)))) (\<lambda>hard.
          and_then (opt_duration (pc_probe_interval c)) (\<lambda>probe.
          parse_with valid_phase_override
            \<lparr>wo_enabled = pc_enabled c, wo_heartbeatIntervalMs = interval,
             wo_heartbeatGraceMs = grace, wo_quietAfterMs = quiet, wo_slowAfterMs = slow,
             wo_suspectAfterMs = suspect, wo_hardTimeoutMs = hard, wo_probeIntervalMs = probe,
             wo_confirmations = pc_confirmations c, wo_action = pc_action c,
             wo_maxRestarts = pc_max_restarts c\<rparr>))))))))"

fun phase_overrides :: "(wd_phase \<rightharpoonup> phase_config) \<Rightarrow> wd_phase list \<Rightarrow> (wd_phase \<rightharpoonup> phase_override) result" where
  "phase_overrides cs [] = Inr Map.empty"
| "phase_overrides cs (ph # phs) =
     (case cs ph of
        None \<Rightarrow> phase_overrides cs phs
      | Some c \<Rightarrow>
          and_then (phaseOverrideFromConfig (Some c)) (\<lambda>v.
          and_then (phase_overrides cs phs) (\<lambda>m. Inr (m(ph \<mapsto> v)))))"

definition watchdogProfileFromConfig :: "wd_config \<Rightarrow> wd_profile result" where
  "watchdogProfileFromConfig input =
     and_then (parse_with valid_wd_config input) (\<lambda>config.
     and_then (phase_overrides (wc_phases config) watchdog_phases) (\<lambda>phases.
     and_then (parseWatchdogDuration (wc_heartbeat_interval config)) (\<lambda>interval.
     and_then (parseWatchdogDuration (wc_heartbeat_grace config)) (\<lambda>grace.
     and_then (parseWatchdogDuration (wc_quiet_after config)) (\<lambda>quiet.
     and_then (parseWatchdogDuration (wc_slow_after config)) (\<lambda>slow.
     and_then (parseWatchdogDuration (wc_suspect_after config)) (\<lambda>suspect.
     and_then (case wc_hard_timeout config of
                 Null \<Rightarrow> Inr None
               | Value s \<Rightarrow> and_then (parseWatchdogDuration s) (\<lambda>n. Inr (Some n))) (\<lambda>hard.
     and_then (parseWatchdogDuration (wc_probe_interval config)) (\<lambda>probe.
     parse_with valid_wd_profile
       \<lparr>wd_base =
          \<lparr>wp_enabled = wc_enabled config, wp_heartbeatIntervalMs = interval,
           wp_heartbeatGraceMs = grace, wp_quietAfterMs = quiet, wp_slowAfterMs = slow,
           wp_suspectAfterMs = suspect, wp_hardTimeoutMs = hard, wp_probeIntervalMs = probe,
           wp_confirmations = wc_confirmations config, wp_action = wc_action config,
           wp_maxRestarts = wc_max_restarts config\<rparr>,
        wd_phases = phases\<rparr>)))))))))"

section \<open>Observations and snapshots\<close>

record signal_assessment =
  sa_signal :: signal_name
  sa_verdict :: signal_verdict
  sa_reason :: reason_code
  sa_ageMs :: "int option"

record observation =
  ob_probeId :: string
  ob_phase :: wd_phase
  ob_observedAt :: int
  ob_monotonicMs :: int
  ob_phaseStartedMonotonicMs :: int
  ob_lastControlHeartbeatAt :: "int option"
  ob_lastControlHeartbeatMonotonicMs :: "int option"
  ob_lastProgressAt :: "int option"
  ob_lastProgressMonotonicMs :: "int option"
  ob_lastProcessProbeMonotonicMs :: "int option"
  ob_lastChildHeartbeatMonotonicMs :: "int option"
  ob_processAlive :: tri_state
  ob_processActivity :: tri_state
  ob_providerPending :: tri_state
  ob_providerStreamOpen :: tri_state
  ob_providerRetryAfterMonotonicMs :: "int option"
  ob_settlement :: settlement
  ob_phaseDeadlineMonotonicMs :: "int option"
  ob_hardDeadlineMonotonicMs :: "int option"

definition valid_observation :: "observation \<Rightarrow> bool" where
  "valid_observation o' \<longleftrightarrow>
     nonempty (ob_probeId o') \<and> milliseconds (ob_monotonicMs o') \<and>
     milliseconds (ob_phaseStartedMonotonicMs o') \<and>
     ob_phaseStartedMonotonicMs o' \<le> ob_monotonicMs o' \<and>
     opt_all (\<lambda>m. milliseconds m \<and> m \<le> ob_monotonicMs o') (ob_lastControlHeartbeatMonotonicMs o') \<and>
     opt_all (\<lambda>m. milliseconds m \<and> m \<le> ob_monotonicMs o') (ob_lastProgressMonotonicMs o') \<and>
     opt_all (\<lambda>m. milliseconds m \<and> m \<le> ob_monotonicMs o') (ob_lastProcessProbeMonotonicMs o') \<and>
     opt_all (\<lambda>m. milliseconds m \<and> m \<le> ob_monotonicMs o') (ob_lastChildHeartbeatMonotonicMs o') \<and>
     opt_all milliseconds (ob_providerRetryAfterMonotonicMs o') \<and>
     opt_all milliseconds (ob_phaseDeadlineMonotonicMs o') \<and>
     opt_all milliseconds (ob_hardDeadlineMonotonicMs o')"

record snapshot =
  sn_probeId :: string
  sn_state :: wd_state
  sn_phase :: wd_phase
  sn_observedAt :: int
  sn_monotonicMs :: int
  sn_lastControlHeartbeatAt :: "int option"
  sn_lastProgressAt :: "int option"
  sn_processAlive :: tri_state
  sn_providerPending :: tri_state
  sn_negativeConfirmations :: int
  sn_elapsedMs :: int
  sn_progressSilenceMs :: int
  sn_controlSilenceMs :: int
  sn_phaseDeadlineExceeded :: bool
  sn_hardTimeoutExceeded :: bool
  sn_negativeQuorum :: bool
  sn_signals :: "signal_assessment list"
  sn_reasons :: "reason_code list"

definition actionable :: "wd_state \<Rightarrow> bool" where
  "actionable s \<longleftrightarrow> s = Wd_suspect \<or> s = Wd_stalled"

definition negatives :: "signal_assessment list \<Rightarrow> signal_assessment list" where
  "negatives signals = filter (\<lambda>s. sa_verdict s = Negative) signals"

definition valid_snapshot :: "snapshot \<Rightarrow> bool" where
  "valid_snapshot s \<longleftrightarrow>
     nonempty (sn_probeId s) \<and> milliseconds (sn_monotonicMs s) \<and>
     milliseconds (sn_negativeConfirmations s) \<and> milliseconds (sn_elapsedMs s) \<and>
     milliseconds (sn_progressSilenceMs s) \<and> milliseconds (sn_controlSilenceMs s) \<and>
     list_all (\<lambda>a. opt_all milliseconds (sa_ageMs a)) (sn_signals s) \<and>
     length (sn_signals s) = length signal_names \<and>
     distinct (map sa_signal (sn_signals s)) \<and>
     sn_negativeQuorum s = (2 \<le> length (negatives (sn_signals s))) \<and>
     (\<not> actionable (sn_state s) \<longrightarrow> sn_negativeConfirmations s = 0) \<and>
     (actionable (sn_state s) \<longrightarrow> sn_negativeConfirmations s \<noteq> 0) \<and>
     distinct (sn_reasons s)"

section \<open>The restart budget and decisions\<close>

text \<open>An operational budget is its one counter.\<close>

type_synonym wd_budget = int

record budget_view =
  bv_used :: int
  bv_maximum :: int
  bv_remaining :: int
  bv_exhausted :: bool

definition valid_budget_view :: "budget_view \<Rightarrow> bool" where
  "valid_budget_view v \<longleftrightarrow>
     milliseconds (bv_used v) \<and> milliseconds (bv_maximum v) \<and> milliseconds (bv_remaining v) \<and>
     bv_remaining v = max 0 (bv_maximum v - bv_used v) \<and>
     bv_exhausted v = (bv_maximum v \<le> bv_used v)"

definition watchdogRestartBudgetView :: "wd_budget \<Rightarrow> int \<Rightarrow> budget_view result" where
  "watchdogRestartBudgetView budget maximum =
     and_then (parse_with milliseconds budget) (\<lambda>used.
     and_then (parse_with milliseconds maximum) (\<lambda>maxRestarts.
     parse_with valid_budget_view
       \<lparr>bv_used = used, bv_maximum = maxRestarts, bv_remaining = max 0 (maxRestarts - used),
        bv_exhausted = (maxRestarts \<le> used)\<rparr>))"

record decision =
  wr_action :: wd_decision_action
  wr_configuredAction :: wd_action
  wr_cause :: decision_cause
  wr_phase :: wd_phase
  wr_state :: wd_state
  wr_requiresDiagnosticSnapshot :: bool
  wr_requestProtocolPing :: bool
  wr_gracefulCancelFirst :: bool
  wr_forceKillAfterGrace :: bool
  wr_watchdogRestartDelta :: int
  wr_budgetBefore :: budget_view
  wr_budgetAfter :: budget_view
  wr_reasons :: "reason_code list"

definition destructive :: "wd_decision_action \<Rightarrow> bool" where
  "destructive a \<longleftrightarrow> a = Do Act_cancel \<or> a = Do Act_restart_attempt \<or> a = Do Act_stop_run"

definition valid_recovery_decision :: "decision \<Rightarrow> bool" where
  "valid_recovery_decision d \<longleftrightarrow>
     wr_watchdogRestartDelta d \<in> {0, 1} \<and>
     valid_budget_view (wr_budgetBefore d) \<and> valid_budget_view (wr_budgetAfter d) \<and>
     bv_used (wr_budgetAfter d) - bv_used (wr_budgetBefore d) = wr_watchdogRestartDelta d \<and>
     (wr_watchdogRestartDelta d = 1 \<longrightarrow> wr_action d = Do Act_restart_attempt) \<and>
     (wr_action d = Do Act_restart_attempt \<longrightarrow> wr_watchdogRestartDelta d = 1) \<and>
     bv_maximum (wr_budgetBefore d) = bv_maximum (wr_budgetAfter d) \<and>
     wr_gracefulCancelFirst d = destructive (wr_action d) \<and>
     wr_forceKillAfterGrace d = destructive (wr_action d)"

text \<open>A diagnostic by its code and severity; its texts and details are left out.\<close>

datatype severity = Severity_info | Severity_warning | Severity_error

record evaluation =
  we_previousSnapshot :: "snapshot option"
  we_effectiveProfile :: phase_profile
  we_snapshot :: snapshot
  we_decision :: decision
  we_nextBudget :: wd_budget
  we_diagnostics :: "(string \<times> severity) list"

definition valid_evaluation :: "evaluation \<Rightarrow> bool" where
  "valid_evaluation e \<longleftrightarrow>
     opt_all valid_snapshot (we_previousSnapshot e) \<and> valid_phase_profile (we_effectiveProfile e) \<and>
     valid_snapshot (we_snapshot e) \<and> valid_recovery_decision (we_decision e) \<and>
     milliseconds (we_nextBudget e) \<and>
     list_all (\<lambda>d. nonempty (fst d)) (we_diagnostics e) \<and>
     sn_phase (we_snapshot e) = wr_phase (we_decision e) \<and>
     sn_state (we_snapshot e) = wr_state (we_decision e) \<and>
     wp_maxRestarts (we_effectiveProfile e) = bv_maximum (wr_budgetAfter (we_decision e)) \<and>
     we_nextBudget e = bv_used (wr_budgetAfter (we_decision e))"

section \<open>The state transitions\<close>

fun WATCHDOG_STATE_TRANSITIONS :: "wd_state \<Rightarrow> wd_state list" where
  "WATCHDOG_STATE_TRANSITIONS Wd_healthy = [Wd_healthy, Wd_quiet, Wd_slow, Wd_suspect, Wd_stalled]"
| "WATCHDOG_STATE_TRANSITIONS Wd_quiet =
     [Wd_healthy, Wd_quiet, Wd_slow, Wd_suspect, Wd_stalled, Wd_recovered]"
| "WATCHDOG_STATE_TRANSITIONS Wd_slow =
     [Wd_healthy, Wd_quiet, Wd_slow, Wd_suspect, Wd_stalled, Wd_recovered]"
| "WATCHDOG_STATE_TRANSITIONS Wd_suspect = [Wd_suspect, Wd_stalled, Wd_recovered]"
| "WATCHDOG_STATE_TRANSITIONS Wd_stalled = [Wd_stalled, Wd_recovered]"
| "WATCHDOG_STATE_TRANSITIONS Wd_recovered =
     [Wd_healthy, Wd_quiet, Wd_slow, Wd_suspect, Wd_stalled, Wd_recovered]"

definition canTransitionWatchdogState :: "wd_state \<Rightarrow> wd_state \<Rightarrow> bool" where
  "canTransitionWatchdogState a b \<longleftrightarrow> b \<in> set (WATCHDOG_STATE_TRANSITIONS a)"

section \<open>Facts on profiles\<close>

lemma in_watchdog_phases [simp]: "ph \<in> set watchdog_phases"
  by (cases ph) (simp_all add: watchdog_phases_def)

lemma valid_phase_profile_of:
  "valid_wd_profile p \<Longrightarrow> valid_phase_profile (phase_profile_of p ph)"
  by (auto simp: valid_wd_profile_def phase_profile_of_def list_all_iff split: option.splits
      dest!: bspec [OF _ in_watchdog_phases [of ph]])

lemma resolve_valid:
  "valid_wd_profile p \<Longrightarrow> resolveWatchdogPhaseProfile p ph = Inr (phase_profile_of p ph)"
  by (simp add: resolveWatchdogPhaseProfile_def valid_phase_profile_of)

lemma budget_view_Inr:
  "watchdogRestartBudgetView b m = Inr v \<longleftrightarrow>
     milliseconds b \<and> milliseconds m \<and>
     v = \<lparr>bv_used = b, bv_maximum = m, bv_remaining = max 0 (m - b), bv_exhausted = (m \<le> b)\<rparr>"
  by (auto simp: watchdogRestartBudgetView_def result_simps valid_budget_view_def milliseconds_def
      safe_int_def)

section \<open>Facts on durations\<close>

fun decimal :: "nat \<Rightarrow> string" where
  "decimal n = (if n < 10 then [char_of (48 + n)] else decimal (n div 10) @ [char_of (48 + n mod 10)])"

declare decimal.simps [simp del]

lemma digit_value_char_of: "d < 10 \<Longrightarrow> digit_value (char_of (48 + d :: nat)) = Some (int d)"
  by (simp add: digit_value_def Let_def of_char_of)

lemma decimal_digits: "\<forall>c \<in> set (decimal n). is_digit c"
proof (induction n rule: decimal.induct)
  case (1 n)
  then show ?case
    using digit_value_char_of [of n] digit_value_char_of [of "n mod 10"]
    by (subst decimal.simps) (auto simp: is_digit_def)
qed

lemma digits_value_snoc: "digits_value (s @ [c]) = 10 * digits_value s + the (digit_value c)"
  by (simp add: digits_value_def)

lemma digits_value_decimal: "digits_value (decimal n) = int n"
proof (induction n rule: decimal.induct)
  case (1 n)
  show ?case
  proof (cases "n < 10")
    case True
    then show ?thesis
      using digit_value_char_of [of n] by (subst decimal.simps) (simp add: digits_value_def)
  next
    case False
    with 1 have "digits_value (decimal (n div 10)) = int (n div 10)"
      by simp
    moreover have "int n = 10 * int (n div 10) + int (n mod 10)"
      by presburger
    ultimately show ?thesis
      using False digit_value_char_of [of "n mod 10"]
      by (subst decimal.simps) (simp add: digits_value_snoc)
  qed
qed

lemma decimal_nonempty [simp]: "decimal n \<noteq> []"
  by (subst decimal.simps) simp

lemma decimal_hd: "0 < n \<Longrightarrow> hd (decimal n) \<noteq> CHR ''0''"
proof (induction n rule: decimal.induct)
  case (1 n)
  show ?case
  proof (cases "n < 10")
    case True
    then have "digit_value (char_of (48 + n)) = Some (int n)"
      by (rule digit_value_char_of)
    moreover have "digit_value (CHR ''0'') = Some 0"
      by code_simp
    ultimately have "char_of (48 + n) \<noteq> CHR ''0''"
      using 1(2) by force
    with True show ?thesis
      by (subst decimal.simps) simp
  next
    case False
    then show ?thesis
      using 1 by (subst decimal.simps) (simp add: div_greater_zero_iff)
  qed
qed

lemma digit_lower: "is_digit c \<Longrightarrow> lower_char c = c"
  by (auto simp: is_digit_def digit_value_def lower_char_def Let_def split: if_splits)

lemma unit_not_digit:
  "WATCHDOG_DURATION_MULTIPLIERS (js_lower u) = Some k \<Longrightarrow> u \<noteq> [] \<and> \<not> is_digit (hd u)"
proof (cases u)
  case (Cons c cs)
  assume k: "WATCHDOG_DURATION_MULTIPLIERS (js_lower u) = Some k"
  have "\<not> is_digit c"
  proof
    assume "is_digit c"
    then have "js_lower u = c # js_lower cs" and "is_digit c"
      by (simp_all add: Cons js_lower_def digit_lower)
    with k show False
      by (auto simp: WATCHDOG_DURATION_MULTIPLIERS_def is_digit_def digit_value_def split: if_splits)
  qed
  then show ?thesis
    by (simp add: Cons)
qed (simp add: WATCHDOG_DURATION_MULTIPLIERS_def js_lower_def)

lemma takeWhile_prefix:
  "\<forall>c \<in> set xs. p c \<Longrightarrow> ys = [] \<or> \<not> p (hd ys) \<Longrightarrow>
   takeWhile p (xs @ ys) = xs \<and> dropWhile p (xs @ ys) = ys"
  by (induction xs) (cases ys; auto)+

section \<open>Facts on the configuration\<close>

lemma phase_overrides_Inr:
  "phase_overrides cs phs = Inr m \<Longrightarrow>
     (case m ph of
        None \<Rightarrow> ph \<notin> set phs \<or> cs ph = None
      | Some v \<Rightarrow> (\<exists>c. cs ph = Some c \<and> phaseOverrideFromConfig (Some c) = Inr v))"
proof (induction phs arbitrary: m)
  case (Cons a phs)
  show ?case
  proof (cases "cs a")
    case None
    with Cons show ?thesis
      by (fastforce split: option.splits)
  next
    case (Some c)
    with Cons.prems obtain v m' where v: "phaseOverrideFromConfig (Some c) = Inr v"
      and m': "phase_overrides cs phs = Inr m'" and m: "m = m'(a \<mapsto> v)"
      by (auto simp: result_simps)
    show ?thesis
      using Cons.IH [OF m'] v Some by (auto simp: m split: option.splits)
  qed
qed simp

text \<open>The text a configuration gives a phase: the phase's own, or the base one.\<close>

definition phase_text :: "wd_config \<Rightarrow> wd_phase \<Rightarrow> (phase_config \<Rightarrow> 'a option) \<Rightarrow> (wd_config \<Rightarrow> 'a) \<Rightarrow> 'a" where
  "phase_text c ph f g = (case wc_phases c ph of None \<Rightarrow> g c | Some pc \<Rightarrow> or_base (f pc) (g c))"

lemma opt_duration_or_base:
  "opt_duration v = Inr x \<Longrightarrow> parseWatchdogDuration b = Inr n \<Longrightarrow>
   parseWatchdogDuration (or_base v b) = Inr (or_base x n)"
  by (cases v) (auto simp: opt_duration_def result_simps)

lemma override_from_config_fields:
  assumes "phaseOverrideFromConfig (Some c) = Inr v"
  shows "opt_duration (pc_heartbeat_interval c) = Inr (wo_heartbeatIntervalMs v)"
    "opt_duration (pc_heartbeat_grace c) = Inr (wo_heartbeatGraceMs v)"
    "opt_duration (pc_quiet_after c) = Inr (wo_quietAfterMs v)"
    "opt_duration (pc_slow_after c) = Inr (wo_slowAfterMs v)"
    "opt_duration (pc_suspect_after c) = Inr (wo_suspectAfterMs v)"
    "opt_duration (pc_probe_interval c) = Inr (wo_probeIntervalMs v)"
    "wo_enabled v = pc_enabled c" "wo_confirmations v = pc_confirmations c"
    "wo_action v = pc_action c" "wo_maxRestarts v = pc_max_restarts c"
    "(case pc_hard_timeout c of
        None \<Rightarrow> Inr None | Some Null \<Rightarrow> Inr (Some Null)
      | Some (Value s) \<Rightarrow> and_then (parseWatchdogDuration s) (\<lambda>n. Inr (Some (Value n))))
     = Inr (wo_hardTimeoutMs v)"
proof -
  have "\<exists>i g q sl su h pr.
      opt_duration (pc_heartbeat_interval c) = Inr i \<and> opt_duration (pc_heartbeat_grace c) = Inr g \<and>
      opt_duration (pc_quiet_after c) = Inr q \<and> opt_duration (pc_slow_after c) = Inr sl \<and>
      opt_duration (pc_suspect_after c) = Inr su \<and>
      (case pc_hard_timeout c of
          None \<Rightarrow> Inr None | Some Null \<Rightarrow> Inr (Some Null)
        | Some (Value s) \<Rightarrow> and_then (parseWatchdogDuration s) (\<lambda>n. Inr (Some (Value n)))) = Inr h \<and>
      opt_duration (pc_probe_interval c) = Inr pr \<and>
      v = \<lparr>wo_enabled = pc_enabled c, wo_heartbeatIntervalMs = i,
             wo_heartbeatGraceMs = g, wo_quietAfterMs = q, wo_slowAfterMs = sl,
             wo_suspectAfterMs = su, wo_hardTimeoutMs = h, wo_probeIntervalMs = pr,
             wo_confirmations = pc_confirmations c, wo_action = pc_action c,
             wo_maxRestarts = pc_max_restarts c\<rparr>"
    using assms unfolding phaseOverrideFromConfig_def option.case and_then_Inr parse_with_Inr by blast
  then show "opt_duration (pc_heartbeat_interval c) = Inr (wo_heartbeatIntervalMs v)"
    "opt_duration (pc_heartbeat_grace c) = Inr (wo_heartbeatGraceMs v)"
    "opt_duration (pc_quiet_after c) = Inr (wo_quietAfterMs v)"
    "opt_duration (pc_slow_after c) = Inr (wo_slowAfterMs v)"
    "opt_duration (pc_suspect_after c) = Inr (wo_suspectAfterMs v)"
    "opt_duration (pc_probe_interval c) = Inr (wo_probeIntervalMs v)"
    "wo_enabled v = pc_enabled c" "wo_confirmations v = pc_confirmations c"
    "wo_action v = pc_action c" "wo_maxRestarts v = pc_max_restarts c"
    "(case pc_hard_timeout c of
        None \<Rightarrow> Inr None | Some Null \<Rightarrow> Inr (Some Null)
      | Some (Value s) \<Rightarrow> and_then (parseWatchdogDuration s) (\<lambda>n. Inr (Some (Value n))))
     = Inr (wo_hardTimeoutMs v)"
    by (elim exE conjE, simp)+
qed

lemma profile_from_config_fields:
  assumes "watchdogProfileFromConfig c = Inr p"
  shows "valid_wd_profile p"
    "phase_overrides (wc_phases c) watchdog_phases = Inr (wd_phases p)"
    "wp_enabled (wd_base p) = wc_enabled c"
    "parseWatchdogDuration (wc_heartbeat_interval c) = Inr (wp_heartbeatIntervalMs (wd_base p))"
    "parseWatchdogDuration (wc_heartbeat_grace c) = Inr (wp_heartbeatGraceMs (wd_base p))"
    "parseWatchdogDuration (wc_quiet_after c) = Inr (wp_quietAfterMs (wd_base p))"
    "parseWatchdogDuration (wc_slow_after c) = Inr (wp_slowAfterMs (wd_base p))"
    "parseWatchdogDuration (wc_suspect_after c) = Inr (wp_suspectAfterMs (wd_base p))"
    "(case wc_hard_timeout c of Null \<Rightarrow> Inr None
      | Value s \<Rightarrow> and_then (parseWatchdogDuration s) (\<lambda>n. Inr (Some n)))
     = Inr (wp_hardTimeoutMs (wd_base p))"
    "parseWatchdogDuration (wc_probe_interval c) = Inr (wp_probeIntervalMs (wd_base p))"
    "wp_confirmations (wd_base p) = wc_confirmations c" "wp_action (wd_base p) = wc_action c"
    "wp_maxRestarts (wd_base p) = wc_max_restarts c"
  using assms unfolding watchdogProfileFromConfig_def by (auto simp: result_simps)

lemma hard_timeout_override:
  assumes "(case h of
        None \<Rightarrow> Inr None | Some Null \<Rightarrow> Inr (Some Null)
      | Some (Value s) \<Rightarrow> and_then (parseWatchdogDuration s) (\<lambda>n. Inr (Some (Value n)))) = Inr x"
    and "(case b of Null \<Rightarrow> Inr None
      | Value s \<Rightarrow> and_then (parseWatchdogDuration s) (\<lambda>n. Inr (Some n))) = Inr y"
  shows "case or_base h b of
       Null \<Rightarrow> (case x of None \<Rightarrow> y | Some Null \<Rightarrow> None | Some (Value n) \<Rightarrow> Some n) = None
     | Value s \<Rightarrow> (\<exists>n. parseWatchdogDuration s = Inr n \<and>
         (case x of None \<Rightarrow> y | Some Null \<Rightarrow> None | Some (Value n) \<Rightarrow> Some n) = Some n)"
  using assms by (auto simp: result_simps split: option.splits nullable.splits)

section \<open>Properties\<close>



text \<open>
  C24. The runtime profile is what the configuration says, phase by phase: a configuration that
  converts resolves in every phase to a valid profile whose every field is the phase's own
  setting where it has one and the base setting otherwise, durations read in milliseconds, and
  a null hard timeout removing the deadline.
\<close>

theorem config_profile_resolves:
  assumes "watchdogProfileFromConfig c = Inr p"
  shows "\<exists>q. resolveWatchdogPhaseProfile p ph = Inr q \<and> valid_phase_profile q \<and>
    wp_enabled q = phase_text c ph pc_enabled wc_enabled \<and>
    parseWatchdogDuration (phase_text c ph pc_heartbeat_interval wc_heartbeat_interval)
      = Inr (wp_heartbeatIntervalMs q) \<and>
    parseWatchdogDuration (phase_text c ph pc_heartbeat_grace wc_heartbeat_grace)
      = Inr (wp_heartbeatGraceMs q) \<and>
    parseWatchdogDuration (phase_text c ph pc_quiet_after wc_quiet_after) = Inr (wp_quietAfterMs q) \<and>
    parseWatchdogDuration (phase_text c ph pc_slow_after wc_slow_after) = Inr (wp_slowAfterMs q) \<and>
    parseWatchdogDuration (phase_text c ph pc_suspect_after wc_suspect_after)
      = Inr (wp_suspectAfterMs q) \<and>
    (case phase_text c ph pc_hard_timeout wc_hard_timeout of
       Null \<Rightarrow> wp_hardTimeoutMs q = None
     | Value s \<Rightarrow> (\<exists>n. parseWatchdogDuration s = Inr n \<and> wp_hardTimeoutMs q = Some n)) \<and>
    parseWatchdogDuration (phase_text c ph pc_probe_interval wc_probe_interval)
      = Inr (wp_probeIntervalMs q) \<and>
    wp_confirmations q = phase_text c ph pc_confirmations wc_confirmations \<and>
    wp_action q = phase_text c ph pc_action wc_action \<and>
    wp_maxRestarts q = phase_text c ph pc_max_restarts wc_max_restarts"
proof -
  note base = profile_from_config_fields [OF assms]
  have res: "resolveWatchdogPhaseProfile p ph = Inr (phase_profile_of p ph)"
    and valid: "valid_phase_profile (phase_profile_of p ph)"
    using base(1) by (simp_all add: resolve_valid valid_phase_profile_of)
  show ?thesis
  proof (cases "wd_phases p ph")
    case None
    then have "wc_phases c ph = None"
      using phase_overrides_Inr [OF base(2), of ph] by simp
    then show ?thesis
      using None res valid base by (auto simp: phase_profile_of_def phase_text_def result_simps split: nullable.splits)
  next
    case (Some v)
    then obtain pc where pc: "wc_phases c ph = Some pc" "phaseOverrideFromConfig (Some pc) = Inr v"
      using phase_overrides_Inr [OF base(2), of ph] by auto
    note fields = override_from_config_fields [OF pc(2)]
    have q: "phase_profile_of p ph = apply_override (wd_base p) v"
      by (simp add: phase_profile_of_def Some)
    have hard: "case phase_text c ph pc_hard_timeout wc_hard_timeout of
        Null \<Rightarrow> wp_hardTimeoutMs (phase_profile_of p ph) = None
      | Value s \<Rightarrow> (\<exists>n. parseWatchdogDuration s = Inr n \<and>
          wp_hardTimeoutMs (phase_profile_of p ph) = Some n)"
    proof -
      have h: "wp_hardTimeoutMs (phase_profile_of p ph) =
          (case wo_hardTimeoutMs v of
             None \<Rightarrow> wp_hardTimeoutMs (wd_base p) | Some Null \<Rightarrow> None | Some (Value n) \<Rightarrow> Some n)"
        by (simp add: q apply_override_def)
      show ?thesis
        unfolding phase_text_def pc(1) option.case h
        by (rule hard_timeout_override [OF fields(11) base(9)])
    qed
    show ?thesis
    proof (intro exI conjI)
      show "resolveWatchdogPhaseProfile p ph = Inr (phase_profile_of p ph)"
        by (fact res)
      show "valid_phase_profile (phase_profile_of p ph)"
        by (fact valid)
    qed (fact hard | simp add: q phase_text_def pc(1) apply_override_def fields(7-10) base(3,11-13)
           opt_duration_or_base [OF fields(1) base(4)] opt_duration_or_base [OF fields(2) base(5)]
           opt_duration_or_base [OF fields(3) base(6)] opt_duration_or_base [OF fields(4) base(7)]
           opt_duration_or_base [OF fields(5) base(8)] opt_duration_or_base [OF fields(6) base(10)])+
  qed
qed

definition sample_config :: wd_config where
  "sample_config =
     \<lparr>wc_enabled = True, wc_heartbeat_interval = ''5s'', wc_heartbeat_grace = ''15s'',
      wc_quiet_after = ''30s'', wc_slow_after = ''1m'', wc_suspect_after = ''2m'',
      wc_hard_timeout = Value ''1h'', wc_probe_interval = ''5s'', wc_confirmations = 2,
      wc_action = Act_restart_attempt, wc_max_restarts = 1,
      wc_phases = [Wp_judge \<mapsto>
        \<lparr>pc_enabled = None, pc_heartbeat_interval = None, pc_heartbeat_grace = None,
         pc_quiet_after = None, pc_slow_after = None, pc_suspect_after = Some ''3M'',
         pc_hard_timeout = Some Null, pc_probe_interval = None, pc_confirmations = None,
         pc_action = Some Act_notify, pc_max_restarts = None\<rparr>]\<rparr>"

theorem config_profile_resolves_witness:
  "\<exists>p q. watchdogProfileFromConfig sample_config = Inr p \<and>
     resolveWatchdogPhaseProfile p Wp_judge = Inr q \<and> wp_hardTimeoutMs q = None \<and>
     wp_action q = Act_notify \<and> Inr (wp_suspectAfterMs q) = parseWatchdogDuration ''3M''"
proof -
  have "ok (watchdogProfileFromConfig sample_config)"
    by code_simp
  then obtain p where p: "watchdogProfileFromConfig sample_config = Inr p"
    by (auto simp: ok_iff)
  obtain q where q: "resolveWatchdogPhaseProfile p Wp_judge = Inr q"
    and h: "case phase_text sample_config Wp_judge pc_hard_timeout wc_hard_timeout of
       Null \<Rightarrow> wp_hardTimeoutMs q = None
     | Value s \<Rightarrow> (\<exists>n. parseWatchdogDuration s = Inr n \<and> wp_hardTimeoutMs q = Some n)"
    and a: "wp_action q = phase_text sample_config Wp_judge pc_action wc_action"
    and s: "parseWatchdogDuration (phase_text sample_config Wp_judge pc_suspect_after wc_suspect_after)
      = Inr (wp_suspectAfterMs q)"
    using config_profile_resolves [OF p, of Wp_judge] by blast
  have "wp_hardTimeoutMs q = None" "wp_action q = Act_notify"
    "Inr (wp_suspectAfterMs q) = parseWatchdogDuration ''3M''"
    using h a s by (simp_all add: phase_text_def sample_config_def)
  then show ?thesis
    using p q by blast
qed

end
