(* ===== verification/Watchdog.thy ===== *)
theory Watchdog
  imports WatchdogModel
begin

text \<open>
  \<^verbatim>\<open>packages/supervisor/src/watchdog.ts\<close>: the assessment of one probe, the state
  classification with its confirmations, the snapshot, the recovery decision with the restart
  budget, the diagnostics, and \<^verbatim>\<open>evaluateWatchdog\<close> that composes them. The ages
  passed to \<^verbatim>\<open>signal\<close> are non-negative safe integers for every parsed observation
  (\<open>analysis_ages\<close>), so the parse of an assessment never throws and is not a branch.
\<close>

section \<open>Signals\<close>

definition age :: "int \<Rightarrow> int option \<Rightarrow> int \<Rightarrow> int" where
  "age now marker fallback = max 0 (now - (case marker of None \<Rightarrow> fallback | Some m \<Rightarrow> m))"

definition safeDeadline :: "int \<Rightarrow> int option \<Rightarrow> int option" where
  "safeDeadline start duration =
     (case duration of None \<Rightarrow> None | Some d \<Rightarrow> Some (min 9007199254740991 (start + d)))"

text \<open>The minimum of the values present.\<close>

definition earliestDeadline :: "int option list \<Rightarrow> int option" where
  "earliestDeadline values =
     (let present = [t. Some t \<leftarrow> values]
      in if present = [] then None else Some (fold min (tl present) (hd present)))"

definition signal :: "signal_name \<Rightarrow> signal_verdict \<Rightarrow> reason_code \<Rightarrow> int option \<Rightarrow> signal_assessment" where
  "signal name verdict reason ageMs =
     \<lparr>sa_signal = name, sa_verdict = verdict, sa_reason = reason, sa_ageMs = ageMs\<rparr>"

record analysis =
  an_signals :: "signal_assessment list"
  an_progressSilenceMs :: int
  an_controlSilenceMs :: int
  an_phaseDeadlineExceeded :: bool
  an_hardTimeoutExceeded :: bool
  an_negativeQuorum :: bool
  an_positiveSignals :: nat
  an_reasons :: "reason_code list"

definition control_signal :: "phase_profile \<Rightarrow> int \<Rightarrow> signal_assessment" where
  "control_signal profile silence =
     (if silence \<le> wp_heartbeatGraceMs profile
      then signal Sig_control_heartbeat Positive R_control_heartbeat_fresh (Some silence)
      else signal Sig_control_heartbeat Negative R_control_heartbeat_missing (Some silence))"

definition progress_signal :: "phase_profile \<Rightarrow> int \<Rightarrow> signal_assessment" where
  "progress_signal profile silence =
     (if silence < wp_quietAfterMs profile
      then signal Sig_progress Positive R_progress_recent (Some silence)
      else if silence < wp_slowAfterMs profile
      then signal Sig_progress Positive R_progress_quiet (Some silence)
      else if silence < wp_suspectAfterMs profile
      then signal Sig_progress Verdict_unknown R_progress_slow (Some silence)
      else signal Sig_progress Negative R_progress_stale (Some silence))"

definition process_signal :: "tri_state \<Rightarrow> signal_assessment" where
  "process_signal alive =
     (case alive of
        Yes \<Rightarrow> signal Sig_process Positive R_process_alive None
      | No \<Rightarrow> signal Sig_process Negative R_process_dead None
      | Unknown \<Rightarrow> signal Sig_process Verdict_unknown R_process_unknown None)"

definition activity_signal :: "tri_state \<Rightarrow> signal_assessment" where
  "activity_signal activity =
     (if activity = Yes then signal Sig_process_activity Positive R_process_active None
      else signal Sig_process_activity Verdict_unknown R_process_idle None)"

definition provider_phase :: "wd_phase \<Rightarrow> bool" where
  "provider_phase ph \<longleftrightarrow> ph = Wp_model_call \<or> ph = Wp_judge"

definition stream_signal :: "tri_state \<Rightarrow> signal_assessment" where
  "stream_signal opened =
     (if opened = Yes then signal Sig_provider_stream Positive R_provider_stream_open None
      else signal Sig_provider_stream Verdict_unknown R_provider_stream_quiet None)"

definition provider_signals :: "observation \<Rightarrow> signal_assessment list" where
  "provider_signals ob =
     (if \<not> provider_phase (ob_phase ob)
      then [signal Sig_provider Not_applicable R_provider_unknown None,
            signal Sig_provider_stream Not_applicable R_provider_stream_quiet None]
      else if (case ob_providerRetryAfterMonotonicMs ob of
                 None \<Rightarrow> False | Some t \<Rightarrow> ob_monotonicMs ob < t)
      then [signal Sig_provider Positive R_provider_retry_after None,
            stream_signal (ob_providerStreamOpen ob)]
      else
        [(case ob_providerPending ob of
            Yes \<Rightarrow> signal Sig_provider Positive R_provider_pending None
          | No \<Rightarrow> signal Sig_provider Negative R_provider_idle None
          | Unknown \<Rightarrow> signal Sig_provider Verdict_unknown R_provider_unknown None),
         stream_signal (ob_providerStreamOpen ob)])"

definition deadline_signal :: "bool \<Rightarrow> bool \<Rightarrow> bool \<Rightarrow> signal_assessment" where
  "deadline_signal hardExceeded phaseExceeded anyDeadline =
     (if hardExceeded then signal Sig_deadline Negative R_hard_timeout_exceeded None
      else if phaseExceeded then signal Sig_deadline Negative R_phase_deadline_exceeded None
      else if anyDeadline then signal Sig_deadline Positive R_deadline_within_limit None
      else signal Sig_deadline Not_applicable R_deadline_within_limit None)"

definition child_signal :: "phase_profile \<Rightarrow> wd_phase \<Rightarrow> int \<Rightarrow> signal_assessment" where
  "child_signal profile ph silence =
     (if ph = Wp_child
      then if silence \<le> wp_heartbeatGraceMs profile
           then signal Sig_child_heartbeat Positive R_child_heartbeat_fresh (Some silence)
           else signal Sig_child_heartbeat Negative R_child_heartbeat_missing (Some silence)
      else signal Sig_child_heartbeat Not_applicable R_child_heartbeat_fresh None)"

definition settlement_signal :: "settlement \<Rightarrow> signal_assessment" where
  "settlement_signal st =
     (case st of
        Settlement_running \<Rightarrow> signal Sig_settlement Positive R_settlement_running None
      | Settlement_settled \<Rightarrow> signal Sig_settlement Positive R_settlement_finished None
      | Settlement_unknown \<Rightarrow> signal Sig_settlement Verdict_unknown R_settlement_unknown None)"

text \<open>One quorum slot: the two probes of a child's control plane share theirs.\<close>

datatype family = Child_ipc_control_plane | Single signal_name

definition signal_family :: "wd_phase \<Rightarrow> signal_name \<Rightarrow> family" where
  "signal_family ph name =
     (if ph = Wp_child \<and> (name = Sig_control_heartbeat \<or> name = Sig_child_heartbeat)
      then Child_ipc_control_plane else Single name)"

definition negative_families :: "wd_phase \<Rightarrow> signal_assessment list \<Rightarrow> family list" where
  "negative_families ph signals = js_unique (map (\<lambda>a. signal_family ph (sa_signal a)) (negatives signals))"

definition hard_deadline :: "observation \<Rightarrow> phase_profile \<Rightarrow> int option" where
  "hard_deadline ob profile =
     earliestDeadline
       [safeDeadline (ob_phaseStartedMonotonicMs ob) (wp_hardTimeoutMs profile),
        ob_hardDeadlineMonotonicMs ob]"

definition reached :: "int \<Rightarrow> int option \<Rightarrow> bool" where
  "reached now deadline \<longleftrightarrow> (case deadline of None \<Rightarrow> False | Some t \<Rightarrow> t \<le> now)"

definition analyzeSignals :: "observation \<Rightarrow> phase_profile \<Rightarrow> analysis" where
  "analyzeSignals ob profile =
     (let now = ob_monotonicMs ob;
          phaseStart = ob_phaseStartedMonotonicMs ob;
          controlSilence = age now (ob_lastControlHeartbeatMonotonicMs ob) phaseStart;
          progressSilence = age now (ob_lastProgressMonotonicMs ob) phaseStart;
          childSilence = age now (ob_lastChildHeartbeatMonotonicMs ob) phaseStart;
          hardExceeded = reached now (hard_deadline ob profile);
          phaseExceeded = reached now (ob_phaseDeadlineMonotonicMs ob);
          signals =
            [control_signal profile controlSilence, progress_signal profile progressSilence,
             process_signal (ob_processAlive ob), activity_signal (ob_processActivity ob)] @
            provider_signals ob @
            [deadline_signal hardExceeded phaseExceeded
               (hard_deadline ob profile \<noteq> None \<or> ob_phaseDeadlineMonotonicMs ob \<noteq> None),
             child_signal profile (ob_phase ob) childSilence, settlement_signal (ob_settlement ob)];
          quorum = (2 \<le> length (negative_families (ob_phase ob) signals))
      in \<lparr>an_signals = signals, an_progressSilenceMs = progressSilence,
          an_controlSilenceMs = controlSilence, an_phaseDeadlineExceeded = phaseExceeded,
          an_hardTimeoutExceeded = hardExceeded, an_negativeQuorum = quorum,
          an_positiveSignals = length (filter (\<lambda>a. sa_verdict a = Positive) signals),
          an_reasons =
            js_unique (js_unique (map sa_reason signals) @
              (if quorum then [R_negative_quorum]
               else if negatives signals \<noteq> [] then [R_insufficient_negative_signals] else []))\<rparr>)"

section \<open>Classification\<close>

definition same_phase :: "snapshot option \<Rightarrow> observation \<Rightarrow> bool" where
  "same_phase previous ob \<longleftrightarrow> (case previous of None \<Rightarrow> False | Some s \<Rightarrow> sn_phase s = ob_phase ob)"

definition previous_state :: "snapshot option \<Rightarrow> wd_state option" where
  "previous_state previous = map_option sn_state previous"

definition previous_confirmations :: "snapshot option \<Rightarrow> observation \<Rightarrow> int" where
  "previous_confirmations previous ob =
     (case previous of
        None \<Rightarrow> 0 | Some s \<Rightarrow> if sn_phase s = ob_phase ob then sn_negativeConfirmations s else 0)"

text \<open>The state a number of confirmations stands for, and the reason it adds.\<close>

definition confirmed :: "phase_profile \<Rightarrow> int \<Rightarrow> wd_state \<times> int \<times> reason_code list" where
  "confirmed profile n =
     (if wp_confirmations profile \<le> n then (Wd_stalled, n, [])
      else (Wd_suspect, n, [R_awaiting_confirmation]))"

definition suspicion_window :: "phase_profile \<Rightarrow> observation \<Rightarrow> analysis \<Rightarrow> bool" where
  "suspicion_window profile ob an \<longleftrightarrow>
     wp_suspectAfterMs profile \<le> an_progressSilenceMs an \<or>
     wp_heartbeatGraceMs profile < an_controlSilenceMs an \<or>
     an_phaseDeadlineExceeded an \<or>
     ob_processAlive ob = No \<and> ob_settlement ob = Settlement_running"

definition observed_state ::
  "phase_profile \<Rightarrow> observation \<Rightarrow> analysis \<Rightarrow> snapshot option \<Rightarrow> wd_state \<times> int \<times> reason_code list" where
  "observed_state profile ob an previous =
     (if \<not> wp_enabled profile then (Wd_healthy, 0, [R_watchdog_disabled])
      else if ob_settlement ob = Settlement_settled then (Wd_healthy, 0, [])
      else if an_hardTimeoutExceeded an then
        (if same_phase previous ob \<and> previous_state previous = Some Wd_stalled
         then (Wd_stalled, previous_confirmations previous ob, [])
         else confirmed profile
           ((if same_phase previous ob \<and> (case previous of None \<Rightarrow> False | Some s \<Rightarrow> sn_hardTimeoutExceeded s)
             then previous_confirmations previous ob else 0) + 1))
      else if an_negativeQuorum an \<and> suspicion_window profile ob an
      then confirmed profile (previous_confirmations previous ob + 1)
      else if wp_slowAfterMs profile \<le> an_progressSilenceMs an \<or>
              wp_heartbeatGraceMs profile < an_controlSilenceMs an
      then (Wd_slow, 0, [])
      else if wp_quietAfterMs profile \<le> an_progressSilenceMs an then (Wd_quiet, 0, [])
      else (Wd_healthy, 0, []))"

definition recovery_confirmed :: "phase_profile \<Rightarrow> observation \<Rightarrow> analysis \<Rightarrow> bool" where
  "recovery_confirmed profile ob an \<longleftrightarrow>
     \<not> wp_enabled profile \<or> ob_settlement ob = Settlement_settled \<or> 2 \<le> an_positiveSignals an"

text \<open>What the previous snapshot of the phase makes of the observed state.\<close>

definition settle_state ::
  "phase_profile \<Rightarrow> observation \<Rightarrow> analysis \<Rightarrow> snapshot option \<Rightarrow>
   wd_state \<times> int \<times> reason_code list \<Rightarrow> wd_state \<times> int \<times> reason_code list" where
  "settle_state profile ob an previous obs =
     (case obs of (state, n, rs) \<Rightarrow>
      case previous of
        None \<Rightarrow> (state, n, rs)
      | Some s \<Rightarrow>
          if sn_phase s = ob_phase ob \<and> actionable (sn_state s) \<and> \<not> actionable state then
            (if recovery_confirmed profile ob an
             then (Wd_recovered, 0, rs @ [R_recovered_signals])
             else (sn_state s, sn_negativeConfirmations s, rs @ [R_awaiting_confirmation]))
          else if sn_phase s = ob_phase ob \<and> sn_state s = Wd_slow \<and>
                  (state = Wd_healthy \<or> state = Wd_quiet) \<and> recovery_confirmed profile ob an
          then (Wd_recovered, 0, rs @ [R_recovered_signals])
          else (state, n, rs))"

definition classifyState ::
  "phase_profile \<Rightarrow> observation \<Rightarrow> analysis \<Rightarrow> snapshot option \<Rightarrow>
   (wd_state \<times> int \<times> reason_code list) result" where
  "classifyState profile ob an previous =
     (case settle_state profile ob an previous (observed_state profile ob an previous) of
        (state, n, rs) \<Rightarrow>
          if (case previous of
                None \<Rightarrow> False
              | Some s \<Rightarrow> sn_phase s = ob_phase ob \<and> \<not> canTransitionWatchdogState (sn_state s) state)
          then Inl (PlainError ''Invalid watchdog state transition'')
          else Inr (state, n, js_unique (an_reasons an @ rs)))"

definition buildSnapshot ::
  "phase_profile \<Rightarrow> observation \<Rightarrow> analysis \<Rightarrow> snapshot option \<Rightarrow> snapshot result" where
  "buildSnapshot profile ob an previous =
     and_then (classifyState profile ob an previous) (\<lambda>(state, n, rs).
       parse_with valid_snapshot
         \<lparr>sn_probeId = ob_probeId ob, sn_state = state, sn_phase = ob_phase ob,
          sn_observedAt = ob_observedAt ob, sn_monotonicMs = ob_monotonicMs ob,
          sn_lastControlHeartbeatAt = ob_lastControlHeartbeatAt ob,
          sn_lastProgressAt = ob_lastProgressAt ob, sn_processAlive = ob_processAlive ob,
          sn_providerPending = ob_providerPending ob, sn_negativeConfirmations = n,
          sn_elapsedMs = ob_monotonicMs ob - ob_phaseStartedMonotonicMs ob,
          sn_progressSilenceMs = an_progressSilenceMs an,
          sn_controlSilenceMs = an_controlSilenceMs an,
          sn_phaseDeadlineExceeded = an_phaseDeadlineExceeded an,
          sn_hardTimeoutExceeded = an_hardTimeoutExceeded an,
          sn_negativeQuorum = an_negativeQuorum an, sn_signals = an_signals an,
          sn_reasons = rs\<rparr>)"

section \<open>Decision and diagnostics\<close>

definition same_state :: "snapshot option \<Rightarrow> snapshot \<Rightarrow> bool" where
  "same_state previous s \<longleftrightarrow>
     (case previous of None \<Rightarrow> False | Some p \<Rightarrow> sn_phase p = sn_phase s \<and> sn_state p = sn_state s)"

text \<open>The action, its cause, the budget delta and the reason it adds.\<close>

definition chosen_action ::
  "phase_profile \<Rightarrow> snapshot \<Rightarrow> bool \<Rightarrow> budget_view \<Rightarrow>
   wd_decision_action \<times> decision_cause \<times> int \<times> reason_code list" where
  "chosen_action profile s entered before =
     (if \<not> wp_enabled profile then (Do_none, Cause_disabled, 0, [])
      else if R_settlement_finished \<in> set (sn_reasons s) then (Do_none, Cause_settled, 0, [])
      else if sn_state s = Wd_suspect \<and> entered then (Do Act_notify, Cause_suspect, 0, [])
      else if sn_state s = Wd_stalled \<and> entered then
        (if wp_action profile = Act_restart_attempt \<and> bv_exhausted before
         then (Do Act_stop_run, Cause_restart_budget_exhausted, 0, [R_restart_budget_exhausted])
         else (Do (wp_action profile),
               (if sn_hardTimeoutExceeded s then Cause_hard_timeout else Cause_stalled),
               (if wp_action profile = Act_restart_attempt then 1 else 0), []))
      else (Do_none, Cause_none, 0, []))"

definition recoveryDecision ::
  "phase_profile \<Rightarrow> snapshot \<Rightarrow> wd_budget \<Rightarrow> snapshot option \<Rightarrow> (decision \<times> wd_budget) result" where
  "recoveryDecision profile s budget previous =
     (let entered = (\<not> same_state previous s) in
      and_then (watchdogRestartBudgetView budget (wp_maxRestarts profile)) (\<lambda>before.
      case chosen_action profile s entered before of (action, cause, delta, rs) \<Rightarrow>
      and_then (parse_with milliseconds (budget + delta)) (\<lambda>nextBudget.
      and_then (watchdogRestartBudgetView nextBudget (wp_maxRestarts profile)) (\<lambda>after.
      and_then (parse_with valid_recovery_decision
        \<lparr>wr_action = action, wr_configuredAction = wp_action profile, wr_cause = cause,
         wr_phase = sn_phase s, wr_state = sn_state s,
         wr_requiresDiagnosticSnapshot = (entered \<and> actionable (sn_state s)),
         wr_requestProtocolPing = (entered \<and> sn_state s = Wd_suspect),
         wr_gracefulCancelFirst = destructive action, wr_forceKillAfterGrace = destructive action,
         wr_watchdogRestartDelta = delta, wr_budgetBefore = before, wr_budgetAfter = after,
         wr_reasons = js_unique (sn_reasons s @ rs)\<rparr>)
        (\<lambda>d. Inr (d, nextBudget))))))"

definition evaluationDiagnostics :: "snapshot \<Rightarrow> decision \<Rightarrow> snapshot option \<Rightarrow> (string \<times> severity) list" where
  "evaluationDiagnostics s d previous =
     (if same_state previous s then []
      else if wr_cause d = Cause_restart_budget_exhausted
      then [(''WATCHDOG_RESTART_BUDGET_EXHAUSTED'', Severity_error)]
      else if sn_state s = Wd_stalled then [(''WATCHDOG_STALLED'', Severity_error)]
      else if sn_state s = Wd_suspect then [(''WATCHDOG_SUSPECT'', Severity_warning)]
      else if sn_state s = Wd_recovered then [(''WATCHDOG_RECOVERED'', Severity_info)]
      else [])"

definition evaluateWatchdog ::
  "wd_profile \<Rightarrow> observation \<Rightarrow> wd_budget \<Rightarrow> snapshot option \<Rightarrow> evaluation result" where
  "evaluateWatchdog profile ob budget previous =
     and_then (parse_with valid_wd_profile profile) (\<lambda>_.
     and_then (parse_with valid_observation ob) (\<lambda>_.
     and_then (parse_with milliseconds budget) (\<lambda>_.
     and_then (parse_with (opt_all valid_snapshot) previous) (\<lambda>_.
     if (case previous of
           None \<Rightarrow> False
         | Some s \<Rightarrow> sn_phase s = ob_phase ob \<and> ob_monotonicMs ob \<le> sn_monotonicMs s)
     then Inl (PlainError ''Watchdog probes must advance monotonically'')
     else
       and_then (resolveWatchdogPhaseProfile profile (ob_phase ob)) (\<lambda>effective.
       let an = analyzeSignals ob effective in
       and_then (buildSnapshot effective ob an previous) (\<lambda>s.
       and_then (recoveryDecision effective s budget previous) (\<lambda>(d, nextBudget).
       parse_with valid_evaluation
         \<lparr>we_previousSnapshot = previous, we_effectiveProfile = effective, we_snapshot = s,
          we_decision = d, we_nextBudget = nextBudget,
          we_diagnostics = evaluationDiagnostics s d previous\<rparr>)))))))"

section \<open>Facts on one analysis\<close>

lemma signal_simps [simp]:
  "sa_signal (signal n v r a) = n" "sa_verdict (signal n v r a) = v"
  "sa_reason (signal n v r a) = r" "sa_ageMs (signal n v r a) = a"
  by (simp_all add: signal_def)

lemma signal_names_simps [simp]:
  "sa_signal (control_signal p s) = Sig_control_heartbeat"
  "sa_signal (progress_signal p s) = Sig_progress"
  "sa_signal (process_signal t) = Sig_process"
  "sa_signal (activity_signal t) = Sig_process_activity"
  "sa_signal (stream_signal t) = Sig_provider_stream"
  "sa_signal (deadline_signal a b c) = Sig_deadline"
  "sa_signal (child_signal p ph s) = Sig_child_heartbeat"
  "sa_signal (settlement_signal st) = Sig_settlement"
  "map sa_signal (provider_signals ob) = [Sig_provider, Sig_provider_stream]"
  by (simp_all add: control_signal_def progress_signal_def process_signal_def activity_signal_def
      stream_signal_def deadline_signal_def child_signal_def settlement_signal_def
      provider_signals_def split: tri_state.splits settlement.splits)

lemma negative_verdicts [simp]:
  "sa_verdict (control_signal p s) = Negative \<longleftrightarrow> wp_heartbeatGraceMs p < s"
  "sa_verdict (process_signal t) = Negative \<longleftrightarrow> t = No"
  "sa_verdict (activity_signal t) \<noteq> Negative" "sa_verdict (stream_signal t) \<noteq> Negative"
  "sa_verdict (deadline_signal a b c) = Negative \<longleftrightarrow> a \<or> b"
  "sa_verdict (child_signal p ph s) = Negative \<longleftrightarrow> ph = Wp_child \<and> wp_heartbeatGraceMs p < s"
  "sa_verdict (settlement_signal st) \<noteq> Negative"
  by (simp_all add: control_signal_def process_signal_def activity_signal_def stream_signal_def
      deadline_signal_def child_signal_def settlement_signal_def split: tri_state.splits settlement.splits)

lemma progress_negative:
  "valid_phase_profile p \<Longrightarrow>
   sa_verdict (progress_signal p s) = Negative \<longleftrightarrow> wp_suspectAfterMs p \<le> s"
  by (auto simp: progress_signal_def valid_phase_profile_def timing_ok_def)

lemma analysis_signal_names: "map sa_signal (an_signals (analyzeSignals ob q)) = signal_names"
  by (simp add: analyzeSignals_def Let_def signal_names_def)

lemma analysis_simps [simp]:
  "an_progressSilenceMs (analyzeSignals ob q) =
     age (ob_monotonicMs ob) (ob_lastProgressMonotonicMs ob) (ob_phaseStartedMonotonicMs ob)"
  "an_controlSilenceMs (analyzeSignals ob q) =
     age (ob_monotonicMs ob) (ob_lastControlHeartbeatMonotonicMs ob) (ob_phaseStartedMonotonicMs ob)"
  "an_phaseDeadlineExceeded (analyzeSignals ob q) =
     reached (ob_monotonicMs ob) (ob_phaseDeadlineMonotonicMs ob)"
  "an_hardTimeoutExceeded (analyzeSignals ob q) = reached (ob_monotonicMs ob) (hard_deadline ob q)"
  by (simp_all add: analyzeSignals_def Let_def)

lemma analysis_quorum:
  "an_negativeQuorum (analyzeSignals ob q) =
     (2 \<le> length (negative_families (ob_phase ob) (an_signals (analyzeSignals ob q))))"
  by (simp add: analyzeSignals_def Let_def)

lemma analysis_reasons_distinct: "distinct (an_reasons (analyzeSignals ob q))"
  by (simp add: analyzeSignals_def Let_def)

lemma age_milliseconds:
  "milliseconds now \<Longrightarrow> milliseconds f \<Longrightarrow> opt_all (\<lambda>m. milliseconds m \<and> m \<le> now) marker \<Longrightarrow>
   milliseconds (age now marker f)"
  by (auto simp: milliseconds_def safe_int_def age_def split: option.splits)

lemma analysis_ages:
  assumes "valid_observation ob"
  shows "list_all (\<lambda>a. opt_all milliseconds (sa_ageMs a)) (an_signals (analyzeSignals ob q))"
    "milliseconds (an_progressSilenceMs (analyzeSignals ob q))"
    "milliseconds (an_controlSilenceMs (analyzeSignals ob q))"
  using assms
  by (simp_all add: valid_observation_def age_milliseconds analyzeSignals_def Let_def
      control_signal_def progress_signal_def process_signal_def activity_signal_def
      stream_signal_def deadline_signal_def child_signal_def settlement_signal_def
      provider_signals_def split: tri_state.splits settlement.splits)

text \<open>
  A child phase in which both probes of the control plane are silent and nothing else is wrong.
\<close>

definition child_ipc_outage :: "phase_profile \<Rightarrow> observation \<Rightarrow> bool" where
  "child_ipc_outage q ob \<longleftrightarrow>
     ob_phase ob = Wp_child \<and>
     wp_heartbeatGraceMs q <
       age (ob_monotonicMs ob) (ob_lastControlHeartbeatMonotonicMs ob) (ob_phaseStartedMonotonicMs ob) \<and>
     wp_heartbeatGraceMs q <
       age (ob_monotonicMs ob) (ob_lastChildHeartbeatMonotonicMs ob) (ob_phaseStartedMonotonicMs ob) \<and>
     age (ob_monotonicMs ob) (ob_lastProgressMonotonicMs ob) (ob_phaseStartedMonotonicMs ob)
       < wp_suspectAfterMs q \<and>
     ob_processAlive ob \<noteq> No \<and> \<not> reached (ob_monotonicMs ob) (hard_deadline ob q) \<and>
     \<not> reached (ob_monotonicMs ob) (ob_phaseDeadlineMonotonicMs ob)"

lemma negatives_simps [simp]:
  "negatives [] = []"
  "negatives (a # as) = (if sa_verdict a = Negative then a # negatives as else negatives as)"
  "negatives (as @ bs) = negatives as @ negatives bs"
  by (simp_all add: negatives_def)

lemma distinct_names_negatives:
  "distinct (map sa_signal as) \<Longrightarrow> distinct (map sa_signal (negatives as))"
  by (simp add: negatives_def distinct_map_filter)

lemma js_unique_from_distinct:
  "distinct xs \<Longrightarrow> set xs \<inter> set seen = {} \<Longrightarrow> js_unique_from seen xs = xs"
  by (induction seen xs rule: js_unique_from.induct) auto

lemma js_unique_id: "distinct xs \<Longrightarrow> js_unique xs = xs"
  by (simp add: js_unique_def js_unique_from_distinct)

lemma families_outside_child:
  assumes "ph \<noteq> Wp_child" and "distinct (map sa_signal as)"
  shows "length (negative_families ph as) = length (negatives as)"
proof -
  have "map (\<lambda>a. signal_family ph (sa_signal a)) (negatives as)
      = map Single (map sa_signal (negatives as))"
    using assms(1) by (simp add: signal_family_def)
  moreover have "distinct (map Single (map sa_signal (negatives as)))"
    using distinct_names_negatives [OF assms(2)] by (subst distinct_map) (simp add: inj_on_def)
  ultimately show ?thesis
    unfolding negative_families_def by (metis js_unique_id length_map)
qed

lemma quorum_is_count_iff:
  assumes "valid_phase_profile q"
  shows "an_negativeQuorum (analyzeSignals ob q) = (2 \<le> length (negatives (an_signals (analyzeSignals ob q))))
    \<longleftrightarrow> \<not> child_ipc_outage q ob"
proof (cases "ob_phase ob = Wp_child")
  case False
  have "distinct (map sa_signal (an_signals (analyzeSignals ob q)))"
    unfolding analysis_signal_names by (simp add: signal_names_def)
  then show ?thesis
    using False by (simp add: analysis_quorum families_outside_child child_ipc_outage_def)
next
  case True
  then have p: "provider_signals ob =
      [signal Sig_provider Not_applicable R_provider_unknown None,
       signal Sig_provider_stream Not_applicable R_provider_stream_quiet None]"
    by (simp add: provider_signals_def provider_phase_def)
  show ?thesis
    unfolding child_ipc_outage_def analysis_quorum
    using True assms
    by (simp add: p analyzeSignals_def Let_def negative_families_def progress_negative
        signal_family_def js_unique_def)
qed

section \<open>Facts on the classification\<close>

text \<open>
  What a run guarantees of the previous snapshot: it is valid, and a stalled state of the phase
  has its confirmations.
\<close>

definition previous_ok :: "phase_profile \<Rightarrow> observation \<Rightarrow> snapshot option \<Rightarrow> bool" where
  "previous_ok q ob previous \<longleftrightarrow>
     (case previous of
        None \<Rightarrow> True
      | Some s \<Rightarrow> valid_snapshot s \<and>
          (sn_phase s = ob_phase ob \<longrightarrow> sn_state s = Wd_stalled \<longrightarrow>
             wp_confirmations q \<le> sn_negativeConfirmations s))"

definition classified_ok :: "phase_profile \<Rightarrow> int \<Rightarrow> wd_state \<Rightarrow> int \<Rightarrow> bool" where
  "classified_ok q k st n \<longleftrightarrow>
     0 \<le> n \<and> n \<le> k + 1 \<and> (actionable st \<longleftrightarrow> n \<noteq> 0) \<and> (st = Wd_stalled \<longrightarrow> wp_confirmations q \<le> n)"

lemma actionable_simps [simp]:
  "actionable Wd_suspect" "actionable Wd_stalled" "\<not> actionable Wd_healthy"
  "\<not> actionable Wd_quiet" "\<not> actionable Wd_slow" "\<not> actionable Wd_recovered"
  by (simp_all add: actionable_def)

lemma confirmed_ok:
  assumes "0 \<le> j" and "j \<le> k" and "confirmed q (j + 1) = (st, n, rs)"
  shows "classified_ok q k st n \<and> st \<noteq> Wd_recovered \<and> (st = Wd_suspect \<longrightarrow> n < wp_confirmations q)
    \<and> n = j + 1"
  using assms by (auto simp: confirmed_def classified_ok_def split: if_splits)

lemma previous_confirmations_nonneg:
  "previous_ok q ob previous \<Longrightarrow> 0 \<le> previous_confirmations previous ob"
  by (auto simp: previous_ok_def previous_confirmations_def valid_snapshot_def milliseconds_def
      split: option.splits)

lemma observed_ok:
  assumes "previous_ok q ob previous"
    and "observed_state q ob an previous = (st, n, rs)"
  shows "classified_ok q (previous_confirmations previous ob) st n \<and> st \<noteq> Wd_recovered \<and>
    (st = Wd_suspect \<longrightarrow> \<not> (same_phase previous ob \<and> previous_state previous = Some Wd_stalled))"
proof -
  let ?k = "previous_confirmations previous ob"
  note k = previous_confirmations_nonneg [OF assms(1)]
  show ?thesis
  proof (cases "wp_enabled q \<and> ob_settlement ob \<noteq> Settlement_settled \<and>
      (an_hardTimeoutExceeded an \<or> an_negativeQuorum an \<and> suspicion_window q ob an)")
    case False
    then show ?thesis
      using assms(2) k
      by (auto simp: observed_state_def classified_ok_def split: if_splits)
  next
    case True
    show ?thesis
    proof (cases "an_hardTimeoutExceeded an")
      case hard: True
      show ?thesis
      proof (cases "same_phase previous ob \<and> previous_state previous = Some Wd_stalled")
        case stalled: True
        then have "wp_confirmations q \<le> ?k" "?k \<noteq> 0"
          using assms(1)
          by (auto simp: same_phase_def previous_state_def previous_ok_def previous_confirmations_def
              valid_snapshot_def split: option.splits)
        then show ?thesis
          using assms(2) True hard stalled k by (auto simp: observed_state_def classified_ok_def)
      next
        case nstalled: False
        define j where "j = (if same_phase previous ob \<and>
          (case previous of None \<Rightarrow> False | Some s \<Rightarrow> sn_hardTimeoutExceeded s) then ?k else 0)"
        have "confirmed q (j + 1) = (st, n, rs)"
          using assms(2) True hard nstalled by (simp add: observed_state_def j_def)
        moreover have "0 \<le> j" "j \<le> ?k"
          using k by (simp_all add: j_def)
        ultimately show ?thesis
          using confirmed_ok [of j ?k q st n rs] nstalled by blast
      qed
    next
      case soft: False
      then have c: "confirmed q (?k + 1) = (st, n, rs)"
        using assms(2) True by (simp add: observed_state_def)
      have "same_phase previous ob \<and> previous_state previous = Some Wd_stalled \<longrightarrow> wp_confirmations q \<le> ?k"
        using assms(1)
        by (auto simp: same_phase_def previous_state_def previous_ok_def previous_confirmations_def
            split: option.splits)
      then show ?thesis
        using confirmed_ok [OF k order_refl c] by auto
    qed
  qed
qed

lemma settle_ok:
  assumes "previous_ok q ob previous"
    and "settle_state q ob an previous (observed_state q ob an previous) = (st, n, rs)"
  shows "classified_ok q (previous_confirmations previous ob) st n \<and>
    (case previous of None \<Rightarrow> True
     | Some s \<Rightarrow> sn_phase s = ob_phase ob \<longrightarrow> canTransitionWatchdogState (sn_state s) st)"
proof -
  obtain st0 n0 rs0 where obs: "observed_state q ob an previous = (st0, n0, rs0)"
    by (cases "observed_state q ob an previous")
  note o = observed_ok [OF assms(1) obs]
  show ?thesis
  proof (cases previous)
    case None
    then show ?thesis
      using o assms(2) obs by (simp add: settle_state_def)
  next
    case (Some s)
    have kept: "sn_phase s = ob_phase ob \<Longrightarrow> actionable (sn_state s) \<Longrightarrow>
        classified_ok q (previous_confirmations previous ob) (sn_state s) (sn_negativeConfirmations s)"
      using assms(1)
      by (auto simp: Some previous_ok_def previous_confirmations_def classified_ok_def
          valid_snapshot_def milliseconds_def)
    have settled: "settle_state q ob an (Some s) (st0, n0, rs0) = (st, n, rs)"
      using assms(2) unfolding obs by (simp add: Some)
    show ?thesis
      using o kept settled previous_confirmations_nonneg [OF assms(1)]
      by (cases "sn_state s"; cases st0)
         (auto simp: settle_state_def Some classified_ok_def canTransitionWatchdogState_def
           same_phase_def previous_state_def split: if_splits)
  qed
qed

lemma classify_ok:
  assumes "previous_ok q ob previous"
  shows "\<exists>st n rs. classifyState q ob an previous = Inr (st, n, rs) \<and>
    classified_ok q (previous_confirmations previous ob) st n \<and> distinct rs"
proof -
  obtain st n rs where s: "settle_state q ob an previous (observed_state q ob an previous) = (st, n, rs)"
    by (cases "settle_state q ob an previous (observed_state q ob an previous)")
  show ?thesis
    using settle_ok [OF assms s]
    by (auto simp: classifyState_def s split: option.splits)
qed

lemma snapshot_ok:
  assumes "valid_phase_profile q" and "valid_observation ob" and "previous_ok q ob previous"
    and "\<not> child_ipc_outage q ob" and k: "previous_confirmations previous ob < 9007199254740991"
  shows "\<exists>s. buildSnapshot q ob (analyzeSignals ob q) previous = Inr s \<and> valid_snapshot s \<and>
    sn_phase s = ob_phase ob \<and>
    classified_ok q (previous_confirmations previous ob) (sn_state s) (sn_negativeConfirmations s)"
proof -
  let ?an = "analyzeSignals ob q"
  obtain st n rs where c: "classifyState q ob ?an previous = Inr (st, n, rs)"
    and ok: "classified_ok q (previous_confirmations previous ob) st n" and d: "distinct rs"
    using classify_ok [OF assms(3)] by blast
  have names: "length (an_signals ?an) = length signal_names" "distinct (map sa_signal (an_signals ?an))"
    using arg_cong [OF analysis_signal_names [of ob q], of length]
    by (simp only: length_map) (simp add: analysis_signal_names signal_names_def)
  have n: "milliseconds n"
    using ok k by (simp add: milliseconds_def safe_int_def classified_ok_def)
  have el: "milliseconds (ob_monotonicMs ob - ob_phaseStartedMonotonicMs ob)"
    using assms(2) by (simp add: milliseconds_def safe_int_def valid_observation_def)
  have ob: "nonempty (ob_probeId ob)" "milliseconds (ob_monotonicMs ob)"
    using assms(2) by (simp_all add: valid_observation_def)
  have q: "an_negativeQuorum ?an = (2 \<le> length (negatives (an_signals ?an)))"
    using quorum_is_count_iff [OF assms(1)] assms(4) by blast
  show ?thesis
    using ok d n el ob names q analysis_ages [OF assms(2), of q]
    by (auto simp: buildSnapshot_def c parse_with_def valid_snapshot_def classified_ok_def)
qed

lemma snapshot_outage:
  assumes "valid_phase_profile q" and "previous_ok q ob previous" and "child_ipc_outage q ob"
  shows "buildSnapshot q ob (analyzeSignals ob q) previous = Inl ZodError"
proof -
  let ?an = "analyzeSignals ob q"
  obtain st n rs where c: "classifyState q ob ?an previous = Inr (st, n, rs)"
    using classify_ok [OF assms(2)] by blast
  have q: "an_negativeQuorum ?an \<noteq> (2 \<le> length (negatives (an_signals ?an)))"
    using quorum_is_count_iff [OF assms(1)] assms(3) by blast
  then show ?thesis
    by (simp add: buildSnapshot_def c parse_with_def valid_snapshot_def)
qed

lemma snapshot_classified:
  assumes "buildSnapshot q ob (analyzeSignals ob q) previous = Inr s" and "previous_ok q ob previous"
  shows "valid_snapshot s \<and> sn_phase s = ob_phase ob \<and>
    classified_ok q (previous_confirmations previous ob) (sn_state s) (sn_negativeConfirmations s)"
  using assms(1) classify_ok [OF assms(2), of "analyzeSignals ob q"]
  by (auto simp: buildSnapshot_def result_simps)

section \<open>Facts on decisions\<close>

lemma decision_Inr:
  assumes "valid_phase_profile q" and "milliseconds b"
  defines "view \<equiv> \<lparr>bv_used = b, bv_maximum = wp_maxRestarts q, bv_remaining = max 0 (wp_maxRestarts q - b),
      bv_exhausted = (wp_maxRestarts q \<le> b)\<rparr>"
  shows "\<exists>d rs. recoveryDecision q s b previous = Inr (d, b + wr_watchdogRestartDelta d) \<and>
    chosen_action q s (\<not> same_state previous s) view = (wr_action d, wr_cause d, wr_watchdogRestartDelta d, rs) \<and>
    valid_recovery_decision d \<and> milliseconds (b + wr_watchdogRestartDelta d) \<and>
    wr_phase d = sn_phase s \<and> wr_state d = sn_state s \<and>
    bv_maximum (wr_budgetAfter d) = wp_maxRestarts q \<and>
    bv_used (wr_budgetAfter d) = b + wr_watchdogRestartDelta d"
proof -
  obtain a c dl rs where ch: "chosen_action q s (\<not> same_state previous s) view = (a, c, dl, rs)"
    by (cases "chosen_action q s (\<not> same_state previous s) view")
  have dl: "dl = (if a = Do Act_restart_attempt then 1 else 0) \<and>
      (a = Do Act_restart_attempt \<longrightarrow> b < wp_maxRestarts q)"
    using ch by (auto simp: chosen_action_def view_def split: if_splits)
  have m: "milliseconds (wp_maxRestarts q)"
    using assms(1) by (simp add: valid_phase_profile_def profile_fields_ok_def)
  have nb: "milliseconds (b + dl)"
    using dl assms(2) m by (auto simp: milliseconds_def safe_int_def)
  have v1: "watchdogRestartBudgetView b (wp_maxRestarts q) = Inr view"
    using assms(2) m by (simp add: budget_view_Inr view_def)
  obtain v2 where v2: "watchdogRestartBudgetView (b + dl) (wp_maxRestarts q) = Inr v2"
    and v2f: "bv_used v2 = b + dl" "bv_maximum v2 = wp_maxRestarts q" "valid_budget_view v2"
    using nb m
    by (simp add: budget_view_Inr valid_budget_view_def milliseconds_def safe_int_def)
  have "valid_budget_view view"
    using assms(2) m by (auto simp: view_def valid_budget_view_def milliseconds_def safe_int_def)
  moreover have vf: "bv_used view = b" "bv_maximum view = wp_maxRestarts q"
    by (simp_all add: view_def)
  moreover define d where "d =
     \<lparr>wr_action = a, wr_configuredAction = wp_action q, wr_cause = c,
      wr_phase = sn_phase s, wr_state = sn_state s,
      wr_requiresDiagnosticSnapshot = (\<not> same_state previous s \<and> actionable (sn_state s)),
      wr_requestProtocolPing = (\<not> same_state previous s \<and> sn_state s = Wd_suspect),
      wr_gracefulCancelFirst = destructive a, wr_forceKillAfterGrace = destructive a,
      wr_watchdogRestartDelta = dl, wr_budgetBefore = view, wr_budgetAfter = v2,
      wr_reasons = js_unique (sn_reasons s @ rs)\<rparr>"
  ultimately have "valid_recovery_decision d"
    using dl v2f by (simp add: valid_recovery_decision_def)
  moreover from this have "recoveryDecision q s b previous = Inr (d, b + dl)"
    using nb by (simp add: recoveryDecision_def Let_def v1 ch v2 flip: d_def)
  ultimately show ?thesis
    using nb v2f by (intro exI [of _ d] exI [of _ rs]) (simp add: ch d_def)
qed

lemma evaluate_Inr:
  assumes "evaluateWatchdog p ob b previous = Inr e"
  defines "q \<equiv> phase_profile_of p (ob_phase ob)"
  shows "valid_wd_profile p" "valid_observation ob" "milliseconds b" "opt_all valid_snapshot previous"
    "valid_phase_profile q" "we_effectiveProfile e = q" "we_previousSnapshot e = previous"
    "buildSnapshot q ob (analyzeSignals ob q) previous = Inr (we_snapshot e)"
    "recoveryDecision q (we_snapshot e) b previous = Inr (we_decision e, we_nextBudget e)"
    "valid_evaluation e"
    "we_diagnostics e = evaluationDiagnostics (we_snapshot e) (we_decision e) previous"
proof -
  from assms(1) have v: "valid_wd_profile p" "valid_observation ob" "milliseconds b"
      "opt_all valid_snapshot previous"
    unfolding evaluateWatchdog_def and_then_Inr parse_with_Inr by blast+
  note r = resolve_valid [OF v(1), of "ob_phase ob"]
  from assms(1) v have "\<exists>s d nb.
      buildSnapshot q ob (analyzeSignals ob q) previous = Inr s \<and>
      recoveryDecision q s b previous = Inr (d, nb) \<and> valid_evaluation e \<and>
      e = \<lparr>we_previousSnapshot = previous, we_effectiveProfile = q, we_snapshot = s,
          we_decision = d, we_nextBudget = nb,
          we_diagnostics = evaluationDiagnostics s d previous\<rparr>"
    by (auto simp: evaluateWatchdog_def r q_def Let_def result_simps split: if_splits)
  then show "we_effectiveProfile e = q" "we_previousSnapshot e = previous"
    "buildSnapshot q ob (analyzeSignals ob q) previous = Inr (we_snapshot e)"
    "recoveryDecision q (we_snapshot e) b previous = Inr (we_decision e, we_nextBudget e)"
    "valid_evaluation e"
    "we_diagnostics e = evaluationDiagnostics (we_snapshot e) (we_decision e) previous"
    by auto
  show "valid_wd_profile p" "valid_observation ob" "milliseconds b" "opt_all valid_snapshot previous"
    by (fact v)+
  show "valid_phase_profile q"
    using v(1) by (simp add: q_def valid_phase_profile_of)
qed

text \<open>The decision of an evaluation, by the table of actions.\<close>

lemma evaluate_decision:
  assumes "evaluateWatchdog p ob b previous = Inr e"
  defines "q \<equiv> phase_profile_of p (ob_phase ob)"
  shows "\<exists>rs. chosen_action q (we_snapshot e) (\<not> same_state previous (we_snapshot e))
      \<lparr>bv_used = b, bv_maximum = wp_maxRestarts q, bv_remaining = max 0 (wp_maxRestarts q - b),
       bv_exhausted = (wp_maxRestarts q \<le> b)\<rparr>
      = (wr_action (we_decision e), wr_cause (we_decision e), wr_watchdogRestartDelta (we_decision e), rs)"
    "we_nextBudget e = b + wr_watchdogRestartDelta (we_decision e)"
  using evaluate_Inr(9) [OF assms(1)] decision_Inr [OF evaluate_Inr(5) [OF assms(1)] evaluate_Inr(3) [OF assms(1)],
      of "we_snapshot e" previous]
  by (auto simp: q_def)

lemma same_state_snapshot:
  "buildSnapshot q ob an previous = Inr s \<Longrightarrow> sn_phase s = ob_phase ob \<and> sn_hardTimeoutExceeded s = an_hardTimeoutExceeded an
    \<and> sn_negativeQuorum s = an_negativeQuorum an"
  by (auto simp: buildSnapshot_def result_simps)

section \<open>Runs of probes\<close>

text \<open>A sequence of evaluations of one profile, newest first, each fed by the one before.\<close>

inductive watchdog_run :: "wd_profile \<Rightarrow> wd_budget \<Rightarrow> evaluation list \<Rightarrow> bool" where
  first_probe: "evaluateWatchdog p ob b None = Inr e \<Longrightarrow> watchdog_run p b [e]"
| next_probe: "watchdog_run p b (e # es) \<Longrightarrow>
    evaluateWatchdog p ob (we_nextBudget e) (Some (we_snapshot e)) = Inr e' \<Longrightarrow>
    watchdog_run p b (e' # e # es)"

text \<open>The newest evaluations of a phase that are suspect or stalled without interruption.\<close>

definition streak :: "evaluation list \<Rightarrow> wd_phase \<Rightarrow> evaluation list" where
  "streak es ph = takeWhile (\<lambda>e. sn_phase (we_snapshot e) = ph \<and> actionable (sn_state (we_snapshot e))) es"

definition snapshot_counts :: "wd_profile \<Rightarrow> evaluation list \<Rightarrow> bool" where
  "snapshot_counts p es \<longleftrightarrow>
     (let s = we_snapshot (hd es) in
      valid_snapshot s \<and> sn_negativeConfirmations s \<le> int (length (streak es (sn_phase s))) \<and>
      (sn_state s = Wd_stalled \<longrightarrow> wp_confirmations (phase_profile_of p (sn_phase s)) \<le> sn_negativeConfirmations s))"

lemma counts_step:
  assumes "evaluateWatchdog p ob b previous = Inr e" and "previous_ok (phase_profile_of p (ob_phase ob)) ob previous"
    and "previous_confirmations previous ob \<le> int (length (streak es (ob_phase ob)))"
  shows "snapshot_counts p (e # es)"
proof -
  let ?q = "phase_profile_of p (ob_phase ob)" and ?s = "we_snapshot e"
  have s: "valid_snapshot ?s" "sn_phase ?s = ob_phase ob"
    and c: "classified_ok ?q (previous_confirmations previous ob) (sn_state ?s) (sn_negativeConfirmations ?s)"
    using snapshot_classified [OF evaluate_Inr(8) [OF assms(1)] assms(2)] by auto
  have "sn_negativeConfirmations ?s \<le> int (length (streak (e # es) (ob_phase ob)))"
    using c assms(3) s(2) by (auto simp: classified_ok_def streak_def)
  then show ?thesis
    using s c by (simp add: snapshot_counts_def classified_ok_def)
qed

lemma run_counts: "watchdog_run p b es \<Longrightarrow> es \<noteq> [] \<and> snapshot_counts p es"
proof (induction rule: watchdog_run.induct)
  case (first_probe p ob b e)
  then show ?case
    using counts_step [OF first_probe, of "[]"] by (simp add: previous_ok_def previous_confirmations_def)
next
  case (next_probe p b e es ob e')
  let ?s = "we_snapshot e"
  have ih: "valid_snapshot ?s" "sn_negativeConfirmations ?s \<le> int (length (streak (e # es) (sn_phase ?s)))"
    "sn_state ?s = Wd_stalled \<longrightarrow> wp_confirmations (phase_profile_of p (sn_phase ?s)) \<le> sn_negativeConfirmations ?s"
    using next_probe.IH by (simp_all add: snapshot_counts_def Let_def)
  have "snapshot_counts p (e' # e # es)"
  proof (rule counts_step [OF next_probe.hyps(2)])
    show "previous_ok (phase_profile_of p (ob_phase ob)) ob (Some ?s)"
      using ih(1,3) by (auto simp: previous_ok_def)
    show "previous_confirmations (Some ?s) ob \<le> int (length (streak (e # es) (ob_phase ob)))"
      using ih(2) by (auto simp: previous_confirmations_def)
  qed
  then show ?case by simp
qed

definition restarts :: "evaluation list \<Rightarrow> int" where
  "restarts es = int (length (filter (\<lambda>e. wr_action (we_decision e) = Do Act_restart_attempt) es))"

lemma delta_step:
  assumes "evaluateWatchdog p ob b previous = Inr e"
  shows "wr_watchdogRestartDelta (we_decision e)
      = (if wr_action (we_decision e) = Do Act_restart_attempt then 1 else 0)"
    "wr_action (we_decision e) = Do Act_restart_attempt \<Longrightarrow> b < wp_maxRestarts (we_effectiveProfile e)"
  using evaluate_decision(1) [OF assms] evaluate_Inr(6) [OF assms]
  by (auto simp: chosen_action_def split: if_splits)

definition restart_bound :: "wd_profile \<Rightarrow> int" where
  "restart_bound p = Max ((\<lambda>ph. wp_maxRestarts (phase_profile_of p ph)) ` set watchdog_phases)"

lemma restart_bound_upper: "wp_maxRestarts (phase_profile_of p ph) \<le> restart_bound p"
  by (simp add: restart_bound_def)

lemma run_budget:
  "watchdog_run p b es \<Longrightarrow>
   es \<noteq> [] \<and> we_nextBudget (hd es) = b + restarts es \<and> we_nextBudget (hd es) \<le> max b (restart_bound p)"
proof (induction rule: watchdog_run.induct)
  case (first_probe p ob b e)
  then show ?case
    using evaluate_decision(2) [OF first_probe] delta_step [OF first_probe] evaluate_Inr(6) [OF first_probe]
      restart_bound_upper [of p "ob_phase ob"]
    by (auto simp: restarts_def)
next
  case (next_probe p b e es ob e')
  note ev = next_probe.hyps(2)
  show ?case
    using next_probe.IH evaluate_decision(2) [OF ev] delta_step [OF ev] evaluate_Inr(6) [OF ev]
      restart_bound_upper [of p "ob_phase ob"]
    by (auto simp: restarts_def)
qed

lemma fresh_signals_quiet:
  assumes "valid_phase_profile q"
    and "age (ob_monotonicMs ob) (ob_lastControlHeartbeatMonotonicMs ob) (ob_phaseStartedMonotonicMs ob)
           \<le> wp_heartbeatGraceMs q"
    and "age (ob_monotonicMs ob) (ob_lastProgressMonotonicMs ob) (ob_phaseStartedMonotonicMs ob)
           < wp_slowAfterMs q"
    and "\<not> reached (ob_monotonicMs ob) (hard_deadline ob q)"
    and "\<not> reached (ob_monotonicMs ob) (ob_phaseDeadlineMonotonicMs ob)"
    and "ob_processAlive ob \<noteq> No"
  shows "fst (observed_state q ob (analyzeSignals ob q) previous) \<in> {Wd_healthy, Wd_quiet}"
    and "2 \<le> an_positiveSignals (analyzeSignals ob q)"
proof -
  have t: "wp_slowAfterMs q \<le> wp_suspectAfterMs q"
    using assms(1) by (simp add: valid_phase_profile_def timing_ok_def)
  show "fst (observed_state q ob (analyzeSignals ob q) previous) \<in> {Wd_healthy, Wd_quiet}"
    using assms t by (simp add: observed_state_def suspicion_window_def)
  show "2 \<le> an_positiveSignals (analyzeSignals ob q)"
    using assms(2,3) by (simp add: analyzeSignals_def Let_def control_signal_def progress_signal_def)
qed

text \<open>A stall the previous snapshot of the phase did not have was observed by this probe.\<close>

lemma new_stall_observed:
  assumes "settle_state q ob an previous (observed_state q ob an previous) = (Wd_stalled, n, rs)"
    and "\<not> same_state previous s" and "sn_phase s = ob_phase ob" and "sn_state s = Wd_stalled"
  shows "an_hardTimeoutExceeded an \<or> an_negativeQuorum an"
proof (rule ccontr)
  assume no: "\<not> (an_hardTimeoutExceeded an \<or> an_negativeQuorum an)"
  obtain st0 n0 rs0 where obs: "observed_state q ob an previous = (st0, n0, rs0)"
    by (cases "observed_state q ob an previous")
  have "st0 \<noteq> Wd_stalled"
    using obs no by (auto simp: observed_state_def split: if_splits)
  then show False
    using assms by (auto simp: obs settle_state_def same_state_def split: option.splits if_splits)
qed

section \<open>Properties\<close>

definition sample_profile :: wd_profile where
  "sample_profile =
     \<lparr>wd_base =
        \<lparr>wp_enabled = True, wp_heartbeatIntervalMs = 5, wp_heartbeatGraceMs = 10,
         wp_quietAfterMs = 20, wp_slowAfterMs = 30, wp_suspectAfterMs = 40,
         wp_hardTimeoutMs = Some 1000, wp_probeIntervalMs = 5, wp_confirmations = 2,
         wp_action = Act_restart_attempt, wp_maxRestarts = 1\<rparr>,
      wd_phases = Map.empty\<rparr>"

definition sample_observation :: "wd_phase \<Rightarrow> int \<Rightarrow> int \<Rightarrow> observation" where
  "sample_observation ph now progress =
     \<lparr>ob_probeId = ''probe'', ob_phase = ph, ob_observedAt = now, ob_monotonicMs = now,
      ob_phaseStartedMonotonicMs = 0, ob_lastControlHeartbeatAt = None,
      ob_lastControlHeartbeatMonotonicMs = None, ob_lastProgressAt = None,
      ob_lastProgressMonotonicMs = Some progress, ob_lastProcessProbeMonotonicMs = None,
      ob_lastChildHeartbeatMonotonicMs = None, ob_processAlive = Unknown,
      ob_processActivity = Unknown, ob_providerPending = Unknown, ob_providerStreamOpen = Unknown,
      ob_providerRetryAfterMonotonicMs = None, ob_settlement = Settlement_running,
      ob_phaseDeadlineMonotonicMs = None, ob_hardDeadlineMonotonicMs = None\<rparr>"

text \<open>
  C23. The watchdog evaluates every probe but one kind: for a valid profile, observation and
  budget and a previous snapshot a run can have produced, \<open>evaluateWatchdog\<close> returns an
  evaluation, except in a child phase in which exactly the two probes of the control plane are
  negative, where it throws the exception of the snapshot's schema.
\<close>

theorem evaluation_fails_exactly_on_child_outage:
  assumes "valid_wd_profile p" and "valid_observation ob" and "milliseconds b"
    and "previous_ok (phase_profile_of p (ob_phase ob)) ob previous"
    and "previous_confirmations previous ob < 9007199254740991"
    and "\<And>s. previous = Some s \<Longrightarrow> sn_phase s = ob_phase ob \<Longrightarrow> sn_monotonicMs s < ob_monotonicMs ob"
  shows "if child_ipc_outage (phase_profile_of p (ob_phase ob)) ob
    then evaluateWatchdog p ob b previous = Inl ZodError
    else ok (evaluateWatchdog p ob b previous)"
proof -
  let ?q = "phase_profile_of p (ob_phase ob)"
  note q = valid_phase_profile_of [OF assms(1), of "ob_phase ob"]
  have pv: "opt_all valid_snapshot previous"
    using assms(4) by (auto simp: previous_ok_def split: option.splits)
  have mono: "\<not> (case previous of None \<Rightarrow> False
      | Some s \<Rightarrow> sn_phase s = ob_phase ob \<and> ob_monotonicMs ob \<le> sn_monotonicMs s)"
    using assms(6) by (fastforce split: option.splits)
  have ev: "evaluateWatchdog p ob b previous =
      and_then (buildSnapshot ?q ob (analyzeSignals ob ?q) previous) (\<lambda>s.
      and_then (recoveryDecision ?q s b previous) (\<lambda>(d, nextBudget).
      parse_with valid_evaluation
         \<lparr>we_previousSnapshot = previous, we_effectiveProfile = ?q, we_snapshot = s,
          we_decision = d, we_nextBudget = nextBudget,
          we_diagnostics = evaluationDiagnostics s d previous\<rparr>))"
    using assms(1-3) pv mono by (simp add: evaluateWatchdog_def resolve_valid Let_def)
  show ?thesis
  proof (cases "child_ipc_outage ?q ob")
    case True
    then show ?thesis
      using snapshot_outage [OF q assms(4)] by (simp add: ev)
  next
    case False
    obtain s where s: "buildSnapshot ?q ob (analyzeSignals ob ?q) previous = Inr s" "valid_snapshot s"
      using snapshot_ok [OF q assms(2,4) False assms(5)] by blast
    obtain d where d: "recoveryDecision ?q s b previous = Inr (d, b + wr_watchdogRestartDelta d)"
      "valid_recovery_decision d" "milliseconds (b + wr_watchdogRestartDelta d)"
      "wr_phase d = sn_phase s" "wr_state d = sn_state s"
      "bv_maximum (wr_budgetAfter d) = wp_maxRestarts ?q"
      "bv_used (wr_budgetAfter d) = b + wr_watchdogRestartDelta d"
      using decision_Inr [OF q assms(3), of s previous] by blast
    show ?thesis
      using s d pv q False
      by (simp add: ev ok_iff result_simps valid_evaluation_def evaluationDiagnostics_def nonempty_def)
  qed
qed

theorem evaluation_fails_exactly_on_child_outage_witness:
  "evaluateWatchdog sample_profile (sample_observation Wp_child 15 10) 0 None = Inl ZodError \<and>
   ok (evaluateWatchdog sample_profile (sample_observation Wp_tool 15 10) 0 None)"
proof -
  have v: "valid_wd_profile sample_profile" "valid_observation (sample_observation Wp_child 15 10)"
    "valid_observation (sample_observation Wp_tool 15 10)" "milliseconds 0"
    by code_simp+
  have c: "child_ipc_outage (phase_profile_of sample_profile Wp_child) (sample_observation Wp_child 15 10)"
    "\<not> child_ipc_outage (phase_profile_of sample_profile Wp_tool) (sample_observation Wp_tool 15 10)"
    by code_simp+
  have ph: "ob_phase (sample_observation ph n k) = ph" for ph n k
    by (simp add: sample_observation_def)
  show ?thesis
    using evaluation_fails_exactly_on_child_outage [OF v(1,2,4), of None]
      evaluation_fails_exactly_on_child_outage [OF v(1,3,4), of None] c
    by (simp add: ph previous_ok_def previous_confirmations_def)
qed

text \<open>
  C16. No single probe condemns a phase: along a run of probes, an evaluation that finds the
  phase stalled stands at the head of an unbroken series of suspect or stalled evaluations of
  that phase, at least as many as the profile asks confirmations.
\<close>

theorem stalled_needs_confirmed_probes:
  assumes "watchdog_run p b es" and "sn_state (we_snapshot (hd es)) = Wd_stalled"
  shows "wp_confirmations (phase_profile_of p (sn_phase (we_snapshot (hd es))))
    \<le> int (length (streak es (sn_phase (we_snapshot (hd es)))))"
  using run_counts [OF assms(1)] assms(2) by (simp add: snapshot_counts_def Let_def)

theorem stalled_needs_confirmed_probes_witness:
  "\<exists>e1 e2. watchdog_run sample_profile 0 [e2, e1] \<and>
     sn_state (we_snapshot e2) = Wd_stalled \<and> 2 \<le> length (streak [e2, e1] Wp_tool)"
proof -
  let ?o1 = "sample_observation Wp_tool 50 0" and ?o2 = "sample_observation Wp_tool 55 0"
  have "case evaluateWatchdog sample_profile ?o1 0 None of Inl _ \<Rightarrow> False
      | Inr e1 \<Rightarrow> (case evaluateWatchdog sample_profile ?o2 (we_nextBudget e1) (Some (we_snapshot e1)) of
          Inl _ \<Rightarrow> False
        | Inr e2 \<Rightarrow> sn_state (we_snapshot e2) = Wd_stalled \<and> sn_phase (we_snapshot e2) = Wp_tool)"
    by code_simp
  then obtain e1 e2 where e: "evaluateWatchdog sample_profile ?o1 0 None = Inr e1"
    "evaluateWatchdog sample_profile ?o2 (we_nextBudget e1) (Some (we_snapshot e1)) = Inr e2"
    and s: "sn_state (we_snapshot e2) = Wd_stalled" "sn_phase (we_snapshot e2) = Wp_tool"
    by (auto split: sum.splits)
  have run: "watchdog_run sample_profile 0 [e2, e1]"
    using e by (auto intro: watchdog_run.intros)
  have "wp_confirmations (phase_profile_of sample_profile Wp_tool) = 2"
    by code_simp
  then have "2 \<le> length (streak [e2, e1] Wp_tool)"
    using stalled_needs_confirmed_probes [OF run] s by simp
  then show ?thesis
    using run s by blast
qed

text \<open>
  The restart budget is kept: along a run of probes the counter is the initial one plus the
  restarts decided, and never exceeds the larger of the initial counter and the largest
  \<^verbatim>\<open>maxRestarts\<close> of a phase.
\<close>

theorem restart_budget_is_kept:
  assumes "watchdog_run p b es"
  shows "we_nextBudget (hd es) = b + restarts es \<and> b + restarts es \<le> max b (restart_bound p)"
  using run_budget [OF assms] by simp

theorem restart_budget_is_kept_witness:
  "\<exists>e. watchdog_run sample_profile 0 [e] \<and> we_nextBudget e = restarts [e]"
proof -
  have "ok (evaluateWatchdog sample_profile (sample_observation Wp_tool 50 0) 0 None)"
    by code_simp
  then obtain e where "evaluateWatchdog sample_profile (sample_observation Wp_tool 50 0) 0 None = Inr e"
    by (auto simp: ok_iff)
  then have run: "watchdog_run sample_profile 0 [e]"
    by (rule watchdog_run.intros)
  then show ?thesis
    using restart_budget_is_kept [OF run] by auto
qed

text \<open>
  C4. A destructive action is taken only when the phase newly becomes stalled, by an enabled
  watchdog, on a hard timeout or a quorum of negative signals; it is the configured action, or
  the resumable stop that replaces a restart when the budget is exhausted; and a restart is
  only ever decided below the budget.
\<close>

theorem destructive_only_on_new_stall:
  assumes "evaluateWatchdog p ob b previous = Inr e"
    and "previous_ok (phase_profile_of p (ob_phase ob)) ob previous"
    and "destructive (wr_action (we_decision e))"
  shows "wp_enabled (we_effectiveProfile e) \<and> ob_settlement ob \<noteq> Settlement_settled \<and>
    sn_state (we_snapshot e) = Wd_stalled \<and> \<not> same_state previous (we_snapshot e) \<and>
    (sn_hardTimeoutExceeded (we_snapshot e) \<or> sn_negativeQuorum (we_snapshot e)) \<and>
    (wr_action (we_decision e) = Do (wp_action (we_effectiveProfile e)) \<or>
     wr_action (we_decision e) = Do Act_stop_run \<and>
     wp_action (we_effectiveProfile e) = Act_restart_attempt \<and>
     wp_maxRestarts (we_effectiveProfile e) \<le> b) \<and>
    (wr_action (we_decision e) = Do Act_restart_attempt \<longrightarrow> b < wp_maxRestarts (we_effectiveProfile e))"
proof -
  let ?q = "phase_profile_of p (ob_phase ob)" and ?s = "we_snapshot e"
  note s = evaluate_Inr(8) [OF assms(1)] and q = evaluate_Inr(6) [OF assms(1)]
  have act: "wp_enabled ?q" "sn_state ?s = Wd_stalled" "\<not> same_state previous ?s"
    "R_settlement_finished \<notin> set (sn_reasons ?s)"
    "wr_action (we_decision e) = Do (wp_action ?q) \<or>
     wr_action (we_decision e) = Do Act_stop_run \<and> wp_action ?q = Act_restart_attempt \<and> wp_maxRestarts ?q \<le> b"
    "wr_action (we_decision e) = Do Act_restart_attempt \<longrightarrow> b < wp_maxRestarts ?q"
    using evaluate_decision(1) [OF assms(1)] assms(3)
    by (auto simp: chosen_action_def destructive_def split: if_splits)
  have st: "\<exists>n rs. settle_state ?q ob (analyzeSignals ob ?q) previous
      (observed_state ?q ob (analyzeSignals ob ?q) previous) = (Wd_stalled, n, rs) \<and>
      set (an_reasons (analyzeSignals ob ?q)) \<subseteq> set (sn_reasons ?s)"
    using s act(2) by (auto simp: buildSnapshot_def classifyState_def result_simps split: prod.splits if_splits)
  have "ob_settlement ob \<noteq> Settlement_settled"
  proof
    assume "ob_settlement ob = Settlement_settled"
    then have "R_settlement_finished \<in> set (an_reasons (analyzeSignals ob ?q))"
      by (simp add: analyzeSignals_def Let_def settlement_signal_def)
    then show False
      using st act(4) by blast
  qed
  moreover have "an_hardTimeoutExceeded (analyzeSignals ob ?q) \<or> an_negativeQuorum (analyzeSignals ob ?q)"
    using new_stall_observed [OF _ act(3)] st same_state_snapshot [OF s] act(2) by blast
  ultimately show ?thesis
    using act same_state_snapshot [OF s] by (simp add: q)
qed

theorem destructive_only_on_new_stall_witness:
  "\<exists>e. evaluateWatchdog (sample_profile\<lparr>wd_phases := [Wp_tool \<mapsto>
       \<lparr>wo_enabled = None, wo_heartbeatIntervalMs = None, wo_heartbeatGraceMs = None,
        wo_quietAfterMs = None, wo_slowAfterMs = None, wo_suspectAfterMs = None,
        wo_hardTimeoutMs = None, wo_probeIntervalMs = None, wo_confirmations = Some 1,
        wo_action = None, wo_maxRestarts = None\<rparr>]\<rparr>)
     (sample_observation Wp_tool 50 0) 0 None = Inr e \<and>
   wr_action (we_decision e) = Do Act_restart_attempt \<and>
   (sn_hardTimeoutExceeded (we_snapshot e) \<or> sn_negativeQuorum (we_snapshot e))"
  (is "\<exists>e. ?ev = Inr e \<and> _ e \<and> _ e")
proof -
  have "case ?ev of Inl _ \<Rightarrow> False | Inr e \<Rightarrow> wr_action (we_decision e) = Do Act_restart_attempt"
    by code_simp
  then obtain e where e: "?ev = Inr e" and a: "wr_action (we_decision e) = Do Act_restart_attempt"
    by (auto split: sum.splits)
  show ?thesis
    using destructive_only_on_new_stall [OF e] a
    by (intro exI [of _ e] conjI e a) (simp_all add: previous_ok_def destructive_def)
qed

text \<open>
  A phase with signs of life is left alone: when control heartbeat and progress are fresh,
  no deadline is reached and the process is not known dead, the evaluation takes no action, and
  a suspect or stalled phase is found recovered.
\<close>

theorem fresh_signals_take_no_action:
  assumes "evaluateWatchdog p ob b previous = Inr e"
    and "age (ob_monotonicMs ob) (ob_lastControlHeartbeatMonotonicMs ob) (ob_phaseStartedMonotonicMs ob)
           \<le> wp_heartbeatGraceMs (phase_profile_of p (ob_phase ob))"
    and "age (ob_monotonicMs ob) (ob_lastProgressMonotonicMs ob) (ob_phaseStartedMonotonicMs ob)
           < wp_slowAfterMs (phase_profile_of p (ob_phase ob))"
    and "\<not> reached (ob_monotonicMs ob) (hard_deadline ob (phase_profile_of p (ob_phase ob)))"
    and "\<not> reached (ob_monotonicMs ob) (ob_phaseDeadlineMonotonicMs ob)"
    and "ob_processAlive ob \<noteq> No"
  shows "wr_action (we_decision e) = Do_none \<and> sn_negativeConfirmations (we_snapshot e) = 0 \<and>
    (case previous of None \<Rightarrow> True
     | Some s \<Rightarrow> sn_phase s = ob_phase ob \<and> actionable (sn_state s) \<longrightarrow> sn_state (we_snapshot e) = Wd_recovered)"
proof -
  let ?q = "phase_profile_of p (ob_phase ob)" and ?s = "we_snapshot e"
  let ?an = "analyzeSignals ob ?q"
  note s = evaluate_Inr(8) [OF assms(1)]
  note fresh = fresh_signals_quiet [OF evaluate_Inr(5) [OF assms(1)] assms(2-6)]
  obtain st0 n0 rs0 where obs: "observed_state ?q ob ?an previous = (st0, n0, rs0)"
    by (cases "observed_state ?q ob ?an previous")
  have st0: "st0 = Wd_healthy \<or> st0 = Wd_quiet"
    using fresh(1) [of previous] by (auto simp: obs)
  have rc: "recovery_confirmed ?q ob ?an"
    using fresh(2) by (simp add: recovery_confirmed_def)
  have set: "\<exists>n rs. settle_state ?q ob ?an previous (st0, n0, rs0) = (sn_state ?s, n, rs)"
    using s by (auto simp: buildSnapshot_def classifyState_def obs result_simps split: prod.splits if_splits)
  have st: "\<not> actionable (sn_state ?s) \<and>
    (case previous of None \<Rightarrow> True
     | Some s' \<Rightarrow> sn_phase s' = ob_phase ob \<and> actionable (sn_state s') \<longrightarrow> sn_state ?s = Wd_recovered)"
    using set st0 rc by (auto simp: settle_state_def split: option.splits if_splits)
  moreover have "valid_snapshot ?s"
    using s by (auto simp: buildSnapshot_def result_simps)
  ultimately show ?thesis
    using evaluate_decision(1) [OF assms(1)]
    by (auto simp: chosen_action_def valid_snapshot_def actionable_def split: if_splits)
qed

theorem fresh_signals_take_no_action_witness:
  "\<exists>e. evaluateWatchdog sample_profile (sample_observation Wp_model_call 10 5) 0 None = Inr e \<and>
     wr_action (we_decision e) = Do_none"
proof -
  let ?ob = "sample_observation Wp_model_call 10 5"
  have "ok (evaluateWatchdog sample_profile ?ob 0 None)"
    by code_simp
  then obtain e where e: "evaluateWatchdog sample_profile ?ob 0 None = Inr e"
    by (auto simp: ok_iff)
  have "age (ob_monotonicMs ?ob) (ob_lastControlHeartbeatMonotonicMs ?ob) (ob_phaseStartedMonotonicMs ?ob)
           \<le> wp_heartbeatGraceMs (phase_profile_of sample_profile (ob_phase ?ob))"
    "age (ob_monotonicMs ?ob) (ob_lastProgressMonotonicMs ?ob) (ob_phaseStartedMonotonicMs ?ob)
           < wp_slowAfterMs (phase_profile_of sample_profile (ob_phase ?ob))"
    "\<not> reached (ob_monotonicMs ?ob) (hard_deadline ?ob (phase_profile_of sample_profile (ob_phase ?ob)))"
    "\<not> reached (ob_monotonicMs ?ob) (ob_phaseDeadlineMonotonicMs ?ob)"
    "ob_processAlive ?ob \<noteq> No"
    by code_simp+
  from fresh_signals_take_no_action [OF e this] e show ?thesis
    by blast
qed

end
