(* ===== verification/Table.thy ===== *)
theory Table
  imports Prelude
begin

text \<open>
  A table of the SQLite ledger (\<^verbatim>\<open>packages/persistence/src/ledger.ts\<close>): rows with a text
  primary key, \<^verbatim>\<open>CHECK\<close> constraints on each row, a \<^verbatim>\<open>BEFORE UPDATE\<close> guard
  comparing the old and the new row, and a condition on the whole table for its unique indexes.
  A statement that violates one of them throws and, being inside a transaction, changes nothing.
  What every table of the ledger keeps is proved once, in the locale \<open>ledger_table\<close>.
\<close>

definition find_row :: "('r \<Rightarrow> string) \<Rightarrow> 'r list \<Rightarrow> string \<Rightarrow> 'r option" where
  "find_row key rows k = find (\<lambda>r. key r = k) rows"

definition insert_row ::
  "('r \<Rightarrow> string) \<Rightarrow> ('r \<Rightarrow> bool) \<Rightarrow> ('r list \<Rightarrow> bool) \<Rightarrow> 'r list \<Rightarrow> 'r \<Rightarrow> 'r list result" where
  "insert_row key check index rows r =
     (if check r \<and> find_row key rows (key r) = None \<and> index (rows @ [r])
      then Inr (rows @ [r]) else Inl SqliteError)"

text \<open>An update of the rows that satisfy \<open>p\<close>, with the number of rows it changed.\<close>

definition update_rows ::
  "('r \<Rightarrow> bool) \<Rightarrow> ('r \<Rightarrow> 'r \<Rightarrow> bool) \<Rightarrow> ('r list \<Rightarrow> bool) \<Rightarrow> ('r \<Rightarrow> bool) \<Rightarrow> ('r \<Rightarrow> 'r) \<Rightarrow> 'r list \<Rightarrow>
   ('r list \<times> nat) result" where
  "update_rows check guard index p f rows =
     (let rows' = map (\<lambda>r. if p r then f r else r) rows in
      if list_all (\<lambda>r. p r \<longrightarrow> guard r (f r) \<and> check (f r)) rows \<and> index rows'
      then Inr (rows', length (filter p rows)) else Inl SqliteError)"

definition table_ok :: "('r \<Rightarrow> string) \<Rightarrow> ('r \<Rightarrow> bool) \<Rightarrow> ('r list \<Rightarrow> bool) \<Rightarrow> 'r list \<Rightarrow> bool" where
  "table_ok key check index rows \<longleftrightarrow>
     distinct (map key rows) \<and> list_all check rows \<and> index rows"

lemma find_row_Some: "find_row key rows k = Some r \<Longrightarrow> r \<in> set rows \<and> key r = k"
  by (auto simp: find_row_def dest: find_SomeD)

lemma find_row_None: "find_row key rows k = None \<longleftrightarrow> k \<notin> key ` set rows"
  by (auto simp: find_row_def find_None_conv)

lemma find_row_in: "distinct (map key rows) \<Longrightarrow> r \<in> set rows \<Longrightarrow> find_row key rows (key r) = Some r"
  by (induction rows) (auto simp: find_row_def image_iff)

lemma find_row_append:
  "find_row key (rows @ [r]) k =
     (case find_row key rows k of Some x \<Rightarrow> Some x | None \<Rightarrow> if key r = k then Some r else None)"
  by (induction rows) (auto simp: find_row_def)

lemma insert_row_Inr:
  "insert_row key check index rows r = Inr rows' \<longleftrightarrow>
     check r \<and> find_row key rows (key r) = None \<and> index rows' \<and> rows' = rows @ [r]"
  by (auto simp: insert_row_def)

lemma update_rows_Inr:
  "update_rows check guard index p f rows = Inr (rows', n) \<longleftrightarrow>
     rows' = map (\<lambda>r. if p r then f r else r) rows \<and> n = length (filter p rows) \<and>
     (\<forall>r \<in> set rows. p r \<longrightarrow> guard r (f r) \<and> check (f r)) \<and> index rows'"
  by (auto simp: update_rows_def Let_def list_all_iff)

lemma update_rows_Inl:
  "update_rows check guard index p f rows = Inl e \<Longrightarrow> e = SqliteError"
  by (auto simp: update_rows_def Let_def split: if_splits)

locale ledger_table =
  fixes key :: "'r \<Rightarrow> string"
    and check :: "'r \<Rightarrow> bool"
    and guard :: "'r \<Rightarrow> 'r \<Rightarrow> bool"
    and index :: "'r list \<Rightarrow> bool"
    and live :: "'r \<Rightarrow> bool"
  assumes guard_key: "guard r r' \<Longrightarrow> key r' = key r"
    and guard_live: "guard r r' \<Longrightarrow> live r"
begin

lemma insert_ok:
  "table_ok key check index rows \<Longrightarrow> insert_row key check index rows r = Inr rows' \<Longrightarrow>
   table_ok key check index rows'"
  by (auto simp: table_ok_def insert_row_Inr find_row_None)

lemma find_insert:
  "insert_row key check index rows r = Inr rows' \<Longrightarrow>
   find_row key rows' k = (if k = key r then Some r else find_row key rows k)"
  by (auto simp: insert_row_Inr find_row_append split: option.splits)

lemma update_keys:
  assumes "update_rows check guard index p f rows = Inr (rows', n)"
  shows "map key rows' = map key rows"
proof -
  have "\<And>r. r \<in> set rows \<Longrightarrow> p r \<Longrightarrow> key (f r) = key r"
    using assms guard_key by (auto simp: update_rows_Inr)
  then show ?thesis
    using assms by (auto simp: update_rows_Inr)
qed

lemma update_ok:
  assumes "table_ok key check index rows" and "update_rows check guard index p f rows = Inr (rows', n)"
  shows "table_ok key check index rows'"
proof -
  have "distinct (map key rows')"
    using assms(1) unfolding update_keys [OF assms(2)] by (simp add: table_ok_def)
  moreover have "list_all check rows'" "index rows'"
    using assms by (auto simp: table_ok_def update_rows_Inr list_all_iff)
  ultimately show ?thesis
    by (simp add: table_ok_def)
qed

lemma find_update:
  assumes "update_rows check guard index p f rows = Inr (rows', n)"
  shows "find_row key rows' k = map_option (\<lambda>r. if p r then f r else r) (find_row key rows k)"
proof -
  have k: "\<And>r. r \<in> set rows \<Longrightarrow> p r \<Longrightarrow> key (f r) = key r"
    using assms guard_key by (auto simp: update_rows_Inr)
  have "rows' = map (\<lambda>r. if p r then f r else r) rows"
    using assms by (simp add: update_rows_Inr)
  with k show ?thesis
    by (induction rows arbitrary: rows') (auto simp: find_row_def)
qed

text \<open>A row that is not live is never changed by an update.\<close>

lemma update_dead:
  assumes "update_rows check guard index p f rows = Inr (rows', n)"
    and "find_row key rows k = Some r" and "\<not> live r"
  shows "find_row key rows' k = Some r"
proof -
  have "\<not> p r"
    using assms guard_live find_row_Some [OF assms(2)] by (auto simp: update_rows_Inr)
  then show ?thesis
    using find_update [OF assms(1), of k] assms(2) by simp
qed

text \<open>A compare-and-swap on the row just read changes exactly that row.\<close>

lemma cas_count:
  assumes "table_ok key check index rows" and "find_row key rows k = Some r" and "q r"
    and "update_rows check guard index (\<lambda>x. key x = k \<and> q x) f rows = Inr (rows', n)"
  shows "n = 1 \<and> find_row key rows' k = Some (f r) \<and>
    (\<forall>j. j \<noteq> k \<longrightarrow> find_row key rows' j = find_row key rows j)"
proof -
  have d: "distinct (map key rows)" and r: "r \<in> set rows" "key r = k"
    using assms(1) find_row_Some [OF assms(2)] by (simp_all add: table_ok_def)
  have "filter (\<lambda>x. key x = k \<and> q x) rows = [r]"
    using d r assms(3)
  proof (induction rows)
    case (Cons a rows)
    then show ?case
    proof (cases "a = r")
      case True
      with Cons.prems have "\<forall>x \<in> set rows. key x \<noteq> k"
        by (auto simp: image_iff)
      then have "filter (\<lambda>x. key x = k \<and> q x) rows = []"
        by (simp add: filter_empty_conv)
      with True Cons.prems show ?thesis by simp
    qed auto
  qed simp
  then have "n = 1"
    using assms(4) by (simp add: update_rows_Inr)
  moreover have "find_row key rows' j = find_row key rows j" if "j \<noteq> k" for j
    using find_update [OF assms(4), of j] that find_row_Some [of key rows j]
    by (cases "find_row key rows j") auto
  moreover have "find_row key rows' k = Some (f r)"
    using find_update [OF assms(4), of k] assms(2,3) r(2) by simp
  ultimately show ?thesis by blast
qed

end

end
