(* ===== verification/Leases.thy ===== *)
theory Leases
  imports Table
begin

text \<open>
  \<^verbatim>\<open>packages/persistence/src/leases.ts\<close> with the lease tables, their constraints and
  triggers of \<^verbatim>\<open>ledger.ts\<close> and \<^verbatim>\<open>DurableLeaseRecordSchema\<close> of
  \<^verbatim>\<open>domain/execution.ts\<close>: acquisition with its race attempts, stale-owner probes and
  compare-and-swap, renewal, run binding, the ownership assertion and release. Each operation on
  the ledger is one immediate transaction: an error leaves the ledger as it was. What other
  processes commit between the transactions of one acquisition is an argument.
\<close>

section \<open>Records\<close>

datatype lease_kind = Workspace_supervisor | Run_supervisor | Worker_lease

datatype lease_status = Lease_active | Lease_released | Lease_stolen

datatype probe_status = Probe_alive | Probe_dead | Probe_identity_mismatch | Probe_unreachable

record lease =
  l_id :: string
  l_kind :: lease_kind
  l_resourceKey :: string
  l_workspaceId :: string
  l_runId :: "string option"
  l_ownerInstanceId :: string
  l_workerId :: "string option"
  l_pid :: int
  l_processStartToken :: string
  l_hostname :: string
  l_command :: string
  l_scope :: "string list"
  l_parentRunId :: "string option"
  l_parentWorkerId :: "string option"
  l_acquiredAt :: int
  l_renewedAt :: int
  l_expiresAt :: int
  l_graceExpiresAt :: int
  l_status :: lease_status
  l_revision :: nat
  l_releasedAt :: "int option"
  l_replacedByLeaseId :: "string option"

record lease_probe =
  pr_id :: string
  pr_leaseId :: string
  pr_observerInstanceId :: string
  pr_sequence :: nat
  pr_status :: probe_status
  pr_expectedProcessStartToken :: string
  pr_observedProcessStartToken :: "string option"
  pr_observedAt :: int
  pr_reason :: string

record lease_event =
  lev_type :: string
  lev_leaseId :: string
  lev_revision :: nat

record lease_db =
  ld_leases :: "lease list"
  ld_probes :: "lease_probe list"
  ld_events :: "lease_event list"

text \<open>\<^verbatim>\<open>DurableLeaseRecordSchema\<close>\<close>

definition valid_lease :: "lease \<Rightarrow> bool" where
  "valid_lease l \<longleftrightarrow>
     nonempty (l_id l) \<and> nonempty (l_resourceKey l) \<and> nonempty (l_workspaceId l) \<and>
     nonempty_opt (l_runId l) \<and> nonempty (l_ownerInstanceId l) \<and> nonempty_opt (l_workerId l) \<and>
     safe_int (l_pid l) \<and> 0 < l_pid l \<and> nonempty (l_processStartToken l) \<and>
     nonempty (l_hostname l) \<and> nonempty (l_command l) \<and> l_scope l \<noteq> [] \<and>
     list_all nonempty (l_scope l) \<and> nonempty_opt (l_parentRunId l) \<and>
     nonempty_opt (l_parentWorkerId l) \<and> safe_int (int (l_revision l)) \<and>
     nonempty_opt (l_replacedByLeaseId l) \<and>
     l_acquiredAt l \<le> l_renewedAt l \<and> l_renewedAt l < l_expiresAt l \<and>
     l_expiresAt l \<le> l_graceExpiresAt l \<and>
     (if l_status l = Lease_active then l_releasedAt l = None \<and> l_replacedByLeaseId l = None
      else l_releasedAt l \<noteq> None \<and> (l_status l = Lease_stolen \<longrightarrow> l_replacedByLeaseId l \<noteq> None))"

section \<open>The tables\<close>

definition between :: "nat \<Rightarrow> string \<Rightarrow> bool" where
  "between n s \<longleftrightarrow> 1 \<le> length s \<and> length s \<le> n"

definition between_opt :: "nat \<Rightarrow> string option \<Rightarrow> bool" where
  "between_opt n s \<longleftrightarrow> (case s of None \<Rightarrow> True | Some x \<Rightarrow> between n x)"

text \<open>The length of \<^verbatim>\<open>JSON.stringify\<close> of a list of strings.\<close>

definition json_char_length :: "char \<Rightarrow> nat" where
  "json_char_length c =
     (let n = (of_char c :: nat) in
      if n \<in> {8, 9, 10, 12, 13, 34, 92} then 2 else if n < 32 then 6 else 1)"

definition json_scope_length :: "string list \<Rightarrow> nat" where
  "json_scope_length xs =
     2 + (length xs - 1) + sum_list (map (\<lambda>s. 2 + sum_list (map json_char_length s)) xs)"

definition lease_check :: "lease \<Rightarrow> bool" where
  "lease_check l \<longleftrightarrow>
     between 512 (l_id l) \<and> between 4096 (l_resourceKey l) \<and> between 512 (l_workspaceId l) \<and>
     between_opt 512 (l_runId l) \<and> between 512 (l_ownerInstanceId l) \<and>
     between_opt 512 (l_workerId l) \<and> 0 < l_pid l \<and> between 1024 (l_processStartToken l) \<and>
     between 512 (l_hostname l) \<and> between 4096 (l_command l) \<and> l_scope l \<noteq> [] \<and>
     json_scope_length (l_scope l) \<le> 32768 \<and> between_opt 512 (l_parentRunId l) \<and>
     between_opt 512 (l_parentWorkerId l) \<and>
     l_acquiredAt l \<le> l_renewedAt l \<and> l_renewedAt l < l_expiresAt l \<and>
     l_expiresAt l \<le> l_graceExpiresAt l \<and>
     (case l_status l of
        Lease_active \<Rightarrow> l_releasedAt l = None \<and> l_replacedByLeaseId l = None
      | Lease_released \<Rightarrow> l_releasedAt l \<noteq> None \<and> l_replacedByLeaseId l = None
      | Lease_stolen \<Rightarrow> l_releasedAt l \<noteq> None \<and> l_replacedByLeaseId l \<noteq> None)"

text \<open>\<^verbatim>\<open>leases_identity_update_guard\<close> and \<^verbatim>\<open>leases_transition_guard\<close>\<close>

definition lease_guard :: "lease \<Rightarrow> lease \<Rightarrow> bool" where
  "lease_guard old new \<longleftrightarrow>
     l_id new = l_id old \<and> l_kind new = l_kind old \<and> l_resourceKey new = l_resourceKey old \<and>
     l_workspaceId new = l_workspaceId old \<and>
     (l_runId old \<noteq> None \<longrightarrow> l_runId new = l_runId old) \<and>
     l_ownerInstanceId new = l_ownerInstanceId old \<and> l_workerId new = l_workerId old \<and>
     l_pid new = l_pid old \<and> l_processStartToken new = l_processStartToken old \<and>
     l_hostname new = l_hostname old \<and> l_command new = l_command old \<and> l_scope new = l_scope old \<and>
     l_parentRunId new = l_parentRunId old \<and> l_parentWorkerId new = l_parentWorkerId old \<and>
     l_acquiredAt new = l_acquiredAt old \<and>
     l_status old = Lease_active \<and> l_revision new = l_revision old + 1 \<and>
     l_renewedAt old \<le> l_renewedAt new \<and>
     (case l_status new of
        Lease_active \<Rightarrow> l_releasedAt new = None \<and> l_replacedByLeaseId new = None
      | Lease_released \<Rightarrow> l_releasedAt new \<noteq> None \<and> l_replacedByLeaseId new = None
      | Lease_stolen \<Rightarrow> l_releasedAt new \<noteq> None \<and> l_replacedByLeaseId new \<noteq> None)"

definition same_resource :: "lease \<Rightarrow> lease \<Rightarrow> bool" where
  "same_resource a b \<longleftrightarrow>
     l_workspaceId a = l_workspaceId b \<and> l_kind a = l_kind b \<and> l_resourceKey a = l_resourceKey b"

text \<open>\<^verbatim>\<open>leases_one_active_resource_idx\<close>\<close>

definition lease_index :: "lease list \<Rightarrow> bool" where
  "lease_index ls \<longleftrightarrow>
     distinct (map (\<lambda>l. (l_workspaceId l, l_kind l, l_resourceKey l))
       (filter (\<lambda>l. l_status l = Lease_active) ls))"

definition probe_check :: "lease_probe \<Rightarrow> bool" where
  "probe_check p \<longleftrightarrow>
     between 512 (pr_id p) \<and> between 512 (pr_observerInstanceId p) \<and> 0 < pr_sequence p \<and>
     between 1024 (pr_expectedProcessStartToken p) \<and>
     between_opt 1024 (pr_observedProcessStartToken p) \<and> between 4096 (pr_reason p)"

definition probe_index :: "lease_probe list \<Rightarrow> bool" where
  "probe_index ps \<longleftrightarrow>
     distinct (map (\<lambda>p. (pr_leaseId p, pr_observerInstanceId p, pr_sequence p)) ps)"

definition insertLease :: "lease_db \<Rightarrow> lease \<Rightarrow> lease_db result" where
  "insertLease db l =
     and_then (insert_row l_id lease_check lease_index (ld_leases db) l)
       (\<lambda>ls. Inr (db\<lparr>ld_leases := ls\<rparr>))"

text \<open>The foreign key of a probe asks for its lease.\<close>

definition insertProbe :: "lease_db \<Rightarrow> lease_probe \<Rightarrow> lease_db result" where
  "insertProbe db p =
     (if find_row l_id (ld_leases db) (pr_leaseId p) = None then Inl SqliteError
      else and_then (insert_row pr_id probe_check probe_index (ld_probes db) p)
             (\<lambda>ps. Inr (db\<lparr>ld_probes := ps\<rparr>)))"

definition leaseEvent :: "lease_db \<Rightarrow> lease \<Rightarrow> string \<Rightarrow> lease_db" where
  "leaseEvent db l type =
     db\<lparr>ld_events := ld_events db @ [\<lparr>lev_type = type, lev_leaseId = l_id l, lev_revision = l_revision l\<rparr>]\<rparr>"

section \<open>Reading\<close>

definition read_lease :: "lease option \<Rightarrow> lease option result" where
  "read_lease row =
     (case row of None \<Rightarrow> Inr None | Some l \<Rightarrow> if valid_lease l then Inr (Some l) else Inl ZodError)"

definition activeLease :: "lease_db \<Rightarrow> string \<Rightarrow> lease_kind \<Rightarrow> string \<Rightarrow> lease option result" where
  "activeLease db workspaceId kind resourceKey =
     read_lease (find (\<lambda>l. l_workspaceId l = workspaceId \<and> l_kind l = kind \<and>
                          l_resourceKey l = resourceKey \<and> l_status l = Lease_active) (ld_leases db))"

definition leaseById :: "lease_db \<Rightarrow> string \<Rightarrow> lease option result" where
  "leaseById db leaseId = read_lease (find_row l_id (ld_leases db) leaseId)"

definition readActiveDurableLease :: "lease_db \<Rightarrow> string \<Rightarrow> lease_kind \<Rightarrow> string \<Rightarrow> lease option result" where
  "readActiveDurableLease db workspaceId kind resourceKey = activeLease db workspaceId kind resourceKey"

definition readDurableLease :: "lease_db \<Rightarrow> string \<Rightarrow> lease option result" where
  "readDurableLease db leaseId = leaseById db leaseId"

section \<open>Inputs\<close>

record lease_owner =
  lo_ownerInstanceId :: string
  lo_pid :: int
  lo_processStartToken :: string
  lo_hostname :: string

record acquire_input =
  ai_owner :: lease_owner
  ai_id :: "string option"
  ai_kind :: lease_kind
  ai_resourceKey :: string
  ai_workspaceId :: string
  ai_runId :: "string option"
  ai_workerId :: "string option"
  ai_command :: string
  ai_scope :: "string list"
  ai_parentRunId :: "string option"
  ai_parentWorkerId :: "string option"
  ai_leaseDurationMs :: int
  ai_staleGraceMs :: int
  ai_staleProbeConfirmations :: "int option"
  ai_staleProbeIntervalMs :: "int option"

record probe_result =
  po_status :: probe_status
  po_observedProcessStartToken :: "string option"
  po_reason :: string

definition lease_invalid :: failure where
  "lease_invalid = RalphError ''RALPH_LEASE_INPUT_INVALID'' Exit_invalidUsage"

definition leaseConflict :: failure where
  "leaseConflict = RalphError ''RALPH_LEASE_CONFLICT'' Exit_conflict"

definition leaseLost :: failure where
  "leaseLost = RalphError ''RALPH_LEASE_LOST'' Exit_conflict"

definition canonicalScope :: "string list \<Rightarrow> string list result" where
  "canonicalScope scope =
     (let values = sort_by (\<le>) (js_unique (filter (\<lambda>s. s \<noteq> []) (map js_trim scope))) in
      if values = [] \<or> 128 < length values \<or> (\<exists>v \<in> set values. 512 < length v)
      then Inl lease_invalid else Inr values)"

definition lease_duration :: "int \<Rightarrow> int \<Rightarrow> int \<Rightarrow> int result" where
  "lease_duration value minimum maximum =
     (if \<not> safe_int value \<or> value < minimum \<or> maximum < value then Inl lease_invalid else Inr value)"

definition boundedText :: "string \<Rightarrow> nat \<Rightarrow> string result" where
  "boundedText value maximum =
     (let normalized = js_trim value in
      if normalized = [] \<or> maximum < length normalized then Inl lease_invalid else Inr normalized)"

text \<open>An optional text is dropped when it is empty.\<close>

definition boundedOption :: "string option \<Rightarrow> nat \<Rightarrow> string option result" where
  "boundedOption value maximum =
     (case value of
        None \<Rightarrow> Inr None
      | Some s \<Rightarrow> if s = [] then Inr None else and_then (boundedText s maximum) (\<lambda>x. Inr (Some x)))"

definition sameOwner :: "lease \<Rightarrow> lease_owner \<Rightarrow> bool" where
  "sameOwner l owner \<longleftrightarrow>
     l_ownerInstanceId l = lo_ownerInstanceId owner \<and> l_pid l = lo_pid owner \<and>
     l_processStartToken l = lo_processStartToken owner \<and>
     js_lower (l_hostname l) = js_lower (lo_hostname owner)"

definition newLease :: "acquire_input \<Rightarrow> string \<Rightarrow> int \<Rightarrow> string list \<Rightarrow> lease result" where
  "newLease input leaseId now scope =
     and_then (boundedText (ai_resourceKey input) 512) (\<lambda>resourceKey.
     and_then (boundedText (ai_workspaceId input) 512) (\<lambda>workspaceId.
     and_then (boundedOption (ai_runId input) 512) (\<lambda>runId.
     and_then (boundedText (lo_ownerInstanceId (ai_owner input)) 512) (\<lambda>ownerInstanceId.
     and_then (boundedOption (ai_workerId input) 512) (\<lambda>workerId.
     and_then (boundedText (lo_processStartToken (ai_owner input)) 1024) (\<lambda>processStartToken.
     and_then (boundedText (lo_hostname (ai_owner input)) 512) (\<lambda>hostname.
     and_then (boundedText (ai_command input) 4096) (\<lambda>command.
     and_then (boundedOption (ai_parentRunId input) 512) (\<lambda>parentRunId.
     and_then (boundedOption (ai_parentWorkerId input) 512) (\<lambda>parentWorkerId.
     (let l =
        \<lparr>l_id = leaseId, l_kind = ai_kind input, l_resourceKey = resourceKey,
         l_workspaceId = workspaceId, l_runId = runId, l_ownerInstanceId = ownerInstanceId,
         l_workerId = workerId, l_pid = lo_pid (ai_owner input),
         l_processStartToken = processStartToken, l_hostname = hostname, l_command = command,
         l_scope = scope, l_parentRunId = parentRunId, l_parentWorkerId = parentWorkerId,
         l_acquiredAt = now, l_renewedAt = now, l_expiresAt = now + ai_leaseDurationMs input,
         l_graceExpiresAt = now + ai_leaseDurationMs input + ai_staleGraceMs input,
         l_status = Lease_active, l_revision = 0, l_releasedAt = None,
         l_replacedByLeaseId = None\<rparr>
      in if valid_lease l then Inr l else Inl ZodError)))))))))))"

section \<open>Operations\<close>

text \<open>
  The update of the row read in the same transaction, by id, status and revision; the number of
  changed rows is checked, and the row is read again.
\<close>

definition lease_cas :: "lease_db \<Rightarrow> lease \<Rightarrow> (lease \<Rightarrow> bool) \<Rightarrow> (lease \<Rightarrow> lease) \<Rightarrow> (lease_db \<times> nat) result" where
  "lease_cas db current extra f =
     and_then
       (update_rows lease_check lease_guard lease_index
          (\<lambda>l. l_id l = l_id current \<and> l_status l = Lease_active \<and>
               l_revision l = l_revision current \<and> extra l) f (ld_leases db))
       (\<lambda>(ls, n). Inr (db\<lparr>ld_leases := ls\<rparr>, n))"

definition cas_and_read ::
  "lease_db \<Rightarrow> lease \<Rightarrow> (lease \<Rightarrow> bool) \<Rightarrow> (lease \<Rightarrow> lease) \<Rightarrow> string \<Rightarrow> (lease_db \<times> lease) result" where
  "cas_and_read db current extra f event =
     and_then (lease_cas db current extra f) (\<lambda>(db', n).
       if n \<noteq> 1 then Inl leaseLost
       else and_then (leaseById db' (l_id current)) (\<lambda>row.
         case row of
           None \<Rightarrow> Inl leaseLost
         | Some l \<Rightarrow> Inr (leaseEvent db' l event, l)))"

definition renewDurableLease ::
  "lease_db \<Rightarrow> string \<Rightarrow> lease_owner \<Rightarrow> int \<Rightarrow> int \<Rightarrow> int \<Rightarrow> (lease_db \<times> lease) result" where
  "renewDurableLease db leaseId owner leaseDurationMs staleGraceMs now =
     and_then (lease_duration leaseDurationMs 1000 86400000) (\<lambda>_.
     and_then (lease_duration staleGraceMs 0 86400000) (\<lambda>_.
     and_then (leaseById db leaseId) (\<lambda>row.
       case row of
         None \<Rightarrow> Inl leaseLost
       | Some current \<Rightarrow>
           if l_status current \<noteq> Lease_active \<or> \<not> sameOwner current owner then Inl leaseLost
           else cas_and_read db current (\<lambda>_. True)
             (\<lambda>l. l\<lparr>l_renewedAt := now, l_expiresAt := now + leaseDurationMs,
                    l_graceExpiresAt := now + leaseDurationMs + staleGraceMs,
                    l_revision := l_revision l + 1\<rparr>)
             ''lease.renewed'')))"

definition bindDurableLeaseRun ::
  "lease_db \<Rightarrow> string \<Rightarrow> lease_owner \<Rightarrow> string \<Rightarrow> (lease_db \<times> lease) result" where
  "bindDurableLeaseRun db leaseId owner runId =
     and_then (boundedText runId 512) (\<lambda>normalizedRunId.
     and_then (leaseById db leaseId) (\<lambda>row.
       case row of
         None \<Rightarrow> Inl leaseLost
       | Some current \<Rightarrow>
           if l_status current \<noteq> Lease_active \<or> \<not> sameOwner current owner then Inl leaseLost
           else if l_runId current = Some normalizedRunId then Inr (db, current)
           else if l_runId current \<noteq> None then Inl leaseLost
           else cas_and_read db current (\<lambda>l. l_runId l = None)
             (\<lambda>l. l\<lparr>l_runId := Some normalizedRunId, l_revision := l_revision l + 1\<rparr>)
             ''lease.bound''))"

definition assertDurableLeaseOwned :: "lease_db \<Rightarrow> string \<Rightarrow> lease_owner \<Rightarrow> int \<Rightarrow> lease result" where
  "assertDurableLeaseOwned db leaseId owner at =
     and_then (readDurableLease db leaseId) (\<lambda>row.
       case row of
         None \<Rightarrow> Inl leaseLost
       | Some current \<Rightarrow>
           if l_status current \<noteq> Lease_active \<or> \<not> sameOwner current owner then Inl leaseLost
           else if l_expiresAt current \<le> at then Inl leaseLost
           else Inr current)"

definition releaseDurableLease ::
  "lease_db \<Rightarrow> string \<Rightarrow> lease_owner \<Rightarrow> int \<Rightarrow> (lease_db \<times> lease) result" where
  "releaseDurableLease db leaseId owner now =
     and_then (leaseById db leaseId) (\<lambda>row.
       case row of
         None \<Rightarrow> Inl leaseLost
       | Some current \<Rightarrow>
           if \<not> sameOwner current owner then Inl leaseLost
           else if l_status current \<noteq> Lease_active then Inr (db, current)
           else cas_and_read db current (\<lambda>_. True)
             (\<lambda>l. l\<lparr>l_status := Lease_released, l_releasedAt := Some now,
                    l_revision := l_revision l + 1\<rparr>)
             ''lease.released'')"

section \<open>Acquisition\<close>

datatype acquired =
    Retry
  | Acquired lease "lease option" "lease_probe list"

text \<open>
  One attempt's surroundings: the clock readings, the fresh identifiers, the answers of the
  owner's process probe, and what other processes commit before the attempt's first read and
  between that read and its transaction.
\<close>

record attempt_env =
  ae_before :: "lease_db \<Rightarrow> lease_db"
  ae_interference :: "lease_db \<Rightarrow> lease_db"
  ae_observedNow :: int
  ae_probe :: "nat \<Rightarrow> probe_result"
  ae_acquiredAt :: int
  ae_freshId :: string
  ae_probeId :: "nat \<Rightarrow> string"
  ae_probeAt :: "nat \<Rightarrow> int"

definition negative_probe :: "probe_status \<Rightarrow> bool" where
  "negative_probe s \<longleftrightarrow> s = Probe_dead \<or> s = Probe_identity_mismatch"

text \<open>The confirmation loop: \<open>n\<close> probes left, of which the next has number \<open>k\<close>.\<close>

fun confirm_stale :: "(nat \<Rightarrow> probe_result) \<Rightarrow> nat \<Rightarrow> nat \<Rightarrow> probe_result list result" where
  "confirm_stale probe 0 k = Inr []"
| "confirm_stale probe (Suc n) k =
     (if \<not> negative_probe (po_status (probe k)) then Inl leaseConflict
      else and_then (confirm_stale probe n (Suc k)) (\<lambda>rs. Inr (probe k # rs)))"

definition stale_owner_probes :: "lease \<Rightarrow> bool \<Rightarrow> nat \<Rightarrow> attempt_env \<Rightarrow> probe_result list result" where
  "stale_owner_probes observed canProbe confirmations env =
     (if ae_observedNow env < l_graceExpiresAt observed then Inl leaseConflict
      else if \<not> canProbe then Inl leaseConflict
      else confirm_stale (ae_probe env) confirmations 1)"

definition valid_probe :: "lease_probe \<Rightarrow> bool" where
  "valid_probe p \<longleftrightarrow>
     nonempty (pr_id p) \<and> nonempty (pr_leaseId p) \<and> nonempty (pr_observerInstanceId p) \<and>
     0 < pr_sequence p \<and> safe_int (int (pr_sequence p)) \<and>
     nonempty (pr_expectedProcessStartToken p) \<and> nonempty_opt (pr_observedProcessStartToken p) \<and>
     nonempty (pr_reason p)"

definition probe_record ::
  "lease \<Rightarrow> string \<Rightarrow> attempt_env \<Rightarrow> nat \<Rightarrow> probe_result \<Rightarrow> string \<Rightarrow> lease_probe" where
  "probe_record current observer env k r reason =
     \<lparr>pr_id = ae_probeId env k, pr_leaseId = l_id current,
      pr_observerInstanceId = observer, pr_sequence = k, pr_status = po_status r,
      pr_expectedProcessStartToken = l_processStartToken current,
      pr_observedProcessStartToken =
        (if po_observedProcessStartToken r = Some [] then None else po_observedProcessStartToken r),
      pr_observedAt = ae_probeAt env k, pr_reason = reason\<rparr>"

text \<open>The probes are stored in order, \<open>k\<close> being the sequence number of the first.\<close>

fun store_probes ::
  "lease_db \<Rightarrow> lease \<Rightarrow> string \<Rightarrow> attempt_env \<Rightarrow> nat \<Rightarrow> probe_result list \<Rightarrow>
   (lease_db \<times> lease_probe list) result" where
  "store_probes db current observer env k [] = Inr (db, [])"
| "store_probes db current observer env k (r # rs) =
     and_then (boundedText (po_reason r) 4096) (\<lambda>reason.
     (let p = probe_record current observer env k r reason
      in if \<not> valid_probe p then Inl ZodError
         else and_then (insertProbe db p) (\<lambda>db'.
              and_then (store_probes db' current observer env (Suc k) rs) (\<lambda>(db'', ps).
              Inr (db'', p # ps)))))"

definition acquire_commit ::
  "lease_db \<Rightarrow> acquire_input \<Rightarrow> string list \<Rightarrow> lease option \<Rightarrow> probe_result list \<Rightarrow> attempt_env \<Rightarrow>
   (lease_db \<times> acquired) result" where
  "acquire_commit db input scope observed probes env =
     and_then (activeLease db (ai_workspaceId input) (ai_kind input) (ai_resourceKey input)) (\<lambda>current.
       if map_option l_id current \<noteq> map_option l_id observed \<or>
          map_option l_revision current \<noteq> map_option l_revision observed
       then Inr (db, Retry)
       else
         and_then (newLease input (case ai_id input of None \<Rightarrow> ae_freshId env | Some i \<Rightarrow> i)
                     (ae_acquiredAt env) scope) (\<lambda>lease.
         case current of
           None \<Rightarrow>
             and_then (insertLease db lease) (\<lambda>db'.
             Inr (leaseEvent db' lease ''lease.acquired'', Acquired lease None []))
         | Some c \<Rightarrow>
             and_then (lease_cas db c (\<lambda>_. True)
               (\<lambda>l. l\<lparr>l_status := Lease_stolen, l_releasedAt := Some (ae_acquiredAt env),
                      l_replacedByLeaseId := Some (l_id lease), l_revision := l_revision l + 1\<rparr>)) (\<lambda>(db1, n).
             if n \<noteq> 1 then Inr (db1, Retry)
             else
               and_then (store_probes db1 c (lo_ownerInstanceId (ai_owner input)) env 1 probes) (\<lambda>(db2, ps).
               and_then (insertLease db2 lease) (\<lambda>db3.
               and_then (leaseById db3 (l_id c)) (\<lambda>row.
               case row of
                 None \<Rightarrow> Inl leaseLost
               | Some displaced \<Rightarrow>
                   Inr (leaseEvent (leaseEvent db3 displaced ''lease.lost'') lease ''lease.acquired'',
                        Acquired lease (Some displaced) ps)))))))"

text \<open>
  One turn of the race loop. The ledger it leaves is returned with errors too, since others may
  have committed.
\<close>

definition acquire_attempt ::
  "lease_db \<Rightarrow> acquire_input \<Rightarrow> string list \<Rightarrow> nat \<Rightarrow> bool \<Rightarrow> attempt_env \<Rightarrow> lease_db \<times> acquired result" where
  "acquire_attempt db0 input scope confirmations canProbe env =
     (let db = ae_before env db0 in
      case readActiveDurableLease db (ai_workspaceId input) (ai_kind input) (ai_resourceKey input) of
        Inl e \<Rightarrow> (db, Inl e)
      | Inr observed \<Rightarrow>
          (case observed of
             Some o' \<Rightarrow>
               if sameOwner o' (ai_owner input) then
                 if l_runId o' \<noteq> None \<and> (ai_runId input \<noteq> None \<and> ai_runId input \<noteq> Some []) \<and>
                    l_runId o' \<noteq> ai_runId input
                 then (db, Inl leaseConflict)
                 else
                   (let db' = ae_interference env db in
                    case renewDurableLease db' (l_id o') (ai_owner input) (ai_leaseDurationMs input)
                           (ai_staleGraceMs input) (ae_acquiredAt env) of
                      Inl e \<Rightarrow> (db', Inl e)
                    | Inr (db'', renewed) \<Rightarrow> (db'', Inr (Acquired renewed None [])))
               else
                 (case stale_owner_probes o' canProbe confirmations env of
                    Inl e \<Rightarrow> (db, Inl e)
                  | Inr probes \<Rightarrow>
                      (let db' = ae_interference env db in
                       case acquire_commit db' input scope (Some o') probes env of
                         Inl e \<Rightarrow> (db', Inl e)
                       | Inr (db'', a) \<Rightarrow> (db'', Inr a)))
           | None \<Rightarrow>
               (let db' = ae_interference env db in
                case acquire_commit db' input scope None [] env of
                  Inl e \<Rightarrow> (db', Inl e)
                | Inr (db'', a) \<Rightarrow> (db'', Inr a))))"

fun acquire_loop ::
  "nat \<Rightarrow> lease_db \<Rightarrow> acquire_input \<Rightarrow> string list \<Rightarrow> nat \<Rightarrow> bool \<Rightarrow> (nat \<Rightarrow> attempt_env) \<Rightarrow>
   lease_db \<times> acquired result" where
  "acquire_loop 0 db input scope confirmations canProbe envs =
     (let db' = ae_before (envs 0) db in
      case readActiveDurableLease db' (ai_workspaceId input) (ai_kind input) (ai_resourceKey input) of
        Inl e \<Rightarrow> (db', Inl e)
      | Inr (Some _) \<Rightarrow> (db', Inl leaseConflict)
      | Inr None \<Rightarrow> (db', Inl (RalphError ''RALPH_LEASE_ACQUIRE_RACE'' Exit_conflict)))"
| "acquire_loop (Suc n) db input scope confirmations canProbe envs =
     (case acquire_attempt db input scope confirmations canProbe (envs (Suc n)) of
        (db', Inr Retry) \<Rightarrow> acquire_loop n db' input scope confirmations canProbe envs
      | (db', r) \<Rightarrow> (db', r))"

text \<open>\<open>acquireDurableLease\<close>: three attempts, whose surroundings are \<open>envs 3\<close>, \<open>envs 2\<close>, \<open>envs 1\<close>.\<close>

definition acquireDurableLease ::
  "lease_db \<Rightarrow> acquire_input \<Rightarrow> bool \<Rightarrow> (nat \<Rightarrow> attempt_env) \<Rightarrow> lease_db \<times> acquired result" where
  "acquireDurableLease db input canProbe envs =
     (case
        and_then (lease_duration (ai_leaseDurationMs input) 1000 86400000) (\<lambda>_.
        and_then (lease_duration (ai_staleGraceMs input) 0 86400000) (\<lambda>_.
        and_then (lease_duration (case ai_staleProbeConfirmations input of None \<Rightarrow> 2 | Some c \<Rightarrow> c) 1 10) (\<lambda>confirmations.
        and_then (lease_duration (case ai_staleProbeIntervalMs input of None \<Rightarrow> 250 | Some i \<Rightarrow> i) 0 60000) (\<lambda>_.
        and_then (canonicalScope (ai_scope input)) (\<lambda>scope.
        Inr (confirmations, scope))))))
      of
        Inl e \<Rightarrow> (db, Inl e)
      | Inr (confirmations, scope) \<Rightarrow> acquire_loop 3 db input scope (nat confirmations) canProbe envs)"

section \<open>How the ledger evolves\<close>

interpretation lease_table: ledger_table l_id lease_check lease_guard lease_index
  "\<lambda>l. l_status l = Lease_active"
  by unfold_locales (simp_all add: lease_guard_def)

text \<open>The triggers of the probe table let no row change.\<close>

interpretation probe_table: ledger_table pr_id probe_check "\<lambda>_ _. False" probe_index "\<lambda>_. False"
  by unfold_locales simp_all

definition lease_db_ok :: "lease_db \<Rightarrow> bool" where
  "lease_db_ok db \<longleftrightarrow>
     table_ok l_id lease_check lease_index (ld_leases db) \<and>
     table_ok pr_id probe_check probe_index (ld_probes db)"

abbreviation lease_row :: "lease_db \<Rightarrow> string \<Rightarrow> lease option" where
  "lease_row db k \<equiv> find_row l_id (ld_leases db) k"

definition empty_lease_db :: lease_db where
  "empty_lease_db = \<lparr>ld_leases = [], ld_probes = [], ld_events = []\<rparr>"

lemma empty_lease_db_ok: "lease_db_ok empty_lease_db"
  by (simp add: lease_db_ok_def table_ok_def lease_index_def probe_index_def empty_lease_db_def)

definition succeeds :: "lease \<Rightarrow> lease \<Rightarrow> bool" where
  "succeeds l l' \<longleftrightarrow>
     l_id l' = l_id l \<and> l_ownerInstanceId l' = l_ownerInstanceId l \<and> l_pid l' = l_pid l \<and>
     l_processStartToken l' = l_processStartToken l \<and> l_hostname l' = l_hostname l \<and>
     same_resource l l' \<and> l_revision l \<le> l_revision l' \<and>
     (l_revision l' = l_revision l \<longrightarrow> l' = l) \<and> (l_status l \<noteq> Lease_active \<longrightarrow> l' = l)"

text \<open>The invariant is kept, and a row is kept or replaced by a successor.\<close>

definition evolves :: "lease_db \<Rightarrow> lease_db \<Rightarrow> bool" where
  "evolves db db' \<longleftrightarrow>
     (lease_db_ok db \<longrightarrow> lease_db_ok db') \<and>
     (\<forall>k l. lease_row db k = Some l \<longrightarrow> (\<exists>l'. lease_row db' k = Some l' \<and> succeeds l l'))"

lemma succeeds_refl [simp]: "succeeds l l"
  by (simp add: succeeds_def same_resource_def)

lemma succeeds_trans: "succeeds a b \<Longrightarrow> succeeds b c \<Longrightarrow> succeeds a c"
  unfolding succeeds_def same_resource_def by (metis le_antisym le_trans)

lemma evolves_refl [simp]: "evolves db db"
  by (simp add: evolves_def)

lemma evolves_trans: "evolves a b \<Longrightarrow> evolves b c \<Longrightarrow> evolves a c"
  unfolding evolves_def by (meson succeeds_trans)

lemma guard_succeeds: "lease_guard l l' \<Longrightarrow> succeeds l l'"
  by (simp add: lease_guard_def succeeds_def same_resource_def)

lemma evolves_event [simp]: "evolves db (leaseEvent db l e)"
  by (simp add: evolves_def leaseEvent_def lease_db_ok_def)

lemma event_rows [simp]: "ld_leases (leaseEvent db l e) = ld_leases db"
  by (simp add: leaseEvent_def)

lemma evolves_insertLease: "insertLease db l = Inr db' \<Longrightarrow> evolves db db'"
  by (auto simp: insertLease_def result_simps evolves_def lease_db_ok_def lease_table.insert_ok
      lease_table.find_insert insert_row_Inr)

lemma row_after_insertLease: "insertLease db l = Inr db' \<Longrightarrow> lease_row db' (l_id l) = Some l"
  by (auto simp: insertLease_def result_simps lease_table.find_insert)

lemma evolves_insertProbe: "insertProbe db p = Inr db' \<Longrightarrow> evolves db db' \<and> ld_leases db' = ld_leases db"
  by (auto simp: insertProbe_def result_simps evolves_def lease_db_ok_def probe_table.insert_ok split: if_splits)

lemma cas_Inr:
  assumes "lease_cas db c extra f = Inr (db', n)"
  obtains ls where "update_rows lease_check lease_guard lease_index
      (\<lambda>l. l_id l = l_id c \<and> l_status l = Lease_active \<and> l_revision l = l_revision c \<and> extra l) f
      (ld_leases db) = Inr (ls, n)" and "db' = db\<lparr>ld_leases := ls\<rparr>"
  using assms by (auto simp: lease_cas_def result_simps)

lemma evolves_cas:
  assumes "lease_cas db c extra f = Inr (db', n)"
  shows "evolves db db'"
proof -
  obtain ls where u: "update_rows lease_check lease_guard lease_index
      (\<lambda>l. l_id l = l_id c \<and> l_status l = Lease_active \<and> l_revision l = l_revision c \<and> extra l) f
      (ld_leases db) = Inr (ls, n)" and db': "db' = db\<lparr>ld_leases := ls\<rparr>"
    using assms by (rule cas_Inr)
  have "lease_db_ok db \<longrightarrow> lease_db_ok db'"
    using lease_table.update_ok [OF _ u] by (auto simp: lease_db_ok_def db')
  moreover have "\<exists>l'. lease_row db' k = Some l' \<and> succeeds l l'" if "lease_row db k = Some l" for k l
    using lease_table.find_update [OF u, of k] that find_row_Some [OF that] u
    by (auto simp: db' update_rows_Inr intro: guard_succeeds)
  ultimately show ?thesis
    by (simp add: evolves_def)
qed

lemma cas_row:
  assumes "lease_db_ok db" and "lease_row db (l_id c) = Some c" and "l_status c = Lease_active"
    and "extra c" and "lease_cas db c extra f = Inr (db', n)"
  shows "n = 1 \<and> lease_row db' (l_id c) = Some (f c) \<and> lease_guard c (f c) \<and> lease_check (f c) \<and>
    (\<forall>j. j \<noteq> l_id c \<longrightarrow> lease_row db' j = lease_row db j)"
proof -
  obtain ls where u: "update_rows lease_check lease_guard lease_index
      (\<lambda>l. l_id l = l_id c \<and> l_status l = Lease_active \<and> l_revision l = l_revision c \<and> extra l) f
      (ld_leases db) = Inr (ls, n)" and db': "db' = db\<lparr>ld_leases := ls\<rparr>"
    using assms(5) by (rule cas_Inr)
  have "lease_guard c (f c) \<and> lease_check (f c)"
    using u find_row_Some [OF assms(2)] assms(3,4) by (auto simp: update_rows_Inr)
  then show ?thesis
    using lease_table.cas_count [OF _ assms(2) _ u] assms by (simp add: lease_db_ok_def db')
qed

lemma leaseById_Some: "leaseById db k = Inr (Some l) \<longleftrightarrow> lease_row db k = Some l \<and> valid_lease l"
  by (auto simp: leaseById_def read_lease_def split: option.splits)

lemma activeLease_Some:
  assumes "activeLease db w k r = Inr (Some l)"
  shows "l \<in> set (ld_leases db) \<and> l_workspaceId l = w \<and> l_kind l = k \<and> l_resourceKey l = r \<and>
    l_status l = Lease_active \<and> valid_lease l"
  using assms by (auto simp: activeLease_def read_lease_def split: option.splits if_splits dest: find_SomeD)

lemma cas_and_read_Inr:
  assumes "cas_and_read db c extra f ev = Inr (db', l)"
  shows "evolves db db' \<and> lease_row db' (l_id c) = Some l \<and> valid_lease l"
proof -
  obtain db1 n where c: "lease_cas db c extra f = Inr (db1, n)"
    and "leaseById db1 (l_id c) = Inr (Some l)" and "db' = leaseEvent db1 l ev"
    using assms by (auto simp: cas_and_read_def result_simps split: if_splits option.splits)
  then show ?thesis
    using evolves_trans [OF evolves_cas [OF c] evolves_event] by (simp add: leaseById_Some)
qed

lemma evolves_renew: "renewDurableLease db i ow d g t = Inr (db', l) \<Longrightarrow> evolves db db'"
  by (auto simp: renewDurableLease_def and_then_def
      split: sum.splits option.splits if_splits dest: cas_and_read_Inr)

lemma evolves_bind: "bindDurableLeaseRun db i ow r = Inr (db', l) \<Longrightarrow> evolves db db'"
  by (auto simp: bindDurableLeaseRun_def and_then_def
      split: sum.splits option.splits if_splits dest: cas_and_read_Inr)

lemma evolves_release: "releaseDurableLease db i ow t = Inr (db', l) \<Longrightarrow> evolves db db'"
  by (auto simp: releaseDurableLease_def and_then_def
      split: sum.splits option.splits if_splits dest: cas_and_read_Inr)

definition probe_of :: "lease \<Rightarrow> string \<Rightarrow> lease_probe \<Rightarrow> bool" where
  "probe_of c observer p \<longleftrightarrow>
     pr_leaseId p = l_id c \<and> pr_observerInstanceId p = observer \<and>
     pr_expectedProcessStartToken p = l_processStartToken c"

lemma store_probes_Inr:
  "store_probes db c ob env k rs = Inr (db', ps) \<Longrightarrow>
   evolves db db' \<and> ld_leases db' = ld_leases db \<and> map pr_status ps = map po_status rs \<and>
   list_all (\<lambda>p. pr_leaseId p = l_id c) ps"
proof (induction rs arbitrary: db db' ps k)
  case (Cons r rs)
  then obtain reason db1 ps1 where
    i: "insertProbe db (probe_record c ob env k r reason) = Inr db1"
    and s: "store_probes db1 c ob env (Suc k) rs = Inr (db', ps1)"
    and ps: "ps = probe_record c ob env k r reason # ps1"
    by (auto simp: result_simps Let_def split: if_splits)
  show ?case
    using Cons.IH [OF s] evolves_insertProbe [OF i] ps evolves_trans [of db db1 db']
    by (auto simp: probe_record_def)
qed simp

text \<open>The rows the probes leave in the ledger.\<close>

lemma store_probes_rows:
  "store_probes db c ob env k rs = Inr (db', ps) \<Longrightarrow>
   ld_probes db' = ld_probes db @ ps \<and> map pr_sequence ps = [k..<k + length rs] \<and>
   list_all (probe_of c ob) ps"
proof (induction rs arbitrary: db ps k)
  case (Cons r rs)
  then obtain reason db1 ps1 where
    i: "insertProbe db (probe_record c ob env k r reason) = Inr db1"
    and s: "store_probes db1 c ob env (Suc k) rs = Inr (db', ps1)"
    and ps: "ps = probe_record c ob env k r reason # ps1"
    by (auto simp: result_simps Let_def split: if_splits)
  have "ld_probes db1 = ld_probes db @ [probe_record c ob env k r reason]"
    using i by (auto simp: insertProbe_def result_simps insert_row_Inr split: if_splits)
  moreover have "[k..<k + length (r # rs)] = k # [Suc k..<Suc k + length rs]"
    by (simp add: upt_rec)
  ultimately show ?case
    using Cons.IH [OF s] ps by (simp add: probe_record_def probe_of_def)
qed simp

lemma newLease_Inr:
  assumes "newLease input i t sc = Inr l"
  shows "valid_lease l \<and> l_id l = i \<and> l_status l = Lease_active \<and> l_revision l = 0 \<and>
    l_kind l = ai_kind input \<and> l_resourceKey l = js_trim (ai_resourceKey input) \<and>
    l_workspaceId l = js_trim (ai_workspaceId input) \<and>
    l_ownerInstanceId l = js_trim (lo_ownerInstanceId (ai_owner input)) \<and>
    l_pid l = lo_pid (ai_owner input) \<and>
    l_processStartToken l = js_trim (lo_processStartToken (ai_owner input)) \<and>
    l_hostname l = js_trim (lo_hostname (ai_owner input)) \<and>
    l_expiresAt l = t + ai_leaseDurationMs input \<and>
    l_graceExpiresAt l = t + ai_leaseDurationMs input + ai_staleGraceMs input"
  using assms unfolding newLease_def and_then_Inr boundedText_def Let_def
  by (auto split: if_splits)

lemma active_row:
  assumes "lease_db_ok db" and "activeLease db w k r = Inr (Some l)"
  shows "lease_row db (l_id l) = Some l"
  using activeLease_Some [OF assms(2)] assms(1) by (simp add: find_row_in lease_db_ok_def table_ok_def)

lemma cas_and_read_row:
  assumes "lease_db_ok db" and "lease_row db (l_id c) = Some c" and "l_status c = Lease_active"
    and "extra c" and "cas_and_read db c extra f ev = Inr (db', l)"
  shows "l = f c"
proof -
  obtain db1 n where c: "lease_cas db c extra f = Inr (db1, n)" and "db' = leaseEvent db1 l ev"
    using assms(5) by (auto simp: cas_and_read_def result_simps split: if_splits option.splits)
  then show ?thesis
    using cas_row [OF assms(1-4) c] cas_and_read_Inr [OF assms(5)] by simp
qed

lemma renew_Inr:
  assumes "lease_db_ok db" and "renewDurableLease db i ow d g t = Inr (db', l)"
  shows "\<exists>c. lease_row db i = Some c \<and> l_status c = Lease_active \<and> sameOwner c ow \<and>
    l = c\<lparr>l_renewedAt := t, l_expiresAt := t + d, l_graceExpiresAt := t + d + g,
          l_revision := l_revision c + 1\<rparr> \<and>
    lease_row db' i = Some l \<and> valid_lease l"
proof -
  obtain c where c: "lease_row db i = Some c" "l_status c = Lease_active" "sameOwner c ow"
    and cas: "cas_and_read db c (\<lambda>_. True)
             (\<lambda>l. l\<lparr>l_renewedAt := t, l_expiresAt := t + d,
                    l_graceExpiresAt := t + d + g,
                    l_revision := l_revision l + 1\<rparr>)
             ''lease.renewed'' = Inr (db', l)"
    using assms(2)
    by (auto simp: renewDurableLease_def and_then_def leaseById_Some split: sum.splits option.splits if_splits)
  have "l_id c = i"
    using find_row_Some [OF c(1)] by simp
  then show ?thesis
    using c cas_and_read_row [OF assms(1) _ c(2) _ cas] cas_and_read_Inr [OF cas] by simp
qed

definition stolen_by :: "lease \<Rightarrow> int \<Rightarrow> lease \<Rightarrow> lease" where
  "stolen_by c t l =
     c\<lparr>l_status := Lease_stolen, l_releasedAt := Some t, l_replacedByLeaseId := Some (l_id l),
       l_revision := l_revision c + 1\<rparr>"

lemma commit_fresh:
  assumes "acquire_commit db input scope None [] env = Inr (db', a)"
  shows "evolves db db' \<and> (\<forall>l disp ps. a = Acquired l disp ps \<longrightarrow> disp = None \<and>
    newLease input (case ai_id input of None \<Rightarrow> ae_freshId env | Some i \<Rightarrow> i) (ae_acquiredAt env) scope = Inr l \<and>
    lease_row db' (l_id l) = Some l)"
proof -
  obtain cur where cur: "activeLease db (ai_workspaceId input) (ai_kind input) (ai_resourceKey input) = Inr cur"
    using assms by (auto simp: acquire_commit_def result_simps)
  show ?thesis
  proof (cases cur)
    case (Some c)
    then show ?thesis
      using assms cur by (simp add: acquire_commit_def)
  next
    case None
    then obtain l db1 where "newLease input (case ai_id input of None \<Rightarrow> ae_freshId env | Some i \<Rightarrow> i) (ae_acquiredAt env) scope = Inr l"
      and "insertLease db l = Inr db1" and "db' = leaseEvent db1 l ''lease.acquired''" and "a = Acquired l None []"
      using assms cur by (auto simp: acquire_commit_def result_simps)
    then show ?thesis
      using evolves_insertLease [of db l db1] evolves_trans [of db db1 db'] row_after_insertLease [of db l db1] by simp
  qed
qed

lemma commit_steal:
  assumes "acquire_commit db input scope (Some ob) probes env = Inr (db', a)"
  shows "evolves db db' \<and> (\<forall>l disp ps. a = Acquired l disp ps \<longrightarrow>
    newLease input (case ai_id input of None \<Rightarrow> ae_freshId env | Some i \<Rightarrow> i) (ae_acquiredAt env) scope = Inr l \<and>
    lease_row db' (l_id l) = Some l \<and> map pr_status ps = map po_status probes \<and>
    ld_probes db' = ld_probes db @ ps \<and> map pr_sequence ps = [1..<1 + length probes] \<and>
    (lease_db_ok db \<longrightarrow> (\<exists>c. lease_row db (l_id c) = Some c \<and> l_status c = Lease_active \<and>
      l_id c = l_id ob \<and> l_revision c = l_revision ob \<and>
      lease_row db' (l_id c) = Some (stolen_by c (ae_acquiredAt env) l) \<and>
      list_all (probe_of c (lo_ownerInstanceId (ai_owner input))) ps \<and>
      disp = Some (stolen_by c (ae_acquiredAt env) l))))"
proof -
  obtain cur where cur: "activeLease db (ai_workspaceId input) (ai_kind input) (ai_resourceKey input) = Inr cur"
    using assms by (auto simp: acquire_commit_def result_simps)
  show ?thesis
  proof (cases "\<exists>c. cur = Some c \<and> l_id c = l_id ob \<and> l_revision c = l_revision ob")
    case False
    then show ?thesis
      using assms cur by (cases cur) (auto simp: acquire_commit_def)
  next
    case True
    then obtain c where c: "cur = Some c" "l_id c = l_id ob" "l_revision c = l_revision ob"
      by blast
    let ?f = "\<lambda>l r. r\<lparr>l_status := Lease_stolen, l_releasedAt := Some (ae_acquiredAt env),
                      l_replacedByLeaseId := Some (l_id l), l_revision := l_revision r + 1\<rparr>"
    obtain l db1 n where l: "newLease input (case ai_id input of None \<Rightarrow> ae_freshId env | Some i \<Rightarrow> i) (ae_acquiredAt env) scope = Inr l"
      and cas: "lease_cas db c (\<lambda>_. True) (?f l) = Inr (db1, n)"
      and rest: "(if n \<noteq> 1 then Inr (db1, Retry)
             else
               and_then (store_probes db1 c (lo_ownerInstanceId (ai_owner input)) env 1 probes) (\<lambda>(db2, ps).
               and_then (insertLease db2 l) (\<lambda>db3.
               and_then (leaseById db3 (l_id c)) (\<lambda>row.
               case row of
                 None \<Rightarrow> Inl leaseLost
               | Some displaced \<Rightarrow>
                   Inr (leaseEvent (leaseEvent db3 displaced ''lease.lost'') l ''lease.acquired'',
                        Acquired l (Some displaced) ps))))) = Inr (db', a)"
      using assms cur c by (auto simp: acquire_commit_def result_simps)
    show ?thesis
    proof (cases "n = 1")
      case False
      then show ?thesis
        using rest evolves_cas [OF cas] by simp
    next
      case True
      then obtain db2 ps db3 d where sp: "store_probes db1 c (lo_ownerInstanceId (ai_owner input)) env 1 probes = Inr (db2, ps)"
        and ins: "insertLease db2 l = Inr db3" and d: "leaseById db3 (l_id c) = Inr (Some d)"
        and db': "db' = leaseEvent (leaseEvent db3 d ''lease.lost'') l ''lease.acquired''"
        and a: "a = Acquired l (Some d) ps"
        using rest by (auto simp: result_simps split: option.splits)
      have ev: "evolves db db'"
        unfolding db' using evolves_cas [OF cas] store_probes_Inr [OF sp] evolves_insertLease [OF ins]
        by (meson evolves_event evolves_trans)
      have stolen: "d = stolen_by c (ae_acquiredAt env) l" if ok: "lease_db_ok db"
      proof -
        have row: "lease_row db (l_id c) = Some c" and act: "l_status c = Lease_active"
          using active_row [OF ok] activeLease_Some cur c(1) by auto
        have "lease_row db1 (l_id c) = Some (?f l c)"
          using cas_row [OF ok row act _ cas] by simp
        then have "lease_row db2 (l_id c) = Some (?f l c)"
          using store_probes_Inr [OF sp] by simp
        then have "lease_row db3 (l_id c) = Some (?f l c)"
          using ins by (auto simp: insertLease_def result_simps lease_table.find_insert insert_row_Inr)
        then show ?thesis
          using d by (simp add: leaseById_Some stolen_by_def)
      qed
      have ex: "\<exists>c'. lease_row db (l_id c') = Some c' \<and> l_status c' = Lease_active \<and>
          l_id c' = l_id ob \<and> l_revision c' = l_revision ob \<and>
          lease_row db' (l_id c') = Some (stolen_by c' (ae_acquiredAt env) l) \<and>
          list_all (probe_of c' (lo_ownerInstanceId (ai_owner input))) ps \<and>
          Some d = Some (stolen_by c' (ae_acquiredAt env) l)" if "lease_db_ok db"
        using d store_probes_rows [OF sp] active_row [OF that cur [unfolded c(1)]] activeLease_Some [OF cur [unfolded c(1)]]
          c stolen [OF that] by (intro exI [of _ c]) (simp add: db' leaseById_Some)
      have kept: "ld_probes db' = ld_probes db @ ps"
        using store_probes_rows [OF sp] ins cas
        by (auto simp: db' leaseEvent_def insertLease_def result_simps elim: cas_Inr)
      have "lease_row db' (l_id l) = Some l"
        using row_after_insertLease [OF ins] by (simp add: db')
      with ex ev l show ?thesis
        using store_probes_Inr [OF sp] store_probes_rows [OF sp] kept by (simp add: a)
    qed
  qed
qed

lemma confirm_stale_Inr:
  "confirm_stale probe n k = Inr rs \<Longrightarrow> length rs = n \<and> list_all negative_probe (map po_status rs)"
  by (induction n arbitrary: k rs) (auto simp: result_simps split: if_splits)

section \<open>Steps of the ledger\<close>

text \<open>One committed transaction of the lease operations.\<close>

inductive lease_step :: "lease_db \<Rightarrow> lease_db \<Rightarrow> bool" where
  step_renew: "renewDurableLease db i ow d g t = Inr (db', l) \<Longrightarrow> lease_step db db'"
| step_bind: "bindDurableLeaseRun db i ow r = Inr (db', l) \<Longrightarrow> lease_step db db'"
| step_release: "releaseDurableLease db i ow t = Inr (db', l) \<Longrightarrow> lease_step db db'"
| step_fresh: "acquire_commit db input scope None [] env = Inr (db', a) \<Longrightarrow> lease_step db db'"
| step_steal: "acquire_commit db input scope (Some ob) probes env = Inr (db', a) \<Longrightarrow> lease_step db db'"

abbreviation lease_steps :: "lease_db \<Rightarrow> lease_db \<Rightarrow> bool" where
  "lease_steps \<equiv> lease_step\<^sup>*\<^sup>*"

lemma lease_step_evolves: "lease_step db db' \<Longrightarrow> evolves db db'"
  by (induction rule: lease_step.induct)
     (auto dest: evolves_renew evolves_bind evolves_release commit_fresh commit_steal)

lemma lease_steps_evolve: "lease_steps db db' \<Longrightarrow> evolves db db'"
  by (induction rule: rtranclp_induct) (auto dest: lease_step_evolves intro: evolves_trans)

definition others_step :: "attempt_env \<Rightarrow> bool" where
  "others_step env \<longleftrightarrow> (\<forall>db. lease_steps db (ae_before env db) \<and> lease_steps db (ae_interference env db))"

text \<open>What an acquisition returns, given the ledger it leaves.\<close>

definition acquired_row :: "acquire_input \<Rightarrow> lease_db \<Rightarrow> lease \<Rightarrow> bool" where
  "acquired_row input db l \<longleftrightarrow>
     lease_row db (l_id l) = Some l \<and> valid_lease l \<and> l_status l = Lease_active \<and>
     (sameOwner l (ai_owner input) \<or>
      l_ownerInstanceId l = js_trim (lo_ownerInstanceId (ai_owner input)) \<and>
      l_pid l = lo_pid (ai_owner input) \<and>
      l_processStartToken l = js_trim (lo_processStartToken (ai_owner input)) \<and>
      l_hostname l = js_trim (lo_hostname (ai_owner input)))"

text \<open>
  An acquisition that displaced a lease, in the ledger \<open>db\<close> it leaves: \<open>found\<close> is the ledger its
  transaction found, \<open>c\<close> the lease it displaced.
\<close>

definition justified ::
  "acquire_input \<Rightarrow> bool \<Rightarrow> nat \<Rightarrow> attempt_env \<Rightarrow> lease_db \<Rightarrow> lease \<Rightarrow> lease option \<Rightarrow> lease_probe list \<Rightarrow> bool" where
  "justified input canProbe confirmations env db l disp ps \<longleftrightarrow>
     (\<forall>d. disp = Some d \<longrightarrow>
        (\<exists>c found. l_status c = Lease_active \<and> \<not> sameOwner c (ai_owner input) \<and>
           l_graceExpiresAt c \<le> ae_observedNow env \<and> canProbe \<and>
           lease_row found (l_id c) = Some c \<and>
           d = stolen_by c (ae_acquiredAt env) l \<and> lease_row db (l_id c) = Some d \<and>
           ld_probes db = ld_probes found @ ps \<and> map pr_sequence ps = [1..<1 + confirmations] \<and>
           list_all (probe_of c (lo_ownerInstanceId (ai_owner input))) ps \<and>
           list_all (\<lambda>p. negative_probe (pr_status p)) ps))"

lemma attempt_acquired:
  assumes env: "others_step env" and ok: "lease_db_ok db0"
    and "acquire_attempt db0 input scope conf cp env = (db', r)"
  shows "evolves db0 db' \<and> (\<forall>l disp ps. r = Inr (Acquired l disp ps) \<longrightarrow>
    acquired_row input db' l \<and> justified input cp conf env db' l disp ps)"
proof -
  let ?db = "ae_before env db0"
  let ?di = "ae_interference env ?db"
  have e1: "evolves db0 ?db" and e2: "evolves ?db ?di"
    using env lease_steps_evolve by (simp_all add: others_step_def)
  have e: "evolves db0 ?di" and okb: "lease_db_ok ?db" and oki: "lease_db_ok ?di"
    using evolves_trans [OF e1 e2] e1 e2 ok by (simp_all add: evolves_def)
  show ?thesis
  proof (cases "readActiveDurableLease ?db (ai_workspaceId input) (ai_kind input) (ai_resourceKey input)")
    case (Inl x)
    then show ?thesis
      using assms(3) e1 by (auto simp: acquire_attempt_def Let_def)
  next
    case (Inr observed)
    show ?thesis
    proof (cases observed)
      case None
      show ?thesis
      proof (cases "acquire_commit ?di input scope None [] env")
        case (Inl x)
        then show ?thesis
          using assms(3) e Inr None by (auto simp: acquire_attempt_def Let_def)
      next
        case (Inr y)
        obtain d2 a where y: "y = (d2, a)" by (cases y)
        note c = commit_fresh [OF Inr [unfolded y]]
        have "db' = d2" "r = Inr a"
          using assms(3) Inr \<open>readActiveDurableLease _ _ _ _ = _\<close> None y
          by (auto simp: acquire_attempt_def Let_def)
        then show ?thesis
          using c evolves_trans [OF e] newLease_Inr
          by (auto simp: acquired_row_def justified_def)
      qed
    next
      case (Some c)
      note obs = Inr [unfolded Some]
      have crow: "lease_row ?db (l_id c) = Some c" and cact: "l_status c = Lease_active"
        using active_row [OF okb] activeLease_Some obs unfolding readActiveDurableLease_def by blast+
      show ?thesis
      proof (cases "sameOwner c (ai_owner input)")
        case own: True
        show ?thesis
        proof (cases "renewDurableLease ?di (l_id c) (ai_owner input) (ai_leaseDurationMs input)
                       (ai_staleGraceMs input) (ae_acquiredAt env)")
          case (Inl x)
          then show ?thesis
            using assms(3) e e1 obs own by (auto simp: acquire_attempt_def Let_def split: if_splits)
        next
          case (Inr y)
          obtain d2 l where y: "y = (d2, l)" by (cases y)
          note rn = Inr [unfolded y]
          obtain c' where "sameOwner c' (ai_owner input)" "l_status c' = Lease_active" "lease_row d2 (l_id c) = Some l"
            "l = c'\<lparr>l_renewedAt := ae_acquiredAt env, l_expiresAt := ae_acquiredAt env + ai_leaseDurationMs input,
               l_graceExpiresAt := ae_acquiredAt env + ai_leaseDurationMs input + ai_staleGraceMs input,
               l_revision := l_revision c' + 1\<rparr>" "valid_lease l"
            using renew_Inr [OF oki rn] by blast
          moreover from this have "l_id l = l_id c"
            using find_row_Some [of l_id "ld_leases d2" "l_id c" l] by simp
          ultimately have "acquired_row input d2 l"
            by (simp add: acquired_row_def sameOwner_def)
          then show ?thesis
            using assms(3) e1 obs own rn evolves_trans [OF e evolves_renew [OF rn]]
            by (auto simp: acquire_attempt_def Let_def justified_def split: if_splits)
        qed
      next
        case other: False
        show ?thesis
        proof (cases "stale_owner_probes c cp conf env")
          case (Inl x)
          then show ?thesis
            using assms(3) e1 obs other by (auto simp: acquire_attempt_def Let_def)
        next
          case probes: (Inr rs)
          then have stale: "l_graceExpiresAt c \<le> ae_observedNow env" "cp"
              "length rs = conf" "list_all negative_probe (map po_status rs)"
            using confirm_stale_Inr by (auto simp: stale_owner_probes_def split: if_splits)
          show ?thesis
          proof (cases "acquire_commit ?di input scope (Some c) rs env")
            case (Inl x)
            then show ?thesis
              using assms(3) e obs other probes by (auto simp: acquire_attempt_def Let_def)
          next
            case (Inr y)
            obtain d2 a where y: "y = (d2, a)" by (cases y)
            note com = commit_steal [OF Inr [unfolded y]]
            have ra: "db' = d2" "r = Inr a"
              using assms(3) Inr obs other probes y by (auto simp: acquire_attempt_def Let_def)
            have same: "c' = c" if "lease_row ?di (l_id c') = Some c'" "l_id c' = l_id c" "l_revision c' = l_revision c" for c'
            proof -
              obtain l' where "lease_row ?di (l_id c) = Some l'" "succeeds c l'"
                using e2 crow unfolding evolves_def by blast
              then show ?thesis
                using that by (simp add: succeeds_def)
            qed
            have "acquired_row input db' l \<and> justified input cp conf env db' l disp ps"
              if acq: "a = Acquired l disp ps" for l disp ps
            proof
              have n: "newLease input (case ai_id input of None \<Rightarrow> ae_freshId env | Some i \<Rightarrow> i) (ae_acquiredAt env) scope = Inr l"
                and row: "lease_row d2 (l_id l) = Some l" and st: "map pr_status ps = map po_status rs"
                and dis: "\<exists>c'. lease_row ?di (l_id c') = Some c' \<and> l_status c' = Lease_active \<and> l_id c' = l_id c \<and>
                  l_revision c' = l_revision c \<and> disp = Some (stolen_by c' (ae_acquiredAt env) l)"
                and kept: "ld_probes d2 = ld_probes ?di @ ps" "map pr_sequence ps = [1..<1 + length rs]"
                and own: "\<exists>c'. lease_row ?di (l_id c') = Some c' \<and> l_id c' = l_id c \<and> l_revision c' = l_revision c \<and>
                  lease_row d2 (l_id c') = Some (stolen_by c' (ae_acquiredAt env) l) \<and>
                  list_all (probe_of c' (lo_ownerInstanceId (ai_owner input))) ps"
                using com acq oki by auto
              show "acquired_row input db' l"
                using newLease_Inr [OF n] row by (simp add: acquired_row_def ra)
              have "disp = Some (stolen_by c (ae_acquiredAt env) l)"
                using dis same by blast
              moreover have "lease_row ?di (l_id c) = Some c"
                  "lease_row d2 (l_id c) = Some (stolen_by c (ae_acquiredAt env) l)"
                  "list_all (probe_of c (lo_ownerInstanceId (ai_owner input))) ps"
                using own same by blast+
              moreover have "length ps = conf \<and> list_all (\<lambda>p. negative_probe (pr_status p)) ps"
                using stale(3,4) st by (metis length_map list.pred_map comp_def list.pred_cong)
              ultimately show "justified input cp conf env db' l disp ps"
                using cact other stale(1,2) kept [unfolded stale(3)] unfolding justified_def ra by blast
            qed
            then show ?thesis
              using com evolves_trans [OF e] by (auto simp: ra)
          qed
        qed
      qed
    qed
  qed
qed

lemma loop_acquired:
  assumes "\<And>k. others_step (envs k)" and "lease_db_ok db"
    and "acquire_loop n db input scope conf cp envs = (db', r)"
  shows "evolves db db' \<and> (\<forall>l disp ps. r = Inr (Acquired l disp ps) \<longrightarrow>
    acquired_row input db' l \<and> (\<exists>k. justified input cp conf (envs k) db' l disp ps))"
  using assms(2,3)
proof (induction n arbitrary: db)
  case 0
  have "evolves db (ae_before (envs 0) db)"
    using assms(1) lease_steps_evolve by (simp add: others_step_def)
  then show ?case
    using 0 by (auto simp: Let_def split: sum.splits option.splits)
next
  case (Suc n)
  obtain d1 r1 where a: "acquire_attempt db input scope conf cp (envs (Suc n)) = (d1, r1)"
    by (cases "acquire_attempt db input scope conf cp (envs (Suc n))")
  note at = attempt_acquired [OF assms(1) Suc.prems(1) a]
  show ?case
  proof (cases "r1 = Inr Retry")
    case True
    then have "acquire_loop n d1 input scope conf cp envs = (db', r)"
      using Suc.prems(2) by (simp add: a)
    then have "evolves d1 db' \<and> (\<forall>l disp ps. r = Inr (Acquired l disp ps) \<longrightarrow>
        acquired_row input db' l \<and> (\<exists>k. justified input cp conf (envs k) db' l disp ps))"
      using Suc.IH at Suc.prems(1) by (auto simp: evolves_def)
    then show ?thesis
      using at evolves_trans by blast
  next
    case False
    then have "db' = d1" "r = r1"
      using Suc.prems(2) by (auto simp: a split: sum.splits acquired.splits)
    then show ?thesis
      using at by blast
  qed
qed

section \<open>Properties\<close>

definition sample_owner :: "string \<Rightarrow> lease_owner" where
  "sample_owner name =
     \<lparr>lo_ownerInstanceId = name, lo_pid = 7, lo_processStartToken = ''t'', lo_hostname = ''host''\<rparr>"

definition sample_acquire :: "string \<Rightarrow> acquire_input" where
  "sample_acquire name =
     \<lparr>ai_owner = sample_owner name, ai_id = None, ai_kind = Workspace_supervisor,
      ai_resourceKey = ''workspace-writer'', ai_workspaceId = ''ws'', ai_runId = None,
      ai_workerId = None, ai_command = ''run'', ai_scope = [''write''], ai_parentRunId = None,
      ai_parentWorkerId = None, ai_leaseDurationMs = 1000, ai_staleGraceMs = 500,
      ai_staleProbeConfirmations = None, ai_staleProbeIntervalMs = None\<rparr>"

definition sample_env :: "string \<Rightarrow> int \<Rightarrow> attempt_env" where
  "sample_env name now =
     \<lparr>ae_before = (\<lambda>db. db), ae_interference = (\<lambda>db. db), ae_observedNow = now,
      ae_probe = (\<lambda>_. \<lparr>po_status = Probe_dead, po_observedProcessStartToken = None, po_reason = ''gone''\<rparr>),
      ae_acquiredAt = now, ae_freshId = name,
      ae_probeId = (\<lambda>k. if k = 1 then ''p1'' else ''p2''), ae_probeAt = (\<lambda>_. now)\<rparr>"

definition sample_lease :: lease where
  "sample_lease =
     \<lparr>l_id = ''la'', l_kind = Workspace_supervisor, l_resourceKey = ''workspace-writer'',
      l_workspaceId = ''ws'', l_runId = None, l_ownerInstanceId = ''a'', l_workerId = None, l_pid = 7,
      l_processStartToken = ''t'', l_hostname = ''host'', l_command = ''run'', l_scope = [''write''],
      l_parentRunId = None, l_parentWorkerId = None, l_acquiredAt = 0, l_renewedAt = 0,
      l_expiresAt = 1000, l_graceExpiresAt = 1500, l_status = Lease_active, l_revision = 0,
      l_releasedAt = None, l_replacedByLeaseId = None\<rparr>"

definition sample_lease_db :: lease_db where
  "sample_lease_db = \<lparr>ld_leases = [sample_lease], ld_probes = [], ld_events = []\<rparr>"

lemma sample_others: "others_step (sample_env name now)"
  by (simp add: others_step_def sample_env_def)

lemma sample_lease_db_ok: "lease_db_ok sample_lease_db"
  unfolding lease_db_ok_def table_ok_def by (intro conjI; code_simp)

text \<open>An acquisition whose first attempt gets the lease.\<close>

lemma sample_acquire_first:
  assumes "acquire_attempt db (sample_acquire name) [''write''] 2 cp (envs 3) = (db', Inr (Acquired l d ps))"
  shows "acquireDurableLease db (sample_acquire name) cp envs = (db', Inr (Acquired l d ps))"
proof -
  have "canonicalScope [''write''] = Inr [''write'']"
    by code_simp
  moreover have "acquire_loop 3 db (sample_acquire name) [''write''] 2 cp envs = (db', Inr (Acquired l d ps))"
    using assms by (simp add: numeral_3_eq_3 eval_nat_numeral)
  ultimately show ?thesis
    by (simp add: acquireDurableLease_def sample_acquire_def lease_duration_def safe_int_def)
qed

lemma sample_takeover:
  "\<exists>db' l d ps. acquireDurableLease sample_lease_db (sample_acquire ''b'') True (\<lambda>_. sample_env ''lb'' 1500)
     = (db', Inr (Acquired l (Some d) ps)) \<and> lease_row db' ''la'' = Some d \<and> l_status d = Lease_stolen"
proof -
  have "case acquire_attempt sample_lease_db (sample_acquire ''b'') [''write''] 2 True (sample_env ''lb'' 1500) of
      (db', Inr (Acquired l (Some d) ps)) \<Rightarrow> lease_row db' ''la'' = Some d \<and> l_status d = Lease_stolen
    | _ \<Rightarrow> False"
    by code_simp
  then obtain db' l d ps where a: "acquire_attempt sample_lease_db (sample_acquire ''b'') [''write''] 2 True
      (sample_env ''lb'' 1500) = (db', Inr (Acquired l (Some d) ps))"
    and d: "lease_row db' ''la'' = Some d" "l_status d = Lease_stolen"
    by (auto split: prod.splits sum.splits acquired.splits option.splits)
  show ?thesis
    using sample_acquire_first [OF a] d by blast
qed

text \<open>
  C2. One writer at a time: in every ledger the lease operations can reach from an empty one,
  two ownership assertions that succeed on the same resource name the same lease and the same
  process.
\<close>

theorem writers_are_exclusive:
  assumes "lease_steps empty_lease_db db"
    and "assertDurableLeaseOwned db i ow t = Inr l" and "assertDurableLeaseOwned db i' ow' t' = Inr l'"
    and "same_resource l l'"
  shows "i = i' \<and> l = l' \<and> lo_ownerInstanceId ow = lo_ownerInstanceId ow' \<and>
    lo_pid ow = lo_pid ow' \<and> lo_processStartToken ow = lo_processStartToken ow'"
proof -
  have "lease_db_ok db"
    using lease_steps_evolve [OF assms(1)] empty_lease_db_ok by (simp add: evolves_def)
  then have idx: "distinct (map (\<lambda>l. (l_workspaceId l, l_kind l, l_resourceKey l))
       (filter (\<lambda>l. l_status l = Lease_active) (ld_leases db)))"
    by (simp add: lease_db_ok_def table_ok_def lease_index_def)
  have l: "lease_row db i = Some l" "l_status l = Lease_active" "sameOwner l ow"
    using assms(2)
    by (auto simp: assertDurableLeaseOwned_def readDurableLease_def and_then_def leaseById_Some
        split: sum.splits option.splits if_splits)
  have l': "lease_row db i' = Some l'" "l_status l' = Lease_active" "sameOwner l' ow'"
    using assms(3)
    by (auto simp: assertDurableLeaseOwned_def readDurableLease_def and_then_def leaseById_Some
        split: sum.splits option.splits if_splits)
  have "l = l'"
    using idx l l' find_row_Some [OF l(1)] find_row_Some [OF l'(1)] assms(4)
    by (auto simp: distinct_map inj_on_def same_resource_def)
  then show ?thesis
    using l(3) l'(3) find_row_Some [OF l(1)] find_row_Some [OF l'(1)] by (auto simp: sameOwner_def)
qed

theorem writers_are_exclusive_witness:
  "\<exists>db l. lease_steps empty_lease_db db \<and>
     assertDurableLeaseOwned db ''la'' (sample_owner ''a'') 10 = Inr l \<and> same_resource l l"
proof -
  have c: "ok (acquire_commit empty_lease_db (sample_acquire ''a'') [''write''] None [] (sample_env ''la'' 0))"
    by code_simp
  then obtain db a where s: "acquire_commit empty_lease_db (sample_acquire ''a'') [''write''] None [] (sample_env ''la'' 0) = Inr (db, a)"
    by (auto simp: ok_iff)
  have run: "lease_steps empty_lease_db db"
    using step_fresh [OF s] by blast
  have "ok (and_then (acquire_commit empty_lease_db (sample_acquire ''a'') [''write''] None [] (sample_env ''la'' 0))
      (\<lambda>(db, _). assertDurableLeaseOwned db ''la'' (sample_owner ''a'') 10))"
    by code_simp
  then obtain l where "assertDurableLeaseOwned db ''la'' (sample_owner ''a'') 10 = Inr l"
    by (auto simp: ok_iff s)
  moreover have "same_resource l l"
    by (simp add: same_resource_def)
  ultimately show ?thesis
    using writers_are_exclusive [OF run] run by blast
qed



text \<open>
  A held lease is respected: while the clock is before the grace deadline of an active lease
  of another process, an acquisition fails with the conflict error and commits nothing.
\<close>

theorem held_lease_is_respected:
  assumes "ae_before (envs 3) db = db"
    and "readActiveDurableLease db (ai_workspaceId input) (ai_kind input) (ai_resourceKey input) = Inr (Some c)"
    and "\<not> sameOwner c (ai_owner input)" and "ae_observedNow (envs 3) < l_graceExpiresAt c"
  shows "\<exists>e. acquireDurableLease db input cp envs = (db, Inl e) \<and>
    (e = leaseConflict \<or> e = lease_invalid)"
proof -
  have at: "acquire_attempt db input scope conf cp (envs 3) = (db, Inl leaseConflict)" for scope conf
    using assms by (simp add: acquire_attempt_def stale_owner_probes_def)
  have "acquire_loop 3 db input scope conf cp envs = (db, Inl leaseConflict)" for scope conf
    using at [of scope conf] by (simp add: numeral_3_eq_3 eval_nat_numeral)
  moreover have "canonicalScope xs = Inl e \<Longrightarrow> e = lease_invalid" for xs e
    by (auto simp: canonicalScope_def Let_def split: if_splits)
  ultimately show ?thesis
    by (auto simp: acquireDurableLease_def and_then_def lease_duration_def split: sum.splits if_splits)
qed

theorem held_lease_is_respected_witness:
  "\<exists>e. acquireDurableLease sample_lease_db (sample_acquire ''b'') True (\<lambda>_. sample_env ''lb'' 1499)
      = (sample_lease_db, Inl e)"
proof -
  have "case readActiveDurableLease sample_lease_db ''ws'' Workspace_supervisor ''workspace-writer'' of
      Inr (Some c) \<Rightarrow> \<not> sameOwner c (sample_owner ''b'') \<and> 1499 < l_graceExpiresAt c | _ \<Rightarrow> False"
    by code_simp
  then obtain c where "readActiveDurableLease sample_lease_db ''ws'' Workspace_supervisor ''workspace-writer'' = Inr (Some c)"
    "\<not> sameOwner c (sample_owner ''b'')" "1499 < l_graceExpiresAt c"
    by (auto split: sum.splits option.splits)
  then show ?thesis
    using held_lease_is_respected [of "\<lambda>_. sample_env ''lb'' 1499" sample_lease_db "sample_acquire ''b''" c True]
    by (auto simp: sample_env_def sample_acquire_def)
qed

text \<open>
  C25. A displaced or released writer is fenced off: once a lease is not active, no later
  renewal, run binding or ownership assertion with its id succeeds, for any owner, in any ledger
  the lease operations reach.
\<close>

theorem terminal_lease_is_fenced:
  assumes "lease_row db i = Some l" and "l_status l \<noteq> Lease_active" and "lease_steps db db'"
  shows "lease_row db' i = Some l \<and> \<not> ok (renewDurableLease db' i ow d g t) \<and>
    \<not> ok (bindDurableLeaseRun db' i ow r) \<and> \<not> ok (assertDurableLeaseOwned db' i ow t)"
proof -
  obtain l' where "lease_row db' i = Some l'" "succeeds l l'"
    using lease_steps_evolve [OF assms(3)] assms(1) unfolding evolves_def by blast
  then have row: "lease_row db' i = Some l"
    using assms(2) by (simp add: succeeds_def)
  then have "leaseById db' i = Inr (Some l) \<or> leaseById db' i = Inl ZodError"
    by (simp add: leaseById_def read_lease_def)
  then show ?thesis
    using row assms(2)
    by (auto simp: renewDurableLease_def bindDurableLeaseRun_def assertDurableLeaseOwned_def
        readDurableLease_def ok_iff result_simps)
qed

theorem terminal_lease_is_fenced_witness:
  "\<exists>db' r. acquireDurableLease sample_lease_db (sample_acquire ''b'') True (\<lambda>_. sample_env ''lb'' 1500)
     = (db', Inr r) \<and> \<not> ok (assertDurableLeaseOwned db' ''la'' (sample_owner ''a'') 10)"
proof -
  obtain db' l d ps where r: "acquireDurableLease sample_lease_db (sample_acquire ''b'') True
      (\<lambda>_. sample_env ''lb'' 1500) = (db', Inr (Acquired l (Some d) ps))"
    and d: "lease_row db' ''la'' = Some d" "l_status d \<noteq> Lease_active"
    using sample_takeover by auto
  show ?thesis
    using terminal_lease_is_fenced [OF d rtranclp.rtrancl_refl] r by blast
qed

text \<open>
  An acquisition delivers ownership: for an owner identity without surrounding white space,
  the lease returned is in the ledger, active and the caller's, and its ownership assertion
  succeeds at every instant before it expires.
\<close>

theorem acquired_lease_is_owned:
  assumes "\<And>k. others_step (envs k)" and "lease_db_ok db"
    and "acquireDurableLease db input cp envs = (db', Inr (Acquired l disp ps))"
    and "js_trim (lo_ownerInstanceId (ai_owner input)) = lo_ownerInstanceId (ai_owner input)"
    and "js_trim (lo_processStartToken (ai_owner input)) = lo_processStartToken (ai_owner input)"
    and "js_trim (lo_hostname (ai_owner input)) = lo_hostname (ai_owner input)"
    and "t < l_expiresAt l"
  shows "lease_db_ok db' \<and> assertDurableLeaseOwned db' (l_id l) (ai_owner input) t = Inr l"
proof -
  let ?conf = "case ai_staleProbeConfirmations input of None \<Rightarrow> 2 | Some n \<Rightarrow> n"
  obtain scope where loop: "acquire_loop 3 db input scope (nat ?conf) cp envs = (db', Inr (Acquired l disp ps))"
    using assms(3)
    by (auto simp: acquireDurableLease_def and_then_def lease_duration_def simp del: acquire_loop.simps
        split: sum.splits if_splits)
  have "evolves db db'" and row: "acquired_row input db' l"
    using loop_acquired [OF assms(1,2) loop] by auto
  then have "lease_db_ok db'"
    using assms(2) by (simp add: evolves_def)
  moreover have "sameOwner l (ai_owner input)"
    using row assms(4-6) by (auto simp: acquired_row_def sameOwner_def)
  moreover have "leaseById db' (l_id l) = Inr (Some l)"
    using row by (simp add: acquired_row_def leaseById_Some)
  ultimately show ?thesis
    using row assms(7) by (simp add: assertDurableLeaseOwned_def readDurableLease_def acquired_row_def)
qed

theorem acquired_lease_is_owned_witness:
  "\<exists>db' l. acquireDurableLease empty_lease_db (sample_acquire ''a'') False (\<lambda>_. sample_env ''la'' 0)
      = (db', Inr (Acquired l None [])) \<and>
     assertDurableLeaseOwned db' ''la'' (sample_owner ''a'') 999 = Inr l"
proof -
  have "case acquire_attempt empty_lease_db (sample_acquire ''a'') [''write''] 2 False (sample_env ''la'' 0) of
      (db', Inr (Acquired l None [])) \<Rightarrow> l_id l = ''la'' \<and> 999 < l_expiresAt l | _ \<Rightarrow> False"
    by code_simp
  then obtain db' l where a: "acquire_attempt empty_lease_db (sample_acquire ''a'') [''write''] 2 False
      (sample_env ''la'' 0) = (db', Inr (Acquired l None []))" and l: "l_id l = ''la''" "999 < l_expiresAt l"
    by (auto split: prod.splits sum.splits acquired.splits option.splits list.splits)
  have e: "acquireDurableLease empty_lease_db (sample_acquire ''a'') False (\<lambda>_. sample_env ''la'' 0)
      = (db', Inr (Acquired l None []))"
    using a by (rule sample_acquire_first)
  have t: "js_trim (lo_ownerInstanceId (ai_owner (sample_acquire ''a''))) = lo_ownerInstanceId (ai_owner (sample_acquire ''a''))"
    "js_trim (lo_processStartToken (ai_owner (sample_acquire ''a''))) = lo_processStartToken (ai_owner (sample_acquire ''a''))"
    "js_trim (lo_hostname (ai_owner (sample_acquire ''a''))) = lo_hostname (ai_owner (sample_acquire ''a''))"
    by code_simp+
  have "ai_owner (sample_acquire ''a'') = sample_owner ''a''"
    by (simp add: sample_acquire_def)
  then show ?thesis
    using acquired_lease_is_owned [OF sample_others empty_lease_db_ok e t l(2)] e l(1) by auto
qed

end
