(* ===== verification/ResourceClaims.thy ===== *)
theory ResourceClaims
  imports Leases "HOL-Library.Sublist"
begin

text \<open>
  \<^verbatim>\<open>packages/persistence/src/resource-claims.ts\<close> with the claim tables, constraints and
  triggers of \<^verbatim>\<open>ledger.ts\<close> (schema v11) and the claim schemas of
  \<^verbatim>\<open>domain/parallel.ts\<close>: the conflict relation, the normalisation of requests,
  acquisition, renewal, expansion, and the three ways a set of claims ends. Each operation is one
  immediate transaction. \<^verbatim>\<open>process.platform === "win32"\<close> is the argument \<open>win\<close>; the
  collation of \<^verbatim>\<open>localeCompare\<close> is the argument \<open>collate\<close>; a claim's metadata is its
  JSON text.
\<close>

section \<open>Records\<close>

datatype claim_kind =
    Claim_task | Claim_path | Claim_artifact | Claim_port | Claim_worktree | Claim_branch
  | Claim_integration_target

datatype claim_mode = Exclusive | Shared_read

datatype claim_status = Claim_active | Claim_released | Claim_expired

fun kind_name :: "claim_kind \<Rightarrow> string" where
  "kind_name Claim_task = ''task''"
| "kind_name Claim_path = ''path''"
| "kind_name Claim_artifact = ''artifact''"
| "kind_name Claim_port = ''port''"
| "kind_name Claim_worktree = ''worktree''"
| "kind_name Claim_branch = ''branch''"
| "kind_name Claim_integration_target = ''integration-target''"

fun mode_name :: "claim_mode \<Rightarrow> string" where
  "mode_name Exclusive = ''exclusive''"
| "mode_name Shared_read = ''shared-read''"

record claim_spec =
  cs_kind :: claim_kind
  cs_resourceKey :: string
  cs_mode :: claim_mode
  cs_metadata :: string

record claim =
  cl_id :: string
  cl_claimSetId :: string
  cl_workspaceId :: string
  cl_runId :: string
  cl_documentId :: string
  cl_taskId :: string
  cl_attemptId :: string
  cl_workerId :: string
  cl_spec :: claim_spec
  cl_status :: claim_status
  cl_acquiredAt :: int
  cl_renewedAt :: int
  cl_expiresAt :: int
  cl_graceExpiresAt :: int
  cl_revision :: nat
  cl_releasedAt :: "int option"
  cl_releaseReason :: "string option"

record claim_owner =
  co_ownerInstanceId :: string
  co_workerId :: string
  co_pid :: int
  co_processStartToken :: string
  co_hostname :: string

record claim_set =
  st_id :: string
  st_workspaceId :: string
  st_runId :: string
  st_documentId :: string
  st_taskId :: string
  st_attemptId :: string
  st_owner :: claim_owner
  st_status :: claim_status
  st_acquiredAt :: int
  st_renewedAt :: int
  st_expiresAt :: int
  st_graceExpiresAt :: int
  st_revision :: nat
  st_releasedAt :: "int option"
  st_releaseReason :: "string option"

text \<open>A set as the operations return it: its row and its claims.\<close>

type_synonym set_record = "claim_set \<times> claim list"

record claim_event =
  cev_type :: string
  cev_claimSetId :: string
  cev_revision :: nat

record claim_db =
  cd_runs :: "string list"
  cd_leases :: "lease list"
  cd_sets :: "claim_set list"
  cd_claims :: "claim list"
  cd_events :: "claim_event list"

section \<open>Schemas\<close>

text \<open>\<^verbatim>\<open>trim().min(1).max(n)\<close>; what the parse returns is trimmed.\<close>

definition text_ok :: "nat \<Rightarrow> string \<Rightarrow> bool" where
  "text_ok n s \<longleftrightarrow> js_trim s \<noteq> [] \<and> length (js_trim s) \<le> n"

definition text_ok_opt :: "nat \<Rightarrow> string option \<Rightarrow> bool" where
  "text_ok_opt n s \<longleftrightarrow> (case s of None \<Rightarrow> True | Some x \<Rightarrow> text_ok n x)"

definition trim_spec :: "claim_spec \<Rightarrow> claim_spec" where
  "trim_spec s = s\<lparr>cs_resourceKey := js_trim (cs_resourceKey s)\<rparr>"

definition parse_spec :: "claim_spec \<Rightarrow> claim_spec result" where
  "parse_spec s = (if text_ok 4096 (cs_resourceKey s) then Inr (trim_spec s) else Inl ZodError)"

definition trim_claim :: "claim \<Rightarrow> claim" where
  "trim_claim c =
     c\<lparr>cl_id := js_trim (cl_id c), cl_claimSetId := js_trim (cl_claimSetId c),
       cl_workspaceId := js_trim (cl_workspaceId c), cl_runId := js_trim (cl_runId c),
       cl_documentId := js_trim (cl_documentId c), cl_taskId := js_trim (cl_taskId c),
       cl_attemptId := js_trim (cl_attemptId c), cl_workerId := js_trim (cl_workerId c),
       cl_spec := trim_spec (cl_spec c), cl_releaseReason := map_option js_trim (cl_releaseReason c)\<rparr>"

definition parse_claim :: "claim \<Rightarrow> claim result" where
  "parse_claim c =
     (if text_ok 512 (cl_id c) \<and> text_ok 512 (cl_claimSetId c) \<and> text_ok 512 (cl_workspaceId c) \<and>
         text_ok 512 (cl_runId c) \<and> text_ok 512 (cl_documentId c) \<and> text_ok 512 (cl_taskId c) \<and>
         text_ok 512 (cl_attemptId c) \<and> text_ok 512 (cl_workerId c) \<and>
         text_ok 4096 (cs_resourceKey (cl_spec c)) \<and> safe_int (int (cl_revision c)) \<and>
         text_ok_opt 4096 (cl_releaseReason c)
      then Inr (trim_claim c) else Inl ZodError)"

definition trim_owner :: "claim_owner \<Rightarrow> claim_owner" where
  "trim_owner w =
     w\<lparr>co_ownerInstanceId := js_trim (co_ownerInstanceId w), co_workerId := js_trim (co_workerId w),
       co_processStartToken := js_trim (co_processStartToken w),
       co_hostname := js_trim (co_hostname w)\<rparr>"

definition trim_set :: "claim_set \<Rightarrow> claim_set" where
  "trim_set s =
     s\<lparr>st_id := js_trim (st_id s), st_workspaceId := js_trim (st_workspaceId s),
       st_runId := js_trim (st_runId s), st_documentId := js_trim (st_documentId s),
       st_taskId := js_trim (st_taskId s), st_attemptId := js_trim (st_attemptId s),
       st_owner := trim_owner (st_owner s),
       st_releaseReason := map_option js_trim (st_releaseReason s)\<rparr>"

text \<open>The claims are parsed before they are put in a set.\<close>

definition parse_set :: "claim_set \<Rightarrow> claim list \<Rightarrow> set_record result" where
  "parse_set s cs =
     (if text_ok 512 (st_id s) \<and> text_ok 512 (st_workspaceId s) \<and> text_ok 512 (st_runId s) \<and>
         text_ok 512 (st_documentId s) \<and> text_ok 512 (st_taskId s) \<and> text_ok 512 (st_attemptId s) \<and>
         text_ok 512 (co_workerId (st_owner s)) \<and> text_ok 512 (co_ownerInstanceId (st_owner s)) \<and>
         safe_int (co_pid (st_owner s)) \<and> 0 < co_pid (st_owner s) \<and>
         text_ok 4096 (co_processStartToken (st_owner s)) \<and> text_ok 512 (co_hostname (st_owner s)) \<and>
         safe_int (int (st_revision s)) \<and> text_ok_opt 4096 (st_releaseReason s) \<and>
         1 \<le> length cs \<and> length cs \<le> 1024
      then Inr (trim_set s, cs) else Inl ZodError)"

section \<open>The tables\<close>

definition set_check :: "claim_set \<Rightarrow> bool" where
  "set_check s \<longleftrightarrow>
     between 512 (st_id s) \<and> between 512 (st_workspaceId s) \<and> between 512 (st_documentId s) \<and>
     between 512 (st_taskId s) \<and> between 512 (st_attemptId s) \<and>
     between 512 (co_workerId (st_owner s)) \<and> between 512 (co_ownerInstanceId (st_owner s)) \<and>
     0 < co_pid (st_owner s) \<and> between 4096 (co_processStartToken (st_owner s)) \<and>
     between 512 (co_hostname (st_owner s)) \<and> between_opt 4096 (st_releaseReason s) \<and>
     st_acquiredAt s \<le> st_renewedAt s \<and> st_renewedAt s < st_expiresAt s \<and>
     st_expiresAt s \<le> st_graceExpiresAt s \<and>
     (if st_status s = Claim_active then st_releasedAt s = None \<and> st_releaseReason s = None
      else st_releasedAt s \<noteq> None \<and> st_releaseReason s \<noteq> None)"

definition claim_check :: "claim \<Rightarrow> bool" where
  "claim_check c \<longleftrightarrow>
     between 512 (cl_id c) \<and> between 512 (cl_workspaceId c) \<and> between 512 (cl_documentId c) \<and>
     between 512 (cl_taskId c) \<and> between 512 (cl_attemptId c) \<and> between 512 (cl_workerId c) \<and>
     between 512 (cs_resourceKey (cl_spec c)) \<and> length (cs_metadata (cl_spec c)) \<le> 131072 \<and>
     between_opt 4096 (cl_releaseReason c) \<and>
     cl_acquiredAt c \<le> cl_renewedAt c \<and> cl_renewedAt c < cl_expiresAt c \<and>
     cl_expiresAt c \<le> cl_graceExpiresAt c \<and>
     (if cl_status c = Claim_active then cl_releasedAt c = None \<and> cl_releaseReason c = None
      else cl_releasedAt c \<noteq> None \<and> cl_releaseReason c \<noteq> None)"

definition set_guard :: "claim_set \<Rightarrow> claim_set \<Rightarrow> bool" where
  "set_guard old new \<longleftrightarrow>
     st_id new = st_id old \<and> st_workspaceId new = st_workspaceId old \<and> st_runId new = st_runId old \<and>
     st_documentId new = st_documentId old \<and> st_taskId new = st_taskId old \<and>
     st_attemptId new = st_attemptId old \<and> st_owner new = st_owner old \<and>
     st_acquiredAt new = st_acquiredAt old \<and>
     st_status old = Claim_active \<and> st_revision new = st_revision old + 1 \<and>
     st_renewedAt old \<le> st_renewedAt new \<and>
     (if st_status new = Claim_active then st_releasedAt new = None \<and> st_releaseReason new = None
      else st_releasedAt new \<noteq> None \<and> st_releaseReason new \<noteq> None)"

definition claim_guard :: "claim \<Rightarrow> claim \<Rightarrow> bool" where
  "claim_guard old new \<longleftrightarrow>
     cl_id new = cl_id old \<and> cl_claimSetId new = cl_claimSetId old \<and>
     cl_workspaceId new = cl_workspaceId old \<and> cl_runId new = cl_runId old \<and>
     cl_documentId new = cl_documentId old \<and> cl_taskId new = cl_taskId old \<and>
     cl_attemptId new = cl_attemptId old \<and> cl_workerId new = cl_workerId old \<and>
     cl_spec new = cl_spec old \<and> cl_acquiredAt new = cl_acquiredAt old \<and>
     cl_status old = Claim_active \<and> cl_revision new = cl_revision old + 1 \<and>
     cl_renewedAt old \<le> cl_renewedAt new \<and>
     (if cl_status new = Claim_active then cl_releasedAt new = None \<and> cl_releaseReason new = None
      else cl_releasedAt new \<noteq> None \<and> cl_releaseReason new \<noteq> None)"

definition no_index :: "'a list \<Rightarrow> bool" where
  "no_index rows \<longleftrightarrow> True"

text \<open>The order of \<^verbatim>\<open>ORDER BY kind, resource_key, id\<close>.\<close>

definition claim_before :: "claim \<Rightarrow> claim \<Rightarrow> bool" where
  "claim_before a b \<longleftrightarrow>
     (let ka = kind_name (cs_kind (cl_spec a)); kb = kind_name (cs_kind (cl_spec b));
          ra = cs_resourceKey (cl_spec a); rb = cs_resourceKey (cl_spec b)
      in ka < kb \<or> ka = kb \<and> (ra < rb \<or> ra = rb \<and> cl_id a \<le> cl_id b))"

definition claimFromRow :: "claim \<Rightarrow> claim result" where
  "claimFromRow row = parse_claim row"

fun all_results :: "('a \<Rightarrow> 'b result) \<Rightarrow> 'a list \<Rightarrow> 'b list result" where
  "all_results f [] = Inr []"
| "all_results f (x # xs) = and_then (f x) (\<lambda>y. and_then (all_results f xs) (\<lambda>ys. Inr (y # ys)))"

definition claimsForSet :: "claim_db \<Rightarrow> string \<Rightarrow> claim list result" where
  "claimsForSet db claimSetId =
     all_results claimFromRow (sort_by claim_before (filter (\<lambda>c. cl_claimSetId c = claimSetId) (cd_claims db)))"

definition setFromRow :: "claim_db \<Rightarrow> claim_set \<Rightarrow> set_record result" where
  "setFromRow db row = and_then (claimsForSet db (st_id row)) (\<lambda>cs. parse_set row cs)"

definition readSetRow :: "claim_db \<Rightarrow> string \<Rightarrow> claim_set option" where
  "readSetRow db claimSetId = find_row st_id (cd_sets db) claimSetId"

definition activeClaims :: "claim_db \<Rightarrow> string \<Rightarrow> claim list result" where
  "activeClaims db workspaceId =
     all_results claimFromRow
       (sort_by claim_before
          (filter (\<lambda>c. cl_workspaceId c = workspaceId \<and> cl_status c = Claim_active) (cd_claims db)))"

section \<open>Conflicts\<close>

definition comparable :: "bool \<Rightarrow> string \<Rightarrow> string" where
  "comparable win s = (if win then js_lower s else s)"

text \<open>\<^verbatim>\<open>replace(/\/+$/, "")\<close>\<close>

definition strip_slashes :: "string \<Rightarrow> string" where
  "strip_slashes s = rev (dropWhile (\<lambda>c. c = CHR ''/'') (rev s))"

definition pathPrefix :: "bool \<Rightarrow> string \<Rightarrow> string" where
  "pathPrefix win s =
     (let normalized = comparable win (strip_slashes (replace_char (CHR 0x5C) (CHR ''/'') s))
      in if ends_with normalized ''/**'' then strip_slashes (take (length normalized - 3) normalized)
         else normalized)"

definition pathClaimsOverlap :: "bool \<Rightarrow> string \<Rightarrow> string \<Rightarrow> bool" where
  "pathClaimsOverlap win left right \<longleftrightarrow>
     (let a = pathPrefix win left; b = pathPrefix win right
      in a = b \<or> starts_with a (b @ ''/'') \<or> starts_with b (a @ ''/''))"

definition resourceClaimModesConflict :: "claim_mode \<Rightarrow> claim_mode \<Rightarrow> bool" where
  "resourceClaimModesConflict requested active \<longleftrightarrow> requested = Exclusive \<or> active = Exclusive"

definition same_claim_resource :: "bool \<Rightarrow> claim_spec \<Rightarrow> claim_spec \<Rightarrow> bool" where
  "same_claim_resource win a b \<longleftrightarrow>
     (if cs_kind a = Claim_path then pathClaimsOverlap win (cs_resourceKey a) (cs_resourceKey b)
      else comparable win (cs_resourceKey a) = comparable win (cs_resourceKey b))"

definition claimsConflict :: "bool \<Rightarrow> claim_spec \<Rightarrow> claim \<Rightarrow> bool" where
  "claimsConflict win requested active \<longleftrightarrow>
     cs_kind requested = cs_kind (cl_spec active) \<and>
     same_claim_resource win requested (cl_spec active) \<and>
     (cs_mode requested = Exclusive \<or> cs_mode (cl_spec active) = Exclusive)"

definition resourceClaimsConflict :: "bool \<Rightarrow> claim_spec \<Rightarrow> claim \<Rightarrow> bool result" where
  "resourceClaimsConflict win requested active =
     and_then (parse_spec requested) (\<lambda>r. and_then (parse_claim active) (\<lambda>a.
     Inr (claimsConflict win r a)))"

section \<open>Requests\<close>

definition claim_invalid :: failure where
  "claim_invalid = RalphError ''RALPH_RESOURCE_CLAIM_INVALID'' Exit_invalidUsage"

definition bounded :: "string \<Rightarrow> nat \<Rightarrow> string result" where
  "bounded value maximum =
     (let normalized = js_trim value in
      if normalized = [] \<or> maximum < length normalized then Inl claim_invalid else Inr normalized)"

definition claim_duration :: "int \<Rightarrow> int \<Rightarrow> int result" where
  "claim_duration value minimum =
     (if \<not> safe_int value \<or> value < minimum \<or> 86400000 < value then Inl claim_invalid else Inr value)"

text \<open>\<^verbatim>\<open>/(^|\/)\.\.(\/|$)/\<close>: some segment is two dots.\<close>

definition parent_traversal :: "string \<Rightarrow> bool" where
  "parent_traversal s \<longleftrightarrow>
     List.member (split_on (CHR ''/'') (replace_char (CHR 0x5C) (CHR ''/'') s)) ''..''"

definition normalize_spec :: "claim_spec \<Rightarrow> claim_spec result" where
  "normalize_spec spec =
     and_then (parse_spec spec) (\<lambda>parsed.
     and_then (bounded (cs_resourceKey parsed) 4096) (\<lambda>resourceKey.
     if cs_kind parsed = Claim_path \<and> parent_traversal resourceKey then Inl claim_invalid
     else parse_spec (parsed\<lparr>cs_resourceKey := resourceKey\<rparr>)))"

text \<open>\<^verbatim>\<open>${kind}:${comparable(resourceKey)}:${mode}\<close>; neither name contains a colon.\<close>

definition spec_key :: "bool \<Rightarrow> claim_spec \<Rightarrow> claim_kind \<times> string \<times> claim_mode" where
  "spec_key win s = (cs_kind s, comparable win (cs_resourceKey s), cs_mode s)"

definition spec_text :: "claim_spec \<Rightarrow> string" where
  "spec_text s = kind_name (cs_kind s) @ '':'' @ cs_resourceKey s @ '':'' @ mode_name (cs_mode s)"

definition normalizeSpecs ::
  "bool \<Rightarrow> (string \<Rightarrow> string \<Rightarrow> bool) \<Rightarrow> claim_spec list \<Rightarrow> claim_spec list result" where
  "normalizeSpecs win collate specs =
     (if specs = [] \<or> 1024 < length specs then Inl claim_invalid
      else and_then (all_results normalize_spec specs) (\<lambda>normalized.
        if \<not> distinct (map (spec_key win) normalized) then Inl claim_invalid
        else Inr (sort_by (\<lambda>a b. collate (spec_text a) (spec_text b)) normalized)))"

definition claim_same_owner :: "bool \<Rightarrow> claim_set \<Rightarrow> claim_owner \<Rightarrow> bool" where
  "claim_same_owner win s owner \<longleftrightarrow>
     co_ownerInstanceId (st_owner s) = co_ownerInstanceId owner \<and>
     co_workerId (st_owner s) = co_workerId owner \<and> co_pid (st_owner s) = co_pid owner \<and>
     co_processStartToken (st_owner s) = co_processStartToken owner \<and>
     comparable win (co_hostname (st_owner s)) = comparable win (co_hostname owner)"

definition claimConflictError :: failure where
  "claimConflictError = RalphError ''RALPH_RESOURCE_CLAIM_CONFLICT'' Exit_conflict"

definition claim_conflicts ::
  "bool \<Rightarrow> claim_spec list \<Rightarrow> claim list \<Rightarrow> string option \<Rightarrow> (claim_spec \<times> claim) list" where
  "claim_conflicts win requested active ownSetId =
     [(spec, c). spec \<leftarrow> requested, c \<leftarrow> active,
        Some (cl_claimSetId c) \<noteq> ownSetId \<and> claimsConflict win spec c]"

definition assertNoConflicts ::
  "bool \<Rightarrow> claim_spec list \<Rightarrow> claim list \<Rightarrow> string option \<Rightarrow> unit result" where
  "assertNoConflicts win requested active ownSetId =
     require (claim_conflicts win requested active ownSetId = []) claimConflictError"

section \<open>Acquisition and expansion\<close>

definition insertClaim :: "claim_db \<Rightarrow> claim \<Rightarrow> claim_db result" where
  "insertClaim db c =
     (if readSetRow db (cl_claimSetId c) = None \<or> \<not> List.member (cd_runs db) (cl_runId c)
      then Inl SqliteError
      else and_then (insert_row cl_id claim_check no_index (cd_claims db) c)
             (\<lambda>cs. Inr (db\<lparr>cd_claims := cs\<rparr>)))"

fun insert_claims :: "claim_db \<Rightarrow> claim list \<Rightarrow> claim_db result" where
  "insert_claims db [] = Inr db"
| "insert_claims db (c # cs) = and_then (insertClaim db c) (\<lambda>db'. insert_claims db' cs)"

definition insertSet :: "claim_db \<Rightarrow> claim_set \<Rightarrow> claim list \<Rightarrow> claim_db result" where
  "insertSet db s cs =
     (if \<not> List.member (cd_runs db) (st_runId s) then Inl SqliteError
      else and_then (insert_row st_id set_check no_index (cd_sets db) s)
             (\<lambda>ss. insert_claims (db\<lparr>cd_sets := ss\<rparr>) cs))"

definition claimEvent :: "claim_db \<Rightarrow> claim_set \<Rightarrow> string \<Rightarrow> claim_db" where
  "claimEvent db s type =
     db\<lparr>cd_events := cd_events db @
          [\<lparr>cev_type = type, cev_claimSetId = st_id s, cev_revision = st_revision s\<rparr>]\<rparr>"

record claim_input =
  ci_owner :: claim_owner
  ci_id :: "string option"
  ci_workspaceId :: string
  ci_runId :: string
  ci_documentId :: string
  ci_taskId :: string
  ci_attemptId :: string
  ci_claims :: "claim_spec list"
  ci_leaseDurationMs :: int
  ci_staleGraceMs :: int

text \<open>A claim of a set, active from \<open>at\<close>.\<close>

definition new_claim ::
  "string \<Rightarrow> string \<Rightarrow> string \<Rightarrow> string \<Rightarrow> string \<Rightarrow> string \<Rightarrow> string \<Rightarrow> string \<Rightarrow> claim_spec \<Rightarrow>
   int \<Rightarrow> int \<Rightarrow> int \<Rightarrow> claim" where
  "new_claim claimId setId workspaceId runId documentId taskId attemptId workerId spec at expires grace =
     \<lparr>cl_id = claimId, cl_claimSetId = setId, cl_workspaceId = workspaceId, cl_runId = runId,
      cl_documentId = documentId, cl_taskId = taskId, cl_attemptId = attemptId,
      cl_workerId = workerId, cl_spec = spec, cl_status = Claim_active, cl_acquiredAt = at,
      cl_renewedAt = at, cl_expiresAt = expires, cl_graceExpiresAt = grace, cl_revision = 0,
      cl_releasedAt = None, cl_releaseReason = None\<rparr>"

text \<open>The claims get fresh identifiers in order, the first being \<open>fresh k\<close>.\<close>

fun build_claims ::
  "(claim_spec \<Rightarrow> string \<Rightarrow> claim) \<Rightarrow> (nat \<Rightarrow> string) \<Rightarrow> nat \<Rightarrow> claim_spec list \<Rightarrow> claim list result" where
  "build_claims mk fresh k [] = Inr []"
| "build_claims mk fresh k (spec # specs) =
     and_then (parse_claim (mk spec (fresh k))) (\<lambda>c.
     and_then (build_claims mk fresh (Suc k) specs) (\<lambda>cs. Inr (c # cs)))"

definition build_set ::
  "claim_input \<Rightarrow> string \<Rightarrow> claim_spec list \<Rightarrow> int \<Rightarrow> (nat \<Rightarrow> string) \<Rightarrow> set_record result" where
  "build_set input requestedId specs now fresh =
     (let expires = now + ci_leaseDurationMs input;
          grace = now + ci_leaseDurationMs input + ci_staleGraceMs input
      in
      and_then (bounded (ci_workspaceId input) 512) (\<lambda>workspaceId.
      and_then (bounded (ci_runId input) 512) (\<lambda>runId.
      and_then (bounded (ci_documentId input) 512) (\<lambda>documentId.
      and_then (bounded (ci_taskId input) 512) (\<lambda>taskId.
      and_then (bounded (ci_attemptId input) 512) (\<lambda>attemptId.
      and_then (bounded (co_workerId (ci_owner input)) 512) (\<lambda>workerId.
      and_then (bounded (co_ownerInstanceId (ci_owner input)) 512) (\<lambda>ownerInstanceId.
      and_then (bounded (co_processStartToken (ci_owner input)) 4096) (\<lambda>token.
      and_then (bounded (co_hostname (ci_owner input)) 512) (\<lambda>hostname.
      and_then
        (build_claims
           (\<lambda>spec claimId. new_claim claimId requestedId (ci_workspaceId input) (ci_runId input)
              (ci_documentId input) (ci_taskId input) (ci_attemptId input)
              (co_workerId (ci_owner input)) spec now expires grace)
           fresh 1 specs) (\<lambda>cs.
      parse_set
        \<lparr>st_id = requestedId, st_workspaceId = workspaceId, st_runId = runId,
         st_documentId = documentId, st_taskId = taskId, st_attemptId = attemptId,
         st_owner = \<lparr>co_ownerInstanceId = ownerInstanceId, co_workerId = workerId,
           co_pid = co_pid (ci_owner input), co_processStartToken = token, co_hostname = hostname\<rparr>,
         st_status = Claim_active, st_acquiredAt = now, st_renewedAt = now,
         st_expiresAt = expires, st_graceExpiresAt = grace, st_revision = 0,
         st_releasedAt = None, st_releaseReason = None\<rparr> cs)))))))))))"

definition acquireResourceClaimSet ::
  "bool \<Rightarrow> (string \<Rightarrow> string \<Rightarrow> bool) \<Rightarrow> claim_db \<Rightarrow> claim_input \<Rightarrow> int \<Rightarrow> (nat \<Rightarrow> string) \<Rightarrow>
   (claim_db \<times> set_record) result" where
  "acquireResourceClaimSet win collate db input now fresh =
     and_then (claim_duration (ci_leaseDurationMs input) 1000) (\<lambda>_.
     and_then (claim_duration (ci_staleGraceMs input) 0) (\<lambda>_.
     and_then (normalizeSpecs win collate (ci_claims input)) (\<lambda>specs.
     and_then (case ci_id input of
                 None \<Rightarrow> Inr (fresh 0)
               | Some i \<Rightarrow> if i = [] then Inr (fresh 0) else bounded i 512) (\<lambda>requestedId.
     case readSetRow db requestedId of
       Some row \<Rightarrow>
         and_then (setFromRow db row) (\<lambda>(existing, cs).
           if st_status existing = Claim_active \<and> st_workspaceId existing = ci_workspaceId input \<and>
              st_runId existing = ci_runId input \<and> st_attemptId existing = ci_attemptId input \<and>
              claim_same_owner win existing (ci_owner input) \<and> map cl_spec cs = specs
           then Inr (db, existing, cs)
           else Inl (RalphError ''RALPH_RESOURCE_CLAIM_ID_REUSED'' Exit_conflict))
     | None \<Rightarrow>
         and_then (bounded (ci_workspaceId input) 512) (\<lambda>workspaceId.
         and_then (activeClaims db workspaceId) (\<lambda>active.
         and_then (assertNoConflicts win specs active None) (\<lambda>_.
         and_then (build_set input requestedId specs now fresh) (\<lambda>(s, cs).
         and_then (insertSet db s cs) (\<lambda>db'.
         Inr (claimEvent db' s ''resource.claims.acquired'', s, cs))))))))))"

text \<open>The compare-and-swap on the set, and the update of its active claims.\<close>

definition set_cas ::
  "claim_db \<Rightarrow> string \<Rightarrow> nat \<Rightarrow> (claim_set \<Rightarrow> claim_set) \<Rightarrow> (claim_db \<times> nat) result" where
  "set_cas db claimSetId revision f =
     and_then (update_rows set_check set_guard no_index
                 (\<lambda>s. st_id s = claimSetId \<and> st_status s = Claim_active \<and> st_revision s = revision)
                 f (cd_sets db))
       (\<lambda>(ss, n). Inr (db\<lparr>cd_sets := ss\<rparr>, n))"

definition update_set_claims :: "claim_db \<Rightarrow> string \<Rightarrow> (claim \<Rightarrow> claim) \<Rightarrow> claim_db result" where
  "update_set_claims db claimSetId f =
     and_then (update_rows claim_check claim_guard no_index
                 (\<lambda>c. cl_claimSetId c = claimSetId \<and> cl_status c = Claim_active) f (cd_claims db))
       (\<lambda>(cs, n). Inr (db\<lparr>cd_claims := cs\<rparr>))"

definition claim_lost :: failure where
  "claim_lost = RalphError ''RALPH_RESOURCE_CLAIM_LOST'' Exit_conflict"

definition claim_not_found :: failure where
  "claim_not_found = RalphError ''RALPH_RESOURCE_CLAIM_NOT_FOUND'' Exit_notFound"

definition owner_mismatch :: failure where
  "owner_mismatch = RalphError ''RALPH_RESOURCE_CLAIM_OWNER_MISMATCH'' Exit_conflict"

definition disappeared :: failure where
  "disappeared = PlainError ''Resource claim set disappeared''"

definition expandResourceClaimSet ::
  "bool \<Rightarrow> (string \<Rightarrow> string \<Rightarrow> bool) \<Rightarrow> claim_db \<Rightarrow> string \<Rightarrow> claim_owner \<Rightarrow> claim_spec list \<Rightarrow> int \<Rightarrow> int \<Rightarrow>
   int \<Rightarrow> (nat \<Rightarrow> string) \<Rightarrow> (claim_db \<times> set_record) result" where
  "expandResourceClaimSet win collate db claimSetId owner additions leaseDurationMs staleGraceMs now fresh =
     and_then (claim_duration leaseDurationMs 1000) (\<lambda>_.
     and_then (claim_duration staleGraceMs 0) (\<lambda>_.
     and_then (normalizeSpecs win collate additions) (\<lambda>requested.
     case readSetRow db claimSetId of
       None \<Rightarrow> Inl claim_not_found
     | Some row \<Rightarrow>
         and_then (setFromRow db row) (\<lambda>(current, cs).
           if st_status current \<noteq> Claim_active \<or> \<not> claim_same_owner win current owner
           then Inl owner_mismatch
           else
             (let novel = filter (\<lambda>spec. \<not> List.member (map (\<lambda>c. spec_key win (cl_spec c)) cs) (spec_key win spec)) requested;
                  expires = now + leaseDurationMs; grace = now + leaseDurationMs + staleGraceMs
              in
              if novel = [] then Inr (db, current, cs)
              else
                and_then (activeClaims db (st_workspaceId current)) (\<lambda>active.
                and_then (assertNoConflicts win novel active (Some (st_id current))) (\<lambda>_.
                and_then (set_cas db (st_id current) (st_revision current)
                  (\<lambda>s. s\<lparr>st_renewedAt := now, st_expiresAt := expires, st_graceExpiresAt := grace,
                         st_revision := st_revision s + 1\<rparr>)) (\<lambda>(db1, n).
                if n \<noteq> 1 then Inl claim_lost
                else
                  and_then (update_set_claims db1 (st_id current)
                    (\<lambda>c. c\<lparr>cl_renewedAt := now, cl_expiresAt := expires, cl_graceExpiresAt := grace,
                           cl_revision := cl_revision c + 1\<rparr>)) (\<lambda>db2.
                  and_then
                    (build_claims
                       (\<lambda>spec claimId. new_claim claimId (st_id current) (st_workspaceId current)
                          (st_runId current) (st_documentId current) (st_taskId current)
                          (st_attemptId current) (co_workerId (st_owner current)) spec now expires grace)
                       fresh 0 novel) (\<lambda>additional.
                  and_then (insert_claims db2 additional) (\<lambda>db3.
                  case readSetRow db3 (st_id current) of
                    None \<Rightarrow> Inl disappeared
                  | Some row' \<Rightarrow>
                      and_then (setFromRow db3 row') (\<lambda>(next, cs').
                      Inr (claimEvent db3 next ''scope.expanded'', next, cs')))))))))))))"

section \<open>Transitions of a set\<close>

record recovery_proof =
  rp_status :: probe_status
  rp_confirmationCount :: int
  rp_firstObservedAt :: int
  rp_expectedProcessStartToken :: string
  rp_observedProcessStartToken :: "string option"
  rp_observedAt :: int
  rp_reason :: string

record supervisor_authority =
  au_leaseId :: string
  au_workspaceId :: string
  au_runId :: string
  au_owner :: lease_owner

datatype authorization =
    Auth_owner claim_owner
  | Auth_supervisor supervisor_authority
  | Auth_recovery recovery_proof

record set_transition =
  tn_status :: claim_status
  tn_at :: int
  tn_leaseDurationMs :: int
  tn_staleGraceMs :: int
  tn_reason :: "string option"
  tn_eventType :: string

definition supervisor_lease :: "claim_db \<Rightarrow> string \<Rightarrow> lease option" where
  "supervisor_lease db leaseId =
     find (\<lambda>l. l_id l = leaseId \<and> (l_kind l = Workspace_supervisor \<or> l_kind l = Run_supervisor) \<and>
              l_status l = Lease_active) (cd_leases db)"

definition authority_valid :: "bool \<Rightarrow> claim_db \<Rightarrow> claim_set \<Rightarrow> supervisor_authority \<Rightarrow> int \<Rightarrow> bool" where
  "authority_valid win db current authority at \<longleftrightarrow>
     (case supervisor_lease db (au_leaseId authority) of
        None \<Rightarrow> False
      | Some l \<Rightarrow>
          l_workspaceId l = st_workspaceId current \<and>
          (l_kind l = Run_supervisor \<longrightarrow> l_runId l = Some (st_runId current)) \<and>
          (l_kind l = Workspace_supervisor \<longrightarrow>
             l_runId l = None \<and> l_resourceKey l = ''workspace-writer'') \<and>
          au_workspaceId authority = st_workspaceId current \<and>
          au_runId authority = st_runId current \<and>
          l_ownerInstanceId l = lo_ownerInstanceId (au_owner authority) \<and>
          l_pid l = lo_pid (au_owner authority) \<and>
          l_processStartToken l = lo_processStartToken (au_owner authority) \<and>
          comparable win (l_hostname l) = comparable win (lo_hostname (au_owner authority)) \<and>
          at < l_expiresAt l)"

definition recovery_invalid :: failure where
  "recovery_invalid = RalphError ''RALPH_RESOURCE_CLAIM_RECOVERY_INVALID'' Exit_invalidUsage"

definition check_recovery :: "claim_set \<Rightarrow> recovery_proof \<Rightarrow> int \<Rightarrow> unit result" where
  "check_recovery current proof at =
     (if \<not> safe_int (rp_confirmationCount proof) \<or> rp_confirmationCount proof < 2 \<or>
         10 < rp_confirmationCount proof \<or> rp_observedAt proof < rp_firstObservedAt proof \<or>
         rp_observedAt proof - rp_firstObservedAt proof < 250 \<or> at < rp_observedAt proof
      then Inl recovery_invalid
      else if at < st_graceExpiresAt current
      then Inl (RalphError ''RALPH_RESOURCE_CLAIM_RECOVERY_EARLY'' Exit_conflict)
      else if rp_expectedProcessStartToken proof \<noteq> co_processStartToken (st_owner current)
      then Inl (RalphError ''RALPH_RESOURCE_CLAIM_RECOVERY_IDENTITY_MISMATCH'' Exit_conflict)
      else if rp_status proof = Probe_identity_mismatch \<and>
              (rp_observedProcessStartToken proof = None \<or> rp_observedProcessStartToken proof = Some [] \<or>
               rp_observedProcessStartToken proof = Some (rp_expectedProcessStartToken proof))
      then Inl recovery_invalid
      else Inr ())"

definition check_authorization :: "bool \<Rightarrow> claim_db \<Rightarrow> claim_set \<Rightarrow> authorization \<Rightarrow> int \<Rightarrow> unit result" where
  "check_authorization win db current authorization at =
     (case authorization of
        Auth_owner owner \<Rightarrow> require (claim_same_owner win current owner) owner_mismatch
      | Auth_supervisor authority \<Rightarrow>
          require (authority_valid win db current authority at)
            (RalphError ''RALPH_RESOURCE_CLAIM_SUPERVISOR_AUTHORITY_INVALID'' Exit_conflict)
      | Auth_recovery proof \<Rightarrow> check_recovery current proof at)"

text \<open>The new columns of a set, and of its claims.\<close>

definition transition_set :: "set_transition \<Rightarrow> string option \<Rightarrow> claim_set \<Rightarrow> claim_set \<Rightarrow> claim_set" where
  "transition_set tn reason current s =
     s\<lparr>st_status := tn_status tn, st_renewedAt := tn_at tn,
       st_expiresAt :=
         (if tn_status tn = Claim_active then tn_at tn + tn_leaseDurationMs tn else st_expiresAt current),
       st_graceExpiresAt :=
         (if tn_status tn = Claim_active then tn_at tn + tn_leaseDurationMs tn + tn_staleGraceMs tn
          else st_graceExpiresAt current),
       st_revision := st_revision s + 1,
       st_releasedAt := (if tn_status tn = Claim_active then None else Some (tn_at tn)),
       st_releaseReason := reason\<rparr>"

definition transition_claim :: "set_transition \<Rightarrow> string option \<Rightarrow> claim_set \<Rightarrow> claim \<Rightarrow> claim" where
  "transition_claim tn reason s c =
     c\<lparr>cl_status := tn_status tn, cl_renewedAt := tn_at tn,
       cl_expiresAt := (if tn_status tn = Claim_active then tn_at tn + tn_leaseDurationMs tn else st_expiresAt s),
       cl_graceExpiresAt :=
         (if tn_status tn = Claim_active then tn_at tn + tn_leaseDurationMs tn + tn_staleGraceMs tn
          else st_graceExpiresAt s),
       cl_revision := cl_revision c + 1,
       cl_releasedAt := (if tn_status tn = Claim_active then None else Some (tn_at tn)),
       cl_releaseReason := reason\<rparr>"

definition transitionActiveClaimSet ::
  "bool \<Rightarrow> claim_db \<Rightarrow> string \<Rightarrow> authorization \<Rightarrow> set_transition \<Rightarrow> (claim_db \<times> set_record) result" where
  "transitionActiveClaimSet win db claimSetId authorization tn =
     (case readSetRow db claimSetId of
        None \<Rightarrow> Inl claim_not_found
      | Some row \<Rightarrow>
          and_then (setFromRow db row) (\<lambda>(current, cs).
            if st_status current \<noteq> Claim_active then
              (if st_status current = tn_status tn then Inr (db, current, cs) else Inl claim_lost)
            else
              and_then (check_authorization win db current authorization (tn_at tn)) (\<lambda>_.
              and_then
                (if tn_status tn = Claim_active then Inr None
                 else and_then (bounded (case tn_reason tn of None \<Rightarrow> ''released'' | Some r \<Rightarrow> r) 4096)
                        (\<lambda>r. Inr (Some r))) (\<lambda>reason.
              and_then (set_cas db claimSetId (st_revision current)
                (transition_set tn reason current)) (\<lambda>(db1, n).
              if n \<noteq> 1 then Inl claim_lost
              else
                and_then (update_set_claims db1 claimSetId (transition_claim tn reason current)) (\<lambda>db2.
                case readSetRow db2 claimSetId of
                  None \<Rightarrow> Inl disappeared
                | Some row' \<Rightarrow>
                    and_then (setFromRow db2 row') (\<lambda>(updated, cs').
                    Inr (claimEvent db2 updated (tn_eventType tn), updated, cs'))))))))"

definition renewResourceClaimSet ::
  "bool \<Rightarrow> claim_db \<Rightarrow> string \<Rightarrow> claim_owner \<Rightarrow> int \<Rightarrow> int \<Rightarrow> int \<Rightarrow> (claim_db \<times> set_record) result" where
  "renewResourceClaimSet win db claimSetId owner leaseDurationMs staleGraceMs now =
     and_then (claim_duration leaseDurationMs 1000) (\<lambda>_.
     and_then (claim_duration staleGraceMs 0) (\<lambda>_.
     transitionActiveClaimSet win db claimSetId (Auth_owner owner)
       \<lparr>tn_status = Claim_active, tn_at = now, tn_leaseDurationMs = leaseDurationMs,
        tn_staleGraceMs = staleGraceMs, tn_reason = None, tn_eventType = ''resource.claims.renewed''\<rparr>))"

definition end_transition :: "claim_status \<Rightarrow> int \<Rightarrow> string \<Rightarrow> string \<Rightarrow> set_transition" where
  "end_transition status at reason event =
     \<lparr>tn_status = status, tn_at = at, tn_leaseDurationMs = 0, tn_staleGraceMs = 0,
      tn_reason = Some reason, tn_eventType = event\<rparr>"

definition releaseResourceClaimSet ::
  "bool \<Rightarrow> claim_db \<Rightarrow> string \<Rightarrow> claim_owner \<Rightarrow> string \<Rightarrow> int \<Rightarrow> (claim_db \<times> set_record) result" where
  "releaseResourceClaimSet win db claimSetId owner reason now =
     transitionActiveClaimSet win db claimSetId (Auth_owner owner)
       (end_transition Claim_released now reason ''resource.claims.released'')"

definition releaseResourceClaimSetBySupervisor ::
  "bool \<Rightarrow> claim_db \<Rightarrow> string \<Rightarrow> supervisor_authority \<Rightarrow> string \<Rightarrow> int \<Rightarrow> (claim_db \<times> set_record) result" where
  "releaseResourceClaimSetBySupervisor win db claimSetId authority reason now =
     transitionActiveClaimSet win db claimSetId (Auth_supervisor authority)
       (end_transition Claim_released now reason ''resource.claims.released_by_supervisor'')"

definition recoverExpiredResourceClaimSet ::
  "bool \<Rightarrow> claim_db \<Rightarrow> string \<Rightarrow> recovery_proof \<Rightarrow> int \<Rightarrow> (claim_db \<times> set_record) result" where
  "recoverExpiredResourceClaimSet win db claimSetId proof now =
     and_then (bounded (rp_reason proof) 4096) (\<lambda>reason.
     transitionActiveClaimSet win db claimSetId (Auth_recovery proof)
       (end_transition Claim_expired now reason ''resource.claims.recovered''))"

definition readResourceClaimSet :: "claim_db \<Rightarrow> string \<Rightarrow> set_record option result" where
  "readResourceClaimSet db claimSetId =
     (case readSetRow db claimSetId of
        None \<Rightarrow> Inr None
      | Some row \<Rightarrow> and_then (setFromRow db row) (\<lambda>r. Inr (Some r)))"

section \<open>Facts on paths and conflicts\<close>

lemma starts_with_segments:
  "starts_with a (b @ [c]) \<longleftrightarrow> (\<exists>t. a = b @ c # t)"
  by (auto simp: starts_with_iff)

lemma split_on_ne [simp]: "split_on c s \<noteq> []"
  by (cases s) (auto split: list.splits)

lemma split_on_join_rest: "split_on c (a @ c # t) = split_on c a @ split_on c t"
proof (induction a)
  case (Cons x a)
  then show ?case
    by (cases "split_on c a") auto
qed simp

fun join_with :: "char \<Rightarrow> string list \<Rightarrow> string" where
  "join_with c [] = []"
| "join_with c [w] = w"
| "join_with c (w # v # ws) = w @ c # join_with c (v # ws)"

lemma join_split [simp]: "join_with c (split_on c s) = s"
proof (induction s)
  case (Cons x s)
  then show ?case
    by (cases "split_on c s"; cases "tl (split_on c s)") auto
qed simp

lemma join_append: "ys \<noteq> [] \<Longrightarrow> xs \<noteq> [] \<Longrightarrow> join_with c (xs @ ys) = join_with c xs @ c # join_with c ys"
proof (induction c xs rule: join_with.induct)
  case (2 c w)
  then show ?case by (cases ys) auto
qed auto

lemma segments_prefix:
  "prefix (split_on c b) (split_on c a) \<longleftrightarrow> a = b \<or> (\<exists>t. a = b @ c # t)"
proof
  assume "prefix (split_on c b) (split_on c a)"
  then obtain zs where zs: "split_on c a = split_on c b @ zs"
    by (auto simp: prefix_def)
  show "a = b \<or> (\<exists>t. a = b @ c # t)"
  proof (cases "zs = []")
    case True
    then show ?thesis
      using zs by (metis append_Nil2 join_split)
  next
    case False
    then have "join_with c (split_on c b @ zs) = b @ c # join_with c zs"
      by (simp add: join_append)
    then show ?thesis
      using zs by (metis join_split)
  qed
next
  assume "a = b \<or> (\<exists>t. a = b @ c # t)"
  then show "prefix (split_on c b) (split_on c a)"
    by (auto simp: split_on_join_rest)
qed

definition spec_conflict :: "bool \<Rightarrow> claim_spec \<Rightarrow> claim_spec \<Rightarrow> bool" where
  "spec_conflict win a b \<longleftrightarrow>
     cs_kind a = cs_kind b \<and> same_claim_resource win a b \<and> (cs_mode a = Exclusive \<or> cs_mode b = Exclusive)"

lemma claimsConflict_spec: "claimsConflict win a c = spec_conflict win a (cl_spec c)"
  by (simp add: claimsConflict_def spec_conflict_def)

lemma spec_conflict_sym: "spec_conflict win a b = spec_conflict win b a"
  by (auto simp: spec_conflict_def same_claim_resource_def pathClaimsOverlap_def Let_def)

section \<open>Facts on parsing\<close>

lemma trim_spec_idem [simp]: "trim_spec (trim_spec s) = trim_spec s"
  by (simp add: trim_spec_def)

lemma trim_claim_idem [simp]: "trim_claim (trim_claim c) = trim_claim c"
  by (simp add: trim_claim_def option.map_comp comp_def)

lemma trim_owner_idem [simp]: "trim_owner (trim_owner w) = trim_owner w"
  by (simp add: trim_owner_def)

lemma trim_set_idem [simp]: "trim_set (trim_set s) = trim_set s"
  by (simp add: trim_set_def option.map_comp comp_def)

lemma trim_set_iff:
  "trim_set s = s \<longleftrightarrow>
     js_trim (st_id s) = st_id s \<and> js_trim (st_workspaceId s) = st_workspaceId s \<and>
     js_trim (st_runId s) = st_runId s \<and> js_trim (st_documentId s) = st_documentId s \<and>
     js_trim (st_taskId s) = st_taskId s \<and> js_trim (st_attemptId s) = st_attemptId s \<and>
     trim_owner (st_owner s) = st_owner s \<and>
     map_option js_trim (st_releaseReason s) = st_releaseReason s"
  by (cases s) (auto simp: trim_set_def)

lemma trim_claim_iff:
  "trim_claim c = c \<longleftrightarrow>
     js_trim (cl_id c) = cl_id c \<and> js_trim (cl_claimSetId c) = cl_claimSetId c \<and>
     js_trim (cl_workspaceId c) = cl_workspaceId c \<and> js_trim (cl_runId c) = cl_runId c \<and>
     js_trim (cl_documentId c) = cl_documentId c \<and> js_trim (cl_taskId c) = cl_taskId c \<and>
     js_trim (cl_attemptId c) = cl_attemptId c \<and> js_trim (cl_workerId c) = cl_workerId c \<and>
     trim_spec (cl_spec c) = cl_spec c \<and> map_option js_trim (cl_releaseReason c) = cl_releaseReason c"
  by (cases c) (auto simp: trim_claim_def)

lemma parse_claim_Inr: "parse_claim c = Inr c' \<Longrightarrow> c' = trim_claim c"
  by (simp add: parse_claim_def split: if_splits)

lemma parse_set_Inr: "parse_set s cs = Inr (s', cs') \<Longrightarrow> s' = trim_set s \<and> cs' = cs"
  by (simp add: parse_set_def split: if_splits)

lemma all_results_Inr: "all_results f xs = Inr ys \<longleftrightarrow> list_all2 (\<lambda>x y. f x = Inr y) xs ys"
  by (induction xs arbitrary: ys) (auto simp: result_simps list_all2_Cons1)

lemma all_results_id:
  assumes "all_results f xs = Inr ys" and "\<And>x y. x \<in> set xs \<Longrightarrow> f x = Inr y \<Longrightarrow> y = x"
  shows "ys = xs"
  using assms
proof (induction xs arbitrary: ys)
  case (Cons a xs)
  then obtain y zs where "f a = Inr y" "all_results f xs = Inr zs" "ys = y # zs"
    by (auto simp: result_simps)
  then show ?case
    using Cons by auto
qed simp

lemma normalize_spec_trimmed:
  assumes "normalize_spec s = Inr s'"
  shows "trim_spec s' = s'"
  using assms by (auto simp: normalize_spec_def parse_spec_def result_simps split: if_splits)

lemma normalizeSpecs_trimmed:
  assumes "normalizeSpecs win collate xs = Inr specs" and "s \<in> set specs"
  shows "trim_spec s = s"
proof -
  obtain ys where ys: "all_results normalize_spec xs = Inr ys" and "set specs = set ys"
    using assms(1) by (auto simp: normalizeSpecs_def result_simps split: if_splits)
  then obtain x where "normalize_spec x = Inr s"
    using assms(2) by (auto simp: all_results_Inr list_all2_conv_all_nth in_set_conv_nth)
  then show ?thesis
    by (rule normalize_spec_trimmed)
qed

lemma build_claims_Inr:
  "build_claims mk fresh k specs = Inr cs \<Longrightarrow> c \<in> set cs \<Longrightarrow>
   \<exists>spec j. spec \<in> set specs \<and> c = trim_claim (mk spec (fresh j))"
proof (induction specs arbitrary: k cs)
  case (Cons a specs)
  then obtain y zs where y: "parse_claim (mk a (fresh k)) = Inr y"
    and zs: "build_claims mk fresh (Suc k) specs = Inr zs" and cs: "cs = y # zs"
    by (auto simp: result_simps)
  show ?case
  proof (cases "c = y")
    case True
    then show ?thesis
      using parse_claim_Inr [OF y] by auto
  next
    case False
    then have "c \<in> set zs"
      using Cons.prems(2) cs by simp
    then show ?thesis
      using Cons.IH [OF zs] by auto
  qed
qed simp

section \<open>The invariant of the claim tables\<close>

interpretation set_table: ledger_table st_id set_check set_guard no_index "\<lambda>s. st_status s = Claim_active"
  by unfold_locales (simp_all add: set_guard_def)

interpretation claim_table: ledger_table cl_id claim_check claim_guard no_index "\<lambda>c. cl_status c = Claim_active"
  by unfold_locales (simp_all add: claim_guard_def)

text \<open>A claim agrees with the row of its set.\<close>

definition claim_of :: "claim_set \<Rightarrow> claim \<Rightarrow> bool" where
  "claim_of s c \<longleftrightarrow>
     cl_claimSetId c = st_id s \<and> cl_workspaceId c = st_workspaceId s \<and> cl_status c = st_status s \<and>
     cl_renewedAt c = st_renewedAt s \<and> cl_expiresAt c = st_expiresAt s \<and>
     cl_graceExpiresAt c = st_graceExpiresAt s"

definition claims_disjoint :: "bool \<Rightarrow> claim list \<Rightarrow> bool" where
  "claims_disjoint win cs \<longleftrightarrow>
     (\<forall>a \<in> set cs. \<forall>b \<in> set cs.
        cl_status a = Claim_active \<and> cl_status b = Claim_active \<and>
        cl_workspaceId a = cl_workspaceId b \<and> cl_claimSetId a \<noteq> cl_claimSetId b \<longrightarrow>
        \<not> spec_conflict win (cl_spec a) (cl_spec b))"

definition claim_db_ok :: "bool \<Rightarrow> claim_db \<Rightarrow> bool" where
  "claim_db_ok win db \<longleftrightarrow>
     table_ok st_id set_check no_index (cd_sets db) \<and> table_ok cl_id claim_check no_index (cd_claims db) \<and>
     (\<forall>s \<in> set (cd_sets db). trim_set s = s \<and> st_status s \<noteq> Claim_expired) \<and>
     (\<forall>c \<in> set (cd_claims db). trim_claim c = c \<and>
        (\<exists>s. readSetRow db (cl_claimSetId c) = Some s \<and> claim_of s c)) \<and>
     claims_disjoint win (cd_claims db)"

lemma claim_db_okD:
  assumes "claim_db_ok win db"
  shows "table_ok st_id set_check no_index (cd_sets db)" "table_ok cl_id claim_check no_index (cd_claims db)"
    "s \<in> set (cd_sets db) \<Longrightarrow> trim_set s = s \<and> st_status s \<noteq> Claim_expired"
    "c \<in> set (cd_claims db) \<Longrightarrow> trim_claim c = c"
    "c \<in> set (cd_claims db) \<Longrightarrow> \<exists>s. readSetRow db (cl_claimSetId c) = Some s \<and> claim_of s c"
    "claims_disjoint win (cd_claims db)"
  using assms by (simp_all add: claim_db_ok_def)

lemma setFromRow_Inr:
  assumes "claim_db_ok win db" and "readSetRow db i = Some row" and "setFromRow db row = Inr (s, cs)"
  shows "s = row \<and> st_id row = i \<and> row \<in> set (cd_sets db) \<and>
    set cs = {c \<in> set (cd_claims db). cl_claimSetId c = i}"
proof -
  have row: "row \<in> set (cd_sets db)" "st_id row = i"
    using find_row_Some [of st_id "cd_sets db" i row] assms(2) by (simp_all add: readSetRow_def)
  obtain ds where ds: "claimsForSet db i = Inr ds" and p: "parse_set row ds = Inr (s, cs)"
    using assms(3) row(2) by (auto simp: setFromRow_def result_simps)
  have "ds = sort_by claim_before (filter (\<lambda>c. cl_claimSetId c = i) (cd_claims db))"
    using ds unfolding claimsForSet_def
    by (rule all_results_id)
       (use claim_db_okD(4) [OF assms(1)] parse_claim_Inr in \<open>auto simp: claimFromRow_def\<close>)
  then show ?thesis
    using parse_set_Inr [OF p] claim_db_okD(3) [OF assms(1) row(1)] row by auto
qed

lemma activeClaims_Inr:
  assumes "claim_db_ok win db" and "activeClaims db w = Inr cs"
  shows "set cs = {c \<in> set (cd_claims db). cl_workspaceId c = w \<and> cl_status c = Claim_active}"
proof -
  have "cs = sort_by claim_before
      (filter (\<lambda>c. cl_workspaceId c = w \<and> cl_status c = Claim_active) (cd_claims db))"
    using assms(2) unfolding activeClaims_def
    by (rule all_results_id)
       (use claim_db_okD(4) [OF assms(1)] parse_claim_Inr in \<open>auto simp: claimFromRow_def\<close>)
  then show ?thesis by auto
qed

lemma no_conflicts:
  "assertNoConflicts win req act own = Inr u \<Longrightarrow> spec \<in> set req \<Longrightarrow> c \<in> set act \<Longrightarrow>
   Some (cl_claimSetId c) \<noteq> own \<Longrightarrow> \<not> spec_conflict win spec (cl_spec c)"
  by (auto simp: assertNoConflicts_def result_simps claim_conflicts_def claimsConflict_spec)

text \<open>Adding claims to an active set of the tables.\<close>

lemma insert_claims_Inr:
  "insert_claims db cs = Inr db' \<Longrightarrow>
   cd_claims db' = cd_claims db @ cs \<and> cd_sets db' = cd_sets db \<and> cd_leases db' = cd_leases db \<and>
   cd_runs db' = cd_runs db \<and>
   (table_ok cl_id claim_check no_index (cd_claims db) \<longrightarrow> table_ok cl_id claim_check no_index (cd_claims db'))"
proof (induction cs arbitrary: db)
  case (Cons c cs)
  then obtain rows where i: "insert_row cl_id claim_check no_index (cd_claims db) c = Inr rows"
    and r: "insert_claims (db\<lparr>cd_claims := rows\<rparr>) cs = Inr db'"
    by (auto simp: insertClaim_def result_simps split: if_splits)
  show ?case
    using Cons.IH [OF r] claim_table.insert_ok [OF _ i] i by (auto simp: insert_row_Inr)
qed simp

lemma add_claims_ok:
  assumes ok: "claim_db_ok win db" and ins: "insert_claims db cs = Inr db'"
    and new: "\<And>c. c \<in> set cs \<Longrightarrow> trim_claim c = c \<and> claim_of s c"
    and s: "readSetRow db (st_id s) = Some s"
    and dis: "\<And>c d. c \<in> set cs \<Longrightarrow> d \<in> set (cd_claims db) \<Longrightarrow> cl_status d = Claim_active \<Longrightarrow>
      cl_workspaceId d = st_workspaceId s \<Longrightarrow> cl_claimSetId d \<noteq> st_id s \<Longrightarrow>
      \<not> spec_conflict win (cl_spec c) (cl_spec d)"
  shows "claim_db_ok win db'"
proof -
  note i = insert_claims_Inr [OF ins]
  have sets: "readSetRow db' = readSetRow db"
    using i by (simp add: readSetRow_def fun_eq_iff)
  have "claims_disjoint win (cd_claims db')"
    unfolding claims_disjoint_def
  proof (intro ballI impI)
    fix a b
    assume a: "a \<in> set (cd_claims db')" and b: "b \<in> set (cd_claims db')"
      and h: "cl_status a = Claim_active \<and> cl_status b = Claim_active \<and>
        cl_workspaceId a = cl_workspaceId b \<and> cl_claimSetId a \<noteq> cl_claimSetId b"
    have mem: "a \<in> set (cd_claims db) \<or> a \<in> set cs" "b \<in> set (cd_claims db) \<or> b \<in> set cs"
      using a b i by auto
    have own: "c \<in> set cs \<Longrightarrow> cl_claimSetId c = st_id s \<and> cl_workspaceId c = st_workspaceId s" for c
      using new by (simp add: claim_of_def)
    show "\<not> spec_conflict win (cl_spec a) (cl_spec b)"
    proof (cases "a \<in> set cs")
      case True
      note oa = own [OF True]
      have nb: "cl_claimSetId b \<noteq> st_id s"
        using oa h by metis
      then have "b \<notin> set cs"
        using own by blast
      then have "b \<in> set (cd_claims db)"
        using mem(2) by blast
      then show ?thesis
        by (rule dis [OF True]) (use oa h nb in simp_all)
    next
      case False
      then have old: "a \<in> set (cd_claims db)"
        using mem(1) by simp
      show ?thesis
      proof (cases "b \<in> set cs")
        case True
        note ob = own [OF True]
        have "cl_claimSetId a \<noteq> st_id s"
          using ob h by metis
        then have "\<not> spec_conflict win (cl_spec b) (cl_spec a)"
          using ob h by (intro dis [OF True old]) simp_all
        then show ?thesis
          using spec_conflict_sym by blast
      next
        case False
        then show ?thesis
          using old mem(2) h claim_db_okD(6) [OF ok] unfolding claims_disjoint_def by blast
      qed
    qed
  qed
  moreover have "\<forall>c \<in> set (cd_claims db'). trim_claim c = c \<and>
        (\<exists>s. readSetRow db' (cl_claimSetId c) = Some s \<and> claim_of s c)"
  proof
    fix c
    assume "c \<in> set (cd_claims db')"
    then consider "c \<in> set (cd_claims db)" | "c \<in> set cs"
      using i by auto
    then show "trim_claim c = c \<and> (\<exists>s. readSetRow db' (cl_claimSetId c) = Some s \<and> claim_of s c)"
    proof cases
      case 1
      then show ?thesis
        using claim_db_okD(4,5) [OF ok 1] by (simp add: sets)
    next
      case 2
      then have "cl_claimSetId c = st_id s"
        using new by (simp add: claim_of_def)
      then show ?thesis
        using new [OF 2] s by (simp add: sets)
    qed
  qed
  moreover have "table_ok cl_id claim_check no_index (cd_claims db')"
    using i claim_db_okD(2) [OF ok] by blast
  moreover have "cd_sets db' = cd_sets db"
    using i by simp
  ultimately show ?thesis
    using ok unfolding claim_db_ok_def by auto
qed

text \<open>The compare-and-swap of an active set with the update of its claims.\<close>

lemma update_set_ok:
  assumes ok: "claim_db_ok win db" and row: "readSetRow db i = Some row" and act: "st_status row = Claim_active"
    and cas: "set_cas db i (st_revision row) f = Inr (db1, n)" and upd: "update_set_claims db1 i g = Inr db2"
    and f: "trim_set (f row) = f row" "st_status (f row) \<noteq> Claim_expired"
    and g: "\<And>c. trim_claim c = c \<Longrightarrow> claim_of row c \<Longrightarrow> trim_claim (g c) = g c \<and> claim_of (f row) (g c)"
  shows "claim_db_ok win db2 \<and> n = 1 \<and> readSetRow db2 i = Some (f row) \<and> set_guard row (f row) \<and>
    set_check (f row) \<and> cd_claims db2 = map (\<lambda>c. if cl_claimSetId c = i then g c else c) (cd_claims db)"
proof -
  obtain ss where u: "update_rows set_check set_guard no_index
        (\<lambda>s. st_id s = i \<and> (st_status s = Claim_active \<and> st_revision s = st_revision row)) f (cd_sets db) = Inr (ss, n)"
    and db1: "db1 = db\<lparr>cd_sets := ss\<rparr>"
    using cas by (auto simp: set_cas_def result_simps)
  obtain cs m where v: "update_rows claim_check claim_guard no_index
        (\<lambda>c. cl_claimSetId c = i \<and> cl_status c = Claim_active) g (cd_claims db) = Inr (cs, m)"
    and db2: "db2 = db\<lparr>cd_sets := ss, cd_claims := cs\<rparr>"
    using upd by (auto simp: update_set_claims_def result_simps db1)
  have r: "find_row st_id (cd_sets db) i = Some row" "row \<in> set (cd_sets db)" "st_id row = i"
    using row find_row_Some [of st_id "cd_sets db" i row] by (simp_all add: readSetRow_def)
  note count = set_table.cas_count [OF claim_db_okD(1) [OF ok] r(1) _ u]
  have n: "n = 1" and new: "find_row st_id ss i = Some (f row)"
    and others: "\<And>j. j \<noteq> i \<Longrightarrow> find_row st_id ss j = find_row st_id (cd_sets db) j"
    using count act by simp_all
  have gc: "set_guard row (f row)" "set_check (f row)"
    using u r act by (auto simp: update_rows_Inr)
  have ss: "ss = map (\<lambda>s. if st_id s = i \<and> st_status s = Claim_active \<and> st_revision s = st_revision row then f s else s) (cd_sets db)"
    using u by (simp add: update_rows_Inr)
  have same: "s = row" if "s \<in> set (cd_sets db)" "st_id s = i" for s
    using find_row_in [of st_id "cd_sets db" s] that r(1) claim_db_okD(1) [OF ok] by (simp add: table_ok_def)
  have status: "cl_status c = Claim_active \<and> claim_of row c" if "c \<in> set (cd_claims db)" "cl_claimSetId c = i" for c
    using claim_db_okD(5) [OF ok that(1)] that(2) row act by (auto simp: claim_of_def)
  have cs: "cs = map (\<lambda>c. if cl_claimSetId c = i then g c else c) (cd_claims db)"
    using v status by (auto simp: update_rows_Inr)
  have g': "trim_claim (g c) = g c \<and> claim_of (f row) (g c) \<and> claim_guard c (g c)"
    if "c \<in> set (cd_claims db)" "cl_claimSetId c = i" for c
    using g [OF claim_db_okD(4) [OF ok that(1)]] status [OF that] v that by (simp add: update_rows_Inr)
  have "\<forall>s \<in> set ss. trim_set s = s \<and> st_status s \<noteq> Claim_expired"
    using claim_db_okD(3) [OF ok] same f by (auto simp: ss)
  moreover have "\<forall>c \<in> set cs. trim_claim c = c \<and> (\<exists>s. find_row st_id ss (cl_claimSetId c) = Some s \<and> claim_of s c)"
  proof
    fix d
    assume "d \<in> set cs"
    then obtain c where c: "c \<in> set (cd_claims db)" and d: "d = (if cl_claimSetId c = i then g c else c)"
      by (auto simp: cs)
    show "trim_claim d = d \<and> (\<exists>s. find_row st_id ss (cl_claimSetId d) = Some s \<and> claim_of s d)"
    proof (cases "cl_claimSetId c = i")
      case True
      then have "cl_claimSetId (g c) = i"
        using g' [OF c True] by (simp add: claim_guard_def)
      then show ?thesis
        using g' [OF c True] new True d by auto
    next
      case False
      then show ?thesis
        using claim_db_okD(4,5) [OF ok c] others d by (simp add: readSetRow_def)
    qed
  qed
  moreover have "claims_disjoint win cs"
    unfolding claims_disjoint_def
  proof (intro ballI impI)
    fix a b
    assume "a \<in> set cs" and "b \<in> set cs"
    then obtain a0 b0 where a0: "a0 \<in> set (cd_claims db)" "a = (if cl_claimSetId a0 = i then g a0 else a0)"
      and b0: "b0 \<in> set (cd_claims db)" "b = (if cl_claimSetId b0 = i then g b0 else b0)"
      by (auto simp: cs)
    assume h: "cl_status a = Claim_active \<and> cl_status b = Claim_active \<and>
        cl_workspaceId a = cl_workspaceId b \<and> cl_claimSetId a \<noteq> cl_claimSetId b"
    have keep: "cl_status c0 = Claim_active \<and> cl_workspaceId c = cl_workspaceId c0 \<and>
        cl_claimSetId c = cl_claimSetId c0 \<and> cl_spec c = cl_spec c0"
      if "c0 \<in> set (cd_claims db)" "c = (if cl_claimSetId c0 = i then g c0 else c0)" "cl_status c = Claim_active" for c c0
      using that g' [OF that(1)] by (cases "cl_claimSetId c0 = i") (auto simp: claim_guard_def)
    note ka = keep [OF a0(1,2)] and kb = keep [OF b0(1,2)]
    have d: "\<not> spec_conflict win (cl_spec a0) (cl_spec b0)"
      using claim_db_okD(6) [OF ok] a0(1) b0(1) ka kb h unfolding claims_disjoint_def by metis
    have "cl_spec a = cl_spec a0" "cl_spec b = cl_spec b0"
      using ka kb h by blast+
    with d show "\<not> spec_conflict win (cl_spec a) (cl_spec b)"
      by metis
  qed
  moreover have "table_ok st_id set_check no_index ss" "table_ok cl_id claim_check no_index cs"
    using set_table.update_ok [OF claim_db_okD(1) [OF ok] u] claim_table.update_ok [OF claim_db_okD(2) [OF ok] v]
    by simp_all
  ultimately have "claim_db_ok win db2"
    by (simp add: claim_db_ok_def db2 readSetRow_def)
  then show ?thesis
    using n new gc cs by (simp add: db2 readSetRow_def)
qed

section \<open>The operations keep the invariant\<close>

lemma event_ok [simp]: "claim_db_ok win (claimEvent db s e) = claim_db_ok win db"
  by (simp add: claim_db_ok_def claimEvent_def readSetRow_def)

lemma event_read [simp]:
  "readSetRow (claimEvent db s e) = readSetRow db" "cd_claims (claimEvent db s e) = cd_claims db"
  "cd_sets (claimEvent db s e) = cd_sets db"
  by (simp_all add: claimEvent_def readSetRow_def fun_eq_iff)

lemma bounded_Inr: "bounded v n = Inr r \<Longrightarrow> r = js_trim v"
  by (simp add: bounded_def Let_def split: if_splits)

lemma build_claims_specs:
  "build_claims mk fresh k specs = Inr cs \<Longrightarrow> (\<And>spec i. cl_spec (mk spec i) = spec) \<Longrightarrow>
   map cl_spec cs = map trim_spec specs"
proof (induction specs arbitrary: k cs)
  case (Cons a specs)
  then obtain y zs where y: "parse_claim (mk a (fresh k)) = Inr y"
    and zs: "build_claims mk fresh (Suc k) specs = Inr zs" and cs: "cs = y # zs"
    by (auto simp: result_simps)
  then show ?case
    using Cons.IH [OF zs Cons.prems(2)] parse_claim_Inr [OF y] Cons.prems(2) by (simp add: trim_claim_def)
qed simp

lemma build_set_Inr:
  assumes "build_set input i specs now fresh = Inr (s, cs)"
    and "\<And>x. x \<in> set specs \<Longrightarrow> trim_spec x = x"
  shows "trim_set s = s \<and> st_id s = js_trim i \<and> st_status s = Claim_active \<and>
    st_workspaceId s = js_trim (ci_workspaceId input) \<and>
    st_expiresAt s = now + ci_leaseDurationMs input \<and>
    (\<forall>c \<in> set cs. trim_claim c = c \<and> claim_of s c \<and> cl_spec c \<in> set specs) \<and>
    map cl_spec cs = specs"
proof -
  let ?mk = "\<lambda>spec claimId. new_claim claimId i (ci_workspaceId input) (ci_runId input)
              (ci_documentId input) (ci_taskId input) (ci_attemptId input)
              (co_workerId (ci_owner input)) spec now (now + ci_leaseDurationMs input)
              (now + ci_leaseDurationMs input + ci_staleGraceMs input)"
  obtain w r d t a k ow tok h where b: "build_claims ?mk fresh 1 specs = Inr cs"
    and w: "bounded (ci_workspaceId input) 512 = Inr w"
    and p: "parse_set
        \<lparr>st_id = i, st_workspaceId = w, st_runId = r, st_documentId = d, st_taskId = t, st_attemptId = a,
         st_owner = \<lparr>co_ownerInstanceId = ow, co_workerId = k,
           co_pid = co_pid (ci_owner input), co_processStartToken = tok, co_hostname = h\<rparr>,
         st_status = Claim_active, st_acquiredAt = now, st_renewedAt = now,
         st_expiresAt = now + ci_leaseDurationMs input,
         st_graceExpiresAt = now + ci_leaseDurationMs input + ci_staleGraceMs input, st_revision = 0,
         st_releasedAt = None, st_releaseReason = None\<rparr> cs = Inr (s, cs)"
    using assms(1) unfolding build_set_def Let_def and_then_Inr
    by (elim exE conjE) (frule parse_set_Inr, simp)
  have s: "s = trim_set
        \<lparr>st_id = i, st_workspaceId = w, st_runId = r, st_documentId = d, st_taskId = t, st_attemptId = a,
         st_owner = \<lparr>co_ownerInstanceId = ow, co_workerId = k,
           co_pid = co_pid (ci_owner input), co_processStartToken = tok, co_hostname = h\<rparr>,
         st_status = Claim_active, st_acquiredAt = now, st_renewedAt = now,
         st_expiresAt = now + ci_leaseDurationMs input,
         st_graceExpiresAt = now + ci_leaseDurationMs input + ci_staleGraceMs input, st_revision = 0,
         st_releasedAt = None, st_releaseReason = None\<rparr>"
    using parse_set_Inr [OF p] by simp
  have "trim_claim c = c \<and> claim_of s c \<and> cl_spec c \<in> set specs" if mem: "c \<in> set cs" for c
  proof -
    obtain spec j where sp: "spec \<in> set specs" and c: "c = trim_claim (?mk spec (fresh j))"
      using build_claims_Inr [OF b mem] by blast
    have "trim_claim c = c"
      unfolding c by (rule trim_claim_idem)
    moreover have "cl_spec c = spec"
      using assms(2) [OF sp] by (simp add: c trim_claim_def new_claim_def)
    moreover have "claim_of s c"
      by (simp add: c s claim_of_def trim_claim_def trim_set_def new_claim_def bounded_Inr [OF w])
    ultimately show ?thesis
      using sp by simp
  qed
  moreover have "trim_set s = s"
    unfolding s by (rule trim_set_idem)
  moreover have "map cl_spec cs = specs"
    using build_claims_specs [OF b] assms(2) by (simp add: new_claim_def map_idI)
  ultimately show ?thesis
    by (simp add: s trim_set_def bounded_Inr [OF w])
qed

lemma new_set_ok:
  assumes ok: "claim_db_ok win db" and ins: "insertSet db s cs = Inr db'"
    and s: "trim_set s = s" "st_status s = Claim_active"
    and cs: "\<And>c. c \<in> set cs \<Longrightarrow> trim_claim c = c \<and> claim_of s c"
    and dis: "\<And>c d. c \<in> set cs \<Longrightarrow> d \<in> set (cd_claims db) \<Longrightarrow> cl_status d = Claim_active \<Longrightarrow>
      cl_workspaceId d = st_workspaceId s \<Longrightarrow> \<not> spec_conflict win (cl_spec c) (cl_spec d)"
  shows "claim_db_ok win db' \<and> readSetRow db' (st_id s) = Some s \<and> cd_claims db' = cd_claims db @ cs"
proof -
  obtain ss where i: "insert_row st_id set_check no_index (cd_sets db) s = Inr ss"
    and c: "insert_claims (db\<lparr>cd_sets := ss\<rparr>) cs = Inr db'"
    using ins by (auto simp: insertSet_def result_simps split: if_splits)
  let ?db = "db\<lparr>cd_sets := ss\<rparr>"
  have read: "readSetRow ?db k = (if k = st_id s then Some s else readSetRow db k)" for k
    using set_table.find_insert [OF i, of k] by (simp add: readSetRow_def)
  have fresh: "readSetRow db (st_id s) = None"
    using i by (simp add: insert_row_Inr readSetRow_def)
  have "claim_db_ok win ?db"
  proof -
    have "\<forall>c \<in> set (cd_claims db). trim_claim c = c \<and>
        (\<exists>s. readSetRow ?db (cl_claimSetId c) = Some s \<and> claim_of s c)"
      using claim_db_okD(4,5) [OF ok] fresh by (fastforce simp: read)
    moreover have "\<forall>x \<in> set ss. trim_set x = x \<and> st_status x \<noteq> Claim_expired"
      using i s claim_db_okD(3) [OF ok] by (auto simp: insert_row_Inr)
    ultimately show ?thesis
      using claim_db_okD(2,6) [OF ok] set_table.insert_ok [OF claim_db_okD(1) [OF ok] i]
      unfolding claim_db_ok_def by simp
  qed
  moreover have "readSetRow ?db (st_id s) = Some s"
    by (simp add: read)
  moreover have rest: "cd_claims ?db = cd_claims db"
    by simp
  ultimately have "claim_db_ok win db'"
    using dis by (intro add_claims_ok [OF _ c cs]) auto
  moreover have "readSetRow db' (st_id s) = Some s"
    using insert_claims_Inr [OF c] read [of "st_id s"] by (simp add: readSetRow_def)
  ultimately show ?thesis
    using insert_claims_Inr [OF c] by simp
qed

lemma acquire_ok:
  assumes ok: "claim_db_ok win db"
    and acq: "acquireResourceClaimSet win collate db input now fresh = Inr (db', s, cs)"
  shows "claim_db_ok win db' \<and> readSetRow db' (st_id s) = Some s \<and> st_status s = Claim_active \<and>
    set cs = {c \<in> set (cd_claims db'). cl_claimSetId c = st_id s}"
proof -
  obtain specs i where specs: "normalizeSpecs win collate (ci_claims input) = Inr specs"
    and rest: "(case readSetRow db i of
       Some row \<Rightarrow>
         and_then (setFromRow db row) (\<lambda>(existing, cs).
           if st_status existing = Claim_active \<and> st_workspaceId existing = ci_workspaceId input \<and>
              st_runId existing = ci_runId input \<and> st_attemptId existing = ci_attemptId input \<and>
              claim_same_owner win existing (ci_owner input) \<and> map cl_spec cs = specs
           then Inr (db, existing, cs)
           else Inl (RalphError ''RALPH_RESOURCE_CLAIM_ID_REUSED'' Exit_conflict))
     | None \<Rightarrow>
         and_then (bounded (ci_workspaceId input) 512) (\<lambda>workspaceId.
         and_then (activeClaims db workspaceId) (\<lambda>active.
         and_then (assertNoConflicts win specs active None) (\<lambda>_.
         and_then (build_set input i specs now fresh) (\<lambda>(s, cs).
         and_then (insertSet db s cs) (\<lambda>db'.
         Inr (claimEvent db' s ''resource.claims.acquired'', s, cs))))))) = Inr (db', s, cs)"
    using acq unfolding acquireResourceClaimSet_def and_then_Inr by blast
  show ?thesis
  proof (cases "readSetRow db i")
    case (Some row)
    then have "setFromRow db row = Inr (s, cs)" "db' = db" "st_status s = Claim_active"
      using rest by (auto simp: result_simps split: if_splits)
    then show ?thesis
      using setFromRow_Inr [OF ok Some] ok Some by auto
  next
    case None
    then obtain act u db1 where act: "activeClaims db (js_trim (ci_workspaceId input)) = Inr act"
      and nc: "assertNoConflicts win specs act None = Inr u"
      and b: "build_set input i specs now fresh = Inr (s, cs)" and ins: "insertSet db s cs = Inr db1"
      and db': "db' = claimEvent db1 s ''resource.claims.acquired''"
      using rest by (auto simp: result_simps dest: bounded_Inr)
    note bs = build_set_Inr [OF b normalizeSpecs_trimmed [OF specs]]
    have "claim_db_ok win db1 \<and> readSetRow db1 (st_id s) = Some s \<and> cd_claims db1 = cd_claims db @ cs"
    proof (rule new_set_ok [OF ok ins])
      show "\<not> spec_conflict win (cl_spec c) (cl_spec d)"
        if "c \<in> set cs" "d \<in> set (cd_claims db)" "cl_status d = Claim_active"
          "cl_workspaceId d = st_workspaceId s" for c d
        using that bs activeClaims_Inr [OF ok act] by (intro no_conflicts [OF nc]) auto
    qed (use bs in auto)
    moreover have "readSetRow db (st_id s) = None"
      using ins by (auto simp: insertSet_def insert_row_Inr result_simps readSetRow_def split: if_splits)
    then have "\<forall>c \<in> set (cd_claims db). cl_claimSetId c \<noteq> st_id s"
      using claim_db_okD(5) [OF ok] by force
    ultimately show ?thesis
      using bs by (auto simp: db' claim_of_def)
  qed
qed

lemma transition_Inr:
  assumes "transitionActiveClaimSet win db i auth tn = Inr (db', s', cs')" and ok: "claim_db_ok win db"
  obtains (ended) row where "readSetRow db i = Some row" "st_status row \<noteq> Claim_active"
      "st_status row = tn_status tn" "db' = db"
  | (moved) row u reason db1 db2 where "readSetRow db i = Some row" "st_status row = Claim_active"
      "check_authorization win db row auth (tn_at tn) = Inr u"
      "if tn_status tn = Claim_active then reason = None else \<exists>r. reason = Some (js_trim r)"
      "set_cas db i (st_revision row) (transition_set tn reason row) = Inr (db1, 1)"
      "update_set_claims db1 i (transition_claim tn reason row) = Inr db2"
      "\<exists>e. db' = claimEvent db2 s' e"
proof -
  obtain row cur cs where row: "readSetRow db i = Some row" and frm: "setFromRow db row = Inr (cur, cs)"
    using assms(1) by (auto simp: transitionActiveClaimSet_def result_simps split: option.splits)
  have cur: "cur = row"
    using setFromRow_Inr [OF ok row frm] by simp
  show ?thesis
  proof (cases "st_status row = Claim_active")
    case False
    then show ?thesis
      using assms(1) row frm ended by (auto simp: transitionActiveClaimSet_def cur split: if_splits)
  next
    case True
    then obtain u reason db1 n db2 where a: "check_authorization win db row auth (tn_at tn) = Inr u"
      and r: "(if tn_status tn = Claim_active then Inr None
           else and_then (bounded (case tn_reason tn of None \<Rightarrow> ''released'' | Some r \<Rightarrow> r) 4096)
                  (\<lambda>r. Inr (Some r))) = Inr reason"
      and c: "set_cas db i (st_revision row) (transition_set tn reason row) = Inr (db1, n)" "n = 1"
      and d: "update_set_claims db1 i (transition_claim tn reason row) = Inr db2"
      and e: "db' = claimEvent db2 s' (tn_eventType tn)"
      using assms(1) row frm
      by (auto simp: transitionActiveClaimSet_def cur result_simps split: if_splits option.splits)
    have "if tn_status tn = Claim_active then reason = None else \<exists>r. reason = Some (js_trim r)"
      using r by (auto simp: result_simps dest: bounded_Inr split: if_splits)
    then show ?thesis
      using moved row True a c d e by blast
  qed
qed

lemma transition_ok:
  assumes ok: "claim_db_ok win db" and tn: "tn_status tn \<noteq> Claim_expired"
    and tr: "transitionActiveClaimSet win db i auth tn = Inr (db', s', cs')"
  shows "claim_db_ok win db'"
  using tr ok
proof (cases rule: transition_Inr)
  case ended
  then show ?thesis
    using ok by simp
next
  case (moved row u reason db1 db2)
  have "row \<in> set (cd_sets db)"
    using moved(1) find_row_Some [of st_id "cd_sets db" i row] by (simp add: readSetRow_def)
  then have "trim_set row = row"
    using claim_db_okD(3) [OF ok] by simp
  moreover have "map_option js_trim reason = reason"
    using moved(4) by (auto split: if_splits)
  ultimately have "claim_db_ok win db2 \<and> (1::nat) = 1 \<and> readSetRow db2 i = Some (transition_set tn reason row row) \<and>
      set_guard row (transition_set tn reason row row) \<and> set_check (transition_set tn reason row row) \<and>
      cd_claims db2 = map (\<lambda>c. if cl_claimSetId c = i then transition_claim tn reason row c else c) (cd_claims db)"
    using tn by (intro update_set_ok [OF ok moved(1,2,5,6)])
      (auto simp: transition_set_def trim_set_iff transition_claim_def trim_claim_iff claim_of_def)
  then show ?thesis
    using moved(7) by auto
qed

text \<open>The check of the new row that stops a set from ending at or after its expiry.\<close>

lemma transition_checked:
  assumes ok: "claim_db_ok win db" and row: "readSetRow db i = Some row" and act: "st_status row = Claim_active"
    and tn: "tn_status tn \<noteq> Claim_active"
    and tr: "transitionActiveClaimSet win db i auth tn = Inr (db', s', cs')"
  shows "st_renewedAt row \<le> tn_at tn \<and> tn_at tn < st_expiresAt row \<and>
    (\<exists>u. check_authorization win db row auth (tn_at tn) = Inr u)"
  using tr ok
proof (cases rule: transition_Inr)
  case (ended row')
  then show ?thesis
    using row act by simp
next
  case (moved row' u reason db1 db2)
  then have [simp]: "row' = row"
    using row by simp
  have r: "row \<in> set (cd_sets db)" "st_id row = i"
    using find_row_Some [of st_id "cd_sets db" i row] row by (simp_all add: readSetRow_def)
  have "set_guard row (transition_set tn reason row row) \<and> set_check (transition_set tn reason row row)"
    using moved(5) r act by (auto simp: set_cas_def result_simps update_rows_Inr)
  then show ?thesis
    using moved(3) tn by (auto simp: set_guard_def set_check_def transition_set_def)
qed

lemma recover_fails:
  assumes ok: "claim_db_ok win db"
  shows "\<not> ok (recoverExpiredResourceClaimSet win db i proof now)"
proof
  assume "ok (recoverExpiredResourceClaimSet win db i proof now)"
  then obtain reason db' s' cs' where
    tr: "transitionActiveClaimSet win db i (Auth_recovery proof)
      (end_transition Claim_expired now reason ''resource.claims.recovered'') = Inr (db', s', cs')"
    by (auto simp: ok_iff recoverExpiredResourceClaimSet_def result_simps)
  obtain row where row: "readSetRow db i = Some row"
    using tr by (auto simp: transitionActiveClaimSet_def split: option.splits)
  then have mem: "row \<in> set (cd_sets db)"
    using find_row_Some [of st_id "cd_sets db" i row] by (simp add: readSetRow_def)
  have never: "st_status row \<noteq> Claim_expired"
    using claim_db_okD(3) [OF ok mem] by simp
  show False
  proof (cases "st_status row = Claim_active")
    case True
    then have "now < st_expiresAt row" and "\<exists>u. check_recovery row proof now = Inr u"
      using transition_checked [OF ok row True _ tr] by (auto simp: end_transition_def check_authorization_def)
    moreover have "st_expiresAt row \<le> st_graceExpiresAt row"
      using claim_db_okD(1) [OF ok] mem by (simp add: table_ok_def list_all_iff set_check_def)
    ultimately show False
      by (auto simp: check_recovery_def split: if_splits)
  next
    case False
    then show False
      using tr row never
      by (auto simp: end_transition_def elim!: transition_Inr [OF _ ok])
  qed
qed

lemma expand_ok:
  assumes ok: "claim_db_ok win db"
    and ex: "expandResourceClaimSet win collate db i ow adds ld sg now fresh = Inr (db', r)"
  shows "claim_db_ok win db'"
proof -
  obtain req row where req: "normalizeSpecs win collate adds = Inr req" and row: "readSetRow db i = Some row"
    using ex by (auto simp: expandResourceClaimSet_def result_simps split: option.splits)
  obtain cur cs where frm: "setFromRow db row = Inr (cur, cs)"
    using ex row by (auto simp: expandResourceClaimSet_def result_simps)
  have cur: "cur = row" "st_id row = i" "row \<in> set (cd_sets db)"
    using setFromRow_Inr [OF ok row frm] by simp_all
  let ?novel = "filter (\<lambda>spec. \<not> List.member (map (\<lambda>c. spec_key win (cl_spec c)) cs) (spec_key win spec)) req"
  let ?f = "\<lambda>s. s\<lparr>st_renewedAt := now, st_expiresAt := now + ld, st_graceExpiresAt := now + ld + sg,
                         st_revision := st_revision s + 1\<rparr>"
  let ?g = "\<lambda>c. c\<lparr>cl_renewedAt := now, cl_expiresAt := now + ld, cl_graceExpiresAt := now + ld + sg,
                           cl_revision := cl_revision c + 1\<rparr>"
  let ?mk = "\<lambda>spec claimId. new_claim claimId (st_id row) (st_workspaceId row)
                          (st_runId row) (st_documentId row) (st_taskId row)
                          (st_attemptId row) (co_workerId (st_owner row)) spec now (now + ld) (now + ld + sg)"
  show ?thesis
  proof (cases "?novel = []")
    case True
    then have "db' = db"
      using ex req row frm by (auto simp: expandResourceClaimSet_def result_simps Let_def split: if_splits)
    then show ?thesis
      using ok by simp
  next
    case False
    then obtain act u db1 n db2 add db3 nx where a: "st_status row = Claim_active"
      and act: "activeClaims db (st_workspaceId row) = Inr act"
      and nc: "assertNoConflicts win ?novel act (Some (st_id row)) = Inr u"
      and cas: "set_cas db (st_id row) (st_revision row) ?f = Inr (db1, n)"
      and upd: "update_set_claims db1 (st_id row) ?g = Inr db2"
      and add: "build_claims ?mk fresh 0 ?novel = Inr add"
      and ins: "insert_claims db2 add = Inr db3" and db': "db' = claimEvent db3 nx ''scope.expanded''"
      using ex req row frm
      by (auto simp: expandResourceClaimSet_def result_simps Let_def cur(1) split: if_splits option.splits)
    have tr: "trim_set row = row"
      using claim_db_okD(3) [OF ok cur(3)] by simp
    note up = update_set_ok [OF ok row a cas [unfolded cur(2)] upd [unfolded cur(2)]]
    have up: "claim_db_ok win db2 \<and> n = 1 \<and> readSetRow db2 i = Some (?f row) \<and> set_guard row (?f row) \<and>
      set_check (?f row) \<and> cd_claims db2 = map (\<lambda>c. if cl_claimSetId c = i then ?g c else c) (cd_claims db)"
      using tr a by (intro up) (auto simp: trim_set_iff trim_claim_iff claim_of_def)
    have claims: "trim_claim c = c \<and> claim_of (?f row) c \<and> cl_spec c \<in> set ?novel" if mem: "c \<in> set add" for c
    proof -
      obtain spec j where sp: "spec \<in> set ?novel" and c: "c = trim_claim (?mk spec (fresh j))"
        using build_claims_Inr [OF add mem] by blast
      have "trim_spec spec = spec"
        using normalizeSpecs_trimmed [OF req] sp by simp
      moreover have "js_trim (st_id row) = st_id row" "js_trim (st_workspaceId row) = st_workspaceId row"
        using tr by (simp_all add: trim_set_iff)
      ultimately show ?thesis
        using sp trim_claim_idem a by (simp add: c) (simp add: trim_claim_def new_claim_def claim_of_def)
    qed
    have "claim_db_ok win db3"
    proof (rule add_claims_ok [OF conjunct1 [OF up] ins])
      show "trim_claim c = c \<and> claim_of (?f row) c" if "c \<in> set add" for c
        using claims [OF that] by simp
      show "readSetRow db2 (st_id (?f row)) = Some (?f row)"
        using up cur(2) by simp
      fix c d
      assume c: "c \<in> set add" and d: "d \<in> set (cd_claims db2)" "cl_status d = Claim_active"
        "cl_workspaceId d = st_workspaceId (?f row)" "cl_claimSetId d \<noteq> st_id (?f row)"
      then have "d \<in> set (cd_claims db)"
        using up cur(2) by (auto split: if_splits)
      then have "d \<in> set act"
        using activeClaims_Inr [OF ok act] d by simp
      then show "\<not> spec_conflict win (cl_spec c) (cl_spec d)"
        using claims [OF c] d(4) by (intro no_conflicts [OF nc]) auto
    qed
    then show ?thesis
      using db' by auto
  qed
qed

lemma acquire_specs:
  assumes "acquireResourceClaimSet win collate db input now fresh = Inr (db', s, cs)"
  shows "normalizeSpecs win collate (ci_claims input) = Inr (map cl_spec cs)"
proof -
  obtain specs i where specs: "normalizeSpecs win collate (ci_claims input) = Inr specs"
    and rest: "(case readSetRow db i of
       Some row \<Rightarrow>
         and_then (setFromRow db row) (\<lambda>(existing, cs).
           if st_status existing = Claim_active \<and> st_workspaceId existing = ci_workspaceId input \<and>
              st_runId existing = ci_runId input \<and> st_attemptId existing = ci_attemptId input \<and>
              claim_same_owner win existing (ci_owner input) \<and> map cl_spec cs = specs
           then Inr (db, existing, cs)
           else Inl (RalphError ''RALPH_RESOURCE_CLAIM_ID_REUSED'' Exit_conflict))
     | None \<Rightarrow>
         and_then (bounded (ci_workspaceId input) 512) (\<lambda>workspaceId.
         and_then (activeClaims db workspaceId) (\<lambda>active.
         and_then (assertNoConflicts win specs active None) (\<lambda>_.
         and_then (build_set input i specs now fresh) (\<lambda>(s, cs).
         and_then (insertSet db s cs) (\<lambda>db'.
         Inr (claimEvent db' s ''resource.claims.acquired'', s, cs))))))) = Inr (db', s, cs)"
    using assms unfolding acquireResourceClaimSet_def and_then_Inr by blast
  show ?thesis
  proof (cases "readSetRow db i")
    case (Some row)
    then show ?thesis
      using rest specs by (auto simp: result_simps split: if_splits)
  next
    case None
    then have "build_set input i specs now fresh = Inr (s, cs)"
      using rest by (auto simp: result_simps)
    then show ?thesis
      using build_set_Inr normalizeSpecs_trimmed [OF specs] specs by blast
  qed
qed

section \<open>Steps of the claim tables\<close>

text \<open>One committed transaction: of the claims, or of others on the leases and the runs.\<close>

inductive claim_step :: "bool \<Rightarrow> claim_db \<Rightarrow> claim_db \<Rightarrow> bool" for win where
  cstep_acquire: "acquireResourceClaimSet win collate db input now fresh = Inr (db', r) \<Longrightarrow> claim_step win db db'"
| cstep_expand: "expandResourceClaimSet win collate db i ow adds ld sg now fresh = Inr (db', r) \<Longrightarrow>
    claim_step win db db'"
| cstep_renew: "renewResourceClaimSet win db i ow ld sg now = Inr (db', r) \<Longrightarrow> claim_step win db db'"
| cstep_release: "releaseResourceClaimSet win db i ow reason now = Inr (db', r) \<Longrightarrow> claim_step win db db'"
| cstep_supervisor: "releaseResourceClaimSetBySupervisor win db i au reason now = Inr (db', r) \<Longrightarrow>
    claim_step win db db'"
| cstep_recover: "recoverExpiredResourceClaimSet win db i proof now = Inr (db', r) \<Longrightarrow> claim_step win db db'"
| cstep_leases: "claim_step win db (db\<lparr>cd_leases := ls\<rparr>)"
| cstep_runs: "claim_step win db (db\<lparr>cd_runs := rs\<rparr>)"

abbreviation claim_steps :: "bool \<Rightarrow> claim_db \<Rightarrow> claim_db \<Rightarrow> bool" where
  "claim_steps win \<equiv> (claim_step win)\<^sup>*\<^sup>*"

definition empty_claim_db :: claim_db where
  "empty_claim_db = \<lparr>cd_runs = [], cd_leases = [], cd_sets = [], cd_claims = [], cd_events = []\<rparr>"

lemma claim_step_ok: "claim_step win db db' \<Longrightarrow> claim_db_ok win db \<Longrightarrow> claim_db_ok win db'"
proof (induction rule: claim_step.induct)
  case (cstep_acquire collate db input now fresh db' r)
  then show ?case by (cases r) (auto dest: acquire_ok)
next
  case (cstep_expand collate db i ow adds ld sg now fresh db' r)
  then show ?case by (auto dest: expand_ok)
next
  case (cstep_renew db i ow ld sg now db' r)
  then show ?case
    by (cases r) (auto simp: renewResourceClaimSet_def result_simps dest: transition_ok [rotated 2])
next
  case (cstep_release db i ow reason now db' r)
  then show ?case
    by (cases r) (auto simp: releaseResourceClaimSet_def end_transition_def dest: transition_ok [rotated 2])
next
  case (cstep_supervisor db i au reason now db' r)
  then show ?case
    by (cases r) (auto simp: releaseResourceClaimSetBySupervisor_def end_transition_def dest: transition_ok [rotated 2])
next
  case (cstep_recover db i "proof" now db' r)
  then show ?case
    using recover_fails [of win db i "proof" now] by (simp add: ok_iff)
qed (simp_all add: claim_db_ok_def readSetRow_def)

lemma claim_steps_ok:
  assumes "claim_steps win empty_claim_db db"
  shows "claim_db_ok win db"
  using assms
proof (induction rule: rtranclp_induct)
  case base
  then show ?case
    by (simp add: claim_db_ok_def empty_claim_db_def table_ok_def no_index_def claims_disjoint_def)
qed (auto intro: claim_step_ok)

section \<open>Properties\<close>

definition sample_claim_owner :: claim_owner where
  "sample_claim_owner =
     \<lparr>co_ownerInstanceId = ''o'', co_workerId = ''w'', co_pid = 7, co_processStartToken = ''t'',
      co_hostname = ''h''\<rparr>"

definition sample_claim_input :: "string \<Rightarrow> (claim_kind \<times> string) list \<Rightarrow> claim_input" where
  "sample_claim_input i keys =
     \<lparr>ci_owner = sample_claim_owner, ci_id = Some i, ci_workspaceId = ''ws'', ci_runId = ''r'',
      ci_documentId = ''d'', ci_taskId = ''t'', ci_attemptId = ''a'',
      ci_claims = map (\<lambda>(k, key). \<lparr>cs_kind = k, cs_resourceKey = key, cs_mode = Exclusive, cs_metadata = ''{}''\<rparr>) keys,
      ci_leaseDurationMs = 1000, ci_staleGraceMs = 500\<rparr>"

definition sample_fresh :: "string \<Rightarrow> nat \<Rightarrow> string" where
  "sample_fresh s k = s @ replicate k (CHR ''i'')"

text \<open>A collation that ignores case first, as the source's does.\<close>

definition sample_collate :: "string \<Rightarrow> string \<Rightarrow> bool" where
  "sample_collate a b \<longleftrightarrow> js_lower a \<le> js_lower b"

definition sample_run_db :: claim_db where
  "sample_run_db = empty_claim_db\<lparr>cd_runs := [''r'']\<rparr>"

definition sample_set :: "string \<Rightarrow> claim_set" where
  "sample_set i =
     \<lparr>st_id = i, st_workspaceId = ''ws'', st_runId = ''r'', st_documentId = ''d'', st_taskId = ''t'',
      st_attemptId = ''a'', st_owner = sample_claim_owner, st_status = Claim_active,
      st_acquiredAt = 0, st_renewedAt = 0, st_expiresAt = 1000, st_graceExpiresAt = 1500,
      st_revision = 0, st_releasedAt = None, st_releaseReason = None\<rparr>"

definition sample_path :: "string \<Rightarrow> claim_spec" where
  "sample_path key = \<lparr>cs_kind = Claim_path, cs_resourceKey = key, cs_mode = Exclusive, cs_metadata = ''{}''\<rparr>"

definition sample_claim :: "string \<Rightarrow> string \<Rightarrow> string \<Rightarrow> claim" where
  "sample_claim claimId i key =
     new_claim claimId i ''ws'' ''r'' ''d'' ''t'' ''a'' ''w'' (sample_path key) 0 1000 1500"

definition sample_claims_db :: "claim_set list \<Rightarrow> claim list \<Rightarrow> claim_db" where
  "sample_claims_db ss cs =
     \<lparr>cd_runs = [''r''], cd_leases = [], cd_sets = ss, cd_claims = cs,
      cd_events = map (\<lambda>s. \<lparr>cev_type = ''resource.claims.acquired'', cev_claimSetId = st_id s, cev_revision = 0\<rparr>) ss\<rparr>"

text \<open>An acquisition under a new identity, from what its parts return.\<close>

lemma sample_acquires:
  assumes "normalizeSpecs False sample_collate (ci_claims (sample_claim_input i keys)) = Inr specs"
    and "bounded i 512 = Inr i" and "i \<noteq> []" and "readSetRow db i = None"
    and "activeClaims db ''ws'' = Inr act" and "assertNoConflicts False specs act None = Inr ()"
    and "build_set (sample_claim_input i keys) i specs 0 fresh = Inr (s, cs)"
    and "insertSet db s cs = Inr db'"
  shows "acquireResourceClaimSet False sample_collate db (sample_claim_input i keys) 0 fresh
    = Inr (claimEvent db' s ''resource.claims.acquired'', s, cs)"
proof -
  have "bounded ''ws'' 512 = Inr ''ws''"
    by code_simp
  then show ?thesis
    using assms by (simp add: acquireResourceClaimSet_def claim_duration_def safe_int_def sample_claim_input_def)
qed

lemma sample_run_db_eq: "sample_run_db = sample_claims_db [] []"
  by (simp add: sample_run_db_def empty_claim_db_def sample_claims_db_def)

text \<open>The identifiers of the samples are their own trimmed form.\<close>

lemma sample_trim:
  "js_trim ''ws'' = ''ws''" "js_trim ''r'' = ''r''" "js_trim ''d'' = ''d''" "js_trim ''t'' = ''t''"
  "js_trim ''a'' = ''a''" "js_trim ''w'' = ''w''" "js_trim ''o'' = ''o''" "js_trim ''h'' = ''h''"
  "js_trim ''s1'' = ''s1''" "js_trim ''s2'' = ''s2''" "js_trim ''ci'' = ''ci''"
  "js_trim ''cii'' = ''cii''" "js_trim ''di'' = ''di''" "js_trim ''B'' = ''B''"
  "js_trim ''docs'' = ''docs''" "js_trim ''src/**'' = ''src/**''"
  by (code_simp+)

lemma sample_claim_as:
  "new_claim claimId i ''ws'' ''r'' ''d'' ''t'' ''a'' ''w'' (sample_path key) 0 1000 1500 = sample_claim claimId i key"
  by (simp add: sample_claim_def)

lemma sample_set_id: "st_id (sample_set i) = i"
  by (simp add: sample_set_def)

lemma sample_claim_id: "cl_id (sample_claim claimId i key) = claimId"
  by (simp add: sample_claim_def new_claim_def)

lemma sample_claim_trim:
  assumes "js_trim claimId = claimId" "js_trim i = i" "js_trim key = key"
  shows "trim_claim (sample_claim claimId i key) = sample_claim claimId i key"
  using assms
  by (simp add: trim_claim_def sample_claim_def new_claim_def trim_spec_def sample_path_def sample_trim)

lemma sample_claim_parsed:
  assumes "js_trim claimId = claimId" "js_trim i = i" "js_trim key = key"
    and "claimId \<noteq> []" "length claimId \<le> 512" "i \<noteq> []" "length i \<le> 512" "key \<noteq> []" "length key \<le> 512"
  shows "parse_claim (sample_claim claimId i key) = Inr (sample_claim claimId i key)"
  using assms sample_claim_trim [OF assms(1-3)]
  by (simp add: parse_claim_def text_ok_def text_ok_opt_def sample_claim_def new_claim_def
      sample_path_def sample_trim safe_int_def)

lemma sample_set_trim: "js_trim i = i \<Longrightarrow> trim_set (sample_set i) = sample_set i"
  by (simp add: trim_set_def sample_set_def trim_owner_def sample_claim_owner_def sample_trim)

lemma sample_set_parsed:
  assumes "js_trim i = i" "i \<noteq> []" "length i \<le> 512" "cs \<noteq> []" "length cs \<le> 1024"
  shows "parse_set (sample_set i) cs = Inr (sample_set i, cs)"
  using assms sample_set_trim [OF assms(1)]
  by (cases cs) (simp_all add: parse_set_def text_ok_def text_ok_opt_def sample_set_def
      sample_claim_owner_def sample_trim safe_int_def)

lemma sample_built:
  assumes "build_claims (\<lambda>spec claimId. new_claim claimId i ''ws'' ''r'' ''d'' ''t'' ''a'' ''w'' spec 0 1000 1500)
      fresh 1 specs = Inr cs"
    and "js_trim i = i" "i \<noteq> []" "length i \<le> 512" "cs \<noteq> []" "length cs \<le> 1024"
  shows "build_set (sample_claim_input i keys) i specs 0 fresh = Inr (sample_set i, cs)"
  using assms(1) sample_set_parsed [OF assms(2-6)]
  by (simp add: build_set_def sample_claim_input_def sample_claim_owner_def bounded_def sample_trim sample_set_def)

lemma sample_set_checked: "i \<noteq> [] \<Longrightarrow> length i \<le> 512 \<Longrightarrow> set_check (sample_set i)"
  by (cases i) (simp_all add: set_check_def sample_set_def sample_claim_owner_def between_def between_opt_def)

lemma sample_claim_checked:
  "\<lbrakk>claimId \<noteq> []; length claimId \<le> 512; key \<noteq> []; length key \<le> 512\<rbrakk> \<Longrightarrow>
    claim_check (sample_claim claimId i key)"
  by (cases claimId; cases key) (simp_all add: claim_check_def sample_claim_def new_claim_def sample_path_def
      between_def between_opt_def)

lemma sample_claim_inserted:
  assumes "i \<in> st_id ` set ss" and "claimId \<notin> cl_id ` set cs"
    and "claimId \<noteq> []" "length claimId \<le> 512" "key \<noteq> []" "length key \<le> 512"
  shows "insertClaim (sample_claims_db ss cs\<lparr>cd_events := ev\<rparr>) (sample_claim claimId i key) =
    Inr (sample_claims_db ss (cs @ [sample_claim claimId i key])\<lparr>cd_events := ev\<rparr>)"
proof -
  have k: "cl_id (sample_claim claimId i key) = claimId" "cl_claimSetId (sample_claim claimId i key) = i"
    "cl_runId (sample_claim claimId i key) = ''r''"
    by (simp_all add: sample_claim_def new_claim_def)
  have "find_row st_id ss i \<noteq> None" "find_row cl_id cs claimId = None"
    using assms(1,2) by (simp_all add: find_row_None)
  then show ?thesis
    using sample_claim_checked [OF assms(3-6), of i]
    by (auto simp: insertClaim_def readSetRow_def sample_claims_db_def insert_row_def no_index_def k)
qed

lemma sample_set_inserted:
  assumes "i \<notin> st_id ` set ss" and "i \<noteq> []" "length i \<le> 512"
  shows "insertSet (sample_claims_db ss cs) (sample_set i) new =
    insert_claims (sample_claims_db (ss @ [sample_set i]) cs\<lparr>cd_events := cd_events (sample_claims_db ss cs)\<rparr>) new"
proof -
  have k: "st_id (sample_set i) = i" "st_runId (sample_set i) = ''r''"
    by (simp_all add: sample_set_def)
  have "find_row st_id ss i = None"
    using assms(1) by (simp add: find_row_None)
  then show ?thesis
    using sample_set_checked [OF assms(2,3)]
    by (simp add: insertSet_def sample_claims_db_def insert_row_def no_index_def k)
qed

text \<open>The ledger after one set claims a directory, and after another claims a second one.\<close>

abbreviation sample_db1 :: claim_db where
  "sample_db1 \<equiv> sample_claims_db [sample_set ''s1''] [sample_claim ''ci'' ''s1'' ''src/**'']"

lemma sample_claimed:
  "acquireResourceClaimSet False sample_collate sample_run_db
     (sample_claim_input ''s1'' [(Claim_path, ''src/**'')]) 0 (sample_fresh ''c'') =
   Inr (sample_db1, sample_set ''s1'', [sample_claim ''ci'' ''s1'' ''src/**''])"
proof -
  have 1: "normalizeSpecs False sample_collate (ci_claims (sample_claim_input ''s1'' [(Claim_path, ''src/**'')]))
      = Inr [sample_path ''src/**'']"
    by code_simp
  have 2: "bounded ''s1'' 512 = Inr ''s1''" by code_simp
  have 3: "activeClaims sample_run_db ''ws'' = Inr []" by code_simp
  have 4: "build_set (sample_claim_input ''s1'' [(Claim_path, ''src/**'')]) ''s1'' [sample_path ''src/**''] 0
      (sample_fresh ''c'') = Inr (sample_set ''s1'', [sample_claim ''ci'' ''s1'' ''src/**''])"
    by (rule sample_built) (simp_all add: sample_fresh_def sample_claim_as sample_claim_parsed sample_trim)
  have 5: "insertSet sample_run_db (sample_set ''s1'') [sample_claim ''ci'' ''s1'' ''src/**''] =
      Inr (sample_db1\<lparr>cd_events := []\<rparr>)"
    by (simp add: sample_run_db_eq sample_set_inserted sample_claim_inserted sample_set_id) (simp add: sample_claims_db_def)
  show ?thesis
    using sample_acquires [OF 1 2 _ _ 3 _ 4 5]
    by (simp add: sample_run_db_eq sample_claims_db_def readSetRow_def find_row_def assertNoConflicts_def
        claim_conflicts_def claimEvent_def sample_set_def)
qed

lemma sample_claimed_twice:
  "acquireResourceClaimSet False sample_collate sample_db1
     (sample_claim_input ''s2'' [(Claim_path, ''docs'')]) 0 (sample_fresh ''d'') =
   Inr (sample_claims_db [sample_set ''s1'', sample_set ''s2'']
          [sample_claim ''ci'' ''s1'' ''src/**'', sample_claim ''di'' ''s2'' ''docs''],
        sample_set ''s2'', [sample_claim ''di'' ''s2'' ''docs''])"
proof -
  have 1: "normalizeSpecs False sample_collate (ci_claims (sample_claim_input ''s2'' [(Claim_path, ''docs'')]))
      = Inr [sample_path ''docs'']"
    by code_simp
  have 2: "bounded ''s2'' 512 = Inr ''s2''" by code_simp
  have 3: "activeClaims sample_db1 ''ws'' = Inr [sample_claim ''ci'' ''s1'' ''src/**'']" by code_simp
  have 4: "assertNoConflicts False [sample_path ''docs''] [sample_claim ''ci'' ''s1'' ''src/**''] None = Inr ()"
    by code_simp
  have 5: "build_set (sample_claim_input ''s2'' [(Claim_path, ''docs'')]) ''s2'' [sample_path ''docs''] 0
      (sample_fresh ''d'') = Inr (sample_set ''s2'', [sample_claim ''di'' ''s2'' ''docs''])"
    by (rule sample_built) (simp_all add: sample_fresh_def sample_claim_as sample_claim_parsed sample_trim)
  have 6: "insertSet sample_db1 (sample_set ''s2'') [sample_claim ''di'' ''s2'' ''docs''] =
      Inr ((sample_claims_db [sample_set ''s1'', sample_set ''s2'']
          [sample_claim ''ci'' ''s1'' ''src/**'', sample_claim ''di'' ''s2'' ''docs''])
          \<lparr>cd_events := cd_events sample_db1\<rparr>)"
    by (simp add: sample_set_inserted sample_claim_inserted sample_set_id sample_claim_id)
  show ?thesis
    using sample_acquires [OF 1 2 _ _ 3 4 5 6]
    by (simp add: sample_claims_db_def readSetRow_def find_row_def claimEvent_def sample_set_def)
qed

lemma sample_run_steps: "claim_steps False empty_claim_db sample_run_db"
  unfolding sample_run_db_def using cstep_runs by blast

lemma sample_claimed_steps: "claim_steps False empty_claim_db sample_db1"
  using sample_run_steps cstep_acquire [OF sample_claimed] by (rule rtranclp.rtrancl_into_rtrancl)

text \<open>
  C3. Parallel work never holds conflicting resources: in every ledger the claim operations reach
  from an empty one, whatever the leases and runs do meanwhile, two active claims of different
  sets in one workspace do not conflict.
\<close>

theorem active_claims_never_conflict:
  assumes "claim_steps win empty_claim_db db"
    and "a \<in> set (cd_claims db)" and "b \<in> set (cd_claims db)"
    and "cl_status a = Claim_active" and "cl_status b = Claim_active"
    and "cl_workspaceId a = cl_workspaceId b" and "cl_claimSetId a \<noteq> cl_claimSetId b"
  shows "\<not> claimsConflict win (cl_spec a) b"
  using claim_db_okD(6) [OF claim_steps_ok [OF assms(1)]] assms(2-7)
  unfolding claims_disjoint_def claimsConflict_spec by blast

theorem active_claims_never_conflict_witness:
  "\<exists>db a b. claim_steps False empty_claim_db db \<and> cd_claims db = [a, b] \<and>
     cl_claimSetId a \<noteq> cl_claimSetId b \<and> \<not> claimsConflict False (cl_spec a) b"
proof -
  let ?db = "sample_claims_db [sample_set ''s1'', sample_set ''s2'']
          [sample_claim ''ci'' ''s1'' ''src/**'', sample_claim ''di'' ''s2'' ''docs'']"
  have run: "claim_steps False empty_claim_db ?db"
    using sample_claimed_steps cstep_acquire [OF sample_claimed_twice] by (rule rtranclp.rtrancl_into_rtrancl)
  have c: "cd_claims ?db = [sample_claim ''ci'' ''s1'' ''src/**'', sample_claim ''di'' ''s2'' ''docs'']"
    by (simp add: sample_claims_db_def)
  have "sample_claim ''ci'' ''s1'' ''src/**'' \<in> set (cd_claims ?db)" "sample_claim ''di'' ''s2'' ''docs'' \<in> set (cd_claims ?db)"
    by (simp_all add: c)
  from active_claims_never_conflict [OF run this]
  have "\<not> claimsConflict False (cl_spec (sample_claim ''ci'' ''s1'' ''src/**'')) (sample_claim ''di'' ''s2'' ''docs'')"
    by (simp add: sample_claim_def new_claim_def)
  moreover have "cl_claimSetId (sample_claim ''ci'' ''s1'' ''src/**'') \<noteq> cl_claimSetId (sample_claim ''di'' ''s2'' ''docs'')"
    by (simp add: sample_claim_def new_claim_def)
  ultimately show ?thesis
    using run c by blast
qed

text \<open>
  What an acquisition returns is held: the set is in the ledger and active, its claims are
  exactly those the ledger has for it, and they are the normalised request, in order.
\<close>

theorem acquired_set_is_held:
  assumes "claim_steps win empty_claim_db db"
    and "acquireResourceClaimSet win collate db input now fresh = Inr (db', s, cs)"
  shows "readSetRow db' (st_id s) = Some s \<and> st_status s = Claim_active \<and>
    set cs = {c \<in> set (cd_claims db'). cl_claimSetId c = st_id s} \<and>
    normalizeSpecs win collate (ci_claims input) = Inr (map cl_spec cs)"
  using acquire_ok [OF claim_steps_ok [OF assms(1)] assms(2)] acquire_specs [OF assms(2)] by simp

theorem acquired_set_is_held_witness:
  "readSetRow sample_db1 ''s1'' = Some (sample_set ''s1'') \<and> st_status (sample_set ''s1'') = Claim_active"
  using acquired_set_is_held [OF sample_run_steps sample_claimed] by (simp add: sample_set_def)

text \<open>
  C26. Expired claims cannot be ended: in every reachable ledger, once the lease time of an active
  set has passed, neither its owner nor a supervisor can release it, and its recovery fails at
  any time, because the tables refuse a row whose \<^verbatim>\<open>renewed_at\<close> is not before its
  \<^verbatim>\<open>expires_at\<close>.
\<close>

theorem expired_claims_cannot_end:
  assumes "claim_steps win empty_claim_db db" and "readSetRow db i = Some s"
    and "st_status s = Claim_active" and "st_expiresAt s \<le> now"
  shows "\<not> ok (releaseResourceClaimSet win db i ow reason now) \<and>
    \<not> ok (releaseResourceClaimSetBySupervisor win db i au reason now) \<and>
    \<not> ok (recoverExpiredResourceClaimSet win db i prf t)"
proof -
  note ok = claim_steps_ok [OF assms(1)]
  have "\<not> ok (transitionActiveClaimSet win db i auth (end_transition Claim_released now reason ev))" for auth ev
    using transition_checked [OF ok assms(2,3), of "end_transition Claim_released now reason ev" auth] assms(4)
    by (fastforce simp: ok_iff end_transition_def)
  then show ?thesis
    using recover_fails [OF ok] by (simp add: releaseResourceClaimSet_def releaseResourceClaimSetBySupervisor_def)
qed

theorem expired_claims_cannot_end_witness:
  "claim_steps False empty_claim_db sample_db1 \<and> readSetRow sample_db1 ''s1'' = Some (sample_set ''s1'') \<and>
   \<not> ok (releaseResourceClaimSet False sample_db1 ''s1'' sample_claim_owner ''done'' 1000)"
proof -
  have s: "readSetRow sample_db1 ''s1'' = Some (sample_set ''s1'')" "st_status (sample_set ''s1'') = Claim_active"
    "st_expiresAt (sample_set ''s1'') \<le> 1000"
    by (simp_all add: sample_claims_db_def sample_set_def readSetRow_def find_row_def)
  show ?thesis
    using expired_claims_cannot_end [OF sample_claimed_steps s] sample_claimed_steps s by blast
qed

text \<open>
  Path claims overlap exactly when one path is the other or lies below it: of the segments of
  the two normalised prefixes, one list is a prefix of the other.
\<close>

theorem path_overlap_is_segment_prefix:
  "pathClaimsOverlap win left right =
     (prefix (split_on (CHR ''/'') (pathPrefix win left)) (split_on (CHR ''/'') (pathPrefix win right)) \<or>
      prefix (split_on (CHR ''/'') (pathPrefix win right)) (split_on (CHR ''/'') (pathPrefix win left)))"
  by (auto simp: pathClaimsOverlap_def Let_def starts_with_segments segments_prefix)

text \<open>
  An identical retry can be refused: the idempotence check compares the stored claims in the
  ledger's binary key order with the request in collation order, so a request whose keys the two
  orders arrange differently is acquired once and then rejected as a reused identity.
\<close>

theorem identical_retry_can_be_refused:
  "\<exists>db r. acquireResourceClaimSet False sample_collate sample_run_db
       (sample_claim_input ''s1'' [(Claim_path, ''a''), (Claim_path, ''B'')]) 0 (sample_fresh ''c'') = Inr (db, r) \<and>
     acquireResourceClaimSet False sample_collate db
       (sample_claim_input ''s1'' [(Claim_path, ''a''), (Claim_path, ''B'')]) 0 (sample_fresh ''d'') =
       Inl (RalphError ''RALPH_RESOURCE_CLAIM_ID_REUSED'' Exit_conflict)"
proof -
  let ?in = "sample_claim_input ''s1'' [(Claim_path, ''a''), (Claim_path, ''B'')]"
  let ?cs = "[sample_claim ''ci'' ''s1'' ''a'', sample_claim ''cii'' ''s1'' ''B'']"
  let ?db = "sample_claims_db [sample_set ''s1''] ?cs"
  have 1: "normalizeSpecs False sample_collate (ci_claims ?in) = Inr [sample_path ''a'', sample_path ''B'']"
    by code_simp
  have 2: "bounded ''s1'' 512 = Inr ''s1''" by code_simp
  have 3: "activeClaims sample_run_db ''ws'' = Inr []" by code_simp
  have 4: "build_set ?in ''s1'' [sample_path ''a'', sample_path ''B''] 0 (sample_fresh ''c'') = Inr (sample_set ''s1'', ?cs)"
    by (rule sample_built) (simp_all add: sample_fresh_def sample_claim_as sample_claim_parsed sample_trim)
  have 5: "insertSet sample_run_db (sample_set ''s1'') ?cs = Inr (?db\<lparr>cd_events := []\<rparr>)"
    by (simp add: sample_run_db_eq sample_set_inserted sample_claim_inserted sample_set_id sample_claim_id)
      (simp add: sample_claims_db_def)
  have first: "acquireResourceClaimSet False sample_collate sample_run_db ?in 0 (sample_fresh ''c'') =
      Inr (?db, sample_set ''s1'', ?cs)"
    using sample_acquires [OF 1 2 _ _ 3 _ 4 5]
    by (simp add: sample_run_db_eq sample_claims_db_def readSetRow_def find_row_def assertNoConflicts_def
        claim_conflicts_def claimEvent_def sample_set_def)
  have 6: "setFromRow ?db (sample_set ''s1'') = Inr (sample_set ''s1'', rev ?cs)"
    by code_simp
  have 7: "readSetRow ?db ''s1'' = Some (sample_set ''s1'')"
    by (simp add: sample_claims_db_def sample_set_def readSetRow_def find_row_def)
  have "map cl_spec (rev ?cs) \<noteq> [sample_path ''a'', sample_path ''B'']"
    by (simp add: sample_claim_def new_claim_def sample_path_def)
  moreover have "ci_leaseDurationMs ?in = 1000" "ci_staleGraceMs ?in = 500" "ci_id ?in = Some ''s1''"
    by (simp_all add: sample_claim_input_def)
  ultimately have "acquireResourceClaimSet False sample_collate ?db ?in 0 (sample_fresh ''d'') =
      Inl (RalphError ''RALPH_RESOURCE_CLAIM_ID_REUSED'' Exit_conflict)"
    using 1 2 6 7 by (simp add: acquireResourceClaimSet_def claim_duration_def safe_int_def)
  with first show ?thesis
    by blast
qed

end
