(* ===== verification/PrdOrder.thy ===== *)
theory PrdOrder
  imports PrdModel "HOL-Library.Multiset"
begin

text \<open>
  \<^verbatim>\<open>dependencyOrder\<close> of \<^verbatim>\<open>packages/prd/src/graph.ts\<close>: the order of the tasks of one
  document, by counting open dependencies. The loop is proved to end and to compute the reference
  order \<open>ready_order\<close>; it finds an order whenever there is one, and reports an error otherwise.
  A diagnostic keeps its code, severity, file and task; its message and hint are left out.
\<close>

section \<open>Diagnostics\<close>

datatype severity = Sev_error | Sev_warning | Sev_info

text \<open>The task identifier stands for the source location of the task.\<close>

record diagnostic =
  dg_code :: string
  dg_severity :: severity
  dg_file :: "string option"
  dg_task :: "string option"

definition error_in_file :: "string \<Rightarrow> string \<Rightarrow> diagnostic" where
  "error_in_file code file =
     \<lparr>dg_code = code, dg_severity = Sev_error, dg_file = Some file, dg_task = None\<rparr>"

definition error_in_task :: "string \<Rightarrow> prd_document \<Rightarrow> string \<Rightarrow> diagnostic" where
  "error_in_task code document taskId =
     \<lparr>dg_code = code, dg_severity = Sev_error, dg_file = Some (pd_file document), dg_task = Some taskId\<rparr>"

definition plain_error :: "string \<Rightarrow> diagnostic" where
  "plain_error code = \<lparr>dg_code = code, dg_severity = Sev_error, dg_file = None, dg_task = None\<rparr>"

definition hasErrors :: "diagnostic list \<Rightarrow> bool" where
  "hasErrors diagnostics \<longleftrightarrow> list_ex (\<lambda>d. dg_severity d = Sev_error) diagnostics"

section \<open>The order of one document\<close>

definition default_zero :: "int option \<Rightarrow> int" where
  "default_zero v = (case v of None \<Rightarrow> 0 | Some n \<Rightarrow> n)"

definition default_nil :: "'a list option \<Rightarrow> 'a list" where
  "default_nil v = (case v of None \<Rightarrow> [] | Some xs \<Rightarrow> xs)"

definition task_map :: "prd_document \<Rightarrow> string \<rightharpoonup> prd_task" where
  "task_map document = js_map (map (\<lambda>task. (pt_id task, task)) (pd_tasks document))"

record order_scan =
  os_inDegree :: "string \<rightharpoonup> int"
  os_dependents :: "string \<rightharpoonup> string list"
  os_valid :: bool
  os_diagnostics :: "diagnostic list"

definition scan_dependency :: "prd_document \<Rightarrow> prd_task \<Rightarrow> order_scan \<Rightarrow> string \<Rightarrow> order_scan" where
  "scan_dependency document task s dependency =
     (if dependency = pt_id task then
        s\<lparr>os_valid := False,
          os_diagnostics := os_diagnostics s @
            [error_in_task ''RALPH_PRD_DEPENDENCY_SELF'' document (pt_id task)]\<rparr>
      else if task_map document dependency = None then
        s\<lparr>os_valid := False,
          os_diagnostics := os_diagnostics s @
            [error_in_task ''RALPH_PRD_DEPENDENCY_MISSING'' document (pt_id task)]\<rparr>
      else
        s\<lparr>os_inDegree := (os_inDegree s)(pt_id task \<mapsto> default_zero (os_inDegree s (pt_id task)) + 1),
          os_dependents :=
            (case os_dependents s dependency of
               None \<Rightarrow> os_dependents s
             | Some ids \<Rightarrow> (os_dependents s)(dependency \<mapsto> ids @ [pt_id task]))\<rparr>)"

definition initial_scan :: "prd_document \<Rightarrow> diagnostic list \<Rightarrow> order_scan" where
  "initial_scan document diagnostics =
     \<lparr>os_inDegree = js_map (map (\<lambda>task. (pt_id task, 0)) (pd_tasks document)),
      os_dependents = js_map (map (\<lambda>task. (pt_id task, [])) (pd_tasks document)),
      os_valid = True, os_diagnostics = diagnostics\<rparr>"

definition scan_task :: "prd_document \<Rightarrow> order_scan \<Rightarrow> prd_task \<Rightarrow> order_scan" where
  "scan_task document s task = foldl (scan_dependency document task) s (pt_dependencies task)"

definition scan_tasks :: "prd_document \<Rightarrow> diagnostic list \<Rightarrow> order_scan" where
  "scan_tasks document diagnostics =
     foldl (scan_task document) (initial_scan document diagnostics) (pd_tasks document)"

definition authored_index :: "prd_document \<Rightarrow> prd_task \<Rightarrow> nat" where
  "authored_index document task =
     (case js_map (zip (map pt_id (pd_tasks document)) [0..<length (pd_tasks document)]) (pt_id task) of
        None \<Rightarrow> 0 | Some i \<Rightarrow> i)"

definition authored_before :: "prd_document \<Rightarrow> prd_task \<Rightarrow> prd_task \<Rightarrow> bool" where
  "authored_before document left right \<longleftrightarrow> authored_index document left \<le> authored_index document right"

text \<open>One dependent of the task just ordered.\<close>

definition release_dependent ::
  "prd_document \<Rightarrow> (string \<rightharpoonup> int) \<times> prd_task list \<Rightarrow> string \<Rightarrow> (string \<rightharpoonup> int) \<times> prd_task list" where
  "release_dependent document s dependent =
     (case s of (inDegree, queue) \<Rightarrow>
      let remaining = default_zero (inDegree dependent) - 1 in
      (inDegree(dependent \<mapsto> remaining),
       if remaining = 0 then
         (case task_map document dependent of None \<Rightarrow> queue | Some task \<Rightarrow> queue @ [task])
       else queue))"

definition open_edges :: "prd_document \<Rightarrow> (string \<rightharpoonup> int) \<Rightarrow> nat" where
  "open_edges document inDegree =
     (\<Sum>i \<in> pt_id ` set (pd_tasks document). nat (default_zero (inDegree i)))"

lemma task_map_in: "task_map document i = Some t \<Longrightarrow> t \<in> set (pd_tasks document) \<and> pt_id t = i"
  by (auto simp: task_map_def js_map_def dest: map_of_SomeD)

lemma length_release:
  "length (snd (release_dependent document s d)) + open_edges document (fst (release_dependent document s d))
    \<le> length (snd s) + open_edges document (fst s)"
proof (cases s)
  case (Pair inDegree queue)
  let ?ids = "pt_id ` set (pd_tasks document)"
  let ?new = "inDegree(d \<mapsto> default_zero (inDegree d) - 1)"
  show ?thesis
  proof (cases "d \<in> ?ids")
    case True
    have split: "open_edges document m = nat (default_zero (m d)) + (\<Sum>i \<in> ?ids - {d}. nat (default_zero (m i)))" for m
      unfolding open_edges_def using True by (simp add: sum.remove)
    have "(\<Sum>i \<in> ?ids - {d}. nat (default_zero (?new i))) = (\<Sum>i \<in> ?ids - {d}. nat (default_zero (inDegree i)))"
      by (rule sum.cong) auto
    then show ?thesis
      unfolding Pair release_dependent_def Let_def split
      by (auto simp: default_zero_def split: option.splits)
  next
    case False
    then have "task_map document d = None"
      using task_map_in by (cases "task_map document d") auto
    moreover have "open_edges document ?new = open_edges document inDegree"
      unfolding open_edges_def using False by (intro sum.cong) auto
    ultimately show ?thesis
      by (simp add: Pair release_dependent_def Let_def)
  qed
qed

lemma length_release_all:
  "length (snd (foldl (release_dependent document) s ds)) + open_edges document (fst (foldl (release_dependent document) s ds))
    \<le> length (snd s) + open_edges document (fst s)"
proof (induction ds arbitrary: s)
  case Nil
  then show ?case by simp
next
  case (Cons d ds)
  show ?case
    using Cons [of "release_dependent document s d"] length_release [of document s d] by simp
qed

function order_loop ::
  "prd_document \<Rightarrow> (string \<rightharpoonup> string list) \<Rightarrow> (string \<rightharpoonup> int) \<Rightarrow> prd_task list \<Rightarrow> prd_task list \<Rightarrow> prd_task list"
  where
  "order_loop document dependents inDegree queue ordered =
     (case sort_by (authored_before document) queue of
        [] \<Rightarrow> ordered
      | task # rest \<Rightarrow>
          order_loop document dependents
            (fst (foldl (release_dependent document) (inDegree, rest) (default_nil (dependents (pt_id task)))))
            (snd (foldl (release_dependent document) (inDegree, rest) (default_nil (dependents (pt_id task)))))
            (ordered @ [task]))"
  by pat_completeness auto

termination
proof (relation "measure (\<lambda>(document, _, inDegree, queue, _). length queue + open_edges document inDegree)")
  fix document :: prd_document and dependents :: "string \<rightharpoonup> string list" and inDegree :: "string \<rightharpoonup> int"
    and queue ordered task rest
  assume "sort_by (authored_before document) queue = task # rest"
  then have "length queue = Suc (length rest)"
    by (metis length_Cons length_sort_by)
  then show "((document, dependents,
      fst (foldl (release_dependent document) (inDegree, rest) (default_nil (dependents (pt_id task)))),
      snd (foldl (release_dependent document) (inDegree, rest) (default_nil (dependents (pt_id task)))),
      ordered @ [task]), document, dependents, inDegree, queue, ordered)
    \<in> measure (\<lambda>(document, _, inDegree, queue, _). length queue + open_edges document inDegree)"
    using length_release_all [of document "(inDegree, rest)" "default_nil (dependents (pt_id task))"] by simp
qed simp

declare order_loop.simps [simp del]

text \<open>\<open>dependencyOrder\<close>: the order, if there is one, and the diagnostics with those it adds.\<close>

definition dependencyOrder ::
  "prd_document \<Rightarrow> diagnostic list \<Rightarrow> prd_task list option \<times> diagnostic list" where
  "dependencyOrder document diagnostics =
     (let s = scan_tasks document diagnostics in
      if \<not> os_valid s then (None, os_diagnostics s)
      else
        (let queue = filter (\<lambda>task. os_inDegree s (pt_id task) = Some 0) (pd_tasks document);
             ordered = order_loop document (os_dependents s) (os_inDegree s) queue []
         in if length ordered \<noteq> length (pd_tasks document) then
              (None, os_diagnostics s @
                 map (\<lambda>task. error_in_task ''RALPH_PRD_DEPENDENCY_CYCLE'' document (pt_id task))
                   (filter (\<lambda>task. pt_id task \<notin> pt_id ` set ordered) (pd_tasks document)))
            else (Some ordered, os_diagnostics s)))"

section \<open>The order the loop computes\<close>

text \<open>The reference: again and again the first task, as written, whose dependencies are done.\<close>

fun ready_order :: "nat \<Rightarrow> prd_task list \<Rightarrow> string list \<Rightarrow> prd_task list" where
  "ready_order 0 tasks done = []"
| "ready_order (Suc n) tasks done =
     (case find (\<lambda>t. pt_id t \<notin> set done \<and> set (pt_dependencies t) \<subseteq> set done) tasks of
        None \<Rightarrow> []
      | Some t \<Rightarrow> t # ready_order n tasks (pt_id t # done))"

fun deps_ordered :: "string list \<Rightarrow> prd_task list \<Rightarrow> bool" where
  "deps_ordered done [] = True"
| "deps_ordered done (t # ts) \<longleftrightarrow> set (pt_dependencies t) \<subseteq> set done \<and> deps_ordered (pt_id t # done) ts"

definition distinct_ids :: "prd_document \<Rightarrow> bool" where
  "distinct_ids document \<longleftrightarrow> distinct (map pt_id (pd_tasks document))"

definition has_order :: "prd_document \<Rightarrow> bool" where
  "has_order document \<longleftrightarrow> (\<exists>ts. mset ts = mset (pd_tasks document) \<and> deps_ordered [] ts)"

definition local_deps :: "prd_document \<Rightarrow> bool" where
  "local_deps document \<longleftrightarrow>
     (\<forall>t \<in> set (pd_tasks document). \<forall>d \<in> set (pt_dependencies t).
        d \<noteq> pt_id t \<and> d \<in> pt_id ` set (pd_tasks document))"

lemma task_map_Some:
  assumes "distinct_ids document"
  shows "task_map document i = Some t \<longleftrightarrow> t \<in> set (pd_tasks document) \<and> pt_id t = i"
proof -
  have d: "distinct (map fst (map (\<lambda>task. (pt_id task, task)) (pd_tasks document)))"
    using assms by (simp add: distinct_ids_def comp_def)
  show ?thesis
    unfolding task_map_def js_map_distinct [OF d] map_of_eq_Some_iff [OF d] by auto
qed

lemma task_map_None:
  "task_map document i = None \<longleftrightarrow> i \<notin> pt_id ` set (pd_tasks document)"
  by (force simp: task_map_def js_map_def map_of_eq_None_iff)

lemma ids_inj:
  "distinct_ids document \<Longrightarrow> t \<in> set (pd_tasks document) \<Longrightarrow> u \<in> set (pd_tasks document) \<Longrightarrow>
   pt_id t = pt_id u \<Longrightarrow> t = u"
  by (auto simp: distinct_ids_def distinct_map inj_on_def)

subsection \<open>The scan\<close>

definition pending_count :: "prd_task \<Rightarrow> string set \<Rightarrow> int" where
  "pending_count t done = int (length (filter (\<lambda>d. d \<notin> done) (pt_dependencies t)))"

lemma scan_deps:
  assumes "distinct_ids document" and "task \<in> set (pd_tasks document)"
    and "\<forall>d \<in> set ds. d \<noteq> pt_id task \<and> d \<in> pt_id ` set (pd_tasks document)"
    and "dom (os_dependents s) = pt_id ` set (pd_tasks document)"
    and "os_inDegree s (pt_id task) = Some n"
  shows "foldl (scan_dependency document task) s ds =
    s\<lparr>os_inDegree := (os_inDegree s)(pt_id task \<mapsto> n + int (length ds)),
      os_dependents := (\<lambda>d. map_option (\<lambda>ids. ids @ replicate (count_list ds d) (pt_id task)) (os_dependents s d))\<rparr>"
  using assms(3-5)
proof (induction ds arbitrary: s n)
  case Nil
  then have "(os_inDegree s)(pt_id task \<mapsto> n) = os_inDegree s"
    by (simp add: fun_upd_idem)
  moreover have "(\<lambda>d. map_option (\<lambda>ids. ids @ replicate 0 (pt_id task)) (os_dependents s d)) = os_dependents s"
    by (rule ext) (simp add: option.map_ident)
  ultimately show ?case by simp
next
  case (Cons d ds)
  obtain ids where ids: "os_dependents s d = Some ids"
    using Cons.prems(1,2) by auto
  have step: "scan_dependency document task s d =
      s\<lparr>os_inDegree := (os_inDegree s)(pt_id task \<mapsto> n + 1),
        os_dependents := (os_dependents s)(d \<mapsto> ids @ [pt_id task])\<rparr>"
    using Cons.prems ids by (auto simp: scan_dependency_def task_map_None default_zero_def)
  have dom: "dom ((os_dependents s)(d \<mapsto> ids @ [pt_id task])) = pt_id ` set (pd_tasks document)"
    using Cons.prems(1,2) by (simp add: insert_absorb)
  have fold: "foldl (scan_dependency document task) (scan_dependency document task s d) ds =
      (scan_dependency document task s d)\<lparr>os_inDegree := (os_inDegree (scan_dependency document task s d))(pt_id task \<mapsto> n + 1 + int (length ds)),
      os_dependents := (\<lambda>x. map_option (\<lambda>ids. ids @ replicate (count_list ds x) (pt_id task)) (os_dependents (scan_dependency document task s d) x))\<rparr>"
  proof (rule Cons.IH)
    show "\<forall>d \<in> set ds. d \<noteq> pt_id task \<and> d \<in> pt_id ` set (pd_tasks document)"
      using Cons.prems(1) by simp
    show "dom (os_dependents (scan_dependency document task s d)) = pt_id ` set (pd_tasks document)"
      using dom by (simp add: step)
  qed (simp add: step)
  show ?case
    unfolding foldl_Cons fold unfolding step
    by (rule order_scan.equality) (auto simp: fun_eq_iff ids replicate_append_same [symmetric])
qed

lemma scan_invalid_deps:
  "\<not> os_valid s \<Longrightarrow> \<not> os_valid (foldl (scan_dependency document task) s ds)"
  by (induction ds arbitrary: s) (auto simp: scan_dependency_def)

lemma scan_bad_dep:
  "d \<in> set ds \<Longrightarrow> d = pt_id task \<or> d \<notin> pt_id ` set (pd_tasks document) \<Longrightarrow>
   \<not> os_valid (foldl (scan_dependency document task) s ds)"
proof (induction ds arbitrary: s)
  case (Cons x ds)
  show ?case
  proof (cases "x = d")
    case True
    then have "\<not> os_valid (scan_dependency document task s x)"
      using Cons.prems(2) by (auto simp: scan_dependency_def task_map_None)
    then show ?thesis
      by (simp add: scan_invalid_deps)
  next
    case False
    then show ?thesis
      using Cons by simp
  qed
qed simp

lemma scan_tasks_invalid:
  "\<not> os_valid s \<Longrightarrow> \<not> os_valid (foldl (scan_task document) s ts)"
  by (induction ts arbitrary: s) (auto simp: scan_task_def scan_invalid_deps)

lemma scan_bad:
  assumes "\<not> local_deps document"
  shows "\<not> os_valid (scan_tasks document diagnostics)"
proof -
  obtain t d where t: "t \<in> set (pd_tasks document)" "d \<in> set (pt_dependencies t)"
    and d: "d = pt_id t \<or> d \<notin> pt_id ` set (pd_tasks document)"
    using assms unfolding local_deps_def by blast
  obtain xs ys where xs: "pd_tasks document = xs @ t # ys"
    using t(1) by (meson split_list)
  have "\<not> os_valid (scan_task document (foldl (scan_task document) (initial_scan document diagnostics) xs) t)"
    unfolding scan_task_def by (rule scan_bad_dep [OF t(2) d])
  then show ?thesis
    unfolding scan_tasks_def by (subst xs) (simp add: scan_tasks_invalid)
qed

lemma scan_good:
  fixes diagnostics :: "diagnostic list"
  assumes "distinct_ids document" and "local_deps document"
  defines "s \<equiv> scan_tasks document diagnostics"
  shows "os_valid s" and "os_diagnostics s = diagnostics"
    and "\<And>t. t \<in> set (pd_tasks document) \<Longrightarrow> os_inDegree s (pt_id t) = Some (pending_count t {})"
    and "\<And>d t. t \<in> set (pd_tasks document) \<Longrightarrow>
      count_list (default_nil (os_dependents s d)) (pt_id t) =
        (if d \<in> pt_id ` set (pd_tasks document) then count_list (pt_dependencies t) d else 0)"
    and "\<And>d. set (default_nil (os_dependents s d)) \<subseteq> pt_id ` set (pd_tasks document)"
proof -
  let ?ids = "pt_id ` set (pd_tasks document)"
  let ?s0 = "initial_scan document diagnostics"
  have dist: "distinct (map fst (map (\<lambda>task. (pt_id task, v)) (pd_tasks document)))" for v
    using assms(1) by (simp add: distinct_ids_def comp_def)
  have init: "os_inDegree ?s0 i = (if i \<in> ?ids then Some 0 else None)"
    "os_dependents ?s0 i = (if i \<in> ?ids then Some [] else None)" for i
    unfolding initial_scan_def order_scan.simps js_map_distinct [OF dist]
    by (auto simp: map_of_eq_None_iff map_of_map_keys intro!: map_of_is_SomeI dist)
  have *: "foldl (scan_task document) ?s0 xs = ?s0
     \<lparr>os_inDegree := (\<lambda>i. if i \<in> ?ids then Some (case find (\<lambda>t. pt_id t = i) xs of None \<Rightarrow> 0 | Some t \<Rightarrow> int (length (pt_dependencies t))) else None),
      os_dependents := (\<lambda>d. if d \<in> ?ids then Some (concat (map (\<lambda>t. replicate (count_list (pt_dependencies t) d) (pt_id t)) xs)) else None)\<rparr>"
    if "pd_tasks document = xs @ ys" for xs ys
    using that
  proof (induction xs arbitrary: ys rule: rev_induct)
    case Nil
    have e: "(\<lambda>i. if i \<in> ?ids then Some (case find (\<lambda>t. pt_id t = i) [] of None \<Rightarrow> 0 | Some t \<Rightarrow> int (length (pt_dependencies t))) else None) = os_inDegree ?s0"
      "(\<lambda>d. if d \<in> ?ids then Some (concat (map (\<lambda>t. replicate (count_list (pt_dependencies t) d) (pt_id t)) [])) else None) = os_dependents ?s0"
      by (rule ext, simp add: init)+
    show ?case
      by (simp add: e)
  next
    case (snoc t xs)
    let ?s1 = "foldl (scan_task document) ?s0 xs"
    note IH = snoc.IH [of "t # ys"]
    have t: "t \<in> set (pd_tasks document)"
      using snoc.prems by simp
    have fresh: "find (\<lambda>u. pt_id u = pt_id t) xs = None"
      using assms(1) snoc.prems unfolding distinct_ids_def find_None_conv by (metis distinct_append distinct.simps(2) disjoint_iff append_Cons image_eqI list.set_map list.set_intros(1) map_append list.map(2))
    have s1: "os_inDegree ?s1 (pt_id t) = Some 0" "dom (os_dependents ?s1) = ?ids"
      using IH snoc.prems t by (auto simp: fresh split: if_splits)
    have "scan_task document ?s1 t = foldl (scan_dependency document t) ?s1 (pt_dependencies t)"
      by (rule scan_task_def)
    also have "\<dots> = ?s1
        \<lparr>os_inDegree := (os_inDegree ?s1)(pt_id t \<mapsto> 0 + int (length (pt_dependencies t))),
         os_dependents := (\<lambda>d. map_option (\<lambda>ids. ids @ replicate (count_list (pt_dependencies t) d) (pt_id t)) (os_dependents ?s1 d))\<rparr>"
    proof (rule scan_deps [OF assms(1) t _ s1(2) s1(1)])
      show "\<forall>d \<in> set (pt_dependencies t). d \<noteq> pt_id t \<and> d \<in> ?ids"
        using assms(2) t by (simp add: local_deps_def)
    qed
    finally have "scan_task document ?s1 t = ?s1
        \<lparr>os_inDegree := (os_inDegree ?s1)(pt_id t \<mapsto> 0 + int (length (pt_dependencies t))),
         os_dependents := (\<lambda>d. map_option (\<lambda>ids. ids @ replicate (count_list (pt_dependencies t) d) (pt_id t)) (os_dependents ?s1 d))\<rparr>" .
    moreover have "(os_inDegree ?s1)(pt_id t \<mapsto> int (length (pt_dependencies t))) =
        (\<lambda>i. if i \<in> ?ids then Some (case find (\<lambda>t. pt_id t = i) (xs @ [t]) of None \<Rightarrow> 0 | Some t \<Rightarrow> int (length (pt_dependencies t))) else None)"
      using IH snoc.prems t fresh
      by (auto simp: fun_eq_iff find_append split: option.splits)
    moreover have "(\<lambda>d. map_option (\<lambda>ids. ids @ replicate (count_list (pt_dependencies t) d) (pt_id t)) (os_dependents ?s1 d)) =
        (\<lambda>d. if d \<in> ?ids then Some (concat (map (\<lambda>t. replicate (count_list (pt_dependencies t) d) (pt_id t)) (xs @ [t]))) else None)"
      using IH snoc.prems by (auto simp: fun_eq_iff)
    ultimately show ?case
      using IH snoc.prems by simp
  qed
  note s = * [of "pd_tasks document" "[]", simplified, folded scan_tasks_def, folded s_def]
  show "os_valid s" "os_diagnostics s = diagnostics"
    by (simp_all add: s initial_scan_def)
  show "os_inDegree s (pt_id t) = Some (pending_count t {})" if t: "t \<in> set (pd_tasks document)" for t
  proof -
    have "find (\<lambda>u. pt_id u = pt_id t) (pd_tasks document) = Some t"
    proof (cases "find (\<lambda>u. pt_id u = pt_id t) (pd_tasks document)")
      case None
      then show ?thesis using t by (auto simp: find_None_conv)
    next
      case (Some u)
      then show ?thesis using ids_inj [OF assms(1)] t by (auto dest!: find_SomeD)
    qed
    then show ?thesis
      using t by (simp add: s pending_count_def)
  qed
  have count: "count_list (concat (map (\<lambda>u. replicate (f u) (pt_id u)) us)) (pt_id t) = f t"
    if "t \<in> set us" "set us \<subseteq> set (pd_tasks document)" "distinct (map pt_id us)" for us f t
    using that
  proof (induction us)
    case (Cons u us)
    have other: "count_list (concat (map (\<lambda>u. replicate (f u) (pt_id u)) us)) i = 0" if "i \<notin> pt_id ` set us" for i
      using that by (induction us) (auto simp: count_list_0_iff)
    have "count_list (replicate n x) y = (if x = y then n else 0)" for n and x y :: string
      by (induction n) auto
    with Cons other show ?case by force
  qed simp
  show "count_list (default_nil (os_dependents s d)) (pt_id t) =
      (if d \<in> ?ids then count_list (pt_dependencies t) d else 0)" if "t \<in> set (pd_tasks document)" for d t
    using count [OF that subset_refl, of "\<lambda>t. count_list (pt_dependencies t) d"] assms(1)
    by (simp add: s default_nil_def distinct_ids_def)
  show "set (default_nil (os_dependents s d)) \<subseteq> ?ids" for d
    by (auto simp: s default_nil_def)
qed

subsection \<open>The loop\<close>

definition ready_set :: "prd_document \<Rightarrow> string set \<Rightarrow> prd_task set" where
  "ready_set document D = {t \<in> set (pd_tasks document). pt_id t \<notin> D \<and> set (pt_dependencies t) \<subseteq> D}"

definition order_inv ::
  "prd_document \<Rightarrow> (string \<rightharpoonup> int) \<Rightarrow> prd_task list \<Rightarrow> string set \<Rightarrow> bool" where
  "order_inv document inDegree queue D \<longleftrightarrow>
     (\<forall>t \<in> set (pd_tasks document). inDegree (pt_id t) = Some (pending_count t D)) \<and>
     (\<forall>t \<in> set (pd_tasks document). pt_id t \<in> D \<longrightarrow> set (pt_dependencies t) \<subseteq> D) \<and>
     distinct queue \<and> set queue = ready_set document D"

lemma release_all:
  assumes "distinct_ids document"
    and "\<forall>t \<in> set (pd_tasks document). inDegree (pt_id t) = Some (f t) \<and> int (count_list ds (pt_id t)) \<le> f t"
    and "set ds \<subseteq> pt_id ` set (pd_tasks document)"
    and "distinct queue"
    and "\<forall>t \<in> set queue. pt_id t \<notin> set ds"
  shows "\<exists>inDegree' queue'. foldl (release_dependent document) (inDegree, queue) ds = (inDegree', queue') \<and>
    (\<forall>t \<in> set (pd_tasks document). inDegree' (pt_id t) = Some (f t - int (count_list ds (pt_id t)))) \<and>
    distinct queue' \<and>
    set queue' = set queue \<union> {t \<in> set (pd_tasks document). pt_id t \<in> set ds \<and> f t = int (count_list ds (pt_id t))}"
  using assms(2-5)
proof (induction ds arbitrary: inDegree queue f)
  case Nil
  then show ?case by simp
next
  case (Cons d ds)
  obtain u where u: "u \<in> set (pd_tasks document)" "pt_id u = d"
    using Cons.prems(2) by auto
  have uniq: "t = u" if "t \<in> set (pd_tasks document)" "pt_id t = d" for t
    using ids_inj [OF assms(1)] u that by blast
  let ?f = "\<lambda>t. if t = u then f u - 1 else f t"
  let ?queue = "if f u = 1 then queue @ [u] else queue"
  have fu: "int (count_list ds d) + 1 \<le> f u"
    using Cons.prems(1) u by force
  have step: "release_dependent document (inDegree, queue) d = (inDegree(d \<mapsto> f u - 1), ?queue)"
    using Cons.prems(1) u task_map_Some [OF assms(1), of d u]
    by (auto simp: release_dependent_def default_zero_def Let_def split: option.splits)
  have "\<exists>inDegree' queue'. foldl (release_dependent document) (inDegree(d \<mapsto> f u - 1), ?queue) ds = (inDegree', queue') \<and>
      (\<forall>t \<in> set (pd_tasks document). inDegree' (pt_id t) = Some (?f t - int (count_list ds (pt_id t)))) \<and>
      distinct queue' \<and>
      set queue' = set ?queue \<union> {t \<in> set (pd_tasks document). pt_id t \<in> set ds \<and> ?f t = int (count_list ds (pt_id t))}"
  proof (rule Cons.IH)
    show "\<forall>t \<in> set (pd_tasks document). (inDegree(d \<mapsto> f u - 1)) (pt_id t) = Some (?f t) \<and>
        int (count_list ds (pt_id t)) \<le> ?f t"
      using Cons.prems(1) u uniq fu by force
    show "set ds \<subseteq> pt_id ` set (pd_tasks document)"
      using Cons.prems(2) by simp
    show "distinct ?queue"
      using Cons.prems(3,4) u by auto
    have "d \<notin> set ds" if "f u = 1"
      using fu that by (simp add: count_list_0_iff)
    then show "\<forall>t \<in> set ?queue. pt_id t \<notin> set ds"
      using Cons.prems(4) u by auto
  qed
  then obtain inDegree' queue' where
    fold: "foldl (release_dependent document) (inDegree(d \<mapsto> f u - 1), ?queue) ds = (inDegree', queue')"
    and deg: "\<forall>t \<in> set (pd_tasks document). inDegree' (pt_id t) = Some (?f t - int (count_list ds (pt_id t)))"
    and dq: "distinct queue'"
    and sq: "set queue' = set ?queue \<union> {t \<in> set (pd_tasks document). pt_id t \<in> set ds \<and> ?f t = int (count_list ds (pt_id t))}"
    by blast
  have new: "{t \<in> set (pd_tasks document). pt_id t \<in> set (d # ds) \<and> f t = int (count_list (d # ds) (pt_id t))} =
      (if f u = 1 then {u} else {}) \<union>
      {t \<in> set (pd_tasks document). pt_id t \<in> set ds \<and> ?f t = int (count_list ds (pt_id t))}"
    (is "?l = ?r")
  proof (intro set_eqI iffI)
    fix t
    assume t: "t \<in> ?l"
    show "t \<in> ?r"
    proof (cases "t = u")
      case True
      then have eq: "f u - 1 = int (count_list ds d)"
        using t u by auto
      show ?thesis
      proof (cases "d \<in> set ds")
        case True
        then show ?thesis using \<open>t = u\<close> eq u by auto
      next
        case False
        then have "count_list ds d = 0"
          by (simp add: count_list_0_iff)
        then show ?thesis using \<open>t = u\<close> eq u by auto
      qed
    next
      case False
      then have "pt_id t \<noteq> d"
        using t uniq by auto
      then show ?thesis using t False by auto
    qed
  next
    fix t
    assume t: "t \<in> ?r"
    show "t \<in> ?l"
    proof (cases "t = u")
      case True
      have "f u = int (count_list ds d) + 1"
        using t True u fu by (auto split: if_splits)
      then show ?thesis using True u by auto
    next
      case False
      then have "t \<in> set (pd_tasks document)" "pt_id t \<in> set ds" "f t = int (count_list ds (pt_id t))"
        using t by (auto split: if_splits)
      then show ?thesis
        using uniq False by auto
    qed
  qed
  have "foldl (release_dependent document) (inDegree, queue) (d # ds) = (inDegree', queue')"
    using fold by (simp add: step)
  moreover have "\<forall>t \<in> set (pd_tasks document). inDegree' (pt_id t) = Some (f t - int (count_list (d # ds) (pt_id t)))"
  proof
    fix t
    assume t: "t \<in> set (pd_tasks document)"
    have "?f t - int (count_list ds (pt_id t)) = f t - int (count_list (d # ds) (pt_id t))"
    proof (cases "t = u")
      case True
      then show ?thesis using u by simp
    next
      case False
      then have "pt_id t \<noteq> d" using uniq [OF t] by blast
      then show ?thesis using False by simp
    qed
    then show "inDegree' (pt_id t) = Some (f t - int (count_list (d # ds) (pt_id t)))"
      using deg t by simp
  qed
  moreover have queue: "set ?queue = set queue \<union> (if f u = 1 then {u} else {})"
    by simp
  moreover have "set queue' = set queue \<union>
      {t \<in> set (pd_tasks document). pt_id t \<in> set (d # ds) \<and> f t = int (count_list (d # ds) (pt_id t))}"
    unfolding new sq queue by (rule Un_assoc)
  ultimately show ?case
    using dq by blast
qed

lemma pending_count_insert:
  assumes "i \<notin> D"
  shows "pending_count t (insert i D) = pending_count t D - int (count_list (pt_dependencies t) i)"
proof -
  have "length (filter (\<lambda>d. d \<notin> D) ds) = length (filter (\<lambda>d. d \<notin> insert i D) ds) + count_list ds i" for ds
    using assms by (induction ds) auto
  then show ?thesis
    by (simp add: pending_count_def)
qed

lemma pending_count_0: "pending_count t D = 0 \<longleftrightarrow> set (pt_dependencies t) \<subseteq> D"
  by (auto simp: pending_count_def filter_empty_conv)

lemma count_le_pending: "i \<notin> D \<Longrightarrow> int (count_list (pt_dependencies t) i) \<le> pending_count t D"
proof -
  assume "i \<notin> D"
  then have "count_list ds i \<le> length (filter (\<lambda>d. d \<notin> D) ds)" for ds
    by (induction ds) auto
  then show ?thesis
    by (simp add: pending_count_def)
qed

lemma order_inv_step:
  assumes ids: "distinct_ids document" and loc: "local_deps document"
    and inv: "order_inv document inDegree (task # rest) D"
    and cnt: "\<And>t. t \<in> set (pd_tasks document) \<Longrightarrow> count_list ds (pt_id t) = count_list (pt_dependencies t) (pt_id task)"
    and sub: "set ds \<subseteq> pt_id ` set (pd_tasks document)"
  shows "\<exists>inDegree' queue'. foldl (release_dependent document) (inDegree, rest) ds = (inDegree', queue') \<and>
    order_inv document inDegree' queue' (insert (pt_id task) D)"
proof -
  let ?D = "insert (pt_id task) D"
  have task: "task \<in> set (pd_tasks document)" "pt_id task \<notin> D" "set (pt_dependencies task) \<subseteq> D"
    using inv by (auto simp: order_inv_def ready_set_def)
  have dep_iff: "pt_id t \<in> set ds \<longleftrightarrow> pt_id task \<in> set (pt_dependencies t)" if "t \<in> set (pd_tasks document)" for t
    using cnt [OF that] by (metis count_list_0_iff)
  have rest: "\<forall>t \<in> set rest. pt_id t \<notin> set ds"
  proof
    fix t
    assume "t \<in> set rest"
    then have "t \<in> set (pd_tasks document)" "set (pt_dependencies t) \<subseteq> D"
      using inv by (auto simp: order_inv_def ready_set_def)
    then show "pt_id t \<notin> set ds"
      using dep_iff task(2) by blast
  qed
  have "\<exists>inDegree' queue'. foldl (release_dependent document) (inDegree, rest) ds = (inDegree', queue') \<and>
      (\<forall>t \<in> set (pd_tasks document). inDegree' (pt_id t) = Some (pending_count t D - int (count_list ds (pt_id t)))) \<and>
      distinct queue' \<and>
      set queue' = set rest \<union> {t \<in> set (pd_tasks document). pt_id t \<in> set ds \<and> pending_count t D = int (count_list ds (pt_id t))}"
  proof (rule release_all [OF ids _ sub _ rest])
    show "\<forall>t \<in> set (pd_tasks document). inDegree (pt_id t) = Some (pending_count t D) \<and>
        int (count_list ds (pt_id t)) \<le> pending_count t D"
      using inv cnt count_le_pending [OF task(2)] by (simp add: order_inv_def)
    show "distinct rest"
      using inv by (simp add: order_inv_def)
  qed
  then obtain inDegree' queue' where
    fold: "foldl (release_dependent document) (inDegree, rest) ds = (inDegree', queue')"
    and deg: "\<forall>t \<in> set (pd_tasks document). inDegree' (pt_id t) = Some (pending_count t ?D)"
    and dq: "distinct queue'"
    and sq: "set queue' = set rest \<union> {t \<in> set (pd_tasks document). pt_id t \<in> set ds \<and> pending_count t D = int (count_list ds (pt_id t))}"
    using pending_count_insert [OF task(2)] cnt by auto
  have rest_set: "set rest = ready_set document D - {task}"
    using inv by (auto simp: order_inv_def)
  have "set queue' = ready_set document ?D"
  proof (intro set_eqI iffI)
    fix t
    assume "t \<in> set queue'"
    then consider "t \<in> set rest"
      | "t \<in> set (pd_tasks document)" "pt_id t \<in> set ds" "pending_count t ?D = 0"
      using sq pending_count_insert [OF task(2)] cnt by auto
    then show "t \<in> ready_set document ?D"
    proof cases
      case 1
      then show ?thesis
        using ids_inj [OF ids _ task(1)] by (auto simp: rest_set ready_set_def)
    next
      case 2
      moreover have "pt_id t \<noteq> pt_id task"
        using 2 loc dep_iff [of t] unfolding local_deps_def by metis
      moreover have "pt_id t \<notin> D"
        using 2 dep_iff [of t] inv task(2) unfolding order_inv_def by blast
      ultimately show ?thesis
        by (simp add: ready_set_def pending_count_0)
    qed
  next
    fix t
    assume t: "t \<in> ready_set document ?D"
    show "t \<in> set queue'"
    proof (cases "pt_id task \<in> set (pt_dependencies t)")
      case True
      then show ?thesis
        using t pending_count_insert [OF task(2), of t] pending_count_0 [of t ?D] cnt dep_iff
        by (auto simp: sq ready_set_def)
    next
      case False
      then have "t \<in> set rest"
        using t by (auto simp: rest_set ready_set_def)
      then show ?thesis by (simp add: sq)
    qed
  qed
  moreover have "\<forall>t \<in> set (pd_tasks document). pt_id t \<in> ?D \<longrightarrow> set (pt_dependencies t) \<subseteq> ?D"
    using inv task ids_inj [OF ids _ task(1)] unfolding order_inv_def by blast
  ultimately show ?thesis
    using fold deg dq by (auto simp: order_inv_def)
qed

lemma authored_index_nth:
  assumes "distinct_ids document" and "i < length (pd_tasks document)"
  shows "authored_index document (pd_tasks document ! i) = i"
proof -
  let ?ids = "map pt_id (pd_tasks document)"
  have d: "distinct (map fst (zip ?ids [0..<length (pd_tasks document)]))"
    using assms(1) by (simp add: distinct_ids_def)
  have "(pt_id (pd_tasks document ! i), i) \<in> set (zip ?ids [0..<length (pd_tasks document)])"
    using assms(2) by (auto simp: set_zip intro!: exI [of _ i])
  then show ?thesis
    unfolding authored_index_def js_map_distinct [OF d] map_of_eq_Some_iff [OF d, symmetric] by simp
qed

lemma authored_comparator: "comparator (authored_before document)"
  by (auto simp: comparator_def authored_before_def)

lemma first_ready:
  assumes "distinct_ids document" and "set queue = ready_set document (set done)"
  shows "(case sort_by (authored_before document) queue of [] \<Rightarrow> None | t # _ \<Rightarrow> Some t) =
    find (\<lambda>t. pt_id t \<notin> set done \<and> set (pt_dependencies t) \<subseteq> set done) (pd_tasks document)"
proof (cases "sort_by (authored_before document) queue")
  case Nil
  then have "queue = []"
    by (metis length_0_conv length_sort_by)
  then have "find (\<lambda>t. pt_id t \<notin> set done \<and> set (pt_dependencies t) \<subseteq> set done) (pd_tasks document) = None"
    using assms(2) by (auto simp: ready_set_def find_None_conv)
  then show ?thesis
    by (simp add: Nil)
next
  case (Cons t rest)
  let ?p = "\<lambda>t. pt_id t \<notin> set done \<and> set (pt_dependencies t) \<subseteq> set done"
  have t: "t \<in> ready_set document (set done)"
    using Cons assms(2) by (metis list.set_intros(1) set_sort_by)
  have least: "authored_index document t \<le> authored_index document u" if "u \<in> ready_set document (set done)" for u
  proof -
    have "u \<in> set (t # rest)"
      using that assms(2) by (metis Cons set_sort_by)
    moreover have "sorted_wrt (authored_before document) (t # rest)"
      using sorted_sort_by [OF authored_comparator, of document queue] by (simp add: Cons)
    ultimately show ?thesis
      by (auto simp: authored_before_def)
  qed
  obtain i where i: "i < length (pd_tasks document)" "t = pd_tasks document ! i"
    using t by (auto simp: ready_set_def in_set_conv_nth)
  have "\<not> ?p u" if u: "u \<in> set (take i (pd_tasks document))" for u
  proof
    assume "?p u"
    obtain j where j: "j < i" "u = pd_tasks document ! j"
      using u i(1) by (auto simp: in_set_conv_nth)
    then have "u \<in> ready_set document (set done)"
      using \<open>?p u\<close> i(1) by (simp add: ready_set_def)
    then show False
      using least [of u] authored_index_nth [OF assms(1)] i j by simp
  qed
  moreover have "pd_tasks document = take i (pd_tasks document) @ t # drop (Suc i) (pd_tasks document)"
    using i by (simp add: id_take_nth_drop)
  ultimately have "find ?p (pd_tasks document) = Some t"
    using t unfolding find_Some_split ready_set_def by blast
  then show ?thesis
    by (simp add: Cons)
qed

lemma order_loop_ready:
  assumes "distinct_ids document" and "local_deps document"
    and dependents: "\<And>t d. t \<in> set (pd_tasks document) \<Longrightarrow> d \<in> pt_id ` set (pd_tasks document) \<Longrightarrow>
      count_list (default_nil (dependents d)) (pt_id t) = count_list (pt_dependencies t) d"
      "\<And>d. set (default_nil (dependents d)) \<subseteq> pt_id ` set (pd_tasks document)"
    and "order_inv document inDegree queue (set done)"
    and "distinct done" and "set done \<subseteq> pt_id ` set (pd_tasks document)"
    and "n + length done = length (pd_tasks document)"
  shows "order_loop document dependents inDegree queue ordered = ordered @ ready_order n (pd_tasks document) done"
  using assms(5-8)
proof (induction n arbitrary: inDegree queue "done" ordered)
  case 0
  have "card (set done) = card (pt_id ` set (pd_tasks document))"
    using 0 assms(1) by (metis add_0 distinct_card distinct_ids_def length_map set_map)
  then have "set done = pt_id ` set (pd_tasks document)"
    using 0 by (meson List.finite_set card_subset_eq finite_imageI)
  then have "set queue = {}"
    using 0 by (auto simp: order_inv_def ready_set_def)
  then have "queue = []"
    by simp
  then show ?case
    by (simp add: order_loop.simps)
next
  case (Suc n)
  have queue: "set queue = ready_set document (set done)"
    using Suc.prems by (simp add: order_inv_def)
  note first = first_ready [OF assms(1) queue]
  show ?case
  proof (cases "sort_by (authored_before document) queue")
    case Nil
    then show ?thesis
      using first by (simp add: order_loop.simps)
  next
    case (Cons task rest)
    let ?r = "foldl (release_dependent document) (inDegree, rest) (default_nil (dependents (pt_id task)))"
    have task: "task \<in> set (pd_tasks document)" "pt_id task \<notin> set done"
      using queue Cons by (metis (no_types, lifting) list.set_intros(1) mem_Collect_eq ready_set_def set_sort_by)+
    have "distinct (task # rest)" "set (task # rest) = set queue"
      using Suc.prems(1) by (metis Cons distinct_sort_by order_inv_def, metis Cons set_sort_by)
    then have "order_inv document inDegree (task # rest) (set done)"
      using Suc.prems(1) by (simp add: order_inv_def)
    from order_inv_step [OF assms(1,2) this] task(1) dependents
    obtain inDegree' queue' where r: "?r = (inDegree', queue')"
      and inv: "order_inv document inDegree' queue' (set (pt_id task # done))"
      by (metis (no_types, lifting) image_eqI list.simps(15))
    have "order_loop document dependents inDegree queue ordered =
        order_loop document dependents inDegree' queue' (ordered @ [task])"
      by (subst order_loop.simps) (simp add: Cons r)
    also have "\<dots> = (ordered @ [task]) @ ready_order n (pd_tasks document) (pt_id task # done)"
      using Suc.prems task by (intro Suc.IH [OF inv]) auto
    also have "\<dots> = ordered @ ready_order (Suc n) (pd_tasks document) done"
      using first [symmetric] by (simp add: Cons)
    finally show ?thesis .
  qed
qed

lemma dependencyOrder_good:
  assumes "distinct_ids document" and "local_deps document"
  defines "ordered \<equiv> ready_order (length (pd_tasks document)) (pd_tasks document) []"
  shows "dependencyOrder document diagnostics =
    (if length ordered \<noteq> length (pd_tasks document) then
       (None, diagnostics @ map (\<lambda>task. error_in_task ''RALPH_PRD_DEPENDENCY_CYCLE'' document (pt_id task))
          (filter (\<lambda>task. pt_id task \<notin> pt_id ` set ordered) (pd_tasks document)))
     else (Some ordered, diagnostics))"
proof -
  let ?s = "scan_tasks document diagnostics"
  let ?queue = "filter (\<lambda>task. os_inDegree ?s (pt_id task) = Some 0) (pd_tasks document)"
  note s = scan_good [OF assms(1,2), where diagnostics = diagnostics]
  have "distinct (pd_tasks document)"
    using assms(1) by (auto simp: distinct_ids_def distinct_map)
  then have "order_inv document (os_inDegree ?s) ?queue (set [])"
    using s(3) by (auto simp: order_inv_def ready_set_def pending_count_0)
  from order_loop_ready [OF assms(1,2) _ _ this, where dependents = "os_dependents ?s" and ordered = "[]"] s(4,5)
  have "order_loop document (os_dependents ?s) (os_inDegree ?s) ?queue [] = ordered"
    by (simp add: ordered_def)
  then show ?thesis
    by (simp add: dependencyOrder_def Let_def s(1,2))
qed

lemma scan_dep_diags:
  "\<exists>ds'. os_diagnostics (foldl (scan_dependency document task) s ds) = os_diagnostics s @ ds' \<and>
     list_all (\<lambda>d. dg_severity d = Sev_error) ds' \<and>
     (os_valid (foldl (scan_dependency document task) s ds) \<longleftrightarrow> os_valid s \<and> ds' = [])"
proof (induction ds arbitrary: s)
  case (Cons d ds)
  show ?case
    using Cons [of "scan_dependency document task s d"]
    by (auto simp: scan_dependency_def error_in_task_def)
qed simp

lemma scan_diags:
  "\<exists>ds'. os_diagnostics (foldl (scan_task document) s ts) = os_diagnostics s @ ds' \<and>
     list_all (\<lambda>d. dg_severity d = Sev_error) ds' \<and>
     (os_valid (foldl (scan_task document) s ts) \<longleftrightarrow> os_valid s \<and> ds' = [])"
proof (induction ts arbitrary: s)
  case (Cons t ts)
  obtain d1 where "os_diagnostics (scan_task document s t) = os_diagnostics s @ d1"
    "list_all (\<lambda>d. dg_severity d = Sev_error) d1" "os_valid (scan_task document s t) \<longleftrightarrow> os_valid s \<and> d1 = []"
    using scan_dep_diags unfolding scan_task_def by blast
  then show ?case
    using Cons [of "scan_task document s t"] by auto
qed simp

lemma dependencyOrder_bad:
  assumes "\<not> local_deps document"
  shows "\<exists>ds'. dependencyOrder document diagnostics = (None, diagnostics @ ds') \<and> ds' \<noteq> [] \<and>
    list_all (\<lambda>d. dg_severity d = Sev_error) ds'"
  using scan_bad [OF assms, of diagnostics] scan_diags [of document "initial_scan document diagnostics" "pd_tasks document"]
  by (auto simp: dependencyOrder_def scan_tasks_def initial_scan_def Let_def)

subsection \<open>The reference order\<close>

lemma ready_order_props:
  "deps_ordered done (ready_order n tasks done) \<and> distinct (map pt_id (ready_order n tasks done)) \<and>
   pt_id ` set (ready_order n tasks done) \<inter> set done = {} \<and> set (ready_order n tasks done) \<subseteq> set tasks \<and>
   length (ready_order n tasks done) \<le> n"
proof (induction n arbitrary: "done")
  case (Suc n)
  show ?case
  proof (cases "find (\<lambda>t. pt_id t \<notin> set done \<and> set (pt_dependencies t) \<subseteq> set done) tasks")
    case None
    then show ?thesis by simp
  next
    case (Some t)
    then show ?thesis
      using Suc [of "pt_id t # done"] find_SomeD [OF Some] by auto
  qed
qed simp

lemma deps_ordered_next:
  "deps_ordered seen ts \<Longrightarrow> set seen \<subseteq> set done \<Longrightarrow> t \<in> set ts \<Longrightarrow> pt_id t \<notin> set done \<Longrightarrow>
   \<exists>u \<in> set ts. pt_id u \<notin> set done \<and> set (pt_dependencies u) \<subseteq> set done"
proof (induction ts arbitrary: seen)
  case (Cons x ts)
  show ?case
  proof (cases "pt_id x \<in> set done")
    case True
    then show ?thesis
      using Cons.IH [of "pt_id x # seen"] Cons.prems by auto
  next
    case False
    then show ?thesis
      using Cons.prems by auto
  qed
qed simp

lemma ready_order_complete:
  assumes "deps_ordered [] ts" and "set ts = set tasks" and "distinct (map pt_id tasks)"
    and "distinct done" and "set done \<subseteq> pt_id ` set tasks" and "n + length done = length tasks"
  shows "length (ready_order n tasks done) = n"
  using assms(4-6)
proof (induction n arbitrary: "done")
  case (Suc n)
  have "card (set done) < card (pt_id ` set tasks)"
    using Suc.prems assms(3) by (metis distinct_card le_add2 length_map not_less_eq_eq nat_less_le not_le plus_nat.simps(2) set_map)
  then obtain t where "t \<in> set tasks" "pt_id t \<notin> set done"
    using Suc.prems(2) by (metis card_mono finite_set image_subset_iff leD List.finite_set)
  then obtain u where "u \<in> set tasks" "pt_id u \<notin> set done" "set (pt_dependencies u) \<subseteq> set done"
    using deps_ordered_next [OF assms(1), of "done" t] assms(2) by auto
  then obtain v where v: "find (\<lambda>t. pt_id t \<notin> set done \<and> set (pt_dependencies t) \<subseteq> set done) tasks = Some v"
    by (cases "find (\<lambda>t. pt_id t \<notin> set done \<and> set (pt_dependencies t) \<subseteq> set done) tasks") (auto simp: find_None_conv)
  then show ?case
    using Suc.IH [of "pt_id v # done"] Suc.prems find_SomeD [OF v] by auto
qed simp

lemma deps_ordered_local:
  "deps_ordered seen ts \<Longrightarrow> t \<in> set ts \<Longrightarrow> distinct (map pt_id ts) \<Longrightarrow> set seen \<inter> pt_id ` set ts = {} \<Longrightarrow>
   d \<in> set (pt_dependencies t) \<Longrightarrow> d \<noteq> pt_id t \<and> d \<in> set seen \<union> pt_id ` set ts"
proof (induction ts arbitrary: seen)
  case (Cons x ts)
  then show ?case
    using Cons.IH [of "pt_id x # seen"] by (cases "t = x") auto
qed simp

lemma has_order_local:
  assumes "distinct_ids document" and "has_order document"
  shows "local_deps document"
proof -
  obtain ts where ts: "mset ts = mset (pd_tasks document)" "deps_ordered [] ts"
    using assms(2) by (auto simp: has_order_def)
  then have "set ts = set (pd_tasks document)" "distinct (map pt_id ts)"
    using assms(1) by (metis set_mset_mset, metis distinct_ids_def mset_eq_imp_distinct_iff mset_map)
  then show ?thesis
    using deps_ordered_local [OF ts(2)] by (auto simp: local_deps_def)
qed

lemma ready_order_mset:
  assumes "distinct_ids document" and "length (ready_order n (pd_tasks document) []) = length (pd_tasks document)"
  shows "mset (ready_order n (pd_tasks document) []) = mset (pd_tasks document)"
proof -
  let ?o = "ready_order n (pd_tasks document) []"
  note o = ready_order_props [of "[]" n "pd_tasks document"]
  have d: "distinct ?o" "distinct (pd_tasks document)"
    using o assms(1) by (auto simp: distinct_ids_def distinct_map)
  have "set ?o = set (pd_tasks document)"
    using o d assms(2) by (metis List.finite_set card_subset_eq distinct_card)
  then show ?thesis
    using d set_eq_iff_mset_eq_distinct by blast
qed

lemma dependencyOrder_correct:
  assumes "distinct_ids document"
  shows "fst (dependencyOrder document diagnostics) =
      (if has_order document
       then Some (ready_order (length (pd_tasks document)) (pd_tasks document) []) else None)"
    and "\<exists>ds'. snd (dependencyOrder document diagnostics) = diagnostics @ ds' \<and>
      list_all (\<lambda>d. dg_severity d = Sev_error) ds' \<and> (ds' = [] \<longleftrightarrow> has_order document)"
proof -
  let ?o = "ready_order (length (pd_tasks document)) (pd_tasks document) []"
  have iff: "length ?o = length (pd_tasks document) \<longleftrightarrow> has_order document" if "local_deps document"
  proof
    assume "length ?o = length (pd_tasks document)"
    then show "has_order document"
      using ready_order_mset [OF assms] ready_order_props [of "[]"] unfolding has_order_def by blast
  next
    assume "has_order document"
    then obtain ts where "mset ts = mset (pd_tasks document)" "deps_ordered [] ts"
      by (auto simp: has_order_def)
    then show "length ?o = length (pd_tasks document)"
      using assms by (intro ready_order_complete [of ts]) (auto simp: distinct_ids_def dest: mset_eq_setD)
  qed
  have ne: "filter (\<lambda>task. pt_id task \<notin> pt_id ` set ?o) (pd_tasks document) \<noteq> []" if "length ?o \<noteq> length (pd_tasks document)"
  proof
    assume "filter (\<lambda>task. pt_id task \<notin> pt_id ` set ?o) (pd_tasks document) = []"
    then have "pt_id ` set (pd_tasks document) \<subseteq> pt_id ` set ?o"
      by (auto simp: filter_empty_conv)
    then have "card (set (map pt_id (pd_tasks document))) \<le> card (set (map pt_id ?o))"
      by (intro card_mono) auto
    then show False
      using that assms ready_order_props [of "[]" "length (pd_tasks document)" "pd_tasks document"]
      by (simp add: distinct_ids_def distinct_card [symmetric] card_image)
        (metis distinct_card le_antisym length_map set_map)
  qed
  show "fst (dependencyOrder document diagnostics) = (if has_order document then Some ?o else None)"
    using iff has_order_local [OF assms] dependencyOrder_bad [of document diagnostics]
      dependencyOrder_good [OF assms, of diagnostics]
    by (cases "local_deps document") auto
  show "\<exists>ds'. snd (dependencyOrder document diagnostics) = diagnostics @ ds' \<and>
      list_all (\<lambda>d. dg_severity d = Sev_error) ds' \<and> (ds' = [] \<longleftrightarrow> has_order document)"
  proof (cases "local_deps document")
    case True
    then show ?thesis
      using iff ne by (auto simp: dependencyOrder_good [OF assms] list_all_iff error_in_task_def)
  next
    case False
    then show ?thesis
      using dependencyOrder_bad [OF False, of diagnostics] has_order_local [OF assms] by auto
  qed
qed

section \<open>Properties\<close>

text \<open>
  C27. A document with distinct task identifiers gets the order that takes, again and again, the
  first written task whose dependencies are done, exactly when its tasks can be put in an order
  that respects all dependencies; otherwise there is no order and only errors are added, at
  least one.
\<close>

theorem dependency_order_is_greedy:
  assumes "distinct (map pt_id (pd_tasks document))"
  shows "fst (dependencyOrder document diagnostics) =
      (if \<exists>ts. mset ts = mset (pd_tasks document) \<and> deps_ordered [] ts
       then Some (ready_order (length (pd_tasks document)) (pd_tasks document) []) else None) \<and>
    (\<exists>new. snd (dependencyOrder document diagnostics) = diagnostics @ new \<and>
       list_all (\<lambda>d. dg_severity d = Sev_error) new \<and>
       (new = [] \<longleftrightarrow> (\<exists>ts. mset ts = mset (pd_tasks document) \<and> deps_ordered [] ts)))"
  using dependencyOrder_correct [of document diagnostics] assms
  unfolding distinct_ids_def has_order_def by blast

definition sample_chain :: prd_document where
  "sample_chain = sample_document ''prd''
     [sample_prd_task ''c'' Marker_pending [''b''], sample_prd_task ''b'' Marker_pending [''a''],
      sample_prd_task ''a'' Marker_pending []]"

definition sample_cycle :: prd_document where
  "sample_cycle = sample_document ''prd''
     [sample_prd_task ''a'' Marker_pending [''b''], sample_prd_task ''b'' Marker_pending [''a'']]"

theorem dependency_order_is_greedy_witness:
  "fst (dependencyOrder sample_chain []) = Some (rev (pd_tasks sample_chain)) \<and>
   (\<exists>new. snd (dependencyOrder sample_cycle []) = new \<and> new \<noteq> [])"
proof
  have d: "distinct (map pt_id (pd_tasks sample_chain))" "distinct (map pt_id (pd_tasks sample_cycle))"
    by code_simp+
  have "mset (rev (pd_tasks sample_chain)) = mset (pd_tasks sample_chain) \<and> deps_ordered [] (rev (pd_tasks sample_chain))"
    by (simp add: sample_chain_def sample_document_def sample_prd_task_def)
  moreover have "ready_order (length (pd_tasks sample_chain)) (pd_tasks sample_chain) [] = rev (pd_tasks sample_chain)"
    by code_simp
  ultimately show "fst (dependencyOrder sample_chain []) = Some (rev (pd_tasks sample_chain))"
    using dependency_order_is_greedy [OF d(1), of "[]"] by auto
  have "fst (dependencyOrder sample_cycle []) = None"
    by code_simp
  then show "\<exists>new. snd (dependencyOrder sample_cycle []) = new \<and> new \<noteq> []"
    using dependency_order_is_greedy [OF d(2), of "[]"] by (auto split: if_splits)
qed

end
