(* ===== verification/PrdGraph.thy ===== *)
theory PrdGraph
  imports PrdOrder Scheduler
begin

text \<open>
  \<^verbatim>\<open>packages/prd/src/graph.ts\<close>: loading a PRD with its children, and the compiled graph. The
  file system, the path library and the markdown parser are the argument \<open>env\<close>; a document is
  known by its canonical path, which stands for the identity of the loaded object. The recursion
  over child documents carries a bound and returns \<^term>\<open>None\<close> when it is used up, which is
  proved not to happen.
\<close>

section \<open>Loading\<close>

record parse_result =
  pr_ok :: bool
  pr_document :: "prd_document option"
  pr_diagnostics :: "diagnostic list"

record prd_env =
  pe_realpath :: "string \<Rightarrow> string option"
  pe_absolute :: "string \<Rightarrow> string"
  pe_resolve :: "string \<Rightarrow> string \<Rightarrow> string"
  pe_dirname :: "string \<Rightarrow> string"
  pe_relative :: "string \<Rightarrow> string \<Rightarrow> string"
  pe_isAbsolute :: "string \<Rightarrow> bool"
  pe_parse :: "string \<Rightarrow> string \<Rightarrow> prd_document option \<Rightarrow> parse_result"

record graph_options =
  go_workspaceRoot :: "string option"
  go_recursive :: "bool option"
  go_strict :: "bool option"
  go_maxDepth :: "int option"
  go_maxDocuments :: "int option"

definition portable :: "string \<Rightarrow> string" where
  "portable path = replace_char (CHR 0x5C) (CHR ''/'') path"

definition isContained :: "prd_env \<Rightarrow> string \<Rightarrow> string \<Rightarrow> bool" where
  "isContained env root target \<longleftrightarrow>
     (let child = pe_relative env root target in
      child = [] \<or> \<not> starts_with child ''..'' \<and> \<not> pe_isAbsolute env child)"

definition displayPath :: "prd_env \<Rightarrow> string \<Rightarrow> string \<Rightarrow> string" where
  "displayPath env root target =
     (let child = portable (pe_relative env root target) in
      if child = [] then last (split_on (CHR ''/'') (portable target)) else child)"

definition taskRef :: "string \<Rightarrow> prd_task \<Rightarrow> task_ref" where
  "taskRef documentId task =
     \<lparr>ref_documentId = documentId, ref_taskId = pt_id task, ref_taskSpecHash = pt_taskSpecHash task\<rparr>"

text \<open>The parent of a document being loaded: its path, the document and the task.\<close>

record load_parent =
  lp_path :: string
  lp_document :: prd_document
  lp_task :: prd_task

text \<open>\<open>ls_documents\<close> is both \<^verbatim>\<open>documentOrder\<close> and \<^verbatim>\<open>loadedByCanonical\<close>.\<close>

record load_state =
  ls_diagnostics :: "diagnostic list"
  ls_documents :: "(string \<times> prd_document) list"
  ls_canonicalById :: "string \<rightharpoonup> string"
  ls_childByParent :: "string \<rightharpoonup> string"

definition add_diagnostics :: "load_state \<Rightarrow> diagnostic list \<Rightarrow> load_state" where
  "add_diagnostics st ds = st\<lparr>ls_diagnostics := ls_diagnostics st @ ds\<rparr>"

definition load_error :: "string \<Rightarrow> string \<Rightarrow> load_parent option \<Rightarrow> diagnostic" where
  "load_error code file parent =
     (case parent of
        Some p \<Rightarrow> error_in_task code (lp_document p) (pt_id (lp_task p))
      | None \<Rightarrow> error_in_file code file)"

definition kind_diagnostics :: "prd_document \<Rightarrow> load_parent option \<Rightarrow> diagnostic list" where
  "kind_diagnostics document parent =
     (case parent of
        None \<Rightarrow>
          if pd_kind document \<noteq> Kind_root
          then [error_in_file ''RALPH_PRD_ROOT_KIND_INVALID'' (pd_file document)] else []
      | Some p \<Rightarrow>
          if pd_kind document \<noteq> Kind_child
          then [error_in_task ''RALPH_PRD_CHILD_KIND_INVALID'' (lp_document p) (pt_id (lp_task p))] else [])"

definition identity_diagnostics ::
  "load_state \<Rightarrow> string \<Rightarrow> prd_document \<Rightarrow> string list \<Rightarrow> diagnostic list" where
  "identity_diagnostics st path document ancestry =
     (case ls_canonicalById st (pd_id document) of
        Some previous \<Rightarrow>
          if previous \<noteq> [] \<and> previous \<noteq> path
          then [error_in_file ''RALPH_PRD_DOCUMENT_ID_DUPLICATED'' (pd_file document)] else []
      | None \<Rightarrow> []) @
     (if list_ex (\<lambda>a. map_option pd_id (map_of (ls_documents st) a) = Some (pd_id document)) ancestry
      then [error_in_file ''RALPH_PRD_DOCUMENT_ID_CYCLE'' (pd_file document)] else [])"

definition parent_diagnostics ::
  "prd_env \<Rightarrow> string \<Rightarrow> prd_document \<Rightarrow> load_parent \<Rightarrow> diagnostic list" where
  "parent_diagnostics env path document p =
     (case pd_parent document of
        None \<Rightarrow> [error_in_file ''RALPH_PRD_CHILD_PARENT_MISSING'' (pd_file document)]
      | Some declared \<Rightarrow>
          (case pe_realpath env (pe_resolve env (pe_dirname env path) (pp_prd declared)) of
             None \<Rightarrow> [error_in_file ''RALPH_PRD_CHILD_PARENT_FILE_MISSING'' (pd_file document)]
           | Some declaredParent \<Rightarrow>
               if declaredParent \<noteq> [] \<and> declaredParent \<noteq> lp_path p
               then [error_in_file ''RALPH_PRD_CHILD_PARENT_MISMATCH'' (pd_file document)] else []) @
          (if pp_task declared \<noteq> pt_id (lp_task p)
           then [error_in_file ''RALPH_PRD_CHILD_PARENT_TASK_MISMATCH'' (pd_file document)] else []))"

text \<open>A parsed document enters the graph.\<close>

definition register_document ::
  "prd_env \<Rightarrow> string \<Rightarrow> prd_document \<Rightarrow> string list \<Rightarrow> load_parent option \<Rightarrow> load_state \<Rightarrow> load_state" where
  "register_document env path document ancestry parent st =
     (let st1 = add_diagnostics st
            (kind_diagnostics document parent @ identity_diagnostics st path document ancestry);
          st2 = st1\<lparr>ls_documents := ls_documents st1 @ [(path, document)],
                    ls_canonicalById := (ls_canonicalById st1)(pd_id document \<mapsto> path)\<rparr>
      in
      case parent of
        None \<Rightarrow> st2
      | Some p \<Rightarrow>
          add_diagnostics
            (st2\<lparr>ls_childByParent := (ls_childByParent st2)
               (ref_key (pd_id (lp_document p)) (pt_id (lp_task p)) \<mapsto> pd_id document)\<rparr>)
            (parent_diagnostics env path document p))"

definition truthy_sub :: "prd_task \<Rightarrow> string option" where
  "truthy_sub task = (case pt_subPrd task of None \<Rightarrow> None | Some s \<Rightarrow> if s = [] then None else Some s)"

definition not_expanded :: "prd_document \<Rightarrow> diagnostic list" where
  "not_expanded document =
     map (\<lambda>task. (error_in_task ''RALPH_PRD_CHILD_NOT_EXPANDED'' document (pt_id task))
            \<lparr>dg_severity := Sev_warning\<rparr>)
       (filter (\<lambda>task. truthy_sub task \<noteq> None) (pd_tasks document))"

text \<open>The child of one task; \<open>go\<close> loads a document one level down.\<close>

definition load_child ::
  "prd_env \<Rightarrow> string \<Rightarrow> (string \<Rightarrow> load_parent option \<Rightarrow> load_state \<Rightarrow> load_state) \<Rightarrow>
   string \<Rightarrow> prd_document \<Rightarrow> load_state \<Rightarrow> prd_task \<Rightarrow> load_state" where
  "load_child env root go path document st task =
     (case truthy_sub task of
        None \<Rightarrow> st
      | Some sub \<Rightarrow>
          (case pe_realpath env (pe_resolve env (pe_dirname env path) sub) of
             None \<Rightarrow> add_diagnostics st [error_in_task ''RALPH_PRD_CHILD_MISSING'' document (pt_id task)]
           | Some child \<Rightarrow>
               if \<not> isContained env root child
               then add_diagnostics st
                      [error_in_task ''RALPH_PRD_CHILD_OUTSIDE_WORKSPACE'' document (pt_id task)]
               else go child (Some \<lparr>lp_path = path, lp_document = document, lp_task = task\<rparr>) st))"

text \<open>\<open>levels\<close> is \<^verbatim>\<open>maxDepth + 1 - depth\<close>, zero when the depth exceeds the maximum.\<close>

primrec load ::
  "prd_env \<Rightarrow> string \<Rightarrow> bool \<Rightarrow> int \<Rightarrow> nat \<Rightarrow> string list \<Rightarrow> string \<Rightarrow> load_parent option \<Rightarrow>
   load_state \<Rightarrow> load_state" where
  "load env root recursive maxDocuments 0 ancestry path parent st =
     add_diagnostics st [load_error ''RALPH_PRD_CHILD_MAX_DEPTH'' (displayPath env root path) parent]"
| "load env root recursive maxDocuments (Suc levels) ancestry path parent st =
     (let file = displayPath env root path in
      if List.member ancestry path
      then add_diagnostics st [load_error ''RALPH_PRD_CHILD_CYCLE'' file parent]
      else if map_of (ls_documents st) path \<noteq> None
      then add_diagnostics st [load_error ''RALPH_PRD_CHILD_MULTIPLE_PARENTS'' file parent]
      else if maxDocuments \<le> int (length (ls_documents st))
      then add_diagnostics st [load_error ''RALPH_PRD_CHILD_MAX_DOCUMENTS'' file parent]
      else
        (let parsed = pe_parse env path file (map_option lp_document parent);
             st1 = add_diagnostics st (pr_diagnostics parsed)
         in
         case pr_document parsed of
           None \<Rightarrow> st1
         | Some document \<Rightarrow>
             if \<not> pr_ok parsed then st1
             else
               (let st2 = register_document env path document ancestry parent st1 in
                if \<not> recursive then add_diagnostics st2 (not_expanded document)
                else foldl (load_child env root (load env root recursive maxDocuments levels (ancestry @ [path]))
                              path document) st2 (pd_tasks document))))"

section \<open>Compilation\<close>

text \<open>What the recursions over the documents read.\<close>

record graph_context =
  gc_childByParent :: "string \<rightharpoonup> string"
  gc_documentById :: "string \<rightharpoonup> prd_document"
  gc_localOrder :: "string \<rightharpoonup> prd_task list"

definition child_of :: "graph_context \<Rightarrow> prd_document \<Rightarrow> prd_task \<Rightarrow> prd_document option" where
  "child_of ctx document task =
     (case gc_childByParent ctx (ref_key (pd_id document) (pt_id task)) of
        None \<Rightarrow> None
      | Some childId \<Rightarrow> if childId = [] then None else gc_documentById ctx childId)"

fun every_opt :: "('a \<Rightarrow> bool option) \<Rightarrow> 'a list \<Rightarrow> bool option" where
  "every_opt p [] = Some True"
| "every_opt p (x # xs) =
     (case p x of None \<Rightarrow> None | Some False \<Rightarrow> Some False | Some True \<Rightarrow> every_opt p xs)"

definition task_complete_by ::
  "graph_context \<Rightarrow> (prd_document \<Rightarrow> bool option) \<Rightarrow> prd_document \<Rightarrow> prd_task \<Rightarrow> bool option" where
  "task_complete_by ctx complete document task =
     (if pt_status task \<noteq> Marker_completed then Some False
      else (case child_of ctx document task of None \<Rightarrow> Some True | Some child \<Rightarrow> complete child))"

primrec documentComplete :: "graph_context \<Rightarrow> nat \<Rightarrow> prd_document \<Rightarrow> bool option" where
  "documentComplete ctx 0 document = None"
| "documentComplete ctx (Suc n) document =
     every_opt (task_complete_by ctx (documentComplete ctx n) document) (pd_tasks document)"

definition taskComplete :: "graph_context \<Rightarrow> nat \<Rightarrow> prd_document \<Rightarrow> prd_task \<Rightarrow> bool option" where
  "taskComplete ctx n document task = task_complete_by ctx (documentComplete ctx n) document task"

fun concat_opt :: "('a \<Rightarrow> 'b list option) \<Rightarrow> 'a list \<Rightarrow> 'b list option" where
  "concat_opt f [] = Some []"
| "concat_opt f (x # xs) =
     (case f x of
        None \<Rightarrow> None
      | Some ys \<Rightarrow> (case concat_opt f xs of None \<Rightarrow> None | Some zs \<Rightarrow> Some (ys @ zs)))"

definition local_order :: "graph_context \<Rightarrow> prd_document \<Rightarrow> prd_task list" where
  "local_order ctx document = default_nil (gc_localOrder ctx (pd_id document))"

primrec appendDocumentOrder :: "graph_context \<Rightarrow> nat \<Rightarrow> prd_document \<Rightarrow> task_ref list option" where
  "appendDocumentOrder ctx 0 document = None"
| "appendDocumentOrder ctx (Suc n) document =
     concat_opt
       (\<lambda>task. case (case child_of ctx document task of
                       None \<Rightarrow> Some []
                     | Some child \<Rightarrow> appendDocumentOrder ctx n child) of
                 None \<Rightarrow> None
               | Some refs \<Rightarrow> Some (refs @ [taskRef (pd_id document) task]))
       (local_order ctx document)"

text \<open>The bound \<open>m\<close> is that of the completeness tests.\<close>

primrec collectEligible :: "graph_context \<Rightarrow> nat \<Rightarrow> nat \<Rightarrow> prd_document \<Rightarrow> task_ref list option" where
  "collectEligible ctx m 0 document = None"
| "collectEligible ctx m (Suc n) document =
     concat_opt
       (\<lambda>task.
          if pt_status task = Marker_completed then Some []
          else
            (case every_opt
                    (\<lambda>dependency.
                       case find (\<lambda>candidate. pt_id candidate = dependency) (pd_tasks document) of
                         None \<Rightarrow> Some False
                       | Some t \<Rightarrow> taskComplete ctx m document t) (pt_dependencies task) of
               None \<Rightarrow> None
             | Some False \<Rightarrow> Some []
             | Some True \<Rightarrow>
                 (case child_of ctx document task of
                    None \<Rightarrow> Some [taskRef (pd_id document) task]
                  | Some child \<Rightarrow>
                      (case documentComplete ctx m child of
                         None \<Rightarrow> None
                       | Some True \<Rightarrow> Some [taskRef (pd_id document) task]
                       | Some False \<Rightarrow> collectEligible ctx m n child))))
       (local_order ctx document)"

definition task_edges :: "prd_document \<Rightarrow> prd_task \<Rightarrow> dependency_edge list" where
  "task_edges document task =
     List.map_filter
       (\<lambda>dependency. map_option
          (\<lambda>d. \<lparr>de_task = taskRef (pd_id document) task, de_dependsOn = taskRef (pd_id document) d\<rparr>)
          (find (\<lambda>candidate. pt_id candidate = dependency) (pd_tasks document)))
       (pt_dependencies task)"

definition dependency_edges :: "prd_document list \<Rightarrow> dependency_edge list" where
  "dependency_edges documents = concat (map (\<lambda>d. concat (map (task_edges d) (pd_tasks d))) documents)"

definition child_edges :: "(string \<rightharpoonup> string) \<Rightarrow> prd_document list \<Rightarrow> child_edge list" where
  "child_edges childByParent documents =
     concat (map (\<lambda>d. List.map_filter
       (\<lambda>task. case childByParent (ref_key (pd_id d) (pt_id task)) of
                 None \<Rightarrow> None
               | Some c \<Rightarrow> if c = [] then None
                           else Some \<lparr>ch_parentTask = taskRef (pd_id d) task, ch_childDocument = c\<rparr>)
       (pd_tasks d)) documents)"

text \<open>The local orders, with the diagnostics of the documents that have none.\<close>

definition local_orders ::
  "prd_document list \<Rightarrow> diagnostic list \<Rightarrow> (string \<rightharpoonup> prd_task list) \<times> diagnostic list" where
  "local_orders documents diagnostics =
     foldl (\<lambda>(orders, ds) d.
              case dependencyOrder d ds of
                (None, ds') \<Rightarrow> (orders, ds')
              | (Some ts, ds') \<Rightarrow> (orders(pd_id d \<mapsto> ts), ds'))
       (Map.empty, diagnostics) documents"

text \<open>A completed parent task with an unfinished child document is an error.\<close>

definition stale_parent :: "graph_context \<Rightarrow> nat \<Rightarrow> child_edge \<Rightarrow> diagnostic list option" where
  "stale_parent ctx n edge =
     (case gc_documentById ctx (ref_documentId (ch_parentTask edge)) of
        None \<Rightarrow> Some []
      | Some parentDocument \<Rightarrow>
          (case find (\<lambda>task. pt_id task = ref_taskId (ch_parentTask edge)) (pd_tasks parentDocument) of
             None \<Rightarrow> Some []
           | Some parentTask \<Rightarrow>
               if pt_status parentTask \<noteq> Marker_completed then Some []
               else
                 (case gc_documentById ctx (ch_childDocument edge) of
                    None \<Rightarrow> Some []
                  | Some child \<Rightarrow>
                      (case documentComplete ctx n child of
                         None \<Rightarrow> None
                       | Some True \<Rightarrow> Some []
                       | Some False \<Rightarrow>
                           Some [error_in_task ''RALPH_PRD_PARENT_COMPLETED_CHILD_INCOMPLETE''
                                   parentDocument (pt_id parentTask)]))))"

definition parallel_groups :: "prd_document list \<Rightarrow> parallel_group list" where
  "parallel_groups documents =
     concat (map (\<lambda>d. map
       (\<lambda>g. \<lparr>pg_documentId = pd_id d, pg_id = g,
             pg_tasks = map (taskRef (pd_id d)) (filter (\<lambda>t. pt_parallelGroup t = Some g) (pd_tasks d))\<rparr>)
       (js_unique (List.map_filter (\<lambda>t. if pt_parallelGroup t = Some [] then None else pt_parallelGroup t)
          (pd_tasks d)))) documents)"

text \<open>The schemas' conditions on the fields the model has.\<close>

definition valid_task_ref :: "task_ref \<Rightarrow> bool" where
  "valid_task_ref r \<longleftrightarrow>
     prd_slug (ref_documentId r) \<and> prd_slug (ref_taskId r) \<and> sha256 (ref_taskSpecHash r)"

definition valid_prd_task :: "prd_task \<Rightarrow> bool" where
  "valid_prd_task t \<longleftrightarrow>
     prd_slug (pt_id t) \<and> sha256 (pt_taskSpecHash t) \<and> list_all prd_slug (pt_dependencies t) \<and>
     nonempty_opt (pt_subPrd t) \<and>
     (case pt_parallelGroup t of None \<Rightarrow> True | Some g \<Rightarrow> prd_slug g)"

definition valid_prd_document :: "prd_document \<Rightarrow> bool" where
  "valid_prd_document d \<longleftrightarrow>
     prd_slug (pd_id d) \<and> nonempty (pd_file d) \<and> sha256 (pd_contentHash d) \<and>
     (case pd_parent d of None \<Rightarrow> True | Some p \<Rightarrow> nonempty (pp_prd p) \<and> prd_slug (pp_task p)) \<and>
     pd_tasks d \<noteq> [] \<and> list_all valid_prd_task (pd_tasks d) \<and>
     (pd_kind d = Kind_child \<longleftrightarrow> pd_parent d \<noteq> None)"

definition valid_compiled_graph :: "compiled_graph \<Rightarrow> bool" where
  "valid_compiled_graph g \<longleftrightarrow>
     prd_slug (cg_rootDocumentId g) \<and> nonempty (cg_rootFile g) \<and>
     list_all (\<lambda>(i, d). prd_slug i \<and> valid_prd_document d) (cg_documents g) \<and>
     list_all (\<lambda>(i, f). prd_slug i \<and> nonempty f) (cg_canonicalReferences g) \<and>
     list_all (\<lambda>e. valid_task_ref (de_task e) \<and> valid_task_ref (de_dependsOn e)) (cg_dependencyEdges g) \<and>
     list_all (\<lambda>e. valid_task_ref (ch_parentTask e) \<and> prd_slug (ch_childDocument e)) (cg_childEdges g) \<and>
     list_all valid_task_ref (cg_topologicalOrder g) \<and> list_all valid_task_ref (cg_eligibleTasks g) \<and>
     list_all (\<lambda>p. prd_slug (pg_documentId p) \<and> prd_slug (pg_id p) \<and> pg_tasks p \<noteq> [] \<and>
                   list_all valid_task_ref (pg_tasks p)) (cg_parallelGroups g)"

record compilation =
  cp_ok :: bool
  cp_graph :: "compiled_graph option"
  cp_diagnostics :: "diagnostic list"

definition failed :: "diagnostic list \<Rightarrow> compilation option" where
  "failed ds = Some \<lparr>cp_ok = False, cp_graph = None, cp_diagnostics = ds\<rparr>"

text \<open>From the loaded documents to the graph; \<open>n\<close> bounds the recursion over them.\<close>

definition compile_documents :: "bool \<Rightarrow> nat \<Rightarrow> load_state \<Rightarrow> compilation option" where
  "compile_documents strict n st =
     (if hasErrors (ls_diagnostics st) then failed (ls_diagnostics st)
      else
        (case ls_documents st of
           [] \<Rightarrow> failed (ls_diagnostics st)
         | root # _ \<Rightarrow>
             (let documents = map snd (ls_documents st);
                  (orders, ds) = local_orders documents (ls_diagnostics st);
                  dependencyEdges = dependency_edges documents;
                  childEdges = child_edges (ls_childByParent st) documents;
                  ctx = \<lparr>gc_childByParent = ls_childByParent st,
                         gc_documentById = js_map (map (\<lambda>d. (pd_id d, d)) documents),
                         gc_localOrder = orders\<rparr>
              in
              if hasErrors ds then failed ds
              else
                (case concat_opt (stale_parent ctx n) childEdges of
                   None \<Rightarrow> None
                 | Some stale \<Rightarrow>
                     if hasErrors (ds @ stale) then failed (ds @ stale)
                     else
                       (case appendDocumentOrder ctx n (snd root) of
                          None \<Rightarrow> None
                        | Some expandedOrder \<Rightarrow>
                            (case collectEligible ctx n n (snd root) of
                               None \<Rightarrow> None
                             | Some eligibleTasks \<Rightarrow>
                                 (let candidate =
                                    \<lparr>cg_rootDocumentId = pd_id (snd root),
                                     cg_rootFile = pd_file (snd root),
                                     cg_documents = map (\<lambda>d. (pd_id d, d)) documents,
                                     cg_canonicalReferences = map (\<lambda>d. (pd_id d, pd_file d)) documents,
                                     cg_dependencyEdges = dependencyEdges,
                                     cg_childEdges = childEdges,
                                     cg_topologicalOrder = expandedOrder,
                                     cg_eligibleTasks = eligibleTasks,
                                     cg_parallelGroups = parallel_groups documents\<rparr>
                                  in
                                  if \<not> valid_compiled_graph candidate
                                  then failed (ds @ stale @ [plain_error ''RALPH_PRD_GRAPH_SCHEMA_INVALID''])
                                  else Some
                                    \<lparr>cp_ok = \<not> (strict \<and>
                                        list_ex (\<lambda>d. dg_severity d = Sev_warning) (ds @ stale)),
                                     cp_graph = Some candidate, cp_diagnostics = ds @ stale\<rparr>)))))))"

definition or_default :: "'a option \<Rightarrow> 'a \<Rightarrow> 'a" where
  "or_default v d = (case v of None \<Rightarrow> d | Some x \<Rightarrow> x)"

definition empty_load_state :: load_state where
  "empty_load_state =
     \<lparr>ls_diagnostics = [], ls_documents = [], ls_canonicalById = Map.empty, ls_childByParent = Map.empty\<rparr>"

definition load_root :: "prd_env \<Rightarrow> graph_options \<Rightarrow> string \<Rightarrow> string \<Rightarrow> load_state" where
  "load_root env options workspace path =
     load env workspace (or_default (go_recursive options) True) (or_default (go_maxDocuments options) 100)
       (Suc (nat (or_default (go_maxDepth options) 8))) [] path None empty_load_state"

definition compilePrdGraph ::
  "prd_env \<Rightarrow> graph_options \<Rightarrow> string \<Rightarrow> compilation option" where
  "compilePrdGraph env options rootFile =
     (let maxDepth = or_default (go_maxDepth options) 8;
          maxDocuments = or_default (go_maxDocuments options) 100
      in
      if \<not> safe_int maxDepth \<or> maxDepth < 0 then failed [plain_error ''RALPH_PRD_MAX_DEPTH_INVALID'']
      else if \<not> safe_int maxDocuments \<or> maxDocuments < 1
      then failed [plain_error ''RALPH_PRD_MAX_DOCUMENTS_INVALID'']
      else
        (case pe_realpath env (pe_absolute env
                (or_default (go_workspaceRoot options) (pe_dirname env (pe_absolute env rootFile)))) of
           None \<Rightarrow> failed [plain_error ''RALPH_PRD_WORKSPACE_NOT_FOUND'']
         | Some workspace \<Rightarrow>
             (case pe_realpath env (pe_absolute env rootFile) of
                None \<Rightarrow> failed [error_in_file ''RALPH_PRD_ROOT_NOT_FOUND'' (portable rootFile)]
              | Some path \<Rightarrow>
                  if \<not> isContained env workspace path
                  then failed [error_in_file ''RALPH_PRD_ROOT_OUTSIDE_WORKSPACE'' (portable rootFile)]
                  else
                    (let st = load_root env options workspace path in
                     compile_documents (go_strict options = Some True) (Suc (length (ls_documents st))) st))))"

section \<open>What loading keeps\<close>

text \<open>The parser returns documents of its schema with distinct task identifiers, and real paths are not empty.\<close>

definition env_ok :: "prd_env \<Rightarrow> bool" where
  "env_ok env \<longleftrightarrow>
     (\<forall>path file inherited d.
        pr_ok (pe_parse env path file inherited) \<longrightarrow> pr_document (pe_parse env path file inherited) = Some d \<longrightarrow>
        valid_prd_document d \<and> distinct_ids d) \<and>
     (\<forall>p. pe_realpath env p \<noteq> Some [])"

definition doc_key :: "prd_document \<Rightarrow> prd_task \<Rightarrow> string" where
  "doc_key d t = ref_key (pd_id d) (pt_id t)"

definition loaded :: "load_state \<Rightarrow> prd_document list" where
  "loaded st = map snd (ls_documents st)"

definition load_inv :: "load_state \<Rightarrow> bool" where
  "load_inv st \<longleftrightarrow>
     distinct (map pd_id (loaded st)) \<and>
     (\<forall>(p, d) \<in> set (ls_documents st). ls_canonicalById st (pd_id d) = Some p \<and> p \<noteq> [] \<and>
        valid_prd_document d \<and> distinct_ids d) \<and>
     (\<forall>k c. ls_childByParent st k = Some c \<longrightarrow>
        (\<exists>xs d ys t. loaded st = xs @ d # ys \<and> t \<in> set (pd_tasks d) \<and> k = doc_key d t \<and>
           c \<in> pd_id ` set ys)) \<and>
     (\<forall>k k' c. ls_childByParent st k = Some c \<longrightarrow> ls_childByParent st k' = Some c \<longrightarrow> k = k') \<and>
     (\<forall>d \<in> set (tl (loaded st)). \<exists>k. ls_childByParent st k = Some (pd_id d))"

lemma load_inv_document:
  "load_inv st \<Longrightarrow> (p, d) \<in> set (ls_documents st) \<Longrightarrow>
   ls_canonicalById st (pd_id d) = Some p \<and> p \<noteq> [] \<and> valid_prd_document d \<and> distinct_ids d"
  by (auto simp: load_inv_def)

text \<open>The keys a step adds are those of \<open>K\<close> and those of the documents it loads; \<open>A\<close> is what it requires.\<close>

definition new_keys :: "string set \<Rightarrow> load_state \<Rightarrow> load_state \<Rightarrow> bool" where
  "new_keys K st st' \<longleftrightarrow>
     (\<forall>k. ls_childByParent st' k \<noteq> ls_childByParent st k \<longrightarrow>
        k \<in> K \<or> (\<exists>d \<in> set (loaded st'). pd_id d \<notin> pd_id ` set (loaded st) \<and> (\<exists>t. k = ref_key (pd_id d) t)))"

definition load_good :: "bool \<Rightarrow> string set \<Rightarrow> load_state \<Rightarrow> load_state \<Rightarrow> bool" where
  "load_good A K st st' \<longleftrightarrow>
     (\<exists>new. ls_documents st' = ls_documents st @ new) \<and>
     (\<exists>ds. ls_diagnostics st' = ls_diagnostics st @ ds) \<and>
     (\<not> hasErrors (ls_diagnostics st') \<longrightarrow> load_inv st \<longrightarrow> A \<longrightarrow> load_inv st' \<and> new_keys K st st')"

lemma hasErrors_append [simp]: "hasErrors (xs @ ys) \<longleftrightarrow> hasErrors xs \<or> hasErrors ys"
  by (simp add: hasErrors_def)

lemma hasErrors_simps [simp]:
  "\<not> hasErrors []"
  "hasErrors (error_in_file c f # ds)" "hasErrors (error_in_task c d t # ds)" "hasErrors (plain_error c # ds)"
  by (simp_all add: hasErrors_def error_in_file_def error_in_task_def plain_error_def)

lemma load_error_hasErrors [simp]: "hasErrors (load_error c f p # ds)"
  by (simp add: load_error_def split: option.split)

lemma add_diagnostics_simps [simp]:
  "ls_diagnostics (add_diagnostics st ds) = ls_diagnostics st @ ds"
  "ls_documents (add_diagnostics st ds) = ls_documents st"
  "ls_canonicalById (add_diagnostics st ds) = ls_canonicalById st"
  "ls_childByParent (add_diagnostics st ds) = ls_childByParent st"
  "loaded (add_diagnostics st ds) = loaded st"
  "load_inv (add_diagnostics st ds) = load_inv st"
  by (simp_all add: add_diagnostics_def loaded_def load_inv_def)

lemma load_good_diagnostics: "load_good A K st (add_diagnostics st ds)"
  by (simp add: load_good_def new_keys_def)

lemma load_good_refl: "load_good A K st st"
  by (simp add: load_good_def new_keys_def)

lemma load_good_trans:
  assumes "load_good A K st st1" and "load_good B K' st1 st2"
    and "load_inv st \<Longrightarrow> load_inv st1 \<Longrightarrow> new_keys K st st1 \<Longrightarrow> A \<Longrightarrow> B"
  shows "load_good A (K \<union> K') st st2"
proof -
  have docs: "\<exists>new. ls_documents st2 = ls_documents st @ new"
    and diags: "\<exists>ds. ls_diagnostics st2 = ls_diagnostics st @ ds"
    using assms by (auto simp: load_good_def)
  have "load_inv st2 \<and> new_keys (K \<union> K') st st2" if "\<not> hasErrors (ls_diagnostics st2)" "load_inv st" A
  proof -
    have "\<not> hasErrors (ls_diagnostics st1)"
      using assms(2) that(1) by (auto simp: load_good_def)
    then have 1: "load_inv st1" "new_keys K st st1"
      using assms(1) that(2,3) by (auto simp: load_good_def)
    then have 2: "load_inv st2" "new_keys K' st1 st2"
      using assms(2) assms(3) [OF that(2) 1 that(3)] that(1) by (auto simp: load_good_def)
    have sub: "set (loaded st) \<subseteq> set (loaded st1)" "set (loaded st1) \<subseteq> set (loaded st2)"
      using assms by (auto simp: load_good_def loaded_def)
    have "new_keys (K \<union> K') st st2"
      unfolding new_keys_def
    proof (intro allI impI)
      fix k
      assume "ls_childByParent st2 k \<noteq> ls_childByParent st k"
      then consider "ls_childByParent st2 k \<noteq> ls_childByParent st1 k" | "ls_childByParent st1 k \<noteq> ls_childByParent st k"
        by metis
      then show "k \<in> K \<union> K' \<or> (\<exists>d \<in> set (loaded st2). pd_id d \<notin> pd_id ` set (loaded st) \<and> (\<exists>t. k = ref_key (pd_id d) t))"
      proof cases
        case 1
        then show ?thesis
          using 2(2) sub unfolding new_keys_def by blast
      next
        case 2
        then show ?thesis
          using \<open>new_keys K st st1\<close> sub unfolding new_keys_def by blast
      qed
    qed
    with 2 show ?thesis by simp
  qed
  with docs diags show ?thesis
    by (simp add: load_good_def)
qed

lemma load_good_mono: "load_good A K st st' \<Longrightarrow> K \<subseteq> K' \<Longrightarrow> load_good A K' st st'"
  unfolding load_good_def new_keys_def by blast

definition parent_ready :: "load_parent option \<Rightarrow> load_state \<Rightarrow> bool" where
  "parent_ready parent st \<longleftrightarrow>
     (case parent of
        None \<Rightarrow> ls_documents st = []
      | Some p \<Rightarrow> lp_document p \<in> set (loaded st) \<and> lp_task p \<in> set (pd_tasks (lp_document p)) \<and>
          ls_childByParent st (doc_key (lp_document p) (lp_task p)) = None)"

definition parent_keys :: "load_parent option \<Rightarrow> string set" where
  "parent_keys parent = (case parent of None \<Rightarrow> {} | Some p \<Rightarrow> {doc_key (lp_document p) (lp_task p)})"

lemma register_fields:
  "ls_documents (register_document env path d ancestry parent st) = ls_documents st @ [(path, d)]"
  "ls_canonicalById (register_document env path d ancestry parent st) = (ls_canonicalById st)(pd_id d \<mapsto> path)"
  "ls_childByParent (register_document env path d ancestry parent st) =
     (case parent of None \<Rightarrow> ls_childByParent st
      | Some p \<Rightarrow> (ls_childByParent st)(doc_key (lp_document p) (lp_task p) \<mapsto> pd_id d))"
  "\<exists>ds. ls_diagnostics (register_document env path d ancestry parent st) =
     ls_diagnostics st @ identity_diagnostics st path d ancestry @ ds \<or>
   ls_diagnostics (register_document env path d ancestry parent st) =
     ls_diagnostics st @ (kind_diagnostics d parent @ identity_diagnostics st path d ancestry) @ ds"
  by (cases parent; auto simp: register_document_def Let_def doc_key_def)+

lemma register_good:
  assumes "map_of (ls_documents st) path = None" and "path \<noteq> []"
    and "valid_prd_document d" and "distinct_ids d"
  shows "load_good (parent_ready parent st) (parent_keys parent) st (register_document env path d ancestry parent st)"
proof -
  let ?st = "register_document env path d ancestry parent st"
  note f = register_fields [of env path d ancestry parent st]
  have loaded: "loaded ?st = loaded st @ [d]"
    by (simp add: loaded_def f)
  obtain ds where diags: "ls_diagnostics ?st = ls_diagnostics st @ ds"
    and ident: "hasErrors (identity_diagnostics st path d ancestry) \<Longrightarrow> hasErrors ds"
    using f(4) by (metis append_assoc hasErrors_append)
  have "load_inv ?st \<and> new_keys (parent_keys parent) st ?st"
    if ok: "\<not> hasErrors (ls_diagnostics ?st)" and inv: "load_inv st" and ready: "parent_ready parent st"
  proof
    have fresh: "pd_id d \<notin> pd_id ` set (loaded st)"
    proof
      assume "pd_id d \<in> pd_id ` set (loaded st)"
      then obtain p e where e: "(p, e) \<in> set (ls_documents st)" "pd_id e = pd_id d"
        by (auto simp: loaded_def)
      then have prev: "ls_canonicalById st (pd_id d) = Some p" "p \<noteq> []"
        using load_inv_document [OF inv e(1)] by simp_all
      have "p \<noteq> path"
        using e(1) assms(1) by (force simp: map_of_eq_None_iff)
      then have "hasErrors (identity_diagnostics st path d ancestry)"
        using prev by (simp add: identity_diagnostics_def)
      then show False
        using ok ident diags by simp
    qed
    have cb_old: "ls_childByParent ?st k = Some c" if "ls_childByParent st k = Some c" for k c
      using that ready by (auto simp: f parent_ready_def split: option.splits)
    have cb_new: "ls_childByParent st k = Some c \<or>
        (\<exists>p. parent = Some p \<and> k = doc_key (lp_document p) (lp_task p) \<and> c = pd_id d)"
      if "ls_childByParent ?st k = Some c" for k c
      using that by (auto simp: f split: option.splits if_splits)
    have old_id: "c \<in> pd_id ` set (loaded st)" if "ls_childByParent st k = Some c" for k c
      using inv that unfolding load_inv_def by fastforce
    show "load_inv ?st"
      unfolding load_inv_def
    proof (intro conjI allI impI)
      show "distinct (map pd_id (loaded ?st))"
        using inv fresh by (simp add: load_inv_def loaded)
      show "\<forall>(p, e) \<in> set (ls_documents ?st). ls_canonicalById ?st (pd_id e) = Some p \<and> p \<noteq> [] \<and>
          valid_prd_document e \<and> distinct_ids e"
      proof (intro ballI, clarify)
        fix p e
        assume "(p, e) \<in> set (ls_documents ?st)"
        then consider "(p, e) \<in> set (ls_documents st)" | "p = path" "e = d"
          by (auto simp: f)
        then show "ls_canonicalById ?st (pd_id e) = Some p \<and> p \<noteq> [] \<and> valid_prd_document e \<and> distinct_ids e"
        proof cases
          case 1
          then have "pd_id e \<noteq> pd_id d"
            using fresh unfolding loaded_def by (metis image_eqI list.set_map snd_conv)
          then show ?thesis
            using inv 1 unfolding load_inv_def by (auto simp: f)
        next
          case 2
          then show ?thesis using assms(2-4) by (simp add: f)
        qed
      qed
    next
      fix k c
      assume "ls_childByParent ?st k = Some c"
      then consider "ls_childByParent st k = Some c"
        | p where "parent = Some p" "k = doc_key (lp_document p) (lp_task p)" "c = pd_id d"
        using cb_new by blast
      then show "\<exists>xs e ys t. loaded ?st = xs @ e # ys \<and> t \<in> set (pd_tasks e) \<and> k = doc_key e t \<and> c \<in> pd_id ` set ys"
      proof cases
        case 1
        then obtain xs e ys t where "loaded st = xs @ e # ys" "t \<in> set (pd_tasks e)" "k = doc_key e t" "c \<in> pd_id ` set ys"
          using inv unfolding load_inv_def by blast
        then show ?thesis
          by (intro exI [of _ xs] exI [of _ e] exI [of _ "ys @ [d]"] exI [of _ t]) (auto simp: loaded)
      next
        case 2
        then obtain xs ys where "loaded st = xs @ lp_document p # ys"
          using ready by (auto simp: parent_ready_def dest: split_list)
        then have "loaded ?st = xs @ lp_document p # (ys @ [d])"
          by (simp add: loaded)
        moreover have "lp_task p \<in> set (pd_tasks (lp_document p))" "c \<in> pd_id ` set (ys @ [d])"
          using 2 ready by (simp_all add: parent_ready_def)
        ultimately show ?thesis
          using 2(2) by blast
      qed
    next
      fix k k' c
      assume "ls_childByParent ?st k = Some c" "ls_childByParent ?st k' = Some c"
      then show "k = k'"
        using cb_new [of k c] cb_new [of k' c] inv old_id fresh unfolding load_inv_def by (metis option.inject)
    next
      show "\<forall>e \<in> set (tl (loaded ?st)). \<exists>k. ls_childByParent ?st k = Some (pd_id e)"
      proof
        fix e
        assume e: "e \<in> set (tl (loaded ?st))"
        show "\<exists>k. ls_childByParent ?st k = Some (pd_id e)"
        proof (cases "loaded st = []")
          case True
          then show ?thesis using e by (simp add: loaded)
        next
          case False
          then have "e \<in> set (tl (loaded st)) \<or> e = d"
            using e by (auto simp: loaded)
          then show ?thesis
          proof
            assume "e \<in> set (tl (loaded st))"
            then show ?thesis
              using inv cb_old unfolding load_inv_def by blast
          next
            assume "e = d"
            moreover obtain p where "parent = Some p"
              using ready False by (cases parent) (auto simp: parent_ready_def loaded_def)
            ultimately have "ls_childByParent ?st (doc_key (lp_document p) (lp_task p)) = Some (pd_id e)"
              by (simp add: register_fields)
            then show ?thesis ..
          qed
        qed
      qed
    qed
    show "new_keys (parent_keys parent) st ?st"
      by (auto simp: new_keys_def f parent_keys_def split: option.splits if_splits)
  qed
  then show ?thesis
    unfolding load_good_def using f(1) diags by blast
qed

lemma ref_key_inject_ids:
  "prd_slug (pd_id d) \<Longrightarrow> prd_slug (pd_id e) \<Longrightarrow> ref_key (pd_id d) t = ref_key (pd_id e) u \<longleftrightarrow> pd_id d = pd_id e \<and> t = u"
  by (rule ref_key_inject)

lemma load_inv_slug: "load_inv st \<Longrightarrow> d \<in> set (loaded st) \<Longrightarrow> prd_slug (pd_id d) \<and> distinct_ids d \<and> valid_prd_document d"
  by (auto simp: loaded_def valid_prd_document_def dest: load_inv_document)

lemma children_good:
  assumes go: "\<And>sub st t. sub \<noteq> [] \<Longrightarrow>
      load_good (parent_ready (Some \<lparr>lp_path = path, lp_document = d, lp_task = t\<rparr>) st) {doc_key d t} st
        (go sub (Some \<lparr>lp_path = path, lp_document = d, lp_task = t\<rparr>) st)"
    and env: "env_ok env"
    and ts: "set ts \<subseteq> set (pd_tasks d)" "distinct (map pt_id ts)"
  shows "load_good (d \<in> set (loaded st) \<and> (\<forall>t \<in> set ts. ls_childByParent st (doc_key d t) = None))
    (doc_key d ` set ts) st (foldl (load_child env root go path d) st ts)"
  using ts
proof (induction ts arbitrary: st)
  case Nil
  then show ?case by (simp add: load_good_refl)
next
  case (Cons t ts)
  let ?st = "load_child env root go path d st t"
  let ?A = "d \<in> set (loaded st) \<and> (\<forall>u \<in> set (t # ts). ls_childByParent st (doc_key d u) = None)"
  let ?B = "d \<in> set (loaded ?st) \<and> (\<forall>u \<in> set ts. ls_childByParent ?st (doc_key d u) = None)"
  have ready: "parent_ready (Some \<lparr>lp_path = path, lp_document = d, lp_task = t\<rparr>) st" if ?A
    using that Cons.prems(1) by (simp add: parent_ready_def)
  have go': "load_good ?A {doc_key d t} st (go sub (Some \<lparr>lp_path = path, lp_document = d, lp_task = t\<rparr>) st)"
    if "sub \<noteq> []" for sub
    using go [OF that, of t st] ready by (auto simp: load_good_def)
  have step: "load_good ?A {doc_key d t} st ?st"
  proof (cases "truthy_sub t")
    case None
    then show ?thesis by (simp add: load_child_def load_good_refl)
  next
    case (Some sub)
    show ?thesis
    proof (cases "pe_realpath env (pe_resolve env (pe_dirname env path) sub)")
      case None
      then show ?thesis by (simp add: load_child_def Some load_good_diagnostics)
    next
      case (Some child)
      then have "child \<noteq> []"
        using env by (auto simp: env_ok_def)
      then show ?thesis
        using go' [of child] Some \<open>truthy_sub t = Some sub\<close>
        by (simp add: load_child_def load_good_diagnostics)
    qed
  qed
  have rest: "load_good ?B (doc_key d ` set ts) ?st (foldl (load_child env root go path d) ?st ts)"
    using Cons.prems by (intro Cons.IH) auto
  have "load_good ?A ({doc_key d t} \<union> doc_key d ` set ts) st (foldl (load_child env root go path d) ?st ts)"
  proof (rule load_good_trans [OF step rest])
    assume inv: "load_inv st" "load_inv ?st" and keys: "new_keys {doc_key d t} st ?st" and A: ?A
    have "set (loaded st) \<subseteq> set (loaded ?st)"
      using step by (auto simp: load_good_def loaded_def)
    then have d: "d \<in> set (loaded ?st)"
      using A by blast
    have "ls_childByParent ?st (doc_key d u) = None" if u: "u \<in> set ts" for u
    proof (rule ccontr)
      assume "ls_childByParent ?st (doc_key d u) \<noteq> None"
      then have "ls_childByParent ?st (doc_key d u) \<noteq> ls_childByParent st (doc_key d u)"
        using A u by simp
      then consider "doc_key d u = doc_key d t"
        | e x where "e \<in> set (loaded ?st)" "pd_id e \<notin> pd_id ` set (loaded st)" "doc_key d u = ref_key (pd_id e) x"
        using keys unfolding new_keys_def by blast
      then show False
      proof cases
        case 1
        then show False
          using u Cons.prems(2) by (auto simp: doc_key_def ref_key_def image_iff)
      next
        case 2
        then have "pd_id d = pd_id e"
          using ref_key_inject_ids [of d e] load_inv_slug [OF inv(2)] d by (auto simp: doc_key_def)
        then show False
          using 2(2) A by (metis image_eqI)
      qed
    qed
    with d show ?B by blast
  qed
  then show ?case by simp
qed

lemma load_good_absorb:
  assumes "load_good A (K \<union> doc_key d ` T) st st'" and "loaded st' = loaded st @ d # rest"
  shows "load_good A K st st'"
proof -
  have "new_keys K st st'" if inv: "load_inv st'" and keys: "new_keys (K \<union> doc_key d ` T) st st'"
  proof -
    have "pd_id d \<notin> pd_id ` set (loaded st)" "d \<in> set (loaded st')"
      using inv assms(2) by (auto simp: load_inv_def)
    then show ?thesis
      using keys unfolding new_keys_def doc_key_def by blast
  qed
  then show ?thesis
    using assms(1) unfolding load_good_def by blast
qed

lemma load_is_good:
  assumes "env_ok env"
  shows "path \<noteq> [] \<Longrightarrow> load_good (parent_ready parent st) (parent_keys parent) st
    (load env root recursive maxDocuments levels ancestry path parent st)"
proof (induction levels arbitrary: ancestry path parent st)
  case 0
  then show ?case by (simp add: load_good_diagnostics)
next
  case (Suc levels)
  let ?parsed = "pe_parse env path (displayPath env root path) (map_option lp_document parent)"
  let ?st1 = "add_diagnostics st (pr_diagnostics ?parsed)"
  let ?go = "load env root recursive maxDocuments levels (ancestry @ [path])"
  show ?case
  proof (cases "List.member ancestry path \<or> map_of (ls_documents st) path \<noteq> None \<or>
      maxDocuments \<le> int (length (ls_documents st)) \<or> pr_document ?parsed = None \<or> \<not> pr_ok ?parsed")
    case True
    then show ?thesis
      by (auto simp: Let_def load_good_diagnostics split: option.split)
  next
    case False
    then obtain d where d: "pr_document ?parsed = Some d" "pr_ok ?parsed" and new: "map_of (ls_documents st) path = None"
      by auto
    then have valid: "valid_prd_document d" "distinct_ids d"
      using assms unfolding env_ok_def by blast+
    let ?st2 = "register_document env path d ancestry parent ?st1"
    have reg: "load_good (parent_ready parent st) (parent_keys parent) st ?st2"
    proof -
      have r: "load_good (parent_ready parent ?st1) (parent_keys parent) ?st1 ?st2"
        using new Suc.prems valid by (intro register_good) simp_all
      have "load_good (parent_ready parent st) ({} \<union> parent_keys parent) st ?st2"
        by (rule load_good_trans [OF load_good_diagnostics r]) (simp add: parent_ready_def split: option.splits)
      then show ?thesis by simp
    qed
    have loaded: "loaded ?st2 = loaded st @ [d]"
      by (simp add: loaded_def register_fields)
    show ?thesis
    proof (cases recursive)
      case False
      then have "load env root recursive maxDocuments (Suc levels) ancestry path parent st =
          add_diagnostics ?st2 (not_expanded d)"
        using d new \<open>\<not> (_ \<or> _)\<close> by (simp add: Let_def)
      moreover have "load_good (parent_ready parent st) (parent_keys parent \<union> {}) st (add_diagnostics ?st2 (not_expanded d))"
        by (rule load_good_trans [OF reg load_good_diagnostics]) simp
      ultimately show ?thesis by simp
    next
      case True
      then have eq: "load env root recursive maxDocuments (Suc levels) ancestry path parent st =
          foldl (load_child env root ?go path d) ?st2 (pd_tasks d)"
        using d new \<open>\<not> (_ \<or> _)\<close> by (simp add: Let_def)
      have kids: "load_good (d \<in> set (loaded ?st2) \<and> (\<forall>t \<in> set (pd_tasks d). ls_childByParent ?st2 (doc_key d t) = None))
          (doc_key d ` set (pd_tasks d)) ?st2 (foldl (load_child env root ?go path d) ?st2 (pd_tasks d))"
      proof (rule children_good [OF _ assms subset_refl])
        show "distinct (map pt_id (pd_tasks d))"
          using valid(2) by (simp add: distinct_ids_def)
        show "load_good (parent_ready (Some \<lparr>lp_path = path, lp_document = d, lp_task = t\<rparr>) s) {doc_key d t} s
            (?go sub (Some \<lparr>lp_path = path, lp_document = d, lp_task = t\<rparr>) s)" if "sub \<noteq> []" for sub s t
          using Suc.IH [OF that, of "Some \<lparr>lp_path = path, lp_document = d, lp_task = t\<rparr>" s "ancestry @ [path]"]
          by (simp add: parent_keys_def)
      qed
      have "load_good (parent_ready parent st) (parent_keys parent \<union> doc_key d ` set (pd_tasks d)) st
          (foldl (load_child env root ?go path d) ?st2 (pd_tasks d))"
      proof (rule load_good_trans [OF reg kids])
        assume inv: "load_inv st" "load_inv ?st2" and ready: "parent_ready parent st"
        have fresh: "pd_id d \<notin> pd_id ` set (loaded st)"
          using inv(2) by (simp add: load_inv_def loaded)
        have "doc_key d t \<noteq> doc_key e u" if "e \<in> set (loaded st)" for e t u
          using that fresh ref_key_inject_ids [of d e] load_inv_slug [OF inv(1), of e] valid(1)
          by (auto simp: doc_key_def valid_prd_document_def)
        then have none: "ls_childByParent st (doc_key d t) = None" "doc_key d t \<notin> parent_keys parent" for t
          using inv(1) ready unfolding load_inv_def parent_keys_def parent_ready_def
          by (metis in_set_conv_decomp option.exhaust, auto split: option.splits)
        then have "ls_childByParent ?st2 (doc_key d t) = None" for t
          by (auto simp: register_fields parent_keys_def split: option.splits)
        then show "d \<in> set (loaded ?st2) \<and> (\<forall>t \<in> set (pd_tasks d). ls_childByParent ?st2 (doc_key d t) = None)"
          by (simp add: loaded)
      qed
      moreover obtain new where "ls_documents (foldl (load_child env root ?go path d) ?st2 (pd_tasks d)) = ls_documents ?st2 @ new"
        using kids unfolding load_good_def by blast
      then have "loaded (foldl (load_child env root ?go path d) ?st2 (pd_tasks d)) = loaded st @ d # map snd new"
        using loaded by (simp add: loaded_def)
      ultimately show ?thesis
        unfolding eq by (rule load_good_absorb)
    qed
  qed
qed

lemma load_bound:
  "int (length (ls_documents st)) \<le> maxDocuments \<Longrightarrow>
   int (length (ls_documents (load env root recursive maxDocuments levels ancestry path parent st))) \<le> maxDocuments"
proof (induction levels arbitrary: ancestry path parent st)
  case 0
  then show ?case by simp
next
  case (Suc levels)
  have kids: "int (length (ls_documents s)) \<le> maxDocuments \<Longrightarrow>
      int (length (ls_documents (foldl (load_child env root (load env root recursive maxDocuments levels anc) path d) s ts))) \<le> maxDocuments"
    for s anc d ts
  proof (induction ts arbitrary: s)
    case (Cons t ts)
    have "int (length (ls_documents (load_child env root (load env root recursive maxDocuments levels anc) path d s t))) \<le> maxDocuments"
      using Cons.prems Suc.IH by (auto simp: load_child_def split: option.split)
    then show ?case
      using Cons.IH by simp
  qed simp
  have reg: "int (length (ls_documents (register_document env path d ancestry parent (add_diagnostics st ds)))) \<le> maxDocuments"
    if "\<not> maxDocuments \<le> int (length (ls_documents st))" for d ds
    using that by (simp add: register_fields)
  show ?case
    using Suc.prems reg kids by (auto simp: Let_def split: option.split)
qed

section \<open>The loaded documents\<close>

text \<open>What a load without errors gives the compilation.\<close>

definition documents_ok :: "prd_document list \<Rightarrow> (string \<rightharpoonup> string) \<Rightarrow> bool" where
  "documents_ok ds cb \<longleftrightarrow>
     distinct (map pd_id ds) \<and> (\<forall>d \<in> set ds. valid_prd_document d \<and> distinct_ids d) \<and>
     (\<forall>k c. cb k = Some c \<longrightarrow>
        (\<exists>xs d ys t. ds = xs @ d # ys \<and> t \<in> set (pd_tasks d) \<and> k = doc_key d t \<and> c \<in> pd_id ` set ys)) \<and>
     (\<forall>k k' c. cb k = Some c \<longrightarrow> cb k' = Some c \<longrightarrow> k = k') \<and>
     (\<forall>d \<in> set (tl ds). \<exists>k. cb k = Some (pd_id d))"

lemma load_inv_empty: "load_inv empty_load_state"
  by (simp add: load_inv_def empty_load_state_def loaded_def)

lemma load_root_ok:
  assumes "env_ok env" and "path \<noteq> []" and "\<not> hasErrors (ls_diagnostics (load_root env options w path))"
  shows "documents_ok (loaded (load_root env options w path)) (ls_childByParent (load_root env options w path))"
proof -
  have "load_good (parent_ready None empty_load_state) (parent_keys None) empty_load_state (load_root env options w path)"
    unfolding load_root_def by (rule load_is_good [OF assms(1,2)])
  then have inv: "load_inv (load_root env options w path)"
    using assms(3) load_inv_empty
    by (simp add: load_good_def parent_ready_def empty_load_state_def)
  then have "\<forall>d \<in> set (loaded (load_root env options w path)). valid_prd_document d \<and> distinct_ids d"
    using load_inv_slug by blast
  then show ?thesis
    using inv unfolding load_inv_def documents_ok_def by blast
qed

section \<open>The tree of documents\<close>

definition context_ok :: "prd_document list \<Rightarrow> graph_context \<Rightarrow> bool" where
  "context_ok ds ctx \<longleftrightarrow>
     documents_ok ds (gc_childByParent ctx) \<and>
     gc_documentById ctx = js_map (map (\<lambda>d. (pd_id d, d)) ds) \<and>
     (\<forall>d \<in> set ds. mset (local_order ctx d) = mset (pd_tasks d) \<and> deps_ordered [] (local_order ctx d))"

lemma documentById:
  assumes "context_ok ds ctx"
  shows "gc_documentById ctx i = Some d \<longleftrightarrow> d \<in> set ds \<and> pd_id d = i"
proof -
  have d: "distinct (map fst (map (\<lambda>d. (pd_id d, d)) ds))"
    using assms by (simp add: context_ok_def documents_ok_def comp_def)
  have "gc_documentById ctx = map_of (map (\<lambda>d. (pd_id d, d)) ds)"
    using assms js_map_distinct [OF d] by (simp add: context_ok_def)
  then show ?thesis
    using map_of_eq_Some_iff [OF d, of i] by auto
qed

lemma same_id:
  assumes "context_ok ds ctx" "d \<in> set ds" "e \<in> set ds" "pd_id d = pd_id e"
  shows "d = e"
  using assms by (auto simp: context_ok_def documents_ok_def distinct_map inj_on_def)

lemma doc_slug: "context_ok ds ctx \<Longrightarrow> d \<in> set ds \<Longrightarrow> prd_slug (pd_id d)"
  by (auto simp: context_ok_def documents_ok_def valid_prd_document_def)

lemma doc_ids: "context_ok ds ctx \<Longrightarrow> d \<in> set ds \<Longrightarrow> distinct_ids d"
  by (auto simp: context_ok_def documents_ok_def)

lemma doc_key_inject:
  assumes "context_ok ds ctx" "d \<in> set ds" "e \<in> set ds" "t \<in> set (pd_tasks d)" "u \<in> set (pd_tasks e)"
  shows "doc_key d t = doc_key e u \<longleftrightarrow> d = e \<and> t = u"
proof
  assume "doc_key d t = doc_key e u"
  then have eq: "pd_id d = pd_id e" "pt_id t = pt_id u"
    using ref_key_inject_ids [of d e] doc_slug [OF assms(1)] assms(2,3) by (auto simp: doc_key_def)
  then have "d = e"
    using same_id assms by blast
  moreover from this have "t = u"
    using ids_inj [OF doc_ids [OF assms(1,2)] assms(4)] assms(5) eq by blast
  ultimately show "d = e \<and> t = u" ..
qed simp

text \<open>A child document stands after its parent, and has only one.\<close>

lemma child_ofD:
  assumes "context_ok ds ctx" and "ds = xs @ d # ys" and "t \<in> set (pd_tasks d)" and "child_of ctx d t = Some c"
  shows "c \<in> set ys \<and> gc_childByParent ctx (doc_key d t) = Some (pd_id c)"
proof -
  obtain i where cb: "gc_childByParent ctx (doc_key d t) = Some i" and i: "gc_documentById ctx i = Some c"
    using assms(4) by (auto simp: child_of_def doc_key_def split: option.splits if_splits)
  have c: "c \<in> set ds" "pd_id c = i"
    using i documentById [OF assms(1)] by auto
  obtain xs' e ys' u where e: "ds = xs' @ e # ys'" "u \<in> set (pd_tasks e)" "doc_key d t = doc_key e u" "i \<in> pd_id ` set ys'"
    using cb assms(1) unfolding context_ok_def documents_ok_def by blast
  have "d \<in> set ds"
    by (simp add: assms(2))
  moreover have "e \<in> set ds"
    by (simp add: e(1))
  ultimately have "d = e"
    using doc_key_inject [OF assms(1)] assms(3) e(2,3) by blast
  moreover have "distinct ds"
    using assms(1) by (auto simp: context_ok_def documents_ok_def distinct_map)
  ultimately have "ys = ys'"
    using assms(2) e(1) append_Cons_eq_iff [of e xs ys xs' ys'] by auto
  then obtain c' where "c' \<in> set ys" "pd_id c' = i"
    using e(4) by auto
  then have "c = c'"
    using same_id [OF assms(1) c(1), of c'] c(2) assms(2) by auto
  then show ?thesis
    using \<open>c' \<in> set ys\<close> cb c(2) by simp
qed

lemma child_in: "context_ok ds ctx \<Longrightarrow> d \<in> set ds \<Longrightarrow> t \<in> set (pd_tasks d) \<Longrightarrow> child_of ctx d t = Some c \<Longrightarrow> c \<in> set ds"
  by (metis child_ofD in_set_conv_decomp append_Cons Un_iff set_append list.set_intros(2))

subsection \<open>The bound of the recursions\<close>

lemma every_opt_Some: "(\<And>x. x \<in> set xs \<Longrightarrow> p x \<noteq> None) \<Longrightarrow> every_opt p xs \<noteq> None"
  by (induction xs) (auto split: option.splits bool.splits)

lemma concat_opt_Some: "(\<And>x. x \<in> set xs \<Longrightarrow> f x \<noteq> None) \<Longrightarrow> concat_opt f xs \<noteq> None"
  by (induction xs) (auto split: option.splits)

lemma set_local_order: "context_ok ds ctx \<Longrightarrow> d \<in> set ds \<Longrightarrow> set (local_order ctx d) = set (pd_tasks d)"
  by (metis context_ok_def mset_eq_setD)

lemma documentComplete_Some:
  assumes "context_ok ds ctx"
  shows "ds = xs @ d # ys \<Longrightarrow> length ys < n \<Longrightarrow> documentComplete ctx n d \<noteq> None"
proof (induction n arbitrary: xs d ys)
  case (Suc n)
  have "documentComplete ctx n c \<noteq> None" if "t \<in> set (pd_tasks d)" "child_of ctx d t = Some c" for t c
  proof -
    have "c \<in> set ys"
      using child_ofD [OF assms Suc.prems(1) that] by simp
    then obtain us vs where ys: "ys = us @ c # vs"
      by (meson split_list)
    then show ?thesis
      using Suc.IH [of "xs @ d # us" c vs] Suc.prems by simp
  qed
  then show ?case
    unfolding documentComplete.simps by (intro every_opt_Some) (auto simp: task_complete_by_def split: option.split)
qed simp

lemma appendDocumentOrder_Some:
  assumes "context_ok ds ctx"
  shows "ds = xs @ d # ys \<Longrightarrow> length ys < n \<Longrightarrow> appendDocumentOrder ctx n d \<noteq> None"
proof (induction n arbitrary: xs d ys)
  case (Suc n)
  have "appendDocumentOrder ctx n c \<noteq> None" if "t \<in> set (pd_tasks d)" "child_of ctx d t = Some c" for t c
  proof -
    have "c \<in> set ys"
      using child_ofD [OF assms Suc.prems(1) that] by simp
    then obtain us vs where ys: "ys = us @ c # vs"
      by (meson split_list)
    then show ?thesis
      using Suc.IH [of "xs @ d # us" c vs] Suc.prems by simp
  qed
  moreover have "set (local_order ctx d) = set (pd_tasks d)"
    using set_local_order [OF assms] Suc.prems(1) by simp
  ultimately show ?case
    unfolding appendDocumentOrder.simps by (intro concat_opt_Some) (auto split: option.split)
qed simp

lemma documentComplete_bound:
  assumes "context_ok ds ctx" and "d \<in> set ds" and "length ds \<le> n"
  shows "documentComplete ctx n d \<noteq> None"
proof -
  obtain xs ys where ds: "ds = xs @ d # ys"
    using assms(2) by (meson split_list)
  then have "length ys < n"
    using assms(3) by simp
  then show ?thesis
    using documentComplete_Some [OF assms(1) ds] by blast
qed

lemma collectEligible_Some:
  assumes "context_ok ds ctx" and "length ds \<le> m"
  shows "ds = xs @ d # ys \<Longrightarrow> length ys < n \<Longrightarrow> collectEligible ctx m n d \<noteq> None"
proof (induction n arbitrary: xs d ys)
  case (Suc n)
  have d: "d \<in> set ds"
    using Suc.prems(1) by simp
  have kid: "collectEligible ctx m n c \<noteq> None \<and> documentComplete ctx m c \<noteq> None"
    if t: "t \<in> set (pd_tasks d)" "child_of ctx d t = Some c" for t c
  proof -
    have c: "c \<in> set ys"
      using child_ofD [OF assms(1) Suc.prems(1) t] by simp
    then obtain us vs where ys: "ys = us @ c # vs"
      by (meson split_list)
    moreover have "documentComplete ctx m c \<noteq> None"
      using c Suc.prems(1) by (intro documentComplete_bound [OF assms(1) _ assms(2)]) auto
    ultimately show ?thesis
      using Suc.IH [of "xs @ d # us" c vs] Suc.prems by simp
  qed
  have task: "taskComplete ctx m d t \<noteq> None" if "t \<in> set (pd_tasks d)" for t
    using kid [OF that] by (auto simp: taskComplete_def task_complete_by_def split: option.split)
  have deps: "every_opt
      (\<lambda>dependency. case find (\<lambda>candidate. pt_id candidate = dependency) (pd_tasks d) of
          None \<Rightarrow> Some False | Some t \<Rightarrow> taskComplete ctx m d t) us \<noteq> None" for us
  proof (rule every_opt_Some)
    fix u
    show "(case find (\<lambda>candidate. pt_id candidate = u) (pd_tasks d) of
        None \<Rightarrow> Some False | Some t \<Rightarrow> taskComplete ctx m d t) \<noteq> None"
    proof (cases "find (\<lambda>candidate. pt_id candidate = u) (pd_tasks d)")
      case (Some t)
      then show ?thesis using task find_SomeD [OF Some] by simp
    qed simp
  qed
  have "set (local_order ctx d) = set (pd_tasks d)"
    using set_local_order [OF assms(1) d] .
  moreover have "(if pt_status t = Marker_completed then Some []
          else
            (case every_opt
                    (\<lambda>dependency.
                       case find (\<lambda>candidate. pt_id candidate = dependency) (pd_tasks d) of
                         None \<Rightarrow> Some False
                       | Some t \<Rightarrow> taskComplete ctx m d t) (pt_dependencies t) of
               None \<Rightarrow> None
             | Some False \<Rightarrow> Some []
             | Some True \<Rightarrow>
                 (case child_of ctx d t of
                    None \<Rightarrow> Some [taskRef (pd_id d) t]
                  | Some child \<Rightarrow>
                      (case documentComplete ctx m child of
                         None \<Rightarrow> None
                       | Some True \<Rightarrow> Some [taskRef (pd_id d) t]
                       | Some False \<Rightarrow> collectEligible ctx m n child)))) \<noteq> None"
    if t: "t \<in> set (pd_tasks d)" for t
  proof -
    obtain b where b: "every_opt
      (\<lambda>dependency. case find (\<lambda>candidate. pt_id candidate = dependency) (pd_tasks d) of
          None \<Rightarrow> Some False | Some t \<Rightarrow> taskComplete ctx m d t) (pt_dependencies t) = Some b"
      using deps by blast
    show ?thesis
      unfolding b using kid [OF t] by (auto split: option.split bool.split)
  qed
  ultimately show ?case
    unfolding collectEligible.simps by (intro concat_opt_Some) blast
qed simp

subsection \<open>The local orders\<close>

definition order_step ::
  "(string \<rightharpoonup> prd_task list) \<times> diagnostic list \<Rightarrow> prd_document \<Rightarrow> (string \<rightharpoonup> prd_task list) \<times> diagnostic list" where
  "order_step s d =
     (case s of (orders, ds) \<Rightarrow>
        (case dependencyOrder d ds of
           (None, ds') \<Rightarrow> (orders, ds') | (Some ts, ds') \<Rightarrow> (orders(pd_id d \<mapsto> ts), ds')))"

lemma local_orders_step: "local_orders documents ds = foldl order_step (Map.empty, ds) documents"
proof -
  have "(\<lambda>(orders, ds) d. case dependencyOrder d ds of
      (None, ds') \<Rightarrow> (orders, ds') | (Some ts, ds') \<Rightarrow> (orders(pd_id d \<mapsto> ts), ds')) = order_step"
    by (intro ext) (simp add: order_step_def split: prod.split)
  then show ?thesis
    by (simp add: local_orders_def)
qed

lemma order_step_eq:
  assumes "distinct_ids d"
  shows "\<exists>ds'. order_step (orders, ds) d =
      (if has_order d then (orders(pd_id d \<mapsto> ready_order (length (pd_tasks d)) (pd_tasks d) []), ds)
       else (orders, ds @ ds')) \<and> hasErrors ds' \<or> has_order d \<and> order_step (orders, ds) d =
       (orders(pd_id d \<mapsto> ready_order (length (pd_tasks d)) (pd_tasks d) []), ds)"
proof -
  obtain ds' where ds': "snd (dependencyOrder d ds) = ds @ ds'"
    "list_all (\<lambda>x. dg_severity x = Sev_error) ds'" "ds' = [] \<longleftrightarrow> has_order d"
    using dependencyOrder_correct(2) [OF assms] by blast
  have fst: "fst (dependencyOrder d ds) = (if has_order d then Some (ready_order (length (pd_tasks d)) (pd_tasks d) []) else None)"
    by (rule dependencyOrder_correct(1) [OF assms])
  show ?thesis
  proof (cases "has_order d")
    case True
    then have "dependencyOrder d ds = (Some (ready_order (length (pd_tasks d)) (pd_tasks d) []), ds)"
      using ds' fst by (intro prod_eqI) simp_all
    then show ?thesis
      using True by (simp add: order_step_def)
  next
    case False
    then have "dependencyOrder d ds = (None, ds @ ds')"
      using ds' fst by (intro prod_eqI) simp_all
    moreover have "hasErrors ds'"
      using ds'(2,3) False by (cases ds') (auto simp: hasErrors_def)
    ultimately show ?thesis
      using False by (auto simp: order_step_def)
  qed
qed

lemma order_fold_errors:
  "\<forall>d \<in> set docs. distinct_ids d \<Longrightarrow> hasErrors (snd s) \<Longrightarrow> hasErrors (snd (foldl order_step s docs))"
proof (induction docs arbitrary: s)
  case (Cons d docs)
  have "hasErrors (snd (order_step s d))"
    using order_step_eq [of d "fst s" "snd s"] Cons.prems by (auto split: if_splits)
  then show ?case
    using Cons by simp
qed simp

lemma order_fold_ok:
  "distinct (map pd_id docs) \<Longrightarrow> \<forall>d \<in> set docs. distinct_ids d \<Longrightarrow>
   \<not> hasErrors (snd (foldl order_step (orders, ds) docs)) \<Longrightarrow>
   snd (foldl order_step (orders, ds) docs) = ds \<and>
   (\<forall>d \<in> set docs. has_order d \<and> fst (foldl order_step (orders, ds) docs) (pd_id d) =
      Some (ready_order (length (pd_tasks d)) (pd_tasks d) [])) \<and>
   (\<forall>i. i \<notin> pd_id ` set docs \<longrightarrow> fst (foldl order_step (orders, ds) docs) i = orders i)"
proof (induction docs arbitrary: orders)
  case (Cons d docs)
  let ?o = "ready_order (length (pd_tasks d)) (pd_tasks d) []"
  have d: "distinct_ids d" and docs: "\<forall>d \<in> set docs. distinct_ids d"
    using Cons.prems by auto
  have step: "has_order d \<and> order_step (orders, ds) d = (orders(pd_id d \<mapsto> ?o), ds)"
  proof (rule ccontr)
    assume "\<not> ?thesis"
    then have "hasErrors (snd (order_step (orders, ds) d))"
      using order_step_eq [OF d, of orders ds] by (auto split: if_splits)
    then show False
      using order_fold_errors [OF docs] Cons.prems(3) by simp
  qed
  define upd where "upd = orders(pd_id d \<mapsto> ?o)"
  have upd: "upd (pd_id d) = Some ?o" "\<And>i. i \<noteq> pd_id d \<Longrightarrow> upd i = orders i"
    by (simp_all add: upd_def)
  have eq: "foldl order_step (orders, ds) (d # docs) = foldl order_step (upd, ds) docs"
    using step by (simp add: upd_def)
  have "distinct (map pd_id docs)" "pd_id d \<notin> pd_id ` set docs"
    using Cons.prems(1) by auto
  then show ?case
    using Cons.IH [of upd] Cons.prems(3) docs step upd unfolding eq by auto
qed simp

lemma ready_order_is_order:
  assumes "distinct_ids d" and "has_order d"
  shows "mset (ready_order (length (pd_tasks d)) (pd_tasks d) []) = mset (pd_tasks d) \<and>
    deps_ordered [] (ready_order (length (pd_tasks d)) (pd_tasks d) [])"
proof -
  obtain ts where ts: "mset ts = mset (pd_tasks d)" "deps_ordered [] ts"
    using assms(2) by (auto simp: has_order_def)
  have "length (ready_order (length (pd_tasks d)) (pd_tasks d) []) = length (pd_tasks d)"
    using assms(1) ts by (intro ready_order_complete [of ts]) (auto simp: distinct_ids_def dest: mset_eq_setD)
  then show ?thesis
    using ready_order_mset [OF assms(1)] ready_order_props [of "[]"] by blast
qed

lemma compiled_context:
  assumes "documents_ok docs cb" and "local_orders docs ds = (orders, ds')" and "\<not> hasErrors ds'"
  shows "ds' = ds \<and> context_ok docs \<lparr>gc_childByParent = cb,
    gc_documentById = js_map (map (\<lambda>d. (pd_id d, d)) docs), gc_localOrder = orders\<rparr>"
proof -
  have docs: "distinct (map pd_id docs)" "\<forall>d \<in> set docs. distinct_ids d"
    using assms(1) by (auto simp: documents_ok_def)
  have fold: "foldl order_step (Map.empty, ds) docs = (orders, ds')"
    using assms(2) by (simp add: local_orders_step)
  have *: "ds' = ds \<and> (\<forall>d \<in> set docs. has_order d \<and>
      orders (pd_id d) = Some (ready_order (length (pd_tasks d)) (pd_tasks d) []))"
    using order_fold_ok [OF docs, of Map.empty ds] assms(3) unfolding fold by simp
  then have "mset (default_nil (orders (pd_id d))) = mset (pd_tasks d) \<and> deps_ordered [] (default_nil (orders (pd_id d)))"
    if "d \<in> set docs" for d
    using that docs(2) ready_order_is_order [of d] by (simp add: default_nil_def)
  then show ?thesis
    using * assms(1) by (simp add: context_ok_def local_order_def)
qed

subsection \<open>The expanded order\<close>

definition child_rel :: "graph_context \<Rightarrow> prd_document \<Rightarrow> prd_document \<Rightarrow> bool" where
  "child_rel ctx d c \<longleftrightarrow> (\<exists>t \<in> set (pd_tasks d). child_of ctx d t = Some c)"

abbreviation below :: "graph_context \<Rightarrow> prd_document \<Rightarrow> prd_document \<Rightarrow> bool" where
  "below ctx \<equiv> (child_rel ctx)\<^sup>*\<^sup>*"

definition doc_index :: "prd_document list \<Rightarrow> prd_document \<Rightarrow> nat" where
  "doc_index ds d = length (takeWhile (\<lambda>e. e \<noteq> d) ds)"

lemma takeWhile_neq: "d \<notin> set xs \<Longrightarrow> takeWhile (\<lambda>e. e \<noteq> d) (xs @ d # ys) = xs"
  by (induction xs) auto

lemma doc_index_split: "ds = xs @ d # ys \<Longrightarrow> d \<notin> set xs \<Longrightarrow> doc_index ds d = length xs"
  by (simp add: doc_index_def takeWhile_neq)

lemma child_key_inject:
  "context_ok ds ctx \<Longrightarrow> gc_childByParent ctx k = Some c \<Longrightarrow> gc_childByParent ctx k' = Some c \<Longrightarrow> k = k'"
  unfolding context_ok_def documents_ok_def by blast

lemma child_rel_props:
  assumes ctx: "context_ok ds ctx" and "d \<in> set ds" and "child_rel ctx d c"
  shows "c \<in> set ds" and "doc_index ds d < doc_index ds c"
    and "\<And>e. e \<in> set ds \<Longrightarrow> child_rel ctx e c \<Longrightarrow> e = d"
proof -
  obtain t where t: "t \<in> set (pd_tasks d)" "child_of ctx d t = Some c"
    using assms(3) by (auto simp: child_rel_def)
  have dist: "distinct ds"
    using ctx by (auto simp: context_ok_def documents_ok_def distinct_map)
  obtain xs ys where ds: "ds = xs @ d # ys"
    using assms(2) by (meson split_list)
  have c: "c \<in> set ys" "gc_childByParent ctx (doc_key d t) = Some (pd_id c)"
    using child_ofD [OF ctx ds t] by auto
  obtain us vs where ys: "ys = us @ c # vs"
    using c(1) by (meson split_list)
  show "c \<in> set ds"
    using ds c by simp
  have "doc_index ds d = length xs"
    using dist ds by (intro doc_index_split) auto
  moreover have "doc_index ds c = length (xs @ d # us)"
    using dist ds ys by (intro doc_index_split) auto
  ultimately show "doc_index ds d < doc_index ds c"
    by simp
  fix e
  assume e: "e \<in> set ds" "child_rel ctx e c"
  then obtain u where u: "u \<in> set (pd_tasks e)" "child_of ctx e u = Some c"
    by (auto simp: child_rel_def)
  obtain xs' ys' where "ds = xs' @ e # ys'"
    using e(1) by (meson split_list)
  then have "gc_childByParent ctx (doc_key e u) = Some (pd_id c)"
    using child_ofD [OF ctx _ u] by blast
  then have "doc_key e u = doc_key d t"
    using c(2) child_key_inject [OF ctx] by blast
  then show "e = d"
    using doc_key_inject [OF ctx e(1) assms(2) u(1) t(1)] by simp
qed

lemma below_props:
  assumes ctx: "context_ok ds ctx" and "below ctx d e" and "d \<in> set ds"
  shows "e \<in> set ds \<and> doc_index ds d \<le> doc_index ds e"
  using assms(2)
proof (induction rule: rtranclp_induct)
  case base
  then show ?case using assms(3) by simp
next
  case (step x y)
  then show ?case
    using child_rel_props(1,2) [OF ctx, of x y] by simp
qed

lemma below_last: "below ctx a b \<Longrightarrow> a \<noteq> b \<Longrightarrow> \<exists>p. below ctx a p \<and> child_rel ctx p b"
  by (erule rtranclp.cases) auto

lemma below_chain:
  assumes ctx: "context_ok ds ctx" and "below ctx c e" and "below ctx c' e" and "c \<in> set ds" and "c' \<in> set ds"
  shows "below ctx c c' \<or> below ctx c' c"
  using assms(2,3)
proof (induction rule: rtranclp_induct)
  case (step x y)
  show ?case
  proof (cases "c' = y")
    case True
    then show ?thesis
      using step.hyps by (meson rtranclp.rtrancl_into_rtrancl)
  next
    case False
    then obtain x' where x': "below ctx c' x'" "child_rel ctx x' y"
      using below_last [OF step.prems] by blast
    have x: "x \<in> set ds" and "x' \<in> set ds"
      using below_props [OF ctx step.hyps(1) assms(4)] below_props [OF ctx x'(1) assms(5)] by auto
    then have "x' = x"
      by (intro child_rel_props(3) [OF ctx x step.hyps(2)] x'(2))
    then show ?thesis
      using step.IH x'(1) by simp
  qed
qed simp

lemma children_apart:
  assumes ctx: "context_ok ds ctx" and d: "d \<in> set ds" and t: "t \<in> set (pd_tasks d)" "u \<in> set (pd_tasks d)" "t \<noteq> u"
    and c: "child_of ctx d t = Some c" "child_of ctx d u = Some c'"
  shows "\<not> (below ctx c e \<and> below ctx c' e)"
proof
  assume e: "below ctx c e \<and> below ctx c' e"
  obtain xs ys where ds: "ds = xs @ d # ys"
    using d by (meson split_list)
  have rel: "child_rel ctx d c" "child_rel ctx d c'"
    using t c by (auto simp: child_rel_def)
  have in_ds: "c \<in> set ds" "c' \<in> set ds"
    using child_rel_props(1) [OF ctx d] rel by auto
  have "doc_key d t \<noteq> doc_key d u"
    using doc_key_inject [OF ctx d d t(1,2)] t(3) by simp
  then have ne: "c \<noteq> c'"
    using child_ofD [OF ctx ds t(1) c(1)] child_ofD [OF ctx ds t(2) c(2)] child_key_inject [OF ctx] by metis
  have no: False if ab: "below ctx a b" "a \<noteq> b" "child_rel ctx d a" "child_rel ctx d b" for a b
  proof -
    obtain p where p: "below ctx a p" "child_rel ctx p b"
      using below_last [OF ab(1,2)] by blast
    have a: "a \<in> set ds" "doc_index ds d < doc_index ds a"
      using child_rel_props(1,2) [OF ctx d ab(3)] by auto
    then have "p \<in> set ds" "doc_index ds a \<le> doc_index ds p"
      using below_props [OF ctx p(1)] by auto
    moreover have "p = d"
      using child_rel_props(3) [OF ctx d ab(4) _ p(2)] \<open>p \<in> set ds\<close> by simp
    ultimately show False
      using a(2) by simp
  qed
  show False
    using below_chain [OF ctx _ _ in_ds] e no [OF _ ne rel] no [OF _ ne [symmetric] rel(2,1)] by blast
qed

definition tree_refs :: "graph_context \<Rightarrow> prd_document \<Rightarrow> task_ref set" where
  "tree_refs ctx d = {taskRef (pd_id e) t |e t. below ctx d e \<and> t \<in> set (pd_tasks e)}"

lemma concat_opt_eq: "concat_opt f xs = Some zs \<longleftrightarrow> (\<exists>yss. map f xs = map Some yss \<and> zs = concat yss)"
proof (induction xs arbitrary: zs)
  case Nil
  then show ?case by auto
next
  case (Cons x xs)
  show ?case
  proof
    assume "concat_opt f (x # xs) = Some zs"
    then obtain ys zs' where "f x = Some ys" "concat_opt f xs = Some zs'" "zs = ys @ zs'"
      by (auto split: option.splits)
    moreover from this obtain yss where "map f xs = map Some yss" "zs' = concat yss"
      using Cons.IH by blast
    ultimately show "\<exists>yss. map f (x # xs) = map Some yss \<and> zs = concat yss"
      by (intro exI [of _ "ys # yss"]) simp
  next
    assume "\<exists>yss. map f (x # xs) = map Some yss \<and> zs = concat yss"
    then obtain yss where yss: "map f (x # xs) = map Some yss" "zs = concat yss"
      by blast
    then obtain ys rest where r: "yss = ys # rest"
      by (cases yss) auto
    then have "concat_opt f xs = Some (concat rest)"
      using Cons.IH yss(1) by auto
    then show "concat_opt f (x # xs) = Some zs"
      using yss r by simp
  qed
qed

text \<open>What the order of a document is made of: for each task its child's order, then the task.\<close>

definition piece :: "graph_context \<Rightarrow> nat \<Rightarrow> prd_document \<Rightarrow> prd_task \<Rightarrow> task_ref list" where
  "piece ctx n d t =
     (case child_of ctx d t of
        None \<Rightarrow> [] | Some c \<Rightarrow> the (appendDocumentOrder ctx n c)) @ [taskRef (pd_id d) t]"

lemma append_order_pieces:
  assumes "appendDocumentOrder ctx (Suc n) d = Some refs"
  shows "refs = concat (map (piece ctx n d) (local_order ctx d)) \<and>
    (\<forall>t \<in> set (local_order ctx d). \<forall>c. child_of ctx d t = Some c \<longrightarrow> appendDocumentOrder ctx n c \<noteq> None)"
proof -
  let ?f = "\<lambda>task. case (case child_of ctx d task of None \<Rightarrow> Some [] | Some child \<Rightarrow> appendDocumentOrder ctx n child) of
      None \<Rightarrow> None | Some refs \<Rightarrow> Some (refs @ [taskRef (pd_id d) task])"
  obtain yss where yss: "map ?f (local_order ctx d) = map Some yss" "refs = concat yss"
    using assms concat_opt_eq [of ?f "local_order ctx d" refs] by auto
  have f: "?f t = Some ys \<Longrightarrow> ys = piece ctx n d t \<and> (\<forall>c. child_of ctx d t = Some c \<longrightarrow> appendDocumentOrder ctx n c \<noteq> None)" for t ys
    by (auto simp: piece_def split: option.splits)
  have "yss = map (piece ctx n d) ts \<and> (\<forall>t \<in> set ts. \<forall>c. child_of ctx d t = Some c \<longrightarrow> appendDocumentOrder ctx n c \<noteq> None)"
    if "map ?f ts = map Some yss" for ts yss
    using that
  proof (induction ts arbitrary: yss)
    case (Cons t ts)
    then obtain ys rest where r: "yss = ys # rest"
      by (cases yss) auto
    have "?f t = Some ys" "map ?f ts = map Some rest"
      using Cons.prems by (simp_all only: r list.map list.inject)
    then show ?case
      using Cons.IH f r by auto
  qed simp
  then show ?thesis
    using yss by blast
qed

lemma order_set:
  assumes ctx: "context_ok ds ctx"
  shows "appendDocumentOrder ctx n d = Some refs \<Longrightarrow> d \<in> set ds \<Longrightarrow> set refs = tree_refs ctx d"
proof (induction n arbitrary: d refs)
  case (Suc n)
  note p = append_order_pieces [OF Suc.prems(1)]
  have ord: "set (local_order ctx d) = set (pd_tasks d)"
    by (rule set_local_order [OF ctx Suc.prems(2)])
  have kid: "set (the (appendDocumentOrder ctx n c)) = tree_refs ctx c"
    if t: "t \<in> set (pd_tasks d)" "child_of ctx d t = Some c" for t c
  proof -
    obtain r where "appendDocumentOrder ctx n c = Some r"
      using p t ord by blast
    then show ?thesis
      using Suc.IH child_in [OF ctx Suc.prems(2) t] by simp
  qed
  have "set (piece ctx n d t) = (case child_of ctx d t of None \<Rightarrow> {} | Some c \<Rightarrow> tree_refs ctx c) \<union> {taskRef (pd_id d) t}"
    if "t \<in> set (pd_tasks d)" for t
    using kid [OF that] by (simp add: piece_def split: option.split)
  then have refs: "set refs = (\<Union>t \<in> set (pd_tasks d). (case child_of ctx d t of None \<Rightarrow> {} | Some c \<Rightarrow> tree_refs ctx c) \<union> {taskRef (pd_id d) t})"
    using p ord by simp
  show ?case
  proof (intro set_eqI iffI)
    fix r
    assume "r \<in> set refs"
    then consider t where "t \<in> set (pd_tasks d)" "r = taskRef (pd_id d) t"
      | t c where "t \<in> set (pd_tasks d)" "child_of ctx d t = Some c" "r \<in> tree_refs ctx c"
      unfolding refs by (auto split: option.splits)
    then show "r \<in> tree_refs ctx d"
    proof cases
      case 1
      then show ?thesis by (auto simp: tree_refs_def)
    next
      case 2
      then have "child_rel ctx d c"
        by (auto simp: child_rel_def)
      then show ?thesis
        using 2(3) unfolding tree_refs_def by (blast intro: converse_rtranclp_into_rtranclp)
    qed
  next
    fix r
    assume "r \<in> tree_refs ctx d"
    then obtain e t where e: "below ctx d e" "t \<in> set (pd_tasks e)" "r = taskRef (pd_id e) t"
      by (auto simp: tree_refs_def)
    show "r \<in> set refs"
      using e(1)
    proof (cases rule: converse_rtranclpE)
      case base
      then show ?thesis using e unfolding refs by auto
    next
      case (step c)
      then obtain u where "u \<in> set (pd_tasks d)" "child_of ctx d u = Some c"
        by (auto simp: child_rel_def)
      moreover have "r \<in> tree_refs ctx c"
        using step(2) e by (auto simp: tree_refs_def)
      ultimately show ?thesis
        unfolding refs by force
    qed
  qed
qed simp

lemma order_distinct:
  assumes ctx: "context_ok ds ctx"
  shows "appendDocumentOrder ctx n d = Some refs \<Longrightarrow> d \<in> set ds \<Longrightarrow> distinct refs"
proof (induction n arbitrary: d refs)
  case (Suc n)
  note p = append_order_pieces [OF Suc.prems(1)]
  have ord: "set (local_order ctx d) = set (pd_tasks d)"
    by (rule set_local_order [OF ctx Suc.prems(2)])
  have kid: "distinct (the (appendDocumentOrder ctx n c)) \<and> set (the (appendDocumentOrder ctx n c)) = tree_refs ctx c"
    if t: "t \<in> set (pd_tasks d)" "child_of ctx d t = Some c" for t c
  proof -
    obtain r where "appendDocumentOrder ctx n c = Some r"
      using p t ord by blast
    then show ?thesis
      using Suc.IH order_set [OF ctx] child_in [OF ctx Suc.prems(2) t] by simp
  qed
  have ref_eq: "e = e' \<and> t = t'" if "e \<in> set ds" "e' \<in> set ds" "t \<in> set (pd_tasks e)" "t' \<in> set (pd_tasks e')"
    "taskRef (pd_id e) t = taskRef (pd_id e') t'" for e e' t t'
  proof -
    have "e = e'"
      using same_id [OF ctx that(1,2)] that(5) by (simp add: taskRef_def)
    moreover from this have "t = t'"
      using ids_inj [OF doc_ids [OF ctx that(1)] that(3)] that(4,5) by (simp add: taskRef_def)
    ultimately show ?thesis ..
  qed
  have own: "taskRef (pd_id d) t \<notin> tree_refs ctx c" if t: "t \<in> set (pd_tasks d)" "u \<in> set (pd_tasks d)" "child_of ctx d u = Some c" for t u c
  proof
    assume "taskRef (pd_id d) t \<in> tree_refs ctx c"
    then obtain e x where e: "below ctx c e" "x \<in> set (pd_tasks e)" "taskRef (pd_id d) t = taskRef (pd_id e) x"
      by (auto simp: tree_refs_def)
    have rel: "child_rel ctx d c"
      using t by (auto simp: child_rel_def)
    note c = child_rel_props(1,2) [OF ctx Suc.prems(2) rel]
    have "e \<in> set ds" "doc_index ds c \<le> doc_index ds e"
      using below_props [OF ctx e(1) c(1)] by auto
    then have "e = d"
      using ref_eq [of d e t x] Suc.prems(2) t(1) e(2,3) by simp
    then show False
      using c(2) \<open>doc_index ds c \<le> doc_index ds e\<close> by simp
  qed
  have apart: "tree_refs ctx c \<inter> tree_refs ctx c' = {}"
    if t: "t \<in> set (pd_tasks d)" "u \<in> set (pd_tasks d)" "t \<noteq> u" "child_of ctx d t = Some c" "child_of ctx d u = Some c'" for t u c c'
  proof (rule ccontr)
    assume "tree_refs ctx c \<inter> tree_refs ctx c' \<noteq> {}"
    then obtain e x e' x' where e: "below ctx c e" "x \<in> set (pd_tasks e)" "below ctx c' e'" "x' \<in> set (pd_tasks e')"
      "taskRef (pd_id e) x = taskRef (pd_id e') x'"
      by (auto simp: tree_refs_def)
    have "e \<in> set ds" "e' \<in> set ds"
      using below_props [OF ctx e(1)] below_props [OF ctx e(3)] child_in [OF ctx Suc.prems(2)] t by auto
    then have "e = e'"
      using ref_eq e by blast
    then show False
      using children_apart [OF ctx Suc.prems(2) t(1,2,3,4,5)] e(1,3) by blast
  qed
  have piece: "distinct (piece ctx n d t)" if "t \<in> set (pd_tasks d)" for t
    using kid [OF that] own [OF that that] by (auto simp: piece_def split: option.split)
  have disjoint: "set (piece ctx n d t) \<inter> set (piece ctx n d u) = {}"
    if tu: "t \<in> set (pd_tasks d)" "u \<in> set (pd_tasks d)" "t \<noteq> u" for t u
  proof -
    have "taskRef (pd_id d) t \<noteq> taskRef (pd_id d) u"
      using ref_eq [OF Suc.prems(2,2)] tu by blast
    then show ?thesis
      using kid [OF tu(1)] kid [OF tu(2)] own [OF tu(1,2)] own [OF tu(2,1)] apart [OF tu]
      by (cases "child_of ctx d t"; cases "child_of ctx d u") (auto simp: piece_def)
  qed
  have "distinct ts \<Longrightarrow> set ts \<subseteq> set (pd_tasks d) \<Longrightarrow> distinct (concat (map (piece ctx n d) ts))" for ts
  proof (induction ts)
    case (Cons t ts)
    have "set (piece ctx n d t) \<inter> set (piece ctx n d u) = {}" if "u \<in> set ts" for u
      using that Cons.prems by (intro disjoint) auto
    then have "set (piece ctx n d t) \<inter> set (concat (map (piece ctx n d) ts)) = {}"
      by auto
    then show ?case
      using Cons piece by simp
  qed simp
  moreover have "distinct (local_order ctx d)"
  proof -
    have "mset (local_order ctx d) = mset (pd_tasks d)"
      using ctx Suc.prems(2) by (simp add: context_ok_def)
    moreover have "distinct (pd_tasks d)"
      using doc_ids [OF ctx Suc.prems(2)] by (auto simp: distinct_ids_def distinct_map)
    ultimately show ?thesis
      using mset_eq_imp_distinct_iff by blast
  qed
  ultimately show ?case
    using p ord by simp
qed simp

lemma dependencies_first_seen:
  "dependencies_first edges seen rs \<Longrightarrow> set seen \<subseteq> set seen' \<Longrightarrow> dependencies_first edges seen' rs"
proof (induction rs arbitrary: seen seen')
  case (Cons r rs)
  have r: "dependencies_first edges (r # seen) rs"
    "\<forall>e \<in> set edges. taskRefKey (de_task e) = taskRefKey r \<longrightarrow> de_dependsOn e \<in> set seen"
    using Cons.prems(1) by simp_all
  have "set (r # seen) \<subseteq> set (r # seen')"
    using Cons.prems(2) by auto
  from Cons.IH [OF r(1) this] r(2) Cons.prems(2) show ?case
    by (simp add: subset_iff)
qed simp

lemma dependencies_first_split:
  "dependencies_first edges seen (xs @ ys) \<longleftrightarrow>
   dependencies_first edges seen xs \<and> dependencies_first edges (rev xs @ seen) ys"
  by (induction xs arbitrary: seen) auto

lemma edge_of_task:
  assumes ctx: "context_ok ds ctx" and d: "d \<in> set ds" "t \<in> set (pd_tasks d)"
    and e: "e \<in> set (dependency_edges ds)" "taskRefKey (de_task e) = taskRefKey (taskRef (pd_id d) t)"
  shows "\<exists>u \<in> set (pd_tasks d). pt_id u \<in> set (pt_dependencies t) \<and> de_dependsOn e = taskRef (pd_id d) u"
proof -
  obtain d' t' where d': "d' \<in> set ds" "t' \<in> set (pd_tasks d')" "e \<in> set (task_edges d' t')"
    using e(1) by (auto simp: dependency_edges_def)
  then obtain i u where u: "i \<in> set (pt_dependencies t')" "find (\<lambda>c. pt_id c = i) (pd_tasks d') = Some u"
    "e = \<lparr>de_task = taskRef (pd_id d') t', de_dependsOn = taskRef (pd_id d') u\<rparr>"
    by (auto simp: task_edges_def List.map_filter_def)
  have "doc_key d' t' = doc_key d t"
    using e(2) u(3) by (simp add: taskRefKey_def taskRef_def doc_key_def)
  then have "d' = d" "t' = t"
    using doc_key_inject [OF ctx d'(1) d(1) d'(2) d(2)] by auto
  then show ?thesis
    using u find_SomeD [OF u(2)] by auto
qed

lemma order_dependencies_first:
  assumes ctx: "context_ok ds ctx"
  shows "appendDocumentOrder ctx n d = Some refs \<Longrightarrow> d \<in> set ds \<Longrightarrow>
    dependencies_first (dependency_edges ds) [] refs"
proof (induction n arbitrary: d refs)
  case (Suc n)
  note p = append_order_pieces [OF Suc.prems(1)]
  have ord: "set (local_order ctx d) = set (pd_tasks d)"
    by (rule set_local_order [OF ctx Suc.prems(2)])
  have kid: "dependencies_first (dependency_edges ds) [] (the (appendDocumentOrder ctx n c))"
    if t: "t \<in> set (pd_tasks d)" "child_of ctx d t = Some c" for t c
  proof -
    obtain r where "appendDocumentOrder ctx n c = Some r"
      using p t ord by blast
    then show ?thesis
      using Suc.IH child_in [OF ctx Suc.prems(2) t] by simp
  qed
  have "dependencies_first (dependency_edges ds) seen (concat (map (piece ctx n d) ts))"
    if "deps_ordered done ts" "set ts \<subseteq> set (pd_tasks d)"
      "\<forall>u \<in> set (pd_tasks d). pt_id u \<in> set done \<longrightarrow> taskRef (pd_id d) u \<in> set seen" for ts "done" seen
    using that
  proof (induction ts arbitrary: "done" seen)
    case (Cons t ts)
    let ?kid = "case child_of ctx d t of None \<Rightarrow> [] | Some c \<Rightarrow> the (appendDocumentOrder ctx n c)"
    have t: "t \<in> set (pd_tasks d)" "set (pt_dependencies t) \<subseteq> set done"
      using Cons.prems by auto
    have 1: "dependencies_first (dependency_edges ds) seen ?kid"
      using kid [OF t(1)] dependencies_first_seen [of _ "[]"] by (auto split: option.split)
    have 2: "dependencies_first (dependency_edges ds) (rev ?kid @ seen) [taskRef (pd_id d) t]"
      using edge_of_task [OF ctx Suc.prems(2) t(1)] t(2) Cons.prems(3) by fastforce
    have 3: "dependencies_first (dependency_edges ds) (rev (piece ctx n d t) @ seen) (concat (map (piece ctx n d) ts))"
    proof (rule Cons.IH)
      show "deps_ordered (pt_id t # done) ts" "set ts \<subseteq> set (pd_tasks d)"
        using Cons.prems by auto
      show "\<forall>u \<in> set (pd_tasks d). pt_id u \<in> set (pt_id t # done) \<longrightarrow>
          taskRef (pd_id d) u \<in> set (rev (piece ctx n d t) @ seen)"
      proof (intro ballI impI)
        fix u
        assume u: "u \<in> set (pd_tasks d)" "pt_id u \<in> set (pt_id t # done)"
        show "taskRef (pd_id d) u \<in> set (rev (piece ctx n d t) @ seen)"
        proof (cases "pt_id u = pt_id t")
          case True
          then have "u = t"
            using ids_inj [OF doc_ids [OF ctx Suc.prems(2)] u(1) t(1)] by simp
          then show ?thesis by (simp add: piece_def)
        next
          case False
          then show ?thesis using u Cons.prems(3) by auto
        qed
      qed
    qed
    have "piece ctx n d t = ?kid @ [taskRef (pd_id d) t]"
      by (simp add: piece_def)
    then show ?case
      using 1 2 3 by (simp add: dependencies_first_split)
  qed simp
  moreover have "deps_ordered [] (local_order ctx d)"
    using ctx Suc.prems(2) by (simp add: context_ok_def)
  ultimately show ?case
    using p ord by simp
qed simp

lemma all_below_root:
  assumes ctx: "context_ok ds ctx" and "ds = root # rest" and "d \<in> set ds"
  shows "below ctx root d"
  using assms(3)
proof (induction "doc_index ds d" arbitrary: d rule: less_induct)
  case less
  show ?case
  proof (cases "d = root")
    case False
    then have "d \<in> set (tl ds)"
      using less.prems assms(2) by auto
    then obtain k where k: "gc_childByParent ctx k = Some (pd_id d)"
      using ctx unfolding context_ok_def documents_ok_def by blast
    then obtain xs p ys t where p: "ds = xs @ p # ys" "t \<in> set (pd_tasks p)" "k = doc_key p t"
      using ctx unfolding context_ok_def documents_ok_def by blast
    have "gc_documentById ctx (pd_id d) = Some d"
      using documentById [OF ctx] less.prems by blast
    moreover have "pd_id d \<noteq> []"
      using slug_nonempty [OF doc_slug [OF ctx less.prems]] .
    ultimately have "child_of ctx p t = Some d"
      using k p(3) by (simp add: child_of_def doc_key_def)
    then have rel: "child_rel ctx p d"
      using p(2) by (auto simp: child_rel_def)
    have "p \<in> set ds"
      by (simp add: p(1))
    then have "below ctx root p"
      using less.hyps child_rel_props(2) [OF ctx _ rel] by blast
    then show ?thesis
      using rel by (rule rtranclp.rtrancl_into_rtrancl)
  qed simp
qed

section \<open>The compilation\<close>

lemma concat_opt_total:
  assumes "\<And>x. x \<in> set xs \<Longrightarrow> f x \<noteq> None"
  shows "\<exists>zs. concat_opt f xs = Some zs"
proof -
  have "concat_opt f xs \<noteq> None"
    by (rule concat_opt_Some) (rule assms)
  then show ?thesis by simp
qed

lemma stale_parent_Some:
  assumes "context_ok ds ctx" and "length ds \<le> n"
  shows "stale_parent ctx n e \<noteq> None"
proof -
  have "documentComplete ctx n c \<noteq> None" if "gc_documentById ctx (ch_childDocument e) = Some c" for c
    using that documentById [OF assms(1)] by (intro documentComplete_bound [OF assms(1) _ assms(2)]) blast
  then show ?thesis
    by (auto simp: stale_parent_def split: option.split bool.split)
qed

text \<open>The compilation of well-formed documents returns, and its order is the root's.\<close>

lemma compile_documents_cases:
  assumes "\<not> hasErrors (ls_diagnostics st) \<Longrightarrow> documents_ok (loaded st) (ls_childByParent st)"
  shows "\<exists>c. compile_documents strict (Suc (length (ls_documents st))) st = Some c \<and>
    (\<forall>g. cp_graph c = Some g \<longrightarrow>
       (\<exists>ctx root rest. loaded st = root # rest \<and> context_ok (loaded st) ctx \<and>
          appendDocumentOrder ctx (Suc (length (ls_documents st))) root = Some (cg_topologicalOrder g) \<and>
          cg_dependencyEdges g = dependency_edges (loaded st) \<and>
          cg_documents g = map (\<lambda>d. (pd_id d, d)) (loaded st)))"
proof (cases "hasErrors (ls_diagnostics st) \<or> ls_documents st = []")
  case True
  then show ?thesis
    by (auto simp: compile_documents_def failed_def)
next
  case False
  let ?n = "Suc (length (ls_documents st))"
  obtain root rest where docs: "ls_documents st = root # rest"
    using False by (cases "ls_documents st") auto
  have ok: "documents_ok (loaded st) (ls_childByParent st)"
    using assms False by simp
  obtain orders ds where lo: "local_orders (loaded st) (ls_diagnostics st) = (orders, ds)"
    by (cases "local_orders (loaded st) (ls_diagnostics st)")
  define ctx where "ctx = \<lparr>gc_childByParent = ls_childByParent st,
    gc_documentById = js_map (map (\<lambda>d. (pd_id d, d)) (loaded st)), gc_localOrder = orders\<rparr>"
  show ?thesis
  proof (cases "hasErrors ds")
    case True
    then show ?thesis
      using False docs lo by (simp add: compile_documents_def failed_def Let_def loaded_def)
  next
    case no: False
    have ctx: "context_ok (loaded st) ctx"
      using compiled_context [OF ok lo no] by (simp add: ctx_def)
    have len: "length (loaded st) \<le> ?n"
      by (simp add: loaded_def)
    obtain stale where stale: "concat_opt (stale_parent ctx ?n) (child_edges (ls_childByParent st) (loaded st)) = Some stale"
      using concat_opt_total [of "child_edges (ls_childByParent st) (loaded st)" "stale_parent ctx ?n"] stale_parent_Some [OF ctx len] by auto
    have split: "loaded st = [] @ snd root # map snd rest"
      by (simp add: loaded_def docs)
    have lt: "length (map snd rest) < ?n"
      by (simp add: docs)
    obtain refs where refs: "appendDocumentOrder ctx ?n (snd root) = Some refs"
      using appendDocumentOrder_Some [OF ctx split lt] by blast
    obtain elig where elig: "collectEligible ctx ?n ?n (snd root) = Some elig"
      using collectEligible_Some [OF ctx len split lt] by blast
    have hd: "(case ls_documents st of [] \<Rightarrow> x | r # _ \<Rightarrow> f r) = f root" for x and f :: "string \<times> prd_document \<Rightarrow> compilation option"
      by (simp add: docs)
    define g where "g = \<lparr>cg_rootDocumentId = pd_id (snd root), cg_rootFile = pd_file (snd root),
      cg_documents = map (\<lambda>d. (pd_id d, d)) (loaded st),
      cg_canonicalReferences = map (\<lambda>d. (pd_id d, pd_file d)) (loaded st),
      cg_dependencyEdges = dependency_edges (loaded st),
      cg_childEdges = child_edges (ls_childByParent st) (loaded st),
      cg_topologicalOrder = refs, cg_eligibleTasks = elig, cg_parallelGroups = parallel_groups (loaded st)\<rparr>"
    have eq: "compile_documents strict ?n st =
      (if hasErrors (ds @ stale) then failed (ds @ stale)
       else if \<not> valid_compiled_graph g then failed (ds @ stale @ [plain_error ''RALPH_PRD_GRAPH_SCHEMA_INVALID''])
       else Some \<lparr>cp_ok = \<not> (strict \<and> list_ex (\<lambda>d. dg_severity d = Sev_warning) (ds @ stale)),
         cp_graph = Some g, cp_diagnostics = ds @ stale\<rparr>)"
      unfolding compile_documents_def hd Let_def loaded_def [symmetric] lo prod.case ctx_def [symmetric]
        stale option.case refs elig g_def [symmetric]
      using False no by simp
    have "loaded st = snd root # map snd rest"
      using split by simp
    then show ?thesis
      unfolding eq using ctx refs by (auto simp: failed_def g_def)
  qed
qed

lemma compilePrdGraph_cases:
  assumes "env_ok env"
  shows "\<exists>c. compilePrdGraph env options rootFile = Some c \<and>
    (\<forall>g. cp_graph c = Some g \<longrightarrow>
       (\<exists>st ctx root rest n. loaded st = root # rest \<and> context_ok (loaded st) ctx \<and>
          appendDocumentOrder ctx n root = Some (cg_topologicalOrder g) \<and>
          cg_dependencyEdges g = dependency_edges (loaded st) \<and>
          cg_documents g = map (\<lambda>d. (pd_id d, d)) (loaded st) \<and>
          int (length (loaded st)) \<le> or_default (go_maxDocuments options) 100))"
proof -
  have load: "\<exists>c. compile_documents strict (Suc (length (ls_documents (load_root env options w path)))) (load_root env options w path) = Some c \<and>
    (\<forall>g. cp_graph c = Some g \<longrightarrow>
       (\<exists>st ctx root rest n. loaded st = root # rest \<and> context_ok (loaded st) ctx \<and>
          appendDocumentOrder ctx n root = Some (cg_topologicalOrder g) \<and>
          cg_dependencyEdges g = dependency_edges (loaded st) \<and>
          cg_documents g = map (\<lambda>d. (pd_id d, d)) (loaded st) \<and>
          int (length (loaded st)) \<le> or_default (go_maxDocuments options) 100))"
    if p: "path \<noteq> []" "\<not> or_default (go_maxDocuments options) 100 < 1" for strict w path
  proof -
    let ?st = "load_root env options w path"
    have "int (length (ls_documents ?st)) \<le> or_default (go_maxDocuments options) 100"
      unfolding load_root_def using p(2) by (intro load_bound) (simp add: empty_load_state_def)
    then have bound: "int (length (loaded ?st)) \<le> or_default (go_maxDocuments options) 100"
      by (simp add: loaded_def)
    have "\<exists>c. compile_documents strict (Suc (length (ls_documents ?st))) ?st = Some c \<and>
      (\<forall>g. cp_graph c = Some g \<longrightarrow>
       (\<exists>ctx root rest. loaded ?st = root # rest \<and> context_ok (loaded ?st) ctx \<and>
          appendDocumentOrder ctx (Suc (length (ls_documents ?st))) root = Some (cg_topologicalOrder g) \<and>
          cg_dependencyEdges g = dependency_edges (loaded ?st) \<and>
          cg_documents g = map (\<lambda>d. (pd_id d, d)) (loaded ?st)))"
      by (rule compile_documents_cases) (rule load_root_ok [OF assms p(1)])
    then show ?thesis
      using bound by blast
  qed
  have path: "pe_realpath env p = Some q \<Longrightarrow> q \<noteq> []" for p q
    using assms by (auto simp: env_ok_def)
  let ?w = "pe_realpath env (pe_absolute env (or_default (go_workspaceRoot options) (pe_dirname env (pe_absolute env rootFile))))"
  let ?p = "pe_realpath env (pe_absolute env rootFile)"
  show ?thesis
  proof (cases "\<not> safe_int (or_default (go_maxDepth options) 8) \<or> or_default (go_maxDepth options) 8 < 0 \<or>
      \<not> safe_int (or_default (go_maxDocuments options) 100) \<or> or_default (go_maxDocuments options) 100 < 1 \<or>
      ?w = None \<or> ?p = None \<or> \<not> isContained env (the ?w) (the ?p)")
    case True
    then have "\<exists>ds. compilePrdGraph env options rootFile = failed ds"
      by (auto simp: compilePrdGraph_def Let_def split: option.split)
    then show ?thesis
      by (auto simp: failed_def)
  next
    case False
    then obtain w p where wp: "?w = Some w" "?p = Some p" by auto
    then have "compilePrdGraph env options rootFile = compile_documents (go_strict options = Some True)
        (Suc (length (ls_documents (load_root env options w p)))) (load_root env options w p)"
      using False by (simp add: compilePrdGraph_def Let_def)
    then show ?thesis
      using load [OF path [OF wp(2)], of "go_strict options = Some True" w] False by simp
  qed
qed

lemma compiled_graph_ordered:
  assumes "env_ok env" and "compilePrdGraph env options rootFile = Some c" and "cp_graph c = Some g"
  shows "dependencies_first (cg_dependencyEdges g) [] (cg_topologicalOrder g)"
    and "distinct (map taskRefKey (cg_topologicalOrder g))"
    and "set (cg_topologicalOrder g) = {taskRef i t |i d t. (i, d) \<in> set (cg_documents g) \<and> t \<in> set (pd_tasks d)}"
    and "int (length (cg_documents g)) \<le> or_default (go_maxDocuments options) 100"
proof -
  obtain st ctx root rest n where docs: "loaded st = root # rest" and ctx: "context_ok (loaded st) ctx"
    and order: "appendDocumentOrder ctx n root = Some (cg_topologicalOrder g)"
    and g: "cg_dependencyEdges g = dependency_edges (loaded st)" "cg_documents g = map (\<lambda>d. (pd_id d, d)) (loaded st)"
    and len: "int (length (loaded st)) \<le> or_default (go_maxDocuments options) 100"
    using compilePrdGraph_cases [OF assms(1), of options rootFile] assms(2,3) by auto
  have root: "root \<in> set (loaded st)"
    by (simp add: docs)
  show "dependencies_first (cg_dependencyEdges g) [] (cg_topologicalOrder g)"
    unfolding g by (rule order_dependencies_first [OF ctx order root])
  have set: "set (cg_topologicalOrder g) = {taskRef (pd_id d) t |d t. d \<in> set (loaded st) \<and> t \<in> set (pd_tasks d)}"
    unfolding order_set [OF ctx order root] tree_refs_def
    using all_below_root [OF ctx docs] below_props [OF ctx _ root] by blast
  then show "set (cg_topologicalOrder g) = {taskRef i t |i d t. (i, d) \<in> set (cg_documents g) \<and> t \<in> set (pd_tasks d)}"
    by (auto simp: g)
  have "inj_on taskRefKey (set (cg_topologicalOrder g))"
  proof (rule inj_onI)
    fix r s
    assume "r \<in> set (cg_topologicalOrder g)" "s \<in> set (cg_topologicalOrder g)" and eq: "taskRefKey r = taskRefKey s"
    then obtain d t e u where d: "d \<in> set (loaded st)" "t \<in> set (pd_tasks d)" "r = taskRef (pd_id d) t"
      and e: "e \<in> set (loaded st)" "u \<in> set (pd_tasks e)" "s = taskRef (pd_id e) u"
      unfolding set by auto
    have "doc_key d t = doc_key e u"
      using eq d(3) e(3) by (simp add: taskRefKey_def taskRef_def doc_key_def)
    then show "r = s"
      using doc_key_inject [OF ctx d(1) e(1) d(2) e(2)] d(3) e(3) by simp
  qed
  then show "distinct (map taskRefKey (cg_topologicalOrder g))"
    using order_distinct [OF ctx order root] by (simp add: distinct_map)
  show "int (length (cg_documents g)) \<le> or_default (go_maxDocuments options) 100"
    using len by (simp add: g)
qed

section \<open>Properties\<close>

text \<open>A root with two tasks, the first of which has a child document.\<close>

definition sample_file :: "string \<Rightarrow> document_kind \<Rightarrow> prd_parent option \<Rightarrow> prd_task list \<Rightarrow> prd_document" where
  "sample_file i k p ts =
     \<lparr>pd_id = i, pd_kind = k, pd_file = i, pd_contentHash = replicate 64 (CHR ''c''), pd_parent = p, pd_tasks = ts\<rparr>"

definition sample_root_file :: prd_document where
  "sample_root_file = sample_file ''root'' Kind_root None
     [sample_prd_task ''b'' Marker_pending [''a''],
      (sample_prd_task ''a'' Marker_pending [])\<lparr>pt_subPrd := Some ''kid''\<rparr>]"

definition sample_kid_file :: prd_document where
  "sample_kid_file = sample_file ''kid'' Kind_child (Some \<lparr>pp_prd = ''root'', pp_task = ''a''\<rparr>)
     [sample_prd_task ''c'' Marker_pending []]"

definition sample_env :: prd_env where
  "sample_env =
     \<lparr>pe_realpath = (\<lambda>p. if p = ''root'' \<or> p = ''kid'' \<or> p = ''dir'' then Some p else None),
      pe_absolute = (\<lambda>p. p), pe_resolve = (\<lambda>_ p. p), pe_dirname = (\<lambda>_. ''dir''),
      pe_relative = (\<lambda>_ p. p), pe_isAbsolute = (\<lambda>_. False),
      pe_parse = (\<lambda>p _ _. \<lparr>pr_ok = True,
        pr_document = Some (if p = ''root'' then sample_root_file else sample_kid_file), pr_diagnostics = []\<rparr>)\<rparr>"

definition sample_options :: graph_options where
  "sample_options =
     \<lparr>go_workspaceRoot = None, go_recursive = None, go_strict = None, go_maxDepth = None, go_maxDocuments = None\<rparr>"

lemma sample_env_ok: "env_ok sample_env"
proof -
  have "valid_prd_document sample_root_file" "valid_prd_document sample_kid_file"
    "distinct_ids sample_root_file" "distinct_ids sample_kid_file"
    by code_simp+
  then show ?thesis
    by (auto simp: env_ok_def sample_env_def split: if_splits)
qed

lemma sample_compiles:
  "map_option (\<lambda>c. map_option (\<lambda>g. (cg_topologicalOrder g, cg_documents g)) (cp_graph c))
     (compilePrdGraph sample_env sample_options ''root'') =
   Some (Some ([sample_ref ''kid'' ''c'', sample_ref ''root'' ''a'', sample_ref ''root'' ''b''],
     [(''root'', sample_root_file), (''kid'', sample_kid_file)]))"
  by code_simp

text \<open>
  C28. The compiler always returns: with a parser that yields documents of its schema with
  distinct task identifiers, and whatever the files refer to, loading and the recursions over
  child documents end, and a graph never has more documents than the configured maximum.
\<close>

theorem compilation_returns:
  assumes "env_ok env"
  shows "\<exists>c. compilePrdGraph env options rootFile = Some c \<and>
    (\<forall>g. cp_graph c = Some g \<longrightarrow> int (length (cg_documents g)) \<le> or_default (go_maxDocuments options) 100)"
  using compilePrdGraph_cases [OF assms, of options rootFile] compiled_graph_ordered(4) [OF assms] by blast

theorem compilation_returns_witness:
  "\<exists>c. compilePrdGraph sample_env sample_options ''root'' = Some c"
  using compilation_returns [OF sample_env_ok] by blast

text \<open>
  C29. A compiled graph's order is a schedule: it lists every task of every document, each under
  its own key once, and every dependency before the task that needs it.
\<close>

theorem compiled_order_is_a_schedule:
  assumes "env_ok env" and "compilePrdGraph env options rootFile = Some c" and "cp_graph c = Some g"
  shows "dependencies_first (cg_dependencyEdges g) [] (cg_topologicalOrder g) \<and>
    distinct (map taskRefKey (cg_topologicalOrder g)) \<and>
    set (cg_topologicalOrder g) =
      {taskRef i t |i d t. (i, d) \<in> set (cg_documents g) \<and> t \<in> set (pd_tasks d)}"
  using compiled_graph_ordered [OF assms] by blast

lemma sample_graph_exists:
  "\<exists>c g. compilePrdGraph sample_env sample_options ''root'' = Some c \<and> cp_graph c = Some g \<and>
    cg_topologicalOrder g = [sample_ref ''kid'' ''c'', sample_ref ''root'' ''a'', sample_ref ''root'' ''b''] \<and>
    cg_documents g = [(''root'', sample_root_file), (''kid'', sample_kid_file)]"
  using sample_compiles by (auto split: option.splits)

theorem compiled_order_is_a_schedule_witness:
  "\<exists>c g. compilePrdGraph sample_env sample_options ''root'' = Some c \<and> cp_graph c = Some g \<and>
    dependencies_first (cg_dependencyEdges g) [] [sample_ref ''kid'' ''c'', sample_ref ''root'' ''a'', sample_ref ''root'' ''b'']"
  using sample_graph_exists compiled_order_is_a_schedule [OF sample_env_ok] by metis

text \<open>
  C14. Compiler and scheduler together: a serial run of a compiled graph whose tasks are all
  pending completes every task of every document, each once, in the compiled order.
\<close>

theorem compiled_prd_runs_to_the_end:
  assumes "env_ok env" and "compilePrdGraph env options rootFile = Some c" and "cp_graph c = Some g"
    and "\<forall>x \<in> set (cg_topologicalOrder g). effectiveStatus g recs x = Task_pending"
  shows "serial_run (length (cg_topologicalOrder g)) g recs = cg_topologicalOrder g \<and>
    set (serial_run (length (cg_topologicalOrder g)) g recs) =
      {taskRef i t |i d t. (i, d) \<in> set (cg_documents g) \<and> t \<in> set (pd_tasks d)}"
proof -
  note g = compiled_graph_ordered [OF assms(1-3)]
  have "serial_run (length (cg_topologicalOrder g)) g recs = cg_topologicalOrder g"
    by (rule serial_run_suffix [where xs = "[]"]) (use g(1,2) assms(4) in simp_all)
  then show ?thesis
    using g(3) by simp
qed

theorem compiled_prd_runs_to_the_end_witness:
  "\<exists>c g. compilePrdGraph sample_env sample_options ''root'' = Some c \<and> cp_graph c = Some g \<and>
    serial_run 3 g Map.empty = [sample_ref ''kid'' ''c'', sample_ref ''root'' ''a'', sample_ref ''root'' ''b'']"
proof -
  obtain c g where c: "compilePrdGraph sample_env sample_options ''root'' = Some c" "cp_graph c = Some g"
    and o: "cg_topologicalOrder g = [sample_ref ''kid'' ''c'', sample_ref ''root'' ''a'', sample_ref ''root'' ''b'']"
    and d: "cg_documents g = [(''root'', sample_root_file), (''kid'', sample_kid_file)]"
    using sample_graph_exists by blast
  have "\<forall>x \<in> set (cg_topologicalOrder g). effectiveStatus g Map.empty x = Task_pending"
    by (simp add: o d effectiveStatus_def taskFor_def sample_ref_def sample_root_file_def sample_kid_file_def
        sample_file_def sample_prd_task_def)
  from compiled_prd_runs_to_the_end [OF sample_env_ok c this]
  have "serial_run 3 g Map.empty = [sample_ref ''kid'' ''c'', sample_ref ''root'' ''a'', sample_ref ''root'' ''b'']"
    by (simp add: o eval_nat_numeral)
  with c show ?thesis by blast
qed

end
