(* ===== verification/ParallelSched.thy ===== *)
theory ParallelSched
  imports ResourceClaims "HOL-Library.Multiset" "HOL-Library.AList"
begin

text \<open>
  \<^verbatim>\<open>packages/orchestration/src/parallel-scheduler.ts\<close>, the pure part: which candidates of
  a wave are dispatched, and what a settled worker leads to. A \<^verbatim>\<open>Record<string, number>\<close> is
  an association list of its own keys; counters and limits are \<^typ>\<open>int\<close>. The objects of the
  candidate array are distinct, so the identity test of the child lane is by position. The
  collation of \<^verbatim>\<open>localeCompare\<close> is the argument \<open>collate\<close>.
\<close>

section \<open>Data\<close>

datatype parallel_status =
    Par_pending | Par_claiming | Par_active | Par_completed | Par_failed | Par_blocked
  | Par_interrupted

datatype isolation = Isolation_worktree | Isolation_sandbox_copy | Isolation_none

record par_candidate =
  pc_runId :: string
  pc_documentId :: string
  pc_taskId :: string
  pc_attemptId :: string
  pc_graphOrder :: int
  pc_status :: parallel_status
  pc_dependencies :: "string list"
  pc_parallelGroup :: "string option"
  pc_providerId :: string
  pc_modelId :: string
  pc_declaredClaims :: "claim_spec list"
  pc_childRequiresParentSequencing :: bool
  pc_baselineConsistent :: bool
  pc_isolation :: isolation
  pc_capabilitiesAvailable :: bool
  pc_credentialsAvailable :: bool
  pc_failureCount :: int
  pc_reconciliationOnly :: bool

record par_policy =
  pp_parallelAuto :: bool
  pp_allowedGroups :: "string list"
  pp_retryFailed :: bool
  pp_maximumFailureRetries :: int
  pp_failFast :: bool
  pp_requireIsolatedWorkspace :: bool
  pp_allowCommandOwnedChildLane :: bool

record par_capacity =
  pk_maximumGlobal :: int
  pk_activeGlobal :: int
  pk_maximumProject :: int
  pk_activeProject :: int
  pk_maximumByProvider :: "(string \<times> int) list"
  pk_activeByProvider :: "(string \<times> int) list"
  pk_maximumByModel :: "(string \<times> int) list"
  pk_activeByModel :: "(string \<times> int) list"

datatype eligibility_code =
    El_terminal | El_status | El_dependency | El_group | El_child_sequencing | El_baseline
  | El_isolation | El_claims | El_capability | El_credential | El_retry_exhausted
  | El_capacity_global | El_capacity_project | El_capacity_provider | El_capacity_model

datatype eligibility =
    Eligible
  | Ineligible eligibility_code string

record par_dispatch =
  pd_candidate :: par_candidate
  pd_ordinal :: nat

record par_selection =
  ps_dispatches :: "par_dispatch list"
  ps_deferred :: "(par_candidate \<times> eligibility) list"
  ps_draining :: bool
  ps_reason :: "string option"

section \<open>Capacity\<close>

definition positiveLimit :: "int \<Rightarrow> unit result" where
  "positiveLimit value =
     (if \<not> safe_int value \<or> value < 0
      then Inl (RalphError ''RALPH_PARALLEL_LIMIT_INVALID'' Exit_invalidUsage) else Inr ())"

fun positive_limits :: "int list \<Rightarrow> unit result" where
  "positive_limits [] = Inr ()"
| "positive_limits (v # vs) = and_then (positiveLimit v) (\<lambda>_. positive_limits vs)"

definition modelCapacityKey :: "par_candidate \<Rightarrow> string" where
  "modelCapacityKey c = pc_providerId c @ ''/'' @ pc_modelId c"

text \<open>\<^verbatim>\<open>record[key] ?? 0\<close>\<close>

definition count_of :: "(string \<times> int) list \<Rightarrow> string \<Rightarrow> int" where
  "count_of m k = (case map_of m k of None \<Rightarrow> 0 | Some n \<Rightarrow> n)"

definition capacityEligibility :: "par_candidate \<Rightarrow> par_capacity \<Rightarrow> eligibility" where
  "capacityEligibility c k =
     (if pk_maximumGlobal k \<le> pk_activeGlobal k
      then Ineligible El_capacity_global ''Global worker limit is full''
      else if pk_maximumProject k \<le> pk_activeProject k
      then Ineligible El_capacity_project ''Project worker limit is full''
      else if (case map_of (pk_maximumByProvider k) (pc_providerId c) of
                 None \<Rightarrow> False
               | Some m \<Rightarrow> m \<le> count_of (pk_activeByProvider k) (pc_providerId c))
      then Ineligible El_capacity_provider (''Provider worker limit is full for '' @ pc_providerId c)
      else if (case map_of (pk_maximumByModel k) (modelCapacityKey c) of
                 None \<Rightarrow> False
               | Some m \<Rightarrow> m \<le> count_of (pk_activeByModel k) (modelCapacityKey c))
      then Ineligible El_capacity_model (''Model worker limit is full for '' @ modelCapacityKey c)
      else Eligible)"

definition reserveCapacity :: "par_capacity \<Rightarrow> par_candidate \<Rightarrow> par_capacity" where
  "reserveCapacity k c =
     k\<lparr>pk_activeGlobal := pk_activeGlobal k + 1, pk_activeProject := pk_activeProject k + 1,
       pk_activeByProvider := AList.update (pc_providerId c)
         (count_of (pk_activeByProvider k) (pc_providerId c) + 1) (pk_activeByProvider k),
       pk_activeByModel := AList.update (modelCapacityKey c)
         (count_of (pk_activeByModel k) (modelCapacityKey c) + 1) (pk_activeByModel k)\<rparr>"

definition mutableCapacity :: "par_capacity \<Rightarrow> par_capacity result" where
  "mutableCapacity k =
     and_then (positive_limits
       ([pk_maximumGlobal k, pk_activeGlobal k, pk_maximumProject k, pk_activeProject k] @
        map snd (pk_maximumByProvider k) @ map snd (pk_activeByProvider k) @
        map snd (pk_maximumByModel k) @ map snd (pk_activeByModel k)))
       (\<lambda>_. Inr k)"

section \<open>Eligibility\<close>

text \<open>
  The test of the status, of the dependencies, and the rest, in the order of the source. A first
  missing dependency with an empty name counts as none: the source tests the name, not its
  presence.
\<close>

definition status_name :: "parallel_status \<Rightarrow> string" where
  "status_name s =
     (case s of Par_pending \<Rightarrow> ''pending'' | Par_claiming \<Rightarrow> ''claiming'' | Par_active \<Rightarrow> ''active''
      | Par_completed \<Rightarrow> ''completed'' | Par_failed \<Rightarrow> ''failed'' | Par_blocked \<Rightarrow> ''blocked''
      | Par_interrupted \<Rightarrow> ''interrupted'')"

definition status_eligibility :: "par_candidate \<Rightarrow> par_policy \<Rightarrow> eligibility" where
  "status_eligibility c p =
     (if pc_status c = Par_completed
      then Ineligible El_terminal ''Completed tasks are never dispatched again''
      else if pc_status c = Par_active \<or> pc_status c = Par_claiming
      then Ineligible El_status (''Task already has live work in status '' @ status_name (pc_status c))
      else if pc_status c = Par_blocked
      then Ineligible El_status ''Blocked task requires explicit resolution''
      else if pc_status c = Par_failed \<or> pc_status c = Par_interrupted then
        (if \<not> pp_retryFailed p then Ineligible El_status ''Failed-task retry policy is disabled''
         else if pp_maximumFailureRetries p < pc_failureCount c
         then Ineligible El_retry_exhausted ''Failed-task retry budget is exhausted''
         else Eligible)
      else if pc_status c \<noteq> Par_pending
      then Ineligible El_status ''Task status is not dispatchable''
      else Eligible)"

definition missing_dependency :: "par_candidate \<Rightarrow> string list \<Rightarrow> string option" where
  "missing_dependency c completed =
     (case find (\<lambda>d. \<not> List.member completed d) (pc_dependencies c) of
        None \<Rightarrow> None
      | Some d \<Rightarrow> if d = [] then None else Some d)"

definition child_lane :: "par_candidate \<Rightarrow> par_policy \<Rightarrow> bool" where
  "child_lane c p \<longleftrightarrow> pc_childRequiresParentSequencing c \<and> pp_allowCommandOwnedChildLane p"

definition group_allowed :: "par_candidate \<Rightarrow> par_policy \<Rightarrow> bool" where
  "group_allowed c p \<longleftrightarrow>
     (case pc_parallelGroup c of None \<Rightarrow> False | Some g \<Rightarrow> List.member (pp_allowedGroups p) g)"

definition evaluateParallelEligibility ::
  "par_candidate \<Rightarrow> string list \<Rightarrow> par_policy \<Rightarrow> par_capacity \<Rightarrow> eligibility" where
  "evaluateParallelEligibility c completed p k =
     (case status_eligibility c p of
        Ineligible code why \<Rightarrow> Ineligible code why
      | Eligible \<Rightarrow>
          (case missing_dependency c completed of
             Some d \<Rightarrow>
               Ineligible El_dependency (''Dependency '' @ d @ '' is not durably completed'')
           | None \<Rightarrow>
               if \<not> pc_reconciliationOnly c \<and> \<not> child_lane c p \<and> \<not> group_allowed c p \<and> \<not> pp_parallelAuto p
               then Ineligible El_group
                 ''Task is not in an allowed parallel group and parallel-auto is disabled''
               else if pc_childRequiresParentSequencing c \<and> \<not> child_lane c p
               then Ineligible El_child_sequencing ''Child graph requires parent sequencing''
               else if \<not> pc_baselineConsistent c
               then Ineligible El_baseline ''Git baseline is not consistent''
               else if pp_requireIsolatedWorkspace p \<and> pc_isolation c = Isolation_none
               then Ineligible El_isolation
                 ''Parallel task has no isolated worktree or explicit sandbox copy''
               else if pc_declaredClaims c = []
               then Ineligible El_claims
                 ''Parallel task declares no task/path/artifact/port/integration claims''
               else if \<not> pc_capabilitiesAvailable c
               then Ineligible El_capability
                 ''Required worker, Git or sandbox capability is unavailable''
               else if \<not> pc_credentialsAvailable c
               then Ineligible El_credential
                 ''Required provider credentials are unavailable for another worker''
               else capacityEligibility c k))"

section \<open>Selection\<close>

definition candidate_le :: "(string \<Rightarrow> string \<Rightarrow> bool) \<Rightarrow> par_candidate \<Rightarrow> par_candidate \<Rightarrow> bool" where
  "candidate_le collate a b \<longleftrightarrow>
     pc_graphOrder a < pc_graphOrder b \<or>
     pc_graphOrder a = pc_graphOrder b \<and> collate (pc_taskId a) (pc_taskId b)"

text \<open>The child lane: the first candidate that may use it, with the others.\<close>

fun find_lane ::
  "(par_candidate \<Rightarrow> bool) \<Rightarrow> par_candidate list \<Rightarrow> (par_candidate \<times> par_candidate list) option" where
  "find_lane f [] = None"
| "find_lane f (c # cs) =
     (if f c then Some (c, cs)
      else (case find_lane f cs of None \<Rightarrow> None | Some (l, rest) \<Rightarrow> Some (l, c # rest)))"

text \<open>The selection loop: \<open>n\<close> candidates are dispatched already.\<close>

fun select_loop ::
  "string list \<Rightarrow> par_policy \<Rightarrow> par_capacity \<Rightarrow> nat \<Rightarrow> par_candidate list \<Rightarrow>
   par_dispatch list \<times> (par_candidate \<times> eligibility) list" where
  "select_loop completed p k n [] = ([], [])"
| "select_loop completed p k n (c # cs) =
     (case evaluateParallelEligibility c completed p k of
        Eligible \<Rightarrow>
          (case select_loop completed p (reserveCapacity k c) (Suc n) cs of
             (ds, rest) \<Rightarrow> (\<lparr>pd_candidate = c, pd_ordinal = n\<rparr> # ds, rest))
      | Ineligible code why \<Rightarrow>
          (case select_loop completed p k n cs of
             (ds, rest) \<Rightarrow> (ds, (c, Ineligible code why) # rest)))"

definition selectParallelDispatches ::
  "(string \<Rightarrow> string \<Rightarrow> bool) \<Rightarrow> par_candidate list \<Rightarrow> string list \<Rightarrow> par_policy \<Rightarrow> par_capacity \<Rightarrow>
   bool \<Rightarrow> par_selection result" where
  "selectParallelDispatches collate candidates completed p capacity failureObserved =
     (if failureObserved \<and> pp_failFast p then
        Inr \<lparr>ps_dispatches = [],
             ps_deferred = map (\<lambda>c. (c, Ineligible El_status
               ''Fail-fast is draining active workers and schedules no new work'')) candidates,
             ps_draining = True, ps_reason = Some ''A task failed under fail-fast policy''\<rparr>
      else
        and_then (mutableCapacity capacity) (\<lambda>k.
        (let ordered = sort_by (candidate_le collate) candidates;
             lane = (if pp_allowCommandOwnedChildLane p
                     then find_lane (\<lambda>c. pc_childRequiresParentSequencing c \<and>
                            evaluateParallelEligibility c completed p k = Eligible) ordered
                     else None)
         in
         case lane of
           Some (c, rest) \<Rightarrow>
             Inr \<lparr>ps_dispatches = [\<lparr>pd_candidate = c, pd_ordinal = 0\<rparr>],
                  ps_deferred = map (\<lambda>d. (d, Ineligible El_status
                    ''A command-owned child lane has exclusive scheduling for this wave'')) rest,
                  ps_draining = False, ps_reason = None\<rparr>
         | None \<Rightarrow>
             (case select_loop completed p k 0 ordered of
                (ds, rest) \<Rightarrow>
                  Inr \<lparr>ps_dispatches = ds, ps_deferred = rest, ps_draining = False,
                       ps_reason = None\<rparr>))))"

section \<open>What a settled worker leads to\<close>

datatype worker_outcome = Out_completed | Out_failed | Out_interrupted

record worker_terminal =
  wt_taskId :: string
  wt_attemptId :: string
  wt_outcome :: worker_outcome
  wt_failureCount :: int

datatype worker_action = Do_complete | Do_retry | Do_drain | Do_leave_failed

definition nextParallelWorkerAction :: "worker_terminal \<Rightarrow> par_policy \<Rightarrow> worker_action" where
  "nextParallelWorkerAction t p =
     (if wt_outcome t = Out_completed then Do_complete
      else if pp_failFast p then Do_drain
      else if pp_retryFailed p \<and> wt_failureCount t \<le> pp_maximumFailureRetries p then Do_retry
      else Do_leave_failed)"

section \<open>A counted scope of the capacity\<close>

lemma eligible_capacity:
  "evaluateParallelEligibility c completed p k = Eligible \<Longrightarrow> capacityEligibility c k = Eligible"
  by (auto simp: evaluateParallelEligibility_def split: eligibility.splits option.splits if_splits)

text \<open>
  The interface between eligibility and reservation: a candidate inside a full scope is not
  eligible, and a reservation counts one more inside the scope. From it follows how many
  candidates of the scope one selection dispatches.
\<close>

locale capacity_scope =
  fixes inside :: "par_candidate \<Rightarrow> bool"
    and active :: "par_capacity \<Rightarrow> int"
    and limit :: "par_capacity \<Rightarrow> int option"
  assumes full: "inside c \<Longrightarrow> limit k = Some m \<Longrightarrow> m \<le> active k \<Longrightarrow> capacityEligibility c k \<noteq> Eligible"
    and counted: "active (reserveCapacity k c) = active k + (if inside c then 1 else 0)"
    and limit_kept: "limit (reserveCapacity k c) = limit k"
begin

lemma eligible_below: "evaluateParallelEligibility c completed p k = Eligible \<Longrightarrow> inside c \<Longrightarrow>
  limit k = Some m \<Longrightarrow> active k < m"
  using full [of c k m] eligible_capacity [of c completed p k] by force

lemma select_loop_bound:
  "select_loop completed p k n cs = (ds, rest) \<Longrightarrow> limit k = Some m \<Longrightarrow>
   int (length (filter (\<lambda>d. inside (pd_candidate d)) ds)) \<le> max 0 (m - active k)"
proof (induction cs arbitrary: k n ds rest)
  case Nil
  then show ?case by simp
next
  case (Cons c cs)
  show ?case
  proof (cases "evaluateParallelEligibility c completed p k")
    case Eligible
    obtain ds' where s: "select_loop completed p (reserveCapacity k c) (Suc n) cs = (ds', rest)"
        "ds = \<lparr>pd_candidate = c, pd_ordinal = n\<rparr> # ds'"
      using Cons.prems(1) Eligible by (auto split: prod.splits)
    note ih = Cons.IH [OF s(1), unfolded limit_kept, OF Cons.prems(2)]
    show ?thesis
      using ih eligible_below [OF Eligible _ Cons.prems(2)] by (auto simp: s(2) counted)
  next
    case (Ineligible code why)
    then obtain rest' where "select_loop completed p k n cs = (ds, rest')"
      using Cons.prems(1) by (auto split: prod.splits)
    then show ?thesis
      using Cons.IH Cons.prems(2) by blast
  qed
qed

lemma full_kept: "inside c \<Longrightarrow> limit k = Some m \<Longrightarrow> m \<le> active k \<Longrightarrow>
  \<exists>m. limit (reserveCapacity k d) = Some m \<and> m \<le> active (reserveCapacity k d)"
  by (simp add: counted limit_kept)

end

lemma count_of_update: "count_of (AList.update k v m) k' = (if k' = k then v else count_of m k')"
  by (simp add: count_of_def update_conv')

interpretation global_scope:
  capacity_scope "\<lambda>_. True" pk_activeGlobal "\<lambda>k. Some (pk_maximumGlobal k)"
  by unfold_locales (simp_all add: capacityEligibility_def reserveCapacity_def)

interpretation project_scope:
  capacity_scope "\<lambda>_. True" pk_activeProject "\<lambda>k. Some (pk_maximumProject k)"
  by unfold_locales (simp_all add: capacityEligibility_def reserveCapacity_def)

interpretation provider_scope:
  capacity_scope "\<lambda>c. pc_providerId c = i" "\<lambda>k. count_of (pk_activeByProvider k) i"
    "\<lambda>k. map_of (pk_maximumByProvider k) i" for i
  by unfold_locales (auto simp: capacityEligibility_def reserveCapacity_def count_of_update)

interpretation model_scope:
  capacity_scope "\<lambda>c. modelCapacityKey c = i" "\<lambda>k. count_of (pk_activeByModel k) i"
    "\<lambda>k. map_of (pk_maximumByModel k) i" for i
  by unfold_locales (auto simp: capacityEligibility_def reserveCapacity_def count_of_update)

section \<open>Facts on selection\<close>

text \<open>Eligibility beyond the capacity does not depend on it.\<close>

lemma eligible_with:
  "evaluateParallelEligibility c completed p k = Eligible \<Longrightarrow> capacityEligibility c k' = Eligible \<Longrightarrow>
   evaluateParallelEligibility c completed p k' = Eligible"
  by (auto simp: evaluateParallelEligibility_def split: eligibility.splits option.splits if_splits)

lemma capacity_not_regained:
  "capacityEligibility c (reserveCapacity k d) = Eligible \<Longrightarrow> capacityEligibility c k = Eligible"
  by (auto simp: capacityEligibility_def reserveCapacity_def count_of_update split: option.splits if_splits)

lemma eligibility_not_regained:
  assumes "evaluateParallelEligibility c completed p (foldl reserveCapacity k ds) = Eligible"
  shows "evaluateParallelEligibility c completed p k = Eligible"
proof -
  have "capacityEligibility c (foldl reserveCapacity k ds) = Eligible \<Longrightarrow> capacityEligibility c k = Eligible"
    by (induction ds arbitrary: k) (auto dest: capacity_not_regained)
  then show ?thesis
    using eligible_capacity [OF assms] eligible_with [OF assms] by blast
qed

lemma select_loop_partition:
  "select_loop completed p k n cs = (ds, rest) \<Longrightarrow>
   mset (map pd_candidate ds @ map fst rest) = mset cs"
  by (induction cs arbitrary: k n ds rest) (auto split: eligibility.splits prod.splits)

lemma select_loop_ordinals:
  "select_loop completed p k n cs = (ds, rest) \<Longrightarrow> map pd_ordinal ds = [n ..< n + length ds]"
  by (induction cs arbitrary: k n ds rest)
     (auto split: eligibility.splits prod.splits simp: upt_conv_Cons simp del: upt_Suc)

lemma select_loop_eligible:
  "select_loop completed p k n cs = (ds, rest) \<Longrightarrow> d \<in> set ds \<Longrightarrow>
   \<exists>k'. evaluateParallelEligibility (pd_candidate d) completed p k' = Eligible"
  by (induction cs arbitrary: k n ds rest) (fastforce split: eligibility.splits prod.splits)+

lemma select_loop_maximal:
  "select_loop completed p k n cs = (ds, rest) \<Longrightarrow> (c, e) \<in> set rest \<Longrightarrow>
   evaluateParallelEligibility c completed p (foldl reserveCapacity k (map pd_candidate ds)) \<noteq> Eligible"
proof (induction cs arbitrary: k n ds rest)
  case Nil
  then show ?case by simp
next
  case (Cons a cs)
  show ?case
  proof (cases "evaluateParallelEligibility a completed p k")
    case Eligible
    then obtain ds' where "select_loop completed p (reserveCapacity k a) (Suc n) cs = (ds', rest)"
        "ds = \<lparr>pd_candidate = a, pd_ordinal = n\<rparr> # ds'"
      using Cons.prems(1) by (auto split: prod.splits)
    then show ?thesis
      using Cons.IH Cons.prems(2) by fastforce
  next
    case (Ineligible code why)
    then obtain rest' where r: "select_loop completed p k n cs = (ds, rest')"
        "rest = (a, Ineligible code why) # rest'"
      using Cons.prems(1) by (auto split: prod.splits)
    show ?thesis
    proof (cases "c = a")
      case True
      then show ?thesis
        using Ineligible eligibility_not_regained [of a completed p k "map pd_candidate ds"] by auto
    next
      case False
      then show ?thesis
        using Cons.IH [OF r(1)] Cons.prems(2) r(2) by auto
    qed
  qed
qed

lemma mset_insert_by [simp]: "mset (insert_by le x xs) = add_mset x (mset xs)"
  by (induction xs) auto

lemma mset_sort_by [simp]: "mset (sort_by le xs) = mset xs"
  by (induction xs) auto

lemma find_lane_Some:
  "find_lane f cs = Some (c, rest) \<Longrightarrow> f c \<and> c \<in> set cs \<and> mset cs = add_mset c (mset rest)"
  by (induction cs arbitrary: rest) (auto split: if_splits option.splits prod.splits)

lemma find_lane_None: "find_lane f cs = None \<longleftrightarrow> (\<forall>c \<in> set cs. \<not> f c)"
  by (induction cs) (auto split: option.splits prod.splits)

lemma find_lane_first:
  "find_lane f cs = Some (c, rest) \<Longrightarrow> sorted (map pc_graphOrder cs) \<Longrightarrow>
   \<forall>d \<in> set cs. f d \<longrightarrow> pc_graphOrder c \<le> pc_graphOrder d"
  by (induction cs arbitrary: rest) (auto split: if_splits option.splits prod.splits)

lemma graph_order_insert_by:
  "sorted (map pc_graphOrder cs) \<Longrightarrow> sorted (map pc_graphOrder (insert_by (candidate_le collate) c cs))"
proof (induction cs)
  case (Cons d cs)
  have low: "pc_graphOrder d \<le> pc_graphOrder x" if "x \<in> set cs" for x
    using Cons.prems that by simp
  show ?case
  proof (cases "candidate_le collate c d")
    case True
    then have "pc_graphOrder c \<le> pc_graphOrder d"
      by (auto simp: candidate_le_def)
    then show ?thesis
      using True Cons.prems low by fastforce
  next
    case False
    then have "pc_graphOrder d \<le> pc_graphOrder c"
      by (auto simp: candidate_le_def)
    then show ?thesis
      using False Cons low by simp
  qed
qed simp

lemma graph_order_sort_by: "sorted (map pc_graphOrder (sort_by (candidate_le collate) cs))"
  by (induction cs) (simp_all add: graph_order_insert_by)

text \<open>A candidate is dispatched in its turn, with room beside those dispatched before it.\<close>

lemma select_loop_order:
  "select_loop completed p k n cs = (ds, rest) \<Longrightarrow> sorted (map pc_graphOrder cs) \<Longrightarrow>
   sorted (map (\<lambda>d. pc_graphOrder (pd_candidate d)) ds) \<and> pd_candidate ` set ds \<subseteq> set cs"
  by (induction cs arbitrary: k n ds rest) (fastforce split: eligibility.splits prod.splits)+

lemma select_loop_room:
  "select_loop completed p k n cs = (ds, rest) \<Longrightarrow> i < length ds \<Longrightarrow>
   evaluateParallelEligibility (pd_candidate (ds ! i)) completed p
     (foldl reserveCapacity k (map pd_candidate (take i ds))) = Eligible"
proof (induction cs arbitrary: k n ds rest i)
  case (Cons a cs)
  show ?case
  proof (cases "evaluateParallelEligibility a completed p k")
    case Eligible
    then obtain ds' where "select_loop completed p (reserveCapacity k a) (Suc n) cs = (ds', rest)"
        "ds = \<lparr>pd_candidate = a, pd_ordinal = n\<rparr> # ds'"
      using Cons.prems(1) by (auto split: prod.splits)
    then show ?thesis
      using Cons.IH Cons.prems(2) Eligible by (cases i) auto
  next
    case (Ineligible code why)
    then obtain rest' where "select_loop completed p k n cs = (ds, rest')"
      using Cons.prems(1) by (auto split: prod.splits)
    then show ?thesis
      using Cons.IH Cons.prems(2) by blast
  qed
qed simp

text \<open>Every selection's dispatches are those of a run of the loop, over a part of the candidates.\<close>

lemma mutableCapacity_Inr: "mutableCapacity k = Inr k' \<Longrightarrow>
  k' = k \<and> 0 \<le> pk_activeGlobal k \<and> 0 \<le> pk_activeProject k"
  by (auto simp: mutableCapacity_def positiveLimit_def result_simps split: if_splits)

lemma selection_cases:
  assumes "selectParallelDispatches collate candidates completed p k failed = Inr s"
  obtains
    (drain) "failed" "pp_failFast p" "ps_dispatches s = []" "map fst (ps_deferred s) = candidates"
      "ps_draining s"
  | (lane) c rest where "\<not> (failed \<and> pp_failFast p)" "pp_allowCommandOwnedChildLane p"
      "pc_childRequiresParentSequencing c" "evaluateParallelEligibility c completed p k = Eligible"
      "mset candidates = add_mset c (mset rest)" "map fst (ps_deferred s) = rest"
      "ps_dispatches s = [\<lparr>pd_candidate = c, pd_ordinal = 0\<rparr>]" "\<not> ps_draining s"
      "\<forall>d \<in> set candidates. pc_childRequiresParentSequencing d \<and>
         evaluateParallelEligibility d completed p k = Eligible \<longrightarrow> pc_graphOrder c \<le> pc_graphOrder d"
  | (loop) "\<not> (failed \<and> pp_failFast p)" "\<not> ps_draining s"
      "select_loop completed p k 0 (sort_by (candidate_le collate) candidates) =
         (ps_dispatches s, ps_deferred s)"
      "pp_allowCommandOwnedChildLane p \<longrightarrow> (\<forall>d \<in> set candidates.
         \<not> (pc_childRequiresParentSequencing d \<and> evaluateParallelEligibility d completed p k = Eligible))"
proof (cases "failed \<and> pp_failFast p")
  case True
  then have "failed" "pp_failFast p" "ps_dispatches s = []" "map fst (ps_deferred s) = candidates"
      "ps_draining s"
    using assms by (auto simp: selectParallelDispatches_def map_idI)
  then show ?thesis by (rule drain)
next
  case False
  let ?cs = "sort_by (candidate_le collate) candidates"
  let ?f = "\<lambda>c. pc_childRequiresParentSequencing c \<and>
                 evaluateParallelEligibility c completed p k = Eligible"
  from assms False have cap: "mutableCapacity k = Inr k"
    by (auto simp: selectParallelDispatches_def result_simps dest: mutableCapacity_Inr)
  show ?thesis
  proof (cases "if pp_allowCommandOwnedChildLane p then find_lane ?f ?cs else None")
    case (Some l)
    obtain c rest where l: "l = (c, rest)" by (cases l)
    then have found: "pp_allowCommandOwnedChildLane p" "find_lane ?f ?cs = Some (c, rest)"
      using Some by (simp_all split: if_splits)
    have "s = \<lparr>ps_dispatches = [\<lparr>pd_candidate = c, pd_ordinal = 0\<rparr>],
                  ps_deferred = map (\<lambda>d. (d, Ineligible El_status
                    ''A command-owned child lane has exclusive scheduling for this wave'')) rest,
                  ps_draining = False, ps_reason = None\<rparr>"
      using assms False cap found by (simp add: selectParallelDispatches_def)
    then show ?thesis
      using lane [OF False found(1), of c rest] find_lane_Some [OF found(2)]
        find_lane_first [OF found(2) graph_order_sort_by] by (auto simp: map_idI)
  next
    case None
    obtain ds rest where run: "select_loop completed p k 0 ?cs = (ds, rest)"
      by (cases "select_loop completed p k 0 ?cs")
    have "s = \<lparr>ps_dispatches = ds, ps_deferred = rest, ps_draining = False, ps_reason = None\<rparr>"
      using assms False cap None run by (simp add: selectParallelDispatches_def)
    moreover have "pp_allowCommandOwnedChildLane p \<longrightarrow> (\<forall>d \<in> set candidates. \<not> ?f d)"
      using None find_lane_None [of ?f ?cs] by auto
    ultimately show ?thesis
      using loop [OF False] run by simp
  qed
qed

lemma dispatches_of_loop:
  assumes "selectParallelDispatches collate candidates completed p k failed = Inr s"
  shows "\<exists>cs rest. select_loop completed p k 0 cs = (ps_dispatches s, rest)"
  using assms
proof (cases rule: selection_cases)
  case drain
  then have "select_loop completed p k 0 [] = (ps_dispatches s, [])" by simp
  then show ?thesis by blast
next
  case (lane c rest)
  then have "select_loop completed p k 0 [c] = (ps_dispatches s, [])" by simp
  then show ?thesis by blast
qed blast

lemma selection_partition:
  assumes "selectParallelDispatches collate candidates completed p k failed = Inr s"
  shows "mset (map pd_candidate (ps_dispatches s) @ map fst (ps_deferred s)) = mset candidates"
  using assms
proof (cases rule: selection_cases)
  case loop
  show ?thesis
    using select_loop_partition [OF loop(3)] by simp
qed simp_all

lemma selection_order:
  assumes "selectParallelDispatches collate candidates completed p k failed = Inr s"
  shows "sorted (map (\<lambda>d. pc_graphOrder (pd_candidate d)) (ps_dispatches s))"
  using assms
proof (cases rule: selection_cases)
  case loop
  show ?thesis
    using select_loop_order [OF loop(3) graph_order_sort_by] by blast
qed simp_all

lemma selection_room:
  assumes "selectParallelDispatches collate candidates completed p k failed = Inr s"
    and "i < length (ps_dispatches s)"
  shows "evaluateParallelEligibility (pd_candidate (ps_dispatches s ! i)) completed p
     (foldl reserveCapacity k (map pd_candidate (take i (ps_dispatches s)))) = Eligible"
  using assms(1)
proof (cases rule: selection_cases)
  case loop
  show ?thesis
    using select_loop_room [OF loop(3) assms(2)] .
qed (use assms(2) in simp_all)

text \<open>The wave of a child lane, and the wave without one.\<close>

definition lane_ready :: "string list \<Rightarrow> par_policy \<Rightarrow> par_capacity \<Rightarrow> par_candidate \<Rightarrow> bool" where
  "lane_ready completed p k c \<longleftrightarrow>
     pp_allowCommandOwnedChildLane p \<and> pc_childRequiresParentSequencing c \<and>
     evaluateParallelEligibility c completed p k = Eligible"

lemma selection_lane:
  assumes "selectParallelDispatches collate candidates completed p k failed = Inr s"
    and "\<not> (failed \<and> pp_failFast p)" and "\<exists>c \<in> set candidates. lane_ready completed p k c"
  shows "\<exists>c \<in> set candidates. lane_ready completed p k c \<and>
    ps_dispatches s = [\<lparr>pd_candidate = c, pd_ordinal = 0\<rparr>] \<and>
    (\<forall>d \<in> set candidates. lane_ready completed p k d \<longrightarrow> pc_graphOrder c \<le> pc_graphOrder d)"
  using assms(1)
proof (cases rule: selection_cases)
  case (lane c rest)
  have "c \<in> set candidates"
    using lane(5) by (metis set_mset_mset union_single_eq_member)
  then show ?thesis
    using lane(2,3,4,7,9) unfolding lane_ready_def by blast
next
  case loop
  then show ?thesis
    using assms(3) by (auto simp: lane_ready_def)
qed (use assms(2) in simp)

lemma selection_maximal:
  assumes "selectParallelDispatches collate candidates completed p k failed = Inr s"
    and "\<not> (failed \<and> pp_failFast p)" and "\<not> (\<exists>c \<in> set candidates. lane_ready completed p k c)"
    and "(c, e) \<in> set (ps_deferred s)"
  shows "evaluateParallelEligibility c completed p
    (foldl reserveCapacity k (map pd_candidate (ps_dispatches s))) \<noteq> Eligible"
  using assms(1)
proof (cases rule: selection_cases)
  case (lane d rest)
  have "d \<in> set candidates"
    using lane(5) by (metis set_mset_mset union_single_eq_member)
  then show ?thesis
    using lane(2,3,4) assms(3) unfolding lane_ready_def by blast
next
  case loop
  show ?thesis
    using select_loop_maximal [OF loop(3) assms(4)] .
qed (use assms(2) in simp)

lemma selection_draining:
  assumes "selectParallelDispatches collate candidates completed p k failed = Inr s"
  shows "ps_draining s \<longleftrightarrow> failed \<and> pp_failFast p"
  using assms by (cases rule: selection_cases) simp_all

lemma missing_dependency_None:
  assumes "missing_dependency c completed = None" and "d \<in> set (takeWhile (\<lambda>d. d \<noteq> []) (pc_dependencies c))"
  shows "d \<in> set completed"
proof (rule ccontr)
  assume not: "d \<notin> set completed"
  obtain ys zs where deps: "pc_dependencies c = ys @ d # zs" and ne: "\<forall>y \<in> set (ys @ [d]). y \<noteq> []"
  proof -
    let ?t = "takeWhile (\<lambda>d. d \<noteq> []) (pc_dependencies c)"
    obtain us vs where t: "?t = us @ d # vs"
      using assms(2) split_list by fastforce
    have "pc_dependencies c = us @ d # (vs @ dropWhile (\<lambda>d. d \<noteq> []) (pc_dependencies c))"
      using t takeWhile_dropWhile_id [of "\<lambda>d. d \<noteq> []" "pc_dependencies c"] by simp
    moreover have "\<forall>y \<in> set (us @ [d]). y \<noteq> []"
      using t set_takeWhileD [of _ "\<lambda>d. d \<noteq> []" "pc_dependencies c"] by auto
    ultimately show ?thesis using that by blast
  qed
  have "find (\<lambda>d. \<not> List.member completed d) (pc_dependencies c) \<noteq> None"
    using deps not by (simp add: find_None_conv)
  then obtain x where x: "find (\<lambda>d. \<not> List.member completed d) (pc_dependencies c) = Some x" by blast
  have "x \<in> set (ys @ [d])"
    using x not by (auto simp: deps find_append split: option.splits dest: find_SomeD)
  then have "x \<noteq> []" using ne by blast
  then show False
    using assms(1) x by (simp add: missing_dependency_def)
qed

section \<open>Properties\<close>

definition sample_candidate :: "string \<Rightarrow> int \<Rightarrow> string list \<Rightarrow> string \<Rightarrow> par_candidate" where
  "sample_candidate t n deps provider =
     \<lparr>pc_runId = ''r'', pc_documentId = ''d'', pc_taskId = t, pc_attemptId = t, pc_graphOrder = n,
      pc_status = Par_pending, pc_dependencies = deps, pc_parallelGroup = None,
      pc_providerId = provider, pc_modelId = ''m'', pc_declaredClaims = [sample_path t],
      pc_childRequiresParentSequencing = False, pc_baselineConsistent = True,
      pc_isolation = Isolation_worktree, pc_capabilitiesAvailable = True,
      pc_credentialsAvailable = True, pc_failureCount = 0, pc_reconciliationOnly = False\<rparr>"

definition sample_policy :: par_policy where
  "sample_policy =
     \<lparr>pp_parallelAuto = True, pp_allowedGroups = [], pp_retryFailed = True,
      pp_maximumFailureRetries = 1, pp_failFast = False, pp_requireIsolatedWorkspace = True,
      pp_allowCommandOwnedChildLane = False\<rparr>"

definition sample_capacity :: par_capacity where
  "sample_capacity =
     \<lparr>pk_maximumGlobal = 4, pk_activeGlobal = 1, pk_maximumProject = 3, pk_activeProject = 0,
      pk_maximumByProvider = [(''p'', 1)], pk_activeByProvider = [], pk_maximumByModel = [],
      pk_activeByModel = []\<rparr>"

definition sample_candidates :: "par_candidate list" where
  "sample_candidates =
     [sample_candidate ''b'' 2 [] ''p'', sample_candidate ''a'' 1 [''z''] ''p'',
      sample_candidate ''c'' 3 [''b''] ''q'', sample_candidate ''e'' 4 [] ''q'']"

lemma sample_selected:
  "selectParallelDispatches sample_collate sample_candidates [''z''] sample_policy sample_capacity False =
     Inr \<lparr>ps_dispatches =
            [\<lparr>pd_candidate = sample_candidate ''a'' 1 [''z''] ''p'', pd_ordinal = 0\<rparr>,
             \<lparr>pd_candidate = sample_candidate ''e'' 4 [] ''q'', pd_ordinal = 1\<rparr>],
          ps_deferred =
            [(sample_candidate ''b'' 2 [] ''p'', Ineligible El_capacity_provider
                ''Provider worker limit is full for p''),
             (sample_candidate ''c'' 3 [''b''] ''q'', Ineligible El_dependency
                ''Dependency b is not durably completed'')],
          ps_draining = False, ps_reason = None\<rparr>"
  by code_simp

text \<open>The same with the policy of the command, and with a candidate for the child lane.\<close>

definition lane_policy :: par_policy where
  "lane_policy = sample_policy\<lparr>pp_allowCommandOwnedChildLane := True\<rparr>"

definition lane_candidate :: par_candidate where
  "lane_candidate = (sample_candidate ''l'' 3 [] ''q'')\<lparr>pc_childRequiresParentSequencing := True\<rparr>"

lemma full_wave_selected:
  "selectParallelDispatches sample_collate sample_candidates [''z''] lane_policy sample_capacity False =
     Inr \<lparr>ps_dispatches =
            [\<lparr>pd_candidate = sample_candidate ''a'' 1 [''z''] ''p'', pd_ordinal = 0\<rparr>,
             \<lparr>pd_candidate = sample_candidate ''e'' 4 [] ''q'', pd_ordinal = 1\<rparr>],
          ps_deferred =
            [(sample_candidate ''b'' 2 [] ''p'', Ineligible El_capacity_provider
                ''Provider worker limit is full for p''),
             (sample_candidate ''c'' 3 [''b''] ''q'', Ineligible El_dependency
                ''Dependency b is not durably completed'')],
          ps_draining = False, ps_reason = None\<rparr>"
  by code_simp

lemma lane_wave_selected:
  "\<exists>s. selectParallelDispatches sample_collate (lane_candidate # sample_candidates) [''z''] lane_policy
     sample_capacity False = Inr s \<and> \<not> ps_draining s"
proof -
  have "case selectParallelDispatches sample_collate (lane_candidate # sample_candidates) [''z''] lane_policy
     sample_capacity False of Inr s \<Rightarrow> \<not> ps_draining s | _ \<Rightarrow> False"
    by code_simp
  then show ?thesis
    by (auto split: sum.splits)
qed

text \<open>
  C30. Only work that may run is dispatched: every dispatched candidate is a given one, pending, or
  failed or interrupted with retries allowed and left. The dependencies it names before the first
  empty name are completed, so all of them are when no name is empty (the code takes an empty
  missing name for none). It is in an allowed group, auto-parallel, on the child lane or only
  reconciles; its child graph is not to be sequenced by the parent outside that lane; it has a
  consistent baseline, declared claims, capabilities and credentials, and an isolated workspace if
  the policy asks for one. It still has room beside the candidates dispatched before it.
  Fail-fast after a failure dispatches nothing.
\<close>

theorem parallel_dispatch_is_sound:
  assumes "selectParallelDispatches collate candidates completed p k failed = Inr s"
    and "d \<in> set (ps_dispatches s)" and "c = pd_candidate d"
  shows "c \<in> set candidates \<and> \<not> (failed \<and> pp_failFast p) \<and>
    (pc_status c = Par_pending \<or>
     pc_status c \<in> {Par_failed, Par_interrupted} \<and> pp_retryFailed p \<and>
       pc_failureCount c \<le> pp_maximumFailureRetries p) \<and>
    set (takeWhile (\<lambda>d. d \<noteq> []) (pc_dependencies c)) \<subseteq> set completed \<and>
    ([] \<notin> set (pc_dependencies c) \<longrightarrow> set (pc_dependencies c) \<subseteq> set completed) \<and>
    (pc_reconciliationOnly c \<or> child_lane c p \<or> group_allowed c p \<or> pp_parallelAuto p) \<and>
    (pc_childRequiresParentSequencing c \<longrightarrow> child_lane c p) \<and>
    pc_baselineConsistent c \<and> (pp_requireIsolatedWorkspace p \<longrightarrow> pc_isolation c \<noteq> Isolation_none) \<and>
    pc_declaredClaims c \<noteq> [] \<and> pc_capabilitiesAvailable c \<and> pc_credentialsAvailable c \<and>
    capacityEligibility c
      (foldl reserveCapacity k (map pd_candidate (take (pd_ordinal d) (ps_dispatches s)))) = Eligible"
proof -
  obtain i where i: "i < length (ps_dispatches s)" "d = ps_dispatches s ! i"
    using assms(2) by (metis in_set_conv_nth)
  obtain cs rest where loop: "select_loop completed p k 0 cs = (ps_dispatches s, rest)"
    using dispatches_of_loop [OF assms(1)] by blast
  have ord: "pd_ordinal d = i"
    using i select_loop_ordinals [OF loop] by (metis add_0 nth_map nth_upt)
  let ?k = "foldl reserveCapacity k (map pd_candidate (take (pd_ordinal d) (ps_dispatches s)))"
  have el: "evaluateParallelEligibility c completed p ?k = Eligible"
    using selection_room [OF assms(1) i(1)] by (simp add: assms(3) ord i(2) [symmetric])
  then have st: "status_eligibility c p = Eligible" and dep: "missing_dependency c completed = None"
    by (auto simp: evaluateParallelEligibility_def split: eligibility.splits option.splits)
  have "c \<in># mset candidates"
    unfolding selection_partition [OF assms(1), symmetric] using assms(2,3) by auto
  moreover have "\<not> (failed \<and> pp_failFast p)"
    using assms(1,2) by (auto simp: selectParallelDispatches_def)
  moreover have "pc_status c = Par_pending \<or> pc_status c \<in> {Par_failed, Par_interrupted} \<and>
      pp_retryFailed p \<and> pc_failureCount c \<le> pp_maximumFailureRetries p"
    using st by (auto simp: status_eligibility_def split: if_splits)
  moreover have named: "set (takeWhile (\<lambda>d. d \<noteq> []) (pc_dependencies c)) \<subseteq> set completed"
    using missing_dependency_None [OF dep] by blast
  moreover have "[] \<notin> set (pc_dependencies c) \<longrightarrow> set (pc_dependencies c) \<subseteq> set completed"
  proof
    assume "[] \<notin> set (pc_dependencies c)"
    then have all: "takeWhile (\<lambda>d. d \<noteq> []) (pc_dependencies c) = pc_dependencies c"
      by (auto simp: takeWhile_eq_all_conv)
    show "set (pc_dependencies c) \<subseteq> set completed"
      using named unfolding all .
  qed
  moreover have "(pc_reconciliationOnly c \<or> child_lane c p \<or> group_allowed c p \<or> pp_parallelAuto p) \<and>
    (pc_childRequiresParentSequencing c \<longrightarrow> child_lane c p) \<and> pc_baselineConsistent c \<and>
    (pp_requireIsolatedWorkspace p \<longrightarrow> pc_isolation c \<noteq> Isolation_none) \<and>
    pc_declaredClaims c \<noteq> [] \<and> pc_capabilitiesAvailable c \<and> pc_credentialsAvailable c"
    using el st dep by (auto simp: evaluateParallelEligibility_def split: if_splits)
  ultimately show ?thesis
    using eligible_capacity [OF el] by simp
qed

text \<open>
  On a wave with a candidate waiting for an unfinished dependency and one beyond the provider's
  limit, neither is dispatched, while the first dispatched one has its dependency done.
\<close>

theorem parallel_dispatch_is_sound_witness:
  "\<exists>s d. selectParallelDispatches sample_collate sample_candidates [''z''] sample_policy sample_capacity False = Inr s \<and>
     sample_candidate ''c'' 3 [''b''] ''q'' \<in> set sample_candidates \<and>
     sample_candidate ''c'' 3 [''b''] ''q'' \<notin> pd_candidate ` set (ps_dispatches s) \<and>
     d \<in> set (ps_dispatches s) \<and> pc_dependencies (pd_candidate d) \<noteq> [] \<and>
     set (pc_dependencies (pd_candidate d)) \<subseteq> {''z''} \<and>
     pc_isolation (pd_candidate d) \<noteq> Isolation_none"
proof -
  obtain s where s: "selectParallelDispatches sample_collate sample_candidates [''z''] sample_policy
      sample_capacity False = Inr s"
    and first: "\<lparr>pd_candidate = sample_candidate ''a'' 1 [''z''] ''p'', pd_ordinal = 0\<rparr> \<in> set (ps_dispatches s)"
    using sample_selected by simp
  note sound = parallel_dispatch_is_sound [OF s]
  have "sample_candidate ''c'' 3 [''b''] ''q'' \<notin> pd_candidate ` set (ps_dispatches s)"
  proof
    assume "sample_candidate ''c'' 3 [''b''] ''q'' \<in> pd_candidate ` set (ps_dispatches s)"
    then obtain x where x: "x \<in> set (ps_dispatches s)" "sample_candidate ''c'' 3 [''b''] ''q'' = pd_candidate x"
      by blast
    have "set (takeWhile (\<lambda>d. d \<noteq> []) (pc_dependencies (sample_candidate ''c'' 3 [''b''] ''q''))) \<subseteq> set [''z'']"
      using sound [OF x] by blast
    then show False
      by (simp add: sample_candidate_def)
  qed
  moreover have "sample_candidate ''c'' 3 [''b''] ''q'' \<in> set sample_candidates"
    by (simp add: sample_candidates_def)
  moreover have "set (pc_dependencies (sample_candidate ''a'' 1 [''z''] ''p'')) \<subseteq> {''z''} \<and>
      pc_isolation (sample_candidate ''a'' 1 [''z''] ''p'') \<noteq> Isolation_none"
    using sound [OF first refl] by (simp add: sample_candidate_def sample_policy_def)
  moreover have "pc_dependencies (sample_candidate ''a'' 1 [''z''] ''p'') \<noteq> []"
    by (simp add: sample_candidate_def)
  ultimately show ?thesis
    using s first by force
qed

text \<open>
  C15. A wave fills its capacity and no more: the dispatched and the deferred candidates are the
  given ones; the dispatches are numbered from zero, in graph order, and fit what is free globally,
  in the project, and of each limited provider and model. It drains exactly when a failure was seen
  under fail-fast. A wave that does not drain either has a candidate ready for the child lane
  (the policy allows the lane, the candidate asks its parent to sequence it and is eligible), and
  then it dispatches exactly one such candidate, the first in graph order, and nothing beside it;
  or it has none, and then no deferred candidate would still be eligible beside the dispatched ones.
\<close>

theorem parallel_wave_fills_its_capacity:
  assumes "selectParallelDispatches collate candidates completed p k failed = Inr s"
  shows "mset (map pd_candidate (ps_dispatches s) @ map fst (ps_deferred s)) = mset candidates \<and>
    map pd_ordinal (ps_dispatches s) = [0 ..< length (ps_dispatches s)] \<and>
    sorted (map (\<lambda>d. pc_graphOrder (pd_candidate d)) (ps_dispatches s)) \<and>
    int (length (ps_dispatches s)) \<le> max 0 (pk_maximumGlobal k - pk_activeGlobal k) \<and>
    int (length (ps_dispatches s)) \<le> max 0 (pk_maximumProject k - pk_activeProject k) \<and>
    (\<forall>i m. map_of (pk_maximumByProvider k) i = Some m \<longrightarrow>
       int (length (filter (\<lambda>d. pc_providerId (pd_candidate d) = i) (ps_dispatches s))) \<le>
         max 0 (m - count_of (pk_activeByProvider k) i)) \<and>
    (\<forall>i m. map_of (pk_maximumByModel k) i = Some m \<longrightarrow>
       int (length (filter (\<lambda>d. modelCapacityKey (pd_candidate d) = i) (ps_dispatches s))) \<le>
         max 0 (m - count_of (pk_activeByModel k) i)) \<and>
    (ps_draining s \<longleftrightarrow> failed \<and> pp_failFast p) \<and>
    (\<not> ps_draining s \<longrightarrow>
       (if \<exists>c \<in> set candidates. lane_ready completed p k c
        then \<exists>c \<in> set candidates. lane_ready completed p k c \<and>
          ps_dispatches s = [\<lparr>pd_candidate = c, pd_ordinal = 0\<rparr>] \<and>
          (\<forall>d \<in> set candidates. lane_ready completed p k d \<longrightarrow> pc_graphOrder c \<le> pc_graphOrder d)
        else \<forall>(c, e) \<in> set (ps_deferred s).
          evaluateParallelEligibility c completed p
            (foldl reserveCapacity k (map pd_candidate (ps_dispatches s))) \<noteq> Eligible))"
proof -
  obtain cs rest where loop: "select_loop completed p k 0 cs = (ps_dispatches s, rest)"
    using dispatches_of_loop [OF assms] by blast
  have wave: "\<not> ps_draining s \<longrightarrow>
       (if \<exists>c \<in> set candidates. lane_ready completed p k c
        then \<exists>c \<in> set candidates. lane_ready completed p k c \<and>
          ps_dispatches s = [\<lparr>pd_candidate = c, pd_ordinal = 0\<rparr>] \<and>
          (\<forall>d \<in> set candidates. lane_ready completed p k d \<longrightarrow> pc_graphOrder c \<le> pc_graphOrder d)
        else \<forall>(c, e) \<in> set (ps_deferred s).
          evaluateParallelEligibility c completed p
            (foldl reserveCapacity k (map pd_candidate (ps_dispatches s))) \<noteq> Eligible)"
  proof (cases "\<exists>c \<in> set candidates. lane_ready completed p k c")
    case True
    then show ?thesis
      using selection_lane [OF assms] selection_draining [OF assms] by simp
  next
    case False
    then show ?thesis
      using selection_maximal [OF assms _ False] selection_draining [OF assms] by auto
  qed
  show ?thesis
    using selection_partition [OF assms] select_loop_ordinals [OF loop] selection_order [OF assms]
      selection_draining [OF assms] wave
      global_scope.select_loop_bound [OF loop] project_scope.select_loop_bound [OF loop]
      provider_scope.select_loop_bound [OF loop] model_scope.select_loop_bound [OF loop]
    by simp
qed

text \<open>
  Both waves of a policy that allows the lane, as the command sets it: without a candidate for the
  lane the wave is as full as the limits let it be; with one, that candidate runs alone.
\<close>

theorem parallel_wave_fills_its_capacity_witness:
  "evaluateParallelEligibility (sample_candidate ''b'' 2 [] ''p'') [''z''] lane_policy
     (foldl reserveCapacity sample_capacity
       [sample_candidate ''a'' 1 [''z''] ''p'', sample_candidate ''e'' 4 [] ''q'']) \<noteq> Eligible \<and>
   (\<exists>s c. selectParallelDispatches sample_collate (lane_candidate # sample_candidates) [''z''] lane_policy
       sample_capacity False = Inr s \<and>
     ps_dispatches s = [\<lparr>pd_candidate = c, pd_ordinal = 0\<rparr>] \<and> lane_ready [''z''] lane_policy sample_capacity c \<and>
     pc_graphOrder c \<le> 3)"
proof
  have none: "\<not> (\<exists>c \<in> set sample_candidates. lane_ready [''z''] lane_policy sample_capacity c)"
    by (simp add: sample_candidates_def lane_ready_def sample_candidate_def)
  show "evaluateParallelEligibility (sample_candidate ''b'' 2 [] ''p'') [''z''] lane_policy
     (foldl reserveCapacity sample_capacity
       [sample_candidate ''a'' 1 [''z''] ''p'', sample_candidate ''e'' 4 [] ''q'']) \<noteq> Eligible"
    using parallel_wave_fills_its_capacity [OF full_wave_selected] none by simp
next
  have ready: "lane_ready [''z''] lane_policy sample_capacity lane_candidate"
    by code_simp
  obtain s where s: "selectParallelDispatches sample_collate (lane_candidate # sample_candidates) [''z'']
      lane_policy sample_capacity False = Inr s" "\<not> ps_draining s"
    using lane_wave_selected by (auto simp: ok_iff)
  have some: "\<exists>c \<in> set (lane_candidate # sample_candidates). lane_ready [''z''] lane_policy sample_capacity c"
    using ready by simp
  obtain c where "lane_ready [''z''] lane_policy sample_capacity c"
      "ps_dispatches s = [\<lparr>pd_candidate = c, pd_ordinal = 0\<rparr>]"
      "\<forall>d \<in> set (lane_candidate # sample_candidates).
         lane_ready [''z''] lane_policy sample_capacity d \<longrightarrow> pc_graphOrder c \<le> pc_graphOrder d"
    using parallel_wave_fills_its_capacity [OF s(1)] s(2) some by auto
  moreover from this have "pc_graphOrder c \<le> 3"
    using ready by (auto simp: lane_candidate_def sample_candidate_def)
  ultimately show "\<exists>s c. selectParallelDispatches sample_collate (lane_candidate # sample_candidates) [''z'']
       lane_policy sample_capacity False = Inr s \<and>
     ps_dispatches s = [\<lparr>pd_candidate = c, pd_ordinal = 0\<rparr>] \<and> lane_ready [''z''] lane_policy sample_capacity c \<and>
     pc_graphOrder c \<le> 3"
    using s(1) by blast
qed

end
