(* ===== verification/ParallelRun.thy ===== *)
theory ParallelRun
  imports ParallelSched
begin

text \<open>
  The effectful part of \<^verbatim>\<open>packages/orchestration/src/parallel-scheduler.ts\<close>
  (\<open>claimParallelDispatches\<close>) and \<^verbatim>\<open>packages/orchestration/src/parallel-runner.ts\<close>
  (\<open>executeParallelWaves\<close>), over a record of ports whose calls act on a state \<open>'s\<close> shared by
  all of them. A call that rejects returns \<open>Inl\<close> and the state it leaves. The workers of a wave
  run concurrently: an argument gives the order in which their steps interleave. The value a
  worker returns has the type \<open>'v\<close>.
\<close>

section \<open>Sequencing\<close>

text \<open>Awaiting a call: the rest runs on the state and the value it leaves, a rejection skips it.\<close>

definition st_then ::
  "'s \<times> 'a result \<Rightarrow> ('s \<Rightarrow> 'a \<Rightarrow> 's \<times> 'b result) \<Rightarrow> 's \<times> 'b result" where
  "st_then r f = (case r of (st, Inl e) \<Rightarrow> (st, Inl e) | (st, Inr x) \<Rightarrow> f st x)"

lemma st_then_simps [simp]:
  "st_then (st, Inl e) f = (st, Inl e)"
  "st_then (st, Inr x) f = f st x"
  by (simp_all add: st_then_def)

lemma st_then_cases:
  assumes "st_then r f = (st', q)"
  obtains (failed) e where "r = (st', Inl e)" "q = Inl e"
  | (went) st1 x where "r = (st1, Inr x)" "f st1 x = (st', q)"
  using assms by (cases r; cases "snd r") auto

text \<open>\<^verbatim>\<open>String(n)\<close> of a natural number.\<close>

fun decimal :: "nat \<Rightarrow> string" where
  "decimal n =
     (if n < 10 then [char_of (48 + n)] else decimal (n div 10) @ [char_of (48 + n mod 10)])"

declare decimal.simps [simp del]

section \<open>Ports\<close>

datatype capacity_scope_name = Scope_global | Scope_project | Scope_provider | Scope_model

datatype reserve_outcome =
    Reserved string
  | Full capacity_scope_name

record par_claimed =
  pq_dispatch :: par_dispatch
  pq_workerId :: string
  pq_capacityLeaseId :: string
  pq_claimSet :: set_record

record par_conflict =
  px_dispatch :: par_dispatch
  px_error :: failure
  px_capacityScope :: "capacity_scope_name option"

record 'v worker_result =
  wr_terminal :: worker_terminal
  wr_value :: "'v option"
  wr_error :: "failure option"

record wave_snapshot =
  sw_candidates :: "par_candidate list"
  sw_completedTaskIds :: "string list"
  sw_capacity :: par_capacity

datatype par_observation =
    Obs_wave_selected nat nat bool
  | Obs_draining string
  | Obs_claim_conflict par_conflict
  | Obs_worker_started par_claimed
  | Obs_worker_settled par_claimed worker_outcome "failure option"
  | Obs_integration_settled "string list"

record ('s, 'v) par_ports =
  pt_reserve :: "'s \<Rightarrow> par_candidate \<Rightarrow> string \<Rightarrow> 's \<times> reserve_outcome result"
  pt_releaseCapacity :: "'s \<Rightarrow> string \<Rightarrow> string \<Rightarrow> 's \<times> unit result"
  pt_acquire :: "'s \<Rightarrow> par_candidate \<Rightarrow> string \<Rightarrow> 's \<times> set_record result"
  pt_releaseClaims :: "'s \<Rightarrow> set_record \<Rightarrow> string \<Rightarrow> 's \<times> unit result"
  pt_snapshot :: "'s \<Rightarrow> 's \<times> wave_snapshot result"
  pt_observe :: "'s \<Rightarrow> par_observation \<Rightarrow> 's \<times> unit result"
  pt_execute :: "'s \<Rightarrow> par_claimed \<Rightarrow> 's \<times> 'v worker_result result"
  pt_integrate :: "'s \<Rightarrow> 'v worker_result list \<Rightarrow> 's \<times> unit result"

section \<open>Releasing\<close>

text \<open>
  The releases of several dispatches start together, each awaiting its claim release before its
  capacity release, which runs in any case: all claim releases come first, in order, then all
  capacity releases. A failed capacity release hides a failed claim release.
\<close>

fun release_claims ::
  "('s, 'v) par_ports \<Rightarrow> (par_claimed \<Rightarrow> string) \<Rightarrow> 's \<Rightarrow> par_claimed list \<Rightarrow> 's \<times> unit result list" where
  "release_claims P why st [] = (st, [])"
| "release_claims P why st (d # ds) =
     (case pt_releaseClaims P st (pq_claimSet d) (why d) of
        (st1, r) \<Rightarrow> (case release_claims P why st1 ds of (st2, rs) \<Rightarrow> (st2, r # rs)))"

fun release_capacity ::
  "('s, 'v) par_ports \<Rightarrow> (par_claimed \<Rightarrow> string) \<Rightarrow> 's \<Rightarrow> par_claimed list \<Rightarrow> 's \<times> unit result list" where
  "release_capacity P why st [] = (st, [])"
| "release_capacity P why st (d # ds) =
     (case pt_releaseCapacity P st (pq_capacityLeaseId d) (why d) of
        (st1, r) \<Rightarrow> (case release_capacity P why st1 ds of (st2, rs) \<Rightarrow> (st2, r # rs)))"

definition release_bundles ::
  "('s, 'v) par_ports \<Rightarrow> (par_claimed \<Rightarrow> string) \<Rightarrow> 's \<Rightarrow> par_claimed list \<Rightarrow> 's \<times> unit result list" where
  "release_bundles P why st ds =
     (case release_claims P why st ds of
        (st1, rs) \<Rightarrow>
          (case release_capacity P why st1 ds of
             (st2, qs) \<Rightarrow> (st2, map2 (\<lambda>r q. case q of Inl e \<Rightarrow> Inl e | Inr _ \<Rightarrow> r) rs qs)))"

section \<open>Claiming\<close>

definition releaseClaimedAfterFatalError ::
  "('s, 'v) par_ports \<Rightarrow> 's \<Rightarrow> par_claimed list \<Rightarrow> failure \<Rightarrow> 's \<times> 'a result" where
  "releaseClaimedAfterFatalError P st claimed cause =
     (case release_bundles P
             (\<lambda>_. ''Parallel dispatch preparation aborted before workers started'') st (rev claimed) of
        (st', rs) \<Rightarrow>
          if list_all ok rs then (st', Inl cause)
          else (st', Inl (RalphError ''RALPH_PARALLEL_PRESTART_RELEASE_FAILED'' Exit_operationalError)))"

definition claim_failure :: "failure \<Rightarrow> failure" where
  "claim_failure e =
     (case e of
        RalphError c x \<Rightarrow> RalphError c x
      | _ \<Rightarrow> RalphError ''RALPH_PARALLEL_CLAIM_FAILED'' Exit_operationalError)"

datatype claim_outcome =
    Claimed par_claimed
  | Conflicted par_conflict
  | Fatal failure

text \<open>The body of the loop for one dispatch.\<close>

definition claim_one ::
  "('s, 'v) par_ports \<Rightarrow> (par_candidate \<Rightarrow> nat \<Rightarrow> string) \<Rightarrow> 's \<Rightarrow> par_dispatch \<Rightarrow> 's \<times> claim_outcome" where
  "claim_one P worker st d =
     (let c = pd_candidate d; w = worker c (pd_ordinal d) in
      case pt_reserve P st c w of
        (st1, Inl e) \<Rightarrow> (st1, Fatal e)
      | (st1, Inr (Full scope)) \<Rightarrow>
          (st1, Conflicted \<lparr>px_dispatch = d,
             px_error = RalphError ''RALPH_PARALLEL_CAPACITY_FULL'' Exit_conflict,
             px_capacityScope = Some scope\<rparr>)
      | (st1, Inr (Reserved leaseId)) \<Rightarrow>
          (case pt_acquire P st1 c w of
             (st2, Inr claimSet) \<Rightarrow>
               (st2, Claimed \<lparr>pq_dispatch = d, pq_workerId = w, pq_capacityLeaseId = leaseId,
                  pq_claimSet = claimSet\<rparr>)
           | (st2, Inl e) \<Rightarrow>
               (case pt_releaseCapacity P st2 leaseId (''Resource claim failed for '' @ pc_taskId c) of
                  (st3, Inl _) \<Rightarrow>
                    (st3, Fatal (RalphError ''RALPH_PARALLEL_CAPACITY_RELEASE_FAILED'' Exit_operationalError))
                | (st3, Inr _) \<Rightarrow>
                    if error_code (claim_failure e) \<noteq> Some ''RALPH_RESOURCE_CLAIM_CONFLICT''
                    then (st3, Fatal (claim_failure e))
                    else (st3, Conflicted \<lparr>px_dispatch = d, px_error = claim_failure e,
                            px_capacityScope = None\<rparr>))))"

fun claim_loop ::
  "('s, 'v) par_ports \<Rightarrow> (par_candidate \<Rightarrow> nat \<Rightarrow> string) \<Rightarrow> 's \<Rightarrow> par_claimed list \<Rightarrow>
   par_conflict list \<Rightarrow> par_dispatch list \<Rightarrow> 's \<times> (par_claimed list \<times> par_conflict list) result" where
  "claim_loop P worker st claimed conflicts [] = (st, Inr (claimed, conflicts))"
| "claim_loop P worker st claimed conflicts (d # ds) =
     (case claim_one P worker st d of
        (st', Claimed c) \<Rightarrow> claim_loop P worker st' (claimed @ [c]) conflicts ds
      | (st', Conflicted x) \<Rightarrow> claim_loop P worker st' claimed (conflicts @ [x]) ds
      | (st', Fatal e) \<Rightarrow> releaseClaimedAfterFatalError P st' claimed e)"

definition claimParallelDispatches ::
  "('s, 'v) par_ports \<Rightarrow> (par_candidate \<Rightarrow> nat \<Rightarrow> string) \<Rightarrow> 's \<Rightarrow> par_selection \<Rightarrow>
   's \<times> (par_claimed list \<times> par_conflict list) result" where
  "claimParallelDispatches P worker st selection = claim_loop P worker st [] [] (ps_dispatches selection)"

section \<open>The workers of a wave\<close>

text \<open>
  A worker is observed as started, executes, and is observed as settled; an error of the execution
  or of that observation is caught, and settles the worker as interrupted. It rejects only when an
  observation rejects where nothing catches it.
\<close>

datatype 'v worker_phase =
    W_new
  | W_started
  | W_ran "'v worker_result"
  | W_caught failure
  | W_done "'v worker_result"
  | W_rejected failure

definition interrupted_result :: "par_claimed \<Rightarrow> failure \<Rightarrow> 'v worker_result" where
  "interrupted_result d e =
     (let c = pd_candidate (pq_dispatch d) in
      \<lparr>wr_terminal = \<lparr>wt_taskId = pc_taskId c, wt_attemptId = pc_attemptId c,
         wt_outcome = Out_interrupted, wt_failureCount = pc_failureCount c + 1\<rparr>,
       wr_value = None, wr_error = Some e\<rparr>)"

fun worker_step ::
  "('s, 'v) par_ports \<Rightarrow> par_claimed \<Rightarrow> 's \<Rightarrow> 'v worker_phase \<Rightarrow> 's \<times> 'v worker_phase" where
  "worker_step P d st W_new =
     (case pt_observe P st (Obs_worker_started d) of
        (st', Inl e) \<Rightarrow> (st', W_rejected e) | (st', Inr _) \<Rightarrow> (st', W_started))"
| "worker_step P d st W_started =
     (case pt_execute P st d of
        (st', Inl e) \<Rightarrow> (st', W_caught e) | (st', Inr r) \<Rightarrow> (st', W_ran r))"
| "worker_step P d st (W_ran r) =
     (case pt_observe P st (Obs_worker_settled d (wt_outcome (wr_terminal r)) None) of
        (st', Inl e) \<Rightarrow> (st', W_caught e) | (st', Inr _) \<Rightarrow> (st', W_done r))"
| "worker_step P d st (W_caught e) =
     (case pt_observe P st (Obs_worker_settled d Out_interrupted (Some e)) of
        (st', Inl e') \<Rightarrow> (st', W_rejected e') | (st', Inr _) \<Rightarrow> (st', W_done (interrupted_result d e)))"
| "worker_step P d st (W_done r) = (st, W_done r)"
| "worker_step P d st (W_rejected e) = (st, W_rejected e)"

definition advance ::
  "('s, 'v) par_ports \<Rightarrow> par_claimed list \<Rightarrow> nat \<Rightarrow> 's \<times> 'v worker_phase list \<Rightarrow> 's \<times> 'v worker_phase list" where
  "advance P ds i w =
     (case w of (st, phases) \<Rightarrow>
        if i < length ds
        then (case worker_step P (ds ! i) st (phases ! i) of (st', ph) \<Rightarrow> (st', phases[i := ph]))
        else (st, phases))"

text \<open>
  \<^verbatim>\<open>Promise.allSettled\<close>: the workers whose numbers \<open>order\<close> lists make a step in turn; then
  all of them run to their end, for which four steps each are enough.
\<close>

definition settle_workers ::
  "('s, 'v) par_ports \<Rightarrow> nat list \<Rightarrow> 's \<Rightarrow> par_claimed list \<Rightarrow> 's \<times> 'v worker_phase list" where
  "settle_workers P order st ds =
     fold (advance P ds) (order @ concat (replicate 4 [0 ..< length ds]))
       (st, map (\<lambda>_. W_new) ds)"

fun rejection :: "'v worker_phase \<Rightarrow> failure option" where
  "rejection (W_rejected e) = Some e"
| "rejection _ = None"

fun settled_result :: "'v worker_phase \<Rightarrow> 'v worker_result list" where
  "settled_result (W_done r) = [r]"
| "settled_result _ = []"

section \<open>Waves\<close>

record 'v wave_progress =
  wp_started :: nat
  wp_waves :: nat
  wp_failureObserved :: bool
  wp_draining :: bool
  wp_terminals :: "'v worker_result list"
  wp_claimConflicts :: nat
  wp_reason :: string

text \<open>\<^verbatim>\<open>a.localeCompare(b) || c.localeCompare(d)\<close>, as the order of the sort.\<close>

definition result_le :: "(string \<Rightarrow> string \<Rightarrow> bool) \<Rightarrow> 'v worker_result \<Rightarrow> 'v worker_result \<Rightarrow> bool" where
  "result_le collate a b =
     (let s = wr_terminal a; t = wr_terminal b in
      if collate (wt_taskId s) (wt_taskId t) \<and> collate (wt_taskId t) (wt_taskId s)
      then collate (wt_attemptId s) (wt_attemptId t)
      else collate (wt_taskId s) (wt_taskId t))"

fun join_texts :: "string \<Rightarrow> string list \<Rightarrow> string" where
  "join_texts sep [] = []"
| "join_texts sep [x] = x"
| "join_texts sep (x # y # ys) = x @ sep @ join_texts sep (y # ys)"

definition deferred_reason :: "(par_candidate \<times> eligibility) list \<Rightarrow> string" where
  "deferred_reason deferred =
     (if deferred = [] then ''No incomplete parallel task remains''
      else join_texts ''; ''
        (map (\<lambda>(c, e). case e of
                Eligible \<Rightarrow> ''Task '' @ pc_taskId c @ '' was deferred after eligibility selection''
              | Ineligible _ why \<Rightarrow> why) deferred))"

fun observe_conflicts :: "('s, 'v) par_ports \<Rightarrow> 's \<Rightarrow> par_conflict list \<Rightarrow> 's \<times> unit result" where
  "observe_conflicts P st [] = (st, Inr ())"
| "observe_conflicts P st (x # xs) =
     st_then (pt_observe P st (Obs_claim_conflict x)) (\<lambda>st' _. observe_conflicts P st' xs)"

text \<open>The capacity of a wave: what the dispatch limit leaves.\<close>

definition wave_capacity :: "par_capacity \<Rightarrow> int \<Rightarrow> par_capacity" where
  "wave_capacity k left =
     k\<lparr>pk_maximumGlobal := min (pk_maximumGlobal k) left,
       pk_maximumProject := min (pk_maximumProject k) left\<rparr>"

text \<open>From the started workers to the end of the wave; the boolean says whether the loop goes on.\<close>

definition run_claimed ::
  "('s, 'v) par_ports \<Rightarrow> (string \<Rightarrow> string \<Rightarrow> bool) \<Rightarrow> par_policy \<Rightarrow> (nat \<Rightarrow> nat list) \<Rightarrow> 's \<Rightarrow>
   'v wave_progress \<Rightarrow> par_claimed list \<Rightarrow> 's \<times> ('v wave_progress \<times> bool) result" where
  "run_claimed P collate policy order st p claimed =
     (let waves = wp_waves p + 1 in
      case settle_workers P (order waves) st claimed of
        (st1, phases) \<Rightarrow>
          if \<not> list_all (\<lambda>ph. rejection ph = None) phases
          then (st1, Inl (RalphError ''RALPH_PARALLEL_WORKER_SETTLEMENT_FAILED'' Exit_operationalError))
          else
            (let ordered = sort_by (result_le collate) (concat (map settled_result phases));
                 p1 = p\<lparr>wp_started := wp_started p + length claimed, wp_waves := waves,
                        wp_failureObserved := wp_failureObserved p \<or>
                          list_ex (\<lambda>r. wt_outcome (wr_terminal r) \<noteq> Out_completed) ordered,
                        wp_terminals := wp_terminals p @ ordered\<rparr>
             in
             case pt_integrate P st1 ordered of
               (st2, integration) \<Rightarrow>
                 (case release_bundles P
                         (\<lambda>d. ''Parallel worker '' @ pq_workerId d @ '' and its integration boundary settled'')
                         st2 claimed of
                    (st3, rs) \<Rightarrow>
                      if \<not> list_all ok rs
                      then (st3, Inl (RalphError ''RALPH_PARALLEL_RESOURCE_RELEASE_FAILED'' Exit_operationalError))
                      else
                        st_then (st3, integration) (\<lambda>st _.
                        st_then (pt_observe P st (Obs_integration_settled
                                   (map (\<lambda>r. wt_taskId (wr_terminal r)) ordered))) (\<lambda>st _.
                        if wp_failureObserved p1 \<and> pp_failFast policy
                        then (st, Inr (p1\<lparr>wp_draining := True,
                          wp_reason := ''A worker failed; active workers settled and fail-fast stopped new dispatch''\<rparr>,
                          False))
                        else (st, Inr (p1\<lparr>wp_reason := ''Parallel wave '' @ decimal waves @ '' settled '' @
                          decimal (length ordered) @ '' worker(s)''\<rparr>, True)))))))"

text \<open>One turn of the loop.\<close>

definition run_wave ::
  "('s, 'v) par_ports \<Rightarrow> (string \<Rightarrow> string \<Rightarrow> bool) \<Rightarrow> par_policy \<Rightarrow> int \<Rightarrow>
   (par_candidate \<Rightarrow> nat \<Rightarrow> string) \<Rightarrow> (nat \<Rightarrow> nat list) \<Rightarrow> 's \<Rightarrow> 'v wave_progress \<Rightarrow>
   's \<times> ('v wave_progress \<times> bool) result" where
  "run_wave P collate policy maximum worker order st p =
     st_then (pt_snapshot P st) (\<lambda>st snap.
     case selectParallelDispatches collate (sw_candidates snap) (sw_completedTaskIds snap) policy
            (wave_capacity (sw_capacity snap) (maximum - int (wp_started p))) (wp_failureObserved p) of
       Inl e \<Rightarrow> (st, Inl e)
     | Inr selection \<Rightarrow>
         st_then (pt_observe P st (Obs_wave_selected (length (ps_dispatches selection))
                    (length (ps_deferred selection)) (ps_draining selection))) (\<lambda>st _.
         if ps_draining selection then
           (let why = (case ps_reason selection of
                         None \<Rightarrow> ''Fail-fast is draining active workers'' | Some r \<Rightarrow> r) in
            st_then (pt_observe P st (Obs_draining why)) (\<lambda>st _.
            (st, Inr (p\<lparr>wp_draining := True, wp_reason := why\<rparr>, False))))
         else if ps_dispatches selection = [] then
           (st, Inr (p\<lparr>wp_reason := deferred_reason (ps_deferred selection)\<rparr>, False))
         else
           st_then (claimParallelDispatches P worker st selection) (\<lambda>st (claimed, conflicts).
           st_then (observe_conflicts P st conflicts) (\<lambda>st _.
           (let p1 = p\<lparr>wp_claimConflicts := wp_claimConflicts p + length conflicts\<rparr> in
            if claimed = [] then
              (st, Inr (p1\<lparr>wp_reason :=
                 ''Every selected worker was deferred by a durable capacity or resource claim''\<rparr>, False))
            else run_claimed P collate policy order st p1 claimed)))))"

lemma run_claimed_started:
  "run_claimed P collate policy order st p claimed = (st', Inr (p', go)) \<Longrightarrow>
   wp_started p' = wp_started p + length claimed"
  by (auto simp: run_claimed_def Let_def elim!: st_then_cases split: prod.splits if_splits)

lemma run_wave_started:
  "run_wave P collate policy maximum worker order st p = (st', Inr (p', True)) \<Longrightarrow>
   wp_started p < wp_started p'"
  by (auto simp: run_wave_def Let_def elim!: st_then_cases dest!: run_claimed_started
      split: sum.splits prod.splits if_splits)

function run_waves ::
  "('s, 'v) par_ports \<Rightarrow> (string \<Rightarrow> string \<Rightarrow> bool) \<Rightarrow> par_policy \<Rightarrow> int \<Rightarrow>
   (par_candidate \<Rightarrow> nat \<Rightarrow> string) \<Rightarrow> (nat \<Rightarrow> nat list) \<Rightarrow> 's \<Rightarrow> 'v wave_progress \<Rightarrow>
   's \<times> 'v wave_progress result" where
  "run_waves P collate policy maximum worker order st p =
     (if int (wp_started p) < maximum then
        (case run_wave P collate policy maximum worker order st p of
           (st', Inl e) \<Rightarrow> (st', Inl e)
         | (st', Inr (p', go)) \<Rightarrow>
             if go then run_waves P collate policy maximum worker order st' p' else (st', Inr p'))
      else (st, Inr p))"
  by pat_completeness auto
termination
  by (relation "measure (\<lambda>(P, collate, policy, maximum, worker, order, st, p). nat (maximum - int (wp_started p)))")
     (auto dest!: sym [of _ "run_wave _ _ _ _ _ _ _ _"] run_wave_started)

declare run_waves.simps [simp del]

definition executeParallelWaves ::
  "('s, 'v) par_ports \<Rightarrow> (string \<Rightarrow> string \<Rightarrow> bool) \<Rightarrow> par_policy \<Rightarrow> int \<Rightarrow>
   (par_candidate \<Rightarrow> nat \<Rightarrow> string) \<Rightarrow> (nat \<Rightarrow> nat list) \<Rightarrow> 's \<Rightarrow> 's \<times> 'v wave_progress result" where
  "executeParallelWaves P collate policy maximumDispatches worker order st =
     (if \<not> safe_int maximumDispatches \<or> maximumDispatches < 1
      then (st, Inl (RalphError ''RALPH_PARALLEL_DISPATCH_LIMIT_INVALID'' Exit_invalidUsage))
      else run_waves P collate policy maximumDispatches worker order st
        \<lparr>wp_started = 0, wp_waves = 0, wp_failureObserved = False, wp_draining = False,
         wp_terminals = [], wp_claimConflicts = 0,
         wp_reason = ''No parallel task was eligible''\<rparr>)"


section \<open>Facts on the workers of a wave\<close>

fun steps_left :: "'v worker_phase \<Rightarrow> nat" where
  "steps_left W_new = 4"
| "steps_left W_started = 3"
| "steps_left (W_ran r) = 2"
| "steps_left (W_caught e) = 1"
| "steps_left (W_done r) = 0"
| "steps_left (W_rejected e) = 0"

lemma worker_step_progress: "worker_step P d st ph = (st', ph') \<Longrightarrow> steps_left ph' \<le> steps_left ph - 1"
  by (cases ph) (auto split: prod.splits sum.splits)

lemma advance_length: "advance P ds i (st, phases) = (st', phases') \<Longrightarrow> length phases' = length phases"
  by (auto simp: advance_def split: if_splits prod.splits)

lemma advance_steps_left:
  assumes "advance P ds i (st, phases) = (st', phases')" and "length phases = length ds" and "j < length ds"
  shows "steps_left (phases' ! j) \<le> steps_left (phases ! j) - (if i = j then 1 else 0)"
proof (cases "i < length ds")
  case True
  obtain st1 ph where s: "worker_step P (ds ! i) st (phases ! i) = (st1, ph)"
    by (cases "worker_step P (ds ! i) st (phases ! i)")
  then have "phases' = phases[i := ph]"
    using assms(1) True by (simp add: advance_def)
  then show ?thesis
    using worker_step_progress [OF s] assms(2,3) by (auto simp: nth_list_update)
next
  case False
  then show ?thesis
    using assms by (auto simp: advance_def)
qed

lemma advances_steps_left:
  "fold (advance P ds) order (st, phases) = (st', phases') \<Longrightarrow> length phases = length ds \<Longrightarrow> j < length ds \<Longrightarrow>
   length phases' = length ds \<and> steps_left (phases' ! j) \<le> steps_left (phases ! j) - count_list order j"
proof (induction order arbitrary: st phases)
  case Nil
  then show ?case by simp
next
  case (Cons i order)
  obtain st1 phases1 where a: "advance P ds i (st, phases) = (st1, phases1)"
    by (cases "advance P ds i (st, phases)")
  have "fold (advance P ds) order (st1, phases1) = (st', phases')"
    using Cons.prems(1) by (simp add: a)
  then have "length phases' = length ds \<and>
      steps_left (phases' ! j) \<le> steps_left (phases1 ! j) - count_list order j"
    using Cons.IH advance_length [OF a] Cons.prems(2,3) by simp
  moreover have "steps_left (phases1 ! j) \<le> steps_left (phases ! j) - (if i = j then 1 else 0)"
    by (rule advance_steps_left [OF a Cons.prems(2,3)])
  ultimately show ?case
    by (auto split: if_splits)
qed

lemma count_upt: "count_list [0 ..< n] j = (if j < n then 1 else 0)"
  by (induction n) auto

lemma settle_workers_final:
  assumes "settle_workers P order st ds = (st', phases)"
  shows "length phases = length ds \<and> list_all (\<lambda>ph. steps_left ph = 0) phases"
proof -
  have count: "4 \<le> count_list (order @ concat (replicate 4 [0 ..< length ds])) j" if "j < length ds" for j
    using that by (simp add: eval_nat_numeral count_upt)
  have len: "length phases = length ds"
  proof (cases "ds = []")
    case True
    have "fold (advance P []) xs (s, []) = (s, [])" for xs and s :: 'a
      by (induction xs) (simp_all add: advance_def)
    then show ?thesis
      using assms True by (simp add: settle_workers_def)
  next
    case False
    then show ?thesis
      using advances_steps_left [OF assms [unfolded settle_workers_def], of 0] by simp
  qed
  have "steps_left (phases ! j) = 0" if "j < length ds" for j
    using advances_steps_left [OF assms [unfolded settle_workers_def], of j] count [OF that] that by simp
  then show ?thesis
    using len by (simp add: list_all_length)
qed

lemma settled_results_length:
  "list_all (\<lambda>ph. steps_left ph = 0) phases \<Longrightarrow> list_all (\<lambda>ph. rejection ph = None) phases \<Longrightarrow>
   length (concat (map settled_result phases)) = length phases"
proof (induction phases)
  case Nil
  then show ?case by simp
next
  case (Cons ph phases)
  then show ?case by (cases ph) simp_all
qed

section \<open>Facts on claiming and on waves\<close>

lemma release_lengths:
  "release_claims P why st ds = (st', rs) \<Longrightarrow> length rs = length ds"
  "release_capacity P why st ds = (st', rs) \<Longrightarrow> length rs = length ds"
  by (induction ds arbitrary: st rs) (auto split: prod.splits)

lemma fatal_Inl: "releaseClaimedAfterFatalError P st claimed cause = (st', r) \<Longrightarrow> \<exists>e. r = Inl e"
  by (auto simp: releaseClaimedAfterFatalError_def split: prod.splits if_splits)

lemma claim_loop_length:
  "claim_loop P worker st claimed conflicts ds = (st', Inr (claimed', conflicts')) \<Longrightarrow>
   length claimed' + length conflicts' = length claimed + length conflicts + length ds"
proof (induction ds arbitrary: st claimed conflicts)
  case Nil
  then show ?case by simp
next
  case (Cons d ds)
  obtain st1 q where one: "claim_one P worker st d = (st1, q)" by (cases "claim_one P worker st d")
  show ?case
  proof (cases q)
    case (Fatal e)
    then show ?thesis
      using Cons.prems one fatal_Inl [of P st1 claimed e st'] by fastforce
  qed (use Cons one in fastforce)+
qed

text \<open>What holds of the progress between two turns of the loop.\<close>

definition progress_ok :: "int \<Rightarrow> 'v wave_progress \<Rightarrow> bool" where
  "progress_ok maximum p \<longleftrightarrow>
     int (wp_started p) \<le> maximum \<and> wp_waves p \<le> wp_started p \<and>
     length (wp_terminals p) = wp_started p \<and>
     (wp_failureObserved p \<longleftrightarrow> (\<exists>r \<in> set (wp_terminals p). wt_outcome (wr_terminal r) \<noteq> Out_completed))"

lemma run_claimed_ok:
  assumes run: "run_claimed P collate policy order st p claimed = (st', Inr (p', go))"
    and p: "progress_ok maximum p" and left: "int (length claimed) \<le> maximum - int (wp_started p)"
    and "claimed \<noteq> []"
  shows "progress_ok maximum p' \<and> (go \<longrightarrow> \<not> (wp_failureObserved p' \<and> pp_failFast policy)) \<and>
    (pp_failFast policy \<and> wp_failureObserved p' \<longrightarrow> wp_draining p')"
proof -
  let ?w = "wp_waves p + 1"
  obtain st1 phases where s: "settle_workers P (order ?w) st claimed = (st1, phases)"
    by (cases "settle_workers P (order ?w) st claimed")
  let ?rs = "concat (map settled_result phases)"
  let ?ordered = "sort_by (result_le collate) ?rs"
  let ?p1 = "p\<lparr>wp_started := wp_started p + length claimed, wp_waves := ?w,
               wp_failureObserved := wp_failureObserved p \<or>
                 list_ex (\<lambda>r. wt_outcome (wr_terminal r) \<noteq> Out_completed) ?ordered,
               wp_terminals := wp_terminals p @ ?ordered\<rparr>"
  have none: "list_all (\<lambda>ph. rejection ph = None) phases"
    and same: "wp_started p' = wp_started ?p1" "wp_waves p' = wp_waves ?p1"
      "wp_failureObserved p' = wp_failureObserved ?p1" "wp_terminals p' = wp_terminals ?p1"
    and go: "wp_draining p' \<and> \<not> go \<or> \<not> (wp_failureObserved ?p1 \<and> pp_failFast policy)"
    using run s
    by (auto simp: run_claimed_def Let_def elim!: st_then_cases split: prod.splits if_splits)
  have "length ?rs = length claimed"
    using settled_results_length [OF _ none] settle_workers_final [OF s] by simp
  then have "progress_ok maximum ?p1"
    using p left \<open>claimed \<noteq> []\<close>
    by (cases claimed) (auto simp: progress_ok_def list_ex_iff)
  then have "progress_ok maximum p'"
    unfolding progress_ok_def same by simp
  then show ?thesis
    using go same(3) by blast
qed

lemma run_wave_ok:
  assumes run: "run_wave P collate policy maximum worker order st p = (st', Inr (p', go))"
    and p: "progress_ok maximum p" "\<not> (wp_failureObserved p \<and> pp_failFast policy)"
  shows "progress_ok maximum p' \<and> (go \<longrightarrow> \<not> (wp_failureObserved p' \<and> pp_failFast policy)) \<and>
    (pp_failFast policy \<and> wp_failureObserved p' \<longrightarrow> wp_draining p')"
proof -
  have same: "?thesis" if "wp_started p' = wp_started p" "wp_waves p' = wp_waves p"
      "wp_terminals p' = wp_terminals p" "wp_failureObserved p' = wp_failureObserved p" "\<not> go"
    using that p by (auto simp: progress_ok_def)
  obtain st1 snap where snap: "pt_snapshot P st = (st1, Inr snap)"
    using run by (auto simp: run_wave_def elim!: st_then_cases)
  let ?k = "wave_capacity (sw_capacity snap) (maximum - int (wp_started p))"
  obtain selection where sel: "selectParallelDispatches collate (sw_candidates snap)
      (sw_completedTaskIds snap) policy ?k (wp_failureObserved p) = Inr selection"
    using run snap by (auto simp: run_wave_def split: sum.splits)
  obtain st2 where obs: "pt_observe P st1 (Obs_wave_selected (length (ps_dispatches selection))
                    (length (ps_deferred selection)) (ps_draining selection)) = (st2, Inr ())"
    using run snap sel by (auto simp: run_wave_def elim!: st_then_cases)
  have drain: "\<not> ps_draining selection"
    using selection_cases [OF sel] p(2) by blast
  show ?thesis
  proof (cases "ps_dispatches selection = []")
    case True
    then have "p' = p\<lparr>wp_reason := deferred_reason (ps_deferred selection)\<rparr>" "\<not> go"
      using run snap sel obs drain by (simp_all add: run_wave_def)
    then show ?thesis by (intro same) simp_all
  next
    case False
    obtain st3 claimed conflicts where cl: "claimParallelDispatches P worker st2 selection =
        (st3, Inr (claimed, conflicts))"
      using run snap sel obs drain False by (auto simp: run_wave_def elim!: st_then_cases)
    obtain st4 where oc: "observe_conflicts P st3 conflicts = (st4, Inr ())"
      using run snap sel obs drain False cl by (auto simp: run_wave_def elim!: st_then_cases)
    let ?p1 = "p\<lparr>wp_claimConflicts := wp_claimConflicts p + length conflicts\<rparr>"
    show ?thesis
    proof (cases "claimed = []")
      case True
      then have "p' = ?p1\<lparr>wp_reason :=
          ''Every selected worker was deferred by a durable capacity or resource claim''\<rparr>" "\<not> go"
        using run snap sel obs drain False cl oc by (simp_all add: run_wave_def)
      then show ?thesis by (intro same) simp_all
    next
      case some: False
      have rc: "run_claimed P collate policy order st4 ?p1 claimed = (st', Inr (p', go))"
        using run snap sel obs drain False cl oc some by (simp add: run_wave_def)
      have "int (length (ps_dispatches selection)) \<le> max 0 (maximum - int (wp_started p))"
      proof -
        obtain cs rest where loop: "select_loop (sw_completedTaskIds snap) policy ?k 0 cs =
            (ps_dispatches selection, rest)"
          using dispatches_of_loop [OF sel] by blast
        have "mutableCapacity ?k = Inr ?k"
          using sel p(2) by (auto simp: selectParallelDispatches_def result_simps dest: mutableCapacity_Inr)
        then have "0 \<le> pk_activeGlobal ?k"
          using mutableCapacity_Inr by blast
        moreover have "pk_maximumGlobal ?k \<le> maximum - int (wp_started p)"
          by (simp add: wave_capacity_def)
        ultimately show ?thesis
          using global_scope.select_loop_bound [OF loop] by simp
      qed
      moreover have "length claimed \<le> length (ps_dispatches selection)"
        using claim_loop_length [OF cl [unfolded claimParallelDispatches_def]] by simp
      moreover have "progress_ok maximum ?p1"
        using p(1) by (simp add: progress_ok_def)
      moreover have "int (wp_started p) \<le> maximum"
        using p(1) by (simp add: progress_ok_def)
      ultimately show ?thesis
        using run_claimed_ok [OF rc _ _ some] by simp
    qed
  qed
qed

lemma run_waves_ok:
  "run_waves P collate policy maximum worker order st p = (st', Inr p') \<Longrightarrow> progress_ok maximum p \<Longrightarrow>
   \<not> (wp_failureObserved p \<and> pp_failFast policy) \<Longrightarrow>
   progress_ok maximum p' \<and> (pp_failFast policy \<and> wp_failureObserved p' \<longrightarrow> wp_draining p')"
proof (induction P collate policy maximum worker order st p rule: run_waves.induct)
  case (1 P collate policy maximum worker order st p)
  show ?case
  proof (cases "int (wp_started p) < maximum")
    case False
    then show ?thesis
      using "1.prems" by (auto simp: run_waves.simps)
  next
    case True
    obtain st1 q where w: "run_wave P collate policy maximum worker order st p = (st1, q)"
      by (cases "run_wave P collate policy maximum worker order st p")
    show ?thesis
    proof (cases q)
      case (Inl e)
      then show ?thesis
        using "1.prems"(1) True w by (simp add: run_waves.simps [of P])
    next
      case (Inr r)
      obtain p1 go where r: "r = (p1, go)" by (cases r)
      note ok = run_wave_ok [OF w [unfolded Inr r] "1.prems"(2,3)]
      show ?thesis
      proof (cases go)
        case False
        then show ?thesis
          using "1.prems"(1) True w Inr r ok by (simp add: run_waves.simps [of P])
      next
        case go: True
        have "run_waves P collate policy maximum worker order st1 p1 = (st', Inr p')"
          using "1.prems"(1) True w Inr r go by (simp add: run_waves.simps [of P _ _ _ _ _ st])
        then show ?thesis
          using "1.IH" [OF True w [symmetric] Inr r [symmetric] go] ok go by simp
      qed
    qed
  qed
qed


section \<open>The reservation contract\<close>

text \<open>Observers that never reject.\<close>

definition observes :: "('s, 'v) par_ports \<Rightarrow> bool" where
  "observes P \<longleftrightarrow> (\<forall>st ob. ok (snd (pt_observe P st ob)))"

lemma observesD: "observes P \<Longrightarrow> pt_observe P st ob = (st', u) \<Longrightarrow> \<exists>x. u = Inr x"
  by (metis observes_def ok_iff snd_conv)

lemma worker_step_unrejected:
  "observes P \<Longrightarrow> worker_step P d st ph = (st', ph') \<Longrightarrow> rejection ph = None \<Longrightarrow> rejection ph' = None"
  by (cases ph) (auto split: prod.splits sum.splits dest: observesD)

lemma advances_unrejected:
  "observes P \<Longrightarrow> fold (advance P ds) order (st, phases) = (st', phases') \<Longrightarrow>
   length phases = length ds \<Longrightarrow> list_all (\<lambda>ph. rejection ph = None) phases \<Longrightarrow>
   list_all (\<lambda>ph. rejection ph = None) phases'"
proof (induction order arbitrary: st phases)
  case Nil
  then show ?case by simp
next
  case (Cons i order)
  obtain st1 phases1 where a: "advance P ds i (st, phases) = (st1, phases1)"
    by (cases "advance P ds i (st, phases)")
  have "list_all (\<lambda>ph. rejection ph = None) phases1"
  proof (cases "i < length ds")
    case True
    obtain st2 ph where s: "worker_step P (ds ! i) st (phases ! i) = (st2, ph)"
      by (cases "worker_step P (ds ! i) st (phases ! i)")
    have "rejection ph = None"
      using worker_step_unrejected [OF Cons.prems(1) s] Cons.prems(3,4) True by (simp add: list_all_length)
    then show ?thesis
      using a s True Cons.prems(3,4) by (auto simp: advance_def list_all_length nth_list_update)
  next
    case False
    then show ?thesis
      using a Cons.prems(4) by (simp add: advance_def)
  qed
  moreover have "fold (advance P ds) order (st1, phases1) = (st', phases')"
    using Cons.prems(2) a by simp
  ultimately show ?case
    using Cons.IH advance_length [OF a] Cons.prems(1,3) by simp
qed

lemma settle_workers_unrejected:
  "observes P \<Longrightarrow> settle_workers P order st ds = (st', phases) \<Longrightarrow>
   list_all (\<lambda>ph. rejection ph = None) phases"
  unfolding settle_workers_def
  using advances_unrejected [of P ds "order @ concat (replicate 4 [0 ..< length ds])" st "map (\<lambda>_. W_new) ds"]
  by (simp add: list_all_iff)

text \<open>
  The contract between the runner and its ports. \<open>bundles\<close> are the capacity leases and \<open>sets\<close>
  the claim sets the ports hold for this process: a reservation and an acquisition add what they
  return, a release removes what it names even when it rejects, and nothing else touches them. From it:
  a wave holds nothing beyond its end, and an aborted preparation gives back what it took.
\<close>

definition claimed_leases :: "par_claimed list \<Rightarrow> string set" where
  "claimed_leases ds = pq_capacityLeaseId ` set ds"

definition claimed_sets :: "par_claimed list \<Rightarrow> string set" where
  "claimed_sets ds = (\<lambda>d. st_id (fst (pq_claimSet d))) ` set ds"

lemma claimed_simps [simp]:
  "claimed_leases [] = {}" "claimed_sets [] = {}"
  "claimed_leases (ds @ es) = claimed_leases ds \<union> claimed_leases es"
  "claimed_sets (ds @ es) = claimed_sets ds \<union> claimed_sets es"
  "claimed_leases (d # ds) = insert (pq_capacityLeaseId d) (claimed_leases ds)"
  "claimed_sets (d # ds) = insert (st_id (fst (pq_claimSet d))) (claimed_sets ds)"
  "claimed_leases (rev ds) = claimed_leases ds" "claimed_sets (rev ds) = claimed_sets ds"
  by (auto simp: claimed_leases_def claimed_sets_def)

locale reservations =
  fixes P :: "('s, 'v) par_ports"
    and bundles :: "'s \<Rightarrow> string set"
    and sets :: "'s \<Rightarrow> string set"
  assumes reserve: "pt_reserve P st c w = (st', r) \<Longrightarrow>
      bundles st' = (case r of Inr (Reserved i) \<Rightarrow> insert i (bundles st) | _ \<Rightarrow> bundles st) \<and>
      sets st' = sets st"
    and give_back: "pt_releaseCapacity P st i why = (st', u) \<Longrightarrow>
      bundles st' = bundles st - {i} \<and> sets st' = sets st"
    and take: "pt_acquire P st c w = (st', a) \<Longrightarrow>
      bundles st' = bundles st \<and>
      sets st' = (case a of Inr s \<Rightarrow> insert (st_id (fst s)) (sets st) | Inl _ \<Rightarrow> sets st)"
    and drop_set: "pt_releaseClaims P st s why = (st', u) \<Longrightarrow>
      bundles st' = bundles st \<and> sets st' = sets st - {st_id (fst s)}"
    and snapshot: "pt_snapshot P st = (st', n) \<Longrightarrow> bundles st' = bundles st \<and> sets st' = sets st"
    and observe: "pt_observe P st ob = (st', u) \<Longrightarrow> bundles st' = bundles st \<and> sets st' = sets st"
    and execute: "pt_execute P st d = (st', x) \<Longrightarrow> bundles st' = bundles st \<and> sets st' = sets st"
    and integrate: "pt_integrate P st rs = (st', u) \<Longrightarrow> bundles st' = bundles st \<and> sets st' = sets st"
begin

lemma release_claims_held:
  "release_claims P why st ds = (st', rs) \<Longrightarrow>
   bundles st' = bundles st \<and> sets st' = sets st - claimed_sets ds"
proof (induction ds arbitrary: st rs)
  case Nil
  then show ?case by simp
next
  case (Cons d ds)
  obtain st1 r where r: "pt_releaseClaims P st (pq_claimSet d) (why d) = (st1, r)"
    by (cases "pt_releaseClaims P st (pq_claimSet d) (why d)")
  obtain qs where "release_claims P why st1 ds = (st', qs)"
    using Cons.prems r by (auto split: prod.splits)
  from Cons.IH [OF this] drop_set [OF r] show ?case by auto
qed

lemma release_capacity_held:
  "release_capacity P why st ds = (st', rs) \<Longrightarrow>
   bundles st' = bundles st - claimed_leases ds \<and> sets st' = sets st"
proof (induction ds arbitrary: st rs)
  case Nil
  then show ?case by simp
next
  case (Cons d ds)
  obtain st1 r where r: "pt_releaseCapacity P st (pq_capacityLeaseId d) (why d) = (st1, r)"
    by (cases "pt_releaseCapacity P st (pq_capacityLeaseId d) (why d)")
  obtain qs where "release_capacity P why st1 ds = (st', qs)"
    using Cons.prems r by (auto split: prod.splits)
  from Cons.IH [OF this] give_back [OF r] show ?case by auto
qed

lemma release_bundles_held:
  "release_bundles P why st ds = (st', rs) \<Longrightarrow>
   bundles st' = bundles st - claimed_leases ds \<and> sets st' = sets st - claimed_sets ds"
  by (auto simp: release_bundles_def split: prod.splits dest!: release_claims_held release_capacity_held)

lemma fatal_held:
  "releaseClaimedAfterFatalError P st ds cause = (st', r) \<Longrightarrow>
   bundles st' = bundles st - claimed_leases ds \<and> sets st' = sets st - claimed_sets ds"
  by (auto simp: releaseClaimedAfterFatalError_def split: prod.splits if_splits
      dest!: release_bundles_held)

lemma claim_one_held:
  assumes "claim_one P worker st d = (st', q)"
  shows "case q of
      Claimed c \<Rightarrow> bundles st' = insert (pq_capacityLeaseId c) (bundles st) \<and>
        sets st' = insert (st_id (fst (pq_claimSet c))) (sets st)
    | _ \<Rightarrow> bundles st' \<subseteq> bundles st \<and> sets st' = sets st"
proof -
  let ?c = "pd_candidate d" and ?w = "worker (pd_candidate d) (pd_ordinal d)"
  obtain st1 r where r: "pt_reserve P st ?c ?w = (st1, r)" by (cases "pt_reserve P st ?c ?w")
  note h1 = reserve [OF r]
  show ?thesis
  proof (cases "\<exists>i. r = Inr (Reserved i)")
    case False
    then show ?thesis
      using assms r h1 by (cases r) (auto simp: claim_one_def Let_def split: reserve_outcome.splits)
  next
    case True
    then obtain i where i: "r = Inr (Reserved i)" by blast
    obtain st2 a where a: "pt_acquire P st1 ?c ?w = (st2, a)" by (cases "pt_acquire P st1 ?c ?w")
    note h2 = take [OF a]
    show ?thesis
    proof (cases a)
      case (Inr s)
      then show ?thesis
        using assms r i a h1 h2 by (auto simp: claim_one_def Let_def)
    next
      case (Inl e)
      let ?why = "''Resource claim failed for '' @ pc_taskId ?c"
      obtain st3 u where u: "pt_releaseCapacity P st2 i ?why = (st3, u)"
        by (cases "pt_releaseCapacity P st2 i ?why")
      have "st' = st3 \<and> (\<forall>c. q \<noteq> Claimed c)"
        using assms r i a Inl u by (cases u) (auto simp: claim_one_def Let_def split: if_splits)
      then show ?thesis
        using give_back [OF u] h1 h2 i Inl by (cases q) auto
    qed
  qed
qed

lemma claim_loop_held:
  "claim_loop P worker st claimed conflicts ds = (st', r) \<Longrightarrow>
   bundles st \<subseteq> B \<union> claimed_leases claimed \<Longrightarrow> sets st \<subseteq> S \<union> claimed_sets claimed \<Longrightarrow>
   (case r of
      Inl e \<Rightarrow> bundles st' \<subseteq> B \<and> sets st' \<subseteq> S
    | Inr (claimed', _) \<Rightarrow>
        bundles st' \<subseteq> B \<union> claimed_leases claimed' \<and> sets st' \<subseteq> S \<union> claimed_sets claimed')"
proof (induction ds arbitrary: st claimed conflicts)
  case Nil
  then show ?case by auto
next
  case (Cons d ds)
  obtain st1 q where one: "claim_one P worker st d = (st1, q)" by (cases "claim_one P worker st d")
  note h = claim_one_held [OF one]
  show ?case
  proof (cases q)
    case (Claimed c)
    have "claim_loop P worker st1 (claimed @ [c]) conflicts ds = (st', r)"
      using Cons.prems(1) one Claimed by simp
    then show ?thesis
      by (rule Cons.IH) (use h Claimed Cons.prems(2,3) in auto)
  next
    case (Conflicted x)
    have "claim_loop P worker st1 claimed (conflicts @ [x]) ds = (st', r)"
      using Cons.prems(1) one Conflicted by simp
    then show ?thesis
      by (rule Cons.IH) (use h Conflicted Cons.prems(2,3) in auto)
  next
    case (Fatal e)
    then have f: "releaseClaimedAfterFatalError P st1 claimed e = (st', r)"
      using Cons.prems(1) one by simp
    obtain e' where "r = Inl e'"
      using fatal_Inl [OF f] by blast
    then show ?thesis
      using fatal_held [OF f] h Fatal Cons.prems(2,3) by auto
  qed
qed

lemma worker_step_held:
  "worker_step P d st ph = (st', ph') \<Longrightarrow> bundles st' = bundles st \<and> sets st' = sets st"
  by (cases ph) (auto split: prod.splits sum.splits dest: observe execute)

lemma advances_held:
  "fold (advance P ds) order (st, phases) = (st', phases') \<Longrightarrow>
   bundles st' = bundles st \<and> sets st' = sets st"
proof (induction order arbitrary: st phases)
  case Nil
  then show ?case by simp
next
  case (Cons i order)
  obtain st1 phases1 where a: "advance P ds i (st, phases) = (st1, phases1)"
    by (cases "advance P ds i (st, phases)")
  have "bundles st1 = bundles st \<and> sets st1 = sets st"
    using a by (auto simp: advance_def split: if_splits prod.splits dest: worker_step_held)
  moreover have "fold (advance P ds) order (st1, phases1) = (st', phases')"
    using Cons.prems a by simp
  ultimately show ?case
    using Cons.IH by simp
qed

lemma settle_workers_held:
  "settle_workers P order st ds = (st', phases) \<Longrightarrow> bundles st' = bundles st \<and> sets st' = sets st"
  unfolding settle_workers_def by (rule advances_held)

lemma observe_conflicts_held:
  "observe_conflicts P st xs = (st', u) \<Longrightarrow> bundles st' = bundles st \<and> sets st' = sets st"
proof (induction xs arbitrary: st)
  case Nil
  then show ?case by simp
next
  case (Cons x xs)
  from Cons.prems show ?case
    by (auto elim!: st_then_cases dest!: Cons.IH observe)
qed

lemma run_claimed_held:
  assumes run: "run_claimed P collate policy order st p claimed = (st', r)"
    and "bundles st \<subseteq> B \<union> claimed_leases claimed" and "sets st \<subseteq> S \<union> claimed_sets claimed"
    and fine: "ok r \<or> observes P"
  shows "bundles st' \<subseteq> B \<and> sets st' \<subseteq> S"
proof -
  let ?o = "order (wp_waves p + 1)"
  let ?why = "\<lambda>d. ''Parallel worker '' @ pq_workerId d @ '' and its integration boundary settled''"
  obtain st1 phases where s: "settle_workers P ?o st claimed = (st1, phases)"
    by (cases "settle_workers P ?o st claimed")
  let ?ordered = "sort_by (result_le collate) (concat (map settled_result phases))"
  have none: "list_all (\<lambda>ph. rejection ph = None) phases"
  proof (rule ccontr)
    assume not: "\<not> list_all (\<lambda>ph. rejection ph = None) phases"
    then have "\<not> ok r"
      using run s by (auto simp: run_claimed_def Let_def)
    then show False
      using fine settle_workers_unrejected [OF _ s] not by blast
  qed
  obtain st2 q where i: "pt_integrate P st1 ?ordered = (st2, q)" by (cases "pt_integrate P st1 ?ordered")
  obtain st3 rs where rel: "release_bundles P ?why st2 claimed = (st3, rs)"
    by (cases "release_bundles P ?why st2 claimed")
  have h3: "bundles st3 \<subseteq> B \<and> sets st3 \<subseteq> S"
    using release_bundles_held [OF rel] integrate [OF i] settle_workers_held [OF s] assms(2,3) by auto
  have "bundles st' = bundles st3 \<and> sets st' = sets st3"
    using run s none i rel
    by (auto simp: run_claimed_def Let_def elim!: st_then_cases split: if_splits dest: observe)
  then show ?thesis
    using h3 by simp
qed

text \<open>A worker that cannot be observed keeps the reservations of its wave.\<close>

lemma rejected_worker_keeps_reservations:
  "run_claimed P collate policy order st p claimed = (st', r) \<Longrightarrow>
   settle_workers P (order (wp_waves p + 1)) st claimed = (st1, phases) \<Longrightarrow>
   \<not> list_all (\<lambda>ph. rejection ph = None) phases \<Longrightarrow>
   bundles st' = bundles st \<and> sets st' = sets st \<and>
   r = Inl (RalphError ''RALPH_PARALLEL_WORKER_SETTLEMENT_FAILED'' Exit_operationalError)"
  by (auto simp: run_claimed_def Let_def dest: settle_workers_held)

lemma run_wave_held:
  assumes run: "run_wave P collate policy maximum worker order st p = (st', r)"
    and fine: "ok r \<or> observes P"
  shows "bundles st' \<subseteq> bundles st \<and> sets st' \<subseteq> sets st"
proof -
  obtain st1 n where sn: "pt_snapshot P st = (st1, n)" by (cases "pt_snapshot P st")
  note h1 = snapshot [OF sn]
  show ?thesis
  proof (cases n)
    case (Inl e)
    then show ?thesis
      using run sn h1 by (simp add: run_wave_def)
  next
    case snap: (Inr snap)
    let ?sel = "selectParallelDispatches collate (sw_candidates snap) (sw_completedTaskIds snap) policy
            (wave_capacity (sw_capacity snap) (maximum - int (wp_started p))) (wp_failureObserved p)"
    show ?thesis
    proof (cases ?sel)
      case (Inl e)
      then show ?thesis
        using run sn h1 snap by (simp add: run_wave_def)
    next
      case sel: (Inr s)
      let ?ob = "Obs_wave_selected (length (ps_dispatches s)) (length (ps_deferred s)) (ps_draining s)"
      obtain st2 u where ob: "pt_observe P st1 ?ob = (st2, u)" by (cases "pt_observe P st1 ?ob")
      note h2 = observe [OF ob]
      show ?thesis
      proof (cases "ok u \<and> \<not> ps_draining s \<and> ps_dispatches s \<noteq> []")
        case False
        then have "bundles st' = bundles st2 \<and> sets st' = sets st2"
          using run sn snap sel ob
          by (auto simp: run_wave_def Let_def ok_def elim!: st_then_cases split: if_splits sum.splits
              dest!: observe)
        then show ?thesis
          using h1 h2 by simp
      next
        case True
        then obtain v where u: "u = Inr v" by (auto simp: ok_iff)
        obtain st3 c where cl: "claimParallelDispatches P worker st2 s = (st3, c)"
          by (cases "claimParallelDispatches P worker st2 s")
        note h3 = claim_loop_held [OF cl [unfolded claimParallelDispatches_def],
            of "bundles st" "sets st"]
        show ?thesis
        proof (cases c)
          case (Inl e)
          then show ?thesis
            using run sn snap sel ob u True cl h1 h2 h3 by (simp add: run_wave_def)
        next
          case c: (Inr cc)
          obtain claimed conflicts where cc: "cc = (claimed, conflicts)" by (cases cc)
          obtain st4 w where oc: "observe_conflicts P st3 conflicts = (st4, w)"
            by (cases "observe_conflicts P st3 conflicts")
          note h4 = observe_conflicts_held [OF oc]
          have held: "bundles st4 \<subseteq> bundles st \<union> claimed_leases claimed"
              "sets st4 \<subseteq> sets st \<union> claimed_sets claimed"
            using h1 h2 h3 h4 c cc by auto
          show ?thesis
          proof (cases w)
            case (Inl e)
            have "\<not> ok r"
              using run sn snap sel ob u True cl c cc oc Inl by (auto simp: run_wave_def)
            moreover have "\<not> observes P"
              using oc Inl
            proof (induction conflicts arbitrary: st3)
              case (Cons x xs)
              then show ?case
                by (auto elim!: st_then_cases dest: observesD)
            qed simp
            ultimately show ?thesis
              using fine by blast
          next
            case w: (Inr z)
            let ?p1 = "p\<lparr>wp_claimConflicts := wp_claimConflicts p + length conflicts\<rparr>"
            show ?thesis
            proof (cases "claimed = []")
              case True
              then show ?thesis
                using run sn snap sel ob u \<open>ok u \<and> _\<close> cl c cc oc w held by (auto simp: run_wave_def)
            next
              case some: False
              have "run_claimed P collate policy order st4 ?p1 claimed = (st', r)"
                using run sn snap sel ob u True cl c cc oc w some by (simp add: run_wave_def)
              then show ?thesis
                by (rule run_claimed_held [OF _ held fine])
            qed
          qed
        qed
      qed
    qed
  qed
qed

lemma run_waves_held:
  "run_waves P collate policy maximum worker order st p = (st', r) \<Longrightarrow> ok r \<or> observes P \<Longrightarrow>
   bundles st' \<subseteq> bundles st \<and> sets st' \<subseteq> sets st"
proof (induction n \<equiv> "nat (maximum - int (wp_started p))" arbitrary: st p rule: less_induct)
  case less
  show ?case
  proof (cases "int (wp_started p) < maximum")
    case False
    then show ?thesis
      using less.prems(1) by (simp add: run_waves.simps)
  next
    case True
    obtain st1 q where w: "run_wave P collate policy maximum worker order st p = (st1, q)"
      by (cases "run_wave P collate policy maximum worker order st p")
    show ?thesis
    proof (cases q)
      case (Inl e)
      then show ?thesis
        using less.prems True w run_wave_held [OF w] by (auto simp: run_waves.simps [of P])
    next
      case (Inr y)
      obtain p1 go where y: "y = (p1, go)" by (cases y)
      have h: "bundles st1 \<subseteq> bundles st \<and> sets st1 \<subseteq> sets st"
        using run_wave_held [OF w] Inr by simp
      show ?thesis
      proof (cases go)
        case False
        then show ?thesis
          using less.prems(1) True w Inr y h by (simp add: run_waves.simps [of P])
      next
        case go: True
        have next_turn: "run_waves P collate policy maximum worker order st1 p1 = (st', r)"
          using less.prems(1) True w Inr y go by (simp add: run_waves.simps [of P _ _ _ _ _ st])
        have "nat (maximum - int (wp_started p1)) < nat (maximum - int (wp_started p))"
          using run_wave_started [of P collate policy maximum worker order st p st1 p1] w Inr y go True
          by simp
        from less.hyps [OF this next_turn less.prems(2)] h show ?thesis
          by blast
      qed
    qed
  qed
qed

lemma executeParallelWaves_held:
  "executeParallelWaves P collate policy maximum worker order st = (st', r) \<Longrightarrow> ok r \<or> observes P \<Longrightarrow>
   bundles st' \<subseteq> bundles st \<and> sets st' \<subseteq> sets st"
  by (auto simp: executeParallelWaves_def split: if_splits dest: run_waves_held)

end

section \<open>Invariants of successful runs\<close>

text \<open>
  A predicate that every call keeps, a release or a reservation only when it does not reject, holds
  after every run that returns: such a run has seen no rejected release.
\<close>

locale run_invariant =
  fixes P :: "('s, 'v) par_ports"
    and good :: "'s \<Rightarrow> bool"
  assumes reserve: "pt_reserve P st c w = (st', Inr r) \<Longrightarrow> good st \<Longrightarrow> good st'"
    and give_back: "pt_releaseCapacity P st i why = (st', Inr u) \<Longrightarrow> good st \<Longrightarrow> good st'"
    and take: "pt_acquire P st c w = (st', a) \<Longrightarrow> good st \<Longrightarrow> good st'"
    and drop_set: "pt_releaseClaims P st s why = (st', Inr u) \<Longrightarrow> good st \<Longrightarrow> good st'"
    and snapshot: "pt_snapshot P st = (st', n) \<Longrightarrow> good st \<Longrightarrow> good st'"
    and observe: "pt_observe P st ob = (st', v) \<Longrightarrow> good st \<Longrightarrow> good st'"
    and execute: "pt_execute P st d = (st', x) \<Longrightarrow> good st \<Longrightarrow> good st'"
    and integrate: "pt_integrate P st rs = (st', v) \<Longrightarrow> good st \<Longrightarrow> good st'"
begin

lemma release_claims_good:
  "release_claims P why st ds = (st', rs) \<Longrightarrow> list_all ok rs \<Longrightarrow> good st \<Longrightarrow> good st'"
proof (induction ds arbitrary: st rs)
  case Nil
  then show ?case by simp
next
  case (Cons d ds)
  obtain st1 r where r: "pt_releaseClaims P st (pq_claimSet d) (why d) = (st1, r)"
    by (cases "pt_releaseClaims P st (pq_claimSet d) (why d)")
  obtain qs where q: "release_claims P why st1 ds = (st', qs)" "rs = r # qs"
    using Cons.prems r by (auto split: prod.splits)
  then obtain u where "r = Inr u"
    using Cons.prems(2) by (auto simp: ok_iff)
  then show ?case
    using Cons.IH [OF q(1)] Cons.prems(2,3) drop_set r q(2) by simp
qed

lemma release_capacity_good:
  "release_capacity P why st ds = (st', rs) \<Longrightarrow> list_all ok rs \<Longrightarrow> good st \<Longrightarrow> good st'"
proof (induction ds arbitrary: st rs)
  case Nil
  then show ?case by simp
next
  case (Cons d ds)
  obtain st1 r where r: "pt_releaseCapacity P st (pq_capacityLeaseId d) (why d) = (st1, r)"
    by (cases "pt_releaseCapacity P st (pq_capacityLeaseId d) (why d)")
  obtain qs where q: "release_capacity P why st1 ds = (st', qs)" "rs = r # qs"
    using Cons.prems r by (auto split: prod.splits)
  then obtain u where "r = Inr u"
    using Cons.prems(2) by (auto simp: ok_iff)
  then show ?case
    using Cons.IH [OF q(1)] Cons.prems(2,3) give_back r q(2) by simp
qed

lemma combined_ok:
  "length rs = length qs \<Longrightarrow> list_all ok (map2 (\<lambda>r q. case q of Inl e \<Rightarrow> Inl e | Inr _ \<Rightarrow> r) rs qs) \<Longrightarrow>
   list_all ok rs \<and> list_all ok qs"
  by (induction rs qs rule: list_induct2) (auto split: sum.splits)

lemma release_bundles_good:
  assumes "release_bundles P why st ds = (st', rs)" and "list_all ok rs" and "good st"
  shows "good st'"
proof -
  obtain st1 as where a: "release_claims P why st ds = (st1, as)" by (cases "release_claims P why st ds")
  obtain bs where b: "release_capacity P why st1 ds = (st', bs)"
    and rs: "rs = map2 (\<lambda>r q. case q of Inl e \<Rightarrow> Inl e | Inr _ \<Rightarrow> r) as bs"
    using assms(1) a by (auto simp: release_bundles_def split: prod.splits)
  have "list_all ok as \<and> list_all ok bs"
    using combined_ok [of as bs] release_lengths(1) [OF a] release_lengths(2) [OF b] assms(2) rs by simp
  then show ?thesis
    using release_capacity_good [OF b] release_claims_good [OF a] assms(3) by blast
qed

lemma claim_one_good:
  assumes "claim_one P worker st d = (st', q)" and "\<forall>e. q \<noteq> Fatal e" and "good st"
  shows "good st'"
proof -
  let ?c = "pd_candidate d" and ?w = "worker (pd_candidate d) (pd_ordinal d)"
  obtain st1 r where r: "pt_reserve P st ?c ?w = (st1, r)" by (cases "pt_reserve P st ?c ?w")
  then obtain x where x: "r = Inr x"
    using assms(1,2) by (cases r) (auto simp: claim_one_def Let_def)
  have g1: "good st1"
    using reserve r x assms(3) by blast
  show ?thesis
  proof (cases x)
    case (Full scope)
    then show ?thesis
      using assms(1) r x g1 by (auto simp: claim_one_def Let_def)
  next
    case (Reserved i)
    obtain st2 a where a: "pt_acquire P st1 ?c ?w = (st2, a)" by (cases "pt_acquire P st1 ?c ?w")
    have g2: "good st2"
      using take [OF a g1] .
    show ?thesis
    proof (cases a)
      case (Inr s)
      then show ?thesis
        using assms(1) r x Reserved a g2 by (auto simp: claim_one_def Let_def)
    next
      case (Inl e)
      let ?why = "''Resource claim failed for '' @ pc_taskId ?c"
      obtain st3 u where u: "pt_releaseCapacity P st2 i ?why = (st3, u)"
        by (cases "pt_releaseCapacity P st2 i ?why")
      then obtain v where v: "u = Inr v" and st': "st' = st3"
        using assms(1,2) r x Reserved a Inl by (cases u) (auto simp: claim_one_def Let_def split: if_splits)
      then show ?thesis
        using give_back [OF u [unfolded v] g2] by simp
    qed
  qed
qed

lemma claim_loop_good:
  "claim_loop P worker st claimed conflicts ds = (st', Inr r) \<Longrightarrow> good st \<Longrightarrow> good st'"
proof (induction ds arbitrary: st claimed conflicts)
  case Nil
  then show ?case by simp
next
  case (Cons d ds)
  obtain st1 q where one: "claim_one P worker st d = (st1, q)" by (cases "claim_one P worker st d")
  have "\<forall>e. q \<noteq> Fatal e"
    using Cons.prems(1) one fatal_Inl [of P st1 claimed _ st' "Inr r"] by auto
  then have "good st1"
    using claim_one_good [OF one] Cons.prems(2) by blast
  then show ?case
    using Cons.prems(1) one Cons.IH \<open>\<forall>e. q \<noteq> Fatal e\<close> by (cases q) auto
qed

lemma claims_good: "claimParallelDispatches P worker st s = (st', Inr r) \<Longrightarrow> good st \<Longrightarrow> good st'"
  unfolding claimParallelDispatches_def by (rule claim_loop_good)

lemma settle_workers_good: "settle_workers P order st ds = (st', phases) \<Longrightarrow> good st \<Longrightarrow> good st'"
proof -
  have step: "worker_step P d st ph = (st', ph') \<Longrightarrow> good st \<Longrightarrow> good st'" for d st ph st' ph'
    by (cases ph) (auto split: prod.splits sum.splits dest: observe execute)
  have folded: "fold (advance P ds) xs (st, phases) = (st', phases') \<Longrightarrow> good st \<Longrightarrow> good st'"
    for xs st phases phases'
  proof (induction xs arbitrary: st phases)
    case Nil
    then show ?case by simp
  next
    case (Cons i xs)
    obtain st1 phases1 where a: "advance P ds i (st, phases) = (st1, phases1)"
      by (cases "advance P ds i (st, phases)")
    have "good st1"
      using a Cons.prems(2) by (auto simp: advance_def split: if_splits prod.splits dest: step)
    moreover have "fold (advance P ds) xs (st1, phases1) = (st', phases')"
      using Cons.prems(1) a by simp
    ultimately show ?case
      using Cons.IH by blast
  qed
  show "settle_workers P order st ds = (st', phases) \<Longrightarrow> good st \<Longrightarrow> good st'"
    unfolding settle_workers_def by (rule folded)
qed

lemma observe_conflicts_good: "observe_conflicts P st xs = (st', u) \<Longrightarrow> good st \<Longrightarrow> good st'"
proof (induction xs arbitrary: st)
  case Nil
  then show ?case by simp
next
  case (Cons x xs)
  from Cons.prems show ?case
    by (auto elim!: st_then_cases dest: Cons.IH observe)
qed

lemma run_claimed_good:
  assumes run: "run_claimed P collate policy order st p claimed = (st', Inr r)" and "good st"
  shows "good st'"
proof -
  let ?o = "order (wp_waves p + 1)"
  let ?why = "\<lambda>d. ''Parallel worker '' @ pq_workerId d @ '' and its integration boundary settled''"
  obtain st1 phases where s: "settle_workers P ?o st claimed = (st1, phases)"
    by (cases "settle_workers P ?o st claimed")
  let ?ordered = "sort_by (result_le collate) (concat (map settled_result phases))"
  have none: "list_all (\<lambda>ph. rejection ph = None) phases"
    using run s by (auto simp: run_claimed_def Let_def split: if_splits)
  obtain st2 q where i: "pt_integrate P st1 ?ordered = (st2, q)" by (cases "pt_integrate P st1 ?ordered")
  obtain st3 rs where rel: "release_bundles P ?why st2 claimed = (st3, rs)"
    by (cases "release_bundles P ?why st2 claimed")
  have "list_all ok rs"
    using run s none i rel by (auto simp: run_claimed_def Let_def split: if_splits)
  then have "good st3"
    using release_bundles_good [OF rel] integrate [OF i] settle_workers_good [OF s] assms(2) by blast
  then show ?thesis
    using run s none i rel
    by (auto simp: run_claimed_def Let_def elim!: st_then_cases split: if_splits dest: observe)
qed

lemma run_wave_good:
  assumes run: "run_wave P collate policy maximum worker order st p = (st', Inr r)" and "good st"
  shows "good st'"
  using assms
  by (auto simp: run_wave_def Let_def elim!: st_then_cases split: sum.splits prod.splits if_splits
      dest!: snapshot observe claims_good observe_conflicts_good run_claimed_good)

lemma run_waves_good:
  "run_waves P collate policy maximum worker order st p = (st', Inr r) \<Longrightarrow> good st \<Longrightarrow> good st'"
proof (induction n \<equiv> "nat (maximum - int (wp_started p))" arbitrary: st p rule: less_induct)
  case less
  show ?case
  proof (cases "int (wp_started p) < maximum")
    case False
    then show ?thesis
      using less.prems by (simp add: run_waves.simps)
  next
    case True
    obtain st1 p1 go where w: "run_wave P collate policy maximum worker order st p = (st1, Inr (p1, go))"
      using less.prems(1) True by (auto simp: run_waves.simps [of P] split: prod.splits sum.splits)
    have g: "good st1"
      using run_wave_good [OF w less.prems(2)] .
    show ?thesis
    proof (cases go)
      case False
      then show ?thesis
        using less.prems(1) True w g by (simp add: run_waves.simps [of P])
    next
      case go: True
      have next_turn: "run_waves P collate policy maximum worker order st1 p1 = (st', Inr r)"
        using less.prems(1) True w go by (simp add: run_waves.simps [of P _ _ _ _ _ st])
      have "nat (maximum - int (wp_started p1)) < nat (maximum - int (wp_started p))"
        using run_wave_started [of P collate policy maximum worker order st p st1 p1] w go True by simp
      from less.hyps [OF this next_turn g] show ?thesis .
    qed
  qed
qed

lemma executeParallelWaves_good:
  "executeParallelWaves P collate policy maximum worker order st = (st', Inr p) \<Longrightarrow> good st \<Longrightarrow> good st'"
  by (auto simp: executeParallelWaves_def split: if_splits dest: run_waves_good)

end

section \<open>Properties\<close>

text \<open>The loop is left after at most \<open>n\<close> turns.\<close>

fun turns_within ::
  "('s, 'v) par_ports \<Rightarrow> (string \<Rightarrow> string \<Rightarrow> bool) \<Rightarrow> par_policy \<Rightarrow> int \<Rightarrow>
   (par_candidate \<Rightarrow> nat \<Rightarrow> string) \<Rightarrow> (nat \<Rightarrow> nat list) \<Rightarrow> nat \<Rightarrow> 's \<Rightarrow> 'v wave_progress \<Rightarrow> bool" where
  "turns_within P collate policy maximum worker order 0 st p \<longleftrightarrow> maximum \<le> int (wp_started p)"
| "turns_within P collate policy maximum worker order (Suc n) st p \<longleftrightarrow>
     (if int (wp_started p) < maximum then
        (case run_wave P collate policy maximum worker order st p of
           (st', Inr (p', True)) \<Rightarrow> turns_within P collate policy maximum worker order n st' p'
         | _ \<Rightarrow> True)
      else True)"

lemma turns_bounded:
  "maximum \<le> int (wp_started p) + int n \<Longrightarrow> turns_within P collate policy maximum worker order n st p"
proof (induction n arbitrary: st p)
  case 0
  then show ?case by simp
next
  case (Suc n)
  have "turns_within P collate policy maximum worker order n st' p'"
    if "run_wave P collate policy maximum worker order st p = (st', Inr (p', True))" for st' p'
    using run_wave_started [OF that] Suc by simp
  then show ?case
    by (auto split: prod.splits sum.splits bool.splits)
qed

definition start_progress :: "'v wave_progress" where
  "start_progress =
     \<lparr>wp_started = 0, wp_waves = 0, wp_failureObserved = False, wp_draining = False,
      wp_terminals = [], wp_claimConflicts = 0, wp_reason = ''No parallel task was eligible''\<rparr>"

text \<open>Ports over the list of the tasks that are completed.\<close>

definition sample_ports :: "(string list, unit) par_ports" where
  "sample_ports =
     \<lparr>pt_reserve = \<lambda>st c w. (st, Inr (Reserved w)), pt_releaseCapacity = \<lambda>st i why. (st, Inr ()),
      pt_acquire = \<lambda>st c w. (st, Inr (sample_set w, [])), pt_releaseClaims = \<lambda>st s why. (st, Inr ()),
      pt_snapshot = \<lambda>st. (st, Inr
        \<lparr>sw_candidates = filter (\<lambda>c. \<not> List.member st (pc_taskId c)) sample_candidates,
         sw_completedTaskIds = st, sw_capacity = sample_capacity\<lparr>pk_activeGlobal := 0\<rparr>\<rparr>),
      pt_observe = \<lambda>st ob. (st, Inr ()),
      pt_execute = \<lambda>st d. (pc_taskId (pd_candidate (pq_dispatch d)) # st, Inr
        \<lparr>wr_terminal = \<lparr>wt_taskId = pc_taskId (pd_candidate (pq_dispatch d)), wt_attemptId = ''t'',
           wt_outcome = Out_completed, wt_failureCount = 0\<rparr>, wr_value = None, wr_error = None\<rparr>),
      pt_integrate = \<lambda>st rs. (st, Inr ())\<rparr>"

definition sample_run :: "string list \<times> unit wave_progress result" where
  "sample_run =
     executeParallelWaves sample_ports sample_collate sample_policy 3 (\<lambda>c n. pc_taskId c)
       (\<lambda>n. [1, 0]) [''z'']"

lemma sample_run_ends:
  "fst sample_run = [''b'', ''e'', ''a'', ''z''] \<and>
   (case snd sample_run of
      Inl _ \<Rightarrow> False
    | Inr p \<Rightarrow> wp_started p = 3 \<and> wp_waves p = 2 \<and>
        map (\<lambda>r. wt_taskId (wr_terminal r)) (wp_terminals p) = [''a'', ''e'', ''b''] \<and>
        list_all (\<lambda>r. wt_outcome (wr_terminal r) = Out_completed) (wp_terminals p))"
  by code_simp

text \<open>
  C31. Parallel execution is bounded: whatever the ports do and however the workers interleave, the
  loop ends after at most as many turns as dispatches are allowed; a run that returns has started
  at most that many workers, in no more waves than workers, has one terminal result for each worker
  it started, observed a failure exactly when one of them did not complete, and then drains under
  fail-fast.
\<close>

theorem parallel_execution_is_bounded:
  assumes "executeParallelWaves P collate policy maximum worker order st = (st', Inr p)"
  shows "turns_within P collate policy maximum worker order (nat maximum) st start_progress \<and>
    int (wp_started p) \<le> maximum \<and> wp_waves p \<le> wp_started p \<and>
    length (wp_terminals p) = wp_started p \<and>
    (wp_failureObserved p \<longleftrightarrow> (\<exists>r \<in> set (wp_terminals p). wt_outcome (wr_terminal r) \<noteq> Out_completed)) \<and>
    (pp_failFast policy \<and> wp_failureObserved p \<longrightarrow> wp_draining p)"
proof -
  have pos: "0 < maximum" and run: "run_waves P collate policy maximum worker order st start_progress = (st', Inr p)"
    using assms by (auto simp: executeParallelWaves_def start_progress_def split: if_splits)
  have "progress_ok maximum (start_progress :: 'b wave_progress)"
    using pos by (simp add: progress_ok_def start_progress_def)
  from run_waves_ok [OF run this] turns_bounded [of maximum "start_progress :: 'b wave_progress" "nat maximum"] pos
  show ?thesis
    by (simp add: progress_ok_def start_progress_def)
qed

theorem parallel_execution_is_bounded_witness:
  "\<exists>p. snd sample_run = Inr p \<and> length (wp_terminals p) = wp_started p \<and> \<not> wp_failureObserved p"
proof -
  obtain p where p: "snd sample_run = Inr p"
    using sample_run_ends by (cases "snd sample_run") simp_all
  then have "list_all (\<lambda>r. wt_outcome (wr_terminal r) = Out_completed) (wp_terminals p)"
    using sample_run_ends by simp
  moreover have "executeParallelWaves sample_ports sample_collate sample_policy 3 (\<lambda>c n. pc_taskId c)
      (\<lambda>n. [1, 0]) [''z''] = (fst sample_run, Inr p)"
    using p by (simp add: sample_run_def prod_eq_iff)
  ultimately show ?thesis
    using parallel_execution_is_bounded p by (fastforce simp: list_all_iff)
qed

end
