(* ===== verification/ParallelPorts.thy ===== *)
theory ParallelPorts
  imports ParallelRun
begin

text \<open>
  \<^verbatim>\<open>packages/orchestration/src/parallel-capacity.ts\<close> and
  \<^verbatim>\<open>packages/orchestration/src/parallel-claims.ts\<close>: the ports of the parallel runner over
  the lease and claim ledgers, and the release of both around the run in
  \<^verbatim>\<open>runner.ts\<close>. The state holds the global capacity ledger, the project ledger (leases
  and claims), the two in-memory maps of what this process holds, and the caller's own state. The
  clock, the random identifiers, the surroundings of each lease acquisition, the renewal timers
  that fire and what others commit to the ledgers while the caller's code runs are functions of
  the number of turns so far. What the caller does inside its own ports is a script over those
  ports' ownership calls.
\<close>

section \<open>Configuration and state\<close>

record port_config =
  kc_workspaceId :: string
  kc_maximumGlobal :: int
  kc_maximumProject :: int
  kc_maximumByProvider :: "(string \<times> int) list"
  kc_maximumByModel :: "(string \<times> int) list"
  kc_owner :: lease_owner
  kc_claimOwnerInstanceId :: string

datatype ledger_place = Global_ledger | Project_ledger

record capacity_lease =
  kl_place :: ledger_place
  kl_record :: lease

record capacity_bundle =
  bu_leases :: "capacity_lease list"
  bu_renewalFailure :: "failure option"

record owned_set =
  ow_record :: set_record
  ow_owner :: claim_owner
  ow_renewalFailure :: "failure option"

record 'u par_world =
  pw_global :: lease_db
  pw_project :: lease_db
  pw_claims :: claim_db
  pw_bundles :: "(string \<times> capacity_bundle) list"
  pw_owned :: "(string \<times> owned_set) list"
  pw_turn :: nat
  pw_user :: 'u

datatype timer = Timer_bundle string | Timer_set string

record par_env =
  ev_win :: bool
  ev_collate :: "string \<Rightarrow> string \<Rightarrow> bool"
  ev_attempts :: "nat \<Rightarrow> nat \<Rightarrow> attempt_env"
  ev_now :: "nat \<Rightarrow> int"
  ev_uuid :: "nat \<Rightarrow> string"
  ev_claimIds :: "nat \<Rightarrow> nat \<Rightarrow> string"
  ev_timers :: "nat \<Rightarrow> timer list"
  ev_otherLeases :: "nat \<Rightarrow> ledger_place \<Rightarrow> lease_db \<Rightarrow> lease_db"
  ev_otherClaims :: "nat \<Rightarrow> claim_db \<Rightarrow> claim_db"

fun ledger_of :: "ledger_place \<Rightarrow> 'u par_world \<Rightarrow> lease_db" where
  "ledger_of Global_ledger st = pw_global st"
| "ledger_of Project_ledger st = pw_project st"

text \<open>Storing a ledger after a call on it: the next call is the next turn.\<close>

fun put_ledger :: "ledger_place \<Rightarrow> lease_db \<Rightarrow> 'u par_world \<Rightarrow> 'u par_world" where
  "put_ledger Global_ledger db st = st\<lparr>pw_global := db, pw_turn := pw_turn st + 1\<rparr>"
| "put_ledger Project_ledger db st = st\<lparr>pw_project := db, pw_turn := pw_turn st + 1\<rparr>"

text \<open>The claim operations see the leases of the project ledger.\<close>

definition claim_view :: "'u par_world \<Rightarrow> claim_db" where
  "claim_view st = (pw_claims st)\<lparr>cd_leases := ld_leases (pw_project st)\<rparr>"

definition put_claims :: "claim_db \<Rightarrow> 'u par_world \<Rightarrow> 'u par_world" where
  "put_claims db st = st\<lparr>pw_claims := db, pw_turn := pw_turn st + 1\<rparr>"

section \<open>Capacity\<close>

definition GLOBAL_CAPACITY_WORKSPACE_ID :: string where
  "GLOBAL_CAPACITY_WORKSPACE_ID = ''ralph-global-parallel-capacity-v1''"

definition positive_limit :: "int \<Rightarrow> int result" where
  "positive_limit v =
     (if \<not> safe_int v \<or> v < 1 \<or> 1024 < v
      then Inl (RalphError ''RALPH_PARALLEL_LIMIT_INVALID'' Exit_invalidUsage) else Inr v)"

text \<open>\<^verbatim>\<open>encodeURIComponent\<close>: the bytes of the UTF-8 form, but for the unreserved characters.\<close>

definition uri_plain :: "char \<Rightarrow> bool" where
  "uri_plain c \<longleftrightarrow>
     (let n = (of_char c :: nat) in
      65 \<le> n \<and> n \<le> 90 \<or> 97 \<le> n \<and> n \<le> 122 \<or> 48 \<le> n \<and> n \<le> 57 \<or>
      n \<in> {45, 95, 46, 33, 126, 42, 39, 40, 41})"

definition hex_digit :: "nat \<Rightarrow> char" where
  "hex_digit n = char_of (if n < 10 then 48 + n else 55 + n)"

definition percent :: "nat \<Rightarrow> string" where
  "percent n = [CHR ''%'', hex_digit (n div 16), hex_digit (n mod 16)]"

definition encode_char :: "char \<Rightarrow> string" where
  "encode_char c =
     (let n = (of_char c :: nat) in
      if uri_plain c then [c] else if n < 128 then percent n
      else percent (192 + n div 64) @ percent (128 + n mod 64))"

definition encodeURIComponent :: "string \<Rightarrow> string" where
  "encodeURIComponent s = concat (map encode_char s)"

definition safeKey :: "string \<Rightarrow> string result" where
  "safeKey value =
     (let normalized = js_lower (js_trim value) in
      if normalized = [] \<or> 512 < length normalized \<or>
         list_ex (\<lambda>c. (of_char c :: nat) \<in> {0, 10, 13}) normalized
      then Inl (RalphError ''RALPH_PARALLEL_CAPACITY_KEY_INVALID'' Exit_invalidUsage)
      else Inr (encodeURIComponent normalized))"

definition limitFor :: "(string \<times> int) list \<Rightarrow> string \<Rightarrow> string option \<Rightarrow> int option result" where
  "limitFor limits exact fallback =
     (case (case map_of limits exact of
              Some v \<Rightarrow> Some v
            | None \<Rightarrow> (case fallback of
                         None \<Rightarrow> None
                       | Some f \<Rightarrow> if f = [] then None else map_of limits f)) of
        None \<Rightarrow> Inr None
      | Some v \<Rightarrow> and_then (positive_limit v) (\<lambda>m. Inr (Some m)))"

definition isLeaseConflict :: "failure \<Rightarrow> bool" where
  "isLeaseConflict e =
     (case e of RalphError c _ \<Rightarrow> c = ''RALPH_LEASE_CONFLICT'' | _ \<Rightarrow> False)"

definition createDurableParallelCapacityPort :: "port_config \<Rightarrow> port_config result" where
  "createDurableParallelCapacityPort cfg =
     and_then (positive_limit (kc_maximumGlobal cfg)) (\<lambda>_.
     and_then (positive_limit (kc_maximumProject cfg)) (\<lambda>_. Inr cfg))"

record capacity_slot =
  sl_scope :: capacity_scope_name
  sl_place :: ledger_place
  sl_workspaceId :: string
  sl_namespace :: string
  sl_maximum :: int

definition slot_key :: "string \<Rightarrow> nat \<Rightarrow> string" where
  "slot_key namespace ordinal = ''parallel-capacity/'' @ namespace @ ''/'' @ decimal ordinal"

definition slot_input :: "port_config \<Rightarrow> capacity_slot \<Rightarrow> string \<Rightarrow> string \<Rightarrow> nat \<Rightarrow> acquire_input" where
  "slot_input cfg slot runId workerId ordinal =
     \<lparr>ai_owner = kc_owner cfg, ai_id = None, ai_kind = Worker_lease,
      ai_resourceKey = slot_key (sl_namespace slot) ordinal, ai_workspaceId = sl_workspaceId slot,
      ai_runId = Some runId, ai_workerId = Some workerId,
      ai_command = ''ralph parallel capacity'',
      ai_scope = [''parallel:execute'', ''parallel:capacity:'' @ sl_namespace slot],
      ai_parentRunId = None, ai_parentWorkerId = None, ai_leaseDurationMs = 30000,
      ai_staleGraceMs = 20000, ai_staleProbeConfirmations = Some 2,
      ai_staleProbeIntervalMs = Some 250\<rparr>"

text \<open>
  The loop over the ordinals: \<open>n\<close> of them left, the next one \<open>ordinal\<close>. An acquisition never
  returns \<open>Retry\<close>.
\<close>

fun acquire_slots ::
  "par_env \<Rightarrow> port_config \<Rightarrow> capacity_slot \<Rightarrow> string \<Rightarrow> string \<Rightarrow> nat \<Rightarrow> nat \<Rightarrow> 'u par_world \<Rightarrow>
   'u par_world \<times> capacity_lease option result" where
  "acquire_slots env cfg slot runId workerId 0 ordinal st = (st, Inr None)"
| "acquire_slots env cfg slot runId workerId (Suc n) ordinal st =
     (case acquireDurableLease (ledger_of (sl_place slot) st)
             (slot_input cfg slot runId workerId ordinal) True (ev_attempts env (pw_turn st)) of
        (db, r) \<Rightarrow>
          (let st' = put_ledger (sl_place slot) db st in
           case r of
             Inr (Acquired l _ _) \<Rightarrow> (st', Inr (Some \<lparr>kl_place = sl_place slot, kl_record = l\<rparr>))
           | Inr Retry \<Rightarrow> (st', Inl leaseConflict)
           | Inl e \<Rightarrow>
               if isLeaseConflict e
               then acquire_slots env cfg slot runId workerId n (Suc ordinal) st'
               else (st', Inl e)))"

definition acquireSlot ::
  "par_env \<Rightarrow> port_config \<Rightarrow> capacity_slot \<Rightarrow> string \<Rightarrow> string \<Rightarrow> 'u par_world \<Rightarrow>
   'u par_world \<times> capacity_lease option result" where
  "acquireSlot env cfg slot runId workerId st =
     acquire_slots env cfg slot runId workerId (nat (sl_maximum slot)) 1 st"

text \<open>Every lease is tried; the failures are collected.\<close>

fun release_each ::
  "par_env \<Rightarrow> port_config \<Rightarrow> capacity_lease list \<Rightarrow> 'u par_world \<Rightarrow> 'u par_world \<times> failure list" where
  "release_each env cfg [] st = (st, [])"
| "release_each env cfg (l # ls) st =
     (case releaseDurableLease (ledger_of (kl_place l) st) (l_id (kl_record l)) (kc_owner cfg)
             (ev_now env (pw_turn st)) of
        Inl e \<Rightarrow>
          (case release_each env cfg ls (put_ledger (kl_place l) (ledger_of (kl_place l) st) st) of
             (st', es) \<Rightarrow> (st', e # es))
      | Inr (db, _) \<Rightarrow> release_each env cfg ls (put_ledger (kl_place l) db st))"

definition releaseLeases ::
  "par_env \<Rightarrow> port_config \<Rightarrow> capacity_lease list \<Rightarrow> 'u par_world \<Rightarrow> 'u par_world \<times> unit result" where
  "releaseLeases env cfg leases st =
     (case release_each env cfg (rev leases) st of
        (st', es) \<Rightarrow>
          if es = [] then (st', Inr ())
          else (st', Inl (RalphError ''RALPH_PARALLEL_CAPACITY_RELEASE_FAILED'' Exit_operationalError)))"

definition capacity_slots :: "port_config \<Rightarrow> par_candidate \<Rightarrow> capacity_slot list result" where
  "capacity_slots cfg c =
     and_then (limitFor (kc_maximumByProvider cfg) (pc_providerId c) None) (\<lambda>providerLimit.
     and_then (limitFor (kc_maximumByModel cfg) (modelCapacityKey c) (Some (pc_modelId c))) (\<lambda>modelLimit.
     and_then (case providerLimit of
                 None \<Rightarrow> Inr []
               | Some m \<Rightarrow> and_then (safeKey (pc_providerId c)) (\<lambda>k.
                   Inr [\<lparr>sl_scope = Scope_provider, sl_place = Global_ledger,
                         sl_workspaceId = GLOBAL_CAPACITY_WORKSPACE_ID,
                         sl_namespace = ''provider/'' @ k, sl_maximum = m\<rparr>])) (\<lambda>ps.
     and_then (case modelLimit of
                 None \<Rightarrow> Inr []
               | Some m \<Rightarrow> and_then (safeKey (modelCapacityKey c)) (\<lambda>k.
                   Inr [\<lparr>sl_scope = Scope_model, sl_place = Global_ledger,
                         sl_workspaceId = GLOBAL_CAPACITY_WORKSPACE_ID,
                         sl_namespace = ''model/'' @ k, sl_maximum = m\<rparr>])) (\<lambda>ms.
     Inr ([\<lparr>sl_scope = Scope_global, sl_place = Global_ledger,
            sl_workspaceId = GLOBAL_CAPACITY_WORKSPACE_ID, sl_namespace = ''global'',
            sl_maximum = kc_maximumGlobal cfg\<rparr>,
           \<lparr>sl_scope = Scope_project, sl_place = Project_ledger,
            sl_workspaceId = kc_workspaceId cfg, sl_namespace = ''project'',
            sl_maximum = kc_maximumProject cfg\<rparr>] @ ps @ ms)))))"

text \<open>The leases taken so far are returned in any case, with the scope that was full.\<close>

fun acquire_scopes ::
  "par_env \<Rightarrow> port_config \<Rightarrow> par_candidate \<Rightarrow> string \<Rightarrow> capacity_lease list \<Rightarrow> capacity_slot list \<Rightarrow>
   'u par_world \<Rightarrow> 'u par_world \<times> capacity_lease list \<times> capacity_scope_name option result" where
  "acquire_scopes env cfg c w leases [] st = (st, leases, Inr None)"
| "acquire_scopes env cfg c w leases (slot # slots) st =
     (case acquireSlot env cfg slot (pc_runId c) w st of
        (st', Inl e) \<Rightarrow> (st', leases, Inl e)
      | (st', Inr None) \<Rightarrow> (st', leases, Inr (Some (sl_scope slot)))
      | (st', Inr (Some l)) \<Rightarrow> acquire_scopes env cfg c w (leases @ [l]) slots st')"

text \<open>
  A full scope releases inside the \<^verbatim>\<open>try\<close>: when that throws, the handler releases once
  more.
\<close>

definition reserve ::
  "par_env \<Rightarrow> port_config \<Rightarrow> 'u par_world \<Rightarrow> par_candidate \<Rightarrow> string \<Rightarrow> 'u par_world \<times> reserve_outcome result" where
  "reserve env cfg st c w =
     (case capacity_slots cfg c of
        Inl e \<Rightarrow> (st, Inl e)
      | Inr slots \<Rightarrow>
          (case acquire_scopes env cfg c w [] slots st of
             (st1, leases, Inl e) \<Rightarrow>
               (case releaseLeases env cfg leases st1 of
                  (st2, Inl e') \<Rightarrow> (st2, Inl e') | (st2, Inr _) \<Rightarrow> (st2, Inl e))
           | (st1, leases, Inr (Some scope)) \<Rightarrow>
               (case releaseLeases env cfg leases st1 of
                  (st2, Inr _) \<Rightarrow> (st2, Inr (Full scope))
                | (st2, Inl e) \<Rightarrow>
                    (case releaseLeases env cfg leases st2 of
                       (st3, Inl e') \<Rightarrow> (st3, Inl e') | (st3, Inr _) \<Rightarrow> (st3, Inl e)))
           | (st1, leases, Inr None) \<Rightarrow>
               (let i = ev_uuid env (pw_turn st1) in
                (st1\<lparr>pw_bundles := AList.update i \<lparr>bu_leases = leases, bu_renewalFailure = None\<rparr> (pw_bundles st1),
                     pw_turn := pw_turn st1 + 1\<rparr>,
                 Inr (Reserved i)))))"

definition releaseBundle ::
  "par_env \<Rightarrow> port_config \<Rightarrow> 'u par_world \<Rightarrow> string \<Rightarrow> 'u par_world \<times> unit result" where
  "releaseBundle env cfg st leaseId =
     (case map_of (pw_bundles st) leaseId of
        None \<Rightarrow> (st, Inr ())
      | Some b \<Rightarrow>
          releaseLeases env cfg (bu_leases b) (st\<lparr>pw_bundles := AList.delete leaseId (pw_bundles st)\<rparr>))"

text \<open>Renewing and asserting go through the leases and stop at the first failure.\<close>

fun renew_leases ::
  "par_env \<Rightarrow> port_config \<Rightarrow> capacity_lease list \<Rightarrow> 'u par_world \<Rightarrow>
   'u par_world \<times> capacity_lease list \<times> failure option" where
  "renew_leases env cfg [] st = (st, [], None)"
| "renew_leases env cfg (l # ls) st =
     (case renewDurableLease (ledger_of (kl_place l) st) (l_id (kl_record l)) (kc_owner cfg) 30000 20000
             (ev_now env (pw_turn st)) of
        Inl e \<Rightarrow> (put_ledger (kl_place l) (ledger_of (kl_place l) st) st, l # ls, Some e)
      | Inr (db, r) \<Rightarrow>
          (case renew_leases env cfg ls (put_ledger (kl_place l) db st) of
             (st', ls', f) \<Rightarrow> (st', l\<lparr>kl_record := r\<rparr> # ls', f)))"

fun assert_leases ::
  "par_env \<Rightarrow> port_config \<Rightarrow> capacity_lease list \<Rightarrow> 'u par_world \<Rightarrow> capacity_lease list \<times> failure option" where
  "assert_leases env cfg [] st = ([], None)"
| "assert_leases env cfg (l # ls) st =
     (case assertDurableLeaseOwned (ledger_of (kl_place l) st) (l_id (kl_record l)) (kc_owner cfg)
             (ev_now env (pw_turn st)) of
        Inl e \<Rightarrow> (l # ls, Some e)
      | Inr r \<Rightarrow> (case assert_leases env cfg ls st of (ls', f) \<Rightarrow> (l\<lparr>kl_record := r\<rparr> # ls', f)))"

text \<open>A bundle whose renewal failed has no timer any more.\<close>

definition renewBundle :: "par_env \<Rightarrow> port_config \<Rightarrow> string \<Rightarrow> 'u par_world \<Rightarrow> 'u par_world" where
  "renewBundle env cfg leaseId st =
     (case map_of (pw_bundles st) leaseId of
        None \<Rightarrow> st
      | Some b \<Rightarrow>
          if bu_renewalFailure b \<noteq> None then st
          else
            (case renew_leases env cfg (bu_leases b) st of
               (st', ls, f) \<Rightarrow>
                 st'\<lparr>pw_bundles := AList.update leaseId \<lparr>bu_leases = ls, bu_renewalFailure = f\<rparr> (pw_bundles st')\<rparr>))"

definition assertCapacityOwned ::
  "par_env \<Rightarrow> port_config \<Rightarrow> 'u par_world \<Rightarrow> string \<Rightarrow> 'u par_world \<times> unit result" where
  "assertCapacityOwned env cfg st leaseId =
     (case map_of (pw_bundles st) leaseId of
        None \<Rightarrow> (st, Inl (RalphError ''RALPH_PARALLEL_CAPACITY_LOST'' Exit_conflict))
      | Some b \<Rightarrow>
          (case bu_renewalFailure b of
             Some e \<Rightarrow> (st, Inl e)
           | None \<Rightarrow>
               (case assert_leases env cfg (bu_leases b) st of
                  (ls, f) \<Rightarrow>
                    (st\<lparr>pw_bundles := AList.update leaseId (b\<lparr>bu_leases := ls\<rparr>) (pw_bundles st),
                        pw_turn := pw_turn st + 1\<rparr>,
                     case f of None \<Rightarrow> Inr () | Some e \<Rightarrow> Inl e))))"

text \<open>Every bundle is released; the first failure is thrown.\<close>

fun release_all_bundles ::
  "par_env \<Rightarrow> port_config \<Rightarrow> string list \<Rightarrow> 'u par_world \<Rightarrow> 'u par_world \<times> unit result" where
  "release_all_bundles env cfg [] st = (st, Inr ())"
| "release_all_bundles env cfg (i # is) st =
     (case releaseBundle env cfg st i of
        (st1, r) \<Rightarrow>
          (case release_all_bundles env cfg is st1 of
             (st2, q) \<Rightarrow> (st2, case r of Inl e \<Rightarrow> Inl e | Inr _ \<Rightarrow> q)))"

definition releaseAllCapacity ::
  "par_env \<Rightarrow> port_config \<Rightarrow> 'u par_world \<Rightarrow> 'u par_world \<times> unit result" where
  "releaseAllCapacity env cfg st = release_all_bundles env cfg (map fst (pw_bundles st)) st"

section \<open>Claims\<close>

text \<open>The owner of a worker's claims: the process of the port, and the worker.\<close>

definition claim_owner_of :: "port_config \<Rightarrow> string \<Rightarrow> claim_owner" where
  "claim_owner_of cfg w =
     \<lparr>co_ownerInstanceId = kc_claimOwnerInstanceId cfg, co_workerId = w,
      co_pid = lo_pid (kc_owner cfg), co_processStartToken = lo_processStartToken (kc_owner cfg),
      co_hostname = lo_hostname (kc_owner cfg)\<rparr>"

definition claim_request :: "par_env \<Rightarrow> port_config \<Rightarrow> 'u par_world \<Rightarrow> par_candidate \<Rightarrow> string \<Rightarrow> claim_input" where
  "claim_request env cfg st c w =
     \<lparr>ci_owner = claim_owner_of cfg w,
      ci_id = Some (''claims-'' @ take 430 (pc_attemptId c) @ ''-'' @ ev_uuid env (pw_turn st)),
      ci_workspaceId = kc_workspaceId cfg, ci_runId = pc_runId c, ci_documentId = pc_documentId c,
      ci_taskId = pc_taskId c, ci_attemptId = pc_attemptId c, ci_claims = pc_declaredClaims c,
      ci_leaseDurationMs = 30000, ci_staleGraceMs = 20000\<rparr>"

definition acquireClaims ::
  "par_env \<Rightarrow> port_config \<Rightarrow> 'u par_world \<Rightarrow> par_candidate \<Rightarrow> string \<Rightarrow> 'u par_world \<times> set_record result" where
  "acquireClaims env cfg st c w =
     (case acquireResourceClaimSet (ev_win env) (ev_collate env) (claim_view st)
             (claim_request env cfg st c w) (ev_now env (pw_turn st)) (ev_claimIds env (pw_turn st)) of
        Inl e \<Rightarrow> (put_claims (pw_claims st) st, Inl e)
      | Inr (db, record) \<Rightarrow>
          ((put_claims db st)\<lparr>pw_owned := AList.update (st_id (fst record))
              \<lparr>ow_record = record, ow_owner = claim_owner_of cfg w, ow_renewalFailure = None\<rparr>
              (pw_owned st)\<rparr>,
           Inr record))"

definition releaseById ::
  "par_env \<Rightarrow> 'u par_world \<Rightarrow> string \<Rightarrow> string \<Rightarrow> 'u par_world \<times> unit result" where
  "releaseById env st claimSetId reason =
     (case map_of (pw_owned st) claimSetId of
        None \<Rightarrow> (st, Inr ())
      | Some owned \<Rightarrow>
          (let st1 = st\<lparr>pw_owned := AList.delete claimSetId (pw_owned st)\<rparr> in
           case releaseResourceClaimSet (ev_win env) (claim_view st1) claimSetId (ow_owner owned) reason
                  (ev_now env (pw_turn st)) of
             Inl e \<Rightarrow> (put_claims (pw_claims st1) st1, Inl e)
           | Inr (db, _) \<Rightarrow> (put_claims db st1, Inr ())))"

text \<open>A set whose renewal failed has no timer any more.\<close>

definition renewSet :: "par_env \<Rightarrow> string \<Rightarrow> 'u par_world \<Rightarrow> 'u par_world" where
  "renewSet env claimSetId st =
     (case map_of (pw_owned st) claimSetId of
        None \<Rightarrow> st
      | Some owned \<Rightarrow>
          if ow_renewalFailure owned \<noteq> None then st
          else
            (case renewResourceClaimSet (ev_win env) (claim_view st) (st_id (fst (ow_record owned)))
                    (ow_owner owned) 30000 20000 (ev_now env (pw_turn st)) of
               Inl e \<Rightarrow>
                 (put_claims (pw_claims st) st)\<lparr>pw_owned :=
                   AList.update claimSetId (owned\<lparr>ow_renewalFailure := Some e\<rparr>) (pw_owned st)\<rparr>
             | Inr (db, record) \<Rightarrow>
                 (put_claims db st)\<lparr>pw_owned :=
                   AList.update claimSetId (owned\<lparr>ow_record := record\<rparr>) (pw_owned st)\<rparr>))"

definition claims_lost :: failure where
  "claims_lost = RalphError ''RALPH_RESOURCE_CLAIM_LOST'' Exit_conflict"

definition assertOwnedById :: "'u par_world \<Rightarrow> string \<Rightarrow> 'u par_world \<times> set_record result" where
  "assertOwnedById st claimSetId =
     (case map_of (pw_owned st) claimSetId of
        None \<Rightarrow> (st, Inl claims_lost)
      | Some owned \<Rightarrow>
          (case ow_renewalFailure owned of
             Some e \<Rightarrow> (st, Inl e)
           | None \<Rightarrow>
               (case readResourceClaimSet (claim_view st) claimSetId of
                  Inl e \<Rightarrow> (st, Inl e)
                | Inr None \<Rightarrow> (st, Inl claims_lost)
                | Inr (Some (s, cs)) \<Rightarrow>
                    if st_status s \<noteq> Claim_active \<or>
                       co_ownerInstanceId (st_owner s) \<noteq> co_ownerInstanceId (ow_owner owned) \<or>
                       co_workerId (st_owner s) \<noteq> co_workerId (ow_owner owned) \<or>
                       co_processStartToken (st_owner s) \<noteq> co_processStartToken (ow_owner owned)
                    then (st, Inl claims_lost)
                    else (st\<lparr>pw_owned := AList.update claimSetId (owned\<lparr>ow_record := (s, cs)\<rparr>) (pw_owned st)\<rparr>,
                          Inr (s, cs)))))"

definition expandClaims ::
  "par_env \<Rightarrow> 'u par_world \<Rightarrow> string \<Rightarrow> claim_spec list \<Rightarrow> 'u par_world \<times> set_record result" where
  "expandClaims env st claimSetId additions =
     st_then (assertOwnedById st claimSetId) (\<lambda>st1 (current, _).
     case map_of (pw_owned st1) claimSetId of
       None \<Rightarrow> (st1, Inl (PlainError ''Claim owner disappeared after ownership assertion''))
     | Some owned \<Rightarrow>
         (case expandResourceClaimSet (ev_win env) (ev_collate env) (claim_view st1) (st_id current)
                 (ow_owner owned) additions 30000 20000 (ev_now env (pw_turn st1))
                 (ev_claimIds env (pw_turn st1)) of
            Inl e \<Rightarrow> (put_claims (pw_claims st1) st1, Inl e)
          | Inr (db, record) \<Rightarrow>
              ((put_claims db st1)\<lparr>pw_owned :=
                 AList.update claimSetId (owned\<lparr>ow_record := record\<rparr>) (pw_owned st1)\<rparr>,
               Inr record)))"

fun release_all_sets ::
  "par_env \<Rightarrow> string \<Rightarrow> string list \<Rightarrow> 'u par_world \<Rightarrow> 'u par_world \<times> failure option" where
  "release_all_sets env reason [] st = (st, None)"
| "release_all_sets env reason (i # is) st =
     (case releaseById env st i reason of
        (st1, r) \<Rightarrow>
          (case release_all_sets env reason is st1 of
             (st2, q) \<Rightarrow> (st2, case r of Inl e \<Rightarrow> Some e | Inr _ \<Rightarrow> q)))"

definition releaseAllClaims :: "par_env \<Rightarrow> 'u par_world \<Rightarrow> string \<Rightarrow> 'u par_world \<times> unit result" where
  "releaseAllClaims env st reason =
     (case release_all_sets env reason (map fst (pw_owned st)) st of
        (st', None) \<Rightarrow> (st', Inr ())
      | (st', Some _) \<Rightarrow>
          (st', Inl (RalphError ''RALPH_RESOURCE_CLAIM_RELEASE_FAILED'' Exit_operationalError)))"

section \<open>The caller's ports\<close>

text \<open>
  The caller's code is a script over its own state: it may call the ports' ownership operations
  any number of times, each time going on with the outcome, and returns a result. Before each of
  its steps others may commit to the ledgers and renewal timers fire.
\<close>

datatype port_call =
    Call_assert_capacity string
  | Call_assert_claims string
  | Call_expand_claims string "claim_spec list"

datatype ('o, 'r) script =
    Return 'o "'r result"
  | Call 'o port_call "unit result \<Rightarrow> ('o, 'r) script"

definition others :: "par_env \<Rightarrow> 'u par_world \<Rightarrow> 'u par_world" where
  "others env st =
     st\<lparr>pw_global := ev_otherLeases env (pw_turn st) Global_ledger (pw_global st),
        pw_project := ev_otherLeases env (pw_turn st) Project_ledger (pw_project st),
        pw_claims := ev_otherClaims env (pw_turn st) (pw_claims st), pw_turn := pw_turn st + 1\<rparr>"

fun fire :: "par_env \<Rightarrow> port_config \<Rightarrow> timer \<Rightarrow> 'u par_world \<Rightarrow> 'u par_world" where
  "fire env cfg (Timer_bundle i) st = renewBundle env cfg i st"
| "fire env cfg (Timer_set i) st = renewSet env i st"

definition elapse :: "par_env \<Rightarrow> port_config \<Rightarrow> 'u par_world \<Rightarrow> 'u par_world" where
  "elapse env cfg st = fold (fire env cfg) (ev_timers env (pw_turn st)) (others env st)"

definition forget :: "'s \<times> 'a result \<Rightarrow> 's \<times> unit result" where
  "forget q = (case q of (st, Inl e) \<Rightarrow> (st, Inl e) | (st, Inr _) \<Rightarrow> (st, Inr ()))"

fun call_port :: "par_env \<Rightarrow> port_config \<Rightarrow> 'u par_world \<Rightarrow> port_call \<Rightarrow> 'u par_world \<times> unit result" where
  "call_port env cfg st (Call_assert_capacity i) = assertCapacityOwned env cfg st i"
| "call_port env cfg st (Call_assert_claims i) = forget (assertOwnedById st i)"
| "call_port env cfg st (Call_expand_claims i specs) = forget (expandClaims env st i specs)"

primrec run_script ::
  "par_env \<Rightarrow> port_config \<Rightarrow> ('u, 'r) script \<Rightarrow> 'u par_world \<Rightarrow> 'u par_world \<times> 'r result" where
  "run_script env cfg (Return u r) st = (st\<lparr>pw_user := u\<rparr>, r)"
| "run_script env cfg (Call u c k) st =
     (case call_port env cfg (elapse env cfg (st\<lparr>pw_user := u\<rparr>)) c of
        (st', q) \<Rightarrow> run_script env cfg (k q) st')"

record ('u, 'v) callers =
  cb_snapshot :: "'u \<Rightarrow> ('u, wave_snapshot) script"
  cb_observe :: "'u \<Rightarrow> par_observation \<Rightarrow> ('u, unit) script"
  cb_execute :: "'u \<Rightarrow> par_claimed \<Rightarrow> ('u, 'v worker_result) script"
  cb_integrate :: "'u \<Rightarrow> 'v worker_result list \<Rightarrow> ('u, unit) script"

definition call_script ::
  "par_env \<Rightarrow> port_config \<Rightarrow> ('u \<Rightarrow> ('u, 'r) script) \<Rightarrow> 'u par_world \<Rightarrow> 'u par_world \<times> 'r result" where
  "call_script env cfg s st = run_script env cfg (s (pw_user st)) (elapse env cfg st)"

definition durable_ports ::
  "par_env \<Rightarrow> port_config \<Rightarrow> ('u, 'v) callers \<Rightarrow> ('u par_world, 'v) par_ports" where
  "durable_ports env cfg cb =
     \<lparr>pt_reserve = reserve env cfg,
      pt_releaseCapacity = \<lambda>st i _. releaseBundle env cfg st i,
      pt_acquire = acquireClaims env cfg,
      pt_releaseClaims = \<lambda>st s why. releaseById env st (st_id (fst s)) why,
      pt_snapshot = call_script env cfg (cb_snapshot cb),
      pt_observe = \<lambda>st ob. call_script env cfg (\<lambda>u. cb_observe cb u ob) st,
      pt_execute = \<lambda>st d. call_script env cfg (\<lambda>u. cb_execute cb u d) st,
      pt_integrate = \<lambda>st rs. call_script env cfg (\<lambda>u. cb_integrate cb u rs) st\<rparr>"

text \<open>
  The end of the parallel root run: the waves, then both ports release whatever they still hold,
  whether the waves returned or threw.
\<close>

definition run_parallel_root ::
  "par_env \<Rightarrow> port_config \<Rightarrow> ('u, 'v) callers \<Rightarrow> par_policy \<Rightarrow> int \<Rightarrow>
   (nat \<Rightarrow> nat list) \<Rightarrow> 'u par_world \<Rightarrow> 'u par_world \<times> 'v wave_progress result" where
  "run_parallel_root env cfg cb policy maximum order st =
     (case executeParallelWaves (durable_ports env cfg cb) (ev_collate env) policy maximum
             (\<lambda>c n. take 512 (''worker-'' @ decimal (n + 1) @ ''-'' @ pc_attemptId c)) order st of
        (st1, outcome) \<Rightarrow>
          (case releaseAllClaims env st1 ''Parallel root execution settled'' of
             (st2, r) \<Rightarrow>
               (case releaseAllCapacity env cfg st2 of
                  (st3, q) \<Rightarrow>
                    if ok r \<and> ok q then (st3, outcome)
                    else (st3, Inl (RalphError ''RALPH_PARALLEL_FINAL_RELEASE_FAILED'' Exit_operationalError)))))"

section \<open>What the ports hold\<close>

definition bundle_ids :: "'u par_world \<Rightarrow> string set" where
  "bundle_ids st = fst ` set (pw_bundles st)"

definition owned_ids :: "'u par_world \<Rightarrow> string set" where
  "owned_ids st = fst ` set (pw_owned st)"

lemma keys_update: "fst ` set (AList.update k v m) = insert k (fst ` set m)"
  by (metis dom_map_of_conv_image_fst dom_fun_upd option.distinct(1) update_conv')

lemma keys_delete: "fst ` set (AList.delete k m) = fst ` set m - {k}"
  by (metis delete_keys list.set_map set_removeAll)

lemma key_of: "map_of m k = Some v \<Longrightarrow> insert k (fst ` set m) = fst ` set m"
  by (force dest: map_of_SomeD)

lemma keys_updated: "map_of m k = Some v \<Longrightarrow> fst ` set (AList.update k w m) = fst ` set m"
  by (simp add: keys_update key_of)

definition holds_same :: "'u par_world \<Rightarrow> 'u par_world \<Rightarrow> bool" where
  "holds_same st st' \<longleftrightarrow>
     pw_bundles st' = pw_bundles st \<and> pw_owned st' = pw_owned st \<and> pw_turn st \<le> pw_turn st'"

lemma holds_same_refl [simp]: "holds_same st st"
  by (simp add: holds_same_def)

lemma holds_same_trans: "holds_same a b \<Longrightarrow> holds_same b c \<Longrightarrow> holds_same a c"
  by (simp add: holds_same_def)

lemma put_ledger_holds [simp]:
  "pw_bundles (put_ledger p db st) = pw_bundles st" "pw_owned (put_ledger p db st) = pw_owned st"
  by (cases p; simp)+

lemma put_claims_holds [simp]:
  "pw_bundles (put_claims db st) = pw_bundles st" "pw_owned (put_claims db st) = pw_owned st"
  by (simp_all add: put_claims_def)

lemma holds_same_put: "holds_same (put_ledger p db st) st' \<Longrightarrow> holds_same st st'"
  by (cases p) (simp_all add: holds_same_def)

lemma acquire_slots_holds:
  "acquire_slots env cfg slot r w n k st = (st', a) \<Longrightarrow> holds_same st st'"
proof (induction n arbitrary: k st)
  case 0
  then show ?case by simp
next
  case (Suc n)
  have "holds_same st (put_ledger p db st)" for p db
    by (cases p) (simp_all add: holds_same_def)
  with Suc show ?case
    by (fastforce dest: holds_same_put simp: Let_def split: prod.splits sum.splits acquired.splits if_splits)
qed

lemma release_each_holds: "release_each env cfg ls st = (st', es) \<Longrightarrow> holds_same st st'"
proof (induction ls arbitrary: st es)
  case Nil
  then show ?case by simp
next
  case (Cons l ls)
  have "holds_same st (put_ledger p db st)" for p db
    by (cases p) (simp_all add: holds_same_def)
  with Cons show ?case
    by (fastforce dest: holds_same_put split: prod.splits sum.splits)
qed

lemma releaseLeases_holds: "releaseLeases env cfg ls st = (st', u) \<Longrightarrow> holds_same st st'"
  by (auto simp: releaseLeases_def split: prod.splits if_splits dest: release_each_holds)

lemma acquire_scopes_holds:
  "acquire_scopes env cfg c w ls slots st = (st', q) \<Longrightarrow> holds_same st st'"
proof (induction slots arbitrary: ls st)
  case Nil
  then show ?case by simp
next
  case (Cons slot slots)
  then show ?case
    by (auto simp: acquireSlot_def split: prod.splits sum.splits option.splits
        intro: holds_same_trans dest!: acquire_slots_holds)
qed

lemma renew_leases_holds: "renew_leases env cfg ls st = (st', q) \<Longrightarrow> holds_same st st'"
proof (induction ls arbitrary: st q)
  case Nil
  then show ?case by simp
next
  case (Cons l ls)
  have "holds_same st (put_ledger p db st)" for p db
    by (cases p) (simp_all add: holds_same_def)
  with Cons show ?case
    by (fastforce dest: holds_same_put split: prod.splits sum.splits)
qed

text \<open>The same keys: what the ownership operations and the timers keep.\<close>

definition same_keys :: "'u par_world \<Rightarrow> 'u par_world \<Rightarrow> bool" where
  "same_keys st st' \<longleftrightarrow>
     bundle_ids st' = bundle_ids st \<and> owned_ids st' = owned_ids st \<and> pw_turn st \<le> pw_turn st'"

lemma same_keys_refl [simp]: "same_keys st st"
  by (simp add: same_keys_def)

lemma same_keys_trans: "same_keys a b \<Longrightarrow> same_keys b c \<Longrightarrow> same_keys a c"
  by (simp add: same_keys_def)

lemma renewBundle_keys: "same_keys st (renewBundle env cfg i st)"
proof -
  have "same_keys st (st'\<lparr>pw_bundles := AList.update i \<lparr>bu_leases = ls, bu_renewalFailure = f\<rparr> (pw_bundles st')\<rparr>)"
    if "map_of (pw_bundles st) i = Some b" and "renew_leases env cfg (bu_leases b) st = (st', ls, f)" for b st' ls f
    using renew_leases_holds [OF that(2)] key_of [OF that(1)]
    by (simp add: same_keys_def bundle_ids_def owned_ids_def holds_same_def keys_update)
  then show ?thesis
    by (auto simp: renewBundle_def split: option.splits prod.splits)
qed

lemma owned_update_keys:
  "map_of (pw_owned st) i = Some v \<Longrightarrow>
   same_keys st (st\<lparr>pw_owned := AList.update i w (pw_owned st)\<rparr>)"
  "map_of (pw_owned st) i = Some v \<Longrightarrow>
   same_keys st ((put_claims db st)\<lparr>pw_owned := AList.update i w (pw_owned st)\<rparr>)"
  by (simp_all add: same_keys_def bundle_ids_def owned_ids_def keys_updated put_claims_def)

lemma bundle_update_keys:
  "map_of (pw_bundles st) i = Some v \<Longrightarrow>
   same_keys st (st\<lparr>pw_bundles := AList.update i w (pw_bundles st), pw_turn := Suc (pw_turn st)\<rparr>)"
  by (simp add: same_keys_def bundle_ids_def owned_ids_def keys_updated)

lemma put_claims_keys [simp]: "same_keys st (put_claims db st)"
  by (simp add: same_keys_def bundle_ids_def owned_ids_def put_claims_def)

lemma renewSet_keys: "same_keys st (renewSet env i st)"
  by (auto simp: renewSet_def owned_update_keys split: option.splits sum.splits prod.splits)

lemma fires_keys: "same_keys st (fold (fire env cfg) ts st)"
proof (induction ts arbitrary: st)
  case Nil
  then show ?case by simp
next
  case (Cons t ts)
  have "same_keys st (fire env cfg t st)"
    by (cases t) (simp_all add: renewBundle_keys renewSet_keys)
  then show ?case
    using Cons by (auto intro: same_keys_trans)
qed

lemma elapse_keys: "same_keys st (elapse env cfg st)"
proof -
  have "same_keys st (others env st)"
    by (simp add: others_def same_keys_def bundle_ids_def owned_ids_def)
  then show ?thesis
    unfolding elapse_def using fires_keys same_keys_trans by blast
qed

lemma user_keys [simp]: "same_keys st (st\<lparr>pw_user := u\<rparr>)"
  by (simp add: same_keys_def bundle_ids_def owned_ids_def)

lemma assertOwnedById_keys: "assertOwnedById st i = (st', r) \<Longrightarrow> same_keys st st'"
  by (auto simp: assertOwnedById_def owned_update_keys split: option.splits sum.splits prod.splits if_splits)

lemma expandClaims_keys: "expandClaims env st i specs = (st', r) \<Longrightarrow> same_keys st st'"
proof (unfold expandClaims_def, erule st_then_cases)
  fix e
  assume "assertOwnedById st i = (st', Inl e)"
  then show "same_keys st st'"
    by (rule assertOwnedById_keys)
next
  fix st1 x
  assume a: "assertOwnedById st i = (st1, Inr x)"
    and "(case x of (current, _) \<Rightarrow> case map_of (pw_owned st1) i of
       None \<Rightarrow> (st1, Inl (PlainError ''Claim owner disappeared after ownership assertion''))
     | Some owned \<Rightarrow>
         (case expandResourceClaimSet (ev_win env) (ev_collate env) (claim_view st1) (st_id current)
                 (ow_owner owned) specs 30000 20000 (ev_now env (pw_turn st1))
                 (ev_claimIds env (pw_turn st1)) of
            Inl e \<Rightarrow> (put_claims (pw_claims st1) st1, Inl e)
          | Inr (db, record) \<Rightarrow>
              ((put_claims db st1)\<lparr>pw_owned :=
                 AList.update i (owned\<lparr>ow_record := record\<rparr>) (pw_owned st1)\<rparr>,
               Inr record))) = (st', r)"
  then have "same_keys st1 st'"
    by (auto simp: owned_update_keys split: option.splits sum.splits prod.splits)
  then show "same_keys st st'"
    using assertOwnedById_keys [OF a] same_keys_trans by blast
qed

lemma assertCapacityOwned_keys: "assertCapacityOwned env cfg st i = (st', r) \<Longrightarrow> same_keys st st'"
  by (auto simp: assertCapacityOwned_def bundle_update_keys split: option.splits prod.splits)

lemma forget_state: "forget q = (st', u) \<Longrightarrow> \<exists>r. q = (st', r)"
  by (auto simp: forget_def split: prod.splits sum.splits)

lemma call_port_keys: "call_port env cfg st c = (st', u) \<Longrightarrow> same_keys st st'"
  by (cases c)
     (auto dest!: forget_state dest: assertCapacityOwned_keys assertOwnedById_keys expandClaims_keys)

lemma run_script_keys: "run_script env cfg s st = (st', r) \<Longrightarrow> same_keys st st'"
proof (induction s arbitrary: st)
  case (Return u q)
  then show ?case by auto
next
  case (Call u c k)
  obtain st1 q where p: "call_port env cfg (elapse env cfg (st\<lparr>pw_user := u\<rparr>)) c = (st1, q)"
    by (cases "call_port env cfg (elapse env cfg (st\<lparr>pw_user := u\<rparr>)) c")
  have "same_keys st (elapse env cfg (st\<lparr>pw_user := u\<rparr>))"
    by (rule same_keys_trans [OF user_keys elapse_keys])
  then have "same_keys st st1"
    by (rule same_keys_trans [OF _ call_port_keys [OF p]])
  moreover have "run_script env cfg (k q) st1 = (st', r)"
    using Call.prems p by simp
  ultimately show ?case
    by (metis Call.IH same_keys_trans rangeI)
qed

lemma call_script_keys: "call_script env cfg s st = (st', r) \<Longrightarrow> same_keys st st'"
  unfolding call_script_def by (drule run_script_keys) (rule same_keys_trans [OF elapse_keys])

section \<open>The ports keep the reservation contract\<close>

lemma releaseBundle_ids:
  assumes "releaseBundle env cfg st i = (st', u)"
  shows "bundle_ids st' = bundle_ids st - {i} \<and> owned_ids st' = owned_ids st \<and> pw_turn st \<le> pw_turn st'"
proof (cases "map_of (pw_bundles st) i")
  case None
  then have "i \<notin> bundle_ids st"
    by (simp add: bundle_ids_def map_of_eq_None_iff)
  then show ?thesis
    using assms None by (auto simp: releaseBundle_def)
next
  case (Some b)
  then have "releaseLeases env cfg (bu_leases b) (st\<lparr>pw_bundles := AList.delete i (pw_bundles st)\<rparr>) = (st', u)"
    using assms by (simp add: releaseBundle_def)
  from releaseLeases_holds [OF this] show ?thesis
    by (simp add: holds_same_def bundle_ids_def owned_ids_def keys_delete)
qed

lemma releaseById_ids:
  assumes "releaseById env st i why = (st', u)"
  shows "owned_ids st' = owned_ids st - {i} \<and> bundle_ids st' = bundle_ids st \<and> pw_turn st \<le> pw_turn st'"
proof (cases "map_of (pw_owned st) i")
  case None
  then have "i \<notin> owned_ids st"
    by (simp add: owned_ids_def map_of_eq_None_iff)
  then show ?thesis
    using assms None by (auto simp: releaseById_def)
next
  case (Some o')
  then show ?thesis
    using assms
    by (auto simp: releaseById_def Let_def bundle_ids_def owned_ids_def keys_delete put_claims_def
        split: sum.splits prod.splits del: equalityI)
qed

lemma acquireClaims_ids:
  assumes "acquireClaims env cfg st c w = (st', a)"
  shows "bundle_ids st' = bundle_ids st \<and> pw_turn st \<le> pw_turn st' \<and>
    owned_ids st' = (case a of Inr s \<Rightarrow> insert (st_id (fst s)) (owned_ids st) | Inl _ \<Rightarrow> owned_ids st)"
  using assms
  by (auto simp: acquireClaims_def bundle_ids_def owned_ids_def keys_update put_claims_def
      split: sum.splits prod.splits del: equalityI)

lemma reserve_ids:
  assumes "reserve env cfg st c w = (st', r)"
  shows "bundle_ids st' = (case r of Inr (Reserved i) \<Rightarrow> insert i (bundle_ids st) | _ \<Rightarrow> bundle_ids st) \<and>
    owned_ids st' = owned_ids st \<and> pw_turn st \<le> pw_turn st'"
proof (cases "capacity_slots cfg c")
  case (Inl e)
  then show ?thesis
    using assms by (auto simp: reserve_def)
next
  case slots: (Inr slots)
  obtain st1 leases q where a: "acquire_scopes env cfg c w [] slots st = (st1, leases, q)"
    by (cases "acquire_scopes env cfg c w [] slots st") auto
  note h1 = acquire_scopes_holds [OF a]
  obtain st2 u where r2: "releaseLeases env cfg leases st1 = (st2, u)"
    by (cases "releaseLeases env cfg leases st1")
  note h2 = releaseLeases_holds [OF r2]
  obtain st3 v where r3: "releaseLeases env cfg leases st2 = (st3, v)"
    by (cases "releaseLeases env cfg leases st2")
  note h3 = releaseLeases_holds [OF r3]
  have same: "?thesis" if "st' = st2 \<or> st' = st3" and "\<forall>i. r \<noteq> Inr (Reserved i)"
    using that h1 h2 h3
    by (auto simp: holds_same_def bundle_ids_def owned_ids_def split: sum.splits reserve_outcome.splits)
  show ?thesis
  proof (cases q)
    case (Inl e)
    then show ?thesis
      using assms slots a r2 by (intro same) (auto simp: reserve_def split: sum.splits)
  next
    case (Inr full)
    show ?thesis
    proof (cases full)
      case (Some scope)
      then show ?thesis
        using assms slots a r2 r3 Inr by (intro same) (auto simp: reserve_def split: sum.splits)
    next
      case None
      then show ?thesis
        using assms slots a Inr h1
        by (auto simp: reserve_def Let_def holds_same_def bundle_ids_def owned_ids_def keys_update
            del: equalityI)
    qed
  qed
qed

interpretation durable: reservations "durable_ports env cfg cb" bundle_ids owned_ids
  for env :: par_env and cfg :: port_config and cb :: "('u, 'v) callers"
proof unfold_locales
  fix st :: "'u par_world" and st'
  show "pt_reserve (durable_ports env cfg cb) st c w = (st', r) \<Longrightarrow>
      bundle_ids st' = (case r of Inr (Reserved i) \<Rightarrow> insert i (bundle_ids st) | _ \<Rightarrow> bundle_ids st) \<and>
      owned_ids st' = owned_ids st" for c w r
    using reserve_ids [of env cfg st c w st' r] by (simp add: durable_ports_def)
  show "pt_releaseCapacity (durable_ports env cfg cb) st i why = (st', u) \<Longrightarrow>
      bundle_ids st' = bundle_ids st - {i} \<and> owned_ids st' = owned_ids st" for i why u
    using releaseBundle_ids [of env cfg st i st' u] by (simp add: durable_ports_def)
  show "pt_acquire (durable_ports env cfg cb) st c w = (st', a) \<Longrightarrow> bundle_ids st' = bundle_ids st \<and>
      owned_ids st' = (case a of Inr s \<Rightarrow> insert (st_id (fst s)) (owned_ids st) | Inl _ \<Rightarrow> owned_ids st)"
    for c w a
    using acquireClaims_ids [of env cfg st c w st' a] by (cases a) (simp_all add: durable_ports_def)
  show "pt_releaseClaims (durable_ports env cfg cb) st s why = (st', u) \<Longrightarrow>
      bundle_ids st' = bundle_ids st \<and> owned_ids st' = owned_ids st - {st_id (fst s)}" for s why u
    using releaseById_ids [of env st "st_id (fst s)" why st' u] by (simp add: durable_ports_def)
  show "pt_snapshot (durable_ports env cfg cb) st = (st', n) \<Longrightarrow>
      bundle_ids st' = bundle_ids st \<and> owned_ids st' = owned_ids st" for n
    by (simp add: durable_ports_def, drule call_script_keys, simp add: same_keys_def)
  show "pt_observe (durable_ports env cfg cb) st ob = (st', u) \<Longrightarrow>
      bundle_ids st' = bundle_ids st \<and> owned_ids st' = owned_ids st" for ob u
    by (simp add: durable_ports_def, drule call_script_keys, simp add: same_keys_def)
  show "pt_execute (durable_ports env cfg cb) st d = (st', x) \<Longrightarrow>
      bundle_ids st' = bundle_ids st \<and> owned_ids st' = owned_ids st" for d x
    by (simp add: durable_ports_def, drule call_script_keys, simp add: same_keys_def)
  show "pt_integrate (durable_ports env cfg cb) st rs = (st', u) \<Longrightarrow>
      bundle_ids st' = bundle_ids st \<and> owned_ids st' = owned_ids st" for rs u
    by (simp add: durable_ports_def, drule call_script_keys, simp add: same_keys_def)
qed

end
