(* ===== verification/ParallelSettle.thy ===== *)
theory ParallelSettle
  imports ParallelPorts
begin

text \<open>
  What a parallel run leaves in the ledgers. \<open>my_leases\<close> and \<open>my_sets\<close> are the active leases
  and claim sets of one process; every operation of the ports keeps them among what the ports
  hold, as long as no release rejects. From this, a parallel run that returns leaves nothing of
  its process active. The last part is about the slots themselves: how many a namespace can have
  active, and that one process occupies only one of them, however many workers it runs.
\<close>

section \<open>The active leases of a process\<close>

definition my_leases :: "lease_owner \<Rightarrow> lease_db \<Rightarrow> string set" where
  "my_leases ow db = l_id ` {l \<in> set (ld_leases db).
     l_status l = Lease_active \<and> l_ownerInstanceId l = js_trim (lo_ownerInstanceId ow)}"

lemma my_leases_event [simp]: "my_leases ow (leaseEvent db l e) = my_leases ow db"
  by (simp add: my_leases_def)

lemma cas_mine:
  assumes "lease_cas db c extra f = Inr (db', n)"
  shows "my_leases ow db' \<subseteq> my_leases ow db"
proof -
  obtain ls where u: "update_rows lease_check lease_guard lease_index
      (\<lambda>l. l_id l = l_id c \<and> l_status l = Lease_active \<and> l_revision l = l_revision c \<and> extra l) f
      (ld_leases db) = Inr (ls, n)" and db': "db' = db\<lparr>ld_leases := ls\<rparr>"
    using assms by (rule cas_Inr)
  show ?thesis
  proof
    fix i
    assume "i \<in> my_leases ow db'"
    then obtain l where l: "l \<in> set ls" "l_status l = Lease_active" "i = l_id l"
        "l_ownerInstanceId l = js_trim (lo_ownerInstanceId ow)"
      by (auto simp: my_leases_def db')
    then obtain r where r: "r \<in> set (ld_leases db)" "l = r \<or> lease_guard r l"
      using u by (auto simp: update_rows_Inr split: if_splits)
    then have "l_id r = l_id l" "l_status r = Lease_active" "l_ownerInstanceId r = l_ownerInstanceId l"
      using l(2) by (auto simp: lease_guard_def)
    then show "i \<in> my_leases ow db"
      using r(1) l(3,4) by (auto simp: my_leases_def intro!: image_eqI [of _ _ r])
  qed
qed

lemma cas_and_read_mine:
  assumes "cas_and_read db c extra f ev = Inr (db', l)"
  shows "my_leases ow db' \<subseteq> my_leases ow db"
proof -
  obtain db1 n where "lease_cas db c extra f = Inr (db1, n)" "db' = leaseEvent db1 l ev"
    using assms by (auto simp: cas_and_read_def result_simps split: if_splits option.splits)
  then show ?thesis
    using cas_mine by simp
qed

lemma renew_mine: "renewDurableLease db i ow' d g t = Inr (db', l) \<Longrightarrow> my_leases ow db' \<subseteq> my_leases ow db"
  by (auto simp: renewDurableLease_def and_then_def
      split: sum.splits option.splits if_splits dest!: cas_and_read_mine [of _ _ _ _ _ _ _ ow])

lemma my_leases_row:
  "lease_db_ok db \<Longrightarrow> i \<in> my_leases ow db \<Longrightarrow> \<exists>l. lease_row db i = Some l \<and> l_status l = Lease_active"
  by (auto simp: my_leases_def lease_db_ok_def table_ok_def find_row_in)

text \<open>A release that returns has ended the lease.\<close>

lemma release_ends:
  assumes ok: "lease_db_ok db" and rel: "releaseDurableLease db i ow' t = Inr (db', l)"
  shows "lease_row db' i = Some l \<and> l_status l \<noteq> Lease_active \<and> lease_db_ok db' \<and>
    (db' = db \<or> (\<exists>c extra f ev. cas_and_read db c extra f ev = Inr (db', l)))"
proof -
  obtain c where c: "lease_row db i = Some c"
    using rel by (auto simp: releaseDurableLease_def and_then_def leaseById_Some
      split: sum.splits option.splits if_splits)
  have id: "l_id c = i"
    using find_row_Some [OF c(1)] by simp
  have ok': "lease_db_ok db'"
    using evolves_release [OF rel] ok by (simp add: evolves_def)
  show ?thesis
  proof (cases "l_status c = Lease_active")
    case False
    then have "db' = db \<and> l = c"
      using rel c by (auto simp: releaseDurableLease_def and_then_def leaseById_Some
          split: sum.splits option.splits if_splits)
    then show ?thesis
      using ok c False by simp
  next
    case True
    let ?f = "\<lambda>l. l\<lparr>l_status := Lease_released, l_releasedAt := Some t, l_revision := l_revision l + 1\<rparr>"
    have car: "cas_and_read db c (\<lambda>_. True) ?f ''lease.released'' = Inr (db', l)"
      using rel c True by (auto simp: releaseDurableLease_def and_then_def leaseById_Some
          split: sum.splits option.splits if_splits)
    have l: "l = ?f c"
      using cas_and_read_row [OF ok _ True _ car] c(1) id by simp
    then have "lease_row db' i = Some l"
      using cas_and_read_Inr [OF car] id by simp
    then show ?thesis
      using l ok' car by auto
  qed
qed

lemma release_mine:
  assumes ok: "lease_db_ok db" and rel: "releaseDurableLease db i ow' t = Inr (db', l)"
  shows "my_leases ow db' \<subseteq> my_leases ow db - {i}"
proof -
  note r = release_ends [OF ok rel]
  have "i \<notin> my_leases ow db'"
    using my_leases_row [of db' i ow] r by auto
  then show ?thesis
    using r cas_and_read_mine [of db _ _ _ _ db' l ow] by blast
qed

text \<open>The owner of an ended lease no longer has it.\<close>

lemma ended_not_owned:
  assumes "lease_row db i = Some l" and "l_status l \<noteq> Lease_active"
  shows "\<not> ok (assertDurableLeaseOwned db i ow t)"
  using assms by (auto simp: ok_iff assertDurableLeaseOwned_def readDurableLease_def and_then_def
      leaseById_Some split: sum.splits option.splits if_splits)

lemma insert_mine:
  "insertLease db l = Inr db' \<Longrightarrow> my_leases ow db' \<subseteq> insert (l_id l) (my_leases ow db)"
  by (auto simp: insertLease_def result_simps insert_row_Inr my_leases_def)

text \<open>What an acquisition adds.\<close>

fun gained :: "acquired result \<Rightarrow> string set" where
  "gained (Inr (Acquired l disp ps)) = {l_id l}"
| "gained _ = {}"

lemma commit_mine:
  assumes "acquire_commit db input scope ob probes env = Inr (db', a)"
  shows "my_leases ow db' \<subseteq> my_leases ow db \<union> gained (Inr a)"
proof -
  obtain cur where cur: "activeLease db (ai_workspaceId input) (ai_kind input) (ai_resourceKey input) = Inr cur"
    using assms by (auto simp: acquire_commit_def result_simps)
  show ?thesis
  proof (cases "map_option l_id cur \<noteq> map_option l_id ob \<or> map_option l_revision cur \<noteq> map_option l_revision ob")
    case True
    then show ?thesis
      using assms cur by (simp add: acquire_commit_def)
  next
    case False
    then obtain l where l: "newLease input (case ai_id input of None \<Rightarrow> ae_freshId env | Some i \<Rightarrow> i)
        (ae_acquiredAt env) scope = Inr l"
      using assms cur by (auto simp: acquire_commit_def result_simps)
    show ?thesis
    proof (cases cur)
      case None
      then obtain db1 where "insertLease db l = Inr db1" "db' = leaseEvent db1 l ''lease.acquired''"
          "a = Acquired l None []"
        using assms cur False l by (auto simp: acquire_commit_def result_simps)
      then show ?thesis
        using insert_mine by simp
    next
      case (Some c)
      let ?f = "\<lambda>r. r\<lparr>l_status := Lease_stolen, l_releasedAt := Some (ae_acquiredAt env),
                      l_replacedByLeaseId := Some (l_id l), l_revision := l_revision r + 1\<rparr>"
      obtain db1 n where cas: "lease_cas db c (\<lambda>_. True) ?f = Inr (db1, n)"
        using assms cur False l Some by (auto simp: acquire_commit_def result_simps)
      show ?thesis
      proof (cases "n = 1")
        case False
        then show ?thesis
          using assms cur \<open>\<not> (_ \<or> _)\<close> l Some cas cas_mine [OF cas]
          by (auto simp: acquire_commit_def result_simps)
      next
        case True
        then obtain db2 ps db3 d where sp: "store_probes db1 c (lo_ownerInstanceId (ai_owner input)) env 1 probes = Inr (db2, ps)"
          and ins: "insertLease db2 l = Inr db3"
          and db': "db' = leaseEvent (leaseEvent db3 d ''lease.lost'') l ''lease.acquired''"
          and a: "a = Acquired l (Some d) ps"
          using assms cur False l Some cas by (auto simp: acquire_commit_def result_simps split: option.splits)
        have "my_leases ow db2 = my_leases ow db1"
          using store_probes_Inr [OF sp] by (simp add: my_leases_def)
        then show ?thesis
          using insert_mine [OF ins, of ow] cas_mine [OF cas, of ow] by (auto simp: db' a)
      qed
    qed
  qed
qed

definition no_gain :: "lease_owner \<Rightarrow> (lease_db \<Rightarrow> lease_db) \<Rightarrow> bool" where
  "no_gain ow f \<longleftrightarrow> (\<forall>db. my_leases ow (f db) \<subseteq> my_leases ow db)"

lemma attempt_mine:
  assumes env: "no_gain ow (ae_before env)" "no_gain ow (ae_interference env)"
    and "acquire_attempt db0 input scope conf cp env = (db', r)"
  shows "my_leases ow db' \<subseteq> my_leases ow db0 \<union> gained r"
proof -
  let ?db = "ae_before env db0"
  let ?di = "ae_interference env ?db"
  have b: "my_leases ow ?db \<subseteq> my_leases ow db0" and i: "my_leases ow ?di \<subseteq> my_leases ow db0"
    using env by (auto simp: no_gain_def)
  have commit: "my_leases ow d \<subseteq> my_leases ow db0 \<union> gained (Inr a)"
    if "acquire_commit ?di input scope ob probes env = Inr (d, a)" for ob probes d a
    using commit_mine [OF that, of ow] i by blast
  have renew: "my_leases ow d \<subseteq> my_leases ow db0" if "renewDurableLease ?di j w x g t = Inr (d, l)" for j w x g t d l
    using renew_mine [OF that, of ow] i by blast
  show ?thesis
    using assms(3) b i
    by (auto simp: acquire_attempt_def Let_def split: sum.splits option.splits if_splits prod.splits
        dest!: commit renew)
qed

lemma acquire_mine:
  assumes env: "\<And>k. no_gain ow (ae_before (envs k))" "\<And>k. no_gain ow (ae_interference (envs k))"
    and "acquireDurableLease db input cp envs = (db', r)"
  shows "my_leases ow db' \<subseteq> my_leases ow db \<union> gained r"
proof -
  have loop: "acquire_loop n db input scope conf cp envs = (db', r) \<Longrightarrow>
      my_leases ow db' \<subseteq> my_leases ow db \<union> gained r" for n scope conf db
  proof (induction n arbitrary: db)
    case 0
    then show ?case
      using env(1) [of 0] by (auto simp: Let_def no_gain_def split: sum.splits option.splits)
  next
    case (Suc n)
    obtain d1 r1 where a: "acquire_attempt db input scope conf cp (envs (Suc n)) = (d1, r1)"
      by (cases "acquire_attempt db input scope conf cp (envs (Suc n))")
    note at = attempt_mine [OF env a]
    show ?case
    proof (cases "r1 = Inr Retry")
      case True
      then have "acquire_loop n d1 input scope conf cp envs = (db', r)"
        using Suc.prems by (simp add: a)
      then show ?thesis
        using Suc.IH at True by fastforce
    next
      case False
      then have "db' = d1" "r = r1"
        using Suc.prems by (auto simp: a split: sum.splits acquired.splits)
      then show ?thesis
        using at by blast
    qed
  qed
  show ?thesis
    using assms(3) by (auto simp: acquireDurableLease_def split: sum.splits prod.splits dest!: loop)
qed

lemma acquire_evolves:
  assumes "\<And>k. others_step (envs k)" and "lease_db_ok db" and "acquireDurableLease db input cp envs = (db', r)"
  shows "lease_db_ok db'"
  using assms(3) loop_acquired [OF assms(1,2)] assms(2)
  by (auto simp: acquireDurableLease_def evolves_def split: sum.splits prod.splits)

section \<open>The active claim sets of a process\<close>

definition my_rows :: "port_config \<Rightarrow> claim_set list \<Rightarrow> string set" where
  "my_rows cfg ss = st_id ` {s \<in> set ss.
     st_status s = Claim_active \<and> co_ownerInstanceId (st_owner s) = js_trim (kc_claimOwnerInstanceId cfg)}"

definition my_sets :: "port_config \<Rightarrow> claim_db \<Rightarrow> string set" where
  "my_sets cfg db = my_rows cfg (cd_sets db)"

lemma my_sets_same: "cd_sets db' = cd_sets db \<Longrightarrow> my_sets cfg db' = my_sets cfg db"
  by (simp add: my_sets_def my_rows_def)

lemma claim_event_sets [simp]: "cd_sets (claimEvent db s e) = cd_sets db"
  by (simp add: claimEvent_def)

lemma claim_view_sets [simp]:
  "cd_sets (claim_view st) = cd_sets (pw_claims st)" "my_sets cfg (claim_view st) = my_sets cfg (pw_claims st)"
  "claim_db_ok win (claim_view st) = claim_db_ok win (pw_claims st)"
  by (simp_all add: claim_view_def my_sets_def my_rows_def claim_db_ok_def readSetRow_def)

lemma set_cas_mine:
  assumes "set_cas db i revision f = Inr (db', n)"
  shows "my_sets cfg db' \<subseteq> my_sets cfg db"
proof
  obtain ss where u: "update_rows set_check set_guard no_index
        (\<lambda>s. st_id s = i \<and> st_status s = Claim_active \<and> st_revision s = revision) f (cd_sets db) = Inr (ss, n)"
    and db': "db' = db\<lparr>cd_sets := ss\<rparr>"
    using assms by (auto simp: set_cas_def result_simps)
  fix j
  assume "j \<in> my_sets cfg db'"
  then obtain s where s: "s \<in> set ss" "st_status s = Claim_active" "j = st_id s"
      "co_ownerInstanceId (st_owner s) = js_trim (kc_claimOwnerInstanceId cfg)"
    by (auto simp: my_sets_def my_rows_def db')
  then obtain r where r: "r \<in> set (cd_sets db)" "s = r \<or> set_guard r s"
    using u by (auto simp: update_rows_Inr split: if_splits)
  then have "st_id r = st_id s" "st_status r = Claim_active" "st_owner r = st_owner s"
    using s(2) by (auto simp: set_guard_def)
  then show "j \<in> my_sets cfg db"
    using r(1) s(3,4) by (auto simp: my_sets_def my_rows_def intro!: image_eqI [of _ _ r])
qed

lemma update_set_claims_sets: "update_set_claims db i g = Inr db' \<Longrightarrow> cd_sets db' = cd_sets db"
  by (auto simp: update_set_claims_def result_simps)

lemma my_sets_row:
  "claim_db_ok win db \<Longrightarrow> i \<in> my_sets cfg db \<Longrightarrow> \<exists>s. readSetRow db i = Some s \<and> st_status s = Claim_active"
  by (auto simp: my_sets_def my_rows_def claim_db_ok_def table_ok_def readSetRow_def find_row_in)

lemma transition_mine:
  assumes ok: "claim_db_ok win db" and tn: "tn_status tn \<noteq> Claim_expired"
    and tr: "transitionActiveClaimSet win db i auth tn = Inr (db', s', cs')"
  shows "my_sets cfg db' \<subseteq> my_sets cfg db \<and> (tn_status tn \<noteq> Claim_active \<longrightarrow> i \<notin> my_sets cfg db')"
  using tr ok
proof (cases rule: transition_Inr)
  case (ended row)
  then show ?thesis
    using my_sets_row [OF ok, of i cfg] by auto
next
  case (moved row u reason db1 db2)
  have r: "find_row st_id (cd_sets db) i = Some row"
    using moved(1) by (simp add: readSetRow_def)
  obtain ss where up: "update_rows set_check set_guard no_index
        (\<lambda>s. st_id s = i \<and> (st_status s = Claim_active \<and> st_revision s = st_revision row))
        (transition_set tn reason row) (cd_sets db) = Inr (ss, 1)"
    and db1: "db1 = db\<lparr>cd_sets := ss\<rparr>"
    using moved(5) by (auto simp: set_cas_def result_simps)
  have sets: "cd_sets db' = ss"
    using moved(6,7) update_set_claims_sets [of db1] by (auto simp: db1)
  have "find_row st_id ss i = Some (transition_set tn reason row row)"
    using set_table.cas_count [OF claim_db_okD(1) [OF ok] r _ up] moved(2) by simp
  moreover have "st_status (transition_set tn reason row row) = tn_status tn"
    by (simp add: transition_set_def)
  ultimately have "tn_status tn \<noteq> Claim_active \<longrightarrow> i \<notin> my_sets cfg db'"
    using my_sets_row [OF transition_ok [OF ok tn tr], of i cfg] by (auto simp: readSetRow_def sets)
  moreover have "my_sets cfg db' = my_sets cfg db1"
    by (rule my_sets_same) (simp add: sets db1)
  ultimately show ?thesis
    using set_cas_mine [OF moved(5), of cfg] by simp
qed

lemma renew_set_mine:
  "claim_db_ok win db \<Longrightarrow> renewResourceClaimSet win db i ow d g t = Inr (db', r) \<Longrightarrow>
   my_sets cfg db' \<subseteq> my_sets cfg db \<and> claim_db_ok win db'"
proof -
  let ?tn = "\<lparr>tn_status = Claim_active, tn_at = t, tn_leaseDurationMs = d, tn_staleGraceMs = g,
    tn_reason = None, tn_eventType = ''resource.claims.renewed''\<rparr>"
  assume ok: "claim_db_ok win db" and "renewResourceClaimSet win db i ow d g t = Inr (db', r)"
  then have "transitionActiveClaimSet win db i (Auth_owner ow) ?tn = Inr (db', fst r, snd r)"
    by (auto simp: renewResourceClaimSet_def result_simps)
  from transition_mine [OF ok _ this] transition_ok [OF ok _ this] show ?thesis
    by simp
qed

lemma release_set_mine:
  "claim_db_ok win db \<Longrightarrow> releaseResourceClaimSet win db i ow why t = Inr (db', r) \<Longrightarrow>
   my_sets cfg db' \<subseteq> my_sets cfg db - {i} \<and> claim_db_ok win db'"
  using transition_mine [of win db "end_transition Claim_released t why ''resource.claims.released''" i "Auth_owner ow" db' "fst r" "snd r" cfg]
    transition_ok [of win db "end_transition Claim_released t why ''resource.claims.released''" i "Auth_owner ow" db' "fst r" "snd r"]
  by (auto simp: releaseResourceClaimSet_def end_transition_def)

lemma acquire_set_mine:
  assumes ok: "claim_db_ok win db" and acq: "acquireResourceClaimSet win collate db input t fresh = Inr (db', s, cs)"
  shows "my_sets cfg db' \<subseteq> insert (st_id s) (my_sets cfg db) \<and> claim_db_ok win db'"
proof -
  have "cd_sets db' = cd_sets db \<or> cd_sets db' = cd_sets db @ [s]"
    using acq
    by (auto simp: acquireResourceClaimSet_def result_simps insertSet_def insert_row_Inr
        split: option.splits if_splits dest!: insert_claims_Inr)
  then show ?thesis
    using acquire_ok [OF ok acq] by (auto simp: my_sets_def my_rows_def)
qed

lemma expand_set_mine:
  assumes ok: "claim_db_ok win db" and ex: "expandResourceClaimSet win collate db i ow adds d g t fresh = Inr (db', r)"
  shows "my_sets cfg db' \<subseteq> my_sets cfg db \<and> claim_db_ok win db'"
proof -
  have "my_sets cfg db' \<subseteq> my_sets cfg db"
    using ex
    by (auto simp: expandResourceClaimSet_def result_simps Let_def my_sets_def
        split: option.splits if_splits dest!: insert_claims_Inr update_set_claims_sets
          set_cas_mine [of _ _ _ _ _ _ cfg, unfolded my_sets_def])
       (erule subsetD, assumption)+
  then show ?thesis
    using expand_ok [OF ok] ex by (cases r) auto
qed

lemma claim_steps_keep: "(claim_step win)\<^sup>*\<^sup>* db db' \<Longrightarrow> claim_db_ok win db \<Longrightarrow> claim_db_ok win db'"
  by (induction rule: rtranclp_induct) (auto dest: claim_step_ok)

section \<open>Nothing active that is not held\<close>

text \<open>
  Others at work: what they commit are steps of the ledgers that give this process no lease and no
  claim set, and random identifiers do not repeat.
\<close>

definition others_fair :: "par_env \<Rightarrow> port_config \<Rightarrow> bool" where
  "others_fair env cfg \<longleftrightarrow>
     (\<forall>n k. others_step (ev_attempts env n k) \<and>
        no_gain (kc_owner cfg) (ae_before (ev_attempts env n k)) \<and>
        no_gain (kc_owner cfg) (ae_interference (ev_attempts env n k))) \<and>
     (\<forall>n p. no_gain (kc_owner cfg) (ev_otherLeases env n p) \<and>
        (\<forall>db. lease_steps db (ev_otherLeases env n p db))) \<and>
     (\<forall>n db. my_sets cfg (ev_otherClaims env n db) \<subseteq> my_sets cfg db \<and>
        (claim_step (ev_win env))\<^sup>*\<^sup>* db (ev_otherClaims env n db)) \<and>
     inj (ev_uuid env)"

definition leases_at :: "ledger_place \<Rightarrow> capacity_lease list \<Rightarrow> string set" where
  "leases_at p ls = {l_id (kl_record l) | l. l \<in> set ls \<and> kl_place l = p}"

definition bundled :: "ledger_place \<Rightarrow> 'u par_world \<Rightarrow> string set" where
  "bundled p st = {i. \<exists>k b. map_of (pw_bundles st) k = Some b \<and> i \<in> leases_at p (bu_leases b)}"

text \<open>
  The invariant: what is active for this process is in a bundle, among the leases \<open>ls\<close> of the
  operation under way, or an owned set.
\<close>

definition accounted :: "par_env \<Rightarrow> port_config \<Rightarrow> capacity_lease list \<Rightarrow> 'u par_world \<Rightarrow> bool" where
  "accounted env cfg ls st \<longleftrightarrow>
     lease_db_ok (pw_global st) \<and> lease_db_ok (pw_project st) \<and> claim_db_ok (ev_win env) (pw_claims st) \<and>
     (\<forall>p. my_leases (kc_owner cfg) (ledger_of p st) \<subseteq> bundled p st \<union> leases_at p ls) \<and>
     my_sets cfg (pw_claims st) \<subseteq> owned_ids st \<and>
     bundle_ids st \<subseteq> ev_uuid env ` {..< pw_turn st}"

lemma leases_at_simps [simp]:
  "leases_at p [] = {}"
  "leases_at p (xs @ ys) = leases_at p xs \<union> leases_at p ys"
  "leases_at p (rev xs) = leases_at p xs"
  "leases_at p (l # ls) = (if kl_place l = p then {l_id (kl_record l)} else {}) \<union> leases_at p ls"
  by (auto simp: leases_at_def)

lemma accounted_ledger: "accounted env cfg ls st \<Longrightarrow> lease_db_ok (ledger_of p st)"
  by (cases p) (simp_all add: accounted_def)

lemma put_ledger_rest [simp]:
  "bundled p (put_ledger q db st) = bundled p st"
  "bundle_ids (put_ledger q db st) = bundle_ids st"
  "owned_ids (put_ledger q db st) = owned_ids st"
  "pw_claims (put_ledger q db st) = pw_claims st"
  "pw_turn (put_ledger q db st) = Suc (pw_turn st)"
  by (simp_all add: bundled_def bundle_ids_def owned_ids_def) (cases q; simp)+

lemma put_accounted:
  assumes acc: "accounted env cfg ls st" and ok: "lease_db_ok db"
    and mine: "my_leases (kc_owner cfg) db \<subseteq> bundled p st \<union> leases_at p ls'"
    and rest: "\<And>q. q \<noteq> p \<Longrightarrow> leases_at q ls \<subseteq> leases_at q ls'"
  shows "accounted env cfg ls' (put_ledger p db st)"
proof -
  have ids: "bundle_ids st \<subseteq> ev_uuid env ` {..< pw_turn st + 1}"
    using acc by (auto simp: accounted_def lessThan_Suc)
  have "my_leases (kc_owner cfg) (ledger_of q (put_ledger p db st)) \<subseteq> bundled q st \<union> leases_at q ls'" for q
  proof (cases "q = p")
    case True
    then show ?thesis
      using mine by (cases p) simp_all
  next
    case False
    then have "ledger_of q (put_ledger p db st) = ledger_of q st"
      by (cases p; cases q) simp_all
    then show ?thesis
      using acc rest [OF False] by (fastforce simp: accounted_def)
  qed
  moreover have "lease_db_ok (pw_global (put_ledger p db st)) \<and> lease_db_ok (pw_project (put_ledger p db st))"
    using acc ok by (cases p) (simp_all add: accounted_def)
  ultimately show ?thesis
    using acc ids by (simp add: accounted_def)
qed

lemma acquire_slots_accounted:
  assumes fair: "others_fair env cfg"
  shows "acquire_slots env cfg slot r w n k st = (st', a) \<Longrightarrow> accounted env cfg ls st \<Longrightarrow>
    accounted env cfg (ls @ (case a of Inr (Some l) \<Rightarrow> [l] | _ \<Rightarrow> [])) st'"
proof (induction n arbitrary: k st)
  case 0
  then show ?case by auto
next
  case (Suc n)
  let ?p = "sl_place slot"
  obtain db q where acq: "acquireDurableLease (ledger_of ?p st) (slot_input cfg slot r w k) True
      (ev_attempts env (pw_turn st)) = (db, q)"
    by (cases "acquireDurableLease (ledger_of ?p st) (slot_input cfg slot r w k) True
      (ev_attempts env (pw_turn st))")
  have ok: "lease_db_ok db"
    using acquire_evolves [OF _ accounted_ledger [OF Suc.prems(2)] acq] fair by (simp add: others_fair_def)
  have mine: "my_leases (kc_owner cfg) db \<subseteq> bundled ?p st \<union> leases_at ?p ls \<union> gained q"
  proof -
    have "my_leases (kc_owner cfg) db \<subseteq> my_leases (kc_owner cfg) (ledger_of ?p st) \<union> gained q"
      using acquire_mine [OF _ _ acq] fair by (simp add: others_fair_def)
    then show ?thesis
      using Suc.prems(2) by (fastforce simp: accounted_def)
  qed
  have kept: "accounted env cfg ls (put_ledger ?p db st)" if "gained q = {}"
    by (rule put_accounted [OF Suc.prems(2) ok]) (use mine that in auto)
  show ?case
  proof (cases q)
    case (Inl e)
    then show ?thesis
      using Suc.prems(1) acq kept Suc.IH by (cases "isLeaseConflict e") (auto simp: Let_def)
  next
    case (Inr x)
    show ?thesis
    proof (cases x)
      case Retry
      then show ?thesis
        using Suc.prems(1) acq kept Inr by auto
    next
      case (Acquired l disp ps)
      have "accounted env cfg (ls @ [\<lparr>kl_place = ?p, kl_record = l\<rparr>]) (put_ledger ?p db st)"
        by (rule put_accounted [OF Suc.prems(2) ok]) (use mine Inr Acquired in auto)
      then show ?thesis
        using Suc.prems(1) acq Inr Acquired by (auto simp: Let_def)
    qed
  qed
qed

lemma release_each_accounted:
  "release_each env cfg ks st = (st', []) \<Longrightarrow> accounted env cfg (ks @ ls) st \<Longrightarrow> accounted env cfg ls st'"
proof (induction ks arbitrary: st)
  case Nil
  then show ?case by simp
next
  case (Cons k ks)
  let ?p = "kl_place k" and ?i = "l_id (kl_record k)"
  obtain db x where rel: "releaseDurableLease (ledger_of ?p st) ?i (kc_owner cfg) (ev_now env (pw_turn st)) = Inr (db, x)"
    using Cons.prems(1) by (auto split: sum.splits prod.splits)
  have rest: "release_each env cfg ks (put_ledger ?p db st) = (st', [])"
    using Cons.prems(1) rel by simp
  have ok: "lease_db_ok db"
    using evolves_release [OF rel] accounted_ledger [OF Cons.prems(2)] by (simp add: evolves_def)
  have "my_leases (kc_owner cfg) db \<subseteq> my_leases (kc_owner cfg) (ledger_of ?p st) - {?i}"
    by (rule release_mine [OF accounted_ledger [OF Cons.prems(2)] rel])
  moreover have "my_leases (kc_owner cfg) (ledger_of ?p st) \<subseteq> bundled ?p st \<union> leases_at ?p ((k # ks) @ ls)"
    using Cons.prems(2) unfolding accounted_def by blast
  ultimately have mine: "my_leases (kc_owner cfg) db \<subseteq> bundled ?p st \<union> leases_at ?p (ks @ ls)"
    by auto
  have "accounted env cfg (ks @ ls) (put_ledger ?p db st)"
    by (rule put_accounted [OF Cons.prems(2) ok mine]) simp
  from Cons.IH [OF rest this] show ?case .
qed

lemma accounted_perm: "(\<And>p. leases_at p ls = leases_at p ls') \<Longrightarrow> accounted env cfg ls st = accounted env cfg ls' st"
  by (simp add: accounted_def)

lemma releaseLeases_accounted:
  assumes "releaseLeases env cfg ks st = (st', Inr u)" and "accounted env cfg (ks @ ls) st"
  shows "accounted env cfg ls st'"
proof -
  have r: "release_each env cfg (rev ks) st = (st', [])"
    using assms(1) by (auto simp: releaseLeases_def split: prod.splits if_splits)
  have "accounted env cfg (rev ks @ ls) st"
    using assms(2) by (subst accounted_perm [of _ "ks @ ls"]) simp_all
  from release_each_accounted [OF r this] show ?thesis .
qed

lemma acquire_scopes_accounted:
  "others_fair env cfg \<Longrightarrow> acquire_scopes env cfg c w ls slots st = (st', ls', q) \<Longrightarrow>
   accounted env cfg ls st \<Longrightarrow> accounted env cfg ls' st'"
proof (induction slots arbitrary: ls st)
  case Nil
  then show ?case by simp
next
  case (Cons slot slots)
  obtain st1 a where a: "acquireSlot env cfg slot (pc_runId c) w st = (st1, a)"
    by (cases "acquireSlot env cfg slot (pc_runId c) w st")
  note acc = acquire_slots_accounted [OF Cons.prems(1) a [unfolded acquireSlot_def] Cons.prems(3)]
  show ?case
  proof (cases a)
    case (Inl e)
    then show ?thesis
      using Cons.prems(2) a acc by simp
  next
    case (Inr x)
    show ?thesis
    proof (cases x)
      case None
      then show ?thesis
        using Cons.prems(2) a acc Inr by simp
    next
      case (Some l)
      then have "acquire_scopes env cfg c w (ls @ [l]) slots st1 = (st', ls', q)"
        using Cons.prems(2) a Inr by simp
      from Cons.IH [OF Cons.prems(1) this] show ?thesis
        using acc Inr Some by simp
    qed
  qed
qed

lemma reserve_accounted:
  assumes fair: "others_fair env cfg" and res: "reserve env cfg st c w = (st', Inr x)"
    and acc: "accounted env cfg [] st"
  shows "accounted env cfg [] st'"
proof -
  obtain slots where slots: "capacity_slots cfg c = Inr slots"
    using res by (auto simp: reserve_def split: sum.splits)
  obtain st1 leases q where a: "acquire_scopes env cfg c w [] slots st = (st1, leases, q)"
    by (cases "acquire_scopes env cfg c w [] slots st") auto
  have acc1: "accounted env cfg leases st1"
    by (rule acquire_scopes_accounted [OF fair a acc])
  obtain full where q: "q = Inr full"
    using res slots a by (cases q) (auto simp: reserve_def split: sum.splits prod.splits)
  show ?thesis
  proof (cases full)
    case (Some scope)
    then obtain u where "releaseLeases env cfg leases st1 = (st', Inr u)"
      using res slots a q by (auto simp: reserve_def split: sum.splits prod.splits)
    then show ?thesis
      using releaseLeases_accounted [of env cfg leases st1 st' u "[]"] acc1 by simp
  next
    case None
    let ?i = "ev_uuid env (pw_turn st1)" and ?b = "\<lparr>bu_leases = leases, bu_renewalFailure = None\<rparr>"
    have st': "st' = st1\<lparr>pw_bundles := AList.update ?i ?b (pw_bundles st1), pw_turn := pw_turn st1 + 1\<rparr>"
      using res slots a q None by (simp add: reserve_def Let_def)
    have "?i \<notin> bundle_ids st1"
    proof
      assume "?i \<in> bundle_ids st1"
      moreover have "bundle_ids st1 \<subseteq> ev_uuid env ` {..< pw_turn st1}"
        using acc1 by (simp add: accounted_def)
      ultimately have "?i \<in> ev_uuid env ` {..< pw_turn st1}"
        by (rule rev_subsetD)
      then obtain n where n: "n < pw_turn st1" "ev_uuid env n = ?i"
        by (elim imageE) simp
      have "inj (ev_uuid env)"
        using fair by (simp add: others_fair_def)
      from injD [OF this n(2)] n(1) show False by simp
    qed
    then have new: "map_of (pw_bundles st1) ?i = None"
      by (simp add: bundle_ids_def map_of_eq_None_iff)
    have "bundled p st1 \<union> leases_at p leases \<subseteq> bundled p st'" for p
    proof -
      have at: "map_of (pw_bundles st') = (map_of (pw_bundles st1))(?i \<mapsto> ?b)"
        by (simp add: st' update_conv')
      have "leases_at p leases \<subseteq> bundled p st'"
        unfolding bundled_def at by (auto intro!: exI [of _ ?i] exI [of _ ?b])
      moreover have "i \<in> bundled p st'" if i: "i \<in> bundled p st1" for i
      proof -
        obtain k b where k: "map_of (pw_bundles st1) k = Some b" "i \<in> leases_at p (bu_leases b)"
          using i by (auto simp: bundled_def)
        then have "k \<noteq> ?i"
          using new by auto
        then show ?thesis
          unfolding bundled_def at using k by auto
      qed
      ultimately show ?thesis by blast
    qed
    moreover have "bundle_ids st' \<subseteq> ev_uuid env ` {..< pw_turn st'}"
      using acc1 by (auto simp: accounted_def bundle_ids_def st' keys_update lessThan_Suc)
    moreover have "ledger_of p st' = ledger_of p st1" for p
      by (cases p) (simp_all add: st')
    moreover have "my_leases (kc_owner cfg) (ledger_of p st1) \<subseteq> bundled p st1 \<union> leases_at p leases" for p
      using acc1 by (simp add: accounted_def)
    ultimately have "my_leases (kc_owner cfg) (ledger_of p st') \<subseteq> bundled p st'" for p
      by (metis subset_trans)
    then show ?thesis
      using acc1 \<open>bundle_ids st' \<subseteq> _\<close> by (simp add: accounted_def st' owned_ids_def)
  qed
qed

lemma releaseBundle_accounted:
  assumes "releaseBundle env cfg st i = (st', Inr u)" and acc: "accounted env cfg [] st"
  shows "accounted env cfg [] st'"
proof (cases "map_of (pw_bundles st) i")
  case None
  then show ?thesis
    using assms by (simp add: releaseBundle_def)
next
  case (Some b)
  let ?st = "st\<lparr>pw_bundles := AList.delete i (pw_bundles st)\<rparr>"
  have rel: "releaseLeases env cfg (bu_leases b) ?st = (st', Inr u)"
    using assms(1) Some by (simp add: releaseBundle_def)
  have held: "bundled p st \<subseteq> bundled p ?st \<union> leases_at p (bu_leases b)" for p
  proof
    fix j
    assume "j \<in> bundled p st"
    then obtain k c where k: "map_of (pw_bundles st) k = Some c" "j \<in> leases_at p (bu_leases c)"
      by (auto simp: bundled_def)
    show "j \<in> bundled p ?st \<union> leases_at p (bu_leases b)"
    proof (cases "k = i")
      case True
      then show ?thesis
        using k Some by simp
    next
      case False
      then have "map_of (pw_bundles ?st) k = Some c"
        using k(1) by (simp add: delete_conv')
      then show ?thesis
        using k(2) by (auto simp: bundled_def)
    qed
  qed
  have "ledger_of p ?st = ledger_of p st" for p
    by (cases p) simp_all
  moreover have "my_leases (kc_owner cfg) (ledger_of p st) \<subseteq> bundled p st" for p
    using acc by (simp add: accounted_def)
  ultimately have "my_leases (kc_owner cfg) (ledger_of p ?st) \<subseteq> bundled p ?st \<union> leases_at p (bu_leases b)" for p
    using held by (metis subset_trans)
  moreover have "bundle_ids ?st \<subseteq> bundle_ids st"
    by (auto simp: bundle_ids_def keys_delete)
  ultimately have "accounted env cfg (bu_leases b @ []) ?st"
    using acc by (auto simp: accounted_def owned_ids_def)
  from releaseLeases_accounted [OF rel this] show ?thesis .
qed

text \<open>Renewing and asserting keep the identifiers of the leases.\<close>

definition same_leases :: "capacity_lease list \<Rightarrow> capacity_lease list \<Rightarrow> bool" where
  "same_leases ls ls' \<longleftrightarrow> (\<forall>p. leases_at p ls' = leases_at p ls)"

lemma renew_leases_accounted:
  "renew_leases env cfg ls st = (st', ls', f) \<Longrightarrow> accounted env cfg ks st \<Longrightarrow>
   accounted env cfg ks st' \<and> same_leases ls ls'"
proof (induction ls arbitrary: st ls')
  case Nil
  then show ?case by (simp add: same_leases_def)
next
  case (Cons l ls)
  let ?p = "kl_place l" and ?i = "l_id (kl_record l)"
  let ?r = "renewDurableLease (ledger_of ?p st) ?i (kc_owner cfg) 30000 20000 (ev_now env (pw_turn st))"
  have mine: "my_leases (kc_owner cfg) (ledger_of ?p st) \<subseteq> bundled ?p st \<union> leases_at ?p ks"
    using Cons.prems(2) by (simp add: accounted_def)
  show ?case
  proof (cases ?r)
    case (Inl e)
    have "accounted env cfg ks (put_ledger ?p (ledger_of ?p st) st)"
      by (rule put_accounted [OF Cons.prems(2) accounted_ledger [OF Cons.prems(2)] mine]) simp
    then show ?thesis
      using Cons.prems(1) Inl by (auto simp: same_leases_def)
  next
    case (Inr x)
    obtain db r where x: "x = (db, r)" by (cases x)
    note rn = Inr [unfolded x]
    have ok: "lease_db_ok db"
      using evolves_renew [OF rn] accounted_ledger [OF Cons.prems(2)] by (simp add: evolves_def)
    have "my_leases (kc_owner cfg) db \<subseteq> bundled ?p st \<union> leases_at ?p ks"
      using renew_mine [OF rn, of "kc_owner cfg"] mine by (rule subset_trans)
    then have acc: "accounted env cfg ks (put_ledger ?p db st)"
      by (rule put_accounted [OF Cons.prems(2) ok]) simp
    obtain ls1 where rest: "renew_leases env cfg ls (put_ledger ?p db st) = (st', ls1, f)"
      and ls': "ls' = l\<lparr>kl_record := r\<rparr> # ls1"
      using Cons.prems(1) Inr x by (auto split: prod.splits)
    have "lease_row db ?i = Some r"
      using renew_Inr [OF accounted_ledger [OF Cons.prems(2)] rn] by blast
    then have "l_id r = ?i"
      using find_row_Some [of l_id "ld_leases db" ?i r] by simp
    then show ?thesis
      using Cons.IH [OF rest acc] by (simp add: ls' same_leases_def)
  qed
qed

lemma assert_leases_same: "assert_leases env cfg ls st = (ls', f) \<Longrightarrow> same_leases ls ls'"
proof (induction ls arbitrary: ls')
  case Nil
  then show ?case by (simp add: same_leases_def)
next
  case (Cons l ls)
  have id: "l_id r = i" if "assertDurableLeaseOwned db i ow t = Inr r" for db i ow t r
    using that find_row_Some [of l_id "ld_leases db" i r]
    by (auto simp: assertDurableLeaseOwned_def readDurableLease_def and_then_def leaseById_Some
        split: sum.splits option.splits if_splits)
  from Cons show ?case
    by (auto simp: same_leases_def id split: sum.splits prod.splits)
qed

lemma bundle_same_accounted:
  assumes acc: "accounted env cfg [] st" and b: "map_of (pw_bundles st) i = Some b"
    and same: "same_leases (bu_leases b) (bu_leases b')" and n: "pw_turn st \<le> n"
  shows "accounted env cfg [] (st\<lparr>pw_bundles := AList.update i b' (pw_bundles st), pw_turn := n\<rparr>)"
proof -
  let ?st = "st\<lparr>pw_bundles := AList.update i b' (pw_bundles st), pw_turn := n\<rparr>"
  have "bundled p ?st = bundled p st" for p
    using b same by (auto simp: bundled_def update_conv' same_leases_def split: if_splits) (metis option.inject)
  moreover have "ledger_of p ?st = ledger_of p st" for p
    by (cases p) simp_all
  moreover have "bundle_ids ?st = bundle_ids st"
    using b by (simp add: bundle_ids_def keys_updated)
  moreover have "ev_uuid env ` {..< pw_turn st} \<subseteq> ev_uuid env ` {..< n}"
    using n by (intro image_mono) auto
  ultimately show ?thesis
    using acc unfolding accounted_def by (simp add: owned_ids_def) (metis subset_trans)
qed

lemma renewBundle_accounted:
  assumes acc: "accounted env cfg [] st"
  shows "accounted env cfg [] (renewBundle env cfg i st)"
proof (cases "map_of (pw_bundles st) i")
  case None
  then show ?thesis
    using acc by (simp add: renewBundle_def)
next
  case (Some b)
  obtain st' ls f where r: "renew_leases env cfg (bu_leases b) st = (st', ls, f)"
    by (cases "renew_leases env cfg (bu_leases b) st") auto
  note ra = renew_leases_accounted [OF r acc]
  have b: "map_of (pw_bundles st') i = Some b"
    using renew_leases_holds [OF r] Some by (simp add: holds_same_def)
  have "accounted env cfg [] (st'\<lparr>pw_bundles := AList.update i \<lparr>bu_leases = ls, bu_renewalFailure = f\<rparr> (pw_bundles st')\<rparr>)"
    using bundle_same_accounted [of env cfg st' i b "\<lparr>bu_leases = ls, bu_renewalFailure = f\<rparr>" "pw_turn st'"]
      ra b by simp
  then show ?thesis
    using acc Some r by (simp add: renewBundle_def)
qed

lemma assertCapacityOwned_accounted:
  assumes "assertCapacityOwned env cfg st i = (st', u)" and acc: "accounted env cfg [] st"
  shows "accounted env cfg [] st'"
proof (cases "\<exists>b. map_of (pw_bundles st) i = Some b \<and> bu_renewalFailure b = None")
  case False
  then show ?thesis
    using assms by (auto simp: assertCapacityOwned_def split: option.splits)
next
  case True
  then obtain b where b: "map_of (pw_bundles st) i = Some b" "bu_renewalFailure b = None" by blast
  obtain ls f where a: "assert_leases env cfg (bu_leases b) st = (ls, f)"
    by (cases "assert_leases env cfg (bu_leases b) st")
  have "st' = st\<lparr>pw_bundles := AList.update i (b\<lparr>bu_leases := ls\<rparr>) (pw_bundles st), pw_turn := pw_turn st + 1\<rparr>"
    using assms(1) b a by (simp add: assertCapacityOwned_def)
  then show ?thesis
    using bundle_same_accounted [OF acc b(1), of "b\<lparr>bu_leases := ls\<rparr>" "pw_turn st + 1"]
      assert_leases_same [OF a] by simp
qed

text \<open>The claim operations.\<close>

lemma put_claims_accounted:
  assumes acc: "accounted env cfg [] st" and "claim_db_ok (ev_win env) db"
    and "my_sets cfg db \<subseteq> fst ` set owned"
  shows "accounted env cfg [] ((put_claims db st)\<lparr>pw_owned := owned\<rparr>)"
proof -
  let ?st = "(put_claims db st)\<lparr>pw_owned := owned\<rparr>"
  have "ledger_of p ?st = ledger_of p st" and "bundled p ?st = bundled p st" for p
    by (cases p; simp add: put_claims_def bundled_def)+
  moreover have "bundle_ids ?st \<subseteq> ev_uuid env ` {..< pw_turn ?st}"
    using acc by (auto simp: accounted_def put_claims_def bundle_ids_def lessThan_Suc)
  ultimately show ?thesis
    using assms by (simp add: accounted_def put_claims_def owned_ids_def)
qed

lemma put_claims_owned [simp]: "(put_claims db st)\<lparr>pw_owned := pw_owned st\<rparr> = put_claims db st"
  by (simp add: put_claims_def)

lemma accounted_claims:
  "accounted env cfg ls st \<Longrightarrow> claim_db_ok (ev_win env) (pw_claims st) \<and> my_sets cfg (pw_claims st) \<subseteq> fst ` set (pw_owned st)"
  by (simp add: accounted_def owned_ids_def)

lemma put_claims_kept:
  assumes acc: "accounted env cfg [] st"
  shows "accounted env cfg [] (put_claims (pw_claims st) st)"
proof -
  have "accounted env cfg [] ((put_claims (pw_claims st) st)\<lparr>pw_owned := pw_owned st\<rparr>)"
    using accounted_claims [OF acc] by (intro put_claims_accounted [OF acc]) simp_all
  then show ?thesis
    unfolding put_claims_owned .
qed

lemma acquireClaims_accounted:
  assumes acq: "acquireClaims env cfg st c w = (st', a)" and acc: "accounted env cfg [] st"
  shows "accounted env cfg [] st'"
proof (cases "acquireResourceClaimSet (ev_win env) (ev_collate env) (claim_view st)
             (claim_request env cfg st c w) (ev_now env (pw_turn st)) (ev_claimIds env (pw_turn st))")
  case (Inl e)
  then show ?thesis
    using acq put_claims_kept [OF acc] by (auto simp: acquireClaims_def)
next
  case (Inr x)
  obtain db s cs where x: "x = (db, s, cs)" by (cases x)
  have "claim_db_ok (ev_win env) (claim_view st)"
    using accounted_claims [OF acc] by simp
  from acquire_set_mine [OF this Inr [unfolded x], of cfg] accounted_claims [OF acc]
  have "claim_db_ok (ev_win env) db" "my_sets cfg db \<subseteq> insert (st_id s) (fst ` set (pw_owned st))"
    by auto
  from put_claims_accounted [OF acc this(1)] this(2) show ?thesis
    using acq Inr x by (auto simp: acquireClaims_def keys_update)
qed

lemma releaseById_accounted:
  assumes rel: "releaseById env st i why = (st', Inr u)" and acc: "accounted env cfg [] st"
  shows "accounted env cfg [] st'"
proof (cases "map_of (pw_owned st) i")
  case None
  then show ?thesis
    using rel acc by (simp add: releaseById_def)
next
  case (Some ow)
  let ?st = "st\<lparr>pw_owned := AList.delete i (pw_owned st)\<rparr>"
  obtain db r where r: "releaseResourceClaimSet (ev_win env) (claim_view ?st) i (ow_owner ow) why
      (ev_now env (pw_turn st)) = Inr (db, r)" and st': "st' = put_claims db ?st"
    using rel Some by (auto simp: releaseById_def Let_def split: sum.splits prod.splits)
  have "claim_db_ok (ev_win env) (claim_view ?st)"
    using accounted_claims [OF acc] by simp
  from release_set_mine [OF this r, of cfg] accounted_claims [OF acc]
  have "claim_db_ok (ev_win env) db" "my_sets cfg db \<subseteq> fst ` set (AList.delete i (pw_owned st))"
    by (auto simp: keys_delete)
  moreover have "st' = (put_claims db st)\<lparr>pw_owned := AList.delete i (pw_owned st)\<rparr>"
    unfolding st' by (rule par_world.equality) (simp_all add: put_claims_def)
  ultimately show ?thesis
    using put_claims_accounted [OF acc] by simp
qed

lemma renewSet_accounted:
  assumes acc: "accounted env cfg [] st"
  shows "accounted env cfg [] (renewSet env i st)"
proof (cases "\<exists>ow. map_of (pw_owned st) i = Some ow \<and> ow_renewalFailure ow = None")
  case False
  then show ?thesis
    using acc by (auto simp: renewSet_def split: option.splits)
next
  case True
  then obtain ow where ow: "map_of (pw_owned st) i = Some ow" "ow_renewalFailure ow = None" by blast
  let ?r = "renewResourceClaimSet (ev_win env) (claim_view st) (st_id (fst (ow_record ow))) (ow_owner ow)
    30000 20000 (ev_now env (pw_turn st))"
  have keys: "fst ` set (AList.update i w (pw_owned st)) = fst ` set (pw_owned st)" for w
    by (rule keys_updated [OF ow(1)])
  have ok: "claim_db_ok (ev_win env) (claim_view st)"
    using accounted_claims [OF acc] by simp
  show ?thesis
  proof (cases ?r)
    case (Inl e)
    then show ?thesis
      using ow put_claims_accounted [OF acc, of "pw_claims st"] accounted_claims [OF acc]
      by (simp add: renewSet_def keys)
  next
    case (Inr x)
    obtain db r where x: "x = (db, r)" by (cases x)
    from renew_set_mine [OF ok Inr [unfolded x], of cfg] accounted_claims [OF acc]
    have "claim_db_ok (ev_win env) db" "my_sets cfg db \<subseteq> fst ` set (pw_owned st)"
      by auto
    from put_claims_accounted [OF acc this(1)] this(2) show ?thesis
      using ow Inr x by (simp add: renewSet_def keys)
  qed
qed

lemma assertOwnedById_accounted:
  assumes "assertOwnedById st i = (st', r)" and acc: "accounted env cfg [] st"
  shows "accounted env cfg [] st'"
proof -
  have upd: "accounted env cfg [] (st\<lparr>pw_owned := AList.update i w (pw_owned st)\<rparr>)"
    if "map_of (pw_owned st) i = Some ow" for ow w
  proof -
    let ?st = "st\<lparr>pw_owned := AList.update i w (pw_owned st)\<rparr>"
    have "ledger_of p ?st = ledger_of p st" and "bundled p ?st = bundled p st" for p
      by (cases p; simp add: bundled_def)+
    then show ?thesis
      using acc keys_updated [OF that] by (simp add: accounted_def owned_ids_def bundle_ids_def)
  qed
  then show ?thesis
    using assms
    by (auto simp: assertOwnedById_def split: option.splits sum.splits prod.splits if_splits)
qed

lemma expandClaims_accounted:
  assumes ex: "expandClaims env st i specs = (st', r)" and acc: "accounted env cfg [] st"
  shows "accounted env cfg [] st'"
proof -
  obtain st1 a where a: "assertOwnedById st i = (st1, a)" by (cases "assertOwnedById st i")
  have acc1: "accounted env cfg [] st1"
    by (rule assertOwnedById_accounted [OF a acc])
  show ?thesis
  proof (cases "\<exists>s cs ow. a = Inr (s, cs) \<and> map_of (pw_owned st1) i = Some ow")
    case False
    then show ?thesis
      using ex a acc1 by (cases a) (auto simp: expandClaims_def split: option.splits)
  next
    case True
    then obtain s cs ow where s: "a = Inr (s, cs)" and ow: "map_of (pw_owned st1) i = Some ow" by blast
    let ?e = "expandResourceClaimSet (ev_win env) (ev_collate env) (claim_view st1) (st_id s)
                 (ow_owner ow) specs 30000 20000 (ev_now env (pw_turn st1)) (ev_claimIds env (pw_turn st1))"
    have ok: "claim_db_ok (ev_win env) (claim_view st1)"
      using accounted_claims [OF acc1] by simp
    show ?thesis
    proof (cases ?e)
      case (Inl e)
      then show ?thesis
        using ex a s ow put_claims_kept [OF acc1] by (auto simp: expandClaims_def)
    next
      case (Inr x)
      obtain db rec where x: "x = (db, rec)" by (cases x)
      from expand_set_mine [OF ok Inr [unfolded x], of cfg] accounted_claims [OF acc1]
      have "claim_db_ok (ev_win env) db" "my_sets cfg db \<subseteq> fst ` set (pw_owned st1)"
        by auto
      from put_claims_accounted [OF acc1 this(1)] this(2) show ?thesis
        using ex a s ow Inr x by (auto simp: expandClaims_def keys_updated [OF ow])
    qed
  qed
qed

text \<open>The caller's code.\<close>

lemma others_accounted:
  assumes fair: "others_fair env cfg" and acc: "accounted env cfg [] st"
  shows "accounted env cfg [] (others env st)"
proof -
  let ?n = "pw_turn st"
  have leases: "lease_db_ok (ev_otherLeases env ?n p db)" if "lease_db_ok db" for p db
    using lease_steps_evolve [of db "ev_otherLeases env ?n p db"] fair that
    by (simp add: others_fair_def evolves_def)
  have "ledger_of p (others env st) = ev_otherLeases env ?n p (ledger_of p st)" for p
    by (cases p) (simp_all add: others_def)
  then have mine: "my_leases (kc_owner cfg) (ledger_of p (others env st)) \<subseteq> my_leases (kc_owner cfg) (ledger_of p st)" for p
    using fair by (simp add: others_fair_def no_gain_def)
  have sets: "my_sets cfg (pw_claims (others env st)) \<subseteq> my_sets cfg (pw_claims st)"
    using fair by (simp add: others_def others_fair_def)
  have claims: "claim_db_ok (ev_win env) (pw_claims (others env st))"
    using claim_steps_keep [of "ev_win env" "pw_claims st"] fair acc
    by (simp add: others_def others_fair_def accounted_def)
  have "bundle_ids (others env st) \<subseteq> ev_uuid env ` {..< pw_turn (others env st)}"
    using acc by (auto simp: accounted_def others_def bundle_ids_def lessThan_Suc)
  moreover have "bundled p (others env st) = bundled p st" "owned_ids (others env st) = owned_ids st" for p
    by (simp_all add: others_def bundled_def owned_ids_def)
  moreover have "lease_db_ok (pw_global (others env st)) \<and> lease_db_ok (pw_project (others env st))"
    using leases acc by (simp add: others_def accounted_def)
  moreover have "my_leases (kc_owner cfg) (ledger_of p st) \<subseteq> bundled p st" for p
    using acc by (simp add: accounted_def)
  ultimately show ?thesis
    using acc claims subset_trans [OF mine] subset_trans [OF sets] by (simp add: accounted_def)
qed

lemma elapse_accounted:
  assumes fair: "others_fair env cfg" and acc: "accounted env cfg [] st"
  shows "accounted env cfg [] (elapse env cfg st)"
proof -
  have "accounted env cfg [] (fold (fire env cfg) ts st)" if "accounted env cfg [] st" for ts st
    using that
  proof (induction ts arbitrary: st)
    case (Cons t ts)
    have "accounted env cfg [] (fire env cfg t st)"
      using Cons.prems by (cases t) (simp_all add: renewBundle_accounted renewSet_accounted)
    then show ?case
      using Cons.IH by simp
  qed simp
  then show ?thesis
    using others_accounted [OF fair acc] by (simp add: elapse_def)
qed

lemma user_accounted: "accounted env cfg ls (st\<lparr>pw_user := u\<rparr>) = accounted env cfg ls st"
proof -
  have "ledger_of p (st\<lparr>pw_user := u\<rparr>) = ledger_of p st" for p
    by (cases p) simp_all
  then show ?thesis
    by (simp add: accounted_def bundled_def owned_ids_def bundle_ids_def)
qed

lemma call_port_accounted:
  "call_port env cfg st c = (st', u) \<Longrightarrow> accounted env cfg [] st \<Longrightarrow> accounted env cfg [] st'"
  by (cases c)
     (auto dest!: forget_state dest: assertCapacityOwned_accounted assertOwnedById_accounted
        expandClaims_accounted)

lemma run_script_accounted:
  "others_fair env cfg \<Longrightarrow> run_script env cfg s st = (st', r) \<Longrightarrow> accounted env cfg [] st \<Longrightarrow>
   accounted env cfg [] st'"
proof (induction s arbitrary: st)
  case (Return u q)
  then show ?case
    by (auto simp: user_accounted)
next
  case (Call u c k)
  obtain st1 q where p: "call_port env cfg (elapse env cfg (st\<lparr>pw_user := u\<rparr>)) c = (st1, q)"
    by (cases "call_port env cfg (elapse env cfg (st\<lparr>pw_user := u\<rparr>)) c")
  have "accounted env cfg [] (st\<lparr>pw_user := u\<rparr>)"
    using Call.prems(3) by (simp add: user_accounted)
  then have "accounted env cfg [] st1"
    using call_port_accounted [OF p] elapse_accounted [OF Call.prems(1)] by blast
  moreover have "run_script env cfg (k q) st1 = (st', r)"
    using Call.prems(2) p by simp
  ultimately show ?case
    using Call.IH Call.prems(1) by blast
qed

lemma call_script_accounted:
  "others_fair env cfg \<Longrightarrow> call_script env cfg s st = (st', r) \<Longrightarrow> accounted env cfg [] st \<Longrightarrow>
   accounted env cfg [] st'"
  unfolding call_script_def by (rule run_script_accounted [OF _ _ elapse_accounted])

interpretation durable_run: run_invariant "durable_ports env cfg cb"
  "\<lambda>st. others_fair env cfg \<longrightarrow> accounted env cfg [] st"
  for env :: par_env and cfg :: port_config and cb :: "('u, 'v) callers"
  by unfold_locales
     (auto simp: durable_ports_def intro: reserve_accounted releaseBundle_accounted
        acquireClaims_accounted releaseById_accounted call_script_accounted)

section \<open>The end of the run\<close>

lemma release_all_bundles_settled:
  "release_all_bundles env cfg is st = (st', Inr u) \<Longrightarrow> accounted env cfg [] st \<Longrightarrow>
   accounted env cfg [] st' \<and> bundle_ids st' = bundle_ids st - set is \<and> owned_ids st' = owned_ids st"
proof (induction "is" arbitrary: st)
  case Nil
  then show ?case by simp
next
  case (Cons i "is")
  obtain st1 r where r: "releaseBundle env cfg st i = (st1, r)" by (cases "releaseBundle env cfg st i")
  obtain v where v: "r = Inr v" and rest: "release_all_bundles env cfg is st1 = (st', Inr u)"
    using Cons.prems(1) r by (auto split: prod.splits sum.splits)
  from Cons.IH [OF rest releaseBundle_accounted [OF r [unfolded v] Cons.prems(2)]] releaseBundle_ids [OF r]
  show ?case by auto
qed

lemma release_all_sets_settled:
  "release_all_sets env why is st = (st', None) \<Longrightarrow> accounted env cfg [] st \<Longrightarrow>
   accounted env cfg [] st' \<and> owned_ids st' = owned_ids st - set is \<and> bundle_ids st' = bundle_ids st"
proof (induction "is" arbitrary: st)
  case Nil
  then show ?case by simp
next
  case (Cons i "is")
  obtain st1 r where r: "releaseById env st i why = (st1, r)" by (cases "releaseById env st i why")
  obtain v where v: "r = Inr v" and rest: "release_all_sets env why is st1 = (st', None)"
    using Cons.prems(1) r by (auto split: prod.splits sum.splits)
  from Cons.IH [OF rest releaseById_accounted [OF r [unfolded v] Cons.prems(2)]] releaseById_ids [OF r]
  show ?case by auto
qed

lemma nothing_held:
  assumes "accounted env cfg [] st" and "bundle_ids st = {}" and "owned_ids st = {}"
  shows "my_leases (kc_owner cfg) (pw_global st) = {}" "my_leases (kc_owner cfg) (pw_project st) = {}"
    "my_sets cfg (pw_claims st) = {}" "pw_bundles st = []" "pw_owned st = []"
proof -
  show e: "pw_bundles st = []" "pw_owned st = []"
    using assms(2,3) by (simp_all add: bundle_ids_def owned_ids_def)
  have "my_leases (kc_owner cfg) (ledger_of p st) \<subseteq> {}" for p
    using assms(1) e(1) by (simp add: accounted_def bundled_def)
  from this [of Global_ledger] this [of Project_ledger]
  show "my_leases (kc_owner cfg) (pw_global st) = {}" "my_leases (kc_owner cfg) (pw_project st) = {}"
    by simp_all
  show "my_sets cfg (pw_claims st) = {}"
    using assms(1,3) by (simp add: accounted_def)
qed

lemma run_parallel_root_settled:
  assumes fair: "others_fair env cfg" and acc: "accounted env cfg [] st"
    and run: "run_parallel_root env cfg cb policy maximum order st = (st', Inr p)"
  shows "accounted env cfg [] st' \<and> bundle_ids st' = {} \<and> owned_ids st' = {}"
proof -
  let ?w = "\<lambda>c n. take 512 (''worker-'' @ decimal (n + 1) @ ''-'' @ pc_attemptId c)"
  let ?why = "''Parallel root execution settled''"
  obtain st1 q where w: "executeParallelWaves (durable_ports env cfg cb) (ev_collate env) policy maximum ?w order st = (st1, q)"
    by (cases "executeParallelWaves (durable_ports env cfg cb) (ev_collate env) policy maximum ?w order st")
  obtain st2 f where s: "release_all_sets env ?why (map fst (pw_owned st1)) st1 = (st2, f)"
    by (cases "release_all_sets env ?why (map fst (pw_owned st1)) st1")
  obtain st3 b where c: "release_all_bundles env cfg (map fst (pw_bundles st2)) st2 = (st3, b)"
    by (cases "release_all_bundles env cfg (map fst (pw_bundles st2)) st2")
  have f: "f = None" and b: "b = Inr ()" and q: "q = Inr p" and st': "st' = st3"
    using run w s c
    by (cases f; auto simp: run_parallel_root_def releaseAllClaims_def releaseAllCapacity_def ok_iff
        split: if_splits)+
  have acc1: "accounted env cfg [] st1"
    using durable_run.executeParallelWaves_good [OF w [unfolded q]] fair acc by blast
  note h2 = release_all_sets_settled [OF s [unfolded f] acc1]
  note h3 = release_all_bundles_settled [OF c [unfolded b] conjunct1 [OF h2]]
  show ?thesis
    using h2 h3 by (simp add: st' owned_ids_def bundle_ids_def)
qed

section \<open>Slots\<close>

lemma js_trim_id: "s \<noteq> [] \<Longrightarrow> \<not> js_space (hd s) \<Longrightarrow> \<not> js_space (last s) \<Longrightarrow> js_trim s = s"
  by (simp add: js_trim_def dropWhile_id hd_rev)

lemma decimal_last: "decimal n \<noteq> [] \<and> \<not> js_space (last (decimal n))"
proof -
  have digit: "\<not> js_space (char_of (48 + k))" if "k < 10" for k :: nat
    using that by (auto simp: js_space_def of_char_of)
  show ?thesis
    using digit [of n] digit [of "n mod 10"] by (simp add: decimal.simps [of n])
qed

lemma slot_key_trim [simp]: "js_trim (slot_key namespace k) = slot_key namespace k"
  using decimal_last [of k] by (intro js_trim_id) (auto simp: slot_key_def js_space_def)

lemma attempt_resource:
  assumes ok: "lease_db_ok db0" and env: "others_step env"
    and at: "acquire_attempt db0 input scope conf cp env = (db', Inr (Acquired l disp ps))"
    and trim: "js_trim (ai_resourceKey input) = ai_resourceKey input"
  shows "l_kind l = ai_kind input \<and> l_resourceKey l = ai_resourceKey input"
proof -
  let ?db = "ae_before env db0"
  let ?di = "ae_interference env ?db"
  have okb: "lease_db_ok ?db" and ev: "evolves ?db ?di"
    using env lease_steps_evolve [of db0 ?db] lease_steps_evolve [of ?db ?di] ok
    by (auto simp: others_step_def evolves_def)
  have commit: "l_kind l = ai_kind input \<and> l_resourceKey l = ai_resourceKey input"
    if "acquire_commit d input scope ob probes env = Inr (db', Acquired l disp ps)" for d ob probes
  proof -
    have "newLease input (case ai_id input of None \<Rightarrow> ae_freshId env | Some i \<Rightarrow> i) (ae_acquiredAt env) scope = Inr l"
      using that by (auto simp: acquire_commit_def result_simps split: option.splits if_splits)
    then show ?thesis
      using newLease_Inr trim by simp
  qed
  obtain observed where obs: "readActiveDurableLease ?db (ai_workspaceId input) (ai_kind input) (ai_resourceKey input) = Inr observed"
    using at by (auto simp: acquire_attempt_def Let_def split: sum.splits)
  show ?thesis
  proof (cases "\<exists>c. observed = Some c \<and> sameOwner c (ai_owner input)")
    case False
    then show ?thesis
      using at obs commit
      by (auto simp: acquire_attempt_def Let_def split: sum.splits option.splits)
  next
    case True
    then obtain c where c: "observed = Some c" "sameOwner c (ai_owner input)" by blast
    note act = activeLease_Some [OF obs [unfolded readActiveDurableLease_def c(1)]]
    have rn: "renewDurableLease ?di (l_id c) (ai_owner input) (ai_leaseDurationMs input)
        (ai_staleGraceMs input) (ae_acquiredAt env) = Inr (db', l)"
      using at obs c by (auto simp: acquire_attempt_def Let_def split: sum.splits if_splits)
    have row: "lease_row ?db (l_id c) = Some c"
      by (rule active_row [OF okb obs [unfolded readActiveDurableLease_def c(1)]])
    have okd: "lease_db_ok ?di"
      using ev okb by (simp add: evolves_def)
    obtain c' where c': "lease_row ?di (l_id c) = Some c'" "succeeds c c'"
      using ev row unfolding evolves_def by blast
    obtain c2 where "lease_row ?di (l_id c) = Some c2" "l_kind l = l_kind c2" "l_resourceKey l = l_resourceKey c2"
      using renew_Inr [OF okd rn] by auto
    then show ?thesis
      using act c' by (auto simp: succeeds_def same_resource_def)
  qed
qed

lemma acquire_resource:
  assumes ok: "lease_db_ok db" and env: "\<And>k. others_step (envs k)"
    and acq: "acquireDurableLease db input cp envs = (db', Inr (Acquired l disp ps))"
    and trim: "js_trim (ai_resourceKey input) = ai_resourceKey input"
  shows "l_kind l = ai_kind input \<and> l_resourceKey l = ai_resourceKey input \<and> lease_db_ok db' \<and>
    lease_row db' (l_id l) = Some l \<and> l_status l = Lease_active"
proof -
  have loop: "acquire_loop n db input scope conf cp envs = (db', Inr (Acquired l disp ps)) \<Longrightarrow> lease_db_ok db \<Longrightarrow>
      l_kind l = ai_kind input \<and> l_resourceKey l = ai_resourceKey input" for n scope conf db
  proof (induction n arbitrary: db)
    case 0
    then show ?case
      by (auto simp: Let_def split: sum.splits option.splits)
  next
    case (Suc n)
    obtain d1 r1 where a: "acquire_attempt db input scope conf cp (envs (Suc n)) = (d1, r1)"
      by (cases "acquire_attempt db input scope conf cp (envs (Suc n))")
    show ?case
    proof (cases "r1 = Inr Retry")
      case True
      then have "acquire_loop n d1 input scope conf cp envs = (db', Inr (Acquired l disp ps))"
        using Suc.prems(1) by (simp add: a)
      moreover have "lease_db_ok d1"
        using attempt_acquired [OF env Suc.prems(2) a] Suc.prems(2) by (simp add: evolves_def)
      ultimately show ?thesis
        using Suc.IH by blast
    next
      case False
      then have "d1 = db'" "r1 = Inr (Acquired l disp ps)"
        using Suc.prems(1) by (auto simp: a split: sum.splits acquired.splits)
      then show ?thesis
        using attempt_resource [OF Suc.prems(2) env a [unfolded \<open>d1 = db'\<close> \<open>r1 = _\<close>] trim] by blast
    qed
  qed
  obtain scope conf where l3: "acquire_loop 3 db input scope conf cp envs = (db', Inr (Acquired l disp ps))"
    using acq by (auto simp: acquireDurableLease_def split: sum.splits prod.splits)
  have "acquired_row input db' l"
    using loop_acquired [OF env ok l3] by blast
  then show ?thesis
    using loop [OF l3 ok] acquire_evolves [OF env ok acq] by (simp add: acquired_row_def)
qed

lemma acquire_slots_taken:
  assumes env: "\<And>n k. others_step (ev_attempts env n k)"
  shows "acquire_slots env cfg slot r w n k st = (st', Inr (Some l)) \<Longrightarrow>
    lease_db_ok (ledger_of (sl_place slot) st) \<Longrightarrow>
    lease_db_ok (ledger_of (sl_place slot) st') \<and>
    lease_row (ledger_of (sl_place slot) st') (l_id (kl_record l)) = Some (kl_record l) \<and>
    l_status (kl_record l) = Lease_active \<and> l_kind (kl_record l) = Worker_lease \<and>
    (\<exists>j \<ge> k. j < k + n \<and> l_resourceKey (kl_record l) = slot_key (sl_namespace slot) j)"
proof (induction n arbitrary: k st)
  case 0
  then show ?case by simp
next
  case (Suc n)
  let ?p = "sl_place slot"
  obtain db q where acq: "acquireDurableLease (ledger_of ?p st) (slot_input cfg slot r w k) True
      (ev_attempts env (pw_turn st)) = (db, q)"
    by (cases "acquireDurableLease (ledger_of ?p st) (slot_input cfg slot r w k) True
      (ev_attempts env (pw_turn st))")
  have put: "ledger_of ?p (put_ledger ?p db st) = db"
    by (cases ?p) simp_all
  show ?case
  proof (cases "\<exists>l0 disp ps. q = Inr (Acquired l0 disp ps)")
    case True
    then obtain l0 disp ps where q: "q = Inr (Acquired l0 disp ps)" by blast
    then have l: "st' = put_ledger ?p db st" "kl_record l = l0"
      using Suc.prems(1) acq by (auto simp: Let_def)
    have "js_trim (ai_resourceKey (slot_input cfg slot r w k)) = ai_resourceKey (slot_input cfg slot r w k)"
      by (simp add: slot_input_def)
    from acquire_resource [OF Suc.prems(2) env acq [unfolded q] this] show ?thesis
      unfolding l put by (auto simp: slot_input_def intro!: exI [of _ k])
  next
    case False
    then have rest: "acquire_slots env cfg slot r w n (Suc k) (put_ledger ?p db st) = (st', Inr (Some l))"
      using Suc.prems(1) acq by (auto simp: Let_def split: sum.splits acquired.splits if_splits)
    have "lease_db_ok (ledger_of ?p (put_ledger ?p db st))"
      unfolding put by (rule acquire_evolves [OF env Suc.prems(2) acq])
    from Suc.IH [OF rest this] show ?thesis
      by (auto intro: Suc_leD)
  qed
qed

definition slot_leases :: "string \<Rightarrow> nat \<Rightarrow> string \<Rightarrow> lease_db \<Rightarrow> lease list" where
  "slot_leases namespace n workspaceId db =
     filter (\<lambda>l. l_status l = Lease_active \<and> l_workspaceId l = workspaceId \<and> l_kind l = Worker_lease \<and>
               List.member (map (slot_key namespace) [1 ..< n + 1]) (l_resourceKey l)) (ld_leases db)"

lemma slot_leases_bounded:
  assumes "lease_db_ok db"
  shows "length (slot_leases namespace n workspaceId db) \<le> n"
proof -
  let ?ls = "slot_leases namespace n workspaceId db"
  let ?active = "filter (\<lambda>l. l_status l = Lease_active) (ld_leases db)"
  let ?key = "\<lambda>l. (l_workspaceId l, l_kind l, l_resourceKey l)"
  let ?slots = "map (slot_key namespace) [1 ..< n + 1]"
  have sub: "?ls = filter (\<lambda>l. l_workspaceId l = workspaceId \<and> l_kind l = Worker_lease \<and>
      List.member ?slots (l_resourceKey l)) ?active"
    by (simp only: slot_leases_def filter_filter)
  have "distinct (map ?key ?active)"
    using assms by (simp add: lease_db_ok_def table_ok_def lease_index_def)
  then have "distinct (map ?key ?ls)"
    unfolding sub by (rule distinct_map_filter)
  then have "distinct (map l_resourceKey ?ls)"
    by (auto simp: distinct_map inj_on_def slot_leases_def)
  then have "length ?ls = card (set (map l_resourceKey ?ls))"
    by (metis distinct_card length_map)
  also have "\<dots> \<le> card (set ?slots)"
    by (rule card_mono) (auto simp: slot_leases_def)
  also have "\<dots> \<le> n"
    by (metis card_length length_map length_upt add_diff_cancel_right')
  finally show ?thesis .
qed

text \<open>A lease of the process on the first slot is found again.\<close>

lemma renew_not_conflict:
  assumes "renewDurableLease db i ow 30000 20000 t = Inl e"
  shows "\<not> isLeaseConflict e"
proof -
  have cas: "e' = SqliteError" if "lease_cas d c extra f = Inl e'" for d c extra f e'
    using that by (auto simp: lease_cas_def result_simps dest: update_rows_Inl)
  have read: "e' = ZodError" if "leaseById d j = Inl e'" for d j e'
    using that by (auto simp: leaseById_def read_lease_def split: option.splits if_splits)
  have "e = SqliteError \<or> e = ZodError \<or> e = leaseLost"
    using assms
    by (auto simp: renewDurableLease_def cas_and_read_def lease_duration_def safe_int_def result_simps
        split: option.splits if_splits prod.splits dest!: cas read)
  then show ?thesis
    by (auto simp: isLeaseConflict_def leaseLost_def)
qed

lemma own_lease_renewed:
  assumes ok: "lease_db_ok db"
    and act: "activeLease db (ai_workspaceId input) (ai_kind input) (ai_resourceKey input) = Inr (Some l0)"
    and own: "sameOwner l0 (ai_owner input)" and run: "l_runId l0 = ai_runId input"
    and quiet: "ae_before env = (\<lambda>db. db)" "ae_interference env = (\<lambda>db. db)"
    and at: "acquire_attempt db input scope conf cp env = (db', r)"
    and ms: "ai_leaseDurationMs input = 30000" "ai_staleGraceMs input = 20000"
  shows "(\<exists>l. r = Inr (Acquired l None []) \<and> l_id l = l_id l0 \<and> lease_db_ok db') \<or>
    (\<exists>e. r = Inl e \<and> \<not> isLeaseConflict e)"
proof (cases "renewDurableLease db (l_id l0) (ai_owner input) 30000 20000 (ae_acquiredAt env)")
  case (Inl e)
  then show ?thesis
    using at act own run quiet ms renew_not_conflict [OF Inl]
    by (auto simp: acquire_attempt_def readActiveDurableLease_def Let_def split: if_splits)
next
  case (Inr x)
  obtain d l where x: "x = (d, l)" by (cases x)
  note rn = Inr [unfolded x]
  have "l_id l = l_id l0"
    using renew_Inr [OF ok rn] find_row_Some [of l_id "ld_leases d" "l_id l0" l] by auto
  moreover have "lease_db_ok d"
    using evolves_renew [OF rn] ok by (simp add: evolves_def)
  ultimately show ?thesis
    using at act own run quiet ms rn
    by (auto simp: acquire_attempt_def readActiveDurableLease_def Let_def split: if_splits)
qed

lemma own_lease_reacquired:
  assumes ok: "lease_db_ok db"
    and act: "activeLease db (ai_workspaceId input) (ai_kind input) (ai_resourceKey input) = Inr (Some l0)"
    and own: "sameOwner l0 (ai_owner input)" and run: "l_runId l0 = ai_runId input"
    and quiet: "ae_before (envs 3) = (\<lambda>db. db)" "ae_interference (envs 3) = (\<lambda>db. db)"
    and acq: "acquireDurableLease db input cp envs = (db', r)"
    and ms: "ai_leaseDurationMs input = 30000" "ai_staleGraceMs input = 20000"
      "ai_staleProbeConfirmations input = Some 2" "ai_staleProbeIntervalMs input = Some 250"
  shows "(\<exists>l. r = Inr (Acquired l None []) \<and> l_id l = l_id l0 \<and> lease_db_ok db') \<or>
    (\<exists>e. r = Inl e \<and> \<not> isLeaseConflict e)"
proof (cases "canonicalScope (ai_scope input)")
  case (Inl e)
  then have "r = Inl lease_invalid"
    using acq ms by (auto simp: acquireDurableLease_def lease_duration_def safe_int_def canonicalScope_def
        Let_def split: if_splits)
  then show ?thesis
    by (simp add: isLeaseConflict_def lease_invalid_def)
next
  case (Inr scope)
  have loop: "acquire_loop 3 db input scope 2 cp envs = (db', r)"
    using acq ms Inr by (auto simp: acquireDurableLease_def lease_duration_def safe_int_def)
  obtain d1 r1 where a: "acquire_attempt db input scope 2 cp (envs 3) = (d1, r1)"
    by (cases "acquire_attempt db input scope 2 cp (envs 3)")
  note own1 = own_lease_renewed [OF ok act own run quiet a ms(1,2)]
  have "db' = d1 \<and> r = r1"
    using loop a own1 by (auto simp: numeral_3_eq_3)
  then show ?thesis
    using own1 by simp
qed

section \<open>Properties\<close>

definition sample_par_env :: par_env where
  "sample_par_env =
     \<lparr>ev_win = False, ev_collate = sample_collate,
      ev_attempts = (\<lambda>n k. sample_env (sample_fresh ''l'' n) (int n)), ev_now = int,
      ev_uuid = sample_fresh ''u'', ev_claimIds = (\<lambda>n k. sample_fresh (sample_fresh ''c'' n @ ''x'') k),
      ev_timers = (\<lambda>n. []), ev_otherLeases = (\<lambda>n p db. db), ev_otherClaims = (\<lambda>n db. db)\<rparr>"

definition sample_port_config :: port_config where
  "sample_port_config =
     \<lparr>kc_workspaceId = ''ws'', kc_maximumGlobal = 2, kc_maximumProject = 2,
      kc_maximumByProvider = [], kc_maximumByModel = [], kc_owner = sample_owner ''a'',
      kc_claimOwnerInstanceId = ''a''\<rparr>"

definition sample_world :: "string list par_world" where
  "sample_world =
     \<lparr>pw_global = empty_lease_db, pw_project = empty_lease_db, pw_claims = sample_run_db,
      pw_bundles = [], pw_owned = [], pw_turn = 0, pw_user = [''z'']\<rparr>"

definition sample_callers :: "(string list, unit) callers" where
  "sample_callers =
     \<lparr>cb_snapshot = (\<lambda>u. Return u (Inr
        \<lparr>sw_candidates = filter (\<lambda>c. \<not> List.member u (pc_taskId c)) [sample_candidate ''a'' 1 [''z''] ''p''],
         sw_completedTaskIds = u, sw_capacity = sample_capacity\<lparr>pk_activeGlobal := 0\<rparr>\<rparr>)),
      cb_observe = (\<lambda>u ob. Return u (Inr ())),
      cb_execute = (\<lambda>u d. Call u (Call_assert_capacity (pq_capacityLeaseId d)) (\<lambda>q.
        Call u (Call_assert_claims (st_id (fst (pq_claimSet d)))) (\<lambda>q'.
        Return (pc_taskId (pd_candidate (pq_dispatch d)) # u) (Inr
          \<lparr>wr_terminal = \<lparr>wt_taskId = pc_taskId (pd_candidate (pq_dispatch d)), wt_attemptId = ''t'',
             wt_outcome = (if ok q \<and> ok q' then Out_completed else Out_failed), wt_failureCount = 0\<rparr>,
           wr_value = None, wr_error = None\<rparr>)))),
      cb_integrate = (\<lambda>u rs. Return u (Inr ()))\<rparr>"

text \<open>A ledger with one lease of the process, on the first slot of a namespace.\<close>

definition sample_slot :: capacity_slot where
  "sample_slot = \<lparr>sl_scope = Scope_global, sl_place = Global_ledger, sl_workspaceId = ''g'',
     sl_namespace = ''n'', sl_maximum = 2\<rparr>"

definition sample_slot_lease :: lease where
  "sample_slot_lease =
     sample_lease\<lparr>l_id := ''l'', l_kind := Worker_lease, l_resourceKey := slot_key ''n'' 1,
       l_workspaceId := ''g'', l_runId := Some ''r'', l_workerId := Some ''w'',
       l_command := ''ralph parallel capacity'', l_scope := [''parallel:capacity:n'', ''parallel:execute''],
       l_expiresAt := 30000, l_graceExpiresAt := 50000\<rparr>"

definition sample_slot_world :: "string list par_world" where
  "sample_slot_world = sample_world\<lparr>pw_global := empty_lease_db\<lparr>ld_leases := [sample_slot_lease]\<rparr>\<rparr>"

definition sample_idle_world :: "string list par_world" where
  "sample_idle_world = sample_world\<lparr>pw_user := [''z'', ''a'']\<rparr>"

lemma sample_root_returns:
  "ok (snd (run_parallel_root sample_par_env sample_port_config sample_callers sample_policy 3 (\<lambda>n. [0])
     sample_idle_world))"
  by code_simp

lemma sample_slot_scope:
  "canonicalScope (ai_scope (slot_input sample_port_config sample_slot ''r'' w 1)) =
     Inr [''parallel:capacity:n'', ''parallel:execute'']"
proof -
  have "canonicalScope [''parallel:execute'', ''parallel:capacity:n''] =
      Inr [''parallel:capacity:n'', ''parallel:execute'']"
    by code_simp
  then show ?thesis
    by (simp add: slot_input_def sample_slot_def)
qed

lemma sample_slot_acquires:
  assumes "acquire_attempt db (slot_input sample_port_config sample_slot ''r'' w 1)
      [''parallel:capacity:n'', ''parallel:execute''] 2 True (sample_env ''l'' 0) = (db', Inr (Acquired l d ps))"
  shows "acquireDurableLease db (slot_input sample_port_config sample_slot ''r'' w 1) True
      (ev_attempts sample_par_env 0) = (db', Inr (Acquired l d ps))"
proof -
  have env: "ev_attempts sample_par_env 0 = (\<lambda>k. sample_env ''l'' 0)"
    by (simp add: sample_par_env_def sample_fresh_def)
  show ?thesis
    using assms sample_slot_scope [of w]
    by (simp add: acquireDurableLease_def lease_duration_def safe_int_def env numeral_3_eq_3)
       (simp add: slot_input_def)
qed

lemma sample_slot_leased:
  "\<exists>db. acquireDurableLease empty_lease_db (slot_input sample_port_config sample_slot ''r'' ''w'' 1) True
     (ev_attempts sample_par_env 0) = (db, Inr (Acquired sample_slot_lease None []))"
proof -
  let ?in = "slot_input sample_port_config sample_slot ''r'' ''w'' 1"
  let ?scope = "[''parallel:capacity:n'', ''parallel:execute'']"
  have new: "newLease ?in ''l'' 0 ?scope = Inr sample_slot_lease"
    by code_simp
  have "ok (insertLease empty_lease_db sample_slot_lease)"
    by code_simp
  then obtain db where db: "insertLease empty_lease_db sample_slot_lease = Inr db"
    by (auto simp: ok_iff)
  have none: "activeLease empty_lease_db w k r = Inr None" for w k r
    by (simp add: activeLease_def empty_lease_db_def read_lease_def)
  have "acquire_attempt empty_lease_db ?in ?scope 2 True (sample_env ''l'' 0) =
      (leaseEvent db sample_slot_lease ''lease.acquired'', Inr (Acquired sample_slot_lease None []))"
    using new db by (simp add: acquire_attempt_def acquire_commit_def readActiveDurableLease_def none
        sample_env_def slot_input_def)
  then show ?thesis
    using sample_slot_acquires by blast
qed

lemma sample_par_others: "others_step (ev_attempts sample_par_env n k)"
  by (simp add: sample_par_env_def sample_others)

lemma sample_fair: "others_fair sample_par_env cfg"
proof -
  have "inj (ev_uuid sample_par_env)"
    by (rule injI) (simp add: sample_par_env_def sample_fresh_def)
  then show ?thesis
    using sample_par_others
    by (simp add: others_fair_def no_gain_def) (simp add: sample_par_env_def sample_env_def)
qed

text \<open>
  C6. A parallel run leaves nothing behind: when \<^verbatim>\<open>executeParallelWaves\<close> and the two final
  releases of the runner return, started in a process that held nothing, no capacity lease and no
  claim set of the process is active in any ledger and the ports hold nothing, whatever the workers,
  the observers and other processes did.
\<close>

theorem parallel_root_leaves_nothing_active:
  assumes "others_fair env cfg"
    and "lease_db_ok (pw_global st)" and "lease_db_ok (pw_project st)" and "claim_db_ok (ev_win env) (pw_claims st)"
    and "my_leases (kc_owner cfg) (pw_global st) = {}" and "my_leases (kc_owner cfg) (pw_project st) = {}"
    and "my_sets cfg (pw_claims st) = {}" and "pw_bundles st = []"
    and "run_parallel_root env cfg cb policy maximum order st = (st', Inr p)"
  shows "my_leases (kc_owner cfg) (pw_global st') = {} \<and> my_leases (kc_owner cfg) (pw_project st') = {} \<and>
    my_sets cfg (pw_claims st') = {} \<and> pw_bundles st' = [] \<and> pw_owned st' = []"
proof -
  have "my_leases (kc_owner cfg) (ledger_of q st) = {}" for q
    using assms(5,6) by (cases q) simp_all
  then have "accounted env cfg [] st"
    using assms(2-4,7,8) by (simp add: accounted_def bundle_ids_def)
  note end_state = run_parallel_root_settled [OF assms(1) this assms(9)]
  show ?thesis
    using nothing_held [of env cfg st'] end_state by blast
qed

theorem parallel_root_leaves_nothing_active_witness:
  "\<exists>st' p. run_parallel_root sample_par_env sample_port_config sample_callers sample_policy 3 (\<lambda>n. [0])
     sample_idle_world = (st', Inr p) \<and> my_sets sample_port_config (pw_claims st') = {} \<and>
     my_leases (sample_owner ''a'') (pw_global st') = {}"
proof -
  obtain st' p where run: "run_parallel_root sample_par_env sample_port_config sample_callers sample_policy 3
      (\<lambda>n. [0]) sample_idle_world = (st', Inr p)"
    using sample_root_returns by (auto simp: ok_iff prod_eq_iff)
  have "claim_db_ok False empty_claim_db"
    by (simp add: claim_db_ok_def empty_claim_db_def table_ok_def no_index_def claims_disjoint_def)
  with sample_run_steps have "claim_db_ok False sample_run_db"
    by (rule claim_steps_keep)
  then have "claim_db_ok (ev_win sample_par_env) (pw_claims sample_idle_world)"
    by (simp add: sample_idle_world_def sample_world_def sample_par_env_def)
  moreover have "pw_global sample_idle_world = empty_lease_db \<and> pw_project sample_idle_world = empty_lease_db \<and>
      cd_sets (pw_claims sample_idle_world) = [] \<and> pw_bundles sample_idle_world = []"
    by (simp add: sample_idle_world_def sample_world_def sample_run_db_def empty_claim_db_def)
  moreover have "my_leases w empty_lease_db = {}" for w
    by (simp add: my_leases_def empty_lease_db_def)
  ultimately have "my_leases (kc_owner sample_port_config) (pw_global st') = {} \<and>
      my_sets sample_port_config (pw_claims st') = {}"
    using parallel_root_leaves_nothing_active [OF sample_fair _ _ _ _ _ _ _ run]
    by (simp add: my_sets_def my_rows_def empty_lease_db_ok)
  then show ?thesis
    using run by (auto simp: sample_port_config_def)
qed

text \<open>
  Slots are bounded: a slot \<^verbatim>\<open>acquireSlot\<close> returns is one of the \<^verbatim>\<open>maximum\<close>
  of its namespace, active in the ledger for a worker, and the ledger then has at most that many
  active leases on the slots of the namespace.
\<close>

theorem worker_slots_are_bounded:
  assumes "\<And>n k. others_step (ev_attempts env n k)"
    and "lease_steps empty_lease_db (ledger_of (sl_place slot) st)"
    and "acquireSlot env cfg slot runId workerId st = (st', Inr (Some l))"
  shows "lease_row (ledger_of (sl_place slot) st') (l_id (kl_record l)) = Some (kl_record l) \<and>
    l_status (kl_record l) = Lease_active \<and> l_kind (kl_record l) = Worker_lease \<and>
    (\<exists>j \<ge> 1. int j \<le> sl_maximum slot \<and> l_resourceKey (kl_record l) = slot_key (sl_namespace slot) j) \<and>
    length (slot_leases (sl_namespace slot) (nat (sl_maximum slot)) (sl_workspaceId slot)
      (ledger_of (sl_place slot) st')) \<le> nat (sl_maximum slot)"
proof -
  have ok: "lease_db_ok (ledger_of (sl_place slot) st)"
    using lease_steps_evolve [OF assms(2)] empty_lease_db_ok by (simp add: evolves_def)
  note t = acquire_slots_taken [OF assms(1) assms(3) [unfolded acquireSlot_def] ok]
  then obtain j where "j \<ge> 1" "j < 1 + nat (sl_maximum slot)"
      "l_resourceKey (kl_record l) = slot_key (sl_namespace slot) j"
    by blast
  moreover from this have "int j \<le> sl_maximum slot"
    by linarith
  ultimately show ?thesis
    using t slot_leases_bounded by blast
qed

theorem worker_slots_are_bounded_witness:
  "\<exists>st' l. acquireSlot sample_par_env sample_port_config sample_slot ''r'' ''w'' sample_world = (st', Inr (Some l)) \<and>
     length (slot_leases ''n'' 2 ''g'' (pw_global st')) \<le> 2"
proof -
  obtain db where "acquireDurableLease empty_lease_db (slot_input sample_port_config sample_slot ''r'' ''w'' 1) True
     (ev_attempts sample_par_env 0) = (db, Inr (Acquired sample_slot_lease None []))"
    using sample_slot_leased by blast
  then obtain st' l where a: "acquireSlot sample_par_env sample_port_config sample_slot ''r'' ''w'' sample_world
      = (st', Inr (Some l))"
    by (auto simp: acquireSlot_def sample_slot_def sample_world_def numeral_2_eq_2)
  then show ?thesis
    using worker_slots_are_bounded [OF sample_par_others _ a]
    by (auto simp: sample_slot_def sample_world_def)
qed

text \<open>
  C32. The workers of one process share one slot: when the process already has the lease of the
  first slot for the run and no other process intervenes, \<^verbatim>\<open>acquireSlot\<close> never reports the
  scope full, and a lease it returns is that same lease; and after the release of the one worker's
  lease no assertion of the other's succeeds. The limit of a scope counts processes, not workers.
\<close>

theorem one_process_shares_one_slot:
  assumes "lease_db_ok (ledger_of (sl_place slot) st)"
    and "activeLease (ledger_of (sl_place slot) st) (sl_workspaceId slot) Worker_lease
       (slot_key (sl_namespace slot) 1) = Inr (Some l0)"
    and "sameOwner l0 (kc_owner cfg)" and "l_runId l0 = Some runId"
    and "ae_before (ev_attempts env (pw_turn st) 3) = (\<lambda>db. db)"
    and "ae_interference (ev_attempts env (pw_turn st) 3) = (\<lambda>db. db)"
    and "sl_maximum slot \<ge> 1"
    and "acquireSlot env cfg slot runId workerId st = (st', r)"
  shows "r \<noteq> Inr None \<and>
    (\<forall>l. r = Inr (Some l) \<longrightarrow> l_id (kl_record l) = l_id l0 \<and>
       (\<forall>t db ended u. releaseDurableLease (ledger_of (sl_place slot) st') (l_id (kl_record l))
            (kc_owner cfg) t = Inr (db, ended) \<longrightarrow>
          \<not> ok (assertDurableLeaseOwned db (l_id l0) (kc_owner cfg) u)))"
proof -
  obtain n where n: "nat (sl_maximum slot) = Suc n"
    using assms(7) by (metis Suc_pred zero_less_nat_eq zero_less_one_class.zero_less_one order_less_le_trans)
  let ?db = "ledger_of (sl_place slot) st"
  let ?in = "slot_input cfg slot runId workerId (Suc 0)"
  obtain db1 q where acq: "acquireDurableLease ?db ?in True (ev_attempts env (pw_turn st)) = (db1, q)"
    by (cases "acquireDurableLease ?db ?in True (ev_attempts env (pw_turn st))")
  have own: "(\<exists>l. q = Inr (Acquired l None []) \<and> l_id l = l_id l0 \<and> lease_db_ok db1) \<or>
      (\<exists>e. q = Inl e \<and> \<not> isLeaseConflict e)"
    using own_lease_reacquired [OF assms(1) _ _ _ assms(5,6) acq] assms(2-4)
    by (simp add: slot_input_def)
  have st': "(st', r) = (put_ledger (sl_place slot) db1 st,
      case q of Inr (Acquired l _ _) \<Rightarrow> Inr (Some \<lparr>kl_place = sl_place slot, kl_record = l\<rparr>) | Inl e \<Rightarrow> Inl e)"
    using assms(8) own by (auto simp: acquireSlot_def n acq)
  from own show ?thesis
  proof
    assume "\<exists>l. q = Inr (Acquired l None []) \<and> l_id l = l_id l0 \<and> lease_db_ok db1"
    then obtain l where q: "q = Inr (Acquired l None [])" "l_id l = l_id l0" "lease_db_ok db1"
      by blast
    have ledger: "ledger_of (sl_place slot) st' = db1"
      using st' by (cases "sl_place slot") simp_all
    have "\<not> ok (assertDurableLeaseOwned db (l_id l0) (kc_owner cfg) u)"
      if "releaseDurableLease db1 (l_id l0) (kc_owner cfg) t = Inr (db, ended)" for t db ended u
      using release_ends [OF q(3) that] ended_not_owned by blast
    then show ?thesis
      unfolding ledger using st' q(1,2) by simp blast
  next
    assume "\<exists>e. q = Inl e \<and> \<not> isLeaseConflict e"
    then show ?thesis
      using st' by auto
  qed
qed

theorem one_process_shares_one_slot_witness:
  "\<exists>st' l. acquireSlot sample_par_env sample_port_config sample_slot ''r'' ''v'' sample_slot_world = (st', Inr (Some l)) \<and>
     l_id (kl_record l) = l_id sample_slot_lease"
proof -
  let ?db = "empty_lease_db\<lparr>ld_leases := [sample_slot_lease]\<rparr>"
  let ?in = "slot_input sample_port_config sample_slot ''r'' ''v'' 1"
  have ok: "lease_db_ok ?db"
    unfolding lease_db_ok_def table_ok_def by (intro conjI; code_simp)
  have act: "activeLease ?db ''g'' Worker_lease (slot_key ''n'' 1) = Inr (Some sample_slot_lease)"
    by code_simp
  have own: "sameOwner sample_slot_lease (sample_owner ''a'')"
    by code_simp
  have run: "l_runId sample_slot_lease = Some ''r''" "l_id sample_slot_lease = ''l''"
    by (simp_all add: sample_slot_lease_def)
  have "ok (renewDurableLease ?db ''l'' (sample_owner ''a'') 30000 20000 0)"
    by code_simp
  then obtain db l where "renewDurableLease ?db ''l'' (sample_owner ''a'') 30000 20000 0 = Inr (db, l)"
    by (auto simp: ok_iff)
  then have "acquire_attempt ?db ?in [''parallel:capacity:n'', ''parallel:execute''] 2 True (sample_env ''l'' 0) =
      (db, Inr (Acquired l None []))"
    using act own run by (simp add: acquire_attempt_def readActiveDurableLease_def sample_env_def slot_input_def
        sample_slot_def sample_port_config_def)
  from sample_slot_acquires [OF this]
  obtain st' l where a: "acquireSlot sample_par_env sample_port_config sample_slot ''r'' ''v'' sample_slot_world
      = (st', Inr (Some l))"
    by (auto simp: acquireSlot_def sample_slot_def sample_slot_world_def sample_world_def numeral_2_eq_2)
  have "l_id (kl_record l) = l_id sample_slot_lease"
    using one_process_shares_one_slot [OF _ _ _ run(1) _ _ _ a] ok act own
    by (simp add: sample_slot_world_def sample_slot_def sample_port_config_def sample_par_env_def sample_env_def)
  then show ?thesis
    using a by blast
qed

end
