(* ===== verification/ChildModel.thy ===== *)
theory ChildModel
  imports Lifecycle Leases
begin

text \<open>
  \<^verbatim>\<open>packages/domain/src/child.ts\<close>: the statuses of the link between a parent task and the
  child run that refines it, the records and their schemas. The usage summaries of an
  observation, which are only displayed, are left out. \<^verbatim>\<open>CounterSchema\<close> is \<open>counter\<close> on
  naturals: the schema's integers are safe.
\<close>

section \<open>Statuses\<close>

datatype child_status =
    Child_reserved | Child_starting | Child_running | Child_waiting | Child_blocked
  | Child_interrupted | Child_passed | Child_failed | Child_cancelled

datatype parent_policy = Pause_with_parent | Survive_parent

fun ChildRunStatusTransitions :: "child_status \<Rightarrow> child_status list" where
  "ChildRunStatusTransitions Child_reserved =
     [Child_starting, Child_running, Child_interrupted, Child_passed, Child_failed, Child_cancelled]"
| "ChildRunStatusTransitions Child_starting =
     [Child_running, Child_interrupted, Child_passed, Child_failed, Child_cancelled]"
| "ChildRunStatusTransitions Child_running =
     [Child_waiting, Child_blocked, Child_interrupted, Child_passed, Child_failed, Child_cancelled]"
| "ChildRunStatusTransitions Child_waiting =
     [Child_starting, Child_running, Child_blocked, Child_interrupted, Child_passed, Child_failed,
      Child_cancelled]"
| "ChildRunStatusTransitions Child_blocked =
     [Child_starting, Child_running, Child_interrupted, Child_passed, Child_failed, Child_cancelled]"
| "ChildRunStatusTransitions Child_interrupted =
     [Child_starting, Child_running, Child_passed, Child_failed, Child_cancelled]"
| "ChildRunStatusTransitions Child_passed = []"
| "ChildRunStatusTransitions Child_failed = []"
| "ChildRunStatusTransitions Child_cancelled = []"

definition canTransitionChildRunStatus :: "child_status \<Rightarrow> child_status \<Rightarrow> bool" where
  "canTransitionChildRunStatus a b \<longleftrightarrow> a = b \<or> allows ChildRunStatusTransitions a b"

definition isTerminalChildRunStatus :: "child_status \<Rightarrow> bool" where
  "isTerminalChildRunStatus s \<longleftrightarrow> s = Child_passed \<or> s = Child_failed \<or> s = Child_cancelled"

definition isResumableChildRunStatus :: "child_status \<Rightarrow> bool" where
  "isResumableChildRunStatus s \<longleftrightarrow> \<not> isTerminalChildRunStatus s"

fun childRunStatusFromRunStatus :: "run_status \<Rightarrow> child_status" where
  "childRunStatusFromRunStatus Run_created = Child_reserved"
| "childRunStatusFromRunStatus Run_running = Child_running"
| "childRunStatusFromRunStatus Run_stopping = Child_interrupted"
| "childRunStatusFromRunStatus Run_interrupted = Child_interrupted"
| "childRunStatusFromRunStatus Run_waiting = Child_waiting"
| "childRunStatusFromRunStatus Run_completed = Child_passed"
| "childRunStatusFromRunStatus Run_failed = Child_failed"
| "childRunStatusFromRunStatus Run_cancelled = Child_cancelled"

section \<open>Records\<close>

definition counter :: "nat \<Rightarrow> bool" where
  "counter n \<longleftrightarrow> safe_int (int n)"

record child_progress =
  gp_completed :: nat
  gp_total :: nat
  gp_currentDocumentId :: "string option"
  gp_currentTaskId :: "string option"

definition valid_child_progress :: "child_progress \<Rightarrow> bool" where
  "valid_child_progress p \<longleftrightarrow>
     counter (gp_completed p) \<and> counter (gp_total p) \<and>
     nonempty_opt (gp_currentDocumentId p) \<and> nonempty_opt (gp_currentTaskId p) \<and>
     gp_completed p \<le> gp_total p \<and>
     (gp_currentDocumentId p = None \<longleftrightarrow> gp_currentTaskId p = None)"

datatype child_watchdog = Cw_idle | Cw_healthy | Cw_slow | Cw_suspect | Cw_recovering | Cw_stalled

record child_observability =
  gb_progress :: child_progress
  gb_lastSourceEventSequence :: nat
  gb_lastLogSequence :: nat
  gb_watchdogStatus :: child_watchdog
  gb_lastError :: "string option"

definition valid_child_observability :: "child_observability \<Rightarrow> bool" where
  "valid_child_observability b \<longleftrightarrow>
     valid_child_progress (gb_progress b) \<and> counter (gb_lastSourceEventSequence b) \<and>
     counter (gb_lastLogSequence b) \<and> nonempty_opt (gb_lastError b)"

definition parse_child_observability :: "child_observability \<Rightarrow> child_observability result" where
  "parse_child_observability b = (if valid_child_observability b then Inr b else Inl ZodError)"

definition emptyChildRunObservability :: "nat \<Rightarrow> child_observability result" where
  "emptyChildRunObservability totalTasks =
     parse_child_observability
       \<lparr>gb_progress = \<lparr>gp_completed = 0, gp_total = totalTasks, gp_currentDocumentId = None,
                       gp_currentTaskId = None\<rparr>,
        gb_lastSourceEventSequence = 0, gb_lastLogSequence = 0, gb_watchdogStatus = Cw_idle,
        gb_lastError = None\<rparr>"

text \<open>
  The receipt of a terminal link; its status is one of the three terminal ones. The schema asks
  of a passed receipt that progress is complete and the artifacts are reconciled.
\<close>

record child_receipt =
  rc_linkId :: string
  rc_childRunId :: string
  rc_status :: child_status
  rc_progress :: child_progress
  rc_artifactsReconciled :: bool
  rc_graphHash :: string
  rc_finishedAt :: int
  rc_reason :: string
  rc_contentHash :: string

definition complete_progress :: "child_progress \<Rightarrow> bool" where
  "complete_progress p \<longleftrightarrow> \<not> gp_total p < 1 \<and> gp_completed p = gp_total p"

definition valid_child_receipt :: "child_receipt \<Rightarrow> bool" where
  "valid_child_receipt r \<longleftrightarrow>
     nonempty (rc_linkId r) \<and> nonempty (rc_childRunId r) \<and> isTerminalChildRunStatus (rc_status r) \<and>
     valid_child_progress (rc_progress r) \<and> sha256 (rc_graphHash r) \<and> nonempty (rc_reason r) \<and>
     sha256 (rc_contentHash r) \<and>
     \<not> (rc_status r = Child_passed \<and> (\<not> rc_artifactsReconciled r \<or> \<not> complete_progress (rc_progress r)))"

text \<open>
  A link, with the column of its receipt. Its completion policy has one value only and is left
  out. Depth and the number of children are the numbers the caller gave.
\<close>

record child_link =
  ln_id :: string
  ln_workspaceId :: string
  ln_parentRunId :: string
  ln_parentDocumentId :: string
  ln_parentTaskId :: string
  ln_childRunId :: string
  ln_childDocumentId :: string
  ln_childRootPrdFile :: string
  ln_graphDefinitionHash :: string
  ln_graphHash :: string
  ln_inheritedOptionsHash :: string
  ln_materializationHash :: string
  ln_depth :: int
  ln_expectedDirectChildren :: int
  ln_parentPolicy :: parent_policy
  ln_status :: child_status
  ln_revision :: nat
  ln_leaseId :: "string option"
  ln_observability :: child_observability
  ln_artifactsReconciled :: bool
  ln_receipt :: "child_receipt option"
  ln_createdAt :: int
  ln_updatedAt :: int
  ln_lastHeartbeatAt :: "int option"
  ln_terminalAt :: "int option"
  ln_terminalReason :: "string option"

definition valid_child_link :: "child_link \<Rightarrow> bool" where
  "valid_child_link l \<longleftrightarrow>
     nonempty (ln_id l) \<and> nonempty (ln_workspaceId l) \<and> nonempty (ln_parentRunId l) \<and>
     nonempty (ln_parentDocumentId l) \<and> nonempty (ln_parentTaskId l) \<and> nonempty (ln_childRunId l) \<and>
     nonempty (ln_childDocumentId l) \<and> nonempty (ln_childRootPrdFile l) \<and>
     sha256 (ln_graphDefinitionHash l) \<and> sha256 (ln_graphHash l) \<and>
     sha256 (ln_inheritedOptionsHash l) \<and> sha256 (ln_materializationHash l) \<and>
     safe_int (ln_depth l) \<and> 0 \<le> ln_depth l \<and>
     safe_int (ln_expectedDirectChildren l) \<and> 0 \<le> ln_expectedDirectChildren l \<and>
     counter (ln_revision l) \<and> nonempty_opt (ln_leaseId l) \<and>
     valid_child_observability (ln_observability l) \<and> nonempty_opt (ln_terminalReason l) \<and>
     (isTerminalChildRunStatus (ln_status l) \<longleftrightarrow> ln_terminalAt l \<noteq> None) \<and>
     (ln_status l = Child_passed \<longrightarrow>
        ln_artifactsReconciled l \<and> complete_progress (gb_progress (ln_observability l)))"

lemma terminal_status_simps [simp]:
  "isTerminalChildRunStatus Child_passed" "isTerminalChildRunStatus Child_failed"
  "isTerminalChildRunStatus Child_cancelled" "\<not> isTerminalChildRunStatus Child_reserved"
  "\<not> isTerminalChildRunStatus Child_starting" "\<not> isTerminalChildRunStatus Child_running"
  "\<not> isTerminalChildRunStatus Child_waiting" "\<not> isTerminalChildRunStatus Child_blocked"
  "\<not> isTerminalChildRunStatus Child_interrupted"
  by (simp_all add: isTerminalChildRunStatus_def)

lemma terminal_child_stays:
  "isTerminalChildRunStatus a \<Longrightarrow> canTransitionChildRunStatus a b \<longleftrightarrow> a = b"
  by (cases a) (auto simp: canTransitionChildRunStatus_def allows_def)

lemma child_status_of_terminal_run:
  "isTerminalChildRunStatus (childRunStatusFromRunStatus s) \<longleftrightarrow> run_terminal s"
  by (cases s) (simp_all add: run_terminal_def)

end
