(* ===== verification/RunStore.thy ===== *)
theory RunStore
  imports Lifecycle Table
begin

text \<open>
  The runs and tasks of the ledger, and the functions that write them:
  \<^verbatim>\<open>createRun\<close>, \<^verbatim>\<open>updateRun\<close>, \<^verbatim>\<open>materializeRunTasks\<close> and
  \<^verbatim>\<open>upsertRunTask\<close> of \<^verbatim>\<open>packages/persistence/src/execution-store.ts\<close>, which check no
  status machine, and \<^verbatim>\<open>transitionStoredRun\<close> and \<^verbatim>\<open>transitionStoredTask\<close> of
  \<^verbatim>\<open>packages/orchestration/src/state-store.ts\<close>, which check it on the record the caller
  holds. Each function is one transaction: it returns the ledger it commits. The ledger is an
  extensible record; the components that add tables to it extend \<open>run_db\<close>.
\<close>

section \<open>Tables\<close>

datatype event_level = Level_trace | Level_debug | Level_info | Level_warn | Level_error

text \<open>An event; \<open>xe_body\<close> stands for the parts of its envelope that no operation reads.\<close>

record run_event =
  xe_id :: string
  xe_sequence :: nat
  xe_type :: string
  xe_runId :: "string option"
  xe_workspaceId :: string
  xe_level :: event_level
  xe_body :: string

record 'o run_db =
  xd_runs :: "'o run_record list"
  xd_tasks :: "task_record list"
  xd_events :: "run_event list"
  xd_sequence :: nat

text \<open>
  What the code takes from outside: the digest of node's crypto library, the schema of the body
  of effective options, and its mode.
\<close>

record 'o run_env =
  re_digest :: "string \<Rightarrow> string"
  re_optionsOk :: "'o \<Rightarrow> bool"
  re_modeOf :: "'o \<Rightarrow> run_mode"

section \<open>Reading\<close>

definition recordNotFound :: "string \<Rightarrow> failure" where
  "recordNotFound entity = RalphError (''RALPH_'' @ entity @ ''_NOT_FOUND'') Exit_invalidUsage"

definition run_row :: "('o, 'z) run_db_scheme \<Rightarrow> string \<Rightarrow> 'o run_record option" where
  "run_row db i = find_row rr_id (xd_runs db) i"

definition runFromRow :: "'o run_env \<Rightarrow> 'o run_record \<Rightarrow> 'o run_record result" where
  "runFromRow env r = parse_run_record (re_digest env) (re_optionsOk env) r"

definition findRunInDatabase ::
  "'o run_env \<Rightarrow> ('o, 'z) run_db_scheme \<Rightarrow> string \<Rightarrow> 'o run_record option result" where
  "findRunInDatabase env db i =
     (case run_row db i of None \<Rightarrow> Inr None | Some r \<Rightarrow> and_then (runFromRow env r) (\<lambda>r. Inr (Some r)))"

definition requireRun ::
  "'o run_env \<Rightarrow> ('o, 'z) run_db_scheme \<Rightarrow> string \<Rightarrow> 'o run_record result" where
  "requireRun env db i =
     and_then (findRunInDatabase env db i) (\<lambda>r.
       case r of None \<Rightarrow> Inl (recordNotFound ''RUN'') | Some r \<Rightarrow> Inr r)"

type_synonym task_key = "string \<times> string \<times> string"

definition task_key :: "task_record \<Rightarrow> task_key" where
  "task_key t = (tr_runId t, tr_documentId t, tr_taskId t)"

definition task_row :: "('o, 'z) run_db_scheme \<Rightarrow> task_key \<Rightarrow> task_record option" where
  "task_row db k = find (\<lambda>t. task_key t = k) (xd_tasks db)"

definition findTaskInDatabase ::
  "('o, 'z) run_db_scheme \<Rightarrow> string \<Rightarrow> string \<Rightarrow> string \<Rightarrow> task_record option result" where
  "findTaskInDatabase db runId documentId taskId =
     (case task_row db (runId, documentId, taskId) of
        None \<Rightarrow> Inr None
      | Some t \<Rightarrow> and_then (parse_task_record t) (\<lambda>t. Inr (Some t)))"

section \<open>Events\<close>

text \<open>\<^verbatim>\<open>appendEventInTransaction\<close>: identities are unique, sequences are never reused.\<close>

definition appendEvent :: "('o, 'z) run_db_scheme \<Rightarrow> run_event \<Rightarrow> ('o, 'z) run_db_scheme result" where
  "appendEvent db e =
     (if find_row xe_id (xd_events db) (xe_id e) \<noteq> None then Inl SqliteError
      else if \<not> (nonempty (xe_id e) \<and> nonempty (xe_type e) \<and> nonempty_opt (xe_runId e) \<and>
                 nonempty (xe_workspaceId e)) then Inl ZodError
      else Inr (db\<lparr>xd_events := xd_events db @ [e\<lparr>xe_sequence := xd_sequence db + 1\<rparr>],
                   xd_sequence := xd_sequence db + 1\<rparr>))"

definition run_event_of :: "string \<Rightarrow> string \<Rightarrow> string \<Rightarrow> string \<Rightarrow> event_level \<Rightarrow> run_event" where
  "run_event_of eventId type runId workspaceId level =
     \<lparr>xe_id = eventId, xe_sequence = 0, xe_type = type, xe_runId = Some runId,
      xe_workspaceId = workspaceId, xe_level = level, xe_body = []\<rparr>"

definition appendMutationEvent ::
  "('o, 'z) run_db_scheme \<Rightarrow> 'o run_record \<Rightarrow> string \<Rightarrow> string option \<Rightarrow> string \<Rightarrow>
   ('o, 'z) run_db_scheme result" where
  "appendMutationEvent db run defaultType type eventId =
     appendEvent db (run_event_of eventId (case type of None \<Rightarrow> defaultType | Some t \<Rightarrow> t) (rr_id run)
       (rr_workspaceId run) Level_info)"

section \<open>Runs\<close>

definition insert_run :: "('o, 'z) run_db_scheme \<Rightarrow> 'o run_record \<Rightarrow> ('o, 'z) run_db_scheme result" where
  "insert_run db r =
     (if run_row db (rr_id r) \<noteq> None then Inl SqliteError else Inr (db\<lparr>xd_runs := xd_runs db @ [r]\<rparr>))"

text \<open>The fields of the input are those of the record but for the end of the run.\<close>

definition createRun ::
  "'o run_env \<Rightarrow> ('o, 'z) run_db_scheme \<Rightarrow> 'o run_record \<Rightarrow> string option \<Rightarrow> string \<Rightarrow>
   (('o, 'z) run_db_scheme \<times> 'o run_record) result" where
  "createRun env db input type eventId =
     (if \<not> valid_options (re_optionsOk env) (rr_effectiveOptions input) then Inl ZodError
      else
        and_then (case rr_source input of
                    None \<Rightarrow> Inr None
                  | Some w \<Rightarrow> and_then (parse_work_source (re_digest env) w) (\<lambda>w. Inr (Some w))) (\<lambda>source.
        if eo_contentHash (rr_effectiveOptions input) \<noteq> rr_effectiveOptionsHash input
        then Inl (RalphError ''RALPH_EFFECTIVE_OPTIONS_HASH_MISMATCH'' Exit_invalidUsage)
        else
          and_then (insert_run db (input\<lparr>rr_source := source, rr_finishedAt := None,
                      rr_stopReason := None, rr_updatedAt := rr_createdAt input\<rparr>)) (\<lambda>db1.
          and_then (requireRun env db1 (rr_id input)) (\<lambda>run.
          and_then (appendMutationEvent db1 run ''run.created'' type eventId) (\<lambda>db2.
          Inr (db2, run))))))"

record run_update =
  ru_runId :: string
  ru_graphHash :: "string option"
  ru_status :: "run_status option"
  ru_startedAt :: "int option option"
  ru_finishedAt :: "int option option"
  ru_stopReason :: "string option option"
  ru_updatedAt :: int
  ru_event :: "string option"

definition or_else :: "'a option \<Rightarrow> 'a \<Rightarrow> 'a" where
  "or_else x d = (case x of None \<Rightarrow> d | Some y \<Rightarrow> y)"

definition updateRun ::
  "'o run_env \<Rightarrow> ('o, 'z) run_db_scheme \<Rightarrow> run_update \<Rightarrow> string \<Rightarrow>
   (('o, 'z) run_db_scheme \<times> 'o run_record) result" where
  "updateRun env db input eventId =
     and_then (requireRun env db (ru_runId input)) (\<lambda>current.
     (let db1 = db\<lparr>xd_runs := map (\<lambda>r. if rr_id r = ru_runId input
          then r\<lparr>rr_graphHash := or_else (ru_graphHash input) (rr_graphHash current),
                 rr_status := or_else (ru_status input) (rr_status current),
                 rr_startedAt := or_else (ru_startedAt input) (rr_startedAt current),
                 rr_finishedAt := or_else (ru_finishedAt input) (rr_finishedAt current),
                 rr_stopReason := or_else (ru_stopReason input) (rr_stopReason current),
                 rr_updatedAt := ru_updatedAt input\<rparr>
          else r) (xd_runs db)\<rparr> in
      and_then (requireRun env db1 (ru_runId input)) (\<lambda>updated.
      and_then (appendMutationEvent db1 updated ''run.updated'' (ru_event input) eventId) (\<lambda>db2.
      Inr (db2, updated)))))"

section \<open>Tasks\<close>

record materialized_task =
  mt_documentId :: string
  mt_taskId :: string
  mt_status :: task_status
  mt_markerContentHash :: string
  mt_updatedAt :: int

definition materialized :: "string \<Rightarrow> materialized_task \<Rightarrow> task_record" where
  "materialized runId m =
     \<lparr>tr_runId = runId, tr_taskId = mt_taskId m, tr_documentId = mt_documentId m,
      tr_status = mt_status m, tr_markerContentHash = mt_markerContentHash m,
      tr_activeAttemptId = None, tr_completion = None, tr_updatedAt = mt_updatedAt m\<rparr>"

text \<open>\<^verbatim>\<open>ON CONFLICT DO NOTHING\<close>; a repeated task throws.\<close>

fun materialize_tasks ::
  "string \<Rightarrow> string list \<Rightarrow> materialized_task list \<Rightarrow> ('o, 'z) run_db_scheme \<Rightarrow>
   ('o, 'z) run_db_scheme result" where
  "materialize_tasks runId seen [] db = Inr db"
| "materialize_tasks runId seen (m # ms) db =
     (if List.member seen (mt_documentId m @ CHR 0x00 # mt_taskId m)
      then Inl (RalphError ''RALPH_DUPLICATE_MATERIALIZED_TASK'' Exit_invalidUsage)
      else
        materialize_tasks runId ((mt_documentId m @ CHR 0x00 # mt_taskId m) # seen) ms
          (if task_row db (task_key (materialized runId m)) \<noteq> None then db
           else db\<lparr>xd_tasks := xd_tasks db @ [materialized runId m]\<rparr>))"

fun task_records ::
  "('o, 'z) run_db_scheme \<Rightarrow> string \<Rightarrow> materialized_task list \<Rightarrow> task_record list result" where
  "task_records db runId [] = Inr []"
| "task_records db runId (m # ms) =
     and_then (findTaskInDatabase db runId (mt_documentId m) (mt_taskId m)) (\<lambda>r.
       case r of
         None \<Rightarrow> Inl (recordNotFound ''TASK'')
       | Some t \<Rightarrow> and_then (task_records db runId ms) (\<lambda>ts. Inr (t # ts)))"

definition materializeRunTasks ::
  "'o run_env \<Rightarrow> ('o, 'z) run_db_scheme \<Rightarrow> string \<Rightarrow> materialized_task list \<Rightarrow> string option \<Rightarrow> string \<Rightarrow>
   (('o, 'z) run_db_scheme \<times> task_record list) result" where
  "materializeRunTasks env db runId tasks type eventId =
     and_then (requireRun env db runId) (\<lambda>run.
     and_then (materialize_tasks runId [] tasks db) (\<lambda>db1.
     and_then (task_records db1 runId tasks) (\<lambda>records.
     and_then (appendMutationEvent db1 run ''run.tasks.materialized'' type eventId) (\<lambda>db2.
     Inr (db2, records)))))"

text \<open>
  The input of an upsert is the row it writes; \<^verbatim>\<open>null\<close> and \<^verbatim>\<open>undefined\<close> both
  clear the attempt and the completion.
\<close>

definition upsert_row :: "task_record \<Rightarrow> ('o, 'z) run_db_scheme \<Rightarrow> ('o, 'z) run_db_scheme" where
  "upsert_row t db =
     (if task_row db (task_key t) = None then db\<lparr>xd_tasks := xd_tasks db @ [t]\<rparr>
      else db\<lparr>xd_tasks := map (\<lambda>s. if task_key s = task_key t then t else s) (xd_tasks db)\<rparr>)"

definition upsertRunTask ::
  "'o run_env \<Rightarrow> ('o, 'z) run_db_scheme \<Rightarrow> task_record \<Rightarrow> string option \<Rightarrow> string \<Rightarrow>
   (('o, 'z) run_db_scheme \<times> task_record) result" where
  "upsertRunTask env db input type eventId =
     and_then (requireRun env db (tr_runId input)) (\<lambda>run.
     if (case tr_completion input of None \<Rightarrow> False | Some d \<Rightarrow> \<not> valid_decision d) then Inl ZodError
     else
       (let db1 = upsert_row input db in
        and_then (findTaskInDatabase db1 (tr_runId input) (tr_documentId input) (tr_taskId input)) (\<lambda>r.
        case r of
          None \<Rightarrow> Inl (recordNotFound ''TASK'')
        | Some t \<Rightarrow>
            and_then (appendMutationEvent db1 run ''task.state.updated'' type eventId) (\<lambda>db2.
            Inr (db2, t)))))"

section \<open>Transitions\<close>

record transition_options =
  to_graphHash :: "string option"
  to_startedAt :: "int option"
  to_finishedAt :: "int option option"
  to_stopReason :: "string option option"
  to_updatedAt :: int
  to_event :: "string option"

definition transitionStoredRun ::
  "'o run_env \<Rightarrow> ('o, 'z) run_db_scheme \<Rightarrow> 'o run_record \<Rightarrow> run_status \<Rightarrow> transition_options \<Rightarrow> string \<Rightarrow>
   (('o, 'z) run_db_scheme \<times> 'o run_record) result" where
  "transitionStoredRun env db stored status options eventId =
     (if rr_status stored \<noteq> status \<and> \<not> canTransitionRunStatus (rr_status stored) status
      then Inl (TransitionError ''RALPH_RUN_STATUS_TRANSITION_INVALID'')
      else updateRun env db
        \<lparr>ru_runId = rr_id stored,
         ru_graphHash = (if to_graphHash options = Some [] then None else to_graphHash options),
         ru_status = Some status, ru_startedAt = map_option Some (to_startedAt options),
         ru_finishedAt = to_finishedAt options, ru_stopReason = to_stopReason options,
         ru_updatedAt = to_updatedAt options,
         ru_event = Some (or_else (to_event options) ''run.state.transitioned'')\<rparr> eventId)"

record task_options =
  ko_markerContentHash :: "string option"
  ko_activeAttemptId :: "string option option"
  ko_completion :: "completion_decision option option"
  ko_updatedAt :: int
  ko_event :: "string option"

definition transitionStoredTask ::
  "'o run_env \<Rightarrow> ('o, 'z) run_db_scheme \<Rightarrow> task_record \<Rightarrow> task_status \<Rightarrow> task_options \<Rightarrow> string \<Rightarrow>
   (('o, 'z) run_db_scheme \<times> task_record) result" where
  "transitionStoredTask env db stored status options eventId =
     (if tr_status stored \<noteq> status \<and> (status = Task_completed \<or> status = Task_completed_with_override)
      then Inl (TransitionError ''RALPH_TASK_COMPLETION_AUTHORITY_REQUIRED'')
      else if tr_status stored \<noteq> status \<and> \<not> canTransitionTaskRuntimeStatus (tr_status stored) status
      then Inl (TransitionError ''RALPH_TASK_STATUS_TRANSITION_INVALID'')
      else upsertRunTask env db
        (stored\<lparr>tr_status := status,
           tr_markerContentHash := or_else (ko_markerContentHash options) (tr_markerContentHash stored),
           tr_activeAttemptId := or_else (ko_activeAttemptId options) (tr_activeAttemptId stored),
           tr_completion := or_else (ko_completion options) (tr_completion stored),
           tr_updatedAt := ko_updatedAt options\<rparr>)
        (Some (or_else (ko_event options) ''task.state.transitioned'')) eventId)"

section \<open>What the writers keep\<close>

definition task_done :: "task_record \<Rightarrow> bool" where
  "task_done t \<longleftrightarrow> tr_status t = Task_completed \<or> tr_status t = Task_completed_with_override"

text \<open>What a committed completion does to the row of its task.\<close>

definition complete_row :: "task_key \<Rightarrow> task_record \<Rightarrow> ('o, 'z) run_db_scheme \<Rightarrow> ('o, 'z) run_db_scheme" where
  "complete_row k t db = db\<lparr>xd_tasks := map (\<lambda>s. if task_key s = k then t else s) (xd_tasks db)\<rparr>"

text \<open>
  The writers of a run: they hold the record that is stored, they add tasks to a run only before
  it starts, and a task is completed by the completion store alone.
\<close>

inductive store_step :: "'o run_env \<Rightarrow> ('o, 'z) run_db_scheme \<Rightarrow> ('o, 'z) run_db_scheme \<Rightarrow> bool"
  for env :: "'o run_env" where
  store_create: "createRun env db r type eid = Inr (db', x) \<Longrightarrow> store_step env db db'"
| store_run: "findRunInDatabase env db i = Inr (Some r) \<Longrightarrow>
    transitionStoredRun env db r s opts eid = Inr (db', x) \<Longrightarrow> store_step env db db'"
| store_align: "ru_status u = None \<Longrightarrow> updateRun env db u eid = Inr (db', x) \<Longrightarrow> store_step env db db'"
| store_tasks: "run_row db i = Some r \<Longrightarrow> rr_status r = Run_created \<Longrightarrow>
    materializeRunTasks env db i ms type eid = Inr (db', xs) \<Longrightarrow> store_step env db db'"
| store_task: "findTaskInDatabase db i d t = Inr (Some k) \<Longrightarrow>
    transitionStoredTask env db k s topts eid = Inr (db', x) \<Longrightarrow> store_step env db db'"
| store_same: "findTaskInDatabase db (tr_runId k) (tr_documentId k) (tr_taskId k) = Inr (Some k0) \<Longrightarrow>
    tr_status k = tr_status k0 \<Longrightarrow> upsertRunTask env db k type eid = Inr (db', x) \<Longrightarrow> store_step env db db'"
| store_complete: "task_row db k = Some t0 \<Longrightarrow> task_key t = k \<Longrightarrow> task_done t \<Longrightarrow>
    store_step env db (complete_row k t db)"

definition same_run :: "'o run_record \<Rightarrow> 'o run_record \<Rightarrow> bool" where
  "same_run r r' \<longleftrightarrow>
     rr_id r' = rr_id r \<and> rr_workspaceId r' = rr_workspaceId r \<and> rr_rootPrdId r' = rr_rootPrdId r \<and>
     rr_rootPrdFile r' = rr_rootPrdFile r \<and> rr_definitionHash r' = rr_definitionHash r \<and>
     rr_effectiveOptionsHash r' = rr_effectiveOptionsHash r \<and>
     (run_terminal (rr_status r) \<longrightarrow> rr_status r' = rr_status r)"

definition run_db_ok :: "('o, 'z) run_db_scheme \<Rightarrow> bool" where
  "run_db_ok db \<longleftrightarrow>
     distinct (map rr_id (xd_runs db)) \<and> distinct (map task_key (xd_tasks db)) \<and>
     (\<forall>t \<in> set (xd_tasks db). tr_runId t \<in> rr_id ` set (xd_runs db))"

text \<open>
  Runs and tasks are never removed, a terminal run keeps its status, a completed task stays
  completed, and no task is added to a terminal run. Nothing else of the ledger changes but events.
\<close>

definition follows :: "('o, 'z) run_db_scheme \<Rightarrow> ('o, 'z) run_db_scheme \<Rightarrow> bool" where
  "follows db db' \<longleftrightarrow>
     (\<forall>i r. run_row db i = Some r \<longrightarrow> (\<exists>r'. run_row db' i = Some r' \<and> same_run r r')) \<and>
     (\<forall>k t. task_row db k = Some t \<longrightarrow> (\<exists>t'. task_row db' k = Some t' \<and> (task_done t \<longrightarrow> task_done t'))) \<and>
     (\<forall>i r k t'. run_row db i = Some r \<and> run_terminal (rr_status r) \<and> task_row db' k = Some t' \<and>
        fst k = i \<longrightarrow> task_row db k \<noteq> None)"

lemma same_run_refl [simp]: "same_run r r"
  by (simp add: same_run_def)

lemma same_run_trans: "same_run a b \<Longrightarrow> same_run b c \<Longrightarrow> same_run a c"
  by (simp add: same_run_def)

lemma follows_refl [simp]: "follows db db"
  by (simp add: follows_def)

lemma follows_run: "follows db db' \<Longrightarrow> run_row db i = Some r \<Longrightarrow> \<exists>r'. run_row db' i = Some r' \<and> same_run r r'"
  unfolding follows_def by blast

lemma follows_task:
  "follows db db' \<Longrightarrow> task_row db k = Some t \<Longrightarrow>
   \<exists>t'. task_row db' k = Some t' \<and> (task_done t \<longrightarrow> task_done t')"
  unfolding follows_def by blast

lemma follows_closed:
  "follows db db' \<Longrightarrow> run_row db (fst k) = Some r \<Longrightarrow> run_terminal (rr_status r) \<Longrightarrow>
   task_row db' k = Some t' \<Longrightarrow> task_row db k \<noteq> None"
  unfolding follows_def by blast

lemma followsI:
  assumes "\<And>i r. run_row db i = Some r \<Longrightarrow> \<exists>r'. run_row db' i = Some r' \<and> same_run r r'"
    and "\<And>k t. task_row db k = Some t \<Longrightarrow> \<exists>t'. task_row db' k = Some t' \<and> (task_done t \<longrightarrow> task_done t')"
    and "\<And>r k t'. run_row db (fst k) = Some r \<Longrightarrow> run_terminal (rr_status r) \<Longrightarrow>
      task_row db' k = Some t' \<Longrightarrow> task_row db k \<noteq> None"
  shows "follows db db'"
  unfolding follows_def using assms by blast

lemma follows_trans:
  assumes ab: "follows a b" and bc: "follows b c"
  shows "follows a c"
proof (rule followsI)
  fix i r
  assume "run_row a i = Some r"
  then obtain r' where "run_row b i = Some r'" "same_run r r'"
    using follows_run [OF ab] by blast
  then show "\<exists>r'. run_row c i = Some r' \<and> same_run r r'"
    using follows_run [OF bc] same_run_trans by blast
next
  fix k t
  assume "task_row a k = Some t"
  then show "\<exists>t'. task_row c k = Some t' \<and> (task_done t \<longrightarrow> task_done t')"
    using follows_task [OF ab] follows_task [OF bc] by meson
next
  fix r k t'
  assume r: "run_row a (fst k) = Some r" "run_terminal (rr_status r)" and t: "task_row c k = Some t'"
  obtain r' where r': "run_row b (fst k) = Some r'" "same_run r r'"
    using follows_run [OF ab r(1)] by blast
  then have "run_terminal (rr_status r')"
    using r(2) by (simp add: same_run_def)
  then obtain s where "task_row b k = Some s"
    using follows_closed [OF bc r'(1) _ t] by blast
  then show "task_row a k \<noteq> None"
    using follows_closed [OF ab r] by blast
qed

lemma appendEvent_Inr:
  "appendEvent db e = Inr db' \<Longrightarrow>
   \<exists>es n. db' = db\<lparr>xd_events := es, xd_sequence := n\<rparr>"
  by (auto simp: appendEvent_def split: if_splits)

lemma row_more [simp]:
  "run_row (db\<lparr>xd_events := es\<rparr>) i = run_row db i" "run_row (db\<lparr>xd_sequence := n\<rparr>) i = run_row db i"
  "run_row (db\<lparr>xd_tasks := ts\<rparr>) i = run_row db i"
  "task_row (db\<lparr>xd_events := es\<rparr>) k = task_row db k" "task_row (db\<lparr>xd_sequence := n\<rparr>) k = task_row db k"
  "task_row (db\<lparr>xd_runs := rs\<rparr>) k = task_row db k"
  by (simp_all add: run_row_def task_row_def)

lemma appendEvent_keeps:
  assumes "appendEvent db e = Inr db'"
  shows "follows db db'" "run_db_ok db' = run_db_ok db" "run_row db' = run_row db" "task_row db' = task_row db"
    "xd_runs db' = xd_runs db" "xd_tasks db' = xd_tasks db" "run_db.more db' = run_db.more db"
  using appendEvent_Inr [OF assms] by (auto simp: follows_def run_db_ok_def fun_eq_iff)

text \<open>An update of one run that keeps its identity and a terminal status.\<close>

lemma run_row_update:
  assumes "\<And>r. rr_id (f r) = rr_id r"
  shows "run_row (db\<lparr>xd_runs := map (\<lambda>r. if rr_id r = i then f r else r) (xd_runs db)\<rparr>) j =
    map_option (\<lambda>r. if rr_id r = i then f r else r) (run_row db j)"
proof -
  have "find (\<lambda>r. rr_id r = j) (map (\<lambda>r. if rr_id r = i then f r else r) rs) =
      map_option (\<lambda>r. if rr_id r = i then f r else r) (find (\<lambda>r. rr_id r = j) rs)" for rs
    by (induction rs) (auto simp: assms)
  then show ?thesis
    by (simp add: run_row_def find_row_def)
qed

lemma run_update_keeps:
  assumes ok: "run_db_ok db" and ids: "\<And>r. rr_id (f r) = rr_id r"
    and same: "\<And>r. run_row db i = Some r \<Longrightarrow> same_run r (f r)"
  defines "db' \<equiv> db\<lparr>xd_runs := map (\<lambda>r. if rr_id r = i then f r else r) (xd_runs db)\<rparr>"
  shows "run_db_ok db' \<and> follows db db' \<and> run_db.more db' = run_db.more db"
proof -
  have m: "map rr_id (xd_runs db') = map rr_id (xd_runs db)"
    by (simp add: db'_def ids)
  have s: "rr_id ` set (xd_runs db') = rr_id ` set (xd_runs db)"
    using arg_cong [OF m, of set] by (simp only: set_map)
  have "run_db_ok db'"
    using ok unfolding run_db_ok_def m s by (simp add: db'_def)
  moreover have "follows db db'"
  proof (rule followsI)
    fix j r
    assume r: "run_row db j = Some r"
    then have "rr_id r = j"
      by (simp add: run_row_def find_row_Some)
    then show "\<exists>r'. run_row db' j = Some r' \<and> same_run r r'"
      using r same unfolding db'_def run_row_update [OF ids] by auto
  qed (simp_all add: db'_def)
  ultimately show ?thesis
    by (simp add: db'_def)
qed

text \<open>A new run, a new task of a run, and a row written over.\<close>

lemma insert_run_keeps:
  assumes ok: "run_db_ok db" and ins: "insert_run db r = Inr db'"
  shows "run_db_ok db' \<and> follows db db' \<and> run_db.more db' = run_db.more db \<and>
    run_row db (rr_id r) = None \<and>
    (\<forall>i. run_row db' i = (if i = rr_id r then Some r else run_row db i)) \<and> task_row db' = task_row db"
proof -
  have new: "run_row db (rr_id r) = None" and db': "db' = db\<lparr>xd_runs := xd_runs db @ [r]\<rparr>"
    using ins by (auto simp: insert_run_def split: if_splits)
  have rows: "run_row db' i = (if i = rr_id r then Some r else run_row db i)" for i
    using new by (auto simp: db' run_row_def find_row_append split: option.splits)
  have "run_db_ok db'"
    using ok new by (auto simp: run_db_ok_def db' run_row_def find_row_None)
  moreover have "follows db db'"
    using new rows by (intro followsI) (auto simp: db')
  ultimately show ?thesis
    using new rows by (simp add: db' fun_eq_iff)
qed

lemma task_row_append:
  "task_row (db\<lparr>xd_tasks := xd_tasks db @ [t]\<rparr>) k =
     (case task_row db k of Some s \<Rightarrow> Some s | None \<Rightarrow> if task_key t = k then Some t else None)"
  by (auto simp: task_row_def find_append split: option.splits)

lemma task_row_key: "task_row db k = Some t \<Longrightarrow> task_key t = k \<and> t \<in> set (xd_tasks db)"
  by (auto simp: task_row_def dest: find_SomeD)

lemma task_row_none: "task_row db k = None \<longleftrightarrow> k \<notin> task_key ` set (xd_tasks db)"
  by (auto simp: task_row_def find_None_conv)

lemma add_task_keeps:
  assumes ok: "run_db_ok db" and new: "task_row db (task_key t) = None"
    and r: "run_row db (tr_runId t) = Some r" "\<not> run_terminal (rr_status r)"
  shows "run_db_ok (db\<lparr>xd_tasks := xd_tasks db @ [t]\<rparr>) \<and> follows db (db\<lparr>xd_tasks := xd_tasks db @ [t]\<rparr>)"
proof -
  have "tr_runId t \<in> rr_id ` set (xd_runs db)"
    using r(1) find_row_Some [of rr_id "xd_runs db" "tr_runId t" r] by (force simp: run_row_def)
  then have "run_db_ok (db\<lparr>xd_tasks := xd_tasks db @ [t]\<rparr>)"
    using ok new by (auto simp: run_db_ok_def task_row_none)
  moreover have "follows db (db\<lparr>xd_tasks := xd_tasks db @ [t]\<rparr>)"
    using r by (intro followsI) (auto simp: task_row_append task_key_def split: option.splits if_splits)
  ultimately show ?thesis
    by simp
qed

lemma task_row_replace:
  "task_key t = k \<Longrightarrow>
   task_row (db\<lparr>xd_tasks := map (\<lambda>s. if task_key s = k then t else s) (xd_tasks db)\<rparr>) j =
     (if j = k then map_option (\<lambda>_. t) (task_row db k) else task_row db j)"
proof -
  assume k: "task_key t = k"
  have "find (\<lambda>s. task_key s = j) (map (\<lambda>s. if task_key s = k then t else s) ts) =
      (if j = k then map_option (\<lambda>_. t) (find (\<lambda>s. task_key s = k) ts) else find (\<lambda>s. task_key s = j) ts)" for ts
    using k by (induction ts) auto
  then show ?thesis
    by (simp add: task_row_def)
qed

lemma replace_task_keeps:
  assumes ok: "run_db_ok db" and k: "task_key t = k" and old: "task_row db k = Some t0"
    and don: "task_done t0 \<longrightarrow> task_done t"
  defines "db' \<equiv> db\<lparr>xd_tasks := map (\<lambda>s. if task_key s = k then t else s) (xd_tasks db)\<rparr>"
  shows "run_db_ok db' \<and> follows db db'"
proof -
  have m: "map task_key (xd_tasks db') = map task_key (xd_tasks db)"
    using k by (simp add: db'_def)
  have "tr_runId t = tr_runId t0"
    using k task_row_key [OF old] by (auto simp: task_key_def)
  then have "\<forall>s \<in> set (xd_tasks db'). tr_runId s \<in> rr_id ` set (xd_runs db)"
    using ok task_row_key [OF old] by (auto simp: db'_def run_db_ok_def)
  then have "run_db_ok db'"
    using ok unfolding run_db_ok_def m by (simp add: db'_def)
  moreover have "follows db db'"
    using old don unfolding db'_def
    by (intro followsI) (auto simp: task_row_replace [OF k] split: if_splits)
  ultimately show ?thesis
    by simp
qed

section \<open>Steps\<close>

lemma findRun_Some:
  "findRunInDatabase env db i = Inr (Some r) \<longleftrightarrow> (\<exists>row. run_row db i = Some row \<and> runFromRow env row = Inr r)"
  by (auto simp: findRunInDatabase_def result_simps split: option.splits)

lemma runFromRow_Inr: "runFromRow env row = Inr r \<Longrightarrow> r = row\<lparr>rr_source := rr_source r\<rparr>"
  unfolding runFromRow_def using parse_run_recordD by blast

lemma runFromRow_fields:
  assumes "runFromRow env row = Inr r"
  shows "rr_id r = rr_id row" "rr_status r = rr_status row" "rr_definitionHash r = rr_definitionHash row"
    "rr_workspaceId r = rr_workspaceId row"
  by (subst runFromRow_Inr [OF assms], simp)+

lemma requireRun_Inr: "requireRun env db i = Inr r \<longleftrightarrow> findRunInDatabase env db i = Inr (Some r)"
  by (auto simp: requireRun_def result_simps split: option.splits)

lemma findTask_Some:
  "findTaskInDatabase db i d t = Inr (Some k) \<Longrightarrow> task_row db (i, d, t) = Some k"
  by (auto simp: findTaskInDatabase_def parse_task_record_def result_simps split: option.splits if_splits)

lemma terminal_run_stays: "run_terminal a \<Longrightarrow> \<not> canTransitionRunStatus a b"
  by (cases a) (simp_all add: run_terminal_def canTransitionRunStatus_def allows_def)

lemma done_task_stays: "tr_status t = Task_completed \<or> tr_status t = Task_completed_with_override \<Longrightarrow>
    \<not> canTransitionTaskRuntimeStatus (tr_status t) s"
  by (auto simp: canTransitionTaskRuntimeStatus_def allows_def)

definition kept :: "('o, 'z) run_db_scheme \<Rightarrow> ('o, 'z) run_db_scheme \<Rightarrow> bool" where
  "kept db db' \<longleftrightarrow> run_db_ok db' \<and> follows db db' \<and> run_db.more db' = run_db.more db"

lemma kept_trans: "kept a b \<Longrightarrow> kept b c \<Longrightarrow> kept a c"
  unfolding kept_def using follows_trans by auto

lemma kept_event: "run_db_ok db \<Longrightarrow> appendEvent db e = Inr db' \<Longrightarrow> kept db db'"
  using appendEvent_keeps [of db e db'] by (simp add: kept_def)

lemma kept_mutation:
  "run_db_ok db \<Longrightarrow> appendMutationEvent db r d type eid = Inr db' \<Longrightarrow> kept db db'"
  unfolding appendMutationEvent_def by (rule kept_event)

lemma kept_then_event: "kept a b \<Longrightarrow> appendMutationEvent b r d type eid = Inr c \<Longrightarrow> kept a c"
  by (rule kept_trans, assumption, rule kept_mutation) (simp_all add: kept_def)

lemma createRun_kept:
  assumes ok: "run_db_ok db" and c: "createRun env db input type eid = Inr (db', x)"
  shows "kept db db'"
proof -
  obtain r db1 where ins: "insert_run db r = Inr db1" and ev: "appendMutationEvent db1 x ''run.created'' type eid = Inr db'"
    using c by (auto simp: createRun_def result_simps split: if_splits)
  have "kept db db1"
    using insert_run_keeps [OF ok ins] by (simp add: kept_def)
  then show ?thesis
    by (rule kept_then_event [OF _ ev])
qed

lemma updateRun_kept:
  assumes ok: "run_db_ok db" and u: "updateRun env db input eid = Inr (db', x)"
    and status: "\<And>r. run_row db (ru_runId input) = Some r \<Longrightarrow> run_terminal (rr_status r) \<Longrightarrow>
      ru_status input = None \<or> ru_status input = Some (rr_status r)"
  shows "kept db db'"
proof -
  obtain current where cur: "requireRun env db (ru_runId input) = Inr current"
    using u by (auto simp: updateRun_def result_simps)
  then obtain row where row: "run_row db (ru_runId input) = Some row" "runFromRow env row = Inr current"
    by (auto simp: requireRun_Inr findRun_Some)
  let ?f = "\<lambda>r. r\<lparr>rr_graphHash := or_else (ru_graphHash input) (rr_graphHash current),
                 rr_status := or_else (ru_status input) (rr_status current),
                 rr_startedAt := or_else (ru_startedAt input) (rr_startedAt current),
                 rr_finishedAt := or_else (ru_finishedAt input) (rr_finishedAt current),
                 rr_stopReason := or_else (ru_stopReason input) (rr_stopReason current),
                 rr_updatedAt := ru_updatedAt input\<rparr>"
  let ?db = "db\<lparr>xd_runs := map (\<lambda>r. if rr_id r = ru_runId input then ?f r else r) (xd_runs db)\<rparr>"
  have ev: "appendMutationEvent ?db x ''run.updated'' (ru_event input) eid = Inr db'"
    using u cur by (auto simp: updateRun_def Let_def result_simps)
  have "kept db ?db"
    unfolding kept_def
  proof (rule run_update_keeps [OF ok])
    fix r
    assume "run_row db (ru_runId input) = Some r"
    then have r: "r = row"
      using row(1) by simp
    have "or_else (ru_status input) (rr_status current) = rr_status row" if "run_terminal (rr_status row)"
      using status [OF row(1) that] runFromRow_fields [OF row(2)] by (auto simp: or_else_def)
    then show "same_run r (?f r)"
      by (simp add: same_run_def r)
  qed simp
  then show ?thesis
    by (rule kept_then_event [OF _ ev])
qed

lemma transitionStoredRun_kept:
  assumes ok: "run_db_ok db" and f: "findRunInDatabase env db i = Inr (Some r)"
    and tr: "transitionStoredRun env db r s opts eid = Inr (db', x)"
  shows "kept db db'"
proof -
  obtain row where row: "run_row db i = Some row" "runFromRow env row = Inr r"
    using f by (auto simp: findRun_Some)
  have r: "rr_id r = i" "rr_status r = rr_status row"
    using runFromRow_fields [OF row(2)] find_row_Some [of rr_id "xd_runs db" i row] row(1) by (simp_all add: run_row_def)
  have s: "rr_status r = s \<or> canTransitionRunStatus (rr_status r) s"
    using tr by (auto simp: transitionStoredRun_def split: if_splits)
  obtain u where u: "updateRun env db u eid = Inr (db', x)" "ru_runId u = i" "ru_status u = Some s"
    using tr r(1) by (auto simp: transitionStoredRun_def split: if_splits)
  show ?thesis
  proof (rule updateRun_kept [OF ok u(1)])
    fix q
    assume "run_row db (ru_runId u) = Some q" and "run_terminal (rr_status q)"
    then show "ru_status u = None \<or> ru_status u = Some (rr_status q)"
      using row(1) r s u terminal_run_stays by auto
  qed
qed

lemma upsertRunTask_kept:
  assumes ok: "run_db_ok db" and u: "upsertRunTask env db t type eid = Inr (db', x)"
    and old: "task_row db (task_key t) = Some t0" and don: "task_done t0 \<longrightarrow> task_done t"
  shows "kept db db'"
proof -
  have ev: "\<exists>run. appendMutationEvent (upsert_row t db) run ''task.state.updated'' type eid = Inr db'"
    using u by (auto simp: upsertRunTask_def Let_def result_simps split: if_splits option.splits)
  have "kept db (upsert_row t db)"
    using replace_task_keeps [OF ok refl old don] old by (simp add: kept_def upsert_row_def)
  then show ?thesis
    using ev kept_then_event by blast
qed

lemma transitionStoredTask_kept:
  assumes ok: "run_db_ok db" and f: "findTaskInDatabase db i d t = Inr (Some k)"
    and tr: "transitionStoredTask env db k s topts eid = Inr (db', x)"
  shows "kept db db'"
proof -
  have row: "task_row db (i, d, t) = Some k"
    by (rule findTask_Some [OF f])
  have s: "tr_status k = s \<or> canTransitionTaskRuntimeStatus (tr_status k) s"
    using tr by (auto simp: transitionStoredTask_def split: if_splits)
  obtain t' type where u: "upsertRunTask env db t' type eid = Inr (db', x)"
    and t': "task_key t' = task_key k" "tr_status t' = s"
    using tr by (auto simp: transitionStoredTask_def task_key_def split: if_splits)
  have don: "task_done k \<longrightarrow> task_done t'"
    using s t'(2) done_task_stays [of k s] by (auto simp: task_done_def)
  have "task_row db (task_key t') = Some k"
    using row task_row_key [OF row] t'(1) by simp
  from upsertRunTask_kept [OF ok u this don] show ?thesis .
qed

lemma materialize_tasks_kept:
  "materialize_tasks i seen ms db = Inr db' \<Longrightarrow> run_db_ok db \<Longrightarrow> run_row db i = Some r \<Longrightarrow>
   \<not> run_terminal (rr_status r) \<Longrightarrow> kept db db' \<and> xd_runs db' = xd_runs db"
proof (induction ms arbitrary: seen db)
  case Nil
  then show ?case by (simp add: kept_def)
next
  case (Cons m ms)
  let ?t = "materialized i m"
  let ?db = "if task_row db (task_key ?t) \<noteq> None then db else db\<lparr>xd_tasks := xd_tasks db @ [?t]\<rparr>"
  have rest: "materialize_tasks i ((mt_documentId m @ CHR 0x00 # mt_taskId m) # seen) ms ?db = Inr db'"
    using Cons.prems(1) by (simp split: if_splits)
  have k: "kept db ?db"
    using Cons.prems add_task_keeps [of db ?t r] by (auto simp: kept_def materialized_def)
  moreover have "run_row ?db i = Some r"
    using Cons.prems(3) by simp
  moreover have "run_db_ok ?db"
    using k unfolding kept_def by (rule conjunct1)
  ultimately have "kept ?db db' \<and> xd_runs db' = xd_runs ?db"
    using Cons.IH [OF rest _ _ Cons.prems(4)] by blast
  then show ?case
    using kept_trans [OF k] by simp
qed

lemma materializeRunTasks_kept:
  assumes ok: "run_db_ok db" and r: "run_row db i = Some r" "rr_status r = Run_created"
    and m: "materializeRunTasks env db i ms type eid = Inr (db', xs)"
  shows "kept db db'"
proof -
  obtain db1 run where d: "materialize_tasks i [] ms db = Inr db1"
      "appendMutationEvent db1 run ''run.tasks.materialized'' type eid = Inr db'"
    using m by (auto simp: materializeRunTasks_def result_simps)
  have "kept db db1"
    using materialize_tasks_kept [OF d(1) ok r(1)] r(2) by (simp add: run_terminal_def)
  then show ?thesis
    by (rule kept_then_event [OF _ d(2)])
qed

lemma store_step_kept: "store_step env db db' \<Longrightarrow> run_db_ok db \<Longrightarrow> kept db db'"
proof (induction rule: store_step.induct)
  case (store_align u db eid db' x)
  then show ?case
    by (intro updateRun_kept [OF store_align(3) store_align(2)]) simp
next
  case (store_same db k k0 type eid db' x)
  have row: "task_row db (task_key k) = Some k0"
    using findTask_Some [OF store_same(1)] by (simp add: task_key_def)
  have "task_done k0 \<longrightarrow> task_done k"
    using store_same(2) by (simp add: task_done_def)
  from upsertRunTask_kept [OF store_same(4) store_same(3) row this] show ?case .
next
  case (store_complete db k t0 t)
  then show ?case
    using replace_task_keeps [OF store_complete(4) store_complete(2,1)] by (simp add: kept_def complete_row_def)
qed (blast intro: createRun_kept transitionStoredRun_kept transitionStoredTask_kept materializeRunTasks_kept)+

end
