(* ===== verification/ChildLedger.thy ===== *)
theory ChildLedger
  imports ChildModel RunStore
begin

text \<open>
  \<^verbatim>\<open>packages/persistence/src/child-runs.ts\<close> and the tables of
  \<^verbatim>\<open>child-run-links-migration.ts\<close>: the durable links between parent tasks and child
  runs. The ledger extends that of the runs. Each operation is one transaction; what the library
  and other processes give it are arguments: the digests, the identifiers of its events, the
  collation of \<^verbatim>\<open>localeCompare\<close>. Payloads of events and the limits on the length of
  stored JSON text are not modelled.
\<close>

section \<open>Tables\<close>

record child_projection =
  xp_linkId :: string
  xp_sourceEventId :: string
  xp_sourceSequence :: nat
  xp_projectedEventId :: string
  xp_projectedAt :: int

record 'o child_db = "'o run_db" +
  xd_links :: "child_link list"
  xd_leases :: "lease list"
  xd_projections :: "child_projection list"

record 'o child_env =
  ne_run :: "'o run_env"
  ne_receiptHash :: "child_receipt \<Rightarrow> string"
  ne_eventHash :: "run_event \<Rightarrow> string"
  ne_collate :: "string \<Rightarrow> string \<Rightarrow> bool"

definition child_invalid :: "string \<Rightarrow> failure" where
  "child_invalid code =
     RalphError code (if ends_with code ''_NOT_FOUND'' then Exit_invalidUsage else Exit_conflict)"

section \<open>Constraints of the links\<close>

definition link_check :: "child_link \<Rightarrow> bool" where
  "link_check l \<longleftrightarrow>
     between 512 (ln_id l) \<and> between 512 (ln_workspaceId l) \<and> between 512 (ln_parentDocumentId l) \<and>
     between 512 (ln_parentTaskId l) \<and> between 512 (ln_childDocumentId l) \<and>
     between 4096 (ln_childRootPrdFile l) \<and> sha256 (ln_graphDefinitionHash l) \<and>
     sha256 (ln_graphHash l) \<and> sha256 (ln_inheritedOptionsHash l) \<and>
     sha256 (ln_materializationHash l) \<and> 1 \<le> ln_depth l \<and> 0 \<le> ln_expectedDirectChildren l \<and>
     between_opt 8192 (ln_terminalReason l) \<and>
     (if isTerminalChildRunStatus (ln_status l) then ln_terminalAt l \<noteq> None \<and> ln_receipt l \<noteq> None
      else ln_terminalAt l = None \<and> ln_receipt l = None)"

definition parent_key :: "child_link \<Rightarrow> string \<times> string \<times> string" where
  "parent_key l = (ln_parentRunId l, ln_parentDocumentId l, ln_parentTaskId l)"

definition link_index :: "child_link list \<Rightarrow> bool" where
  "link_index ls \<longleftrightarrow> distinct (map ln_childRunId ls) \<and> distinct (map parent_key ls)"

definition tasks_of :: "('o, 'z) run_db_scheme \<Rightarrow> string \<Rightarrow> task_record list" where
  "tasks_of db runId = filter (\<lambda>t. tr_runId t = runId) (xd_tasks db)"

text \<open>\<^verbatim>\<open>child_run_links_workspace_guard_insert\<close>, with the foreign keys of the runs.\<close>

definition link_insertable :: "'o child_db \<Rightarrow> child_link \<Rightarrow> bool" where
  "link_insertable db l \<longleftrightarrow>
     (case (run_row db (ln_parentRunId l), run_row db (ln_childRunId l)) of
        (Some p, Some c) \<Rightarrow>
          rr_workspaceId p = ln_workspaceId l \<and> rr_workspaceId c = ln_workspaceId l \<and>
          rr_definitionHash p = ln_graphDefinitionHash l \<and> rr_rootPrdId c = ln_childDocumentId l \<and>
          rr_rootPrdFile c = ln_childRootPrdFile l \<and> rr_definitionHash c = ln_graphDefinitionHash l \<and>
          rr_graphHash c = ln_graphHash l \<and> rr_effectiveOptionsHash c = ln_inheritedOptionsHash l \<and>
          (case task_row db (parent_key l) of
             None \<Rightarrow> False
           | Some t \<Rightarrow>
               (tr_status t = Task_active \<or> task_done t) \<and>
               (tr_status t = Task_active \<or> list_all task_done (tasks_of db (ln_childRunId l)))) \<and>
          tasks_of db (ln_childRunId l) \<noteq> [] \<and>
          list_all (\<lambda>t. tr_documentId t = ln_childDocumentId l) (tasks_of db (ln_childRunId l)) \<and>
          gp_total (gb_progress (ln_observability l)) = length (tasks_of db (ln_childRunId l))
      | _ \<Rightarrow> False)"

definition insert_link :: "'o child_db \<Rightarrow> child_link \<Rightarrow> 'o child_db result" where
  "insert_link db l =
     (if link_insertable db l
      then and_then (insert_row ln_id link_check link_index (xd_links db) l) (\<lambda>ls. Inr (db\<lparr>xd_links := ls\<rparr>))
      else Inl SqliteError)"

definition link_identity_kept :: "child_link \<Rightarrow> child_link \<Rightarrow> bool" where
  "link_identity_kept l l' \<longleftrightarrow>
     ln_id l' = ln_id l \<and> ln_workspaceId l' = ln_workspaceId l \<and> parent_key l' = parent_key l \<and>
     ln_childRunId l' = ln_childRunId l \<and> ln_childDocumentId l' = ln_childDocumentId l \<and>
     ln_childRootPrdFile l' = ln_childRootPrdFile l \<and>
     ln_graphDefinitionHash l' = ln_graphDefinitionHash l \<and> ln_graphHash l' = ln_graphHash l \<and>
     ln_inheritedOptionsHash l' = ln_inheritedOptionsHash l \<and>
     ln_materializationHash l' = ln_materializationHash l \<and> ln_depth l' = ln_depth l \<and>
     ln_expectedDirectChildren l' = ln_expectedDirectChildren l \<and>
     ln_parentPolicy l' = ln_parentPolicy l \<and> ln_createdAt l' = ln_createdAt l"

definition link_transition_kept :: "child_link \<Rightarrow> child_link \<Rightarrow> bool" where
  "link_transition_kept l l' \<longleftrightarrow>
     \<not> isTerminalChildRunStatus (ln_status l) \<and> ln_revision l' = ln_revision l + 1 \<and>
     (ln_status l' \<noteq> ln_status l \<longrightarrow> allows ChildRunStatusTransitions (ln_status l) (ln_status l'))"

definition children_of :: "child_link list \<Rightarrow> string \<Rightarrow> child_link list" where
  "children_of ls runId = filter (\<lambda>l. ln_parentRunId l = runId) ls"

text \<open>\<^verbatim>\<open>child_run_links_pass_guard\<close>\<close>

definition link_may_pass :: "'o child_db \<Rightarrow> child_link \<Rightarrow> bool" where
  "link_may_pass db l \<longleftrightarrow>
     ln_artifactsReconciled l \<and> complete_progress (gb_progress (ln_observability l)) \<and>
     (case run_row db (ln_childRunId l) of None \<Rightarrow> False | Some r \<Rightarrow> rr_status r = Run_completed) \<and>
     list_all task_done (tasks_of db (ln_childRunId l)) \<and>
     int (length (children_of (xd_links db) (ln_childRunId l))) = ln_expectedDirectChildren l \<and>
     list_all (\<lambda>c. ln_status c = Child_passed) (children_of (xd_links db) (ln_childRunId l))"

text \<open>\<^verbatim>\<open>child_run_links_lease_guard\<close> fires when the statement names the lease.\<close>

definition lease_bound :: "'o child_db \<Rightarrow> child_link \<Rightarrow> string \<Rightarrow> bool" where
  "lease_bound db l leaseId \<longleftrightarrow>
     (case find_row l_id (xd_leases db) leaseId of
        None \<Rightarrow> False
      | Some s \<Rightarrow> l_workspaceId s = ln_workspaceId l \<and> l_runId s = Some (ln_childRunId l) \<and>
          l_parentRunId s = Some (ln_parentRunId l) \<and> l_status s = Lease_active)"

definition link_guard :: "'o child_db \<Rightarrow> bool \<Rightarrow> child_link \<Rightarrow> child_link \<Rightarrow> bool" where
  "link_guard db namesLease l l' \<longleftrightarrow>
     link_identity_kept l l' \<and> link_transition_kept l l' \<and>
     (ln_status l' = Child_passed \<longrightarrow> link_may_pass db l') \<and>
     (namesLease \<longrightarrow> (case ln_leaseId l' of None \<Rightarrow> True | Some i \<Rightarrow> lease_bound db l' i))"

text \<open>An update of the link just read, by id and revision, with the number of rows it changed.\<close>

definition update_link ::
  "'o child_db \<Rightarrow> bool \<Rightarrow> child_link \<Rightarrow> (child_link \<Rightarrow> child_link) \<Rightarrow> ('o child_db \<times> nat) result" where
  "update_link db namesLease current f =
     and_then (update_rows link_check (link_guard db namesLease) link_index
                (\<lambda>l. ln_id l = ln_id current \<and> ln_revision l = ln_revision current) f (xd_links db))
       (\<lambda>(ls, n). Inr (db\<lparr>xd_links := ls\<rparr>, n))"

section \<open>Reading\<close>

definition linkFromRow :: "child_link \<Rightarrow> child_link result" where
  "linkFromRow l =
     (if \<not> valid_child_observability (ln_observability l)
      then Inl (RalphError ''RALPH_CHILD_LEDGER_INVALID'' Exit_conflict)
      else if valid_child_link l then Inr l else Inl ZodError)"

definition link_read :: "child_link option \<Rightarrow> child_link option result" where
  "link_read row =
     (case row of None \<Rightarrow> Inr None | Some l \<Rightarrow> and_then (linkFromRow l) (\<lambda>l. Inr (Some l)))"

definition link_row :: "'o child_db \<Rightarrow> string \<Rightarrow> child_link option" where
  "link_row db i = find_row ln_id (xd_links db) i"

definition findLinkById :: "'o child_db \<Rightarrow> string \<Rightarrow> child_link option result" where
  "findLinkById db linkId = link_read (link_row db linkId)"

definition findLinkForParentInDatabase ::
  "'o child_db \<Rightarrow> string \<Rightarrow> string \<Rightarrow> string \<Rightarrow> child_link option result" where
  "findLinkForParentInDatabase db runId documentId taskId =
     link_read (find (\<lambda>l. parent_key l = (runId, documentId, taskId)) (xd_links db))"

definition findLinkForChildInDatabase :: "'o child_db \<Rightarrow> string \<Rightarrow> child_link option result" where
  "findLinkForChildInDatabase db runId =
     link_read (find (\<lambda>l. ln_childRunId l = runId) (xd_links db))"

definition requireLink :: "'o child_db \<Rightarrow> string \<Rightarrow> child_link result" where
  "requireLink db linkId =
     and_then (findLinkById db linkId) (\<lambda>l.
       case l of None \<Rightarrow> Inl (child_invalid ''RALPH_CHILD_LINK_NOT_FOUND'') | Some l \<Rightarrow> Inr l)"

definition link_cycle :: failure where
  "link_cycle = child_invalid ''RALPH_CHILD_LINK_CYCLE''"

section \<open>Reservation\<close>

record child_task =
  kt_documentId :: string
  kt_taskId :: string
  kt_status :: task_status
  kt_markerContentHash :: string

record 'o reserve_input =
  ri_linkId :: string
  ri_childRunId :: string
  ri_workspaceId :: string
  ri_parentRunId :: string
  ri_parentDocumentId :: string
  ri_parentTaskId :: string
  ri_childDocumentId :: string
  ri_childRootPrdFile :: string
  ri_graphDefinitionHash :: string
  ri_graphHash :: string
  ri_inheritedOptionsHash :: string
  ri_materializationHash :: string
  ri_depth :: int
  ri_expectedDirectChildren :: int
  ri_parentPolicy :: parent_policy
  ri_effectiveOptions :: "'o effective_options"
  ri_tasks :: "child_task list"
  ri_observability :: child_observability
  ri_createdAt :: int

text \<open>All fields of the identity but the graph hash are compared.\<close>

definition assertReservationIdentity :: "child_link \<Rightarrow> 'o reserve_input \<Rightarrow> unit result" where
  "assertReservationIdentity l input =
     require
       (ln_id l = ri_linkId input \<and> ln_workspaceId l = ri_workspaceId input \<and>
        parent_key l = (ri_parentRunId input, ri_parentDocumentId input, ri_parentTaskId input) \<and>
        ln_childRunId l = ri_childRunId input \<and> ln_childDocumentId l = ri_childDocumentId input \<and>
        ln_childRootPrdFile l = ri_childRootPrdFile input \<and>
        ln_graphDefinitionHash l = ri_graphDefinitionHash input \<and>
        ln_inheritedOptionsHash l = ri_inheritedOptionsHash input \<and>
        ln_materializationHash l = ri_materializationHash input \<and> ln_depth l = ri_depth input \<and>
        ln_expectedDirectChildren l = ri_expectedDirectChildren input \<and>
        ln_parentPolicy l = ri_parentPolicy input)
       (child_invalid ''RALPH_CHILD_RESERVATION_IDENTITY_CONFLICT'')"

datatype event_target = To_parent | To_child

definition appendChildEvent ::
  "'o child_db \<Rightarrow> child_link \<Rightarrow> event_target \<Rightarrow> string \<Rightarrow> event_level \<Rightarrow> string \<Rightarrow> 'o child_db result" where
  "appendChildEvent db l target type level eventId =
     appendEvent db (run_event_of eventId type
       (case target of To_parent \<Rightarrow> ln_parentRunId l | To_child \<Rightarrow> ln_childRunId l)
       (ln_workspaceId l) level)"

text \<open>The climb to the root: each turn visits another child run of a link, or ends.\<close>

function root_loop :: "child_link list \<Rightarrow> string list \<Rightarrow> string \<Rightarrow> string result" where
  "root_loop ls visited current =
     (if List.member visited current then Inl link_cycle
      else case find (\<lambda>l. ln_childRunId l = current) ls of
        None \<Rightarrow> Inr current
      | Some l \<Rightarrow> root_loop ls (current # visited) (ln_parentRunId l))"
  by auto
termination
proof (relation "measure (\<lambda>(ls, visited, current). card (ln_childRunId ` set ls - set visited))")
  fix ls visited current and l :: child_link
  assume new: "\<not> List.member visited current" and l: "find (\<lambda>l. ln_childRunId l = current) ls = Some l"
  have "current \<in> ln_childRunId ` set ls - set visited"
    using new find_SomeD [OF l] by auto
  then have "card (ln_childRunId ` set ls - set (current # visited)) < card (ln_childRunId ` set ls - set visited)"
    by (intro psubset_card_mono) auto
  then show "((ls, current # visited, ln_parentRunId l), ls, visited, current)
      \<in> measure (\<lambda>(ls, visited, current). card (ln_childRunId ` set ls - set visited))"
    by simp
qed simp

declare root_loop.simps [simp del]

definition rootRunForChildTree :: "'o child_db \<Rightarrow> string \<Rightarrow> string result" where
  "rootRunForChildTree db runId = root_loop (xd_links db) [] runId"

text \<open>
  The walk over the queue of runs. A link leaves the measure when the run it starts from is
  visited, and enters the queue once.
\<close>

definition open_links :: "child_link list \<Rightarrow> string list \<Rightarrow> child_link list" where
  "open_links ls visited = filter (\<lambda>l. ln_parentRunId l \<notin> set visited) ls"

lemma open_links_visit:
  "r \<notin> set visited \<Longrightarrow>
   length (open_links ls visited) = length (open_links ls (r # visited)) + length (children_of ls r)"
  by (induction ls) (auto simp: open_links_def children_of_def)

function leaf_walk ::
  "child_link list \<Rightarrow> string list \<Rightarrow> string list \<Rightarrow> child_link list \<Rightarrow> child_link list result" where
  "leaf_walk ls visited [] links = Inr links"
| "leaf_walk ls visited (r # queue) links =
     (if List.member visited r then Inl link_cycle
      else
        (let direct = sort_by (\<lambda>a b. ln_id a \<le> ln_id b) (children_of ls r) in
         leaf_walk ls (r # visited) (queue @ map ln_childRunId direct) (links @ direct)))"
  by pat_completeness auto
termination
  by (relation "measure (\<lambda>(ls, visited, queue, links). length queue + length (open_links ls visited))")
     (auto simp: open_links_visit)

declare leaf_walk.simps(2) [simp del]

definition leaf_key :: "string \<Rightarrow> string \<Rightarrow> string \<Rightarrow> string" where
  "leaf_key runId documentId taskId = runId @ CHR 0x00 # documentId @ CHR 0x00 # taskId"

definition leaf_tasks :: "'o child_db \<Rightarrow> string list \<Rightarrow> child_link list \<Rightarrow> task_record list" where
  "leaf_tasks db runIds links =
     (let nonLeaf = map (\<lambda>l. leaf_key (ln_parentRunId l) (ln_parentDocumentId l) (ln_parentTaskId l)) links in
      filter (\<lambda>t. \<not> List.member nonLeaf (leaf_key (tr_runId t) (tr_documentId t) (tr_taskId t)))
        (concat (map (tasks_of db) runIds)))"

definition leafProgressInDatabase :: "'o child_db \<Rightarrow> string \<Rightarrow> (nat \<times> nat \<times> string list) result" where
  "leafProgressInDatabase db rootRunId =
     and_then (leaf_walk (xd_links db) [] [rootRunId] []) (\<lambda>links.
       (let runIds = rootRunId # map ln_childRunId links; tasks = leaf_tasks db runIds links in
        Inr (length (filter task_done tasks), length tasks, runIds)))"

definition appendTreeProgressEvent :: "'o child_db \<Rightarrow> child_link \<Rightarrow> string \<Rightarrow> 'o child_db result" where
  "appendTreeProgressEvent db l eventId =
     and_then (rootRunForChildTree db (ln_parentRunId l)) (\<lambda>root.
     and_then (leafProgressInDatabase db root) (\<lambda>progress.
     appendEvent db (run_event_of eventId ''progress.updated'' root (ln_workspaceId l) Level_info)))"

definition child_task_record :: "'o reserve_input \<Rightarrow> child_task \<Rightarrow> task_record" where
  "child_task_record input t =
     \<lparr>tr_runId = ri_childRunId input, tr_taskId = kt_taskId t, tr_documentId = kt_documentId t,
      tr_status = kt_status t, tr_markerContentHash = kt_markerContentHash t,
      tr_activeAttemptId = None, tr_completion = None, tr_updatedAt = ri_createdAt input\<rparr>"

text \<open>The checks before the transaction.\<close>

definition reservation_valid :: "'o child_env \<Rightarrow> 'o reserve_input \<Rightarrow> unit result" where
  "reservation_valid env input =
     (if \<not> valid_options (re_optionsOk (ne_run env)) (ri_effectiveOptions input) then Inl ZodError
      else if eo_contentHash (ri_effectiveOptions input) \<noteq> ri_inheritedOptionsHash input
      then Inl (child_invalid ''RALPH_CHILD_OPTIONS_HASH_MISMATCH'')
      else if \<not> valid_child_observability (ri_observability input) then Inl ZodError
      else if ri_depth input < 1 \<or> \<not> safe_int (ri_depth input)
      then Inl (child_invalid ''RALPH_CHILD_DEPTH_INVALID'')
      else if ri_expectedDirectChildren input < 0 \<or> \<not> safe_int (ri_expectedDirectChildren input)
      then Inl (child_invalid ''RALPH_CHILD_COUNT_INVALID'')
      else if length (ri_tasks input) < 1 then Inl (child_invalid ''RALPH_CHILD_TASKS_EMPTY'')
      else if \<not> distinct (map (\<lambda>t. kt_documentId t @ ''/'' @ kt_taskId t) (ri_tasks input))
      then Inl (child_invalid ''RALPH_CHILD_TASKS_DUPLICATED'')
      else if gp_total (gb_progress (ri_observability input)) \<noteq> length (ri_tasks input)
      then Inl (child_invalid ''RALPH_CHILD_PROGRESS_TOTAL_MISMATCH'')
      else if \<not> list_all (\<lambda>t. valid_task_record (child_task_record input t)) (ri_tasks input)
      then Inl ZodError
      else Inr ())"

definition child_task_done :: "child_task \<Rightarrow> bool" where
  "child_task_done t \<longleftrightarrow> kt_status t = Task_completed \<or> kt_status t = Task_completed_with_override"

text \<open>The checks of the parent, its task and the identity of the new run.\<close>

definition reservable :: "'o child_db \<Rightarrow> 'o reserve_input \<Rightarrow> unit result" where
  "reservable db input =
     (case run_row db (ri_parentRunId input) of
        None \<Rightarrow> Inl (child_invalid ''RALPH_CHILD_PARENT_RUN_NOT_FOUND'')
      | Some parent \<Rightarrow>
          if rr_workspaceId parent \<noteq> ri_workspaceId input
          then Inl (child_invalid ''RALPH_CHILD_WORKSPACE_MISMATCH'')
          else if rr_definitionHash parent \<noteq> ri_graphDefinitionHash input
          then Inl (child_invalid ''RALPH_CHILD_GRAPH_DEFINITION_MISMATCH'')
          else if run_terminal (rr_status parent)
          then Inl (child_invalid ''RALPH_CHILD_PARENT_RUN_TERMINAL'')
          else
            (case task_row db (ri_parentRunId input, ri_parentDocumentId input, ri_parentTaskId input) of
               None \<Rightarrow> Inl (child_invalid ''RALPH_CHILD_PARENT_TASK_NOT_FOUND'')
             | Some t \<Rightarrow>
                 if tr_status t \<noteq> Task_active \<and> \<not> task_done t
                 then Inl (child_invalid ''RALPH_CHILD_PARENT_TASK_NOT_MATERIALIZABLE'')
                 else if tr_status t \<noteq> Task_active \<and> \<not> list_all child_task_done (ri_tasks input)
                 then Inl (child_invalid ''RALPH_CHILD_PRECOMPLETED_TREE_INCONSISTENT'')
                 else if run_row db (ri_childRunId input) \<noteq> None
                 then Inl (child_invalid ''RALPH_CHILD_RUN_ID_COLLISION'')
                 else Inr ()))"

definition child_run_record :: "'o child_env \<Rightarrow> 'o reserve_input \<Rightarrow> 'o run_record" where
  "child_run_record env input =
     \<lparr>rr_id = ri_childRunId input, rr_workspaceId = ri_workspaceId input,
      rr_rootPrdId = ri_childDocumentId input, rr_rootPrdFile = ri_childRootPrdFile input,
      rr_source = None, rr_definitionHash = ri_graphDefinitionHash input,
      rr_graphHash = ri_graphHash input,
      rr_mode = re_modeOf (ne_run env) (eo_body (ri_effectiveOptions input)),
      rr_status = Run_created, rr_effectiveOptionsHash = ri_inheritedOptionsHash input,
      rr_effectiveOptions = ri_effectiveOptions input, rr_createdAt = ri_createdAt input,
      rr_startedAt = None, rr_finishedAt = None, rr_stopReason = None,
      rr_updatedAt = ri_createdAt input\<rparr>"

fun insert_child_tasks :: "'o reserve_input \<Rightarrow> child_task list \<Rightarrow> 'o child_db \<Rightarrow> 'o child_db result" where
  "insert_child_tasks input [] db = Inr db"
| "insert_child_tasks input (t # ts) db =
     (if task_row db (task_key (child_task_record input t)) \<noteq> None then Inl SqliteError
      else insert_child_tasks input ts (db\<lparr>xd_tasks := xd_tasks db @ [child_task_record input t]\<rparr>))"

definition reserved_link :: "'o reserve_input \<Rightarrow> child_link" where
  "reserved_link input =
     \<lparr>ln_id = ri_linkId input, ln_workspaceId = ri_workspaceId input,
      ln_parentRunId = ri_parentRunId input, ln_parentDocumentId = ri_parentDocumentId input,
      ln_parentTaskId = ri_parentTaskId input, ln_childRunId = ri_childRunId input,
      ln_childDocumentId = ri_childDocumentId input,
      ln_childRootPrdFile = ri_childRootPrdFile input,
      ln_graphDefinitionHash = ri_graphDefinitionHash input, ln_graphHash = ri_graphHash input,
      ln_inheritedOptionsHash = ri_inheritedOptionsHash input,
      ln_materializationHash = ri_materializationHash input, ln_depth = ri_depth input,
      ln_expectedDirectChildren = ri_expectedDirectChildren input,
      ln_parentPolicy = ri_parentPolicy input, ln_status = Child_reserved, ln_revision = 0,
      ln_leaseId = None, ln_observability = ri_observability input, ln_artifactsReconciled = False,
      ln_receipt = None, ln_createdAt = ri_createdAt input, ln_updatedAt = ri_createdAt input,
      ln_lastHeartbeatAt = None, ln_terminalAt = None, ln_terminalReason = None\<rparr>"

definition reserve_rows ::
  "'o child_env \<Rightarrow> 'o child_db \<Rightarrow> 'o reserve_input \<Rightarrow> ('o child_db \<times> child_link) result" where
  "reserve_rows env db input =
     and_then (insert_run db (child_run_record env input)) (\<lambda>db1.
     and_then (insert_child_tasks input (ri_tasks input) db1) (\<lambda>db2.
     and_then (insert_link db2 (reserved_link input)) (\<lambda>db3.
     and_then (requireLink db3 (ri_linkId input)) (\<lambda>l.
     and_then (parse_run_record (re_digest (ne_run env)) (re_optionsOk (ne_run env))
                (child_run_record env input)) (\<lambda>_.
     Inr (db3, l))))))"

text \<open>The identifiers of the events an operation appends are \<open>ids 0\<close>, \<open>ids 1\<close>, ...\<close>

definition reserveChildRun ::
  "'o child_env \<Rightarrow> 'o child_db \<Rightarrow> 'o reserve_input \<Rightarrow> (nat \<Rightarrow> string) \<Rightarrow>
   ('o child_db \<times> child_link \<times> bool) result" where
  "reserveChildRun env db input ids =
     and_then (reservation_valid env input) (\<lambda>_.
     and_then (findLinkForParentInDatabase db (ri_parentRunId input) (ri_parentDocumentId input)
                (ri_parentTaskId input)) (\<lambda>existing.
     case existing of
       Some l \<Rightarrow>
         and_then (assertReservationIdentity l input) (\<lambda>_.
         if run_row db (ln_childRunId l) = None
         then Inl (child_invalid ''RALPH_CHILD_RUN_LINK_DANGLING'')
         else Inr (db, l, False))
     | None \<Rightarrow>
         and_then (reservable db input) (\<lambda>_.
         and_then (reserve_rows env db input) (\<lambda>(db1, l).
         and_then (appendChildEvent db1 l To_parent ''child.run.reserved'' Level_info (ids 0)) (\<lambda>db2.
         and_then (appendChildEvent db2 l To_child ''run.created'' Level_info (ids 1)) (\<lambda>db3.
         and_then (appendTreeProgressEvent db3 l (ids 2)) (\<lambda>db4.
         Inr (db4, l, True))))))))"

section \<open>Reading the tree\<close>

fun links_from_rows :: "child_link list \<Rightarrow> child_link list result" where
  "links_from_rows [] = Inr []"
| "links_from_rows (l # ls) =
     and_then (linkFromRow l) (\<lambda>l. and_then (links_from_rows ls) (\<lambda>ls. Inr (l # ls)))"

definition deepest_first :: "(string \<Rightarrow> string \<Rightarrow> bool) \<Rightarrow> child_link \<Rightarrow> child_link \<Rightarrow> bool" where
  "deepest_first le a b \<longleftrightarrow>
     ln_depth b < ln_depth a \<or>
     ln_depth a = ln_depth b \<and>
       (ln_createdAt a < ln_createdAt b \<or> ln_createdAt a = ln_createdAt b \<and> le (ln_id a) (ln_id b))"

definition shallowest_first :: "(string \<Rightarrow> string \<Rightarrow> bool) \<Rightarrow> child_link \<Rightarrow> child_link \<Rightarrow> bool" where
  "shallowest_first le a b \<longleftrightarrow>
     ln_depth a < ln_depth b \<or>
     ln_depth a = ln_depth b \<and>
       (ln_createdAt a < ln_createdAt b \<or> ln_createdAt a = ln_createdAt b \<and> le (ln_id a) (ln_id b))"

definition listDirectChildRunLinks :: "'o child_db \<Rightarrow> string \<Rightarrow> child_link list result" where
  "listDirectChildRunLinks db runId =
     links_from_rows (sort_by (deepest_first (\<le>)) (children_of (xd_links db) runId))"

text \<open>The links of one run, pushed one by one, with the check against the runs seen and waiting.\<close>

fun push_links ::
  "string list \<Rightarrow> string list \<Rightarrow> child_link list \<Rightarrow> child_link list \<Rightarrow> (string list \<times> child_link list) result" where
  "push_links visited queue links [] = Inr (queue, links)"
| "push_links visited queue links (l # ls) =
     (if List.member visited (ln_childRunId l) \<or> List.member queue (ln_childRunId l) then Inl link_cycle
      else push_links visited (queue @ [ln_childRunId l]) (links @ [l]) ls)"

lemma push_links_Inr:
  "push_links visited queue links ls = Inr (queue', links') \<Longrightarrow>
   queue' = queue @ map ln_childRunId ls \<and> links' = links @ ls"
  by (induction ls arbitrary: queue links) (fastforce split: if_splits)+

lemma links_from_rows_Inr: "links_from_rows ls = Inr ls' \<Longrightarrow> ls' = ls \<and> list_all valid_child_link ls"
  by (induction ls arbitrary: ls') (auto simp: result_simps linkFromRow_def split: if_splits)

function tree_walk ::
  "child_link list \<Rightarrow> string list \<Rightarrow> string list \<Rightarrow> child_link list \<Rightarrow> child_link list result" where
  "tree_walk ls visited [] links = Inr links"
| "tree_walk ls visited (r # queue) links =
     (if List.member visited r then Inl link_cycle
      else case links_from_rows (sort_by (shallowest_first (\<le>)) (children_of ls r)) of
        Inl e \<Rightarrow> Inl e
      | Inr direct \<Rightarrow>
          (case push_links (r # visited) queue links direct of
             Inl e \<Rightarrow> Inl e
           | Inr (queue', links') \<Rightarrow> tree_walk ls (r # visited) queue' links'))"
  by pat_completeness auto
termination
  by (relation "measure (\<lambda>(ls, visited, queue, links). length queue + length (open_links ls visited))")
     (auto simp: open_links_visit dest!: push_links_Inr links_from_rows_Inr)

declare tree_walk.simps(2) [simp del]

definition listChildRunTree :: "'o child_env \<Rightarrow> 'o child_db \<Rightarrow> string \<Rightarrow> child_link list result" where
  "listChildRunTree env db rootRunId =
     and_then (tree_walk (xd_links db) [] [rootRunId] []) (\<lambda>links.
       Inr (sort_by (shallowest_first (ne_collate env)) links))"

definition findDeepestResumableChildRun ::
  "'o child_env \<Rightarrow> 'o child_db \<Rightarrow> string \<Rightarrow> child_link option result" where
  "findDeepestResumableChildRun env db rootRunId =
     and_then (listChildRunTree env db rootRunId) (\<lambda>links.
       Inr (case sort_by (deepest_first (ne_collate env))
                   (filter (\<lambda>l. \<not> isTerminalChildRunStatus (ln_status l)) links) of
              [] \<Rightarrow> None
            | l # _ \<Rightarrow> Some l))"

section \<open>Observation\<close>

record observation_input =
  ui_linkId :: string
  ui_expectedRevision :: nat
  ui_status :: "child_status option"
  ui_leaseId :: "string option option"
  ui_observability :: "child_observability option"
  ui_heartbeatAt :: "int option"
  ui_updatedAt :: int

definition assertLeaseBinding :: "'o child_db \<Rightarrow> child_link \<Rightarrow> string \<Rightarrow> unit result" where
  "assertLeaseBinding db l leaseId =
     require (lease_bound db l leaseId) (child_invalid ''RALPH_CHILD_LEASE_BINDING_INVALID'')"

definition revision_conflict :: failure where
  "revision_conflict = child_invalid ''RALPH_CHILD_LINK_REVISION_CONFLICT''"

definition observed_link ::
  "child_status \<Rightarrow> string option \<Rightarrow> child_observability \<Rightarrow> observation_input \<Rightarrow> child_link \<Rightarrow>
   child_link \<Rightarrow> child_link" where
  "observed_link status leaseId observability input current l =
     l\<lparr>ln_status := status, ln_revision := ln_revision l + 1, ln_leaseId := leaseId,
       ln_observability := observability, ln_updatedAt := ui_updatedAt input,
       ln_lastHeartbeatAt :=
         (case ui_heartbeatAt input of None \<Rightarrow> ln_lastHeartbeatAt current | Some t \<Rightarrow> Some t)\<rparr>"

definition updateChildRunObservation ::
  "'o child_db \<Rightarrow> observation_input \<Rightarrow> (nat \<Rightarrow> string) \<Rightarrow> ('o child_db \<times> child_link) result" where
  "updateChildRunObservation db input ids =
     and_then (requireLink db (ui_linkId input)) (\<lambda>current.
     (let status = or_else (ui_status input) (ln_status current);
          leaseId = or_else (ui_leaseId input) (ln_leaseId current);
          observability = or_else (ui_observability input) (ln_observability current) in
      if ln_revision current \<noteq> ui_expectedRevision input then Inl revision_conflict
      else if \<not> canTransitionChildRunStatus (ln_status current) status
      then Inl (child_invalid ''RALPH_CHILD_STATUS_TRANSITION_INVALID'')
      else if isTerminalChildRunStatus status
      then Inl (child_invalid ''RALPH_CHILD_TERMINAL_SETTLEMENT_REQUIRED'')
      else
        and_then (if leaseId = None \<or> leaseId = Some [] then Inr ()
                  else assertLeaseBinding db current (the leaseId)) (\<lambda>_.
        if \<not> valid_child_observability observability then Inl ZodError
        else
          and_then (update_link db True current
                     (observed_link status leaseId observability input current)) (\<lambda>(db1, changes).
          if changes \<noteq> 1 then Inl revision_conflict
          else
            and_then (requireLink db1 (ln_id current)) (\<lambda>updated.
            and_then (appendChildEvent db1 updated To_parent ''child.run.observed'' Level_info (ids 0)) (\<lambda>db2.
            if gb_progress (ln_observability current) \<noteq> gb_progress (ln_observability updated)
            then and_then (appendTreeProgressEvent db2 updated (ids 1)) (\<lambda>db3. Inr (db3, updated))
            else Inr (db2, updated)))))))"

section \<open>Settlement\<close>

record settle_input =
  si_linkId :: string
  si_expectedRevision :: nat
  si_artifactsReconciled :: bool
  si_reason :: string
  si_finishedAt :: int

definition terminalReceipt ::
  "'o child_env \<Rightarrow> child_link \<Rightarrow> child_observability \<Rightarrow> child_status \<Rightarrow> settle_input \<Rightarrow>
   child_receipt result" where
  "terminalReceipt env l observability status input =
     (let projection =
        \<lparr>rc_linkId = ln_id l, rc_childRunId = ln_childRunId l, rc_status = status,
         rc_progress = gb_progress observability,
         rc_artifactsReconciled = si_artifactsReconciled input, rc_graphHash = ln_graphHash l,
         rc_finishedAt = si_finishedAt input, rc_reason = si_reason input, rc_contentHash = []\<rparr>;
          receipt = projection\<lparr>rc_contentHash := ne_receiptHash env projection\<rparr> in
      if valid_child_receipt receipt then Inr receipt else Inl ZodError)"

definition settled_progress :: "'o child_db \<Rightarrow> string \<Rightarrow> child_progress" where
  "settled_progress db runId =
     \<lparr>gp_completed = length (filter task_done (tasks_of db runId)),
      gp_total = length (tasks_of db runId), gp_currentDocumentId = None, gp_currentTaskId = None\<rparr>"

text \<open>The checks of a settlement, which give the status of the link and its observation.\<close>

definition settlement ::
  "'o child_db \<Rightarrow> child_link \<Rightarrow> settle_input \<Rightarrow> (child_status \<times> child_observability) result" where
  "settlement db current input =
     (case run_row db (ln_childRunId current) of
        None \<Rightarrow> Inl (child_invalid ''RALPH_CHILD_RUN_NOT_FOUND'')
      | Some run \<Rightarrow>
          (let status = childRunStatusFromRunStatus (rr_status run);
               progress = settled_progress db (ln_childRunId current);
               observability = (ln_observability current)\<lparr>gb_progress := progress\<rparr>;
               children = children_of (xd_links db) (ln_childRunId current) in
           if \<not> isTerminalChildRunStatus status
           then Inl (child_invalid ''RALPH_CHILD_RUN_NOT_TERMINAL'')
           else if \<not> canTransitionChildRunStatus (ln_status current) status
           then Inl (child_invalid ''RALPH_CHILD_STATUS_TRANSITION_INVALID'')
           else if \<not> valid_child_observability observability then Inl ZodError
           else if status = Child_passed \<and> gp_completed progress \<noteq> gp_total progress
           then Inl (child_invalid ''RALPH_CHILD_TASKS_INCOMPLETE'')
           else if status = Child_passed \<and> \<not> si_artifactsReconciled input
           then Inl (child_invalid ''RALPH_CHILD_ARTIFACTS_NOT_RECONCILED'')
           else if status = Child_passed \<and>
                   (int (length children) \<noteq> ln_expectedDirectChildren current \<or>
                    \<not> list_all (\<lambda>c. ln_status c = Child_passed) children)
           then Inl (child_invalid ''RALPH_CHILD_DESCENDANTS_INCOMPLETE'')
           else Inr (status, observability)))"

definition settled_link ::
  "child_status \<Rightarrow> child_observability \<Rightarrow> child_receipt \<Rightarrow> settle_input \<Rightarrow> child_link \<Rightarrow> child_link" where
  "settled_link status observability receipt input l =
     l\<lparr>ln_status := status, ln_revision := ln_revision l + 1, ln_observability := observability,
       ln_artifactsReconciled := si_artifactsReconciled input, ln_receipt := Some receipt,
       ln_updatedAt := si_finishedAt input, ln_terminalAt := Some (si_finishedAt input),
       ln_terminalReason := Some (si_reason input)\<rparr>"

fun child_status_name :: "child_status \<Rightarrow> string" where
  "child_status_name Child_reserved = ''reserved''"
| "child_status_name Child_starting = ''starting''"
| "child_status_name Child_running = ''running''"
| "child_status_name Child_waiting = ''waiting''"
| "child_status_name Child_blocked = ''blocked''"
| "child_status_name Child_interrupted = ''interrupted''"
| "child_status_name Child_passed = ''passed''"
| "child_status_name Child_failed = ''failed''"
| "child_status_name Child_cancelled = ''cancelled''"

definition settleChildRun ::
  "'o child_env \<Rightarrow> 'o child_db \<Rightarrow> settle_input \<Rightarrow> (nat \<Rightarrow> string) \<Rightarrow>
   ('o child_db \<times> child_link) result" where
  "settleChildRun env db input ids =
     and_then (requireLink db (si_linkId input)) (\<lambda>current.
     if ln_revision current \<noteq> si_expectedRevision input then Inl revision_conflict
     else
       and_then (settlement db current input) (\<lambda>(status, observability).
       and_then (terminalReceipt env current observability status input) (\<lambda>receipt.
       and_then (update_link db False current
                  (settled_link status observability receipt input)) (\<lambda>(db1, changes).
       if changes \<noteq> 1 then Inl revision_conflict
       else
         and_then (requireLink db1 (ln_id current)) (\<lambda>settled.
         (let level = (if status = Child_passed then Level_info else Level_error) in
          and_then (appendChildEvent db1 settled To_parent (''child.run.'' @ child_status_name status)
                     level (ids 0)) (\<lambda>db2.
          and_then (appendChildEvent db2 settled To_child ''child.run.settled'' level (ids 1)) (\<lambda>db3.
          and_then (appendTreeProgressEvent db3 settled (ids 2)) (\<lambda>db4.
          Inr (db4, settled))))))))))"

definition getChildRunTerminalReceipt ::
  "'o child_env \<Rightarrow> 'o child_db \<Rightarrow> string \<Rightarrow> child_receipt option result" where
  "getChildRunTerminalReceipt env db linkId =
     (case link_row db linkId of
        None \<Rightarrow> Inl (child_invalid ''RALPH_CHILD_LINK_NOT_FOUND'')
      | Some l \<Rightarrow>
          (case ln_receipt l of
             None \<Rightarrow> Inr None
           | Some r \<Rightarrow>
               if \<not> valid_child_receipt r
               then Inl (RalphError ''RALPH_CHILD_LEDGER_INVALID'' Exit_conflict)
               else if ne_receiptHash env (r\<lparr>rc_contentHash := []\<rparr>) \<noteq> rc_contentHash r
               then Inl (child_invalid ''RALPH_CHILD_TERMINAL_RECEIPT_HASH_MISMATCH'')
               else Inr (Some r)))"

section \<open>Projection of events\<close>

fun js_includes :: "string \<Rightarrow> string \<Rightarrow> bool" where
  "js_includes [] p = starts_with [] p"
| "js_includes (c # s) p = (starts_with (c # s) p \<or> js_includes s p)"

datatype projection_kind =
    Project_log | Project_usage | Project_progress | Project_status | Project_event

definition eventProjectionKind :: "run_event \<Rightarrow> projection_kind" where
  "eventProjectionKind e =
     (if js_includes (xe_type e) ''usage'' \<or> js_includes (xe_type e) ''token'' then Project_usage
      else if js_includes (xe_type e) ''progress'' \<or> starts_with (xe_type e) ''task.'' then Project_progress
      else if starts_with (xe_type e) ''run.'' \<or> js_includes (xe_type e) ''watchdog'' then Project_status
      else if js_includes (xe_type e) ''output'' \<or> js_includes (xe_type e) ''delta'' \<or>
              xe_level e = Level_warn \<or> xe_level e = Level_error then Project_log
      else Project_event)"

record project_input =
  pi_linkId :: string
  pi_sourceEvent :: run_event
  pi_projectedEventId :: string
  pi_projectedAt :: int

text \<open>\<^verbatim>\<open>EventEnvelopeConsumerSchema\<close> on the fields of an event of a run.\<close>

definition valid_source :: "run_event \<Rightarrow> bool" where
  "valid_source e \<longleftrightarrow>
     nonempty (xe_id e) \<and> nonempty (xe_type e) \<and> nonempty_opt (xe_runId e) \<and>
     nonempty (xe_workspaceId e) \<and> 0 < xe_sequence e \<and> counter (xe_sequence e)"

definition projection_index :: "child_projection list \<Rightarrow> bool" where
  "projection_index ps \<longleftrightarrow>
     distinct (map (\<lambda>p. (xp_linkId p, xp_sourceEventId p)) ps) \<and> distinct (map xp_projectedEventId ps) \<and>
     distinct (map (\<lambda>p. (xp_linkId p, xp_sourceSequence p)) ps)"

definition insert_projection :: "'o child_db \<Rightarrow> child_projection \<Rightarrow> 'o child_db result" where
  "insert_projection db p =
     (if projection_index (xd_projections db @ [p]) \<and> 0 < xp_sourceSequence p
      then Inr (db\<lparr>xd_projections := xd_projections db @ [p]\<rparr>) else Inl SqliteError)"

definition projected_observability :: "run_event \<Rightarrow> child_observability \<Rightarrow> child_observability" where
  "projected_observability e b =
     b\<lparr>gb_lastSourceEventSequence := max (gb_lastSourceEventSequence b) (xe_sequence e),
       gb_lastLogSequence :=
         (if eventProjectionKind e = Project_log then max (gb_lastLogSequence b) (xe_sequence e)
          else gb_lastLogSequence b)\<rparr>"

definition projected_link :: "child_observability \<Rightarrow> int \<Rightarrow> child_link \<Rightarrow> child_link" where
  "projected_link observability projectedAt l =
     l\<lparr>ln_revision := ln_revision l + 1, ln_observability := observability, ln_updatedAt := projectedAt\<rparr>"

text \<open>A projection not made before: its event, its row, the link, and the progress of the tree.\<close>

definition project_new ::
  "'o child_db \<Rightarrow> child_link \<Rightarrow> project_input \<Rightarrow> (nat \<Rightarrow> string) \<Rightarrow>
   ('o child_db \<times> bool \<times> string \<times> nat) result" where
  "project_new db l input ids =
     (let source = pi_sourceEvent input in
      and_then (appendChildEvent db l To_parent ''child.event.projected'' (xe_level source)
                 (pi_projectedEventId input)) (\<lambda>db1.
      and_then (insert_projection db1
        \<lparr>xp_linkId = ln_id l, xp_sourceEventId = xe_id source, xp_sourceSequence = xe_sequence source,
         xp_projectedEventId = pi_projectedEventId input, xp_projectedAt = pi_projectedAt input\<rparr>) (\<lambda>db2.
      (let observability = projected_observability source (ln_observability l) in
       if \<not> valid_child_observability observability then Inl ZodError
       else
         and_then (update_link db2 False l (projected_link observability (pi_projectedAt input)))
           (\<lambda>(db3, changes).
         if changes \<noteq> 1 then Inl revision_conflict
         else
           and_then (if eventProjectionKind source = Project_progress
                     then and_then (requireLink db3 (ln_id l)) (\<lambda>l. appendTreeProgressEvent db3 l (ids 0))
                     else Inr db3) (\<lambda>db4.
           Inr (db4, True, pi_projectedEventId input, xe_sequence source)))))))"

definition projectChildEventToParent ::
  "'o child_env \<Rightarrow> 'o child_db \<Rightarrow> project_input \<Rightarrow> (nat \<Rightarrow> string) \<Rightarrow>
   ('o child_db \<times> bool \<times> string \<times> nat) result" where
  "projectChildEventToParent env db input ids =
     (let source = pi_sourceEvent input in
      if \<not> valid_source source then Inl ZodError
      else
        and_then (requireLink db (pi_linkId input)) (\<lambda>l.
        if xe_runId source \<noteq> Some (ln_childRunId l) \<or> xe_workspaceId source \<noteq> ln_workspaceId l
        then Inl (child_invalid ''RALPH_CHILD_EVENT_SCOPE_MISMATCH'')
        else
          (case find_row xe_id (xd_events db) (xe_id source) of
             None \<Rightarrow> Inl (child_invalid ''RALPH_CHILD_EVENT_NOT_PERSISTED'')
           | Some durable \<Rightarrow>
               if xe_sequence durable \<noteq> xe_sequence source
               then Inl (child_invalid ''RALPH_CHILD_EVENT_NOT_PERSISTED'')
               else if \<not> valid_source durable then Inl ZodError
               else if ne_eventHash env durable \<noteq> ne_eventHash env source
               then Inl (child_invalid ''RALPH_CHILD_EVENT_CONTENT_MISMATCH'')
               else
                 (case find (\<lambda>p. xp_linkId p = ln_id l \<and> xp_sourceEventId p = xe_id source)
                         (xd_projections db) of
                    Some p \<Rightarrow> Inr (db, False, xp_projectedEventId p, xp_sourceSequence p)
                  | None \<Rightarrow> project_new db l input ids))))"

section \<open>The gate of the parent\<close>

datatype not_ready =
    Child_not_reserved | Child_other_document | Child_not_passed child_status
  | Child_not_reconciled | Child_without_receipt

record completion_state =
  pz_ready :: bool
  pz_links :: "child_link list"
  pz_reasons :: "not_ready list"

text \<open>Two transactions: the link is read first, its receipt in the ledger as it is then.\<close>

definition parentChildCompletionState ::
  "'o child_env \<Rightarrow> 'o child_db \<Rightarrow> 'o child_db \<Rightarrow> string \<times> string \<times> string \<Rightarrow> string option \<Rightarrow>
   completion_state result" where
  "parentChildCompletionState env db db' parent expected =
     (case parent of (runId, documentId, taskId) \<Rightarrow>
        and_then (findLinkForParentInDatabase db runId documentId taskId) (\<lambda>found.
        case found of
          None \<Rightarrow>
            Inr \<lparr>pz_ready = \<not> (case expected of None \<Rightarrow> False | Some d \<Rightarrow> d \<noteq> []), pz_links = [],
                 pz_reasons = (if (case expected of None \<Rightarrow> False | Some d \<Rightarrow> d \<noteq> [])
                               then [Child_not_reserved] else [])\<rparr>
        | Some l \<Rightarrow>
            and_then (getChildRunTerminalReceipt env db' (ln_id l)) (\<lambda>receipt.
            (let reasons =
               (case expected of
                  None \<Rightarrow> []
                | Some d \<Rightarrow> if d \<noteq> [] \<and> ln_childDocumentId l \<noteq> d then [Child_other_document] else []) @
               (if ln_status l \<noteq> Child_passed then [Child_not_passed (ln_status l)] else []) @
               (if \<not> ln_artifactsReconciled l then [Child_not_reconciled] else []) @
               (case receipt of
                  None \<Rightarrow> [Child_without_receipt]
                | Some r \<Rightarrow> if rc_status r \<noteq> Child_passed then [Child_without_receipt] else []) in
             Inr \<lparr>pz_ready = (reasons = []), pz_links = [l], pz_reasons = reasons\<rparr>))))"

definition assertParentChildCompletionReady ::
  "'o child_env \<Rightarrow> 'o child_db \<Rightarrow> 'o child_db \<Rightarrow> string \<times> string \<times> string \<Rightarrow> string \<Rightarrow>
   child_link result" where
  "assertParentChildCompletionReady env db db' parent expected =
     and_then (parentChildCompletionState env db db' parent (Some expected)) (\<lambda>state.
       case pz_links state of
         l # _ \<Rightarrow>
           if pz_ready state then Inr l
           else Inl (child_invalid ''RALPH_PARENT_CHILD_COMPLETION_NOT_READY'')
       | [] \<Rightarrow> Inl (child_invalid ''RALPH_PARENT_CHILD_COMPLETION_NOT_READY''))"

record tree_aggregate =
  ag_runIds :: "string list"
  ag_childLinks :: "child_link list"
  ag_completed :: nat
  ag_total :: nat
  ag_runningChildren :: nat
  ag_blockedChildren :: nat
  ag_failedChildren :: nat
  ag_lastSourceEventSequence :: nat
  ag_lastLogSequence :: nat

definition count_status :: "child_status list \<Rightarrow> child_link list \<Rightarrow> nat" where
  "count_status ss ls = length (filter (\<lambda>l. List.member ss (ln_status l)) ls)"

text \<open>The links are listed in one transaction, the tasks counted in the next.\<close>

definition readChildRunTreeAggregate ::
  "'o child_env \<Rightarrow> 'o child_db \<Rightarrow> 'o child_db \<Rightarrow> string \<Rightarrow> tree_aggregate result" where
  "readChildRunTreeAggregate env db db' rootRunId =
     and_then (listChildRunTree env db rootRunId) (\<lambda>links.
       (let runIds = rootRunId # map ln_childRunId links; tasks = leaf_tasks db' runIds links in
        Inr \<lparr>ag_runIds = runIds, ag_childLinks = links,
             ag_completed = length (filter task_done tasks), ag_total = length tasks,
             ag_runningChildren = count_status [Child_starting, Child_running] links,
             ag_blockedChildren = count_status [Child_waiting, Child_blocked, Child_interrupted] links,
             ag_failedChildren = count_status [Child_failed, Child_cancelled] links,
             ag_lastSourceEventSequence =
               foldl max 0 (map (\<lambda>l. gb_lastSourceEventSequence (ln_observability l)) links),
             ag_lastLogSequence =
               foldl max 0 (map (\<lambda>l. gb_lastLogSequence (ln_observability l)) links)\<rparr>))"

end
