(* ===== verification/ChildTree.thy ===== *)
theory ChildTree
  imports ChildLedger
begin

text \<open>
  What the ledger of child runs promises: its links form a forest whose walks never meet a
  cycle, and the tree below a passed link is complete. The first part is on lists of links, the
  second on the operations of \<open>ChildLedger\<close> and the writers of \<open>RunStore\<close>.
\<close>

section \<open>Links as edges\<close>

definition edges :: "child_link list \<Rightarrow> (string \<times> string) list" where
  "edges ls = map (\<lambda>l. (ln_parentRunId l, ln_childRunId l)) ls"

text \<open>A link is added with a child run that no earlier link, nor itself, has for its parent.\<close>

definition grown :: "(string \<times> string) list \<Rightarrow> bool" where
  "grown es \<longleftrightarrow> sorted_wrt (\<lambda>a b. snd b \<noteq> fst a) es \<and> list_all (\<lambda>e. fst e \<noteq> snd e) es"

lemma grown_snoc:
  "grown (es @ [e]) \<longleftrightarrow> grown es \<and> fst e \<noteq> snd e \<and> snd e \<notin> fst ` set es"
  by (auto simp: grown_def sorted_wrt_append)

lemma grown_acyclic: "grown es \<Longrightarrow> acyclic (set es)"
proof (induction es rule: rev_induct)
  case (snoc e es)
  then have e: "fst e \<noteq> snd e" "snd e \<notin> fst ` set es" and ac: "acyclic (set es)"
    by (simp_all add: grown_snoc)
  have "(snd e, fst e) \<notin> (set es)\<^sup>*"
  proof
    assume "(snd e, fst e) \<in> (set es)\<^sup>*"
    then show False
      using e by (cases rule: converse_rtranclE) force+
  qed
  then show ?case
    using ac by (cases e) (simp add: acyclic_insert)
qed (simp add: acyclic_def)

text \<open>The links of the tree below a run.\<close>

inductive under :: "child_link list \<Rightarrow> string \<Rightarrow> child_link \<Rightarrow> bool" for ls r where
  under_direct: "l \<in> set ls \<Longrightarrow> ln_parentRunId l = r \<Longrightarrow> under ls r l"
| under_deeper: "under ls r l \<Longrightarrow> l' \<in> set ls \<Longrightarrow> ln_parentRunId l' = ln_childRunId l \<Longrightarrow> under ls r l'"

lemma edge_in: "l \<in> set ls \<Longrightarrow> (ln_parentRunId l, ln_childRunId l) \<in> set (edges ls)"
  by (auto simp: edges_def)

lemma under_path: "under ls r l \<Longrightarrow> (r, ln_childRunId l) \<in> (set (edges ls))\<^sup>+"
  by (induction rule: under.induct) (auto intro: trancl_into_trancl dest: edge_in)

lemma under_in: "under ls r l \<Longrightarrow> l \<in> set ls"
  by (cases rule: under.cases) auto

lemma under_not_root: "grown (edges ls) \<Longrightarrow> under ls r l \<Longrightarrow> ln_childRunId l \<noteq> r"
  using under_path grown_acyclic by (fastforce simp: acyclic_def)

section \<open>Walks over the queue\<close>

text \<open>Both walks keep this: the runs seen and waiting are the root and the children of the links found.\<close>

definition walking ::
  "child_link list \<Rightarrow> string \<Rightarrow> string list \<Rightarrow> string list \<Rightarrow> child_link list \<Rightarrow> bool" where
  "walking ls r visited queue links \<longleftrightarrow>
     distinct (visited @ queue) \<and> distinct links \<and>
     set links = {l \<in> set ls. ln_parentRunId l \<in> set visited} \<and>
     set visited \<union> set queue = insert r (ln_childRunId ` set links) \<and>
     (\<forall>l \<in> set links. under ls r l)"

lemma walking_start: "walking ls r [] [r] []"
  by (simp add: walking_def)

lemma walking_new: "walking ls r visited (s # queue) links \<Longrightarrow> s \<notin> set visited"
  by (simp add: walking_def)

lemma walking_end:
  assumes "walking ls r visited [] links"
  shows "set links = {l. under ls r l}" "distinct links"
proof -
  note w = assms [unfolded walking_def]
  have links: "set links = {l \<in> set ls. ln_parentRunId l \<in> set visited}"
    and runs: "set visited \<union> set [] = insert r (ln_childRunId ` set links)"
    and u: "\<forall>l \<in> set links. under ls r l" and d: "distinct links"
    using w by blast+
  have all: "l \<in> set links" if "under ls r l" for l
    using that
  proof (induction rule: under.induct)
    case (under_direct l)
    have "r \<in> set visited \<union> set []"
      unfolding runs by simp
    then show ?case
      unfolding links using under_direct by simp
  next
    case (under_deeper l l')
    then have "ln_parentRunId l' \<in> set visited \<union> set []"
      unfolding runs by simp
    then show ?case
      using under_deeper(2) unfolding links by simp
  qed
  show "set links = {l. under ls r l}"
    using u all by blast
  show "distinct links"
    by (rule d)
qed

lemma walking_step:
  assumes w: "walking ls r visited (s # queue) links" and g: "grown (edges ls)"
    and u: "distinct (map ln_childRunId ls)" and d: "set direct = set (children_of ls s)" "distinct direct"
  shows "distinct (s # visited @ queue @ map ln_childRunId direct)"
    and "walking ls r (s # visited) (queue @ map ln_childRunId direct) (links @ direct)"
proof -
  have dist: "distinct (visited @ s # queue)" "distinct links"
    and links: "set links = {l \<in> set ls. ln_parentRunId l \<in> set visited}"
    and runs: "insert s (set visited \<union> set queue) = insert r (ln_childRunId ` set links)"
    and below: "\<forall>l \<in> set links. under ls r l"
    using w by (auto simp: walking_def)
  have direct: "l \<in> set ls \<and> ln_parentRunId l = s" if "l \<in> set direct" for l
    using that d by (simp add: children_of_def)
  have same: "l = l'" if "l \<in> set ls" "l' \<in> set ls" "ln_childRunId l = ln_childRunId l'" for l l'
    using that u by (metis distinct_map inj_onD)
  have s: "s = r \<or> (\<exists>l \<in> set links. s = ln_childRunId l)"
    using runs by blast
  have under: "under ls r l" if "l \<in> set direct" for l
    using s
  proof
    assume "s = r"
    then show ?thesis
      using direct [OF that] by (auto intro: under_direct)
  next
    assume "\<exists>k \<in> set links. s = ln_childRunId k"
    then show ?thesis
      using direct [OF that] below by (auto intro: under_deeper)
  qed
  have fresh: "ln_childRunId l \<notin> insert s (set visited \<union> set queue)" if l: "l \<in> set direct" for l
  proof
    assume "ln_childRunId l \<in> insert s (set visited \<union> set queue)"
    then have "ln_childRunId l = r \<or> ln_childRunId l \<in> ln_childRunId ` set links"
      unfolding runs by simp
    then show False
    proof
      assume "ln_childRunId l = r"
      then show False
        using under_not_root [OF g under [OF l]] by simp
    next
      assume "ln_childRunId l \<in> ln_childRunId ` set links"
      then obtain k where k: "k \<in> set links" "ln_childRunId l = ln_childRunId k"
        by blast
      then have "l = k"
        using same direct [OF l] links by auto
      then show False
        using k(1) direct [OF l] links dist(1) by auto
    qed
  qed
  have inj: "inj_on ln_childRunId (set direct)"
    using same direct by (meson inj_onI)
  show dist': "distinct (s # visited @ queue @ map ln_childRunId direct)"
    using dist(1) fresh d(2) inj by (auto simp: distinct_map)
  have apart: "set links \<inter> set direct = {}"
    using direct links dist(1) by auto
  show "walking ls r (s # visited) (queue @ map ln_childRunId direct) (links @ direct)"
    unfolding walking_def
  proof (intro conjI)
    show "distinct ((s # visited) @ queue @ map ln_childRunId direct)"
      using dist' by simp
    show "distinct (links @ direct)"
      using dist(2) d(2) apart by simp
    show "set (links @ direct) = {l \<in> set ls. ln_parentRunId l \<in> set (s # visited)}"
      using links d(1) by (auto simp: children_of_def)
    show "set (s # visited) \<union> set (queue @ map ln_childRunId direct) =
        insert r (ln_childRunId ` set (links @ direct))"
      using runs by auto
    show "\<forall>l \<in> set (links @ direct). under ls r l"
      using below under by auto
  qed
qed

lemma distinct_children: "distinct (map ln_childRunId ls) \<Longrightarrow> distinct (children_of ls s)"
  by (simp add: children_of_def distinct_map)

lemma leaf_walk_walking:
  "walking ls r visited queue links \<Longrightarrow> grown (edges ls) \<Longrightarrow> distinct (map ln_childRunId ls) \<Longrightarrow>
   \<exists>links'. leaf_walk ls visited queue links = Inr links' \<and> set links' = {l. under ls r l} \<and> distinct links'"
proof (induction ls visited queue links rule: leaf_walk.induct)
  case (1 ls visited links)
  then show ?case
    using walking_end [OF 1(1)] by simp
next
  case (2 ls visited s queue links)
  let ?direct = "sort_by (\<lambda>a b. ln_id a \<le> ln_id b) (children_of ls s)"
  have new: "\<not> List.member visited s"
    using walking_new [OF 2(2)] by simp
  moreover have "walking ls r (s # visited) (queue @ map ln_childRunId ?direct) (links @ ?direct)"
    by (rule walking_step(2) [OF 2(2,3,4)]) (simp_all add: distinct_children [OF 2(4)])
  from 2(1) [OF new refl this 2(3,4)] show ?case
    using new by (simp add: leaf_walk.simps(2) Let_def)
qed

lemma push_links_all:
  "distinct (visited @ queue @ map ln_childRunId ls) \<Longrightarrow>
   push_links visited queue links ls = Inr (queue @ map ln_childRunId ls, links @ ls)"
  by (induction ls arbitrary: queue links) auto

lemma links_from_rows_valid: "list_all valid_child_link ls \<Longrightarrow> links_from_rows ls = Inr ls"
  by (induction ls) (simp_all add: linkFromRow_def valid_child_link_def)

lemma tree_walk_walking:
  "walking ls r visited queue links \<Longrightarrow> grown (edges ls) \<Longrightarrow> distinct (map ln_childRunId ls) \<Longrightarrow>
   list_all valid_child_link ls \<Longrightarrow>
   \<exists>links'. tree_walk ls visited queue links = Inr links' \<and> set links' = {l. under ls r l} \<and> distinct links'"
proof (induction ls visited queue links rule: tree_walk.induct)
  case (1 ls visited links)
  then show ?case
    using walking_end [OF 1(1)] by simp
next
  case (2 ls visited s queue links)
  let ?direct = "sort_by (shallowest_first (\<le>)) (children_of ls s)"
  have new: "\<not> List.member visited s"
    using walking_new [OF 2(2)] by simp
  have rows: "links_from_rows ?direct = Inr ?direct"
    using 2(5) by (intro links_from_rows_valid) (auto simp: list_all_iff children_of_def)
  note step = walking_step [OF 2(2,3,4), of ?direct]
  have w: "walking ls r (s # visited) (queue @ map ln_childRunId ?direct) (links @ ?direct)"
    by (rule step(2)) (simp_all add: distinct_children [OF 2(4)])
  have "distinct ((s # visited) @ queue @ map ln_childRunId ?direct)"
    using step(1) by (simp add: distinct_children [OF 2(4)])
  then have push: "push_links (s # visited) queue links ?direct =
      Inr (queue @ map ln_childRunId ?direct, links @ ?direct)"
    by (rule push_links_all)
  from 2(1) [OF new rows push refl w 2(3,4,5)] show ?case
    using new rows push by (simp add: tree_walk.simps(2))
qed

text \<open>The climb: the runs seen lie below the current one.\<close>

lemma root_loop_ends:
  "acyclic (set (edges ls)) \<Longrightarrow> \<forall>v \<in> set visited. (current, v) \<in> (set (edges ls))\<^sup>+ \<Longrightarrow>
   \<exists>root. root_loop ls visited current = Inr root \<and> (root, current) \<in> (set (edges ls))\<^sup>* \<and>
     (\<forall>l \<in> set ls. ln_childRunId l \<noteq> root)"
proof (induction ls visited current rule: root_loop.induct)
  case (1 ls visited current)
  have new: "\<not> List.member visited current"
    using 1(2,3) by (auto simp: acyclic_def)
  show ?case
  proof (cases "find (\<lambda>l. ln_childRunId l = current) ls")
    case None
    then have "\<forall>l \<in> set ls. ln_childRunId l \<noteq> current"
      by (simp add: find_None_conv)
    then show ?thesis
      using new None by (subst root_loop.simps) simp
  next
    case (Some l)
    then have e: "(ln_parentRunId l, current) \<in> set (edges ls)"
      using find_SomeD [OF Some] edge_in by auto
    then have "\<forall>v \<in> set (current # visited). (ln_parentRunId l, v) \<in> (set (edges ls))\<^sup>+"
      using 1(3) by (auto intro: trancl_into_trancl2)
    from 1(1) [OF new Some 1(2) this] obtain root
      where root: "root_loop ls (current # visited) (ln_parentRunId l) = Inr root"
        "(root, ln_parentRunId l) \<in> (set (edges ls))\<^sup>*" "\<forall>l \<in> set ls. ln_childRunId l \<noteq> root"
      by blast
    then show ?thesis
      using new Some e by (subst root_loop.simps) (auto intro: rtrancl_into_rtrancl)
  qed
qed

lemma path_under: "(r, c) \<in> (set (edges ls))\<^sup>+ \<Longrightarrow> \<exists>l. under ls r l \<and> ln_childRunId l = c"
proof (induction rule: trancl_induct)
  case (base c)
  then obtain l where "l \<in> set ls" "ln_parentRunId l = r" "ln_childRunId l = c"
    by (auto simp: edges_def)
  then show ?case
    using under_direct by blast
next
  case (step b c)
  then obtain k l where "under ls r k" "ln_childRunId k = b" "l \<in> set ls" "ln_parentRunId l = b"
      "ln_childRunId l = c"
    by (auto simp: edges_def)
  then have "under ls r l"
    by (auto intro: under_deeper)
  then show ?case
    using \<open>ln_childRunId l = c\<close> by blast
qed

end
