(* ===== verification/ChildSteps.thy ===== *)
theory ChildSteps
  imports ChildTree
begin

text \<open>
  The operations on the ledger of child runs as steps, beside the writers of runs and tasks and
  the lease operations of any process. Every step keeps the constraints of the tables, the
  forest and the completeness of what passed, and only ever adds to what is decided.
\<close>

section \<open>Steps\<close>

text \<open>Whatever happens to leases is possible.\<close>

inductive child_step :: "'o child_env \<Rightarrow> 'o child_db \<Rightarrow> 'o child_db \<Rightarrow> bool" for env :: "'o child_env" where
  step_store: "store_step (ne_run env) db db' \<Longrightarrow> child_step env db db'"
| step_leases: "child_step env db (db\<lparr>xd_leases := ls\<rparr>)"
| step_reserve: "reserveChildRun env db ri ids = Inr (db', l, made) \<Longrightarrow> child_step env db db'"
| step_observe: "updateChildRunObservation db ui ids = Inr (db', l) \<Longrightarrow> child_step env db db'"
| step_settle: "settleChildRun env db si ids = Inr (db', l) \<Longrightarrow> child_step env db db'"
| step_project: "projectChildEventToParent env db pi ids = Inr (db', p) \<Longrightarrow> child_step env db db'"

abbreviation child_steps :: "'o child_env \<Rightarrow> 'o child_db \<Rightarrow> 'o child_db \<Rightarrow> bool" where
  "child_steps env \<equiv> (child_step env)\<^sup>*\<^sup>*"

definition empty_child_db :: "'o child_db" where
  "empty_child_db = \<lparr>xd_runs = [], xd_tasks = [], xd_events = [], xd_sequence = 0, xd_links = [],
     xd_leases = [], xd_projections = []\<rparr>"

section \<open>The invariant\<close>

interpretation link_table: ledger_table ln_id link_check "link_guard db b" link_index
  "\<lambda>l. \<not> isTerminalChildRunStatus (ln_status l)" for db :: "'o child_db" and b
  by unfold_locales (simp_all add: link_guard_def link_identity_kept_def link_transition_kept_def)

definition receipt_ok :: "'o child_env \<Rightarrow> child_link \<Rightarrow> bool" where
  "receipt_ok env l \<longleftrightarrow>
     (\<exists>r. ln_receipt l = Some r \<and> valid_child_receipt r \<and> rc_linkId r = ln_id l \<and>
        rc_childRunId r = ln_childRunId l \<and> rc_status r = ln_status l \<and>
        rc_progress r = gb_progress (ln_observability l) \<and>
        ne_receiptHash env (r\<lparr>rc_contentHash := []\<rparr>) = rc_contentHash r)"

text \<open>A row, apart from its revision, which no constraint bounds.\<close>

definition row_ok :: "'o child_env \<Rightarrow> child_link \<Rightarrow> bool" where
  "row_ok env l \<longleftrightarrow>
     valid_child_link (l\<lparr>ln_revision := 0\<rparr>) \<and>
     (isTerminalChildRunStatus (ln_status l) \<longrightarrow> receipt_ok env l)"

text \<open>A link and the rows it names agree; the graph hash of a run may be aligned later.\<close>

definition link_bound :: "'o child_db \<Rightarrow> child_link \<Rightarrow> bool" where
  "link_bound db l \<longleftrightarrow>
     (\<exists>p c. run_row db (ln_parentRunId l) = Some p \<and> run_row db (ln_childRunId l) = Some c \<and>
        rr_workspaceId p = ln_workspaceId l \<and> rr_workspaceId c = ln_workspaceId l \<and>
        rr_definitionHash p = ln_graphDefinitionHash l \<and> rr_definitionHash c = ln_graphDefinitionHash l \<and>
        rr_rootPrdId c = ln_childDocumentId l \<and> rr_rootPrdFile c = ln_childRootPrdFile l \<and>
        rr_effectiveOptionsHash c = ln_inheritedOptionsHash l) \<and>
     task_row db (parent_key l) \<noteq> None"

definition child_db_ok :: "'o child_env \<Rightarrow> 'o child_db \<Rightarrow> bool" where
  "child_db_ok env db \<longleftrightarrow>
     run_db_ok db \<and> table_ok ln_id link_check link_index (xd_links db) \<and>
     (\<forall>l \<in> set (xd_links db). link_bound db l) \<and> grown (edges (xd_links db)) \<and> (\<forall>l \<in> set (xd_links db). row_ok env l) \<and>
     (\<forall>l \<in> set (xd_links db). ln_status l = Child_passed \<longrightarrow> link_may_pass db l)"

text \<open>
  Links are never removed, keep their identity, and do not change once terminal; a terminal run
  gets no more children.
\<close>

definition links_follow :: "'o child_db \<Rightarrow> 'o child_db \<Rightarrow> bool" where
  "links_follow db db' \<longleftrightarrow>
     (\<forall>i l. link_row db i = Some l \<longrightarrow>
        (\<exists>l'. link_row db' i = Some l' \<and> link_identity_kept l l' \<and>
           (isTerminalChildRunStatus (ln_status l) \<longrightarrow> l' = l))) \<and>
     (\<forall>i l' r. link_row db' i = Some l' \<and> run_row db (ln_parentRunId l') = Some r \<and>
        run_terminal (rr_status r) \<longrightarrow> link_row db i \<noteq> None)"

definition child_follows :: "'o child_db \<Rightarrow> 'o child_db \<Rightarrow> bool" where
  "child_follows db db' \<longleftrightarrow> follows db db' \<and> links_follow db db'"

lemma identity_refl [simp]: "link_identity_kept l l"
  by (simp add: link_identity_kept_def)

lemma identity_trans: "link_identity_kept a b \<Longrightarrow> link_identity_kept b c \<Longrightarrow> link_identity_kept a c"
  by (simp add: link_identity_kept_def)

lemma identity_runs:
  "link_identity_kept l l' \<Longrightarrow> ln_parentRunId l' = ln_parentRunId l \<and> ln_childRunId l' = ln_childRunId l"
  by (simp add: link_identity_kept_def parent_key_def)

lemma link_bound_runs:
  "link_bound db l \<Longrightarrow> run_row db (ln_parentRunId l) \<noteq> None \<and> run_row db (ln_childRunId l) \<noteq> None"
  by (auto simp: link_bound_def)

lemma link_bound_follows:
  assumes b: "link_bound db l" and f: "follows db db'" and k: "link_identity_kept l l'"
  shows "link_bound db' l'"
proof -
  obtain p c t where r: "run_row db (ln_parentRunId l) = Some p" "run_row db (ln_childRunId l) = Some c"
    and t: "task_row db (parent_key l) = Some t"
    using b by (auto simp: link_bound_def)
  obtain p' c' where r': "run_row db' (ln_parentRunId l) = Some p'" "same_run p p'"
      "run_row db' (ln_childRunId l) = Some c'" "same_run c c'"
    using follows_run [OF f r(1)] follows_run [OF f r(2)] by blast
  obtain t' where "task_row db' (parent_key l) = Some t'"
    using follows_task [OF f t] by blast
  then show ?thesis
    using b r r' k by (simp add: link_bound_def link_identity_kept_def same_run_def parent_key_def)
qed

lemma links_followI:
  assumes "\<And>i l. link_row db i = Some l \<Longrightarrow> \<exists>l'. link_row db' i = Some l' \<and> link_identity_kept l l' \<and>
      (isTerminalChildRunStatus (ln_status l) \<longrightarrow> l' = l)"
    and "\<And>i l' r. link_row db' i = Some l' \<Longrightarrow> run_row db (ln_parentRunId l') = Some r \<Longrightarrow>
      run_terminal (rr_status r) \<Longrightarrow> link_row db i \<noteq> None"
  shows "links_follow db db'"
  unfolding links_follow_def using assms by blast

lemma links_follow_row:
  "links_follow db db' \<Longrightarrow> link_row db i = Some l \<Longrightarrow>
   \<exists>l'. link_row db' i = Some l' \<and> link_identity_kept l l' \<and>
     (isTerminalChildRunStatus (ln_status l) \<longrightarrow> l' = l)"
  unfolding links_follow_def by blast

lemma links_follow_new:
  "links_follow db db' \<Longrightarrow> link_row db' i = Some l' \<Longrightarrow> run_row db (ln_parentRunId l') = Some r \<Longrightarrow>
   run_terminal (rr_status r) \<Longrightarrow> link_row db i \<noteq> None"
  unfolding links_follow_def by blast

lemma same_links_follow: "xd_links db' = xd_links db \<Longrightarrow> links_follow db db'"
  by (intro links_followI) (simp_all add: link_row_def)

lemma child_follows_refl [simp]: "child_follows db db"
  by (simp add: child_follows_def same_links_follow)

lemma child_follows_trans:
  assumes ab: "child_follows a b" and bc: "child_follows b c"
  shows "child_follows a c"
  unfolding child_follows_def
proof
  have ab': "follows a b" "links_follow a b" and bc': "follows b c" "links_follow b c"
    using ab bc by (simp_all add: child_follows_def)
  show "follows a c"
    by (rule follows_trans [OF ab'(1) bc'(1)])
  show "links_follow a c"
  proof (rule links_followI)
    fix i l
    assume l: "link_row a i = Some l"
    obtain k where k: "link_row b i = Some k" "link_identity_kept l k"
        "isTerminalChildRunStatus (ln_status l) \<longrightarrow> k = l"
      using links_follow_row [OF ab'(2) l] by blast
    obtain l' where "link_row c i = Some l'" "link_identity_kept k l'"
        "isTerminalChildRunStatus (ln_status k) \<longrightarrow> l' = k"
      using links_follow_row [OF bc'(2) k(1)] by blast
    then show "\<exists>l'. link_row c i = Some l' \<and> link_identity_kept l l' \<and>
        (isTerminalChildRunStatus (ln_status l) \<longrightarrow> l' = l)"
      using k identity_trans by blast
  next
    fix i l' r
    assume l': "link_row c i = Some l'" and r: "run_row a (ln_parentRunId l') = Some r"
      "run_terminal (rr_status r)"
    obtain r' where r': "run_row b (ln_parentRunId l') = Some r'" "same_run r r'"
      using follows_run [OF ab'(1) r(1)] by blast
    then have "run_terminal (rr_status r')"
      using r(2) by (simp add: same_run_def)
    then obtain k where k: "link_row b i = Some k"
      using links_follow_new [OF bc'(2) l' r'(1)] by blast
    then have "ln_parentRunId k = ln_parentRunId l'"
      using links_follow_row [OF bc'(2) k] l' by (auto simp: link_identity_kept_def parent_key_def)
    then show "link_row a i \<noteq> None"
      using links_follow_new [OF ab'(2) k] r by simp
  qed
qed

text \<open>What passed stays passable: its run, its tasks and its children are decided.\<close>

lemma link_row_in: "table_ok ln_id link_check link_index (xd_links db) \<Longrightarrow> l \<in> set (xd_links db) \<Longrightarrow>
    link_row db (ln_id l) = Some l"
  using find_row_in [of ln_id "xd_links db" l] by (simp add: link_row_def table_ok_def)

lemma link_row_SomeD: "link_row db i = Some l \<Longrightarrow> l \<in> set (xd_links db) \<and> ln_id l = i"
  using find_row_Some [of ln_id "xd_links db" i l] by (simp add: link_row_def)

lemma task_row_in: "run_db_ok db \<Longrightarrow> t \<in> set (xd_tasks db) \<Longrightarrow> task_row db (task_key t) = Some t"
  using find_row_in
proof -
  assume ok: "run_db_ok db" and t: "t \<in> set (xd_tasks db)"
  have "distinct (map task_key ts) \<Longrightarrow> t \<in> set ts \<Longrightarrow> find (\<lambda>s. task_key s = task_key t) ts = Some t" for ts
    by (induction ts) (auto simp: image_iff)
  then show ?thesis
    using ok t by (simp add: task_row_def run_db_ok_def)
qed

lemma tasks_stay_done:
  assumes f: "follows db db'" and ok': "run_db_ok db'"
    and r: "run_row db i = Some r" "run_terminal (rr_status r)" and don: "list_all task_done (tasks_of db i)"
  shows "list_all task_done (tasks_of db' i)"
  unfolding list_all_iff
proof
  fix t
  assume "t \<in> set (tasks_of db' i)"
  then have t: "t \<in> set (xd_tasks db')" "tr_runId t = i"
    by (simp_all add: tasks_of_def)
  have row: "task_row db' (task_key t) = Some t"
    by (rule task_row_in [OF ok' t(1)])
  moreover have k: "fst (task_key t) = i"
    using t(2) by (simp add: task_key_def)
  ultimately obtain t0 where t0: "task_row db (task_key t) = Some t0"
    using follows_closed [OF f _ r(2) row] r(1) by auto
  then have "t0 \<in> set (tasks_of db i)"
    using task_row_key [OF t0] k by (auto simp: tasks_of_def task_key_def)
  then have "task_done t0"
    using don by (simp add: list_all_iff)
  then show "task_done t"
    using follows_task [OF f t0] row by auto
qed

lemma children_stay_passed:
  assumes f: "links_follow db db'" and t: "table_ok ln_id link_check link_index (xd_links db)"
    and t': "table_ok ln_id link_check link_index (xd_links db')"
    and r: "run_row db i = Some r" "run_terminal (rr_status r)"
    and passed: "list_all (\<lambda>c. ln_status c = Child_passed) (children_of (xd_links db) i)"
  shows "length (children_of (xd_links db') i) = length (children_of (xd_links db) i)"
    and "list_all (\<lambda>c. ln_status c = Child_passed) (children_of (xd_links db') i)"
proof -
  have eq: "set (children_of (xd_links db') i) = set (children_of (xd_links db) i)"
  proof (intro set_eqI iffI)
    fix c
    assume "c \<in> set (children_of (xd_links db') i)"
    then have c: "c \<in> set (xd_links db')" "ln_parentRunId c = i"
      by (simp_all add: children_of_def)
    have row: "link_row db' (ln_id c) = Some c"
      by (rule link_row_in [OF t' c(1)])
    then obtain c0 where c0: "link_row db (ln_id c) = Some c0"
      using links_follow_new [OF f row _ r(2)] r(1) c(2) by auto
    then have same: "link_identity_kept c0 c" "isTerminalChildRunStatus (ln_status c0) \<longrightarrow> c = c0"
      using links_follow_row [OF f c0] row by auto
    then have "c0 \<in> set (children_of (xd_links db) i)"
      using link_row_SomeD [OF c0] c(2) identity_runs by (auto simp: children_of_def)
    moreover have "ln_status c0 = Child_passed"
      using calculation passed by (simp add: list_all_iff)
    ultimately show "c \<in> set (children_of (xd_links db) i)"
      using same(2) by simp
  next
    fix c
    assume c: "c \<in> set (children_of (xd_links db) i)"
    then have "ln_status c = Child_passed" "link_row db (ln_id c) = Some c" "ln_parentRunId c = i"
      using passed link_row_in [OF t] by (auto simp: list_all_iff children_of_def)
    then have "link_row db' (ln_id c) = Some c"
      using links_follow_row [OF f] by fastforce
    then show "c \<in> set (children_of (xd_links db') i)"
      using link_row_SomeD \<open>ln_parentRunId c = i\<close> by (fastforce simp: children_of_def)
  qed
  have d: "distinct (children_of (xd_links db) i)" "distinct (children_of (xd_links db') i)"
    using t t' by (auto simp: table_ok_def link_index_def intro!: distinct_children)
  show "length (children_of (xd_links db') i) = length (children_of (xd_links db) i)"
    using distinct_card [OF d(1)] distinct_card [OF d(2)] eq by simp
  show "list_all (\<lambda>c. ln_status c = Child_passed) (children_of (xd_links db') i)"
    using passed eq by (simp add: list_all_iff)
qed

lemma may_pass_follows:
  assumes m: "link_may_pass db l" and f: "child_follows db db'" and ok': "run_db_ok db'"
    and t: "table_ok ln_id link_check link_index (xd_links db)"
    and t': "table_ok ln_id link_check link_index (xd_links db')"
  shows "link_may_pass db' l"
proof -
  obtain r where r: "run_row db (ln_childRunId l) = Some r" "rr_status r = Run_completed"
    using m by (auto simp: link_may_pass_def split: option.splits)
  then have rt: "run_terminal (rr_status r)"
    by (simp add: run_terminal_def)
  have ff: "follows db db'" "links_follow db db'"
    using f by (simp_all add: child_follows_def)
  obtain r' where r': "run_row db' (ln_childRunId l) = Some r'" "rr_status r' = Run_completed"
    using follows_run [OF ff(1) r(1)] rt r(2) by (auto simp: same_run_def)
  have "list_all task_done (tasks_of db' (ln_childRunId l))"
    using tasks_stay_done [OF ff(1) ok' r(1) rt] m by (simp add: link_may_pass_def)
  moreover note children_stay_passed [OF ff(2) t t' r(1) rt]
  ultimately show ?thesis
    using m r' by (simp add: link_may_pass_def)
qed

section \<open>Each operation\<close>

text \<open>Events, projections and leases are not part of what is kept.\<close>

definition same_ledger :: "'o child_db \<Rightarrow> 'o child_db \<Rightarrow> bool" where
  "same_ledger db db' \<longleftrightarrow>
     xd_runs db' = xd_runs db \<and> xd_tasks db' = xd_tasks db \<and> xd_links db' = xd_links db"

lemma same_ledger_refl [simp]: "same_ledger db db"
  by (simp add: same_ledger_def)

lemma same_ledger_trans: "same_ledger a b \<Longrightarrow> same_ledger b c \<Longrightarrow> same_ledger a c"
  by (simp add: same_ledger_def)

lemma same_ledger_ok: "same_ledger db db' \<Longrightarrow> child_db_ok env db' = child_db_ok env db"
  by (simp add: same_ledger_def child_db_ok_def run_db_ok_def run_row_def task_row_def link_may_pass_def
      link_bound_def tasks_of_def)

lemma same_ledger_follows: "same_ledger db db' \<Longrightarrow> child_follows db db'"
  by (intro child_follows_def [THEN iffD2] conjI followsI same_links_follow)
     (auto simp: same_ledger_def run_row_def task_row_def)

definition keeps :: "'o child_env \<Rightarrow> 'o child_db \<Rightarrow> 'o child_db \<Rightarrow> bool" where
  "keeps env db db' \<longleftrightarrow> child_db_ok env db' \<and> child_follows db db'"

lemma keepsD: "keeps env db db' \<Longrightarrow> child_db_ok env db'" "keeps env db db' \<Longrightarrow> child_follows db db'"
  by (simp_all add: keeps_def)

lemma keeps_trans: "keeps env a b \<Longrightarrow> keeps env b c \<Longrightarrow> keeps env a c"
  unfolding keeps_def using child_follows_trans by blast

lemma keeps_same: "child_db_ok env db \<Longrightarrow> same_ledger db db' \<Longrightarrow> keeps env db db'"
  by (simp add: keeps_def same_ledger_ok same_ledger_follows)

lemma keeps_then_same: "keeps env a b \<Longrightarrow> same_ledger b c \<Longrightarrow> keeps env a c"
  by (rule keeps_trans [OF _ keeps_same]) (simp_all add: keeps_def)

lemma child_event_same: "appendChildEvent db l target type level eid = Inr db' \<Longrightarrow> same_ledger db db'"
  using appendEvent_Inr [of db _ db'] by (force simp: appendChildEvent_def same_ledger_def)

lemma tree_event_same: "appendTreeProgressEvent db l eid = Inr db' \<Longrightarrow> same_ledger db db'"
  using appendEvent_Inr [of db _ db']
  by (force simp: appendTreeProgressEvent_def same_ledger_def result_simps)

lemma projection_same: "insert_projection db p = Inr db' \<Longrightarrow> same_ledger db db'"
  by (auto simp: insert_projection_def same_ledger_def split: if_splits)

lemma requireLink_Inr:
  "requireLink db i = Inr l \<longleftrightarrow> link_row db i = Some l \<and> valid_child_link l"
  by (auto simp: requireLink_def findLinkById_def link_read_def linkFromRow_def valid_child_link_def
      result_simps split: option.splits if_splits)

lemma link_table_ok: "child_db_ok env db \<Longrightarrow> table_ok ln_id link_check link_index (xd_links db)"
  by (simp add: child_db_ok_def)

text \<open>An update of the link just read writes its row and no other.\<close>

lemma update_link_row:
  assumes t: "table_ok ln_id link_check link_index (xd_links db)" and l: "link_row db i = Some l"
    and u: "update_link db b l f = Inr (db1, n)"
  shows "n = 1" "link_guard db b l (f l)" "link_row db1 i = Some (f l)"
    "j \<noteq> i \<Longrightarrow> link_row db1 j = link_row db j"
    "table_ok ln_id link_check link_index (xd_links db1)" "edges (xd_links db1) = edges (xd_links db)"
    "db1 = db\<lparr>xd_links := xd_links db1\<rparr>" "\<And>k. k \<in> set (xd_links db1) \<Longrightarrow> k \<in> set (xd_links db) \<or> k = f l"
proof -
  let ?p = "\<lambda>k. ln_id k = ln_id l \<and> ln_revision k = ln_revision l"
  obtain ls where up: "update_rows link_check (link_guard db b) link_index ?p f (xd_links db) = Inr (ls, n)"
    and db1: "db1 = db\<lparr>xd_links := ls\<rparr>"
    using u by (auto simp: update_link_def result_simps)
  have i: "i = ln_id l" and l_in: "l \<in> set (xd_links db)"
    using link_row_SomeD [OF l] by auto
  have row: "find_row ln_id (xd_links db) (ln_id l) = Some l"
    using l i by (simp add: link_row_def)
  have cas: "n = 1 \<and> find_row ln_id ls (ln_id l) = Some (f l) \<and>
      (\<forall>j. j \<noteq> ln_id l \<longrightarrow> find_row ln_id ls j = find_row ln_id (xd_links db) j)"
    by (rule link_table.cas_count [OF t row _ up]) simp
  then show "n = 1" "link_row db1 i = Some (f l)" "j \<noteq> i \<Longrightarrow> link_row db1 j = link_row db j"
    by (simp_all add: db1 link_row_def i)
  show "link_guard db b l (f l)"
    using up l_in by (simp add: update_rows_Inr)
  show "table_ok ln_id link_check link_index (xd_links db1)"
    using link_table.update_ok [OF t up] by (simp add: db1)
  show "db1 = db\<lparr>xd_links := xd_links db1\<rparr>"
    by (simp add: db1)
  have ls: "ls = map (\<lambda>k. if ?p k then f k else k) (xd_links db)"
    and g: "\<And>k. k \<in> set (xd_links db) \<Longrightarrow> ?p k \<Longrightarrow> link_guard db b k (f k)"
    using up by (simp_all add: update_rows_Inr)
  show "edges (xd_links db1) = edges (xd_links db)"
    using g identity_runs by (force simp: db1 ls edges_def link_guard_def)
  show "k \<in> set (xd_links db) \<or> k = f l" if "k \<in> set (xd_links db1)" for k
  proof -
    obtain k0 where k0: "k0 \<in> set (xd_links db)" "k = (if ?p k0 then f k0 else k0)"
      using \<open>k \<in> set (xd_links db1)\<close> by (auto simp: db1 ls)
    have one: "k0 = l" if same: "ln_id k0 = ln_id l"
      using link_row_in [OF t k0(1)] l unfolding same i by simp
    show ?thesis
    proof (cases "?p k0")
      case True
      then show ?thesis
        using k0(2) one by simp
    next
      case False
      then show ?thesis
        using k0 unfolding if_not_P [OF False] by blast
    qed
  qed
qed

lemma update_link_keeps:
  assumes ok: "child_db_ok env db" and l: "link_row db i = Some l"
    and u: "update_link db b l f = Inr (db1, n)" and row: "row_ok env (f l)"
  shows "keeps env db db1"
proof -
  note t = link_table_ok [OF ok]
  note up = update_link_row [OF t l u]
  have runs: "run_row db1 = run_row db" "task_row db1 = task_row db" "xd_tasks db1 = xd_tasks db"
      "xd_runs db1 = xd_runs db"
    by (subst up(7), simp add: run_row_def task_row_def fun_eq_iff)+
  have run_ok: "run_db_ok db1"
    using ok by (simp add: child_db_ok_def run_db_ok_def runs)
  have guard: "link_identity_kept l (f l)" "\<not> isTerminalChildRunStatus (ln_status l)"
      "ln_status (f l) = Child_passed \<Longrightarrow> link_may_pass db (f l)"
    using up(2) by (simp_all add: link_guard_def link_transition_kept_def)
  have l_in: "l \<in> set (xd_links db)"
    using link_row_SomeD [OF l] by simp
  have fol: "child_follows db db1"
    unfolding child_follows_def
  proof
    show "follows db db1"
      by (intro followsI) (auto simp: runs)
    show "links_follow db db1"
    proof (rule links_followI)
      fix j k
      assume k: "link_row db j = Some k"
      show "\<exists>k'. link_row db1 j = Some k' \<and> link_identity_kept k k' \<and>
          (isTerminalChildRunStatus (ln_status k) \<longrightarrow> k' = k)"
      proof (cases "j = i")
        case True
        then show ?thesis
          using up(3) guard k l by simp
      next
        case False
        then show ?thesis
          using up(4) [OF False] k by simp
      qed
    next
      fix j k'
      assume k': "link_row db1 j = Some k'"
      show "link_row db j \<noteq> None"
      proof (cases "j = i")
        case True
        then show ?thesis
          using l by simp
      next
        case False
        then show ?thesis
          using k' unfolding up(4) [OF False] by simp
      qed
    qed
  qed
  have fol': "follows db db1"
    using fol by (simp add: child_follows_def)
  have "child_db_ok env db1"
    unfolding child_db_ok_def
  proof (intro conjI ballI impI)
    show "run_db_ok db1" "table_ok ln_id link_check link_index (xd_links db1)"
      by (rule run_ok, rule up(5))
    show "grown (edges (xd_links db1))"
      using ok by (simp add: up(6) child_db_ok_def)
  next
    fix k
    assume k: "k \<in> set (xd_links db1)"
    show "link_bound db1 k"
      using up(8) [OF k]
    proof
      assume "k \<in> set (xd_links db)"
      then show ?thesis
        using ok link_bound_follows [OF _ fol' identity_refl] by (simp add: child_db_ok_def)
    next
      assume "k = f l"
      then show ?thesis
        using ok l_in link_bound_follows [OF _ fol' guard(1)] by (simp add: child_db_ok_def)
    qed
    show "row_ok env k"
      using up(8) [OF k] ok row by (auto simp: child_db_ok_def)
    assume "ln_status k = Child_passed"
    then have "link_may_pass db k"
      using up(8) [OF k] ok guard(3) by (auto simp: child_db_ok_def)
    then show "link_may_pass db1 k"
      by (rule may_pass_follows [OF _ fol run_ok t up(5)])
  qed
  then show ?thesis
    using fol by (simp add: keeps_def)
qed

lemma valid_revision: "valid_child_link l \<Longrightarrow> valid_child_link (l\<lparr>ln_revision := 0\<rparr>)"
  by (simp add: valid_child_link_def counter_def safe_int_def)

text \<open>Observation, settlement and projection.\<close>

lemma observe_keeps:
  assumes ok: "child_db_ok env db" and u: "updateChildRunObservation db ui ids = Inr (db', x)"
  shows "keeps env db db'"
proof -
  obtain l where l: "link_row db (ui_linkId ui) = Some l"
    using u by (auto simp: updateChildRunObservation_def result_simps requireLink_Inr)
  obtain s lease obs db1 n db2 where s: "\<not> isTerminalChildRunStatus s"
    and up: "update_link db True l (observed_link s lease obs ui l) = Inr (db1, n)"
    and upd: "requireLink db1 (ln_id l) = Inr x"
    and ev: "appendChildEvent db1 x To_parent ''child.run.observed'' Level_info (ids 0) = Inr db2"
    and last: "db' = db2 \<or> appendTreeProgressEvent db2 x (ids 1) = Inr db'"
    using u l
    by (auto simp: updateChildRunObservation_def result_simps requireLink_Inr Let_def split: if_splits)
  have x: "x = observed_link s lease obs ui l l" "valid_child_link x"
    using update_link_row(3) [OF link_table_ok [OF ok] l up] upd link_row_SomeD [OF l]
    by (simp_all add: requireLink_Inr)
  have "row_ok env (observed_link s lease obs ui l l)"
    using valid_revision [OF x(2)] s unfolding x(1) by (simp add: row_ok_def observed_link_def)
  with ok l up have "keeps env db db1"
    by (rule update_link_keeps)
  moreover have "same_ledger db1 db'"
    using child_event_same [OF ev] last tree_event_same same_ledger_trans by blast
  ultimately show ?thesis
    by (rule keeps_then_same)
qed

lemma settle_cases:
  assumes s: "settleChildRun env db si ids = Inr (db', x)" and t: "table_ok ln_id link_check link_index (xd_links db)"
  obtains l status obs receipt db1 n where
    "link_row db (si_linkId si) = Some l" "ln_revision l = si_expectedRevision si"
    "settlement db l si = Inr (status, obs)" "terminalReceipt env l obs status si = Inr receipt"
    "update_link db False l (settled_link status obs receipt si) = Inr (db1, n)"
    "link_row db1 (si_linkId si) = Some x" "valid_child_link x"
    "x = settled_link status obs receipt si l" "same_ledger db1 db'"
proof -
  obtain l where l: "link_row db (si_linkId si) = Some l"
    using s by (auto simp: settleChildRun_def result_simps requireLink_Inr)
  obtain status obs receipt db1 n level type db2 db3 where up:
      "settlement db l si = Inr (status, obs)" "terminalReceipt env l obs status si = Inr receipt"
      "update_link db False l (settled_link status obs receipt si) = Inr (db1, n)"
    and rev: "ln_revision l = si_expectedRevision si"
    and upd: "requireLink db1 (ln_id l) = Inr x"
    and ev: "appendChildEvent db1 x To_parent type level (ids 0) = Inr db2"
      "appendChildEvent db2 x To_child ''child.run.settled'' level (ids 1) = Inr db3"
      "appendTreeProgressEvent db3 x (ids 2) = Inr db'"
    using s l by (auto simp: settleChildRun_def result_simps requireLink_Inr Let_def split: if_splits)
  have i: "ln_id l = si_linkId si"
    using link_row_SomeD [OF l] by simp
  have x: "link_row db1 (si_linkId si) = Some x" "valid_child_link x"
    using upd by (simp_all add: requireLink_Inr i)
  have "x = settled_link status obs receipt si l"
    using update_link_row(3) [OF t l up(3)] x(1) by simp
  moreover have "same_ledger db1 db'"
    using child_event_same [OF ev(1)] child_event_same [OF ev(2)] tree_event_same [OF ev(3)]
    by (simp add: same_ledger_def)
  ultimately show thesis
    using l rev up x by (intro that)
qed

lemma terminalReceipt_Inr:
  assumes "terminalReceipt env l obs status si = Inr r"
  shows "valid_child_receipt r" "rc_linkId r = ln_id l" "rc_childRunId r = ln_childRunId l"
    "rc_status r = status" "rc_progress r = gb_progress obs"
    "ne_receiptHash env (r\<lparr>rc_contentHash := []\<rparr>) = rc_contentHash r"
  using assms by (auto simp: terminalReceipt_def Let_def split: if_splits)

lemma settle_keeps:
  assumes ok: "child_db_ok env db" and s: "settleChildRun env db si ids = Inr (db', x)"
  shows "keeps env db db'"
proof -
  obtain l status obs receipt db1 n where l: "link_row db (si_linkId si) = Some l"
    and receipt: "terminalReceipt env l obs status si = Inr receipt"
    and up: "update_link db False l (settled_link status obs receipt si) = Inr (db1, n)"
    and x: "valid_child_link x" "x = settled_link status obs receipt si l" and same: "same_ledger db1 db'"
    using settle_cases [OF s link_table_ok [OF ok]] by metis
  have "row_ok env (settled_link status obs receipt si l)"
    using valid_revision [OF x(1)] terminalReceipt_Inr [OF receipt]
    unfolding x(2) by (simp add: row_ok_def receipt_ok_def settled_link_def)
  with ok l up have "keeps env db db1"
    by (rule update_link_keeps)
  then show ?thesis
    by (rule keeps_then_same [OF _ same])
qed

lemma project_new_keeps:
  assumes ok: "child_db_ok env db" and l: "link_row db i = Some l"
    and p: "project_new db l pi ids = Inr (db', x)"
  shows "keeps env db db'"
proof -
  let ?obs = "projected_observability (pi_sourceEvent pi) (ln_observability l)"
  let ?f = "projected_link ?obs (pi_projectedAt pi)"
  obtain db1 db2 pr db3 n where ev: "appendChildEvent db l To_parent ''child.event.projected''
        (xe_level (pi_sourceEvent pi)) (pi_projectedEventId pi) = Inr db1"
    and ins: "insert_projection db1 pr = Inr db2"
    and valid: "valid_child_observability ?obs"
    and up: "update_link db2 False l ?f = Inr (db3, n)"
    and last: "db' = db3 \<or> (\<exists>k. appendTreeProgressEvent db3 k (ids 0) = Inr db')"
    using p by (auto simp: project_new_def Let_def result_simps split: if_splits) blast
  have same: "same_ledger db db2"
    using child_event_same [OF ev] projection_same [OF ins] by (rule same_ledger_trans)
  have ok2: "child_db_ok env db2"
    using ok same same_ledger_ok by blast
  have l2: "link_row db2 i = Some l"
    using l same by (simp add: link_row_def same_ledger_def)
  have live: "\<not> isTerminalChildRunStatus (ln_status l)"
    using update_link_row(2) [OF link_table_ok [OF ok2] l2 up] by (simp add: link_guard_def link_transition_kept_def)
  have "row_ok env l"
    using ok link_row_SomeD [OF l] by (simp add: child_db_ok_def)
  then have "row_ok env (?f l)"
    using live valid by (auto simp: row_ok_def projected_link_def valid_child_link_def)
  with ok2 l2 up have "keeps env db2 db3"
    by (rule update_link_keeps)
  moreover have "same_ledger db3 db'"
    using last tree_event_same by auto
  ultimately have "keeps env db2 db'"
    by (rule keeps_then_same)
  then show ?thesis
    by (rule keeps_trans [OF keeps_same [OF ok same]])
qed

lemma project_keeps:
  assumes ok: "child_db_ok env db" and p: "projectChildEventToParent env db pi ids = Inr (db', x)"
  shows "keeps env db db'"
proof -
  have "db' = db \<or> (\<exists>l. link_row db (pi_linkId pi) = Some l \<and> project_new db l pi ids = Inr (db', x))"
    using p by (auto simp: projectChildEventToParent_def Let_def result_simps requireLink_Inr
        split: if_splits option.splits)
  then show ?thesis
    using project_new_keeps [OF ok] keeps_same [OF ok same_ledger_refl] by blast
qed

text \<open>Reservation.\<close>

lemma child_db_tasks_links: "xd_links (db\<lparr>xd_tasks := ts\<rparr>) = xd_links db" for db :: "'o child_db"
  by simp

lemma insert_child_tasks_keeps:
  "insert_child_tasks input ts db = Inr db' \<Longrightarrow> run_db_ok db \<Longrightarrow>
   run_row db (ri_childRunId input) = Some r \<Longrightarrow> \<not> run_terminal (rr_status r) \<Longrightarrow>
   run_db_ok db' \<and> follows db db' \<and> xd_links db' = xd_links db \<and> run_row db' = run_row db"
proof (induction ts arbitrary: db)
  case (Cons t ts)
  let ?t = "child_task_record input t"
  let ?db = "db\<lparr>xd_tasks := xd_tasks db @ [?t]\<rparr>"
  have new: "task_row db (task_key ?t) = None" and rest: "insert_child_tasks input ts ?db = Inr db'"
    using Cons.prems(1) by (simp_all split: if_splits)
  have run: "run_row db (tr_runId ?t) = Some r"
    using Cons.prems(3) by (simp add: child_task_record_def)
  have add: "run_db_ok ?db \<and> follows db ?db"
    by (rule add_task_keeps [OF Cons.prems(2) new run Cons.prems(4)])
  have same: "run_row ?db = run_row db"
    by (rule ext) simp
  then have "run_row ?db (ri_childRunId input) = Some r"
    using Cons.prems(3) by simp
  from Cons.IH [OF rest conjunct1 [OF add] this Cons.prems(4)]
  show ?case
    unfolding same using conjunct2 [OF add] follows_trans [of db ?db db']
    by (metis child_db_tasks_links)
qed simp

lemma insert_link_Inr:
  "insert_link db l = Inr db' \<Longrightarrow>
   link_insertable db l \<and> db' = db\<lparr>xd_links := xd_links db @ [l]\<rparr> \<and>
   insert_row ln_id link_check link_index (xd_links db) l = Inr (xd_links db')"
  by (auto simp: insert_link_def result_simps insert_row_Inr split: if_splits)

lemma child_db_links_more: "run_db.more db' = run_db.more db \<Longrightarrow> xd_links db' = xd_links db"
  for db db' :: "'o child_db"
  by (cases db; cases db') simp

lemma reserve_rows_keeps:
  assumes ok: "child_db_ok env db" and parent: "run_row db (ri_parentRunId input) = Some p"
    "\<not> run_terminal (rr_status p)" and res: "reserve_rows env db input = Inr (db', l)"
  shows "keeps env db db'" "l = reserved_link input" "valid_child_link l" "link_row db' (ri_linkId input) = Some l"
proof -
  let ?l = "reserved_link input" and ?r = "child_run_record env input"
  obtain db1 db2 where run: "insert_run db ?r = Inr db1"
    and tasks: "insert_child_tasks input (ri_tasks input) db1 = Inr db2"
    and link: "insert_link db2 ?l = Inr db'" and read: "requireLink db' (ri_linkId input) = Inr l"
    using res by (auto simp: reserve_rows_def result_simps)
  have rok: "run_db_ok db"
    using ok by (simp add: child_db_ok_def)
  note r = insert_run_keeps [OF rok run]
  have rid: "rr_id ?r = ri_childRunId input" "\<not> run_terminal (rr_status ?r)"
    by (simp_all add: child_run_record_def run_terminal_def)
  have row1: "run_row db1 (ri_childRunId input) = Some ?r"
    using r rid by simp
  have t: "run_db_ok db2 \<and> follows db1 db2 \<and> xd_links db2 = xd_links db1 \<and> run_row db2 = run_row db1"
    using insert_child_tasks_keeps [OF tasks _ row1 rid(2)] r by blast
  have links: "xd_links db2 = xd_links db"
    using t child_db_links_more r by auto
  have db': "db' = db2\<lparr>xd_links := xd_links db @ [?l]\<rparr>"
    and ins: "insert_row ln_id link_check link_index (xd_links db) ?l = Inr (xd_links db')"
    using insert_link_Inr [OF link] by (simp_all add: links)
  have find: "link_row db' i = (if i = ri_linkId input then Some ?l else link_row db i)" for i
    using link_table.find_insert [OF ins, of i] by (simp add: link_row_def reserved_link_def)
  show l: "l = ?l" "valid_child_link l" "link_row db' (ri_linkId input) = Some l"
    using read by (auto simp: requireLink_Inr find)
  have rows: "run_row db' i = (if i = ri_childRunId input then Some ?r else run_row db i)" for i
  proof -
    have "run_row db' i = run_row db2 i"
      by (simp add: db' run_row_def)
    then show ?thesis
      using r t rid(1) by simp
  qed
  have fol: "follows db db'"
  proof -
    have "follows db db2"
      using r t follows_trans by blast
    moreover have "follows db2 db'"
      by (intro followsI) (auto simp: db' run_row_def task_row_def)
    ultimately show ?thesis
      by (rule follows_trans)
  qed
  have new_link: "link_row db (ri_linkId input) = None"
    using ins by (simp add: insert_row_Inr link_row_def reserved_link_def)
  have cfol: "child_follows db db'"
    unfolding child_follows_def
  proof
    show "links_follow db db'"
    proof (rule links_followI)
      fix i k
      assume "link_row db i = Some k"
      then show "\<exists>k'. link_row db' i = Some k' \<and> link_identity_kept k k' \<and>
          (isTerminalChildRunStatus (ln_status k) \<longrightarrow> k' = k)"
        using find new_link by auto
    next
      fix i k' q
      assume "link_row db' i = Some k'" "run_row db (ln_parentRunId k') = Some q" "run_terminal (rr_status q)"
      then show "link_row db i \<noteq> None"
        using find [of i] parent by (auto simp: reserved_link_def split: if_splits)
    qed
  qed (rule fol)
  have rok': "run_db_ok db'"
    using t by (simp add: db' run_db_ok_def)
  note tok = link_table_ok [OF ok]
  have tok': "table_ok ln_id link_check link_index (xd_links db')"
    by (rule link_table.insert_ok [OF tok ins])
  have fresh: "ri_childRunId input \<noteq> ln_parentRunId k" if "k \<in> set (xd_links db)" for k
    using ok that r rid link_bound_runs [of db k] by (auto simp: child_db_ok_def)
  have "child_db_ok env db'"
    unfolding child_db_ok_def
  proof (intro conjI ballI impI)
    show "run_db_ok db'" "table_ok ln_id link_check link_index (xd_links db')"
      by (rule rok', rule tok')
    have "ri_parentRunId input \<noteq> ri_childRunId input"
      using parent r rid by auto
    moreover have not_parent: "ri_childRunId input \<notin> ln_parentRunId ` set (xd_links db)"
      using fresh by blast
    ultimately show "grown (edges (xd_links db'))"
      using ok not_parent by (simp add: db' edges_def grown_snoc child_db_ok_def reserved_link_def image_image)
  next
    fix k
    assume k: "k \<in> set (xd_links db')"
    then have cases: "k \<in> set (xd_links db) \<or> k = ?l"
      by (auto simp: db')
    show "link_bound db' k"
      using cases
    proof
      assume "k \<in> set (xd_links db)"
      then show ?thesis
        using ok link_bound_follows [OF _ fol identity_refl] by (simp add: child_db_ok_def)
    next
      assume "k = ?l"
      moreover have "link_bound db' ?l"
      proof -
        have b: "link_bound db2 ?l"
          using insert_link_Inr [OF link] by (auto simp: link_insertable_def link_bound_def split: option.splits)
        have "follows db2 db'"
          by (intro followsI) (auto simp: db' run_row_def task_row_def)
        then show ?thesis
          using link_bound_follows [OF b _ identity_refl] by blast
      qed
      ultimately show ?thesis
        by simp
    qed
    show "row_ok env k"
      using cases ok valid_revision [OF l(2)] unfolding l(1)
      by (auto simp: child_db_ok_def row_ok_def reserved_link_def)
    assume passed: "ln_status k = Child_passed"
    then have "k \<in> set (xd_links db)"
      using cases by (auto simp: reserved_link_def)
    then have "link_may_pass db k"
      using ok passed by (simp add: child_db_ok_def)
    then show "link_may_pass db' k"
      by (rule may_pass_follows [OF _ cfol rok' tok tok'])
  qed
  then show "keeps env db db'"
    using cfol by (simp add: keeps_def)
qed

lemma reservable_parent:
  "reservable db input = Inr u \<Longrightarrow> \<exists>p. run_row db (ri_parentRunId input) = Some p \<and> \<not> run_terminal (rr_status p)"
  by (auto simp: reservable_def split: option.splits if_splits)

lemma reserve_cases:
  assumes "reserveChildRun env db input ids = Inr (db', l, made)"
  shows "if made then \<exists>db1. reservable db input = Inr () \<and> reserve_rows env db input = Inr (db1, l) \<and> same_ledger db1 db'
    else db' = db \<and> assertReservationIdentity l input = Inr () \<and>
      find (\<lambda>l. parent_key l = (ri_parentRunId input, ri_parentDocumentId input, ri_parentTaskId input)) (xd_links db) = Some l"
proof -
  let ?found = "\<lambda>l. parent_key l = (ri_parentRunId input, ri_parentDocumentId input, ri_parentTaskId input)"
  obtain existing where read: "findLinkForParentInDatabase db (ri_parentRunId input)
      (ri_parentDocumentId input) (ri_parentTaskId input) = Inr existing"
    using assms by (auto simp: reserveChildRun_def result_simps)
  show ?thesis
  proof (cases existing)
    case None
    then obtain db1 db2 db3 where made: made and res: "reservable db input = Inr ()"
        "reserve_rows env db input = Inr (db1, l)"
      and ev: "appendChildEvent db1 l To_parent ''child.run.reserved'' Level_info (ids 0) = Inr db2"
        "appendChildEvent db2 l To_child ''run.created'' Level_info (ids 1) = Inr db3"
        "appendTreeProgressEvent db3 l (ids 2) = Inr db'"
      using assms read by (auto simp: reserveChildRun_def result_simps)
    have "same_ledger db1 db'"
      using child_event_same [OF ev(1)] child_event_same [OF ev(2)] tree_event_same [OF ev(3)]
      by (simp add: same_ledger_def)
    then show ?thesis
      using made res by auto
  next
    case (Some k)
    have "find ?found (xd_links db) = Some k"
      using read unfolding Some by (auto simp: findLinkForParentInDatabase_def link_read_def
          linkFromRow_def result_simps split: option.splits if_splits)
    moreover have "\<not> made \<and> db' = db \<and> l = k \<and> assertReservationIdentity l input = Inr ()"
      using assms read Some by (auto simp: reserveChildRun_def result_simps split: if_splits)
    ultimately show ?thesis
      by auto
  qed
qed

lemma reserve_keeps:
  assumes ok: "child_db_ok env db" and r: "reserveChildRun env db input ids = Inr (db', l, made)"
  shows "keeps env db db'"
proof (cases made)
  case True
  then obtain db1 where res: "reservable db input = Inr ()" "reserve_rows env db input = Inr (db1, l)"
    and same: "same_ledger db1 db'"
    using reserve_cases [OF r] by auto
  obtain p where "run_row db (ri_parentRunId input) = Some p" "\<not> run_terminal (rr_status p)"
    using reservable_parent [OF res(1)] by blast
  then have "keeps env db db1"
    using reserve_rows_keeps(1) [OF ok _ _ res(2)] by blast
  then show ?thesis
    by (rule keeps_then_same [OF _ same])
next
  case False
  then show ?thesis
    using reserve_cases [OF r] keeps_same [OF ok same_ledger_refl] by simp
qed

section \<open>Reachable ledgers\<close>

lemma step_keeps: "child_step env db db' \<Longrightarrow> child_db_ok env db \<Longrightarrow> keeps env db db'"
proof (induction rule: child_step.induct)
  case (step_store db db')
  have rok: "run_db_ok db"
    using step_store(2) by (simp add: child_db_ok_def)
  have k: "kept db db'"
    by (rule store_step_kept [OF step_store(1) rok])
  then have rok': "run_db_ok db'" and fol: "follows db db'" and links: "xd_links db' = xd_links db"
    using child_db_links_more by (auto simp: kept_def)
  have cfol: "child_follows db db'"
    using fol same_links_follow [OF links] by (simp add: child_follows_def)
  note t = link_table_ok [OF step_store(2)]
  have "child_db_ok env db'"
    unfolding child_db_ok_def links
  proof (intro conjI ballI impI)
    fix l
    assume l: "l \<in> set (xd_links db)"
    then have "link_bound db l"
      using step_store(2) by (simp add: child_db_ok_def)
    then show "link_bound db' l"
      by (rule link_bound_follows [OF _ fol identity_refl])
    assume "ln_status l = Child_passed"
    then have "link_may_pass db l"
      using step_store(2) l by (simp add: child_db_ok_def)
    then show "link_may_pass db' l"
      by (rule may_pass_follows [OF _ cfol rok' t]) (simp add: links t)
  qed (use step_store(2) rok' in \<open>simp_all add: child_db_ok_def\<close>)
  then show ?case
    using cfol by (simp add: keeps_def)
next
  case (step_leases db ls)
  then show ?case
    by (intro keeps_same) (simp_all add: same_ledger_def)
qed (blast intro: reserve_keeps observe_keeps settle_keeps project_keeps)+

lemma steps_keep: "child_steps env db db' \<Longrightarrow> child_db_ok env db \<Longrightarrow> keeps env db db'"
proof (induction rule: rtranclp_induct)
  case base
  then show ?case
    by (simp add: keeps_def)
next
  case (step a b)
  then show ?case
    using step_keeps keepsD(1) keeps_trans by metis
qed

lemma empty_child_db_ok: "child_db_ok env empty_child_db"
  by (simp add: child_db_ok_def empty_child_db_def run_db_ok_def table_ok_def link_index_def edges_def grown_def)

lemma reachable_ok: "child_steps env empty_child_db db \<Longrightarrow> child_db_ok env db"
  using steps_keep [OF _ empty_child_db_ok] keepsD(1) by blast

end
