(* ===== verification/ChildRuns.thy ===== *)
theory ChildRuns
  imports ChildSteps
begin

text \<open>
  The properties of child runs in every ledger that the steps of \<open>ChildSteps\<close> reach from the
  empty one. They ask that revisions stay below 2 to the 53: the schema refuses a greater one and
  no constraint of the table does.
\<close>

section \<open>Facts on a consistent ledger\<close>

lemma link_columns:
  assumes "child_db_ok env db"
  shows "grown (edges (xd_links db))" "distinct (map ln_childRunId (xd_links db))"
    "distinct (map parent_key (xd_links db))"
  using assms by (simp_all add: child_db_ok_def table_ok_def link_index_def)

lemma row_valid: "row_ok env l \<Longrightarrow> counter (ln_revision l) \<Longrightarrow> valid_child_link l"
  by (simp add: row_ok_def valid_child_link_def)

lemma rows_valid:
  "child_db_ok env db \<Longrightarrow> list_all (\<lambda>l. counter (ln_revision l)) (xd_links db) \<Longrightarrow>
   list_all valid_child_link (xd_links db)"
  unfolding list_all_iff child_db_ok_def using row_valid by blast

lemma tree_listed:
  assumes ok: "child_db_ok env db" and small: "list_all (\<lambda>l. counter (ln_revision l)) (xd_links db)"
  shows "\<exists>links. listChildRunTree env db r = Inr links \<and> set links = {l. under (xd_links db) r l} \<and>
    distinct (map ln_childRunId links)"
proof -
  obtain links where w: "tree_walk (xd_links db) [] [r] [] = Inr links"
    and links: "set links = {l. under (xd_links db) r l}" "distinct links"
    using tree_walk_walking [OF walking_start link_columns(1,2) [OF ok] rows_valid [OF ok small]] by blast
  have "set links \<subseteq> set (xd_links db)"
    using links(1) under_in by auto
  then have "inj_on ln_childRunId (set links)"
    using link_columns(2) [OF ok] inj_on_subset by (auto simp: distinct_map)
  then show ?thesis
    using w links by (simp add: listChildRunTree_def distinct_map)
qed

lemma root_found:
  assumes ok: "child_db_ok env db"
  shows "\<exists>root. rootRunForChildTree db r = Inr root \<and> (\<forall>l \<in> set (xd_links db). ln_childRunId l \<noteq> root) \<and>
    (root = r \<or> (\<exists>l. under (xd_links db) root l \<and> ln_childRunId l = r))"
proof -
  obtain root where root: "root_loop (xd_links db) [] r = Inr root"
      "(root, r) \<in> (set (edges (xd_links db)))\<^sup>*" "\<forall>l \<in> set (xd_links db). ln_childRunId l \<noteq> root"
    using root_loop_ends [of "xd_links db" "[]" r] grown_acyclic [OF link_columns(1) [OF ok]] by auto
  then show ?thesis
    using path_under [of root r "xd_links db"] by (auto simp: rootRunForChildTree_def rtrancl_eq_or_trancl)
qed

lemma progress_found:
  assumes ok: "child_db_ok env db"
  shows "\<exists>p. leafProgressInDatabase db r = Inr p"
  using leaf_walk_walking [OF walking_start link_columns(1,2) [OF ok], of r]
  by (auto simp: leafProgressInDatabase_def Let_def)

text \<open>The tree below a passed link has passed.\<close>

lemma passed_link:
  "child_db_ok env db \<Longrightarrow> l \<in> set (xd_links db) \<Longrightarrow> ln_status l = Child_passed \<Longrightarrow> link_may_pass db l"
  by (simp add: child_db_ok_def)

lemma passed_tree:
  assumes ok: "child_db_ok env db" and l: "l \<in> set (xd_links db)" "ln_status l = Child_passed"
  shows "under (xd_links db) (ln_childRunId l) k \<Longrightarrow> k \<in> set (xd_links db) \<and> ln_status k = Child_passed"
proof (induction rule: under.induct)
  case (under_direct k)
  then show ?case
    using passed_link [OF ok l] by (auto simp: link_may_pass_def list_all_iff children_of_def)
next
  case (under_deeper k k')
  then have "link_may_pass db k"
    using passed_link [OF ok] by blast
  then show ?case
    using under_deeper(2,3) by (auto simp: link_may_pass_def list_all_iff children_of_def)
qed

lemma terminal_link_kept:
  "child_db_ok env db \<Longrightarrow> child_steps env db db' \<Longrightarrow> link_row db i = Some l \<Longrightarrow>
   isTerminalChildRunStatus (ln_status l) \<Longrightarrow> link_row db' i = Some l"
proof -
  assume ok: "child_db_ok env db" and s: "child_steps env db db'" and l: "link_row db i = Some l"
    "isTerminalChildRunStatus (ln_status l)"
  have "links_follow db db'"
    using steps_keep [OF s ok] by (simp add: keeps_def child_follows_def)
  from links_follow_row [OF this l(1)] show ?thesis
    using l(2) by auto
qed

lemma terminal_update_fails:
  assumes ok: "child_db_ok env db" and l: "link_row db i = Some l" "isTerminalChildRunStatus (ln_status l)"
  shows "\<not> Inr (db1, n) = update_link db b l f"
proof
  assume "Inr (db1, n) = update_link db b l f"
  then have "link_guard db b l (f l)"
    using update_link_row(2) [OF link_table_ok [OF ok] l(1)] by metis
  then show False
    using l(2) by (simp add: link_guard_def link_transition_kept_def)
qed

lemma observe_terminal_fails:
  assumes ok: "child_db_ok env db" and l: "link_row db (ui_linkId ui) = Some l"
    "isTerminalChildRunStatus (ln_status l)"
  shows "\<not> ok (updateChildRunObservation db ui ids)"
proof
  assume "ok (updateChildRunObservation db ui ids)"
  then obtain s where "canTransitionChildRunStatus (ln_status l) s" "\<not> isTerminalChildRunStatus s"
    using l(1) by (auto simp: ok_iff updateChildRunObservation_def result_simps requireLink_Inr Let_def split: if_splits)
  then show False
    using terminal_child_stays [OF l(2), of s] l(2) by simp
qed

lemma settle_terminal_fails:
  assumes ok: "child_db_ok env db" and l: "link_row db (si_linkId si) = Some l"
    "isTerminalChildRunStatus (ln_status l)"
  shows "\<not> ok (settleChildRun env db si ids)"
proof
  assume "ok (settleChildRun env db si ids)"
  then obtain db' x where "settleChildRun env db si ids = Inr (db', x)"
    by (auto simp: ok_iff)
  from settle_cases [OF this link_table_ok [OF ok]] show False
    using l terminal_update_fails [OF ok l] by (metis option.inject)
qed

lemma project_terminal_fails:
  assumes ok: "child_db_ok env db" and l: "link_row db (pi_linkId pi) = Some l"
    "isTerminalChildRunStatus (ln_status l)" and p: "projectChildEventToParent env db pi ids = Inr (db', x)"
  shows "db' = db"
proof (rule ccontr)
  assume "db' \<noteq> db"
  then have p': "project_new db l pi ids = Inr (db', x)"
    using p l(1) by (auto simp: projectChildEventToParent_def Let_def result_simps requireLink_Inr
        split: if_splits option.splits)
  then obtain db1 db2 pr f r where ev: "appendChildEvent db l To_parent ''child.event.projected''
        (xe_level (pi_sourceEvent pi)) (pi_projectedEventId pi) = Inr db1"
    and ins: "insert_projection db1 pr = Inr db2" and up: "update_link db2 False l f = Inr r"
    by (auto simp: project_new_def Let_def result_simps split: if_splits)
  have same: "same_ledger db db2"
    using child_event_same [OF ev] projection_same [OF ins] by (rule same_ledger_trans)
  have "child_db_ok env db2" "link_row db2 (pi_linkId pi) = Some l"
    using ok l(1) same same_ledger_ok by (auto simp: link_row_def same_ledger_def)
  then show False
    using terminal_update_fails l(2) up by (metis surj_pair)
qed

lemma ready_link:
  assumes "assertParentChildCompletionReady env db db' parent expected = Inr l"
  shows "l \<in> set (xd_links db)" "parent_key l = parent" "ln_status l = Child_passed"
    "expected = [] \<or> ln_childDocumentId l = expected"
proof -
  obtain runId documentId taskId where parent: "parent = (runId, documentId, taskId)"
    by (cases parent)
  obtain s where st: "parentChildCompletionState env db db' parent (Some expected) = Inr s"
    using assms unfolding assertParentChildCompletionReady_def and_then_Inr by blast
  then have s: "parentChildCompletionState env db db' parent (Some expected) = Inr s"
      "pz_ready s" "\<exists>ls. pz_links s = l # ls"
    using assms by (cases "pz_links s"; auto simp: assertParentChildCompletionReady_def split: if_splits)+
  obtain found where found: "findLinkForParentInDatabase db runId documentId taskId = Inr found"
    using s(1) unfolding parentChildCompletionState_def parent by (auto simp: result_simps)
  obtain k where some: "found = Some k"
    using s found by (cases found) (auto simp: parentChildCompletionState_def parent)
  have k: "find (\<lambda>k. parent_key k = parent) (xd_links db) = Some k"
    using found unfolding some by (auto simp: parent findLinkForParentInDatabase_def link_read_def
        linkFromRow_def result_simps split: option.splits if_splits)
  obtain receipt where receipt: "getChildRunTerminalReceipt env db' (ln_id k) = Inr receipt"
    using s(1) found some by (auto simp: parentChildCompletionState_def parent result_simps)
  have ready: "k = l" "ln_status l = Child_passed" "expected = [] \<or> ln_childDocumentId l = expected"
    using s found some receipt
    by (auto simp: parentChildCompletionState_def parent Let_def split: if_splits)
  show "l \<in> set (xd_links db)" "parent_key l = parent" "ln_status l = Child_passed"
    "expected = [] \<or> ln_childDocumentId l = expected"
    using find_SomeD [OF k] ready by auto
qed

lemma find_distinct: "distinct (map f xs) \<Longrightarrow> x \<in> set xs \<Longrightarrow> find (\<lambda>y. f y = f x) xs = Some x"
  by (induction xs) (auto simp: image_iff)

lemma reserve_identity:
  assumes ok: "child_db_ok env db" and r: "reserveChildRun env db input ids = Inr (db1, l, made)"
  shows "assertReservationIdentity l input = Inr () \<and> link_row db1 (ln_id l) = Some l"
proof (cases made)
  case True
  then obtain db0 where res: "reservable db input = Inr ()" "reserve_rows env db input = Inr (db0, l)"
    and same: "same_ledger db0 db1"
    using reserve_cases [OF r] by auto
  obtain p where p: "run_row db (ri_parentRunId input) = Some p" "\<not> run_terminal (rr_status p)"
    using reservable_parent [OF res(1)] by blast
  note rows = reserve_rows_keeps [OF ok p res(2)]
  have "link_row db1 (ln_id l) = Some l"
    using rows(4) same by (simp add: rows(2) link_row_def same_ledger_def reserved_link_def)
  then show ?thesis
    by (simp add: rows(2) assertReservationIdentity_def reserved_link_def parent_key_def)
next
  case False
  then have same: "db1 = db" "assertReservationIdentity l input = Inr ()"
    and found: "find (\<lambda>l. parent_key l = (ri_parentRunId input, ri_parentDocumentId input, ri_parentTaskId input))
      (xd_links db) = Some l"
    using reserve_cases [OF r] by simp_all
  then show ?thesis
    using link_row_in [OF link_table_ok [OF ok]] find_SomeD [OF found] by simp
qed

section \<open>A sample\<close>

text \<open>A parent run with an active task, whose child is reserved, run to the end and settled.\<close>

definition tree_sample_hash :: string where
  "tree_sample_hash = replicate 64 CHR ''a''"

definition tree_sample_env :: "unit child_env" where
  "tree_sample_env = \<lparr>ne_run = \<lparr>re_digest = \<lambda>_. tree_sample_hash, re_optionsOk = \<lambda>_. True, re_modeOf = \<lambda>_. Mode_wiggum\<rparr>,
     ne_receiptHash = \<lambda>_. tree_sample_hash, ne_eventHash = xe_id, ne_collate = (\<le>)\<rparr>"

definition tree_sample_options :: "unit effective_options" where
  "tree_sample_options = \<lparr>eo_body = (), eo_contentHash = tree_sample_hash\<rparr>"

definition tree_sample_run :: "unit run_record" where
  "tree_sample_run = \<lparr>rr_id = ''p'', rr_workspaceId = ''w'', rr_rootPrdId = ''root'', rr_rootPrdFile = ''root'',
     rr_source = None, rr_definitionHash = tree_sample_hash, rr_graphHash = tree_sample_hash,
     rr_mode = Mode_wiggum, rr_status = Run_created, rr_effectiveOptionsHash = tree_sample_hash,
     rr_effectiveOptions = tree_sample_options, rr_createdAt = 1, rr_startedAt = None,
     rr_finishedAt = None, rr_stopReason = None, rr_updatedAt = 1\<rparr>"

definition tree_sample_observability :: child_observability where
  "tree_sample_observability =
     \<lparr>gb_progress = \<lparr>gp_completed = 0, gp_total = 1, gp_currentDocumentId = None, gp_currentTaskId = None\<rparr>,
      gb_lastSourceEventSequence = 0, gb_lastLogSequence = 0, gb_watchdogStatus = Cw_idle,
      gb_lastError = None\<rparr>"

definition tree_sample_reservation :: "unit reserve_input" where
  "tree_sample_reservation =
     \<lparr>ri_linkId = ''l'', ri_childRunId = ''c'', ri_workspaceId = ''w'', ri_parentRunId = ''p'',
      ri_parentDocumentId = ''root'', ri_parentTaskId = ''a'', ri_childDocumentId = ''kid'',
      ri_childRootPrdFile = ''kid'', ri_graphDefinitionHash = tree_sample_hash,
      ri_graphHash = tree_sample_hash, ri_inheritedOptionsHash = tree_sample_hash,
      ri_materializationHash = tree_sample_hash, ri_depth = 1, ri_expectedDirectChildren = 0,
      ri_parentPolicy = Pause_with_parent, ri_effectiveOptions = tree_sample_options,
      ri_tasks = [\<lparr>kt_documentId = ''kid'', kt_taskId = ''c'', kt_status = Task_completed,
                   kt_markerContentHash = tree_sample_hash\<rparr>],
      ri_observability = tree_sample_observability, ri_createdAt = 2\<rparr>"

definition committed :: "('o child_db \<times> 'a) result \<Rightarrow> 'o child_db" where
  "committed r = (case r of Inl e \<Rightarrow> empty_child_db | Inr (db, x) \<Rightarrow> db)"

definition tree_sample_status :: "unit child_db \<Rightarrow> run_status \<Rightarrow> string \<Rightarrow> (unit child_db \<times> unit run_record) result" where
  "tree_sample_status db s eid =
     (case findRunInDatabase (ne_run tree_sample_env) db ''c'' of
        Inr (Some r) \<Rightarrow> transitionStoredRun (ne_run tree_sample_env) db r s
          \<lparr>to_graphHash = None, to_startedAt = None, to_finishedAt = None, to_stopReason = None,
           to_updatedAt = 3, to_event = None\<rparr> eid
      | _ \<Rightarrow> Inl ZodError)"

definition tree_sample_created :: "(unit child_db \<times> unit run_record) result" where
  "tree_sample_created = createRun (ne_run tree_sample_env) empty_child_db tree_sample_run None ''e1''"

definition tree_sample_tasks :: "(unit child_db \<times> task_record list) result" where
  "tree_sample_tasks = materializeRunTasks (ne_run tree_sample_env) (committed tree_sample_created) ''p''
     [\<lparr>mt_documentId = ''root'', mt_taskId = ''a'', mt_status = Task_active,
       mt_markerContentHash = tree_sample_hash, mt_updatedAt = 1\<rparr>] None ''e2''"

definition tree_sample_ids :: "string \<Rightarrow> nat \<Rightarrow> string" where
  "tree_sample_ids p n = p @ (if n = 0 then ''a'' else if n = 1 then ''b'' else ''c'')"

definition tree_sample_reserved :: "(unit child_db \<times> child_link \<times> bool) result" where
  "tree_sample_reserved = reserveChildRun tree_sample_env (committed tree_sample_tasks) tree_sample_reservation (tree_sample_ids ''r'')"

definition tree_sample_running :: "(unit child_db \<times> unit run_record) result" where
  "tree_sample_running = tree_sample_status (committed tree_sample_reserved) Run_running ''e3''"

definition tree_sample_completed :: "(unit child_db \<times> unit run_record) result" where
  "tree_sample_completed = tree_sample_status (committed tree_sample_running) Run_completed ''e4''"

definition tree_sample_settlement :: settle_input where
  "tree_sample_settlement = \<lparr>si_linkId = ''l'', si_expectedRevision = 0, si_artifactsReconciled = True,
     si_reason = ''done'', si_finishedAt = 5\<rparr>"

definition tree_sample_settled :: "(unit child_db \<times> child_link) result" where
  "tree_sample_settled = settleChildRun tree_sample_env (committed tree_sample_completed) tree_sample_settlement (tree_sample_ids ''s'')"

lemma tree_sample_hash_ok [simp]: "sha256 tree_sample_hash"
  by code_simp

lemmas tree_sample_defs = tree_sample_env_def tree_sample_options_def tree_sample_run_def tree_sample_observability_def
  tree_sample_reservation_def tree_sample_status_def tree_sample_ids_def tree_sample_settlement_def empty_child_db_def
  valid_options_def run_row_def find_row_def task_row_def task_key_def tasks_of_def children_of_def
  link_row_def Let_def require_def or_else_def nonempty_def nonempty_opt_def between_def between_opt_def
  counter_def safe_int_def run_terminal_def committed_def tree_sample_created_def tree_sample_tasks_def
  tree_sample_reserved_def tree_sample_running_def tree_sample_completed_def tree_sample_settled_def

lemmas tree_sample_store_defs = createRun_def insert_run_def requireRun_def findRunInDatabase_def
  runFromRow_def parse_run_record_def run_fields_ok_def appendMutationEvent_def run_event_of_def
  appendEvent_def materializeRunTasks_def materialized_def findTaskInDatabase_def
  parse_task_record_def valid_task_record_def transitionStoredRun_def updateRun_def
  canTransitionRunStatus_def allows_def

lemmas tree_sample_child_defs = reserveChildRun_def reservation_valid_def findLinkForParentInDatabase_def
  link_read_def reservable_def reserve_rows_def child_run_record_def child_task_record_def
  insert_link_def link_insertable_def insert_row_def link_check_def link_index_def parent_key_def
  reserved_link_def requireLink_def findLinkById_def linkFromRow_def valid_child_link_def
  valid_child_observability_def valid_child_progress_def appendChildEvent_def
  appendTreeProgressEvent_def rootRunForChildTree_def root_loop.simps leafProgressInDatabase_def
  leaf_walk.simps(2) leaf_tasks_def leaf_key_def task_done_def

lemmas tree_sample_settle_defs = settleChildRun_def settlement_def settled_progress_def terminalReceipt_def
  valid_child_receipt_def complete_progress_def update_link_def update_rows_def link_guard_def
  link_identity_kept_def link_transition_kept_def link_may_pass_def settled_link_def
  canTransitionChildRunStatus_def

lemma tree_sample_created_ok: "ok tree_sample_created"
  by (simp add: tree_sample_defs tree_sample_store_defs)

lemma tree_sample_tasks_ok: "ok tree_sample_tasks"
  by (simp add: tree_sample_defs tree_sample_store_defs)

lemma tree_sample_reserved_ok: "ok tree_sample_reserved"
  by (simp add: tree_sample_defs tree_sample_store_defs tree_sample_child_defs)

lemma tree_sample_running_ok: "ok tree_sample_running"
  by (simp add: tree_sample_defs tree_sample_store_defs tree_sample_child_defs)

lemma tree_sample_completed_ok: "ok tree_sample_completed"
  by (simp add: tree_sample_defs tree_sample_store_defs tree_sample_child_defs)

lemma tree_sample_settled_ok: "ok tree_sample_settled"
  by (simp add: tree_sample_defs tree_sample_store_defs tree_sample_child_defs tree_sample_settle_defs)

lemma committed_step: "ok r \<Longrightarrow> \<exists>x. r = Inr (committed r, x)"
  by (auto simp: ok_iff committed_def)

lemma tree_sample_status_step: "ok (tree_sample_status db s eid) \<Longrightarrow> child_step tree_sample_env db (committed (tree_sample_status db s eid))"
proof -
  assume "ok (tree_sample_status db s eid)"
  then obtain x where x: "tree_sample_status db s eid = Inr (committed (tree_sample_status db s eid), x)"
    using committed_step by blast
  then obtain r where "findRunInDatabase (ne_run tree_sample_env) db ''c'' = Inr (Some r)"
      "transitionStoredRun (ne_run tree_sample_env) db r s \<lparr>to_graphHash = None, to_startedAt = None,
        to_finishedAt = None, to_stopReason = None, to_updatedAt = 3, to_event = None\<rparr> eid =
        Inr (committed (tree_sample_status db s eid), x)"
    by (auto simp: tree_sample_status_def split: sum.splits option.splits)
  then show ?thesis
    by (intro step_store store_run)
qed

lemma tree_sample_reach_tasks: "child_steps tree_sample_env empty_child_db (committed tree_sample_tasks)"
proof -
  have "child_step tree_sample_env empty_child_db (committed tree_sample_created)"
    using committed_step [OF tree_sample_created_ok] unfolding tree_sample_created_def
    by (auto intro: step_store store_create)
  moreover obtain xs where "tree_sample_tasks = Inr (committed tree_sample_tasks, xs)"
    using committed_step [OF tree_sample_tasks_ok] by blast
  moreover have "run_row (committed tree_sample_created) ''p'' = Some tree_sample_run"
    by (simp add: tree_sample_defs tree_sample_store_defs)
  moreover have "rr_status tree_sample_run = Run_created"
    by (simp add: tree_sample_run_def)
  ultimately have "child_step tree_sample_env (committed tree_sample_created) (committed tree_sample_tasks)"
    unfolding tree_sample_tasks_def by (intro step_store store_tasks)
  then show ?thesis
    using \<open>child_step tree_sample_env empty_child_db _\<close> by (meson converse_rtranclp_into_rtranclp r_into_rtranclp)
qed

lemma tree_sample_reserve: "\<exists>l. reserveChildRun tree_sample_env (committed tree_sample_tasks) tree_sample_reservation (tree_sample_ids ''r'') =
    Inr (committed tree_sample_reserved, l, True) \<and> ln_id l = ''l''"
  by (simp add: tree_sample_defs tree_sample_store_defs tree_sample_child_defs)

lemma tree_sample_reach_reserved: "child_steps tree_sample_env empty_child_db (committed tree_sample_reserved)"
  using tree_sample_reach_tasks tree_sample_reserve step_reserve rtranclp.rtrancl_into_rtrancl by metis

lemma tree_sample_complete: "child_steps tree_sample_env (committed tree_sample_reserved) (committed tree_sample_completed)"
  using tree_sample_status_step [OF tree_sample_running_ok [unfolded tree_sample_running_def]]
    tree_sample_status_step [OF tree_sample_completed_ok [unfolded tree_sample_completed_def]]
  unfolding tree_sample_running_def [symmetric] tree_sample_completed_def [symmetric]
  by (meson converse_rtranclp_into_rtranclp r_into_rtranclp)

lemma tree_sample_settle: "child_steps tree_sample_env (committed tree_sample_completed) (committed tree_sample_settled)"
  using committed_step [OF tree_sample_settled_ok] unfolding tree_sample_settled_def
  by (auto intro: step_settle)

lemma tree_sample_reach: "child_steps tree_sample_env empty_child_db (committed tree_sample_settled)"
  using tree_sample_reach_reserved tree_sample_complete tree_sample_settle by simp

definition tree_sample_link :: child_link where
  "tree_sample_link = the (link_row (committed tree_sample_settled) ''l'')"

lemma tree_sample_link_row: "link_row (committed tree_sample_settled) ''l'' = Some tree_sample_link"
  "ln_status tree_sample_link = Child_passed" "ln_revision tree_sample_link = 1" "ln_childRunId tree_sample_link = ''c''"
  by (simp_all add: tree_sample_link_def tree_sample_defs tree_sample_store_defs tree_sample_child_defs tree_sample_settle_defs)

lemma tree_sample_small: "list_all (\<lambda>l. counter (ln_revision l)) (xd_links (committed tree_sample_settled))"
  by (simp add: tree_sample_defs tree_sample_store_defs tree_sample_child_defs tree_sample_settle_defs)

section \<open>Properties\<close>

text \<open>
  C33. In every reachable ledger a link that can be read satisfies its schema and the constraints
  of its table, and agrees with the rows it names: parent and child run exist in its workspace
  and under its definition, the child run has its document, file and options, the parent task
  exists; it has a receipt exactly when it is terminal, and the receipt names the link, its run,
  its status and its progress and has the digest it records.
\<close>

theorem reachable_links_are_well_formed:
  assumes "child_steps env empty_child_db db" and "l \<in> set (xd_links db)" and "counter (ln_revision l)"
  shows "linkFromRow l = Inr l \<and> link_check l \<and> link_bound db l \<and>
    (if isTerminalChildRunStatus (ln_status l) then receipt_ok env l else ln_receipt l = None)"
proof -
  have ok: "child_db_ok env db"
    by (rule reachable_ok [OF assms(1)])
  then have row: "row_ok env l" "link_check l" "link_bound db l"
    using assms(2) by (simp_all add: child_db_ok_def table_ok_def list_all_iff)
  have "valid_child_link l"
    by (rule row_valid [OF row(1) assms(3)])
  then show ?thesis
    using row by (auto simp: linkFromRow_def valid_child_link_def row_ok_def link_check_def)
qed

theorem reachable_links_are_well_formed_witness:
  "linkFromRow tree_sample_link = Inr tree_sample_link \<and> receipt_ok tree_sample_env tree_sample_link"
  using reachable_links_are_well_formed [OF tree_sample_reach link_row_SomeD [OF tree_sample_link_row(1), THEN conjunct1]]
    tree_sample_link_row(2,3) by (simp add: counter_def safe_int_def)

text \<open>
  C19. In every reachable ledger the links form a forest: the tree of a run is listed without
  meeting a cycle, as exactly the links below it with each child run once, its progress is
  counted, and the climb from a run ends at the one root that no link has for its child.
\<close>

theorem child_links_form_a_forest:
  assumes "child_steps env empty_child_db db" and "list_all (\<lambda>l. counter (ln_revision l)) (xd_links db)"
  shows "(\<exists>links. listChildRunTree env db r = Inr links \<and> set links = {l. under (xd_links db) r l} \<and>
      distinct (map ln_childRunId links)) \<and>
    (\<exists>p. leafProgressInDatabase db r = Inr p) \<and>
    (\<exists>root. rootRunForChildTree db r = Inr root \<and> (\<forall>l \<in> set (xd_links db). ln_childRunId l \<noteq> root) \<and>
      (root = r \<or> (\<exists>l. under (xd_links db) root l \<and> ln_childRunId l = r)))"
  using tree_listed [OF reachable_ok [OF assms(1)] assms(2)] progress_found [OF reachable_ok [OF assms(1)]]
    root_found [OF reachable_ok [OF assms(1)]] by blast

theorem child_links_form_a_forest_witness:
  "\<exists>links. listChildRunTree tree_sample_env (committed tree_sample_settled) ''p'' = Inr links \<and> tree_sample_link \<in> set links"
proof -
  have "ln_parentRunId tree_sample_link = ''p''"
    by (simp add: tree_sample_link_def tree_sample_defs tree_sample_store_defs tree_sample_child_defs tree_sample_settle_defs)
  then have "under (xd_links (committed tree_sample_settled)) ''p'' tree_sample_link"
    using link_row_SomeD [OF tree_sample_link_row(1)] by (intro under_direct) simp_all
  then show ?thesis
    using child_links_form_a_forest [OF tree_sample_reach tree_sample_small, of "''p''"] by blast
qed

text \<open>
  C7. When the gate of the parent lets its verification start, the link it returns belongs to the
  parent task and to the expected document, and from then on, whatever is done, the link stays as
  it is and the whole tree below it is complete: every link of it has passed with its artifacts
  reconciled and complete progress, its run is completed, all tasks of that run are done, and it
  has as many children as were expected, all passed.
\<close>

theorem ready_parent_has_a_complete_tree:
  assumes "child_steps env empty_child_db db" and "child_steps env db db'"
    and "assertParentChildCompletionReady env db db' parent expected = Inr l"
    and "child_steps env db' later"
    and "k = l \<or> under (xd_links later) (ln_childRunId l) k"
  shows "parent_key l = parent \<and> (expected = [] \<or> ln_childDocumentId l = expected) \<and>
    link_row later (ln_id l) = Some l \<and>
    k \<in> set (xd_links later) \<and> ln_status k = Child_passed \<and> link_may_pass later k"
proof -
  note l = ready_link [OF assms(3)]
  have ok: "child_db_ok env db" "child_db_ok env later"
    using assms(1,2,4) by (auto intro!: reachable_ok)
  have steps: "child_steps env db later"
    using assms(2,4) by simp
  have "link_row db (ln_id l) = Some l"
    by (rule link_row_in [OF link_table_ok [OF ok(1)] l(1)])
  from terminal_link_kept [OF ok(1) steps this] have row: "link_row later (ln_id l) = Some l"
    using l(3) by simp
  have "k \<in> set (xd_links later) \<and> ln_status k = Child_passed"
    using assms(5) passed_tree [OF ok(2) _ l(3)] link_row_SomeD [OF row] l(3) by blast
  then show ?thesis
    using l row passed_link [OF ok(2)] by blast
qed

lemma tree_sample_ready:
  "assertParentChildCompletionReady tree_sample_env (committed tree_sample_settled) (committed tree_sample_settled)
     (''p'', ''root'', ''a'') ''kid'' = Inr tree_sample_link"
  by (simp add: assertParentChildCompletionReady_def parentChildCompletionState_def
      getChildRunTerminalReceipt_def tree_sample_link_def tree_sample_defs tree_sample_store_defs tree_sample_child_defs
      tree_sample_settle_defs)

theorem ready_parent_has_a_complete_tree_witness:
  "link_row (committed tree_sample_settled) (ln_id tree_sample_link) = Some tree_sample_link \<and>
   link_may_pass (committed tree_sample_settled) tree_sample_link"
  using ready_parent_has_a_complete_tree [OF tree_sample_reach rtranclp.rtrancl_refl tree_sample_ready
      rtranclp.rtrancl_refl, of tree_sample_link] by blast

text \<open>
  C34. A reservation is made once: after it, whatever is done, the same request returns the same
  link of the same run, reserves nothing and changes nothing.
\<close>

theorem reservation_is_made_once:
  assumes "child_steps env empty_child_db db"
    and "reserveChildRun env db input ids = Inr (db1, l, made)"
    and "child_steps env db1 db2"
  shows "\<exists>l'. link_row db2 (ln_id l) = Some l' \<and> link_identity_kept l l' \<and>
    (counter (ln_revision l') \<longrightarrow> reserveChildRun env db2 input ids' = Inr (db2, l', False))"
proof -
  have ok: "child_db_ok env db"
    by (rule reachable_ok [OF assms(1)])
  then have ok1: "child_db_ok env db1" and ok2: "child_db_ok env db2"
    using reserve_keeps [OF ok assms(2)] steps_keep [OF assms(3)] by (auto simp: keeps_def)
  have valid: "reservation_valid env input = Inr ()"
    using assms(2) by (auto simp: reserveChildRun_def result_simps)
  have same: "assertReservationIdentity l input = Inr ()" and row1: "link_row db1 (ln_id l) = Some l"
    using reserve_identity [OF ok assms(2)] by simp_all
  have "links_follow db1 db2"
    using steps_keep [OF assms(3) ok1] by (simp add: keeps_def child_follows_def)
  then obtain l' where l': "link_row db2 (ln_id l) = Some l'" "link_identity_kept l l'"
    using links_follow_row row1 by blast
  have in2: "l' \<in> set (xd_links db2)"
    using link_row_SomeD [OF l'(1)] by simp
  have key: "parent_key l' = (ri_parentRunId input, ri_parentDocumentId input, ri_parentTaskId input)"
    using same l'(2) by (simp add: assertReservationIdentity_def require_Inr link_identity_kept_def)
  have found: "find (\<lambda>l. parent_key l = (ri_parentRunId input, ri_parentDocumentId input, ri_parentTaskId input))
      (xd_links db2) = Some l'"
    using find_distinct [OF link_columns(3) [OF ok2] in2] key by simp
  have same': "assertReservationIdentity l' input = Inr ()"
    using same l'(2) by (simp add: assertReservationIdentity_def require_Inr link_identity_kept_def)
  have run: "run_row db2 (ln_childRunId l') \<noteq> None"
    using ok2 in2 link_bound_runs [of db2 l'] by (simp add: child_db_ok_def)
  have "reserveChildRun env db2 input ids' = Inr (db2, l', False)" if "counter (ln_revision l')"
  proof -
    have "row_ok env l'"
      using ok2 in2 by (simp add: child_db_ok_def)
    from row_valid [OF this that] have "linkFromRow l' = Inr l'"
      by (simp add: linkFromRow_def valid_child_link_def)
    then show ?thesis
      using valid found same' run
      by (simp add: reserveChildRun_def findLinkForParentInDatabase_def link_read_def)
  qed
  then show ?thesis
    using l' by blast
qed

theorem reservation_is_made_once_witness:
  "\<exists>l'. reserveChildRun tree_sample_env (committed tree_sample_settled) tree_sample_reservation (tree_sample_ids ''r'') =
     Inr (committed tree_sample_settled, l', False)"
proof -
  obtain l where l: "reserveChildRun tree_sample_env (committed tree_sample_tasks) tree_sample_reservation (tree_sample_ids ''r'') =
      Inr (committed tree_sample_reserved, l, True)" "ln_id l = ''l''"
    using tree_sample_reserve by blast
  have "child_steps tree_sample_env (committed tree_sample_reserved) (committed tree_sample_settled)"
    using tree_sample_complete tree_sample_settle by simp
  from reservation_is_made_once [OF tree_sample_reach_tasks l(1) this, of "tree_sample_ids ''r''"] show ?thesis
    using tree_sample_link_row(1,3) l(2) by (auto simp: counter_def safe_int_def)
qed

text \<open>
  C20. A settled link is final. Whatever is done, its row stays as it is and its receipt can be
  read and has its status; an observation or a second settlement of it fails, and an event
  of its run that was not projected before is not projected any more.
\<close>

theorem settled_link_is_final:
  assumes "child_steps env empty_child_db db" and "child_steps env db db'"
    and "link_row db i = Some l" and "isTerminalChildRunStatus (ln_status l)"
  shows "link_row db' i = Some l \<and>
    (\<exists>r. getChildRunTerminalReceipt env db' i = Inr (Some r) \<and> rc_status r = ln_status l) \<and>
    (ui_linkId ui = i \<longrightarrow> \<not> ok (updateChildRunObservation db' ui ids)) \<and>
    (si_linkId si = i \<longrightarrow> \<not> ok (settleChildRun env db' si ids)) \<and>
    (pi_linkId pi = i \<and> projectChildEventToParent env db' pi ids = Inr (later, p) \<longrightarrow> later = db')"
proof -
  have ok: "child_db_ok env db" and ok': "child_db_ok env db'"
    using assms(1,2) by (auto intro!: reachable_ok)
  have row: "link_row db' i = Some l"
    by (rule terminal_link_kept [OF ok assms(2,3,4)])
  then have "receipt_ok env l"
    using ok' assms(4) link_row_SomeD [OF row] by (simp add: child_db_ok_def row_ok_def)
  then have "\<exists>r. getChildRunTerminalReceipt env db' i = Inr (Some r) \<and> rc_status r = ln_status l"
    using row by (auto simp: receipt_ok_def getChildRunTerminalReceipt_def)
  then show ?thesis
    using row observe_terminal_fails [OF ok' _ assms(4)] settle_terminal_fails [OF ok' _ assms(4)]
      project_terminal_fails [OF ok' _ assms(4)] by blast
qed

theorem settled_link_is_final_witness:
  "(\<exists>r. getChildRunTerminalReceipt tree_sample_env (committed tree_sample_settled) ''l'' = Inr (Some r) \<and>
      rc_status r = Child_passed) \<and>
   \<not> ok (settleChildRun tree_sample_env (committed tree_sample_settled) tree_sample_settlement (tree_sample_ids ''t''))"
proof -
  have "isTerminalChildRunStatus (ln_status tree_sample_link)" "si_linkId tree_sample_settlement = ''l''"
    by (simp_all add: tree_sample_link_row(2) tree_sample_settlement_def)
  then show ?thesis
    using settled_link_is_final [OF tree_sample_reach rtranclp.rtrancl_refl tree_sample_link_row(1)]
      tree_sample_link_row(2) by metis
qed

end
