(* ===== verification/ChildGraph.thy ===== *)
theory ChildGraph
  imports PrdGraph ChildLedger "HOL-Library.AList"
begin

text \<open>
  \<^verbatim>\<open>packages/orchestration/src/child-scheduler.ts\<close>, the check of a compiled graph at run time:
  a worker does not trust the graph it is given and walks it again. The path library is an
  argument; the diagnostics and hashes the graph carries are checked, not recomputed.
\<close>

section \<open>Graphs at run time\<close>

text \<open>A compiled graph with the diagnostics and hashes it carries.\<close>

record runtime_graph =
  rg_graph :: compiled_graph
  rg_diagnostics :: "diagnostic list"
  rg_definitionHash :: string
  rg_graphHash :: string

record manifest =
  mf_graphDefinitionHash :: string
  mf_parentRunId :: string
  mf_parentTask :: task_ref
  mf_childDocumentId :: string
  mf_childRootPrdFile :: string
  mf_childTaskSpecHashes :: "(string \<times> string) list"
  mf_expectedDirectChildren :: int
  mf_inheritedOptionsHash :: string
  mf_depth :: int

text \<open>
  \<open>se_declared\<close> is \<^verbatim>\<open>posix.normalize(posix.join(posix.dirname(file), prd))\<close>;
  \<open>se_identity\<close> the digest of the JSON text of a list of strings.
\<close>

record sched_env =
  se_declared :: "string \<Rightarrow> string \<Rightarrow> string"
  se_identity :: "string list \<Rightarrow> string"
  se_manifestHash :: "runtime_graph \<Rightarrow> manifest \<Rightarrow> string"

record child_limits =
  lm_maxDepth :: int
  lm_maxChildren :: int
  lm_maxConcurrentChildren :: int

record limit_overrides =
  lo_maxDepth :: "int option"
  lo_maxChildren :: "int option"
  lo_maxConcurrentChildren :: "int option"

definition no_overrides :: limit_overrides where
  "no_overrides = \<lparr>lo_maxDepth = None, lo_maxChildren = None, lo_maxConcurrentChildren = None\<rparr>"

definition schedulingError :: "string \<Rightarrow> failure" where
  "schedulingError code =
     RalphError code (if js_includes code ''GRAPH'' \<or> js_includes code ''PREAUTHORED'' then Exit_invalidPrd
                      else Exit_conflict)"

definition effectiveLimits :: "limit_overrides \<Rightarrow> child_limits result" where
  "effectiveLimits input =
     (let l = \<lparr>lm_maxDepth = or_else (lo_maxDepth input) 8,
               lm_maxChildren = or_else (lo_maxChildren input) 100,
               lm_maxConcurrentChildren = or_else (lo_maxConcurrentChildren input) 1\<rparr> in
      if safe_int (lm_maxDepth l) \<and> 0 \<le> lm_maxDepth l \<and>
         safe_int (lm_maxChildren l) \<and> 0 < lm_maxChildren l \<and>
         safe_int (lm_maxConcurrentChildren l) \<and> 0 < lm_maxConcurrentChildren l
      then Inr l else Inl ZodError)"

definition graphTask :: "compiled_graph \<Rightarrow> task_ref \<Rightarrow> prd_task result" where
  "graphTask graph reference =
     (case taskFor graph reference of
        None \<Rightarrow> Inl (schedulingError ''RALPH_CHILD_GRAPH_TASK_BINDING_INVALID'')
      | Some t \<Rightarrow>
          if pt_taskSpecHash t \<noteq> ref_taskSpecHash reference
          then Inl (schedulingError ''RALPH_CHILD_GRAPH_TASK_BINDING_INVALID'')
          else Inr t)"

definition valid_runtime_graph :: "runtime_graph \<Rightarrow> bool" where
  "valid_runtime_graph g \<longleftrightarrow>
     valid_compiled_graph (rg_graph g) \<and> sha256 (rg_definitionHash g) \<and> sha256 (rg_graphHash g)"

record validated_graph =
  vg_graph :: runtime_graph
  vg_depthByDocument :: "(string \<times> nat) list"
  vg_parentTaskByChildDocument :: "(string \<times> task_ref) list"
  vg_childDocumentByParentTask :: "(string \<times> string) list"

text \<open>One compiled edge, checked against the documents and the edges before it.\<close>

definition check_edge ::
  "sched_env \<Rightarrow> compiled_graph \<Rightarrow> child_edge \<Rightarrow>
   (string \<times> string) list \<times> (string \<times> task_ref) list \<Rightarrow>
   ((string \<times> string) list \<times> (string \<times> task_ref) list) result" where
  "check_edge env graph edge maps =
     (case maps of (childByParent, parentByChild) \<Rightarrow>
        and_then (graphTask graph (ch_parentTask edge)) (\<lambda>parentTask.
        if \<not> truthy_opt (pt_subPrd parentTask)
        then Inl (schedulingError ''RALPH_CHILD_RUNTIME_GENERATION_FORBIDDEN'')
        else
          (case map_of (cg_documents graph) (ch_childDocument edge) of
             None \<Rightarrow> Inl (schedulingError ''RALPH_CHILD_GRAPH_DOCUMENT_INVALID'')
           | Some child \<Rightarrow>
               (case (pd_kind child, pd_parent child) of
                  (Kind_child, Some parent) \<Rightarrow>
                    (let expected = map_of (cg_canonicalReferences graph) (ref_documentId (ch_parentTask edge));
                         declared = se_declared env (pd_file child) (portable (pp_prd parent)) in
                     if map_option (portable) expected \<noteq> Some declared \<or>
                        pp_task parent \<noteq> ref_taskId (ch_parentTask edge)
                     then Inl (schedulingError ''RALPH_CHILD_GRAPH_PARENT_MISMATCH'')
                     else if map_of childByParent (taskRefKey (ch_parentTask edge)) \<noteq> None
                     then Inl (schedulingError ''RALPH_CHILD_GRAPH_MULTIPLE_CHILDREN'')
                     else if map_of parentByChild (pd_id child) \<noteq> None
                     then Inl (schedulingError ''RALPH_CHILD_GRAPH_MULTIPLE_PARENTS'')
                     else Inr (childByParent @ [(taskRefKey (ch_parentTask edge), pd_id child)],
                               parentByChild @ [(pd_id child, ch_parentTask edge)]))
                | _ \<Rightarrow> Inl (schedulingError ''RALPH_CHILD_GRAPH_DOCUMENT_INVALID'')))))"

fun fold_result :: "('a \<Rightarrow> 's \<Rightarrow> 's result) \<Rightarrow> 'a list \<Rightarrow> 's \<Rightarrow> 's result" where
  "fold_result f [] s = Inr s"
| "fold_result f (x # xs) s = and_then (f x s) (fold_result f xs)"

definition check_task ::
  "(string \<times> string) list \<Rightarrow> string \<times> prd_task \<Rightarrow> unit \<Rightarrow> unit result" where
  "check_task childByParent task u =
     (let key = ref_key (fst task) (pt_id (snd task)) in
      if truthy_opt (pt_subPrd (snd task)) \<and> map_of childByParent key = None
      then Inl (schedulingError ''RALPH_CHILD_PREAUTHORED_EDGE_MISSING'')
      else if \<not> truthy_opt (pt_subPrd (snd task)) \<and> map_of childByParent key \<noteq> None
      then Inl (schedulingError ''RALPH_CHILD_RUNTIME_GENERATION_FORBIDDEN'')
      else Inr ())"

definition all_tasks :: "compiled_graph \<Rightarrow> (string \<times> prd_task) list" where
  "all_tasks graph = concat (map (\<lambda>(i, d). map (\<lambda>t. (i, t)) (pd_tasks d)) (cg_documents graph))"

record walk_state =
  ws_depth :: "(string \<times> nat) list"
  ws_visiting :: "string list"
  ws_visited :: "string list"

text \<open>
  The walk over the documents; \<open>rest\<close> is how much deeper it may go, so it is 0 exactly when the
  depth exceeds the limit.
\<close>

primrec walk_documents ::
  "compiled_graph \<Rightarrow> (string \<times> string) list \<Rightarrow> nat \<Rightarrow> string \<Rightarrow> nat \<Rightarrow> walk_state \<Rightarrow> walk_state result" where
  "walk_documents graph childByParent 0 documentId depth st =
     (if documentId \<in> set (ws_visiting st)
      then Inl (schedulingError ''RALPH_CHILD_GRAPH_CYCLE'')
      else Inl (schedulingError ''RALPH_CHILD_GRAPH_DEPTH_LIMIT''))"
| "walk_documents graph childByParent (Suc rest) documentId depth st =
     (if documentId \<in> set (ws_visiting st)
      then Inl (schedulingError ''RALPH_CHILD_GRAPH_CYCLE'')
      else if (case map_of (ws_depth st) documentId of None \<Rightarrow> False | Some previous \<Rightarrow> previous \<noteq> depth)
      then Inl (schedulingError ''RALPH_CHILD_GRAPH_MULTIPLE_PARENTS'')
      else
        (let st1 = st\<lparr>ws_depth := AList.update documentId depth (ws_depth st)\<rparr> in
         if documentId \<in> set (ws_visited st) then Inr st1
         else
           (case map_of (cg_documents graph) documentId of
              None \<Rightarrow> Inl (schedulingError ''RALPH_CHILD_GRAPH_DOCUMENT_MISSING'')
            | Some document \<Rightarrow>
                and_then
                  (fold_result
                     (\<lambda>task st.
                        case map_of childByParent (ref_key documentId (pt_id task)) of
                          None \<Rightarrow> Inr st
                        | Some childId \<Rightarrow>
                            if childId = [] then Inr st
                            else walk_documents graph childByParent rest childId (depth + 1) st)
                     (pd_tasks document)
                     (st1\<lparr>ws_visiting := documentId # ws_visiting st1\<rparr>))
                  (\<lambda>st2. Inr (st2\<lparr>ws_visiting := removeAll documentId (ws_visiting st2),
                                 ws_visited := documentId # ws_visited st2\<rparr>)))))"

definition validateChildRuntimeGraph ::
  "sched_env \<Rightarrow> runtime_graph \<Rightarrow> limit_overrides \<Rightarrow> validated_graph result" where
  "validateChildRuntimeGraph env candidate overrides =
     (if \<not> valid_runtime_graph candidate then Inl ZodError
      else
        and_then (effectiveLimits overrides) (\<lambda>limits.
        (let graph = rg_graph candidate in
         if hasErrors (rg_diagnostics candidate)
         then Inl (schedulingError ''RALPH_CHILD_GRAPH_HAS_DIAGNOSTICS'')
         else if lm_maxChildren limits < int (length (cg_childEdges graph))
         then Inl (schedulingError ''RALPH_CHILD_GRAPH_COUNT_LIMIT'')
         else
           and_then (fold_result (check_edge env graph) (cg_childEdges graph) ([], []))
             (\<lambda>(childByParent, parentByChild).
           and_then (fold_result (check_task childByParent) (all_tasks graph) ()) (\<lambda>_.
           and_then (walk_documents graph childByParent (Suc (nat (lm_maxDepth limits)))
                      (cg_rootDocumentId graph) 0
                      \<lparr>ws_depth = [(cg_rootDocumentId graph, 0)], ws_visiting = [], ws_visited = []\<rparr>)
             (\<lambda>st.
           if length (ws_visited st) \<noteq> length (cg_documents graph)
           then Inl (schedulingError ''RALPH_CHILD_GRAPH_UNREACHABLE_DOCUMENT'')
           else Inr \<lparr>vg_graph = candidate, vg_depthByDocument = ws_depth st,
                     vg_parentTaskByChildDocument = parentByChild,
                     vg_childDocumentByParentTask = childByParent\<rparr>))))))"

section \<open>Facts on the walk\<close>

lemma fold_result_keeps:
  assumes "fold_result f xs s = Inr s'" and "I s"
    and "\<And>x s s'. x \<in> set xs \<Longrightarrow> I s \<Longrightarrow> f x s = Inr s' \<Longrightarrow> I s'"
  shows "I s'"
  using assms by (induction xs arbitrary: s) (auto simp: result_simps)

text \<open>The state of the walk: what is visited has its children visited, one level deeper.\<close>

definition child_of :: "(string \<times> string) list \<Rightarrow> string \<Rightarrow> prd_task \<Rightarrow> string option" where
  "child_of children i t =
     (case map_of children (ref_key i (pt_id t)) of None \<Rightarrow> None | Some c \<Rightarrow> if c = [] then None else Some c)"

definition children_below :: "compiled_graph \<Rightarrow> (string \<times> string) list \<Rightarrow> walk_state \<Rightarrow> string \<Rightarrow> bool" where
  "children_below g children st i \<longleftrightarrow>
     (\<exists>n. map_of (ws_depth st) i = Some n \<and>
       (\<forall>d t c. map_of (cg_documents g) i = Some d \<longrightarrow> t \<in> set (pd_tasks d) \<longrightarrow>
          child_of children i t = Some c \<longrightarrow> c \<in> set (ws_visited st) \<and> map_of (ws_depth st) c = Some (Suc n)))"

definition walk_ok :: "compiled_graph \<Rightarrow> (string \<times> string) list \<Rightarrow> nat \<Rightarrow> walk_state \<Rightarrow> bool" where
  "walk_ok g children bound st \<longleftrightarrow>
     distinct (ws_visited st) \<and> set (ws_visited st) \<inter> set (ws_visiting st) = {} \<and>
     set (ws_visited st) \<subseteq> fst ` set (cg_documents g) \<and>
     dom (map_of (ws_depth st)) \<subseteq> insert (cg_rootDocumentId g) (set (ws_visited st) \<union> set (ws_visiting st)) \<and>
     (\<forall>i n. map_of (ws_depth st) i = Some n \<longrightarrow> n \<le> bound) \<and>
     (\<forall>i \<in> set (ws_visited st). children_below g children st i \<and>
        (i = cg_rootDocumentId g \<or> i \<in> snd ` set children))"

definition walk_grown :: "walk_state \<Rightarrow> walk_state \<Rightarrow> bool" where
  "walk_grown st st' \<longleftrightarrow>
     ws_visiting st' = ws_visiting st \<and> set (ws_visited st) \<subseteq> set (ws_visited st') \<and>
     map_of (ws_depth st) \<subseteq>\<^sub>m map_of (ws_depth st')"

lemma walk_grown_trans: "walk_grown a b \<Longrightarrow> walk_grown b c \<Longrightarrow> walk_grown a c"
  unfolding walk_grown_def using map_le_trans by fastforce

lemma walk_grown_depth: "walk_grown a b \<Longrightarrow> map_of (ws_depth a) i = Some n \<Longrightarrow> map_of (ws_depth b) i = Some n"
  by (auto simp: walk_grown_def map_le_def dom_def)

lemma children_below_grown: "walk_grown a b \<Longrightarrow> children_below g ch a i \<Longrightarrow> children_below g ch b i"
  unfolding children_below_def using walk_grown_depth by (fastforce simp: walk_grown_def)

lemma walk_documents_tree:
  assumes "walk_documents g ch rest i n st = Inr st'" and "walk_ok g ch bound st"
    and "n + rest = Suc bound" and "i = cg_rootDocumentId g \<or> i \<in> snd ` set ch"
  shows "walk_ok g ch bound st' \<and> walk_grown st st' \<and> i \<in> set (ws_visited st') \<and>
    map_of (ws_depth st') i = Some n"
  using assms
proof (induction rest arbitrary: i n st st')
  case 0
  then show ?case by (simp split: if_splits)
next
  case (Suc rest)
  note ok = Suc.prems(2) and walk = Suc.prems(1)
  let ?st1 = "st\<lparr>ws_depth := AList.update i n (ws_depth st)\<rparr>"
  have fresh: "i \<notin> set (ws_visiting st)" and same: "\<forall>m. map_of (ws_depth st) i = Some m \<longrightarrow> m = n"
    using walk by (auto simp: split: if_splits option.splits)
  have le: "map_of (ws_depth st) \<subseteq>\<^sub>m (map_of (ws_depth st))(i \<mapsto> n)"
    using same by (auto simp: map_le_def)
  show ?case
  proof (cases "i \<in> set (ws_visited st)")
    case True
    then have here: "map_of (ws_depth st) i = Some n"
      using ok same by (auto simp: walk_ok_def children_below_def)
    then have "map_of (ws_depth ?st1) = map_of (ws_depth st)"
      by (simp add: update_conv' map_upd_triv)
    moreover have "st' = ?st1"
      using walk fresh same True by (auto simp: Let_def split: if_splits option.splits)
    ultimately show ?thesis
      using ok True here by (simp add: walk_ok_def walk_grown_def children_below_def)
  next
    case False
    obtain d where d: "map_of (cg_documents g) i = Some d"
      using walk fresh same False
      by (cases "map_of (cg_documents g) i") (auto simp: Let_def split: if_splits option.splits)
    let ?f = "\<lambda>task st. case map_of ch (ref_key i (pt_id task)) of
                  None \<Rightarrow> Inr st
                | Some c \<Rightarrow> if c = [] then Inr st else walk_documents g ch rest c (n + 1) st"
    let ?s = "?st1\<lparr>ws_visiting := i # ws_visiting st\<rparr>"
    obtain st2 where fold: "fold_result ?f (pd_tasks d) ?s = Inr st2"
      and st': "st' = st2\<lparr>ws_visiting := removeAll i (ws_visiting st2), ws_visited := i # ws_visited st2\<rparr>"
    proof -
      have "\<not> (case map_of (ws_depth st) i of None \<Rightarrow> False | Some m \<Rightarrow> m \<noteq> n)"
        using same by (simp split: option.split)
      then have "and_then (fold_result ?f (pd_tasks d) ?s) (\<lambda>st2. Inr
          (st2\<lparr>ws_visiting := removeAll i (ws_visiting st2), ws_visited := i # ws_visited st2\<rparr>)) = Inr st'"
        using walk fresh False d by (simp add: Let_def del: fun_upd_apply)
      then show thesis
        using that by (auto simp: and_then_Inr)
    qed
    have start: "walk_ok g ch bound ?s"
    proof -
      have "children_below g ch ?s j" if "children_below g ch st j" for j
      proof -
        have "map_of (ws_depth st) \<subseteq>\<^sub>m map_of (ws_depth ?s)"
          using le by (simp add: update_conv')
        then have "map_of (ws_depth ?s) k = Some m" if "map_of (ws_depth st) k = Some m" for k m
          using that by (auto simp: map_le_def dom_def)
        moreover have "ws_visited ?s = ws_visited st"
          by simp
        ultimately show ?thesis
          using that unfolding children_below_def by metis
      qed
      then show ?thesis
        using ok False Suc.prems(3) by (auto simp: walk_ok_def update_conv')
    qed
    have "walk_ok g ch bound s' \<and> walk_grown s s' \<and>
        (\<forall>t \<in> set ts. \<forall>c. child_of ch i t = Some c \<longrightarrow> c \<in> set (ws_visited s') \<and> map_of (ws_depth s') c = Some (Suc n))"
      if "fold_result ?f ts s = Inr s'" and "walk_ok g ch bound s" for ts s s'
      using that
    proof (induction ts arbitrary: s)
      case Nil
      then show ?case by (simp add: walk_grown_def)
    next
      case (Cons t ts)
      obtain s1 where s1: "?f t s = Inr s1" and rest: "fold_result ?f ts s1 = Inr s'"
        using Cons.prems(1) by (auto simp: result_simps)
      have first: "walk_ok g ch bound s1 \<and> walk_grown s s1 \<and>
          (\<forall>c. child_of ch i t = Some c \<longrightarrow> c \<in> set (ws_visited s1) \<and> map_of (ws_depth s1) c = Some (Suc n))"
      proof (cases "child_of ch i t")
        case None
        then have "s1 = s"
          using s1 by (auto simp: child_of_def split: option.splits if_splits)
        then show ?thesis
          using Cons.prems(2) None by (simp add: walk_grown_def)
      next
        case (Some c)
        then have c: "map_of ch (ref_key i (pt_id t)) = Some c" "c \<noteq> []"
          by (auto simp: child_of_def split: option.splits if_splits)
        then have "walk_documents g ch rest c (n + 1) s = Inr s1" "c \<in> snd ` set ch"
          using s1 by (auto dest: map_of_SomeD simp: image_iff intro!: bexI)
        then show ?thesis
          using Suc.IH [of c "n + 1" s s1] Cons.prems(2) Suc.prems(3) Some by simp
      qed
      then have tail: "walk_ok g ch bound s'" "walk_grown s1 s'"
          "\<forall>t \<in> set ts. \<forall>c. child_of ch i t = Some c \<longrightarrow> c \<in> set (ws_visited s') \<and> map_of (ws_depth s') c = Some (Suc n)"
        using Cons.IH [OF rest] by blast+
      have "walk_grown s s'"
        using first tail(2) walk_grown_trans by blast
      moreover have "c \<in> set (ws_visited s') \<and> map_of (ws_depth s') c = Some (Suc n)"
        if "child_of ch i t = Some c" for c
        using that first tail(2) walk_grown_depth [OF tail(2)] by (auto simp: walk_grown_def)
      ultimately show ?case
        using tail(1,3) by simp
    qed
    from this [OF fold start] have ok2: "walk_ok g ch bound st2" and grown: "walk_grown ?s st2"
      and below: "\<forall>t \<in> set (pd_tasks d). \<forall>c. child_of ch i t = Some c \<longrightarrow>
        c \<in> set (ws_visited st2) \<and> map_of (ws_depth st2) c = Some (Suc n)"
      by blast+
    have here: "map_of (ws_depth st2) i = Some n"
      using walk_grown_depth [OF grown, of i n] by (simp add: update_conv')
    have visiting: "ws_visiting st2 = i # ws_visiting st"
      using grown by (simp add: walk_grown_def)
    have "children_below g ch st' j" if "j \<in> set (ws_visited st')" for j
    proof (cases "j = i")
      case True
      then show ?thesis
        using here below d by (auto simp: children_below_def st')
    next
      case False
      then have "children_below g ch st2 j"
        using that ok2 by (simp add: walk_ok_def st')
      then show ?thesis
        by (auto simp: children_below_def st')
    qed
    moreover have "removeAll i (ws_visiting st2) = ws_visiting st"
      using visiting fresh by simp
    moreover have "i \<in> fst ` set (cg_documents g)"
      using d by (force dest: map_of_SomeD)
    moreover have "i \<notin> set (ws_visited st2)"
      using ok2 visiting by (auto simp: walk_ok_def)
    ultimately have "walk_ok g ch bound st'"
      using ok2 visiting fresh Suc.prems(4) by (auto simp: walk_ok_def st')
    moreover have "walk_grown st st'"
      using grown le fresh visiting by (auto simp: walk_grown_def st' update_conv' intro: map_le_trans)
    ultimately show ?thesis
      using here by (simp add: st')
  qed
qed

text \<open>The two maps of the edges are the two directions of one relation.\<close>

definition edge_maps_ok ::
  "compiled_graph \<Rightarrow> (string \<times> string) list \<times> (string \<times> task_ref) list \<Rightarrow> bool" where
  "edge_maps_ok g maps \<longleftrightarrow>
     (case maps of (ch, pa) \<Rightarrow>
        ch = map (\<lambda>(c, r). (taskRefKey r, c)) pa \<and> distinct (map fst ch) \<and> distinct (map fst pa) \<and>
        (\<forall>(c, r) \<in> set pa. c \<noteq> [] \<and> (\<exists>t. graphTask g r = Inr t \<and> truthy_opt (pt_subPrd t))))"

lemma check_edge_ok:
  assumes "check_edge env g e m = Inr m'" and "edge_maps_ok g m" and "valid_compiled_graph g"
  shows "edge_maps_ok g m'"
proof -
  obtain ch pa where m: "m = (ch, pa)"
    by (cases m)
  obtain t d where t: "graphTask g (ch_parentTask e) = Inr t" "truthy_opt (pt_subPrd t)"
    and d: "map_of (cg_documents g) (ch_childDocument e) = Some d"
    and fresh: "map_of ch (taskRefKey (ch_parentTask e)) = None" "map_of pa (pd_id d) = None"
    and m': "m' = (ch @ [(taskRefKey (ch_parentTask e), pd_id d)], pa @ [(pd_id d, ch_parentTask e)])"
    using assms(1)
    by (auto simp: check_edge_def m result_simps Let_def split: if_splits option.splits document_kind.splits)
  have "prd_slug (pd_id d)"
    using assms(3) map_of_SomeD [OF d] by (auto simp: valid_compiled_graph_def valid_prd_document_def list_all_iff)
  then have "pd_id d \<noteq> []"
    by (rule slug_nonempty)
  then show ?thesis
    using assms(2) t fresh by (auto simp: edge_maps_ok_def m m' map_of_eq_None_iff image_iff)
qed

lemma check_tasks_ok:
  "fold_result (check_task ch) xs () = Inr () \<Longrightarrow> (i, t) \<in> set xs \<Longrightarrow>
   truthy_opt (pt_subPrd t) \<longleftrightarrow> map_of ch (ref_key i (pt_id t)) \<noteq> None"
  by (induction xs) (auto simp: result_simps check_task_def Let_def split: if_splits)

lemma validate_cases:
  assumes "validateChildRuntimeGraph env candidate overrides = Inr v"
  obtains l st where "valid_compiled_graph (rg_graph candidate)" "effectiveLimits overrides = Inr l"
    "vg_graph v = candidate" "vg_depthByDocument v = ws_depth st"
    "edge_maps_ok (rg_graph candidate) (vg_childDocumentByParentTask v, vg_parentTaskByChildDocument v)"
    "fold_result (check_task (vg_childDocumentByParentTask v)) (all_tasks (rg_graph candidate)) () = Inr ()"
    "walk_documents (rg_graph candidate) (vg_childDocumentByParentTask v) (Suc (nat (lm_maxDepth l)))
       (cg_rootDocumentId (rg_graph candidate)) 0
       \<lparr>ws_depth = [(cg_rootDocumentId (rg_graph candidate), 0)], ws_visiting = [], ws_visited = []\<rparr> = Inr st"
    "length (ws_visited st) = length (cg_documents (rg_graph candidate))"
proof -
  obtain l ch pa st where v: "valid_compiled_graph (rg_graph candidate)" "effectiveLimits overrides = Inr l"
    and fold: "fold_result (check_edge env (rg_graph candidate)) (cg_childEdges (rg_graph candidate)) ([], []) = Inr (ch, pa)"
    and rest: "fold_result (check_task ch) (all_tasks (rg_graph candidate)) () = Inr ()"
      "walk_documents (rg_graph candidate) ch (Suc (nat (lm_maxDepth l))) (cg_rootDocumentId (rg_graph candidate)) 0
         \<lparr>ws_depth = [(cg_rootDocumentId (rg_graph candidate), 0)], ws_visiting = [], ws_visited = []\<rparr> = Inr st"
      "length (ws_visited st) = length (cg_documents (rg_graph candidate))"
      "v = \<lparr>vg_graph = candidate, vg_depthByDocument = ws_depth st,
            vg_parentTaskByChildDocument = pa, vg_childDocumentByParentTask = ch\<rparr>"
    using assms
    by (auto simp: validateChildRuntimeGraph_def valid_runtime_graph_def Let_def result_simps
        simp del: walk_documents.simps split: if_splits)
  have "edge_maps_ok (rg_graph candidate) (ch, pa)"
  proof (rule fold_result_keeps [OF fold])
    show "edge_maps_ok (rg_graph candidate) ([], [])"
      by (simp add: edge_maps_ok_def)
  qed (rule check_edge_ok [OF _ _ v(1)])
  then show thesis
    using that [OF v, of st] rest by simp
qed

lemma validate_graph: "validateChildRuntimeGraph env g overrides = Inr v \<Longrightarrow> vg_graph v = g"
  by (erule validate_cases) simp

section \<open>The property\<close>

definition document_tree :: "compiled_graph \<Rightarrow> int \<Rightarrow> validated_graph \<Rightarrow> bool" where
  "document_tree g bound v \<longleftrightarrow>
     (let depth = map_of (vg_depthByDocument v); child = map_of (vg_childDocumentByParentTask v);
          parent = map_of (vg_parentTaskByChildDocument v) in
      dom depth = fst ` set (cg_documents g) \<and>
      depth (cg_rootDocumentId g) = Some 0 \<and>
      (\<forall>d n. depth d = Some n \<longrightarrow> int n \<le> bound) \<and>
      (\<forall>d \<in> dom depth. parent d = None \<longleftrightarrow> d = cg_rootDocumentId g) \<and>
      (\<forall>d r. parent d = Some r \<longrightarrow>
         child (taskRefKey r) = Some d \<and> (\<exists>t. graphTask g r = Inr t \<and> truthy_opt (pt_subPrd t)) \<and>
         (\<exists>n. depth (ref_documentId r) = Some n \<and> depth d = Some (Suc n))) \<and>
      (\<forall>(i, t) \<in> set (all_tasks g). truthy_opt (pt_subPrd t) \<longleftrightarrow> child (ref_key i (pt_id t)) \<noteq> None))"

lemma validated_document_tree:
  assumes "validateChildRuntimeGraph env g overrides = Inr v" and "distinct (map fst (cg_documents (rg_graph g)))"
  shows "document_tree (rg_graph g) (or_else (lo_maxDepth overrides) 8) v"
proof -
  let ?g = "rg_graph g"
  obtain l st where lim: "effectiveLimits overrides = Inr l" and depth: "vg_depthByDocument v = ws_depth st"
    and maps: "edge_maps_ok ?g (vg_childDocumentByParentTask v, vg_parentTaskByChildDocument v)"
    and tasks: "fold_result (check_task (vg_childDocumentByParentTask v)) (all_tasks ?g) () = Inr ()"
    and walk: "walk_documents ?g (vg_childDocumentByParentTask v) (Suc (nat (lm_maxDepth l))) (cg_rootDocumentId ?g) 0
       \<lparr>ws_depth = [(cg_rootDocumentId ?g, 0)], ws_visiting = [], ws_visited = []\<rparr> = Inr st"
    and all: "length (ws_visited st) = length (cg_documents ?g)"
    using validate_cases [OF assms(1)] by metis
  let ?ch = "vg_childDocumentByParentTask v" and ?pa = "vg_parentTaskByChildDocument v"
  have "walk_ok ?g ?ch (nat (lm_maxDepth l)) st \<and>
      walk_grown \<lparr>ws_depth = [(cg_rootDocumentId ?g, 0)], ws_visiting = [], ws_visited = []\<rparr> st \<and>
      cg_rootDocumentId ?g \<in> set (ws_visited st) \<and> map_of (ws_depth st) (cg_rootDocumentId ?g) = Some 0"
    by (rule walk_documents_tree [OF walk]) (simp_all add: walk_ok_def)
  then have st: "walk_ok ?g ?ch (nat (lm_maxDepth l)) st" "ws_visiting st = []"
      "cg_rootDocumentId ?g \<in> set (ws_visited st)" "map_of (ws_depth st) (cg_rootDocumentId ?g) = Some 0"
    by (simp_all add: walk_grown_def)
  have "card (set (ws_visited st)) = card (fst ` set (cg_documents ?g))"
    using st(1) all distinct_card [OF assms(2)] by (simp add: walk_ok_def distinct_card)
  then have visited: "set (ws_visited st) = fst ` set (cg_documents ?g)"
    using st(1) by (intro card_subset_eq) (auto simp: walk_ok_def)
  have dom: "dom (map_of (ws_depth st)) = fst ` set (cg_documents ?g)"
  proof
    show "dom (map_of (ws_depth st)) \<subseteq> fst ` set (cg_documents ?g)"
      using st(1-3) visited by (auto simp: walk_ok_def)
    show "fst ` set (cg_documents ?g) \<subseteq> dom (map_of (ws_depth st))"
      using st(1) visited by (auto simp: walk_ok_def children_below_def)
  qed
  have bound: "int n \<le> or_else (lo_maxDepth overrides) 8" if "map_of (ws_depth st) d = Some n" for d n
  proof -
    have "lm_maxDepth l = or_else (lo_maxDepth overrides) 8" "0 \<le> lm_maxDepth l"
      using lim by (auto simp: effectiveLimits_def Let_def split: if_splits)
    moreover have "n \<le> nat (lm_maxDepth l)"
      using st(1) that by (simp add: walk_ok_def)
    ultimately show ?thesis
      by linarith
  qed
  have parent: "map_of ?ch (taskRefKey r) = Some d \<and> (\<exists>t. graphTask ?g r = Inr t \<and> truthy_opt (pt_subPrd t)) \<and>
      (\<exists>n. map_of (ws_depth st) (ref_documentId r) = Some n \<and> map_of (ws_depth st) d = Some (Suc n))"
    if "map_of ?pa d = Some r" for d r
  proof -
    have in_pa: "(d, r) \<in> set ?pa"
      using that by (rule map_of_SomeD)
    then obtain t where t: "graphTask ?g r = Inr t" "truthy_opt (pt_subPrd t)" "d \<noteq> []"
      using maps by (auto simp: edge_maps_ok_def)
    have "(taskRefKey r, d) \<in> set ?ch"
      using in_pa maps by (force simp: edge_maps_ok_def)
    moreover have "distinct (map fst ?ch)"
      using maps unfolding edge_maps_ok_def prod.case by blast
    ultimately have ch: "map_of ?ch (taskRefKey r) = Some d"
      by simp
    obtain D where D: "map_of (cg_documents ?g) (ref_documentId r) = Some D"
        "t \<in> set (pd_tasks D)" "pt_id t = ref_taskId r"
      using t(1) by (auto simp: graphTask_def taskFor_def split: option.splits if_splits dest!: find_SomeD)
    have "ref_documentId r \<in> set (ws_visited st)"
      using D(1) visited by (force dest: map_of_SomeD)
    then have "children_below ?g ?ch st (ref_documentId r)"
      using st(1) by (simp add: walk_ok_def)
    moreover have "child_of ?ch (ref_documentId r) t = Some d"
      using ch t(3) D(3) by (simp add: child_of_def taskRefKey_def)
    ultimately show ?thesis
      using ch t D by (auto simp: children_below_def)
  qed
  have orphan: "map_of ?pa d = None \<longleftrightarrow> d = cg_rootDocumentId ?g" if "d \<in> fst ` set (cg_documents ?g)" for d
  proof
    assume none: "map_of ?pa d = None"
    then have "d \<notin> snd ` set ?ch"
      using maps by (force simp: edge_maps_ok_def map_of_eq_None_iff)
    then show "d = cg_rootDocumentId ?g"
      using that visited st(1) by (auto simp: walk_ok_def)
  next
    assume "d = cg_rootDocumentId ?g"
    then show "map_of ?pa d = None"
      using parent [of d] st(4) by (cases "map_of ?pa d") auto
  qed
  show ?thesis
    unfolding document_tree_def Let_def depth
    using dom st(4) bound orphan parent check_tasks_ok [OF tasks] by auto
qed

text \<open>The task a child document refines, and its level.\<close>

lemma child_of_task:
  assumes v: "validateChildRuntimeGraph env g overrides = Inr v" and docs: "distinct (map fst (cg_documents (rg_graph g)))"
    and child: "map_of (vg_childDocumentByParentTask v) (taskRefKey r) = Some c"
    and task: "graphTask (rg_graph g) r = Inr t"
  shows "truthy_opt (pt_subPrd t) \<and> (\<exists>n. map_of (vg_depthByDocument v) (ref_documentId r) = Some n \<and>
    map_of (vg_depthByDocument v) c = Some (Suc n) \<and> int (Suc n) \<le> or_else (lo_maxDepth overrides) 8)"
proof -
  let ?g = "rg_graph g"
  have slugs: "\<forall>(i, d) \<in> set (cg_documents ?g). prd_slug i"
    using v by (auto elim!: validate_cases simp: valid_compiled_graph_def list_all_iff)
  have maps: "edge_maps_ok ?g (vg_childDocumentByParentTask v, vg_parentTaskByChildDocument v)"
    using v by (rule validate_cases)
  have tree: "document_tree ?g (or_else (lo_maxDepth overrides) 8) v"
    by (rule validated_document_tree [OF v docs])
  have found: "\<exists>d. (ref_documentId q, d) \<in> set (cg_documents ?g) \<and> s \<in> set (pd_tasks d) \<and> pt_id s = ref_taskId q"
    if "graphTask ?g q = Inr s" for q s
    using that by (auto simp: graphTask_def taskFor_def split: option.splits if_splits dest!: find_SomeD map_of_SomeD)
  have "(taskRefKey r, c) \<in> set (vg_childDocumentByParentTask v)"
    using child by (rule map_of_SomeD)
  then obtain q where q: "(c, q) \<in> set (vg_parentTaskByChildDocument v)" "taskRefKey q = taskRefKey r"
    using maps by (auto simp: edge_maps_ok_def)
  then have parent: "map_of (vg_parentTaskByChildDocument v) c = Some q"
    using maps by (auto simp: edge_maps_ok_def)
  then obtain s n where s: "graphTask ?g q = Inr s"
    and n: "map_of (vg_depthByDocument v) (ref_documentId q) = Some n"
      "map_of (vg_depthByDocument v) c = Some (Suc n)" "int (Suc n) \<le> or_else (lo_maxDepth overrides) 8"
    using tree unfolding document_tree_def Let_def by metis
  have "ref_documentId q = ref_documentId r"
  proof -
    have "prd_slug (ref_documentId q)" "prd_slug (ref_documentId r)"
      using found [OF s] found [OF task] slugs by auto
    then show ?thesis
      using q(2) by (simp add: taskRefKey_def ref_key_inject)
  qed
  moreover have "(ref_documentId r, t) \<in> set (all_tasks ?g)" "pt_id t = ref_taskId r"
    using found [OF task] by (auto simp: all_tasks_def)
  then have "truthy_opt (pt_subPrd t)"
    using tree child unfolding document_tree_def Let_def by (auto simp: taskRefKey_def)
  ultimately show ?thesis
    using n by simp
qed


definition tree_sample_documents :: compiled_graph where
  "tree_sample_documents =
     \<lparr>cg_rootDocumentId = ''root'', cg_rootFile = ''root'',
      cg_documents = [(''root'', sample_root_file), (''kid'', sample_kid_file)],
      cg_canonicalReferences = [(''root'', ''root''), (''kid'', ''kid'')],
      cg_dependencyEdges = [\<lparr>de_task = sample_ref ''root'' ''b'', de_dependsOn = sample_ref ''root'' ''a''\<rparr>],
      cg_childEdges = [\<lparr>ch_parentTask = sample_ref ''root'' ''a'', ch_childDocument = ''kid''\<rparr>],
      cg_topologicalOrder = [sample_ref ''kid'' ''c'', sample_ref ''root'' ''a'', sample_ref ''root'' ''b''],
      cg_eligibleTasks = [], cg_parallelGroups = []\<rparr>"

definition tree_sample_graph :: runtime_graph where
  "tree_sample_graph =
     \<lparr>rg_graph = tree_sample_documents, rg_diagnostics = [], rg_definitionHash = replicate 64 (CHR ''a''),
      rg_graphHash = replicate 64 (CHR ''a'')\<rparr>"

definition sample_sched_env :: sched_env where
  "sample_sched_env =
     \<lparr>se_declared = \<lambda>file prd. prd, se_identity = concat, se_manifestHash = \<lambda>g m. replicate 64 (CHR ''a'')\<rparr>"

definition tree_sample_validated :: validated_graph where
  "tree_sample_validated =
     \<lparr>vg_graph = tree_sample_graph, vg_depthByDocument = [(''root'', 0), (''kid'', 1)],
      vg_parentTaskByChildDocument = [(''kid'', sample_ref ''root'' ''a'')],
      vg_childDocumentByParentTask = [(''root/a'', ''kid'')]\<rparr>"

lemma tree_sample_validates:
  "validateChildRuntimeGraph sample_sched_env tree_sample_graph no_overrides = Inr tree_sample_validated"
  by code_simp


end
