(* ===== verification/ChildScheduler.thy ===== *)
theory ChildScheduler
  imports ChildRuns ChildGraph
begin

text \<open>
  \<^verbatim>\<open>packages/orchestration/src/child-scheduler.ts\<close>, its decisions over a checked graph: the
  reservation of a child run, and what a run works on next when tasks are refined by child
  documents. A decision reads the ledger in several transactions, so it has a ledger for each.
  The digests are arguments; of the manifest the defaults, profiles and budgets of the documents
  are left to the digest.
\<close>

section \<open>Reservation from the graph\<close>

definition deterministicChildIdentity ::
  "sched_env \<Rightarrow> string \<Rightarrow> string \<Rightarrow> task_ref \<Rightarrow> string \<Rightarrow> string \<Rightarrow> string \<times> string" where
  "deterministicChildIdentity env workspaceId parentRunId parentTask childDocumentId definitionHash =
     (let digest = se_identity env [''ralph-child-run-v1'', workspaceId, parentRunId,
                     ref_documentId parentTask, ref_taskId parentTask, ref_taskSpecHash parentTask,
                     childDocumentId, definitionHash] in
      (''child-'' @ take 40 digest, ''child-link-'' @ digest))"

definition directTaskMaterialization :: "prd_document \<Rightarrow> child_task list" where
  "directTaskMaterialization document =
     map (\<lambda>task. \<lparr>kt_documentId = pd_id document, kt_taskId = pt_id task,
                  kt_status = initial_status (pt_status task),
                  kt_markerContentHash = pd_contentHash document\<rparr>) (pd_tasks document)"

definition initialObservability :: "prd_document \<Rightarrow> child_observability result" where
  "initialObservability document =
     parse_child_observability
       \<lparr>gb_progress =
          \<lparr>gp_completed = length (filter (\<lambda>t. pt_status t = Marker_completed) (pd_tasks document)),
           gp_total = length (pd_tasks document), gp_currentDocumentId = None,
           gp_currentTaskId = None\<rparr>,
        gb_lastSourceEventSequence = 0, gb_lastLogSequence = 0, gb_watchdogStatus = Cw_idle,
        gb_lastError = None\<rparr>"

definition childMaterializationManifest ::
  "runtime_graph \<Rightarrow> string \<Rightarrow> task_ref \<Rightarrow> string \<Rightarrow> string \<Rightarrow> int \<Rightarrow> manifest result" where
  "childMaterializationManifest g parentRunId parentTask childDocumentId inheritedOptionsHash depth =
     and_then (graphTask (rg_graph g) parentTask) (\<lambda>task.
       case (map_of (cg_documents (rg_graph g)) (ref_documentId parentTask),
             map_of (cg_documents (rg_graph g)) childDocumentId) of
         (Some parentDocument, Some child) \<Rightarrow>
           Inr \<lparr>mf_graphDefinitionHash = rg_definitionHash g, mf_parentRunId = parentRunId,
                mf_parentTask = parentTask, mf_childDocumentId = pd_id child,
                mf_childRootPrdFile = pd_file child,
                mf_childTaskSpecHashes = map (\<lambda>t. (pt_id t, pt_taskSpecHash t)) (pd_tasks child),
                mf_expectedDirectChildren = int (length (filter (\<lambda>t. pt_subPrd t \<noteq> None) (pd_tasks child))),
                mf_inheritedOptionsHash = inheritedOptionsHash, mf_depth = depth\<rparr>
       | _ \<Rightarrow> Inl (schedulingError ''RALPH_CHILD_GRAPH_DOCUMENT_MISSING''))"

record 'o preauthored_input =
  ei_workspaceId :: string
  ei_parentRunId :: string
  ei_parentTask :: task_ref
  ei_graph :: runtime_graph
  ei_effectiveOptions :: "'o effective_options"
  ei_limits :: limit_overrides
  ei_parentPolicy :: "parent_policy option"
  ei_now :: int
  ei_childRunId :: "string option"
  ei_linkId :: "string option"

text \<open>The request to the ledger, with the manifest it is made from.\<close>

definition child_request ::
  "sched_env \<Rightarrow> 'o preauthored_input \<Rightarrow> ('o reserve_input \<times> manifest) result" where
  "child_request env input =
     and_then (validateChildRuntimeGraph env (ei_graph input) (ei_limits input)) (\<lambda>validated.
     (let g = vg_graph validated; options = eo_contentHash (ei_effectiveOptions input) in
      case map_of (vg_childDocumentByParentTask validated) (taskRefKey (ei_parentTask input)) of
        None \<Rightarrow> Inl (schedulingError ''RALPH_CHILD_PREAUTHORED_REFERENCE_REQUIRED'')
      | Some childDocumentId \<Rightarrow>
          if childDocumentId = [] then Inl (schedulingError ''RALPH_CHILD_PREAUTHORED_REFERENCE_REQUIRED'')
          else
            (case (map_of (cg_documents (rg_graph g)) childDocumentId,
                   map_of (vg_depthByDocument validated) childDocumentId) of
               (Some child, Some depth) \<Rightarrow>
                 if depth < 1 then Inl (schedulingError ''RALPH_CHILD_GRAPH_DOCUMENT_INVALID'')
                 else
                   and_then (childMaterializationManifest g (ei_parentRunId input) (ei_parentTask input)
                              childDocumentId options (int depth)) (\<lambda>manifest.
                   and_then (initialObservability child) (\<lambda>observability.
                   (let (childRunId, linkId) = deterministicChildIdentity env (ei_workspaceId input)
                          (ei_parentRunId input) (ei_parentTask input) childDocumentId
                          (rg_definitionHash g) in
                    Inr
                      (\<lparr>ri_linkId = or_else (ei_linkId input) linkId,
                        ri_childRunId = or_else (ei_childRunId input) childRunId,
                        ri_workspaceId = ei_workspaceId input, ri_parentRunId = ei_parentRunId input,
                        ri_parentDocumentId = ref_documentId (ei_parentTask input),
                        ri_parentTaskId = ref_taskId (ei_parentTask input),
                        ri_childDocumentId = childDocumentId, ri_childRootPrdFile = pd_file child,
                        ri_graphDefinitionHash = rg_definitionHash g, ri_graphHash = rg_graphHash g,
                        ri_inheritedOptionsHash = options,
                        ri_materializationHash = se_manifestHash env g manifest,
                        ri_depth = int depth,
                        ri_expectedDirectChildren = mf_expectedDirectChildren manifest,
                        ri_parentPolicy = or_else (ei_parentPolicy input) Pause_with_parent,
                        ri_effectiveOptions = ei_effectiveOptions input,
                        ri_tasks = directTaskMaterialization child,
                        ri_observability = observability, ri_createdAt = ei_now input\<rparr>,
                       manifest))))
             | _ \<Rightarrow> Inl (schedulingError ''RALPH_CHILD_GRAPH_DOCUMENT_INVALID''))))"

definition reservePreauthoredChildRun ::
  "sched_env \<Rightarrow> 'o child_env \<Rightarrow> 'o child_db \<Rightarrow> 'o preauthored_input \<Rightarrow> (nat \<Rightarrow> string) \<Rightarrow>
   ('o child_db \<times> child_link \<times> bool \<times> manifest) result" where
  "reservePreauthoredChildRun senv env db input ids =
     and_then (child_request senv input) (\<lambda>(request, manifest).
     and_then (reserveChildRun env db request ids) (\<lambda>(db', l, created).
     Inr (db', l, created, manifest)))"

section \<open>Decisions\<close>

datatype child_decision =
    Resume_child child_link | Reserve_child string | Verify_parent child_link
  | Blocked_by_child child_link | Execute_parent

text \<open>The deepest resumable link is read first, the link of the task after it.\<close>

definition decideHierarchicalChildWork ::
  "sched_env \<Rightarrow> 'o child_env \<Rightarrow> 'o child_db \<Rightarrow> 'o child_db \<Rightarrow> string \<Rightarrow> string \<Rightarrow> task_ref \<Rightarrow>
   runtime_graph \<Rightarrow> child_decision result" where
  "decideHierarchicalChildWork senv env db db' rootRunId parentRunId parentTask graph =
     and_then (validateChildRuntimeGraph senv graph no_overrides) (\<lambda>validated.
     and_then (findDeepestResumableChildRun env db rootRunId) (\<lambda>deepest.
     case deepest of
       Some l \<Rightarrow> Inr (Resume_child l)
     | None \<Rightarrow>
         (case map_of (vg_childDocumentByParentTask validated) (taskRefKey parentTask) of
            None \<Rightarrow> Inr Execute_parent
          | Some childDocumentId \<Rightarrow>
              if childDocumentId = [] then Inr Execute_parent
              else
                and_then (findLinkForParentInDatabase db' parentRunId (ref_documentId parentTask)
                           (ref_taskId parentTask)) (\<lambda>existing.
                case existing of
                  None \<Rightarrow> Inr (Reserve_child childDocumentId)
                | Some l \<Rightarrow>
                    if ln_status l = Child_passed then Inr (Verify_parent l)
                    else if ln_status l = Child_failed \<or> ln_status l = Child_cancelled
                    then Inr (Blocked_by_child l)
                    else Inr (Resume_child l)))))"

datatype scoped_decision =
    Scope_resume_child child_link | Scope_reserve_child task_ref string
  | Scope_execute_task task_ref selection_reason | Scope_blocked_by_child task_ref child_link
  | Scope_complete string | Scope_waiting string

text \<open>The records of the scope, a later one replacing an earlier one of the same task.\<close>

definition scope_records :: "task_record list \<Rightarrow> string \<Rightarrow> string \<Rightarrow> task_record list" where
  "scope_records records runId documentId =
     filter (\<lambda>r. tr_runId r = runId \<and> tr_documentId r = documentId) records"

definition record_by_task :: "task_record list \<Rightarrow> string \<rightharpoonup> task_record" where
  "record_by_task records = js_map (map (\<lambda>r. (tr_taskId r, r)) records)"

definition dependency_passed ::
  "compiled_graph \<Rightarrow> (string \<rightharpoonup> task_record) \<Rightarrow> string \<Rightarrow> string \<Rightarrow> bool" where
  "dependency_passed graph byTask documentId taskId =
     list_all (\<lambda>edge. case byTask (ref_taskId (de_dependsOn edge)) of
                        None \<Rightarrow> False | Some r \<Rightarrow> completed (tr_status r))
       (filter (\<lambda>edge. ref_documentId (de_task edge) = documentId \<and> ref_taskId (de_task edge) = taskId)
         (cg_dependencyEdges graph))"

definition scope_order :: "compiled_graph \<Rightarrow> string \<Rightarrow> task_ref list" where
  "scope_order graph documentId = filter (\<lambda>r. ref_documentId r = documentId) (cg_topologicalOrder graph)"

definition scope_resumable :: "compiled_graph \<Rightarrow> (string \<rightharpoonup> task_record) \<Rightarrow> string \<Rightarrow> task_ref option" where
  "scope_resumable graph byTask documentId =
     find (\<lambda>r. case byTask (ref_taskId r) of None \<Rightarrow> False | Some t \<Rightarrow> resumable (tr_status t))
       (scope_order graph documentId)"

definition stopped_status :: "task_status \<Rightarrow> bool" where
  "stopped_status s \<longleftrightarrow> s = Task_blocked \<or> s = Task_rejected \<or> s = Task_cancelled"

definition scope_eligible :: "compiled_graph \<Rightarrow> (string \<rightharpoonup> task_record) \<Rightarrow> string \<Rightarrow> task_ref option" where
  "scope_eligible graph byTask documentId =
     (case scope_resumable graph byTask documentId of
        Some r \<Rightarrow> Some r
      | None \<Rightarrow>
          find (\<lambda>r. case byTask (ref_taskId r) of
                      None \<Rightarrow> False
                    | Some t \<Rightarrow> \<not> completed (tr_status t) \<and> \<not> stopped_status (tr_status t) \<and>
                        dependency_passed graph byTask documentId (ref_taskId r))
            (scope_order graph documentId))"

definition deeper_child :: "string \<Rightarrow> child_link option \<Rightarrow> child_link option" where
  "deeper_child scopeRunId deepest =
     (case deepest of
        None \<Rightarrow> None
      | Some l \<Rightarrow> if ln_childRunId l \<noteq> scopeRunId then Some l else None)"

definition selectScopedChildWork ::
  "sched_env \<Rightarrow> 'o child_env \<Rightarrow> 'o child_db \<Rightarrow> 'o child_db \<Rightarrow> string \<Rightarrow> string \<Rightarrow> string \<Rightarrow>
   runtime_graph \<Rightarrow> task_record list \<Rightarrow> scoped_decision result" where
  "selectScopedChildWork senv env db db' rootRunId scopeRunId documentId graph records =
     and_then (validateChildRuntimeGraph senv graph no_overrides) (\<lambda>validated.
     (let g = rg_graph (vg_graph validated) in
      case map_of (cg_documents g) documentId of
        None \<Rightarrow> Inl (schedulingError ''RALPH_CHILD_GRAPH_DOCUMENT_MISSING'')
      | Some document \<Rightarrow>
          and_then (findDeepestResumableChildRun env db rootRunId) (\<lambda>deepest.
          case deeper_child scopeRunId deepest of
            Some l \<Rightarrow> Inr (Scope_resume_child l)
          | None \<Rightarrow>
              (let scoped = scope_records records scopeRunId documentId; byTask = record_by_task scoped in
               if \<not> list_all (\<lambda>t. byTask (pt_id t) \<noteq> None) (pd_tasks document)
               then Inl (schedulingError ''RALPH_CHILD_SCOPE_TASK_NOT_MATERIALIZED'')
               else
                 (case scope_eligible g byTask documentId of
                    None \<Rightarrow>
                      if list_all (\<lambda>r. case byTask (tr_taskId r) of
                                         None \<Rightarrow> True | Some t \<Rightarrow> completed (tr_status t)) scoped
                      then Inr (Scope_complete documentId) else Inr (Scope_waiting documentId)
                  | Some task \<Rightarrow>
                      (let run = Scope_execute_task task
                         (if scope_resumable g byTask documentId \<noteq> None then Reason_resume else Reason_eligible) in
                       case map_of (vg_childDocumentByParentTask validated) (taskRefKey task) of
                         None \<Rightarrow> Inr run
                       | Some childDocumentId \<Rightarrow>
                           if childDocumentId = [] then Inr run
                           else
                             and_then (findLinkForParentInDatabase db' scopeRunId (ref_documentId task)
                                        (ref_taskId task)) (\<lambda>existing.
                             case existing of
                               None \<Rightarrow> Inr (Scope_reserve_child task childDocumentId)
                             | Some l \<Rightarrow>
                                 if ln_status l = Child_failed \<or> ln_status l = Child_cancelled
                                 then Inr (Scope_blocked_by_child task l)
                                 else if ln_status l \<noteq> Child_passed then Inr (Scope_resume_child l)
                                 else Inr run)))))))"

definition assertChildPassedBeforeParentVerification ::
  "sched_env \<Rightarrow> 'o child_env \<Rightarrow> 'o child_db \<Rightarrow> 'o child_db \<Rightarrow> string \<Rightarrow> task_ref \<Rightarrow> runtime_graph \<Rightarrow>
   child_link option result" where
  "assertChildPassedBeforeParentVerification senv env db db' parentRunId parentTask graph =
     and_then (validateChildRuntimeGraph senv graph no_overrides) (\<lambda>validated.
     case map_of (vg_childDocumentByParentTask validated) (taskRefKey parentTask) of
       None \<Rightarrow> Inr None
     | Some childDocumentId \<Rightarrow>
         if childDocumentId = [] then Inr None
         else
           and_then (assertParentChildCompletionReady env db db'
                      (parentRunId, ref_documentId parentTask, ref_taskId parentTask) childDocumentId)
             (\<lambda>l. Inr (Some l)))"

definition childConcurrencyAvailable ::
  "'o child_env \<Rightarrow> 'o child_db \<Rightarrow> string \<Rightarrow> int \<Rightarrow> (bool \<times> nat \<times> int) result" where
  "childConcurrencyAvailable env db rootRunId maximum =
     (if \<not> safe_int maximum \<or> maximum < 1 then Inl ZodError
      else
        and_then (listChildRunTree env db rootRunId) (\<lambda>links.
        (let active = count_status [Child_starting, Child_running] links in
         Inr (int active < maximum, active, maximum))))"

definition directChildOwnership ::
  "'o child_db \<Rightarrow> string \<Rightarrow> (string \<times> parent_policy \<times> bool) list result" where
  "directChildOwnership db parentRunId =
     and_then (listDirectChildRunLinks db parentRunId) (\<lambda>links.
       Inr (map (\<lambda>l. (ln_childRunId l, ln_parentPolicy l, isTerminalChildRunStatus (ln_status l))) links))"

text \<open>
  A graceful stop asks the runs of the tree to stop, the deepest first. The port that stops a run
  may be missing, acts on a state of its own and may throw.
\<close>

definition requestGracefulChildTreeStop ::
  "'o child_env \<Rightarrow> 'o child_db \<Rightarrow> string \<Rightarrow> (child_link \<Rightarrow> 'w \<Rightarrow> 'w result) option \<Rightarrow> 'w \<Rightarrow>
   ('w \<times> string list) result" where
  "requestGracefulChildTreeStop env db rootRunId requestStop w =
     and_then (listChildRunTree env db rootRunId) (\<lambda>links.
     (let ordered = sort_by (\<lambda>a b. ln_depth b < ln_depth a \<or>
                               ln_depth a = ln_depth b \<and> ne_collate env (ln_id a) (ln_id b))
                      (filter (\<lambda>l. \<not> isTerminalChildRunStatus (ln_status l)) links) in
      case requestStop of
        None \<Rightarrow> Inr (w, [])
      | Some stop \<Rightarrow>
          and_then (fold_result stop ordered w) (\<lambda>w'. Inr (w', map ln_childRunId ordered))))"

section \<open>Facts on decisions\<close>

lemma record_by_task_Some: "record_by_task rs i = Some r \<Longrightarrow> r \<in> set rs \<and> tr_taskId r = i"
  by (auto simp: record_by_task_def js_map_def dest!: map_of_SomeD)

lemma record_by_task_None: "record_by_task rs i = None \<longleftrightarrow> i \<notin> tr_taskId ` set rs"
  by (simp add: record_by_task_def js_map_def map_of_eq_None_iff rev_map [symmetric] image_image comp_def)

definition open_task :: "(string \<rightharpoonup> task_record) \<Rightarrow> task_ref \<Rightarrow> bool" where
  "open_task byTask r \<longleftrightarrow>
     (\<exists>t. byTask (ref_taskId r) = Some t \<and> \<not> completed (tr_status t) \<and> \<not> stopped_status (tr_status t))"

lemma resumable_goes_on: "resumable s \<Longrightarrow> \<not> completed s \<and> \<not> stopped_status s"
  by (auto simp: resumable_def completed_def stopped_status_def)

lemma scope_resumable_open:
  "scope_resumable g byTask d = Some r \<Longrightarrow> r \<in> set (scope_order g d) \<and> open_task byTask r"
  by (auto simp: scope_resumable_def open_task_def resumable_goes_on split: option.splits dest!: find_SomeD)

lemma scope_eligible_open:
  "scope_eligible g byTask d = Some r \<Longrightarrow>
   r \<in> set (scope_order g d) \<and> open_task byTask r \<and>
   (scope_resumable g byTask d = None \<longrightarrow> dependency_passed g byTask d (ref_taskId r))"
  using scope_resumable_open [of g byTask d r]
  by (auto simp: scope_eligible_def open_task_def split: option.splits dest!: find_SomeD)

lemma found_for_parent:
  "findLinkForParentInDatabase db i d t = Inr (Some l) \<Longrightarrow> l \<in> set (xd_links db) \<and> parent_key l = (i, d, t)"
  by (auto simp: findLinkForParentInDatabase_def link_read_def linkFromRow_def result_simps
      split: option.splits if_splits dest: find_SomeD)

lemma none_for_parent:
  "findLinkForParentInDatabase db i d t = Inr None \<Longrightarrow> \<forall>l \<in> set (xd_links db). parent_key l \<noteq> (i, d, t)"
  by (auto simp: findLinkForParentInDatabase_def link_read_def result_simps find_None_conv split: option.splits)

text \<open>The first task of a scope that is not done has its dependencies behind it.\<close>

definition task_finished :: "(string \<rightharpoonup> task_record) \<Rightarrow> task_ref \<Rightarrow> bool" where
  "task_finished byTask r \<longleftrightarrow> (\<exists>t. byTask (ref_taskId r) = Some t \<and> completed (tr_status t))"

definition task_stopped :: "(string \<rightharpoonup> task_record) \<Rightarrow> task_ref \<Rightarrow> bool" where
  "task_stopped byTask r \<longleftrightarrow> (\<exists>t. byTask (ref_taskId r) = Some t \<and> stopped_status (tr_status t))"

lemma scope_finished_or_stopped:
  assumes first: "dependencies_first (cg_dependencyEdges g) [] (cg_topologicalOrder g)"
    and inside: "\<forall>e \<in> set (cg_dependencyEdges g). ref_documentId (de_dependsOn e) = ref_documentId (de_task e)"
    and all: "\<forall>r \<in> set (scope_order g d). byTask (ref_taskId r) \<noteq> None"
    and none: "scope_eligible g byTask d = None"
    and go: "\<forall>r \<in> set (scope_order g d). \<not> task_stopped byTask r"
  shows "\<forall>r \<in> set (scope_order g d). task_finished byTask r"
proof (rule ccontr)
  let ?P = "\<lambda>r. ref_documentId r = d \<and> \<not> task_finished byTask r"
  assume "\<not> (\<forall>r \<in> set (scope_order g d). task_finished byTask r)"
  then have "find ?P (cg_topologicalOrder g) \<noteq> None"
    by (auto simp: find_None_conv scope_order_def)
  then obtain xs r ys where order: "cg_topologicalOrder g = xs @ r # ys" and r: "?P r"
    and xs: "\<forall>x \<in> set xs. \<not> ?P x"
    by (auto simp: find_Some_split)
  have in_scope: "r \<in> set (scope_order g d)"
    using order r by (simp add: scope_order_def)
  have "dependency_passed g byTask d (ref_taskId r)"
    unfolding dependency_passed_def list_all_iff
  proof
    fix e
    assume "e \<in> set (filter (\<lambda>e. ref_documentId (de_task e) = d \<and> ref_taskId (de_task e) = ref_taskId r)
        (cg_dependencyEdges g))"
    then have e: "e \<in> set (cg_dependencyEdges g)" "ref_documentId (de_task e) = d"
        "taskRefKey (de_task e) = taskRefKey r"
      using r by (simp_all add: taskRefKey_def)
    have "de_dependsOn e \<in> set [] \<union> set xs"
      by (rule dependencies_first_append [OF first [unfolded order] e(1,3)])
    then have "task_finished byTask (de_dependsOn e)"
      using xs inside e(1,2) by auto
    then show "case byTask (ref_taskId (de_dependsOn e)) of None \<Rightarrow> False | Some t \<Rightarrow> completed (tr_status t)"
      by (auto simp: task_finished_def)
  qed
  moreover obtain t where t: "byTask (ref_taskId r) = Some t"
    using all in_scope by blast
  moreover have "\<not> completed (tr_status t) \<and> \<not> stopped_status (tr_status t)"
    using r go in_scope t by (auto simp: task_finished_def task_stopped_def)
  moreover have "scope_resumable g byTask d = None"
    using none by (simp add: scope_eligible_def split: option.splits)
  then have "find (\<lambda>r. case byTask (ref_taskId r) of
                      None \<Rightarrow> False
                    | Some t \<Rightarrow> \<not> completed (tr_status t) \<and> \<not> stopped_status (tr_status t) \<and>
                        dependency_passed g byTask d (ref_taskId r)) (scope_order g d) = None"
    using none by (simp add: scope_eligible_def)
  ultimately show False
    using in_scope by (auto simp: find_None_conv)
qed

lemma edge_in_document:
  "e \<in> set (dependency_edges ds) \<Longrightarrow> ref_documentId (de_dependsOn e) = ref_documentId (de_task e)"
  by (auto simp: dependency_edges_def task_edges_def taskRef_def List.map_filter_def)

lemma compiled_edges_local:
  assumes "env_ok env" and "compilePrdGraph env options rootFile = Some c" and "cp_graph c = Some g"
  shows "\<forall>e \<in> set (cg_dependencyEdges g). ref_documentId (de_dependsOn e) = ref_documentId (de_task e)"
    and "distinct (map fst (cg_documents g))"
proof -
  obtain ds ctx where "cg_dependencyEdges g = dependency_edges ds" "cg_documents g = map (\<lambda>d. (pd_id d, d)) ds"
      "context_ok ds ctx"
    using compilePrdGraph_cases [OF assms(1), of options rootFile] assms(2,3) by auto
  then show "\<forall>e \<in> set (cg_dependencyEdges g). ref_documentId (de_dependsOn e) = ref_documentId (de_task e)"
    and "distinct (map fst (cg_documents g))"
    using edge_in_document by (auto simp: context_ok_def documents_ok_def comp_def)
qed

text \<open>The steps of a scoped selection that did not go to a deeper child.\<close>

lemma scoped_cases:
  assumes "selectScopedChildWork senv env db db' root run d g records = Inr x"
  obtains (deeper) l where "findDeepestResumableChildRun env db root = Inr (Some l)"
      "ln_childRunId l \<noteq> run" "x = Scope_resume_child l"
  | (direct) v document byTask where "validateChildRuntimeGraph senv g no_overrides = Inr v"
      "map_of (cg_documents (rg_graph g)) d = Some document"
      "byTask = record_by_task (scope_records records run d)"
      "\<forall>t \<in> set (pd_tasks document). byTask (pt_id t) \<noteq> None"
      "case scope_eligible (rg_graph g) byTask d of
         None \<Rightarrow> x = (if list_all (\<lambda>r. case byTask (tr_taskId r) of
                                        None \<Rightarrow> True | Some t \<Rightarrow> completed (tr_status t))
                            (scope_records records run d)
                   then Scope_complete d else Scope_waiting d)
       | Some r \<Rightarrow>
           (let execute = Scope_execute_task r
              (if scope_resumable (rg_graph g) byTask d \<noteq> None then Reason_resume else Reason_eligible) in
            case map_of (vg_childDocumentByParentTask v) (taskRefKey r) of
              None \<Rightarrow> x = execute
            | Some c \<Rightarrow> if c = [] then x = execute
                else (\<exists>found. findLinkForParentInDatabase db' run (ref_documentId r) (ref_taskId r) = Inr found \<and>
                  (case found of
                     None \<Rightarrow> x = Scope_reserve_child r c
                   | Some l \<Rightarrow>
                       x = (if ln_status l = Child_failed \<or> ln_status l = Child_cancelled
                            then Scope_blocked_by_child r l
                            else if ln_status l \<noteq> Child_passed then Scope_resume_child l else execute))))"
proof -
  obtain v document deepest where v: "validateChildRuntimeGraph senv g no_overrides = Inr v"
    and doc: "map_of (cg_documents (rg_graph g)) d = Some document"
    and deepest: "findDeepestResumableChildRun env db root = Inr deepest"
    using assms validate_graph
    by (fastforce simp: selectScopedChildWork_def Let_def result_simps split: option.splits)
  note g = validate_graph [OF v]
  show thesis
  proof (cases "deeper_child run deepest")
    case (Some l)
    then show thesis
      using assms v doc deepest g
      by (intro deeper [of l]) (auto simp: selectScopedChildWork_def deeper_child_def split: option.splits if_splits)
  next
    case None
    let ?by = "record_by_task (scope_records records run d)"
    have all: "\<forall>t \<in> set (pd_tasks document). ?by (pt_id t) \<noteq> None"
      using assms v doc deepest g None
      by (auto simp: selectScopedChildWork_def Let_def list_all_iff split: if_splits)
    then have "list_all (\<lambda>t. ?by (pt_id t) \<noteq> None) (pd_tasks document)"
      by (simp add: list_all_iff)
    then show thesis
      using assms v doc deepest g None
      by (intro direct [OF v doc refl all], cases "scope_eligible (rg_graph g) ?by d")
        (auto simp: selectScopedChildWork_def Let_def result_simps split: option.splits if_splits)
  qed
qed

lemma deepest_resumable:
  assumes "child_steps env empty_child_db db" and "list_all (\<lambda>l. counter (ln_revision l)) (xd_links db)"
    and "findDeepestResumableChildRun env db root = Inr (Some l)"
  shows "under (xd_links db) root l \<and> \<not> isTerminalChildRunStatus (ln_status l)"
proof -
  obtain links where links: "listChildRunTree env db root = Inr links" "set links = {l. under (xd_links db) root l}"
    using tree_listed [OF reachable_ok [OF assms(1)] assms(2)] by blast
  let ?open = "sort_by (deepest_first (ne_collate env)) (filter (\<lambda>l. \<not> isTerminalChildRunStatus (ln_status l)) links)"
  have "?open \<noteq> [] \<and> l = hd ?open"
    using assms(3) links(1) by (auto simp: findDeepestResumableChildRun_def split: list.splits)
  then have "l \<in> set ?open"
    using hd_in_set by blast
  then show ?thesis
    using links(2) by simp
qed

lemma child_named: "validateChildRuntimeGraph senv g o' = Inr v \<Longrightarrow>
    map_of (vg_childDocumentByParentTask v) k = Some c \<Longrightarrow> c \<noteq> []"
  by (erule validate_cases) (force simp: edge_maps_ok_def dest: map_of_SomeD)

lemma child_passed_below:
  assumes "child_db_ok env db" and "l \<in> set (xd_links db)" and "ln_status l = Child_passed"
  shows "link_may_pass db l \<and> (\<forall>k. under (xd_links db) (ln_childRunId l) k \<longrightarrow>
    k \<in> set (xd_links db) \<and> ln_status k = Child_passed \<and> link_may_pass db k)"
  using passed_link [OF assms] passed_tree [OF assms] passed_link [OF assms(1)] by blast

section \<open>Properties\<close>

text \<open>What each decision of a scope stands for.\<close>

definition complete_below :: "'o child_db \<Rightarrow> child_link \<Rightarrow> bool" where
  "complete_below db l \<longleftrightarrow> l \<in> set (xd_links db) \<and> ln_status l = Child_passed \<and> link_may_pass db l \<and>
     (\<forall>k. under (xd_links db) (ln_childRunId l) k \<longrightarrow>
        k \<in> set (xd_links db) \<and> ln_status k = Child_passed \<and> link_may_pass db k)"

definition task_link :: "'o child_db \<Rightarrow> string \<Rightarrow> task_ref \<Rightarrow> child_link \<Rightarrow> bool" where
  "task_link db run r l \<longleftrightarrow> l \<in> set (xd_links db) \<and> parent_key l = (run, ref_documentId r, ref_taskId r)"

definition may_start :: "compiled_graph \<Rightarrow> (string \<rightharpoonup> task_record) \<Rightarrow> string \<Rightarrow> task_ref \<Rightarrow> bool" where
  "may_start g byTask d r \<longleftrightarrow> r \<in> set (scope_order g d) \<and> open_task byTask r \<and>
     (scope_resumable g byTask d = None \<longrightarrow> dependency_passed g byTask d (ref_taskId r))"

fun decision_sound ::
  "runtime_graph \<Rightarrow> (string \<rightharpoonup> string) \<Rightarrow> 'o child_db \<Rightarrow> 'o child_db \<Rightarrow> string \<Rightarrow> string \<Rightarrow> string \<Rightarrow>
   (string \<rightharpoonup> task_record) \<Rightarrow> scoped_decision \<Rightarrow> bool" where
  "decision_sound g child db db' root run d byTask (Scope_resume_child l) =
     (\<not> isTerminalChildRunStatus (ln_status l) \<and>
      (under (xd_links db) root l \<and> ln_childRunId l \<noteq> run \<or>
       (\<exists>r. may_start (rg_graph g) byTask d r \<and> task_link db' run r l)))"
| "decision_sound g child db db' root run d byTask (Scope_reserve_child r c) =
     (may_start (rg_graph g) byTask d r \<and> child (taskRefKey r) = Some c \<and> (\<forall>l. \<not> task_link db' run r l))"
| "decision_sound g child db db' root run d byTask (Scope_execute_task r why) =
     (may_start (rg_graph g) byTask d r \<and> (why = Reason_resume \<longleftrightarrow> scope_resumable (rg_graph g) byTask d \<noteq> None) \<and>
      (child (taskRefKey r) \<noteq> None \<longrightarrow> (\<exists>l. task_link db' run r l \<and> complete_below db' l)))"
| "decision_sound g child db db' root run d byTask (Scope_blocked_by_child r l) =
     (may_start (rg_graph g) byTask d r \<and> task_link db' run r l \<and>
      (ln_status l = Child_failed \<or> ln_status l = Child_cancelled))"
| "decision_sound g child db db' root run d byTask (Scope_complete d') =
     (d' = d \<and> (\<forall>document t. map_of (cg_documents (rg_graph g)) d = Some document \<longrightarrow> t \<in> set (pd_tasks document) \<longrightarrow>
        (\<exists>r. byTask (pt_id t) = Some r \<and> completed (tr_status r))))"
| "decision_sound g child db db' root run d byTask (Scope_waiting d') =
     (d' = d \<and> scope_eligible (rg_graph g) byTask d = None \<and>
      (\<exists>i r. byTask i = Some r \<and> \<not> completed (tr_status r)))"

text \<open>
  C8. What a run is told to do next is sound in every reachable ledger: a task to execute is open,
  with its dependencies completed unless it resumes, and if a child document refines it the whole
  tree of child runs below it has passed; a child is reserved only where the graph has one and
  the task has no link; a child to resume is not terminal; a scope is complete only when all
  tasks of the document are.
\<close>

theorem scoped_selection_is_sound:
  assumes "child_steps env empty_child_db db" and "child_steps env db db'"
    and "list_all (\<lambda>l. counter (ln_revision l)) (xd_links db)"
    and "selectScopedChildWork senv env db db' root run d g records = Inr x"
  shows "\<exists>v. validateChildRuntimeGraph senv g no_overrides = Inr v \<and>
    decision_sound g (map_of (vg_childDocumentByParentTask v)) db db' root run d
      (record_by_task (scope_records records run d)) x"
proof -
  let ?by = "record_by_task (scope_records records run d)"
  obtain v where v: "validateChildRuntimeGraph senv g no_overrides = Inr v"
    using assms(4) by (auto simp: selectScopedChildWork_def result_simps)
  have ok': "child_db_ok env db'"
    using assms(1,2) by (auto intro!: reachable_ok)
  have "decision_sound g (map_of (vg_childDocumentByParentTask v)) db db' root run d ?by x"
    using assms(4)
  proof (cases rule: scoped_cases)
    case (deeper l)
    then show ?thesis
      using deepest_resumable [OF assms(1,3), of root l] by simp
  next
    case (direct v' document byTask)
    have v': "v' = v"
      using v direct(1) by simp
    show ?thesis
    proof (cases "scope_eligible (rg_graph g) ?by d")
      case None
      have scoped: "\<exists>r. ?by (tr_taskId q) = Some r" if "q \<in> set (scope_records records run d)" for q
        using that by (metis image_eqI option.exhaust record_by_task_None)
      show ?thesis
      proof (cases "list_all (\<lambda>r. case ?by (tr_taskId r) of None \<Rightarrow> True | Some t \<Rightarrow> completed (tr_status t))
          (scope_records records run d)")
        case True
        have "completed (tr_status r)" if "?by i = Some r" for i r
          using True that record_by_task_Some [OF that] by (auto simp: list_all_iff)
        then show ?thesis
          using direct(2-5) None True by fastforce
      next
        case False
        then have "\<exists>i r. ?by i = Some r \<and> \<not> completed (tr_status r)"
        proof -
          obtain q where q: "q \<in> set (scope_records records run d)"
              "\<not> (case ?by (tr_taskId q) of None \<Rightarrow> True | Some t \<Rightarrow> completed (tr_status t))"
            using False by (auto simp: list_all_iff simp del: not_Some_eq split del: option.split)
          moreover obtain r where "?by (tr_taskId q) = Some r"
            using scoped q(1) by blast
          ultimately show ?thesis
            by auto
        qed
        then show ?thesis
          using direct(3,5) None False by simp
      qed
    next
      case (Some r)
      have start: "may_start (rg_graph g) ?by d r"
        using scope_eligible_open [OF Some] by (simp add: may_start_def)
      have link: "task_link db' run r l"
        if "findLinkForParentInDatabase db' run (ref_documentId r) (ref_taskId r) = Inr (Some l)" for l
        using found_for_parent [OF that] by (simp add: task_link_def)
      have complete: "complete_below db' l" if "task_link db' run r l" "ln_status l = Child_passed" for l
        using that child_passed_below [OF ok'] by (auto simp: task_link_def complete_below_def)
      show ?thesis
      proof (cases "map_of (vg_childDocumentByParentTask v) (taskRefKey r)")
        case None
        then show ?thesis
          using direct(3,5) Some start by (simp add: v' Let_def)
      next
        case child: (Some c)
        then obtain found where found: "findLinkForParentInDatabase db' run (ref_documentId r) (ref_taskId r) = Inr found"
          and x: "case found of None \<Rightarrow> x = Scope_reserve_child r c
            | Some l \<Rightarrow> x = (if ln_status l = Child_failed \<or> ln_status l = Child_cancelled
                then Scope_blocked_by_child r l
                else if ln_status l \<noteq> Child_passed then Scope_resume_child l
                else Scope_execute_task r
                  (if scope_resumable (rg_graph g) ?by d \<noteq> None then Reason_resume else Reason_eligible))"
          using direct(3,5) Some child_named [OF v child] by (auto simp: v' Let_def simp del: not_None_eq)
        show ?thesis
        proof (cases found)
          case None
          then show ?thesis
            using x start child none_for_parent [OF found [unfolded None]] by (auto simp: task_link_def)
        next
          case l: (Some l)
          note mine = link [OF found [unfolded l]]
          consider "ln_status l = Child_failed \<or> ln_status l = Child_cancelled" | "ln_status l = Child_passed"
            | "\<not> isTerminalChildRunStatus (ln_status l)" "ln_status l \<noteq> Child_passed"
              "\<not> (ln_status l = Child_failed \<or> ln_status l = Child_cancelled)"
            by (cases "ln_status l") (auto simp: isTerminalChildRunStatus_def)
          then show ?thesis
            using x start mine complete [OF mine] child by cases (auto simp: l)
        qed
      qed
    qed
  qed
  then show ?thesis
    using v by blast
qed

definition scope_sample_record :: "string \<Rightarrow> task_status \<Rightarrow> task_record" where
  "scope_sample_record t s =
     \<lparr>tr_runId = ''p'', tr_taskId = t, tr_documentId = ''root'', tr_status = s,
      tr_markerContentHash = tree_sample_hash, tr_activeAttemptId = None, tr_completion = None, tr_updatedAt = 1\<rparr>"

lemma scope_sample_deepest:
  "findDeepestResumableChildRun tree_sample_env (committed tree_sample_settled) ''p'' = Inr None"
  by (simp add: findDeepestResumableChildRun_def listChildRunTree_def tree_walk.simps listDirectChildRunLinks_def tree_sample_defs
      tree_sample_store_defs tree_sample_child_defs tree_sample_settle_defs)

lemma scope_sample_link:
  "findLinkForParentInDatabase (committed tree_sample_settled) ''p'' ''root'' ''a'' = Inr (Some tree_sample_link)"
  by (simp add: tree_sample_link_def tree_sample_defs tree_sample_store_defs tree_sample_child_defs tree_sample_settle_defs)

definition scope_sample_records :: "task_record list" where
  "scope_sample_records = [scope_sample_record ''a'' Task_active, scope_sample_record ''b'' Task_pending]"

lemma scope_sample_choice:
  "let byTask = record_by_task (scope_records scope_sample_records ''p'' ''root'') in
   scope_eligible tree_sample_documents byTask ''root'' = Some (sample_ref ''root'' ''a'') \<and>
   scope_resumable tree_sample_documents byTask ''root'' \<noteq> None \<and>
   list_all (\<lambda>t. byTask (pt_id t) \<noteq> None) (pd_tasks sample_root_file)"
  by code_simp

lemma scope_sample_selected:
  "selectScopedChildWork sample_sched_env tree_sample_env (committed tree_sample_settled) (committed tree_sample_settled)
     ''p'' ''p'' ''root'' tree_sample_graph scope_sample_records =
   Inr (Scope_execute_task (sample_ref ''root'' ''a'') Reason_resume)"
proof -
  have "map_of (cg_documents tree_sample_documents) ''root'' = Some sample_root_file"
    "rg_graph tree_sample_graph = tree_sample_documents"
    by (simp_all add: tree_sample_documents_def tree_sample_graph_def)
  then show ?thesis
    using scope_sample_choice scope_sample_link
    by (simp add: selectScopedChildWork_def tree_sample_validates tree_sample_validated_def
        scope_sample_deepest deeper_child_def Let_def taskRefKey_def ref_key_def tree_sample_link_row(2))
qed

theorem scoped_selection_is_sound_witness:
  "\<exists>l. task_link (committed tree_sample_settled) ''p'' (sample_ref ''root'' ''a'') l \<and>
     complete_below (committed tree_sample_settled) l"
  using scoped_selection_is_sound [OF tree_sample_reach rtranclp.rtrancl_refl tree_sample_small scope_sample_selected]
  by (auto simp: tree_sample_validates tree_sample_validated_def taskRefKey_def ref_key_def)

text \<open>
  C35. A scope never waits for nothing: with a compiled graph, when no task of a document can be
  worked on and the scope is not complete, then a task of the document was blocked, rejected or
  cancelled, or a record is left of a task the document does not have.
\<close>

theorem scope_waits_only_for_stopped_tasks:
  assumes "env_ok env" and "compilePrdGraph env options rootFile = Some c" and "cp_graph c = Some (rg_graph g)"
    and "selectScopedChildWork senv nenv db db' root run d g records = Inr (Scope_waiting d')"
  shows "\<exists>document. map_of (cg_documents (rg_graph g)) d = Some document \<and>
    ((\<exists>t \<in> set (pd_tasks document). \<exists>r \<in> set (scope_records records run d).
        tr_taskId r = pt_id t \<and> stopped_status (tr_status r)) \<or>
     (\<exists>r \<in> set (scope_records records run d). tr_taskId r \<notin> pt_id ` set (pd_tasks document)))"
  using assms(4)
proof (cases rule: scoped_cases)
  case (direct v document byTask)
  let ?g = "rg_graph g"
  note compiled = compiled_graph_ordered [OF assms(1-3)] compiled_edges_local [OF assms(1-3)]
  have none: "scope_eligible ?g byTask d = None"
    and left: "\<not> list_all (\<lambda>r. case byTask (tr_taskId r) of None \<Rightarrow> True | Some t \<Rightarrow> completed (tr_status t))
      (scope_records records run d)"
    using direct(5)
    by (auto simp: Let_def split: option.splits if_splits)
  have order: "r \<in> set (scope_order ?g d) \<longleftrightarrow> (\<exists>t \<in> set (pd_tasks document). r = taskRef d t)" for r
  proof -
    have "da = document" if "(d, da) \<in> set (cg_documents ?g)" for da
      using eq_key_imp_eq_value [OF compiled(6) that map_of_SomeD [OF direct(2)]] .
    moreover have "(d, document) \<in> set (cg_documents ?g)"
      using direct(2) by (rule map_of_SomeD)
    moreover have "r \<in> set (scope_order ?g d) \<longleftrightarrow>
        ref_documentId r = d \<and> (\<exists>i da t. r = taskRef i t \<and> (i, da) \<in> set (cg_documents ?g) \<and> t \<in> set (pd_tasks da))"
      by (auto simp: scope_order_def compiled(3))
    moreover have "ref_documentId (taskRef i t) = i" for i t
      by (simp add: taskRef_def)
    ultimately show ?thesis
      by metis
  qed
  have all: "\<forall>r \<in> set (scope_order ?g d). byTask (ref_taskId r) \<noteq> None"
    using direct(4) by (auto simp: order taskRef_def)
  show ?thesis
  proof (cases "\<forall>r \<in> set (scope_order ?g d). \<not> task_stopped byTask r")
    case True
    note finished = scope_finished_or_stopped [OF compiled(1,5) all none True]
    obtain q t where q: "q \<in> set (scope_records records run d)" "byTask (tr_taskId q) = Some t"
        "\<not> completed (tr_status t)"
      using left by (auto simp: list_all_iff split: option.splits)
    have "tr_taskId q \<notin> pt_id ` set (pd_tasks document)"
    proof
      assume "tr_taskId q \<in> pt_id ` set (pd_tasks document)"
      then obtain p where "p \<in> set (pd_tasks document)" "tr_taskId q = pt_id p"
        by blast
      then have "task_finished byTask (taskRef d p)"
        using finished order by blast
      then show False
        using q \<open>tr_taskId q = pt_id p\<close> by (simp add: task_finished_def taskRef_def)
    qed
    then show ?thesis
      using direct(2) q(1) by blast
  next
    case False
    then obtain p t where "p \<in> set (pd_tasks document)" "byTask (pt_id p) = Some t" "stopped_status (tr_status t)"
      by (auto simp: order task_stopped_def taskRef_def)
    then show ?thesis
      using direct(2,3) record_by_task_Some by blast
  qed
qed simp

lemma waiting_sample_selected:
  "(case compilePrdGraph sample_env sample_options ''root'' of None \<Rightarrow> False
    | Some c \<Rightarrow> (case cp_graph c of None \<Rightarrow> False
      | Some g \<Rightarrow> (case selectScopedChildWork sample_sched_env tree_sample_env empty_child_db empty_child_db ''p'' ''p'' ''root''
          (tree_sample_graph\<lparr>rg_graph := g\<rparr>) [scope_sample_record ''a'' Task_blocked, scope_sample_record ''b'' Task_pending] of
            Inr (Scope_waiting d) \<Rightarrow> True | _ \<Rightarrow> False)))"
  by code_simp

theorem scope_waits_only_for_stopped_tasks_witness:
  "\<exists>c g document. compilePrdGraph sample_env sample_options ''root'' = Some c \<and> cp_graph c = Some g \<and>
     map_of (cg_documents g) ''root'' = Some document"
proof -
  obtain c g d where "compilePrdGraph sample_env sample_options ''root'' = Some c" "cp_graph c = Some g"
      "selectScopedChildWork sample_sched_env tree_sample_env empty_child_db empty_child_db ''p'' ''p'' ''root''
        (tree_sample_graph\<lparr>rg_graph := g\<rparr>) [scope_sample_record ''a'' Task_blocked, scope_sample_record ''b'' Task_pending] =
        Inr (Scope_waiting d)"
    using waiting_sample_selected by (auto split: option.splits sum.splits scoped_decision.splits)
  then show ?thesis
    using scope_waits_only_for_stopped_tasks [OF sample_env_ok, of sample_options "''root''" c
        "tree_sample_graph\<lparr>rg_graph := g\<rparr>"] by fastforce
qed

text \<open>The digest the identifiers of a child run come from.\<close>

definition child_digest :: "sched_env \<Rightarrow> 'o preauthored_input \<Rightarrow> string \<Rightarrow> string" where
  "child_digest env input childDocumentId =
     se_identity env [''ralph-child-run-v1'', ei_workspaceId input, ei_parentRunId input,
       ref_documentId (ei_parentTask input), ref_taskId (ei_parentTask input),
       ref_taskSpecHash (ei_parentTask input), childDocumentId, rg_definitionHash (ei_graph input)]"

text \<open>A request is made from the graph: the child \<open>child\<close> of the task \<open>t\<close>, at depth \<open>n\<close>.\<close>

definition requested ::
  "sched_env \<Rightarrow> 'o preauthored_input \<Rightarrow> 'o reserve_input \<Rightarrow> manifest \<Rightarrow> validated_graph \<Rightarrow> prd_document \<Rightarrow>
   nat \<Rightarrow> prd_task \<Rightarrow> bool" where
  "requested env input q m v child n t \<longleftrightarrow>
     (let g = ei_graph input; r = ei_parentTask input; c = ri_childDocumentId q;
          expected = int (length (filter (\<lambda>t. pt_subPrd t \<noteq> None) (pd_tasks child)));
          options = eo_contentHash (ei_effectiveOptions input) in
      validateChildRuntimeGraph env g (ei_limits input) = Inr v \<and>
      map_of (vg_childDocumentByParentTask v) (taskRefKey r) = Some c \<and>
      map_of (cg_documents (rg_graph g)) c = Some child \<and>
      map_of (vg_depthByDocument v) c = Some n \<and> graphTask (rg_graph g) r = Inr t \<and>
      ri_linkId q = or_else (ei_linkId input) (''child-link-'' @ child_digest env input c) \<and>
      ri_childRunId q = or_else (ei_childRunId input) (''child-'' @ take 40 (child_digest env input c)) \<and>
      ri_workspaceId q = ei_workspaceId input \<and> ri_parentRunId q = ei_parentRunId input \<and>
      ri_parentDocumentId q = ref_documentId r \<and> ri_parentTaskId q = ref_taskId r \<and>
      ri_childRootPrdFile q = pd_file child \<and> ri_depth q = int n \<and>
      ri_graphDefinitionHash q = rg_definitionHash g \<and> ri_graphHash q = rg_graphHash g \<and>
      ri_inheritedOptionsHash q = options \<and> ri_materializationHash q = se_manifestHash env g m \<and>
      ri_effectiveOptions q = ei_effectiveOptions input \<and> ri_expectedDirectChildren q = expected \<and>
      ri_parentPolicy q = or_else (ei_parentPolicy input) Pause_with_parent \<and>
      m = \<lparr>mf_graphDefinitionHash = rg_definitionHash g, mf_parentRunId = ei_parentRunId input,
           mf_parentTask = r, mf_childDocumentId = pd_id child, mf_childRootPrdFile = pd_file child,
           mf_childTaskSpecHashes = map (\<lambda>t. (pt_id t, pt_taskSpecHash t)) (pd_tasks child),
           mf_expectedDirectChildren = expected, mf_inheritedOptionsHash = options, mf_depth = int n\<rparr>)"

lemma child_request_cases:
  assumes "child_request env input = Inr (q, m)"
  shows "\<exists>v child n t. requested env input q m v child n t"
proof -
  let ?g = "rg_graph (ei_graph input)" and ?r = "ei_parentTask input"
  obtain v where v: "validateChildRuntimeGraph env (ei_graph input) (ei_limits input) = Inr v"
    using assms by (auto simp: child_request_def result_simps)
  note same = validate_graph [OF v]
  obtain c where c: "map_of (vg_childDocumentByParentTask v) (taskRefKey ?r) = Some c"
    using assms v by (auto simp: child_request_def Let_def split: option.splits)
  obtain child n where child: "map_of (cg_documents ?g) c = Some child" "map_of (vg_depthByDocument v) c = Some n"
    using assms v c same child_named [OF v c]
    by (auto simp: child_request_def Let_def split: option.splits)
  obtain t where t: "graphTask ?g ?r = Inr t"
    using assms v c child same child_named [OF v c]
    by (auto simp: child_request_def childMaterializationManifest_def Let_def result_simps split: option.splits if_splits)
  have "requested env input q m v child n t"
    unfolding requested_def Let_def using assms v c child t same child_named [OF v c]
    by (auto simp: child_request_def childMaterializationManifest_def deterministicChildIdentity_def child_digest_def
      Let_def result_simps split: option.splits if_splits)
  then show ?thesis by blast
qed

text \<open>What a reservation that makes a child run leaves in the ledger: its run and its link.\<close>

lemma reserve_rows_run:
  assumes ok: "child_db_ok env db" and res: "reserve_rows env db input = Inr (db', l)"
  shows "run_row db' (ri_childRunId input) = Some (child_run_record env input)"
proof -
  let ?r = "child_run_record env input"
  obtain db1 db2 where run: "insert_run db ?r = Inr db1"
    and tasks: "insert_child_tasks input (ri_tasks input) db1 = Inr db2"
    and link: "insert_link db2 (reserved_link input) = Inr db'"
    using res by (auto simp: reserve_rows_def result_simps)
  have rid: "rr_id ?r = ri_childRunId input" "\<not> run_terminal (rr_status ?r)"
    by (simp_all add: child_run_record_def run_terminal_def)
  have r: "run_db_ok db1 \<and> run_row db1 (ri_childRunId input) = Some ?r"
    using insert_run_keeps [OF _ run] ok rid(1) by (simp add: child_db_ok_def)
  have "run_row db2 = run_row db1"
    using insert_child_tasks_keeps [OF tasks _ _ rid(2)] r by blast
  moreover have "run_row db' i = run_row db2 i" for i
    using insert_link_Inr [OF link] by (simp add: run_row_def)
  ultimately show ?thesis
    using r by simp
qed

lemma reserve_made:
  assumes ok: "child_db_ok env db" and r: "reserveChildRun env db input ids = Inr (db', l, made)"
  shows "if made then l = reserved_link input \<and>
      run_row db' (ri_childRunId input) = Some (child_run_record env input) else db' = db"
proof (cases made)
  case True
  then obtain db1 where res: "reservable db input = Inr ()" "reserve_rows env db input = Inr (db1, l)"
    and same: "same_ledger db1 db'"
    using reserve_cases [OF r] by auto
  obtain p where p: "run_row db (ri_parentRunId input) = Some p" "\<not> run_terminal (rr_status p)"
    using reservable_parent [OF res(1)] by blast
  show ?thesis
    using True reserve_rows_keeps(2) [OF ok p res(2)] reserve_rows_run [OF ok res(2)] same
    by (simp add: same_ledger_def run_row_def)
next
  case False
  then show ?thesis
    using reserve_cases [OF r] by simp
qed

text \<open>
  C36. A child run is made only from the graph: a reservation that succeeds is for a task whose
  compiled edge names the child document, at the depth of that document and within the limit. Its
  link has the identifiers given or else derived from the digest of the workspace, the parent run
  and task, the child document and the definition hash; the definition hash of the graph, the
  options hash of the input, and the digest of the manifest that is returned with it, which names
  the same child, task, depth and hashes. A reservation that makes the run also stamps the link
  and the run it stores with the graph hash, the definition hash and the options; one that does
  not changes nothing (the graph hash of the earlier link is not compared).
\<close>

theorem child_runs_come_from_the_graph:
  assumes "child_steps nenv empty_child_db db" and "distinct (map fst (cg_documents (rg_graph (ei_graph input))))"
    and "reservePreauthoredChildRun senv nenv db input ids = Inr (db', l, created, m)"
  shows "\<exists>v child t. validateChildRuntimeGraph senv (ei_graph input) (ei_limits input) = Inr v \<and>
    map_of (vg_childDocumentByParentTask v) (taskRefKey (ei_parentTask input)) = Some (ln_childDocumentId l) \<and>
    map_of (cg_documents (rg_graph (ei_graph input))) (ln_childDocumentId l) = Some child \<and>
    graphTask (rg_graph (ei_graph input)) (ei_parentTask input) = Inr t \<and> truthy_opt (pt_subPrd t) \<and>
    parent_key l = (ei_parentRunId input, ref_documentId (ei_parentTask input), ref_taskId (ei_parentTask input)) \<and>
    (\<exists>n. map_of (vg_depthByDocument v) (ref_documentId (ei_parentTask input)) = Some n \<and> ln_depth l = int (Suc n)) \<and>
    1 \<le> ln_depth l \<and> ln_depth l \<le> or_else (lo_maxDepth (ei_limits input)) 8 \<and>
    ln_expectedDirectChildren l = int (length (filter (\<lambda>t. pt_subPrd t \<noteq> None) (pd_tasks child))) \<and>
    ln_childRootPrdFile l = pd_file child \<and>
    ln_graphDefinitionHash l = rg_definitionHash (ei_graph input) \<and>
    ln_materializationHash l = se_manifestHash senv (ei_graph input) m \<and>
    link_row db' (ln_id l) = Some l \<and>
    ln_workspaceId l = ei_workspaceId input \<and>
    ln_id l = or_else (ei_linkId input) (''child-link-'' @ child_digest senv input (ln_childDocumentId l)) \<and>
    ln_childRunId l =
      or_else (ei_childRunId input) (''child-'' @ take 40 (child_digest senv input (ln_childDocumentId l))) \<and>
    ln_inheritedOptionsHash l = eo_contentHash (ei_effectiveOptions input) \<and>
    ln_parentPolicy l = or_else (ei_parentPolicy input) Pause_with_parent \<and>
    m = \<lparr>mf_graphDefinitionHash = ln_graphDefinitionHash l, mf_parentRunId = ln_parentRunId l,
         mf_parentTask = ei_parentTask input, mf_childDocumentId = pd_id child,
         mf_childRootPrdFile = ln_childRootPrdFile l,
         mf_childTaskSpecHashes = map (\<lambda>t. (pt_id t, pt_taskSpecHash t)) (pd_tasks child),
         mf_expectedDirectChildren = ln_expectedDirectChildren l,
         mf_inheritedOptionsHash = ln_inheritedOptionsHash l, mf_depth = ln_depth l\<rparr> \<and>
    (if created then ln_graphHash l = rg_graphHash (ei_graph input) \<and> ln_status l = Child_reserved \<and>
       (\<exists>r. run_row db' (ln_childRunId l) = Some r \<and> rr_status r = Run_created \<and>
          rr_rootPrdId r = ln_childDocumentId l \<and> rr_rootPrdFile r = pd_file child \<and>
          rr_definitionHash r = rg_definitionHash (ei_graph input) \<and>
          rr_graphHash r = rg_graphHash (ei_graph input) \<and>
          rr_effectiveOptions r = ei_effectiveOptions input \<and>
          rr_effectiveOptionsHash r = eo_contentHash (ei_effectiveOptions input))
     else db' = db)"
proof -
  obtain request where request: "child_request senv input = Inr (request, m)"
    and made: "reserveChildRun nenv db request ids = Inr (db', l, created)"
    using assms(3) by (auto simp: reservePreauthoredChildRun_def result_simps)
  obtain v child n t where q: "requested senv input request m v child n t"
    using child_request_cases [OF request] by blast
  note r = q [unfolded requested_def Let_def]
  obtain k where k: "truthy_opt (pt_subPrd t)"
      "map_of (vg_depthByDocument v) (ref_documentId (ei_parentTask input)) = Some k" "n = Suc k"
      "int n \<le> or_else (lo_maxDepth (ei_limits input)) 8"
  proof -
    have v: "validateChildRuntimeGraph senv (ei_graph input) (ei_limits input) = Inr v"
      "map_of (vg_childDocumentByParentTask v) (taskRefKey (ei_parentTask input)) = Some (ri_childDocumentId request)"
      "graphTask (rg_graph (ei_graph input)) (ei_parentTask input) = Inr t"
      "map_of (vg_depthByDocument v) (ri_childDocumentId request) = Some n"
      using r by blast+
    show ?thesis
      using child_of_task [OF v(1) assms(2) v(2,3)] v(4) that by auto
  qed
  note l = reserve_identity [OF reachable_ok [OF assms(1)] made, unfolded assertReservationIdentity_def require_Inr]
  have row: "if created then l = reserved_link request \<and>
      run_row db' (ri_childRunId request) = Some (child_run_record nenv request) else db' = db"
    using reserve_made [OF reachable_ok [OF assms(1)] made] .
  have parent: "ln_parentRunId l = ei_parentRunId input"
    using l r by (simp add: parent_key_def)
  have stamped: "if created then ln_graphHash l = rg_graphHash (ei_graph input) \<and> ln_status l = Child_reserved \<and>
       (\<exists>r. run_row db' (ln_childRunId l) = Some r \<and> rr_status r = Run_created \<and>
          rr_rootPrdId r = ln_childDocumentId l \<and> rr_rootPrdFile r = pd_file child \<and>
          rr_definitionHash r = rg_definitionHash (ei_graph input) \<and>
          rr_graphHash r = rg_graphHash (ei_graph input) \<and>
          rr_effectiveOptions r = ei_effectiveOptions input \<and>
          rr_effectiveOptionsHash r = eo_contentHash (ei_effectiveOptions input))
     else db' = db"
    using row l r by (auto simp: reserved_link_def child_run_record_def split: if_splits)
  show ?thesis
  proof (intro exI conjI)
    show "1 \<le> ln_depth l" "ln_depth l \<le> or_else (lo_maxDepth (ei_limits input)) 8"
      using k l r by simp_all
    show "map_of (vg_depthByDocument v) (ref_documentId (ei_parentTask input)) = Some k" "ln_depth l = int (Suc k)"
      using k l r by simp_all
    show "link_row db' (ln_id l) = Some l"
      using l by blast
  qed (use l r k stamped parent in simp_all)
qed

definition reserve_sample :: "unit preauthored_input" where
  "reserve_sample =
     \<lparr>ei_workspaceId = ''w'', ei_parentRunId = ''p'', ei_parentTask = sample_ref ''root'' ''a'',
      ei_graph = tree_sample_graph, ei_effectiveOptions = tree_sample_options, ei_limits = no_overrides,
      ei_parentPolicy = None, ei_now = 2, ei_childRunId = Some ''c'', ei_linkId = Some ''l''\<rparr>"

definition reserve_sample_request :: "unit reserve_input" where
  "reserve_sample_request = tree_sample_reservation\<lparr>ri_tasks := [\<lparr>kt_documentId = ''kid'', kt_taskId = ''c'',
     kt_status = Task_pending, kt_markerContentHash = replicate 64 (CHR ''c'')\<rparr>]\<rparr>"

lemma reserve_sample_request_made: "\<exists>m. child_request sample_sched_env reserve_sample = Inr (reserve_sample_request, m)"
proof -
  have "case child_request sample_sched_env reserve_sample of
      Inr (r, m) \<Rightarrow> r = reserve_sample_request | Inl e \<Rightarrow> False"
    by code_simp
  then show ?thesis
    by (auto split: sum.splits)
qed

lemma reserve_sample_ok: "ok (reserveChildRun tree_sample_env (committed tree_sample_tasks) reserve_sample_request (tree_sample_ids ''r''))"
proof -
  have "sha256 (replicate 64 (CHR ''c''))"
    by code_simp
  then show ?thesis
    by (simp add: reserve_sample_request_def tree_sample_defs tree_sample_store_defs tree_sample_child_defs)
qed

theorem child_runs_come_from_the_graph_witness:
  "\<exists>db' l created m. reservePreauthoredChildRun sample_sched_env tree_sample_env (committed tree_sample_tasks)
     reserve_sample (tree_sample_ids ''r'') = Inr (db', l, created, m) \<and>
     ln_childDocumentId l = ''kid'' \<and> ln_depth l = 1 \<and> link_row db' (ln_id l) = Some l \<and>
     ln_id l = ''l'' \<and> ln_childRunId l = ''c'' \<and> ln_graphHash l = rg_graphHash tree_sample_graph \<and>
     ln_graphDefinitionHash l = rg_definitionHash tree_sample_graph \<and>
     ln_inheritedOptionsHash l = eo_contentHash tree_sample_options \<and>
     mf_inheritedOptionsHash m = ln_inheritedOptionsHash l \<and>
     map_option rr_graphHash (run_row db' ''c'') = Some (rg_graphHash tree_sample_graph)"
proof -
  obtain m where m: "child_request sample_sched_env reserve_sample = Inr (reserve_sample_request, m)"
    using reserve_sample_request_made by blast
  obtain db' l created where l: "reserveChildRun tree_sample_env (committed tree_sample_tasks) reserve_sample_request
      (tree_sample_ids ''r'') = Inr (db', l, created)"
    using reserve_sample_ok by (auto simp: ok_iff)
  have made: "reservePreauthoredChildRun sample_sched_env tree_sample_env (committed tree_sample_tasks) reserve_sample
      (tree_sample_ids ''r'') = Inr (db', l, created, m)"
    by (simp add: reservePreauthoredChildRun_def m l)
  have "distinct (map fst (cg_documents (rg_graph (ei_graph reserve_sample))))"
    by code_simp
  note facts = child_runs_come_from_the_graph [OF tree_sample_reach_tasks this made]
  have "xd_links (committed tree_sample_tasks) = []"
    by code_simp
  then have "db' \<noteq> committed tree_sample_tasks"
    using facts by (auto simp: link_row_def find_row_def)
  then have created
    using facts by (auto split: if_splits)
  then show ?thesis
    using made facts by (auto simp: reserve_sample_def tree_sample_validates tree_sample_validated_def taskRefKey_def ref_key_def or_else_def)
qed

end
