(* ===== verification/Acts.thy ===== *)
theory Acts
  imports Prelude
begin

text \<open>
  Steps that act on a state and may throw, for the code that awaits ports: the state, with what
  was done before the error, is kept when an error is thrown.
\<close>

definition act_then ::
  "('w \<Rightarrow> 'w \<times> ('e + 'a)) \<Rightarrow> ('a \<Rightarrow> 'w \<Rightarrow> 'w \<times> ('e + 'b)) \<Rightarrow> 'w \<Rightarrow> 'w \<times> ('e + 'b)" where
  "act_then m k w = (case m w of (w', Inl e) \<Rightarrow> (w', Inl e) | (w', Inr x) \<Rightarrow> k x w')"

definition act_return :: "'a \<Rightarrow> 'w \<Rightarrow> 'w \<times> ('e + 'a)" where
  "act_return x w = (w, Inr x)"

definition act_throw :: "'e \<Rightarrow> 'w \<Rightarrow> 'w \<times> ('e + 'a)" where
  "act_throw e w = (w, Inl e)"

lemma act_then_Inr: "act_then m k w = (w', Inr y) \<longleftrightarrow> (\<exists>w1 x. m w = (w1, Inr x) \<and> k x w1 = (w', Inr y))"
  by (auto simp: act_then_def split: prod.splits sum.splits)

lemma act_then_cases:
  assumes "act_then m k w = (w', r)"
  obtains e where "m w = (w', Inl e)" "r = Inl e"
  | w1 x where "m w = (w1, Inr x)" "k x w1 = (w', r)"
  using assms by (auto simp: act_then_def split: prod.splits sum.splits)

text \<open>What every step keeps, a sequence of steps keeps.\<close>

lemma act_then_keeps:
  assumes "act_then m k w = (w', r)"
    and "\<And>w1 r1. m w = (w1, r1) \<Longrightarrow> P w w1"
    and "\<And>w1 x. m w = (w1, Inr x) \<Longrightarrow> k x w1 = (w', r) \<Longrightarrow> P w w1 \<Longrightarrow> P w w'"
  shows "P w w'"
  using assms by (elim act_then_cases) blast+

end
