(* ===== verification/GateRun.thy ===== *)
theory GateRun
  imports PrdGraph Acts
begin

text \<open>
  The verification gates of a task: \<^verbatim>\<open>packages/verification/src/gates.ts\<close>,
  \<^verbatim>\<open>gate-registry.ts\<close>, \<^verbatim>\<open>applicability.ts\<close> and the specifications of
  \<^verbatim>\<open>packages/prd/src/contracts.ts\<close>. What runs outside, the command, the file system, the
  clock, the timer of a deadline and the abort signal, is a record of functions on a state the
  model does not look into.
\<close>

section \<open>Specifications\<close>

record gate_command =
  gc_executable :: string
  gc_args :: "string list"
  gc_successExitCodes :: "int list"

datatype file_expectation =
    Expect_exists | Expect_non_empty | Expect_absent | Expect_sha256 string | Expect_json_schema string

datatype git_expectation =
    Git_clean | Git_changed | Git_no_conflicts | Git_branch string
  | Git_paths_within "string list" "bool option"

record artifact_spec =
  as_artifactId :: string
  as_path :: string
  as_schema :: "string option"
  as_expectedSha256 :: "string option"

datatype spec_kind =
    Spec_instruction | Spec_command gate_command | Spec_file string file_expectation
  | Spec_schema string string | Spec_git git_expectation | Spec_artifact artifact_spec
  | Spec_plugin string string

datatype condition_match = Match_exact | Match_prefix

datatype gate_condition =
    File_exists string | File_absent string | Path_changed string "condition_match option"

record gate_applicability =
  ga_platforms :: "string list option"
  ga_conditions :: "gate_condition list option"

text \<open>An instruction has no execution metadata; its last four fields are \<open>None\<close>.\<close>

record verification_spec =
  vs_id :: string
  vs_kind :: spec_kind
  vs_category :: string
  vs_skipPolicy :: skip_policy
  vs_blocking :: bool
  vs_attempts :: "nat option"
  vs_timeoutMs :: "int option"
  vs_applicability :: "gate_applicability option"
  vs_criterionIds :: "string list option"

definition executable_spec :: "verification_spec \<Rightarrow> bool" where
  "executable_spec s \<longleftrightarrow> vs_kind s \<noteq> Spec_instruction"

definition positive_opt :: "'a::{zero,ord} option \<Rightarrow> bool" where
  "positive_opt n \<longleftrightarrow> (case n of None \<Rightarrow> True | Some x \<Rightarrow> 0 < x)"

text \<open>The refinements of the schema that concern the fields of the model.\<close>

definition valid_verification_spec :: "verification_spec \<Rightarrow> bool" where
  "valid_verification_spec s \<longleftrightarrow>
     nonempty (vs_id s) \<and> nonempty (vs_category s) \<and>
     positive_opt (vs_attempts s) \<and> positive_opt (vs_timeoutMs s) \<and>
     (case vs_criterionIds s of None \<Rightarrow> True | Some cs \<Rightarrow> cs \<noteq> [] \<and> list_all nonempty cs \<and> distinct cs) \<and>
     (vs_kind s = Spec_instruction \<longrightarrow> vs_skipPolicy s = Skip_never_run \<and> \<not> vs_blocking s) \<and>
     (vs_skipPolicy s = Skip_optional \<or> vs_skipPolicy s = Skip_never_run \<longrightarrow> \<not> vs_blocking s)"

section \<open>Outcomes and ports\<close>

record gate_outcome =
  gx_status :: gate_status
  gx_exitCode :: "int option"
  gx_outputRefs :: "string list option"
  gx_deadlineExceeded :: "bool option"
  gx_reason :: "string option"

definition outcome_of :: "gate_status \<Rightarrow> string option \<Rightarrow> gate_outcome" where
  "outcome_of status reason =
     \<lparr>gx_status = status, gx_exitCode = None, gx_outputRefs = None, gx_deadlineExceeded = None,
      gx_reason = reason\<rparr>"

record command_execution =
  cx_error :: "string option"
  cx_exitCode :: "int option"
  cx_deadlineExceeded :: bool
  cx_timedOut :: bool
  cx_stdout :: string
  cx_stderr :: string

type_synonym ('w, 'a) act = "'w \<Rightarrow> 'w \<times> 'a result"

type_synonym 'w gate_executor = "verification_spec \<Rightarrow> nat \<Rightarrow> ('w, gate_outcome) act"

text \<open>
  \<open>gp_aborted\<close> tells whether the signal is aborted and, if so, the \<^verbatim>\<open>Error\<close> that is its
  reason, if any. \<open>gp_timer\<close> is the state in which the timer of an attempt fires when that comes
  before its operation settles. \<open>gp_target\<close> is \<^verbatim>\<open>resolveSafeWorkspaceTarget\<close>.
\<close>

record 'w gate_ports =
  gp_now :: "'w \<Rightarrow> int"
  gp_parseDate :: "string \<Rightarrow> int option"
  gp_elapsed :: "'w \<Rightarrow> 'w \<Rightarrow> nat"
  gp_aborted :: "'w \<Rightarrow> failure option option"
  gp_timer :: "verification_spec \<Rightarrow> nat \<Rightarrow> int \<Rightarrow> 'w \<Rightarrow> 'w option"
  gp_platform :: string
  gp_message :: "failure \<Rightarrow> string"
  gp_target :: "string \<Rightarrow> 'w \<Rightarrow> bool result"
  gp_isFile :: "string \<Rightarrow> 'w \<Rightarrow> bool"
  gp_size :: "string \<Rightarrow> 'w \<Rightarrow> nat"
  gp_sha256 :: "string \<Rightarrow> 'w \<Rightarrow> string"
  gp_jsonSchema :: "string \<Rightarrow> string \<Rightarrow> ('w, gate_outcome) act"
  gp_command :: "gate_command \<Rightarrow> ('w, command_execution) act"
  gp_persistOutput :: "(string \<Rightarrow> string \<Rightarrow> string \<Rightarrow> ('w, string) act) option"

definition abort_error :: "failure option \<Rightarrow> string \<Rightarrow> failure" where
  "abort_error reason text = or_default reason (PlainError text)"

section \<open>Skips\<close>

record run_options =
  ro_deadlineAt :: "string option"
  ro_platform :: "string option"
  ro_changedPaths :: "string list option"
  ro_skipTests :: bool
  ro_skipLint :: bool
  ro_skipGateIdsOrCategories :: "string list"
  ro_noGates :: bool
  ro_fast :: bool
  ro_force :: bool
  ro_failFast :: bool

definition skipRequest :: "verification_spec \<Rightarrow> run_options \<Rightarrow> string option" where
  "skipRequest s opts =
     (if ro_noGates opts then Some ''Skipped by explicit no-gates request''
      else if vs_id s \<in> set (ro_skipGateIdsOrCategories opts)
      then Some (''Skipped by explicit gate ID: '' @ vs_id s)
      else if vs_category s \<in> set (ro_skipGateIdsOrCategories opts)
      then Some (''Skipped by explicit gate category: '' @ vs_category s)
      else if ro_skipTests opts \<and> vs_category s = ''test'' then Some ''Skipped by explicit test skip request''
      else if ro_skipLint opts \<and> vs_category s = ''lint'' then Some ''Skipped by explicit lint skip request''
      else if ro_fast opts then Some ''Skipped by explicit --fast request''
      else None)"

section \<open>Applicability\<close>

text \<open>\<^verbatim>\<open>path.replaceAll("\\", "/").replace(/^\.\//, "")\<close>\<close>

definition portablePath :: "string \<Rightarrow> string" where
  "portablePath path =
     (let p = replace_char (CHR 0x5C) (CHR ''/'') path in
      if starts_with p ''./'' then drop 2 p else p)"

definition pathWithinPortableScope :: "string \<Rightarrow> string \<Rightarrow> bool" where
  "pathWithinPortableScope path scope \<longleftrightarrow>
     (let candidate = portablePath path; s = portablePath scope;
          boundary = (if ends_with s ''/'' then butlast s else s) in
      boundary = ''.'' \<or> candidate = boundary \<or> starts_with candidate (boundary @ ''/''))"

datatype applicability_result =
    Applicable | Not_applicable string | Applicability_error string

primrec conditions_hold ::
  "'w gate_ports \<Rightarrow> run_options \<Rightarrow> gate_condition list \<Rightarrow> 'w \<Rightarrow> applicability_result" where
  "conditions_hold p opts [] w = Applicable"
| "conditions_hold p opts (c # cs) w =
     (case c of
        Path_changed path how \<Rightarrow>
          (case ro_changedPaths opts of
             None \<Rightarrow> Applicability_error (''Applicability condition path-changed requires changedPaths: '' @ path)
           | Some changed \<Rightarrow>
               if list_ex (\<lambda>q. if how = Some Match_prefix then pathWithinPortableScope q (portablePath path)
                               else portablePath q = portablePath path) changed
               then conditions_hold p opts cs w
               else Not_applicable (''No changed path matched '' @
                      (if how = Some Match_prefix then ''prefix'' else ''exact'') @ '':'' @ path))
      | File_exists path \<Rightarrow>
          (case gp_target p path w of
             Inl e \<Rightarrow> Applicability_error (gp_message p e)
           | Inr exists \<Rightarrow>
               if exists then conditions_hold p opts cs w
               else Not_applicable (''Applicability file does not exist: '' @ path))
      | File_absent path \<Rightarrow>
          (case gp_target p path w of
             Inl e \<Rightarrow> Applicability_error (gp_message p e)
           | Inr exists \<Rightarrow>
               if \<not> exists then conditions_hold p opts cs w
               else Not_applicable (''Applicability file must be absent: '' @ path)))"

definition join_comma :: "string list \<Rightarrow> string" where
  "join_comma xs = (case xs of [] \<Rightarrow> [] | y # ys \<Rightarrow> y @ concat (map (\<lambda>z. '', '' @ z) ys))"

definition evaluateVerificationApplicability ::
  "'w gate_ports \<Rightarrow> run_options \<Rightarrow> verification_spec \<Rightarrow> 'w \<Rightarrow> applicability_result" where
  "evaluateVerificationApplicability p opts s w =
     (case (if executable_spec s then vs_applicability s else None) of
        None \<Rightarrow> Applicable
      | Some a \<Rightarrow>
          (let platform = or_default (ro_platform opts) (gp_platform p) in
           case ga_platforms a of
             Some platforms \<Rightarrow>
               if platform \<notin> set platforms
               then Not_applicable (''Gate is not applicable on platform '' @ platform @ ''; expected '' @
                      join_comma platforms)
               else conditions_hold p opts (or_default (ga_conditions a) []) w
           | None \<Rightarrow> conditions_hold p opts (or_default (ga_conditions a) []) w))"

section \<open>Executors\<close>

definition persistCommandOutput ::
  "'w gate_ports \<Rightarrow> string \<Rightarrow> string \<Rightarrow> string \<Rightarrow> ('w, string list) act" where
  "persistCommandOutput p gateId out err =
     (case gp_persistOutput p of
        None \<Rightarrow> act_return []
      | Some save \<Rightarrow>
          act_then (if out = [] then act_return []
                    else act_then (save gateId ''stdout'' out) (\<lambda>r. act_return [r])) (\<lambda>refs.
          act_then (if err = [] then act_return []
                    else act_then (save gateId ''stderr'' err) (\<lambda>r. act_return [r])) (\<lambda>refs'.
          act_return (refs @ refs'))))"

text \<open>\<^verbatim>\<open>String(n)\<close> of an integer.\<close>

fun show_nat :: "nat \<Rightarrow> string" where
  "show_nat n = (if n < 10 then [char_of (48 + n)] else show_nat (n div 10) @ [char_of (48 + n mod 10)])"

declare show_nat.simps [simp del]

definition show_int :: "int \<Rightarrow> string" where
  "show_int i = (if i < 0 then ''-'' @ show_nat (nat (- i)) else show_nat (nat i))"

definition executeCommandGate :: "'w gate_ports \<Rightarrow> gate_command \<Rightarrow> 'w gate_executor" where
  "executeCommandGate p command s attempt =
     act_then (gp_command p command) (\<lambda>execution.
     act_then (persistCommandOutput p (vs_id s) (cx_stdout execution) (cx_stderr execution)) (\<lambda>refs.
     (let shared = \<lparr>gx_status = Gate_passed, gx_exitCode = cx_exitCode execution, gx_outputRefs = Some refs,
                    gx_deadlineExceeded = Some (cx_deadlineExceeded execution), gx_reason = None\<rparr>;
          bad = (\<lambda>status reason. shared\<lparr>gx_status := status, gx_reason := Some reason\<rparr>) in
      act_return
        (if truthy_opt (cx_error execution) then bad Gate_unavailable (the (cx_error execution))
         else if cx_deadlineExceeded execution then bad Gate_timeout ''Task execution deadline was exceeded''
         else if cx_timedOut execution then bad Gate_timeout ''Command timed out''
         else
           (case cx_exitCode execution of
              Some code \<Rightarrow>
                if code \<in> set (gc_successExitCodes command) then shared
                else bad Gate_failed (''Unexpected exit code '' @ show_int code)
            | None \<Rightarrow> bad Gate_failed ''Unexpected exit code undefined'')))))"

definition executeFileGate :: "'w gate_ports \<Rightarrow> string \<Rightarrow> file_expectation \<Rightarrow> 'w gate_executor" where
  "executeFileGate p path expectation s attempt w =
     (case gp_target p path w of
        Inl e \<Rightarrow> (w, Inl e)
      | Inr exists \<Rightarrow>
          if expectation = Expect_absent
          then (w, Inr (if exists then outcome_of Gate_failed (Some (''File must be absent: '' @ path))
                        else outcome_of Gate_passed None))
          else if \<not> exists
          then (w, Inr (outcome_of Gate_failed (Some (''Required file does not exist: '' @ path))))
          else if \<not> gp_isFile p path w
          then (w, Inr (outcome_of Gate_failed (Some (''Verification target is not a regular file: '' @ path))))
          else
            (case expectation of
               Expect_non_empty \<Rightarrow>
                 (w, Inr (if 0 < gp_size p path w then outcome_of Gate_passed None
                          else outcome_of Gate_failed (Some (''File is empty: '' @ path))))
             | Expect_sha256 value \<Rightarrow>
                 (w, Inr (if gp_sha256 p path w = value then outcome_of Gate_passed None
                          else outcome_of Gate_failed (Some (''File hash mismatch: '' @ path))))
             | Expect_json_schema schema \<Rightarrow> gp_jsonSchema p path schema w
             | _ \<Rightarrow> (w, Inr (outcome_of Gate_passed None))))"

text \<open>The executors by type, and those of plugins by their key.\<close>

datatype gate_type =
    Type_instruction | Type_command | Type_file | Type_schema | Type_git | Type_artifact | Type_plugin

definition type_of :: "verification_spec \<Rightarrow> gate_type" where
  "type_of s =
     (case vs_kind s of
        Spec_instruction \<Rightarrow> Type_instruction | Spec_command c \<Rightarrow> Type_command
      | Spec_file q e \<Rightarrow> Type_file | Spec_schema q e \<Rightarrow> Type_schema | Spec_git g \<Rightarrow> Type_git
      | Spec_artifact a \<Rightarrow> Type_artifact | Spec_plugin n i \<Rightarrow> Type_plugin)"

fun gate_type_name :: "gate_type \<Rightarrow> string" where
  "gate_type_name Type_instruction = ''instruction''"
| "gate_type_name Type_command = ''command''"
| "gate_type_name Type_file = ''file''"
| "gate_type_name Type_schema = ''schema''"
| "gate_type_name Type_git = ''git''"
| "gate_type_name Type_artifact = ''artifact''"
| "gate_type_name Type_plugin = ''plugin''"

record 'w gate_registry =
  gy_executors :: "gate_type \<rightharpoonup> 'w gate_executor"
  gy_plugins :: "string \<rightharpoonup> 'w gate_executor"

definition register_gate ::
  "gate_type \<Rightarrow> 'w gate_executor \<Rightarrow> bool \<Rightarrow> 'w gate_registry \<Rightarrow> 'w gate_registry result" where
  "register_gate ty executor replace reg =
     (if gy_executors reg ty \<noteq> None \<and> \<not> replace
      then Inl (PlainError (''Gate executor is already registered: '' @ gate_type_name ty))
      else Inr (reg\<lparr>gy_executors := (gy_executors reg)(ty \<mapsto> executor)\<rparr>))"

definition register_plugin ::
  "(string \<Rightarrow> bool) \<Rightarrow> string \<Rightarrow> 'w gate_executor \<Rightarrow> bool \<Rightarrow> 'w gate_registry \<Rightarrow> 'w gate_registry result" where
  "register_plugin plugin_id plugin executor replace reg =
     (if \<not> plugin_id plugin then Inl ZodError
      else if gy_plugins reg (''plugin:'' @ plugin) \<noteq> None \<and> \<not> replace
      then Inl (PlainError (''Plugin gate executor is already registered: plugin:'' @ plugin))
      else Inr (reg\<lparr>gy_plugins := (gy_plugins reg)(''plugin:'' @ plugin \<mapsto> executor)\<rparr>))"

definition execute_gate :: "'w gate_registry \<Rightarrow> 'w gate_executor" where
  "execute_gate reg s attempt =
     (case vs_kind s of
        Spec_plugin plugin input \<Rightarrow>
          (case gy_plugins reg (''plugin:'' @ plugin) of
             None \<Rightarrow> act_return (outcome_of Gate_unavailable
                       (Some (''Verification plugin is not registered: plugin:'' @ plugin)))
           | Some run \<Rightarrow> run s attempt)
      | _ \<Rightarrow>
          (case gy_executors reg (type_of s) of
             None \<Rightarrow> act_return (outcome_of Gate_unavailable
                       (Some (''Gate executor is not registered: '' @ gate_type_name (type_of s))))
           | Some run \<Rightarrow> run s attempt))"

text \<open>
  The default registry; the executors of schemas, of git and of artifacts are arguments.
\<close>

definition createDefaultGateExecutorRegistry ::
  "'w gate_ports \<Rightarrow> 'w gate_executor \<Rightarrow> 'w gate_executor \<Rightarrow> 'w gate_executor \<Rightarrow> 'w gate_registry result" where
  "createDefaultGateExecutorRegistry p schema git artifact =
     (let run_command = (\<lambda>s. case vs_kind s of Spec_command c \<Rightarrow> executeCommandGate p c s);
          run_file = (\<lambda>s. case vs_kind s of Spec_file path e \<Rightarrow> executeFileGate p path e s) in
      and_then (register_gate Type_command run_command False \<lparr>gy_executors = Map.empty, gy_plugins = Map.empty\<rparr>) (\<lambda>r.
      and_then (register_gate Type_file run_file False r) (\<lambda>r.
      and_then (register_gate Type_schema schema False r) (\<lambda>r.
      and_then (register_gate Type_git git False r)
        (register_gate Type_artifact artifact False)))))"

section \<open>One attempt\<close>

definition effectiveAttemptDeadline ::
  "'w gate_ports \<Rightarrow> verification_spec \<Rightarrow> string option \<Rightarrow> 'w \<Rightarrow> string + (int option \<times> bool)" where
  "effectiveAttemptDeadline p s taskDeadlineAt w =
     (let taskDeadline = (if truthy_opt taskDeadlineAt then Some (gp_parseDate p (the taskDeadlineAt)) else None) in
      if taskDeadline = Some None
      then Inl (''Execution deadline is not a valid timestamp: '' @ the taskDeadlineAt)
      else
        (let task = (case taskDeadline of None \<Rightarrow> None | Some d \<Rightarrow> d);
             timeoutMs = (if executable_spec s then vs_timeoutMs s else None);
             gate = (case timeoutMs of None \<Rightarrow> None | Some t \<Rightarrow> if t = 0 then None else Some (gp_now p w + t));
             deadline = (case (task, gate) of
                           (None, g) \<Rightarrow> g | (Some d, None) \<Rightarrow> Some d | (Some d, Some e) \<Rightarrow> Some (min d e)) in
         Inr (deadline, case (task, deadline) of (Some d, Some e) \<Rightarrow> d \<le> e | _ \<Rightarrow> False)))"

definition timeout_outcome :: "bool \<Rightarrow> gate_outcome" where
  "timeout_outcome taskDeadline =
     (outcome_of Gate_timeout (Some (if taskDeadline then ''Task execution deadline was exceeded''
                                     else ''Gate timeout was exceeded'')))
       \<lparr>gx_deadlineExceeded := Some taskDeadline\<rparr>"

text \<open>What an attempt returns once it has run: the abort signal wins over its outcome.\<close>

definition unless_aborted :: "'w gate_ports \<Rightarrow> 'w \<Rightarrow> 'a \<Rightarrow> 'w \<times> 'a result" where
  "unless_aborted p w x =
     (case gp_aborted p w of
        Some reason \<Rightarrow> (w, Inl (abort_error reason ''Verification cancelled during gate execution''))
      | None \<Rightarrow> (w, Inr x))"

definition executeAttempt ::
  "'w gate_ports \<Rightarrow> 'w gate_registry \<Rightarrow> run_options \<Rightarrow> 'w gate_executor" where
  "executeAttempt p reg opts s attempt w =
     (case gp_aborted p w of
        Some reason \<Rightarrow> (w, Inl (abort_error reason ''Verification cancelled before gate execution''))
      | None \<Rightarrow>
          (case effectiveAttemptDeadline p s (ro_deadlineAt opts) w of
             Inl invalid \<Rightarrow> (w, Inr (outcome_of Gate_error (Some invalid)))
           | Inr (deadline, taskDeadline) \<Rightarrow>
               if (case deadline of None \<Rightarrow> False | Some d \<Rightarrow> d \<le> gp_now p w)
               then (w, Inr (timeout_outcome taskDeadline))
               else
                 (case (case deadline of None \<Rightarrow> None
                        | Some d \<Rightarrow> gp_timer p s attempt (max 0 (d - gp_now p w)) w) of
                    Some w' \<Rightarrow> unless_aborted p w' (timeout_outcome taskDeadline)
                  | None \<Rightarrow>
                      (case execute_gate reg s attempt w of
                         (w', Inl e) \<Rightarrow> (w', Inl e)
                       | (w', Inr outcome) \<Rightarrow> unless_aborted p w' outcome))))"

section \<open>One verification\<close>

record verification_result =
  vr_gateId :: string
  vr_category :: string
  vr_blocking :: bool
  vr_skipPolicy :: "skip_policy option"
  vr_criterionIds :: "string list option"
  vr_status :: gate_status
  vr_exitCode :: "int option"
  vr_durationMs :: nat
  vr_attempts :: nat
  vr_outputRefs :: "string list"
  vr_deadlineExceeded :: "bool option"
  vr_reason :: "string option"
  vr_overridden :: bool

definition baseResult :: "verification_spec \<Rightarrow> nat \<Rightarrow> nat \<Rightarrow> verification_result" where
  "baseResult s duration attempts =
     \<lparr>vr_gateId = vs_id s, vr_category = vs_category s, vr_blocking = vs_blocking s,
      vr_skipPolicy = Some (vs_skipPolicy s),
      vr_criterionIds = (if executable_spec s then vs_criterionIds s else None),
      vr_status = Gate_unavailable, vr_exitCode = None, vr_durationMs = duration,
      vr_attempts = attempts, vr_outputRefs = [], vr_deadlineExceeded = None, vr_reason = None,
      vr_overridden = False\<rparr>"

definition retryable_status :: "gate_status \<Rightarrow> bool" where
  "retryable_status s \<longleftrightarrow> s = Gate_failed \<or> s = Gate_timeout \<or> s = Gate_error \<or> s = Gate_unavailable"

text \<open>
  The loop over attempts: \<open>left\<close> are still allowed, the current one has the number \<open>attempt\<close>. Its
  result is the last outcome, the number of attempts and the references of all of them.
\<close>

primrec attempt_loop ::
  "'w gate_ports \<Rightarrow> 'w gate_registry \<Rightarrow> run_options \<Rightarrow> verification_spec \<Rightarrow> nat \<Rightarrow> nat \<Rightarrow> gate_outcome \<Rightarrow>
   string list \<Rightarrow> ('w, gate_outcome \<times> nat \<times> string list) act" where
  "attempt_loop p reg opts s 0 attempt outcome refs w = (w, Inr (outcome, attempt - 1, refs))"
| "attempt_loop p reg opts s (Suc left) attempt previous refs w =
     (case executeAttempt p reg opts s attempt w of
        (w1, result) \<Rightarrow>
          (case (case result of
                   Inr outcome \<Rightarrow> Inr outcome
                 | Inl e \<Rightarrow>
                     (case gp_aborted p w1 of
                        Some reason \<Rightarrow> Inl (abort_error reason ''Verification cancelled during gate execution'')
                      | None \<Rightarrow> Inr (outcome_of Gate_error (Some (gp_message p e))))) of
             Inl e \<Rightarrow> (w1, Inl e)
           | Inr outcome \<Rightarrow>
               (let refs1 = refs @ or_default (gx_outputRefs outcome) [] in
                if \<not> retryable_status (gx_status outcome) \<or> left = 0 then (w1, Inr (outcome, attempt, refs1))
                else if gx_deadlineExceeded outcome = Some True then (w1, Inr (outcome, attempt, refs1))
                else
                  (case gp_aborted p w1 of
                     Some reason \<Rightarrow> (w1, Inl (abort_error reason ''Verification cancelled before gate retry''))
                   | None \<Rightarrow> attempt_loop p reg opts s left (attempt + 1) outcome refs1 w1))))"

definition may_skip :: "verification_spec \<Rightarrow> bool" where
  "may_skip s \<longleftrightarrow> vs_skipPolicy s = Skip_allowed \<or> vs_skipPolicy s = Skip_optional"

definition runVerification ::
  "'w gate_ports \<Rightarrow> 'w gate_registry \<Rightarrow> run_options \<Rightarrow> verification_spec \<Rightarrow> ('w, verification_result) act" where
  "runVerification p reg opts s w =
     (let base = (\<lambda>w' n. baseResult s (gp_elapsed p w w') n) in
      if \<not> executable_spec s
      then (w, Inr ((base w 0)\<lparr>vr_blocking := False, vr_skipPolicy := Some Skip_never_run,
              vr_status := Gate_skipped_by_policy,
              vr_reason := Some ''Human instruction is context, not an executable verification gate''\<rparr>))
      else if vs_skipPolicy s = Skip_never_run
      then (w, Inr ((base w 0)\<lparr>vr_status := Gate_skipped_by_policy,
              vr_reason := Some ''Verification policy is never-run''\<rparr>))
      else
        (case evaluateVerificationApplicability p opts s w of
           Not_applicable reason \<Rightarrow>
             (w, Inr ((base w 0)\<lparr>vr_status := Gate_not_applicable, vr_reason := Some reason\<rparr>))
         | Applicability_error reason \<Rightarrow>
             (w, Inr ((base w 0)\<lparr>vr_status := Gate_error, vr_reason := Some reason\<rparr>))
         | Applicable \<Rightarrow>
             (let requestedSkip = skipRequest s opts in
              if requestedSkip \<noteq> None \<and> (may_skip s \<or> ro_force opts)
              then (w, Inr ((base w 0)\<lparr>vr_status := Gate_skipped_by_cli,
                      vr_reason := Some (if may_skip s then the requestedSkip
                        else ''Required verification skipped by explicit --force override ('' @
                             the requestedSkip @ '')''),
                      vr_overridden := \<not> may_skip s\<rparr>))
              else
                act_then (attempt_loop p reg opts s (or_default (vs_attempts s) 1) 1
                           (outcome_of Gate_unavailable (Some ''Gate produced no execution outcome'')) [])
                  (\<lambda>(outcome, attempts, refs) w'.
                    (w', Inr ((base w' attempts)\<lparr>vr_status := gx_status outcome, vr_exitCode := gx_exitCode outcome,
                            vr_deadlineExceeded := gx_deadlineExceeded outcome, vr_reason := gx_reason outcome,
                            vr_outputRefs := js_unique refs\<rparr>))) w)))"

section \<open>All verifications of a task\<close>

definition isBlockingVerificationFailure :: "verification_result \<Rightarrow> bool" where
  "isBlockingVerificationFailure r \<longleftrightarrow>
     (if \<not> vr_blocking r \<or> vr_status r = Gate_passed \<or> vr_status r = Gate_not_applicable then False
      else if vr_overridden r then False
      else if vr_status r = Gate_skipped_by_cli \<and>
              (vr_skipPolicy r = Some Skip_allowed \<or> vr_skipPolicy r = Some Skip_optional) then False
      else True)"

definition failFastResult :: "verification_spec \<Rightarrow> string \<Rightarrow> verification_result" where
  "failFastResult s failedGateId =
     (baseResult s 0 0)
       \<lparr>vr_status := Gate_skipped_by_policy,
        vr_reason := Some (''Not run because fail-fast stopped after blocking gate '' @ failedGateId)\<rparr>"

primrec run_specs ::
  "'w gate_ports \<Rightarrow> 'w gate_registry \<Rightarrow> run_options \<Rightarrow> verification_spec list \<Rightarrow> ('w, verification_result list) act" where
  "run_specs p reg opts [] w = (w, Inr [])"
| "run_specs p reg opts (s # ss) w =
     (case gp_aborted p w of
        Some reason \<Rightarrow> (w, Inl (abort_error reason ''Verification cancelled before the next gate''))
      | None \<Rightarrow>
          act_then (runVerification p reg opts s) (\<lambda>result.
            if ro_failFast opts \<and> isBlockingVerificationFailure result
            then act_return (result # map (\<lambda>rest. failFastResult rest (vr_gateId result)) ss)
            else act_then (run_specs p reg opts ss) (\<lambda>results. act_return (result # results))) w)"

definition runVerifications ::
  "'w gate_ports \<Rightarrow> 'w gate_registry \<Rightarrow> run_options \<Rightarrow> verification_spec list \<Rightarrow> ('w, verification_result list) act" where
  "runVerifications p reg opts specifications =
     run_specs p reg opts (filter executable_spec specifications)"

section \<open>Facts on results\<close>

text \<open>A passed result is one an executor returned.\<close>

definition executed :: "'w gate_registry \<Rightarrow> verification_spec \<Rightarrow> nat \<Rightarrow> gate_outcome \<Rightarrow> bool" where
  "executed reg s attempt outcome \<longleftrightarrow> (\<exists>w. snd (execute_gate reg s attempt w) = Inr outcome)"

lemma unless_aborted_Inr: "unless_aborted p w x = (w', Inr y) \<Longrightarrow> y = x \<and> w' = w \<and> gp_aborted p w = None"
  by (simp add: unless_aborted_def split: option.splits)

definition attempt_outcome :: "'w gate_registry \<Rightarrow> verification_spec \<Rightarrow> nat \<Rightarrow> gate_outcome \<Rightarrow> bool" where
  "attempt_outcome reg s attempt outcome \<longleftrightarrow>
     executed reg s attempt outcome \<or> gx_status outcome = Gate_timeout \<or> gx_status outcome = Gate_error"

lemma executeAttempt_cases:
  assumes "executeAttempt p reg opts s attempt w = (w', Inr outcome)"
  shows "attempt_outcome reg s attempt outcome"
  using assms
  by (auto simp: executeAttempt_def executed_def attempt_outcome_def timeout_outcome_def outcome_of_def
      split: option.splits sum.splits prod.splits if_splits dest!: unless_aborted_Inr)
    (metis snd_conv)+

lemma attempt_loop_cases:
  assumes "attempt_loop p reg opts s left attempt previous refs w = (w', Inr (outcome, n, refs'))"
    and "0 < left" and "0 < attempt"
  shows "attempt \<le> n \<and> n < attempt + left \<and> attempt_outcome reg s n outcome \<and>
    (\<forall>k. attempt \<le> k \<and> k < n \<longrightarrow> (\<exists>x. attempt_outcome reg s k x \<and> retryable_status (gx_status x)))"
  using assms
proof (induction left arbitrary: attempt previous refs w)
  case (Suc left)
  obtain w1 result where run: "executeAttempt p reg opts s attempt w = (w1, result)"
    by (cases "executeAttempt p reg opts s attempt w")
  obtain x where x: "(case result of Inr outcome \<Rightarrow> Inr outcome
      | Inl e \<Rightarrow> (case gp_aborted p w1 of
          Some reason \<Rightarrow> Inl (abort_error reason ''Verification cancelled during gate execution'')
        | None \<Rightarrow> Inr (outcome_of Gate_error (Some (gp_message p e))))) = Inr x"
    using Suc.prems(1) by (auto simp: run split: sum.splits)
  have ran: "attempt_outcome reg s attempt x"
  proof (cases result)
    case (Inl e)
    then show ?thesis
      using x by (auto simp: attempt_outcome_def outcome_of_def split: option.splits)
  next
    case (Inr y)
    then show ?thesis
      using x executeAttempt_cases [OF run [unfolded Inr]] by simp
  qed
  let ?refs = "refs @ or_default (gx_outputRefs x) []"
  consider "outcome = x" "n = attempt"
    | "left \<noteq> 0" "retryable_status (gx_status x)"
      "attempt_loop p reg opts s left (attempt + 1) x ?refs w1 = (w', Inr (outcome, n, refs'))"
    using Suc.prems(1) by (auto simp: run x Let_def split: if_splits option.splits)
  then show ?case
  proof cases
    case 1
    then show ?thesis
      using ran by auto
  next
    case 2
    from Suc.IH [OF 2(3)] have "attempt + 1 \<le> n" "n < attempt + 1 + left" "attempt_outcome reg s n outcome"
      "\<forall>k. attempt + 1 \<le> k \<and> k < n \<longrightarrow> (\<exists>x. attempt_outcome reg s k x \<and> retryable_status (gx_status x))"
      using 2(1) by simp_all
    then show ?thesis
      using ran 2(2) by (metis Suc_eq_plus1 Suc_le_eq add.commute add_Suc_right le_eq_less_or_eq less_or_eq_imp_le)
  qed
qed simp

text \<open>What a result says of the way it came about.\<close>

definition skip_granted :: "run_options \<Rightarrow> verification_spec \<Rightarrow> bool" where
  "skip_granted opts s \<longleftrightarrow> skipRequest s opts \<noteq> None \<and> (may_skip s \<or> ro_force opts)"

definition result_earned ::
  "'w gate_registry \<Rightarrow> run_options \<Rightarrow> verification_spec \<Rightarrow> verification_result \<Rightarrow> bool" where
  "result_earned reg opts s r \<longleftrightarrow>
     vr_gateId r = vs_id s \<and> vr_category r = vs_category s \<and> vr_blocking r = vs_blocking s \<and>
     vr_skipPolicy r = Some (vs_skipPolicy s) \<and>
     vr_attempts r \<le> or_default (vs_attempts s) 1 \<and>
     (vr_overridden r \<longrightarrow> vr_status r = Gate_skipped_by_cli \<and> skip_granted opts s \<and> \<not> may_skip s \<and> ro_force opts) \<and>
     (vr_status r = Gate_passed \<longrightarrow>
        (\<exists>x. executed reg s (vr_attempts r) x \<and> gx_status x = Gate_passed) \<and>
        (\<forall>k. 0 < k \<and> k < vr_attempts r \<longrightarrow>
           (\<exists>x. attempt_outcome reg s k x \<and> retryable_status (gx_status x)))) \<and>
     (vr_status r = Gate_skipped_by_cli \<longrightarrow>
        skip_granted opts s \<or> (\<exists>n x. executed reg s n x \<and> gx_status x = Gate_skipped_by_cli))"

lemma runVerification_earned:
  assumes valid: "valid_verification_spec s" and run: "runVerification p reg opts s w = (w', Inr r)"
  shows "result_earned reg opts s r"
proof -
  consider (fixed) "vr_status r \<noteq> Gate_passed" "vr_status r \<noteq> Gate_skipped_by_cli" "\<not> vr_overridden r"
      "vr_gateId r = vs_id s" "vr_category r = vs_category s" "vr_blocking r = vs_blocking s"
      "vr_skipPolicy r = Some (vs_skipPolicy s)" "vr_attempts r = 0"
    | (skipped) "skip_granted opts s" "vr_status r = Gate_skipped_by_cli" "vr_overridden r \<longleftrightarrow> \<not> may_skip s"
      "vr_gateId r = vs_id s" "vr_category r = vs_category s" "vr_blocking r = vs_blocking s"
      "vr_skipPolicy r = Some (vs_skipPolicy s)" "vr_attempts r = 0"
    | (ran) outcome refs where
      "attempt_loop p reg opts s (or_default (vs_attempts s) 1) 1
         (outcome_of Gate_unavailable (Some ''Gate produced no execution outcome'')) [] w = (w', Inr (outcome, vr_attempts r, refs))"
      "vr_status r = gx_status outcome" "\<not> vr_overridden r"
      "vr_gateId r = vs_id s" "vr_category r = vs_category s" "vr_blocking r = vs_blocking s"
      "vr_skipPolicy r = Some (vs_skipPolicy s)"
    using run valid
    by (cases "executable_spec s"; cases "vs_skipPolicy s = Skip_never_run";
        cases "evaluateVerificationApplicability p opts s w";
        cases "skipRequest s opts \<noteq> None \<and> (may_skip s \<or> ro_force opts)")
      (auto simp: runVerification_def Let_def baseResult_def skip_granted_def act_then_Inr
        valid_verification_spec_def executable_spec_def)
  then show ?thesis
  proof cases
    case fixed
    then show ?thesis by (simp add: result_earned_def)
  next
    case skipped
    then show ?thesis by (auto simp: result_earned_def skip_granted_def)
  next
    case ran
    have "0 < or_default (vs_attempts s) 1"
      using valid by (auto simp: valid_verification_spec_def positive_opt_def or_default_def split: option.splits)
    from attempt_loop_cases [OF ran(1) this] ran show ?thesis
      by (auto simp: result_earned_def attempt_outcome_def)
  qed
qed

text \<open>The results of all gates, one for each specification that can be executed.\<close>

definition result_of_spec ::
  "'w gate_registry \<Rightarrow> run_options \<Rightarrow> verification_spec \<Rightarrow> verification_result \<Rightarrow> bool" where
  "result_of_spec reg opts s r \<longleftrightarrow>
     result_earned reg opts s r \<or> (ro_failFast opts \<and> (\<exists>gate. r = failFastResult s gate))"

lemma run_specs_results:
  "run_specs p reg opts ss w = (w', Inr rs) \<Longrightarrow> list_all valid_verification_spec ss \<Longrightarrow>
   list_all2 (result_of_spec reg opts) ss rs"
proof (induction ss arbitrary: rs w)
  case (Cons s ss)
  obtain w1 r where r: "runVerification p reg opts s w = (w1, Inr r)"
    and rest: "rs = r # map (\<lambda>rest. failFastResult rest (vr_gateId r)) ss \<and> ro_failFast opts \<or>
      (\<exists>results. run_specs p reg opts ss w1 = (w', Inr results) \<and> rs = r # results)"
    using Cons.prems(1) by (auto simp: act_then_Inr act_return_def split: option.splits if_splits)
  have first: "result_of_spec reg opts s r"
    using runVerification_earned [OF _ r] Cons.prems(2) by (simp add: result_of_spec_def)
  from rest show ?case
  proof
    assume "rs = r # map (\<lambda>rest. failFastResult rest (vr_gateId r)) ss \<and> ro_failFast opts"
    then show ?thesis
      using first by (auto simp: list_all2_map2 result_of_spec_def list_all2_same)
  next
    assume "\<exists>results. run_specs p reg opts ss w1 = (w', Inr results) \<and> rs = r # results"
    then show ?thesis
      using first Cons.IH Cons.prems(2) by auto
  qed
qed simp

lemma runVerifications_results:
  "runVerifications p reg opts ss w = (w', Inr rs) \<Longrightarrow> list_all valid_verification_spec ss \<Longrightarrow>
   list_all2 (result_of_spec reg opts) (filter executable_spec ss) rs"
  by (auto simp: runVerifications_def list_all_iff intro: run_specs_results)

end
