(* ===== verification/Completion.thy ===== *)
theory Completion
  imports GateRun Complex_Main
begin

text \<open>
  The verdict on a task: \<^verbatim>\<open>decideDeterministicCompletion\<close> of
  \<^verbatim>\<open>packages/verification/src/evidence.ts\<close>, and what a judge may make of it,
  \<^verbatim>\<open>packages/verification/src/evaluation.ts\<close> with the schemas of
  \<^verbatim>\<open>packages/domain/src/judge.ts\<close>. The sum of the weights of a rubric is computed with
  floating-point numbers; whether it is 100 is an argument.
\<close>

section \<open>Evidence\<close>

datatype artifact_status = Artifact_passed | Artifact_failed | Artifact_not_checked

datatype validation_status =
    Validation_passed | Validation_failed | Validation_not_requested | Validation_unavailable

text \<open>
  The evidence of an artifact; \<open>af_validation\<close>, with its media type, is there in version 2.
\<close>

record artifact_validation =
  av_mediaType :: string
  av_status :: validation_status
  av_schemaRef :: "string option"
  av_reason :: "string option"

record artifact_evidence =
  af_artifactId :: string
  af_path :: string
  af_contentHash :: string
  af_immutableRef :: "string option"
  af_status :: artifact_status
  af_reason :: "string option"
  af_validation :: "artifact_validation option"

definition valid_artifact_v2 :: "artifact_evidence \<Rightarrow> bool" where
  "valid_artifact_v2 a \<longleftrightarrow>
     nonempty (af_artifactId a) \<and> nonempty (af_path a) \<and> sha256 (af_contentHash a) \<and>
     nonempty_opt (af_immutableRef a) \<and> nonempty_opt (af_reason a) \<and>
     (case af_validation a of None \<Rightarrow> False
      | Some v \<Rightarrow> nonempty (av_mediaType v) \<and> nonempty_opt (av_schemaRef v) \<and> nonempty_opt (av_reason v)) \<and>
     (af_status a \<noteq> Artifact_failed \<longrightarrow> af_immutableRef a \<noteq> None)"

datatype executor_status = Work_submitted | Blocked_reported

record completion_evidence = evidence_bundle +
  ev_artifacts :: "artifact_evidence list"
  ev_executorOutcome :: "executor_status option"

definition gateResultFromVerification :: "verification_result \<Rightarrow> gate_result result" where
  "gateResultFromVerification r =
     (let g = \<lparr>gr_gateId = vr_gateId r, gr_category = vr_category r, gr_blocking = vr_blocking r,
               gr_skipPolicy = vr_skipPolicy r, gr_criterionIds = vr_criterionIds r,
               gr_status = vr_status r, gr_exitCode = vr_exitCode r, gr_durationMs = vr_durationMs r,
               gr_reason = (if truthy_opt (vr_reason r) then vr_reason r else None)\<rparr> in
      if valid_gate_result g then Inr g else Inl ZodError)"

section \<open>The deterministic verdict\<close>

datatype evidence_mode =
    Mode_criteria | Mode_change_only | Mode_artifact | Mode_criteria_artifact | Mode_change_artifact

text \<open>What the verdict reads of a task.\<close>

record checked_task =
  ct_criteria :: "string list"
  ct_verification :: "verification_spec list"
  ct_evidenceMode :: evidence_mode

definition modeRequiresCriteria :: "evidence_mode \<Rightarrow> bool" where
  "modeRequiresCriteria m \<longleftrightarrow> m = Mode_criteria \<or> m = Mode_criteria_artifact"

definition modeRequiresArtifact :: "evidence_mode \<Rightarrow> bool" where
  "modeRequiresArtifact m \<longleftrightarrow> m = Mode_artifact \<or> m = Mode_criteria_artifact \<or> m = Mode_change_artifact"

definition modeRequiresChange :: "evidence_mode \<Rightarrow> bool" where
  "modeRequiresChange m \<longleftrightarrow> m = Mode_change_only \<or> m = Mode_change_artifact"

definition artifactDeclarationPassed :: "artifact_spec \<Rightarrow> completion_evidence \<Rightarrow> bool" where
  "artifactDeclarationPassed s e \<longleftrightarrow>
     list_ex (\<lambda>a.
       if af_artifactId a \<noteq> as_artifactId s \<or> af_path a \<noteq> as_path s \<or> af_status a \<noteq> Artifact_passed then False
       else if as_expectedSha256 s \<noteq> None \<and> Some (af_contentHash a) \<noteq> as_expectedSha256 s then False
       else if \<not> truthy_opt (as_schema s) then True
       else
         (case af_validation a of
            None \<Rightarrow> False
          | Some v \<Rightarrow> valid_artifact_v2 a \<and> av_status v = Validation_passed \<and> av_schemaRef v = as_schema s))
       (ev_artifacts e)"

definition spec_artifact :: "verification_spec \<Rightarrow> artifact_spec option" where
  "spec_artifact s = (case vs_kind s of Spec_artifact a \<Rightarrow> Some a | _ \<Rightarrow> None)"

definition linkedVerificationPassed :: "verification_spec \<Rightarrow> string \<Rightarrow> completion_evidence \<Rightarrow> bool" where
  "linkedVerificationPassed s criterionId e \<longleftrightarrow>
     list_ex (\<lambda>g. gr_gateId g = vs_id s \<and> gr_status g = Gate_passed \<and>
                  (case gr_criterionIds g of None \<Rightarrow> False | Some cs \<Rightarrow> criterionId \<in> set cs)) (ev_gates e) \<and>
     (case spec_artifact s of None \<Rightarrow> True | Some a \<Rightarrow> artifactDeclarationPassed a e)"

record verdict =
  ve_passed :: bool
  ve_blocked :: bool
  ve_overrideUsed :: bool
  ve_retryNoChange :: bool
  ve_reasons :: "string list"

definition refuse :: "string \<Rightarrow> verdict \<Rightarrow> verdict" where
  "refuse reason v = v\<lparr>ve_passed := False, ve_reasons := ve_reasons v @ [reason]\<rparr>"

definition remark :: "string \<Rightarrow> verdict \<Rightarrow> verdict" where
  "remark reason v = v\<lparr>ve_reasons := ve_reasons v @ [reason]\<rparr>"

fun gate_status_name :: "gate_status \<Rightarrow> string" where
  "gate_status_name Gate_passed = ''passed''"
| "gate_status_name Gate_failed = ''failed''"
| "gate_status_name Gate_timeout = ''timeout''"
| "gate_status_name Gate_error = ''error''"
| "gate_status_name Gate_skipped_by_cli = ''skipped_by_cli''"
| "gate_status_name Gate_skipped_by_policy = ''skipped_by_policy''"
| "gate_status_name Gate_not_applicable = ''not_applicable''"
| "gate_status_name Gate_unavailable = ''unavailable''"

fun skip_policy_name :: "skip_policy \<Rightarrow> string" where
  "skip_policy_name Skip_required = ''required''"
| "skip_policy_name Skip_optional = ''optional''"
| "skip_policy_name Skip_allowed = ''allowed-to-skip''"
| "skip_policy_name Skip_never_run = ''never-run''"

fun evidence_mode_name :: "evidence_mode \<Rightarrow> string" where
  "evidence_mode_name Mode_criteria = ''criteria''"
| "evidence_mode_name Mode_change_only = ''change-only''"
| "evidence_mode_name Mode_artifact = ''artifact''"
| "evidence_mode_name Mode_criteria_artifact = ''criteria+artifact''"
| "evidence_mode_name Mode_change_artifact = ''change+artifact''"

definition missing_text :: "missing_content \<Rightarrow> string" where
  "missing_text m = mc_path m @ '' ('' @ (case mc_side m of Before_side \<Rightarrow> ''before'' | After_side \<Rightarrow> ''after'') @
     '': '' @ mc_reason m @ '')''"

definition judge_executor :: "completion_evidence \<Rightarrow> verdict \<Rightarrow> verdict" where
  "judge_executor e v =
     (if ev_executorOutcome e = Some Blocked_reported
      then (refuse ''Executor reported a blocking condition; the report is not completion'' v)\<lparr>ve_blocked := True\<rparr>
      else v)"

definition judge_changes :: "completion_evidence \<Rightarrow> verdict \<Rightarrow> verdict" where
  "judge_changes e v =
     (let c = ev_changes e;
          v1 = (if ce_status c = Out_of_scope
                then refuse (''Workspace changes escaped the declared scope: '' @ join_comma (ce_outsideScopePaths c)) v
                else v) in
      if \<not> ce_reproducible c
      then refuse (''Workspace change evidence is not reproducible: '' @
             join_comma (map missing_text (ce_missingContent c))) v1
      else v1)"

definition judge_gate :: "string list \<Rightarrow> gate_result \<Rightarrow> verdict \<Rightarrow> verdict" where
  "judge_gate overrides g v =
     (if \<not> gr_blocking g \<or> gr_status g = Gate_passed then v
      else if gr_status g = Gate_skipped_by_cli \<and>
              (gr_skipPolicy g = Some Skip_allowed \<or> gr_skipPolicy g = Some Skip_optional)
      then remark (''Blocking gate '' @ gr_gateId g @ '' was explicitly skipped as '' @
                   skip_policy_name (the (gr_skipPolicy g))) v
      else if gr_status g = Gate_skipped_by_cli \<and> gr_gateId g \<in> set overrides
      then (remark (''Required gate '' @ gr_gateId g @ '' was skipped by audited override'') v)
             \<lparr>ve_overrideUsed := True\<rparr>
      else refuse (''Blocking gate '' @ gr_gateId g @ '' is '' @ gate_status_name (gr_status g)) v)"

definition judge_no_change :: "evidence_mode \<Rightarrow> completion_evidence \<Rightarrow> verdict \<Rightarrow> verdict" where
  "judge_no_change mode e v =
     (let c = ev_changes e; noChange = (ce_status c = Unchanged) in
      if modeRequiresChange mode \<and> noChange
      then refuse (''Evidence mode '' @ evidence_mode_name mode @ '' requires a permitted change'') v
      else if noChange \<and> ce_policy c \<noteq> Allow_no_change
      then (refuse (''No-change policy '' @ policy_name (ce_policy c) @ '' does not accept an empty delta'') v)
             \<lparr>ve_retryNoChange := (ce_policy c = Retry_on_no_change)\<rparr>
      else v)"

definition linked_to :: "string \<Rightarrow> verification_spec \<Rightarrow> bool" where
  "linked_to criterionId s \<longleftrightarrow> executable_spec s \<and>
     (case vs_criterionIds s of None \<Rightarrow> False | Some cs \<Rightarrow> criterionId \<in> set cs)"

definition judge_criterion :: "checked_task \<Rightarrow> completion_evidence \<Rightarrow> string \<Rightarrow> verdict \<Rightarrow> verdict" where
  "judge_criterion task e criterionId v =
     (let linked = filter (linked_to criterionId) (ct_verification task) in
      if linked = []
      then refuse (''Criterion '' @ criterionId @ '' has no declared verification link'') v
      else if \<not> list_ex (\<lambda>s. linkedVerificationPassed s criterionId e) linked
      then refuse (''Criterion '' @ criterionId @ '' has no passed linked deterministic evidence'') v
      else v)"

definition judge_criteria :: "checked_task \<Rightarrow> completion_evidence \<Rightarrow> verdict \<Rightarrow> verdict" where
  "judge_criteria task e v =
     (if \<not> modeRequiresCriteria (ct_evidenceMode task) then v
      else if list_ex (\<lambda>s. executable_spec s \<and> or_default (vs_criterionIds s) [] \<noteq> []) (ct_verification task)
      then fold (judge_criterion task e) (ct_criteria task) v
      else
        (let declared = map vs_id (filter (\<lambda>s. executable_spec s \<and> vs_skipPolicy s \<noteq> Skip_never_run)
                          (ct_verification task)) in
         if list_ex (\<lambda>g. gr_status g = Gate_passed \<and> gr_gateId g \<in> set declared) (ev_gates e) then v
         else refuse ''Criteria mode has no passed deterministic verification'' v))"

definition declared_artifacts :: "checked_task \<Rightarrow> (verification_spec \<times> artifact_spec) list" where
  "declared_artifacts task =
     List.map_filter (\<lambda>s. map_option (\<lambda>a. (s, a)) (spec_artifact s)) (ct_verification task)"

definition judge_artifacts :: "checked_task \<Rightarrow> completion_evidence \<Rightarrow> verdict \<Rightarrow> verdict" where
  "judge_artifacts task e v =
     (if \<not> modeRequiresArtifact (ct_evidenceMode task) then v
      else
        (let declared = declared_artifacts task in
         if declared = []
         then refuse ''Artifact evidence mode requires an explicitly named artifact declaration'' v
         else
           (let missing = filter (\<lambda>(s, a). vs_blocking s \<and> vs_skipPolicy s = Skip_required \<and>
                                           \<not> artifactDeclarationPassed a e) declared in
            if missing \<noteq> []
            then refuse (''Required declared artifacts have no matching passed evidence: '' @
                   join_comma (map (\<lambda>(s, a). as_artifactId a @ '' ('' @ as_path a @ '')'') missing)) v
            else if \<not> list_ex (\<lambda>(s, a). artifactDeclarationPassed a e) declared
            then refuse ''Artifact evidence mode has no passed evidence matching a declared artifact'' v
            else v)))"

definition deterministic_verdict :: "checked_task \<Rightarrow> completion_evidence \<Rightarrow> string list \<Rightarrow> verdict" where
  "deterministic_verdict task e overrides =
     (let v0 = \<lparr>ve_passed = True, ve_blocked = False, ve_overrideUsed = False, ve_retryNoChange = False,
                ve_reasons = []\<rparr>;
          v1 = judge_changes e (judge_executor e v0);
          v2 = fold (judge_gate overrides) (ev_gates e) v1;
          v3 = judge_no_change (ct_evidenceMode task) e v2;
          v4 = judge_artifacts task e (judge_criteria task e v3) in
      if ve_passed v4 \<and> ve_reasons v4 = []
      then remark ''All deterministic completion requirements passed'' v4 else v4)"

record completion_evaluation =
  cn_decision :: completion_decision
  cn_retryNoChange :: bool
  cn_overrideUsed :: bool

definition parse_decision :: "completion_decision \<Rightarrow> completion_decision result" where
  "parse_decision d = (if valid_decision d then Inr d else Inl ZodError)"

definition decideDeterministicCompletion ::
  "checked_task \<Rightarrow> completion_evidence \<Rightarrow> string list \<Rightarrow> int \<Rightarrow> completion_evaluation result" where
  "decideDeterministicCompletion task e overrides decidedAt =
     (let v = deterministic_verdict task e overrides in
      and_then (parse_decision
        \<lparr>cd_status = (if ve_blocked v then Decision_blocked
                      else if ve_passed v then (if ve_overrideUsed v then Decision_overridden else Decision_passed)
                      else Decision_failed),
         cd_deterministicPassed = ve_passed v, cd_evaluationMode = Eval_none, cd_score = None,
         cd_threshold = None, cd_severityRulesPassed = None, cd_evidenceBundleId = ev_id e,
         cd_assessmentId = None, cd_reasons = ve_reasons v, cd_decidedAt = decidedAt\<rparr>) (\<lambda>d.
      Inr \<lparr>cn_decision = d, cn_retryNoChange = ve_retryNoChange v, cn_overrideUsed = ve_overrideUsed v\<rparr>))"

section \<open>The judge\<close>

datatype evaluation_mode = Mode_deterministic_only | Mode_external | Mode_self | Mode_manual

datatype unavailable_policy = Unavailable_deterministic | Unavailable_pause | Unavailable_fail

datatype judge_severity = Severity_info | Severity_minor | Severity_major | Severity_critical

record judge_finding =
  jf_severity :: judge_severity
  jf_criterion :: "string option"
  jf_message :: string
  jf_evidenceRefs :: "string list"

record criterion_score =
  js_criterion :: string
  js_score :: int
  js_rationale :: "string option"

datatype judge_kind = Judge_external | Judge_self

text \<open>
  An assessment; its profile, summary, lists of remarks, confidence and raw response, which no
  decision reads, are left out.
\<close>

record judge_assessment =
  ja_id :: string
  ja_kind :: judge_kind
  ja_evidenceBundleId :: string
  ja_score :: int
  ja_problems :: "judge_finding list"
  ja_criterionScores :: "criterion_score list"

record rubric_criterion =
  rb_criterion :: string
  rb_description :: string
  rb_weight :: rat
  rb_blocking :: bool

record evaluation_policy =
  ep_mode :: evaluation_mode
  ep_threshold :: int
  ep_maxRevisionAttempts :: nat
  ep_judgeCallRetries :: nat
  ep_onJudgeUnavailable :: unavailable_policy
  ep_blockingSeverities :: "judge_severity list"
  ep_strictWeights :: bool
  ep_criteria :: "rubric_criterion list"

text \<open>The schemas trim the strings they accept.\<close>

definition score_ok :: "int \<Rightarrow> bool" where
  "score_ok n \<longleftrightarrow> 0 \<le> n \<and> n \<le> 100"

definition trim_finding :: "judge_finding \<Rightarrow> judge_finding" where
  "trim_finding f = f\<lparr>jf_criterion := map_option js_trim (jf_criterion f), jf_message := js_trim (jf_message f),
     jf_evidenceRefs := map js_trim (jf_evidenceRefs f)\<rparr>"

definition valid_finding :: "judge_finding \<Rightarrow> bool" where
  "valid_finding f \<longleftrightarrow> nonempty_opt (jf_criterion f) \<and> nonempty (jf_message f) \<and>
     list_all nonempty (jf_evidenceRefs f) \<and> distinct (jf_evidenceRefs f)"

definition trim_score :: "criterion_score \<Rightarrow> criterion_score" where
  "trim_score s = s\<lparr>js_criterion := js_trim (js_criterion s), js_rationale := map_option js_trim (js_rationale s)\<rparr>"

definition valid_score :: "criterion_score \<Rightarrow> bool" where
  "valid_score s \<longleftrightarrow> nonempty (js_criterion s) \<and> score_ok (js_score s) \<and> nonempty_opt (js_rationale s)"

definition parse_assessment :: "judge_assessment \<Rightarrow> judge_assessment result" where
  "parse_assessment a0 =
     (let a = a0\<lparr>ja_id := js_trim (ja_id a0), ja_evidenceBundleId := js_trim (ja_evidenceBundleId a0),
                ja_problems := map trim_finding (ja_problems a0),
                ja_criterionScores := map trim_score (ja_criterionScores a0)\<rparr> in
      if nonempty (ja_id a) \<and> nonempty (ja_evidenceBundleId a) \<and> score_ok (ja_score a) \<and>
         list_all valid_finding (ja_problems a) \<and> list_all valid_score (ja_criterionScores a) \<and>
         distinct (map js_criterion (ja_criterionScores a))
      then Inr a else Inl ZodError)"

definition trim_criterion :: "rubric_criterion \<Rightarrow> rubric_criterion" where
  "trim_criterion c = c\<lparr>rb_criterion := js_trim (rb_criterion c), rb_description := js_trim (rb_description c)\<rparr>"

definition parse_policy :: "(rat list \<Rightarrow> bool) \<Rightarrow> evaluation_policy \<Rightarrow> evaluation_policy result" where
  "parse_policy total100 p0 =
     (let p = p0\<lparr>ep_criteria := map trim_criterion (ep_criteria p0)\<rparr> in
      if score_ok (ep_threshold p) \<and> distinct (ep_blockingSeverities p) \<and> ep_criteria p \<noteq> [] \<and>
         list_all (\<lambda>c. nonempty (rb_criterion c) \<and> nonempty (rb_description c) \<and> 0 < rb_weight c) (ep_criteria p) \<and>
         distinct (map rb_criterion (ep_criteria p)) \<and>
         (ep_strictWeights p \<longrightarrow> total100 (map rb_weight (ep_criteria p)))
      then Inr p else Inl ZodError)"

definition decisionMode :: "evaluation_policy \<Rightarrow> decision_evaluation" where
  "decisionMode p =
     (case ep_mode p of Mode_deterministic_only \<Rightarrow> Eval_none | Mode_external \<Rightarrow> Eval_external
      | Mode_self \<Rightarrow> Eval_self | Mode_manual \<Rightarrow> Eval_manual)"

definition kind_mode :: "judge_kind \<Rightarrow> evaluation_mode" where
  "kind_mode k = (case k of Judge_external \<Rightarrow> Mode_external | Judge_self \<Rightarrow> Mode_self)"

definition deterministicAccepted :: "completion_decision \<Rightarrow> bool" where
  "deterministicAccepted d \<longleftrightarrow> cd_status d = Decision_passed \<or> cd_status d = Decision_overridden"

fun severity_name :: "judge_severity \<Rightarrow> string" where
  "severity_name Severity_info = ''info''"
| "severity_name Severity_minor = ''minor''"
| "severity_name Severity_major = ''major''"
| "severity_name Severity_critical = ''critical''"

definition join_strings :: "string \<Rightarrow> string list \<Rightarrow> string" where
  "join_strings sep xs = (case xs of [] \<Rightarrow> [] | y # ys \<Rightarrow> y @ concat (map (\<lambda>z. sep @ z) ys))"

definition blocking_findings :: "evaluation_policy \<Rightarrow> judge_assessment \<Rightarrow> judge_finding list" where
  "blocking_findings p a = filter (\<lambda>f. jf_severity f \<in> set (ep_blockingSeverities p)) (ja_problems a)"

definition failed_criteria :: "evaluation_policy \<Rightarrow> judge_assessment \<Rightarrow> rubric_criterion list" where
  "failed_criteria p a =
     (let scores = js_map (map (\<lambda>s. (js_criterion s, js_score s)) (ja_criterionScores a)) in
      filter (\<lambda>c. or_default (scores (rb_criterion c)) (-1) < ep_threshold p)
        (filter rb_blocking (ep_criteria p)))"

definition decideAssessedCompletion ::
  "(rat list \<Rightarrow> bool) \<Rightarrow> completion_decision \<Rightarrow> judge_assessment \<Rightarrow> evaluation_policy \<Rightarrow> int \<Rightarrow>
   completion_decision result" where
  "decideAssessedCompletion total100 deterministicDecision assessment0 policy0 decidedAt =
     and_then (parse_policy total100 policy0) (\<lambda>policy.
     and_then (parse_assessment assessment0) (\<lambda>assessment.
     and_then (parse_decision deterministicDecision) (\<lambda>deterministic.
     if \<not> deterministicAccepted deterministic
     then parse_decision (deterministic\<lparr>cd_reasons := cd_reasons deterministic @
            [''Assessment '' @ ja_id assessment @ '' cannot override deterministic gate or evidence failure'']\<rparr>)
     else if ep_mode policy \<noteq> kind_mode (ja_kind assessment)
     then Inl (PlainError ''Assessment kind does not match evaluation mode'')
     else if ja_evidenceBundleId assessment \<noteq> cd_evidenceBundleId deterministic
     then Inl (PlainError ''Assessment targets another evidence bundle'')
     else
       (let blocking = blocking_findings policy assessment;
            failed = failed_criteria policy assessment;
            thresholdPassed = (ep_threshold policy \<le> ja_score assessment);
            severityRulesPassed = (blocking = [] \<and> failed = []) in
        parse_decision
          \<lparr>cd_status = (if thresholdPassed \<and> severityRulesPassed then cd_status deterministic
                        else Decision_revision_required),
           cd_deterministicPassed = True,
           cd_evaluationMode = (case ja_kind assessment of Judge_external \<Rightarrow> Eval_external | Judge_self \<Rightarrow> Eval_self),
           cd_score = Some (ja_score assessment), cd_threshold = Some (ep_threshold policy),
           cd_severityRulesPassed = Some severityRulesPassed,
           cd_evidenceBundleId = cd_evidenceBundleId deterministic,
           cd_assessmentId = Some (ja_id assessment),
           cd_reasons =
             [''Judge score '' @ show_int (ja_score assessment) @
                (if thresholdPassed then '' meets threshold '' else '' is below threshold '') @
                show_int (ep_threshold policy)] @
             (if blocking = [] then []
              else [''Blocking judge findings: '' @
                      join_strings ''; '' (map (\<lambda>f. severity_name (jf_severity f) @ '': '' @ jf_message f) blocking)]) @
             (if failed = [] then []
              else [''Mandatory criteria below threshold or missing: '' @
                      join_comma (map rb_criterion failed)]),
           cd_decidedAt = decidedAt\<rparr>))))"

definition decideUnavailableEvaluation ::
  "(rat list \<Rightarrow> bool) \<Rightarrow> completion_decision \<Rightarrow> evaluation_policy \<Rightarrow> string \<Rightarrow> int \<Rightarrow> completion_decision result" where
  "decideUnavailableEvaluation total100 deterministicDecision policy0 reason decidedAt =
     and_then (parse_policy total100 policy0) (\<lambda>policy.
     and_then (parse_decision deterministicDecision) (\<lambda>deterministic.
     if \<not> deterministicAccepted deterministic then Inr deterministic
     else if ep_onJudgeUnavailable policy = Unavailable_deterministic
     then parse_decision (deterministic\<lparr>cd_evaluationMode := decisionMode policy,
            cd_reasons := cd_reasons deterministic @
              [''Evaluation unavailable; explicit deterministic fallback applied: '' @ reason],
            cd_decidedAt := decidedAt\<rparr>)
     else parse_decision
       \<lparr>cd_status = (if ep_onJudgeUnavailable policy = Unavailable_pause then Decision_blocked else Decision_failed),
        cd_deterministicPassed = True, cd_evaluationMode = decisionMode policy, cd_score = None,
        cd_threshold = None, cd_severityRulesPassed = None,
        cd_evidenceBundleId = cd_evidenceBundleId deterministic, cd_assessmentId = None,
        cd_reasons = [''Evaluation unavailable; policy '' @
          (if ep_onJudgeUnavailable policy = Unavailable_pause then ''pause'' else ''fail'') @
          '' prevents completion: '' @ reason],
        cd_decidedAt = decidedAt\<rparr>))"

section \<open>Facts on the verdict\<close>

text \<open>What the verdict asks for, with no order and no flags.\<close>

definition gate_accepted :: "string list \<Rightarrow> gate_result \<Rightarrow> bool" where
  "gate_accepted overrides g \<longleftrightarrow> \<not> blocking_gate_not_passed g \<or>
     (gr_status g = Gate_skipped_by_cli \<and> gr_gateId g \<in> set overrides)"

definition change_accepted :: "evidence_mode \<Rightarrow> completion_evidence \<Rightarrow> bool" where
  "change_accepted mode e \<longleftrightarrow>
     ce_status (ev_changes e) \<noteq> Out_of_scope \<and> ce_reproducible (ev_changes e) \<and>
     (ce_status (ev_changes e) = Unchanged \<longrightarrow>
        \<not> modeRequiresChange mode \<and> ce_policy (ev_changes e) = Allow_no_change)"

definition criteria_accepted :: "checked_task \<Rightarrow> completion_evidence \<Rightarrow> bool" where
  "criteria_accepted task e \<longleftrightarrow> (modeRequiresCriteria (ct_evidenceMode task) \<longrightarrow>
     (if \<exists>s \<in> set (ct_verification task). executable_spec s \<and> or_default (vs_criterionIds s) [] \<noteq> []
      then \<forall>c \<in> set (ct_criteria task). \<exists>s \<in> set (ct_verification task).
             linked_to c s \<and> linkedVerificationPassed s c e
      else \<exists>g \<in> set (ev_gates e). gr_status g = Gate_passed \<and>
             (\<exists>s \<in> set (ct_verification task). executable_spec s \<and> vs_skipPolicy s \<noteq> Skip_never_run \<and>
                gr_gateId g = vs_id s)))"

definition artifacts_accepted :: "checked_task \<Rightarrow> completion_evidence \<Rightarrow> bool" where
  "artifacts_accepted task e \<longleftrightarrow> (modeRequiresArtifact (ct_evidenceMode task) \<longrightarrow>
     (\<exists>(s, a) \<in> set (declared_artifacts task). artifactDeclarationPassed a e) \<and>
     (\<forall>(s, a) \<in> set (declared_artifacts task).
        vs_blocking s \<and> vs_skipPolicy s = Skip_required \<longrightarrow> artifactDeclarationPassed a e))"

definition evidence_suffices :: "checked_task \<Rightarrow> completion_evidence \<Rightarrow> string list \<Rightarrow> bool" where
  "evidence_suffices task e overrides \<longleftrightarrow>
     ev_executorOutcome e \<noteq> Some Blocked_reported \<and> change_accepted (ct_evidenceMode task) e \<and>
     list_all (gate_accepted overrides) (ev_gates e) \<and> criteria_accepted task e \<and> artifacts_accepted task e"

lemma refuse_simps [simp]:
  "ve_passed (refuse x v) = False" "ve_blocked (refuse x v) = ve_blocked v"
  "ve_overrideUsed (refuse x v) = ve_overrideUsed v" "ve_retryNoChange (refuse x v) = ve_retryNoChange v"
  "ve_reasons (refuse x v) = ve_reasons v @ [x]"
  by (simp_all add: refuse_def)

lemma remark_simps [simp]:
  "ve_passed (remark x v) = ve_passed v" "ve_blocked (remark x v) = ve_blocked v"
  "ve_overrideUsed (remark x v) = ve_overrideUsed v" "ve_retryNoChange (remark x v) = ve_retryNoChange v"
  "ve_reasons (remark x v) = ve_reasons v @ [x]"
  by (simp_all add: remark_def)

lemma judge_gate_passed:
  "ve_passed (judge_gate ov g v) \<longleftrightarrow> ve_passed v \<and> gate_accepted ov g"
  "ve_blocked (judge_gate ov g v) = ve_blocked v"
  "ve_overrideUsed (judge_gate ov g v) \<longleftrightarrow> ve_overrideUsed v \<or>
     blocking_gate_not_passed g \<and> gr_status g = Gate_skipped_by_cli \<and> gr_gateId g \<in> set ov"
  by (auto simp: judge_gate_def gate_accepted_def blocking_gate_not_passed_def)

lemma judge_gates_passed:
  "ve_passed (fold (judge_gate ov) gs v) \<longleftrightarrow> ve_passed v \<and> list_all (gate_accepted ov) gs"
  "ve_blocked (fold (judge_gate ov) gs v) = ve_blocked v"
  "ve_overrideUsed (fold (judge_gate ov) gs v) \<longleftrightarrow> ve_overrideUsed v \<or>
     list_ex (\<lambda>g. blocking_gate_not_passed g \<and> gr_status g = Gate_skipped_by_cli \<and> gr_gateId g \<in> set ov) gs"
  by (induction gs arbitrary: v) (simp_all add: judge_gate_passed conj_assoc disj_assoc)

lemma judge_criterion_passed:
  "ve_passed (judge_criterion task e c v) \<longleftrightarrow> ve_passed v \<and>
     (\<exists>s \<in> set (ct_verification task). linked_to c s \<and> linkedVerificationPassed s c e)"
  "ve_blocked (judge_criterion task e c v) = ve_blocked v"
  "ve_overrideUsed (judge_criterion task e c v) = ve_overrideUsed v"
  by (auto simp: judge_criterion_def Let_def list_ex_iff filter_empty_conv)

lemma judge_criteria_fold:
  "ve_passed (fold (judge_criterion task e) cs v) \<longleftrightarrow> ve_passed v \<and>
     (\<forall>c \<in> set cs. \<exists>s \<in> set (ct_verification task). linked_to c s \<and> linkedVerificationPassed s c e)"
  "ve_blocked (fold (judge_criterion task e) cs v) = ve_blocked v"
  "ve_overrideUsed (fold (judge_criterion task e) cs v) = ve_overrideUsed v"
  by (induction cs arbitrary: v) (simp_all add: judge_criterion_passed conj_assoc)

lemma judge_criteria_passed:
  "ve_passed (judge_criteria task e v) \<longleftrightarrow> ve_passed v \<and> criteria_accepted task e"
  "ve_blocked (judge_criteria task e v) = ve_blocked v"
  "ve_overrideUsed (judge_criteria task e v) = ve_overrideUsed v"
  by (auto simp: judge_criteria_def Let_def judge_criteria_fold criteria_accepted_def list_ex_iff image_iff)

lemma judge_artifacts_passed:
  "ve_passed (judge_artifacts task e v) \<longleftrightarrow> ve_passed v \<and> artifacts_accepted task e"
  "ve_blocked (judge_artifacts task e v) = ve_blocked v"
  "ve_overrideUsed (judge_artifacts task e v) = ve_overrideUsed v"
  by (auto simp: judge_artifacts_def Let_def artifacts_accepted_def list_ex_iff filter_empty_conv)

lemma verdict_passed:
  "ve_passed (deterministic_verdict task e ov) \<longleftrightarrow> evidence_suffices task e ov"
  "ve_blocked (deterministic_verdict task e ov) \<longleftrightarrow> ev_executorOutcome e = Some Blocked_reported"
  "ve_overrideUsed (deterministic_verdict task e ov) \<longleftrightarrow>
     list_ex (\<lambda>g. blocking_gate_not_passed g \<and> gr_status g = Gate_skipped_by_cli \<and> gr_gateId g \<in> set ov) (ev_gates e)"
  by (auto simp: deterministic_verdict_def Let_def judge_artifacts_passed judge_criteria_passed judge_gates_passed
      judge_no_change_def judge_changes_def judge_executor_def evidence_suffices_def change_accepted_def)

text \<open>Every reason has a text, so the verdict passes its schema.\<close>

definition worded :: "verdict \<Rightarrow> bool" where
  "worded v \<longleftrightarrow> list_all nonempty (ve_reasons v)"

lemma worded_fold: "(\<And>x v. worded v \<Longrightarrow> worded (f x v)) \<Longrightarrow> worded v \<Longrightarrow> worded (fold f xs v)"
  by (induction xs arbitrary: v) auto

lemma worded_steps:
  "worded v \<Longrightarrow> worded (judge_executor e v)"
  "worded v \<Longrightarrow> worded (judge_changes e v)"
  "worded v \<Longrightarrow> worded (judge_gate ov g v)"
  "worded v \<Longrightarrow> worded (judge_no_change mode e v)"
  "worded v \<Longrightarrow> worded (judge_criterion task e c v)"
  "worded v \<Longrightarrow> worded (judge_artifacts task e v)"
  by (auto simp: worded_def judge_executor_def judge_changes_def judge_gate_def judge_no_change_def
      judge_criterion_def judge_artifacts_def Let_def nonempty_def)

lemma worded_verdict: "worded (deterministic_verdict task e ov)"
proof -
  have criteria: "worded (judge_criteria task e v)" if "worded v" for v
  proof -
    have "worded (fold (judge_criterion task e) (ct_criteria task) v)"
      using that by (intro worded_fold) (simp_all add: worded_steps)
    moreover have "worded (refuse ''Criteria mode has no passed deterministic verification'' v)"
      using that by (simp add: worded_def nonempty_def)
    ultimately show ?thesis
      using that by (simp add: judge_criteria_def Let_def)
  qed
  let ?v0 = "\<lparr>ve_passed = True, ve_blocked = False, ve_overrideUsed = False, ve_retryNoChange = False, ve_reasons = []\<rparr>"
  have "worded ?v0"
    by (simp add: worded_def)
  then have "worded (judge_changes e (judge_executor e ?v0))"
    by (intro worded_steps)
  then have "worded (fold (judge_gate ov) (ev_gates e) (judge_changes e (judge_executor e ?v0)))"
    by (intro worded_fold) (simp_all add: worded_steps)
  then have "worded (judge_artifacts task e (judge_criteria task e (judge_no_change (ct_evidenceMode task) e
      (fold (judge_gate ov) (ev_gates e) (judge_changes e (judge_executor e ?v0))))))"
    by (intro worded_steps criteria)
  then show ?thesis
    by (simp add: deterministic_verdict_def Let_def) (simp add: worded_def nonempty_def)
qed

lemma decide_Inr:
  assumes "decideDeterministicCompletion task e ov t = Inr c"
  shows "cd_status (cn_decision c) =
      (if ev_executorOutcome e = Some Blocked_reported then Decision_blocked
       else if evidence_suffices task e [] then Decision_passed
       else if evidence_suffices task e ov then Decision_overridden else Decision_failed)"
    and "cd_deterministicPassed (cn_decision c) \<longleftrightarrow> evidence_suffices task e ov"
    and "cd_evidenceBundleId (cn_decision c) = ev_id e"
proof -
  have nil: "evidence_suffices task e [] \<longleftrightarrow> evidence_suffices task e ov \<and>
      \<not> list_ex (\<lambda>g. blocking_gate_not_passed g \<and> gr_status g = Gate_skipped_by_cli \<and> gr_gateId g \<in> set ov) (ev_gates e)"
    by (auto simp: evidence_suffices_def gate_accepted_def list_all_iff list_ex_iff)
  have "evidence_suffices task e ov \<Longrightarrow> ev_executorOutcome e \<noteq> Some Blocked_reported"
    by (simp add: evidence_suffices_def)
  then show "cd_status (cn_decision c) =
      (if ev_executorOutcome e = Some Blocked_reported then Decision_blocked
       else if evidence_suffices task e [] then Decision_passed
       else if evidence_suffices task e ov then Decision_overridden else Decision_failed)"
    using assms
    by (auto simp: decideDeterministicCompletion_def Let_def result_simps parse_decision_def verdict_passed nil
        split: if_splits)
  show "cd_deterministicPassed (cn_decision c) \<longleftrightarrow> evidence_suffices task e ov"
    "cd_evidenceBundleId (cn_decision c) = ev_id e"
    using assms
    by (auto simp: decideDeterministicCompletion_def Let_def result_simps parse_decision_def verdict_passed split: if_splits)
qed

text \<open>A chain of opinions.\<close>

datatype opinion = Assessed judge_assessment evaluation_policy int | Unavailable evaluation_policy string int

definition judge_step ::
  "(rat list \<Rightarrow> bool) \<Rightarrow> opinion \<Rightarrow> completion_decision \<Rightarrow> completion_decision result" where
  "judge_step total100 j d =
     (case j of
        Assessed a p t \<Rightarrow> decideAssessedCompletion total100 d a p t
      | Unavailable p reason t \<Rightarrow> decideUnavailableEvaluation total100 d p reason t)"

primrec after_judges ::
  "(rat list \<Rightarrow> bool) \<Rightarrow> opinion list \<Rightarrow> completion_decision \<Rightarrow> completion_decision result" where
  "after_judges total100 [] d = Inr d"
| "after_judges total100 (j # js) d = and_then (judge_step total100 j d) (after_judges total100 js)"

definition agrees :: "(rat list \<Rightarrow> bool) \<Rightarrow> string \<Rightarrow> opinion \<Rightarrow> bool" where
  "agrees total100 bundleId j \<longleftrightarrow>
     (case j of
        Assessed a0 p0 t \<Rightarrow>
          (\<exists>a p. parse_assessment a0 = Inr a \<and> parse_policy total100 p0 = Inr p \<and>
             ja_evidenceBundleId a = bundleId \<and> ep_mode p = kind_mode (ja_kind a) \<and>
             ep_threshold p \<le> ja_score a \<and> blocking_findings p a = [] \<and> failed_criteria p a = [])
      | Unavailable p0 reason t \<Rightarrow>
          (\<exists>p. parse_policy total100 p0 = Inr p \<and> ep_onJudgeUnavailable p = Unavailable_deterministic))"

lemma parse_decision_Inr: "parse_decision d = Inr d' \<longleftrightarrow> d' = d \<and> valid_decision d"
  by (auto simp: parse_decision_def)

lemma assessed_cases:
  assumes "decideAssessedCompletion total100 d a0 p0 t = Inr d'"
  obtains (refused) "\<not> deterministicAccepted d" "cd_status d' = cd_status d"
      "cd_deterministicPassed d' = cd_deterministicPassed d" "cd_evidenceBundleId d' = cd_evidenceBundleId d"
  | (judged) a p where "deterministicAccepted d" "parse_assessment a0 = Inr a" "parse_policy total100 p0 = Inr p"
      "ja_evidenceBundleId a = cd_evidenceBundleId d" "ep_mode p = kind_mode (ja_kind a)"
      "cd_status d' = (if ep_threshold p \<le> ja_score a \<and> blocking_findings p a = [] \<and> failed_criteria p a = []
         then cd_status d else Decision_revision_required)"
      "cd_evidenceBundleId d' = cd_evidenceBundleId d"
proof -
  obtain p a where pa: "parse_policy total100 p0 = Inr p" "parse_assessment a0 = Inr a"
    using assms by (auto simp: decideAssessedCompletion_def result_simps)
  show thesis
  proof (cases "deterministicAccepted d")
    case False
    then show thesis
      using assms pa by (intro refused) (auto simp: decideAssessedCompletion_def result_simps parse_decision_Inr)
  next
    case True
    then show thesis
      using assms pa
      by (intro judged [of a p])
        (auto simp: decideAssessedCompletion_def result_simps parse_decision_Inr Let_def split: if_splits)
  qed
qed

lemma unavailable_cases:
  assumes "decideUnavailableEvaluation total100 d p0 reason t = Inr d'"
  obtains (refused) "\<not> deterministicAccepted d" "d' = d"
  | (fallback) p where "deterministicAccepted d" "parse_policy total100 p0 = Inr p"
      "ep_onJudgeUnavailable p = Unavailable_deterministic" "cd_status d' = cd_status d"
      "cd_evidenceBundleId d' = cd_evidenceBundleId d"
  | (stopped) "deterministicAccepted d" "\<not> deterministicAccepted d'" "cd_evidenceBundleId d' = cd_evidenceBundleId d"
proof -
  obtain p where p: "parse_policy total100 p0 = Inr p"
    using assms by (auto simp: decideUnavailableEvaluation_def result_simps)
  consider "\<not> deterministicAccepted d" | "deterministicAccepted d" "ep_onJudgeUnavailable p = Unavailable_deterministic"
    | "deterministicAccepted d" "ep_onJudgeUnavailable p \<noteq> Unavailable_deterministic"
    by blast
  then show thesis
  proof cases
    case 1
    then show thesis
      using assms p by (intro refused) (auto simp: decideUnavailableEvaluation_def result_simps parse_decision_Inr)
  next
    case 2
    then show thesis
      using assms p by (intro fallback [of p]) (auto simp: decideUnavailableEvaluation_def result_simps parse_decision_Inr)
  next
    case 3
    then show thesis
      using assms p
      by (intro stopped)
        (auto simp: decideUnavailableEvaluation_def result_simps parse_decision_Inr deterministicAccepted_def split: if_splits)
  qed
qed

lemma judge_step_cases:
  assumes "judge_step total100 j d = Inr d'"
  shows "deterministicAccepted d' \<Longrightarrow>
      cd_status d' = cd_status d \<and> agrees total100 (cd_evidenceBundleId d) j"
    and "\<not> deterministicAccepted d \<Longrightarrow>
      cd_status d' = cd_status d \<and> cd_deterministicPassed d' = cd_deterministicPassed d"
    and "cd_evidenceBundleId d' = cd_evidenceBundleId d"
proof -
  have "(deterministicAccepted d' \<longrightarrow> cd_status d' = cd_status d \<and> agrees total100 (cd_evidenceBundleId d) j) \<and>
    (\<not> deterministicAccepted d \<longrightarrow>
      cd_status d' = cd_status d \<and> cd_deterministicPassed d' = cd_deterministicPassed d) \<and>
    cd_evidenceBundleId d' = cd_evidenceBundleId d"
  proof (cases j)
    case (Assessed a0 p0 t)
    then have "decideAssessedCompletion total100 d a0 p0 t = Inr d'"
      using assms by (simp add: judge_step_def)
    then show ?thesis
    proof (cases rule: assessed_cases)
      case refused
      then show ?thesis by (simp add: deterministicAccepted_def)
    next
      case (judged a p)
      then show ?thesis
        by (auto simp: Assessed agrees_def deterministicAccepted_def split: if_splits)
    qed
  next
    case (Unavailable p0 reason t)
    then have "decideUnavailableEvaluation total100 d p0 reason t = Inr d'"
      using assms by (simp add: judge_step_def)
    then show ?thesis
    proof (cases rule: unavailable_cases)
      case refused
      then show ?thesis by simp
    next
      case (fallback p)
      then have "agrees total100 (cd_evidenceBundleId d) j"
        by (simp add: Unavailable agrees_def)
      then show ?thesis
        using fallback by simp
    next
      case stopped
      then show ?thesis by simp
    qed
  qed
  then show "deterministicAccepted d' \<Longrightarrow> cd_status d' = cd_status d \<and> agrees total100 (cd_evidenceBundleId d) j"
    and "\<not> deterministicAccepted d \<Longrightarrow> cd_status d' = cd_status d \<and> cd_deterministicPassed d' = cd_deterministicPassed d"
    and "cd_evidenceBundleId d' = cd_evidenceBundleId d"
    by blast+
qed

lemma after_judges_cases:
  assumes "after_judges total100 js d = Inr d'"
  shows "(deterministicAccepted d' \<longrightarrow>
      cd_status d' = cd_status d \<and> list_all (agrees total100 (cd_evidenceBundleId d)) js) \<and>
    (\<not> deterministicAccepted d \<longrightarrow>
      cd_status d' = cd_status d \<and> cd_deterministicPassed d' = cd_deterministicPassed d)"
  using assms
proof (induction js arbitrary: d)
  case (Cons j js)
  then obtain d1 where step: "judge_step total100 j d = Inr d1" and rest: "after_judges total100 js d1 = Inr d'"
    by (auto simp: result_simps)
  note one = judge_step_cases [OF step]
  note more = Cons.IH [OF rest]
  have "cd_status d' = cd_status d \<and> list_all (agrees total100 (cd_evidenceBundleId d)) (j # js)"
    if "deterministicAccepted d'"
  proof -
    have s: "cd_status d' = cd_status d1" "list_all (agrees total100 (cd_evidenceBundleId d1)) js"
      using more that by blast+
    then have "deterministicAccepted d1"
      using that by (simp add: deterministicAccepted_def)
    from one(1) [OF this] show ?thesis
      using s one(3) by simp
  qed
  moreover have "cd_status d' = cd_status d \<and> cd_deterministicPassed d' = cd_deterministicPassed d"
    if "\<not> deterministicAccepted d"
  proof -
    have s: "cd_status d1 = cd_status d" "cd_deterministicPassed d1 = cd_deterministicPassed d"
      using one(2) [OF that] by blast+
    then have "\<not> deterministicAccepted d1"
      using that by (simp add: deterministicAccepted_def)
    then show ?thesis
      using more s by simp
  qed
  ultimately show ?case
    by blast
qed simp

lemma list_all2_member: "list_all2 P xs ys \<Longrightarrow> x \<in> set xs \<Longrightarrow> \<exists>y \<in> set ys. P x y"
  by (induction rule: list_all2_induct) auto

section \<open>Properties\<close>

text \<open>
  C37. The deterministic verdict accepts exactly the evidence that suffices: no blocking report,
  a change within the scope that can be reproduced and is there when it has to be, every blocking
  gate passed or skipped with leave, every criterion linked to a gate that passed, and the
  declared artifacts there. It is passed when no override was needed and overridden when one was.
\<close>

theorem deterministic_verdict_characterised:
  assumes "nonempty (ev_id e)"
  shows "\<exists>c. decideDeterministicCompletion task e overrides decidedAt = Inr c \<and>
    (cd_deterministicPassed (cn_decision c) \<longleftrightarrow> evidence_suffices task e overrides) \<and>
    (cd_status (cn_decision c) = Decision_passed \<longleftrightarrow> evidence_suffices task e []) \<and>
    (cd_status (cn_decision c) = Decision_overridden \<longleftrightarrow>
       evidence_suffices task e overrides \<and> \<not> evidence_suffices task e []) \<and>
    (cd_status (cn_decision c) = Decision_blocked \<longleftrightarrow> ev_executorOutcome e = Some Blocked_reported)"
proof -
  obtain c where c: "decideDeterministicCompletion task e overrides decidedAt = Inr c"
    using assms worded_verdict [of task e overrides]
    by (auto simp: decideDeterministicCompletion_def Let_def parse_decision_def valid_decision_def
        percentage_opt_def nonempty_opt_def worded_def)
  have "evidence_suffices task e ov \<Longrightarrow> ev_executorOutcome e \<noteq> Some Blocked_reported" for ov
    by (simp add: evidence_suffices_def)
  then show ?thesis
    using c decide_Inr [OF c] by (auto split: if_splits)
qed

text \<open>
  C12. A judge has no authority. Whatever assessments and failures to reach a judge follow a
  verdict, and in whatever order, the outcome accepts only what the verdict accepted, and only
  when every assessment was of that evidence, reached its threshold and left no blocking finding
  and no mandatory criterion below the threshold, and every failure was one the policy falls back
  from; and a verdict that refused stays as it was.
\<close>

theorem judge_is_no_authority:
  assumes "after_judges total100 opinions d = Inr d'"
  shows "(deterministicAccepted d' \<longrightarrow>
      cd_status d' = cd_status d \<and> list_all (agrees total100 (cd_evidenceBundleId d)) opinions) \<and>
    (\<not> deterministicAccepted d \<longrightarrow>
      cd_status d' = cd_status d \<and> cd_deterministicPassed d' = cd_deterministicPassed d)"
  by (rule after_judges_cases [OF assms])


text \<open>
  C38. A gate that does not apply blocks its task for good. The gate run does not count a blocking
  gate that is not applicable as a failure, but no verdict accepts evidence with its result, and
  no authorization on that evidence completes the task, with or without an override.
\<close>

theorem inapplicable_gate_blocks_completion:
  assumes "valid_verification_spec s" and "vs_blocking s"
    and "evaluateVerificationApplicability p opts s w = Not_applicable reason"
    and "runVerification p reg opts s w = (w', Inr r)"
    and "gateResultFromVerification r = Inr g" and "g \<in> set (ev_gates e)"
    and "decideDeterministicCompletion task e overrides decidedAt = Inr c"
  shows "\<not> isBlockingVerificationFailure r \<and> \<not> deterministicAccepted (cn_decision c) \<and>
    (au_evidence a = evidence_bundle.truncate e \<longrightarrow> \<not> ok (completeTask t a)) \<and>
    (oz_evidence z = evidence_bundle.truncate e \<longrightarrow> \<not> ok (completeTaskWithOverride t z))"
proof -
  have "executable_spec s" "vs_skipPolicy s \<noteq> Skip_never_run"
    using assms(1,2) by (auto simp: valid_verification_spec_def executable_spec_def)
  then have r: "vr_status r = Gate_not_applicable" "vr_blocking r"
    using assms(2-4) by (auto simp: runVerification_def Let_def baseResult_def)
  then have g: "gr_status g = Gate_not_applicable" "gr_blocking g"
    using assms(5) by (auto simp: gateResultFromVerification_def Let_def split: if_splits)
  then have "\<not> gate_accepted ov g" for ov
    by (simp add: gate_accepted_def blocking_gate_not_passed_def)
  then have "\<not> evidence_suffices task e ov" for ov
    using assms(6) by (auto simp: evidence_suffices_def list_all_iff)
  then have "\<not> deterministicAccepted (cn_decision c)"
    using decide_Inr(1) [OF assms(7)] by (simp add: deterministicAccepted_def)
  moreover have "g \<in> set (ev_gates (evidence_bundle.truncate e))"
    using assms(6) by (simp add: evidence_bundle.defs)
  then have "\<not> ok (completeTask t a)" if "au_evidence a = evidence_bundle.truncate e"
    using that g by (auto simp: ok_iff completeTask_Inr completion_granted_def gate_settled_def)
  moreover have "\<not> ok (completeTaskWithOverride t z)" if "oz_evidence z = evidence_bundle.truncate e"
    using that g \<open>g \<in> set (ev_gates (evidence_bundle.truncate e))\<close>
    by (auto simp: ok_iff completeTaskWithOverride_Inr override_granted_def gate_settled_def)
  ultimately show ?thesis
    using r by (simp add: isBlockingVerificationFailure_def)
qed

section \<open>Witnesses\<close>

text \<open>A task with one required command gate, whose evidence an external judge assesses.\<close>

definition gate_sample_spec :: "gate_applicability option \<Rightarrow> verification_spec" where
  "gate_sample_spec applicability =
     \<lparr>vs_id = ''g'', vs_kind = Spec_command \<lparr>gc_executable = ''make'', gc_args = [], gc_successExitCodes = [0]\<rparr>,
      vs_category = ''test'', vs_skipPolicy = Skip_required, vs_blocking = True, vs_attempts = None,
      vs_timeoutMs = None, vs_applicability = applicability, vs_criterionIds = None\<rparr>"

definition gate_sample_ports :: "unit gate_ports" where
  "gate_sample_ports =
     \<lparr>gp_now = \<lambda>_. 0, gp_parseDate = \<lambda>_. None, gp_elapsed = \<lambda>_ _. 0, gp_aborted = \<lambda>_. None,
      gp_timer = \<lambda>_ _ _ _. None, gp_platform = ''linux'', gp_message = \<lambda>_. ''error'',
      gp_target = \<lambda>_ _. Inr True, gp_isFile = \<lambda>_ _. True, gp_size = \<lambda>_ _. 0, gp_sha256 = \<lambda>_ _. [],
      gp_jsonSchema = \<lambda>_ _ w. (w, Inr (outcome_of Gate_passed None)),
      gp_command = \<lambda>_ w. (w, Inr \<lparr>cx_error = None, cx_exitCode = Some 0, cx_deadlineExceeded = False,
        cx_timedOut = False, cx_stdout = [], cx_stderr = []\<rparr>),
      gp_persistOutput = None\<rparr>"

definition gate_sample_registry :: "unit gate_registry" where
  "gate_sample_registry =
     (let pass = (\<lambda>s n w. (w, Inr (outcome_of Gate_passed None))) in
      case createDefaultGateExecutorRegistry gate_sample_ports pass pass pass of
        Inr r \<Rightarrow> r | Inl e \<Rightarrow> \<lparr>gy_executors = Map.empty, gy_plugins = Map.empty\<rparr>)"

definition gate_sample_options :: run_options where
  "gate_sample_options =
     \<lparr>ro_deadlineAt = None, ro_platform = None, ro_changedPaths = None, ro_skipTests = False,
      ro_skipLint = False, ro_skipGateIdsOrCategories = [], ro_noGates = False, ro_fast = False,
      ro_force = False, ro_failFast = False\<rparr>"

definition gate_sample_task :: "gate_applicability option \<Rightarrow> checked_task" where
  "gate_sample_task applicability =
     \<lparr>ct_criteria = [], ct_verification = [gate_sample_spec applicability], ct_evidenceMode = Mode_change_only\<rparr>"

definition gate_sample_results :: "gate_applicability option \<Rightarrow> verification_result list" where
  "gate_sample_results applicability =
     (case runVerifications gate_sample_ports gate_sample_registry gate_sample_options
        (ct_verification (gate_sample_task applicability)) () of (w, Inr rs) \<Rightarrow> rs | _ \<Rightarrow> [])"

definition gate_sample_gates :: "gate_applicability option \<Rightarrow> gate_result list" where
  "gate_sample_gates applicability =
     List.map_filter (\<lambda>r. case gateResultFromVerification r of Inr g \<Rightarrow> Some g | Inl e \<Rightarrow> None)
       (gate_sample_results applicability)"

definition gate_sample_evidence :: "gate_applicability option \<Rightarrow> completion_evidence" where
  "gate_sample_evidence applicability =
     evidence_bundle.extend (sample_evidence (gate_sample_gates applicability))
       \<lparr>ev_artifacts = [], ev_executorOutcome = Some Work_submitted\<rparr>"

definition gate_sample_decided :: "gate_applicability option \<Rightarrow> completion_evaluation" where
  "gate_sample_decided applicability =
     (case decideDeterministicCompletion (gate_sample_task applicability) (gate_sample_evidence applicability) [] 5 of
        Inr c \<Rightarrow> c
      | Inl e \<Rightarrow> \<lparr>cn_decision = sample_decision Decision_failed, cn_retryNoChange = False, cn_overrideUsed = False\<rparr>)"

definition judge_sample :: opinion where
  "judge_sample = Assessed
     \<lparr>ja_id = ''j'', ja_kind = Judge_external, ja_evidenceBundleId = ''e'', ja_score = 90, ja_problems = [],
      ja_criterionScores = []\<rparr>
     \<lparr>ep_mode = Mode_external, ep_threshold = 85, ep_maxRevisionAttempts = 1, ep_judgeCallRetries = 1,
      ep_onJudgeUnavailable = Unavailable_pause, ep_blockingSeverities = [Severity_critical],
      ep_strictWeights = False,
      ep_criteria = [\<lparr>rb_criterion = ''c'', rb_description = ''d'', rb_weight = 1, rb_blocking = False\<rparr>]\<rparr> 6"

definition judge_sample_decision :: completion_decision where
  "judge_sample_decision =
     (case after_judges (\<lambda>_. True) [judge_sample] (cn_decision (gate_sample_decided None)) of
        Inr d \<Rightarrow> d | Inl e \<Rightarrow> sample_decision Decision_failed)"

definition gate_sample_authorization :: completion_authorization where
  "gate_sample_authorization =
     \<lparr>au_decision = judge_sample_decision, au_evidence = sample_evidence (gate_sample_gates None),
      au_persistence = sample_receipt\<rparr>"

definition other_platform :: "gate_applicability option" where
  "other_platform = Some \<lparr>ga_platforms = Some [''win32''], ga_conditions = None\<rparr>"

lemma gate_sample_truncate: "evidence_bundle.truncate (gate_sample_evidence x) = sample_evidence (gate_sample_gates x)"
  "ev_gates (gate_sample_evidence x) = gate_sample_gates x" "ev_id (gate_sample_evidence x) = ''e''"
  by (simp_all add: gate_sample_evidence_def evidence_bundle.defs sample_evidence_def)

lemma gate_sample_runs:
  "runVerifications gate_sample_ports gate_sample_registry gate_sample_options
     (ct_verification (gate_sample_task None)) () = ((), Inr (gate_sample_results None))"
  "list_all2 (\<lambda>r g. gateResultFromVerification r = Inr g) (gate_sample_results None) (gate_sample_gates None)"
  by code_simp+

lemma gate_sample_accepted:
  "decideDeterministicCompletion (gate_sample_task None) (gate_sample_evidence None) [] 5 = Inr (gate_sample_decided None)"
  "after_judges (\<lambda>_. True) [judge_sample] (cn_decision (gate_sample_decided None)) = Inr judge_sample_decision"
  "ok (completeTask sample_task gate_sample_authorization)"
  by code_simp+

theorem deterministic_verdict_characterised_witness:
  "\<exists>c. decideDeterministicCompletion (gate_sample_task None) (gate_sample_evidence None) [] 5 = Inr c \<and>
    (cd_deterministicPassed (cn_decision c) \<longleftrightarrow> evidence_suffices (gate_sample_task None) (gate_sample_evidence None) [])"
  using deterministic_verdict_characterised [of "gate_sample_evidence None" "gate_sample_task None" "[]" 5]
  by (auto simp: gate_sample_truncate nonempty_def)

theorem judge_is_no_authority_witness:
  "cd_status judge_sample_decision = cd_status (cn_decision (gate_sample_decided None)) \<and>
   agrees (\<lambda>_. True) (cd_evidenceBundleId (cn_decision (gate_sample_decided None))) judge_sample"
proof -
  have "deterministicAccepted judge_sample_decision" by code_simp
  then show ?thesis
    using judge_is_no_authority [OF gate_sample_accepted(2)] by simp
qed


lemma inapplicable_sample:
  "evaluateVerificationApplicability gate_sample_ports gate_sample_options (gate_sample_spec other_platform) () =
     Not_applicable ''Gate is not applicable on platform linux; expected win32''"
  "valid_verification_spec (gate_sample_spec other_platform)"
  "runVerification gate_sample_ports gate_sample_registry gate_sample_options (gate_sample_spec other_platform) () =
     ((), Inr (hd (gate_sample_results other_platform)))"
  "gateResultFromVerification (hd (gate_sample_results other_platform)) = Inr (hd (gate_sample_gates other_platform))"
  "hd (gate_sample_gates other_platform) \<in> set (gate_sample_gates other_platform)"
  "decideDeterministicCompletion (gate_sample_task other_platform) (gate_sample_evidence other_platform) [] 5 =
     Inr (gate_sample_decided other_platform)"
  by code_simp+

theorem inapplicable_gate_blocks_completion_witness:
  "\<not> isBlockingVerificationFailure (hd (gate_sample_results other_platform)) \<and>
   \<not> deterministicAccepted (cn_decision (gate_sample_decided other_platform))"
proof -
  have "vs_blocking (gate_sample_spec other_platform)"
    by (simp add: gate_sample_spec_def)
  from inapplicable_gate_blocks_completion [OF inapplicable_sample(2) this inapplicable_sample(1,3,4) _ inapplicable_sample(6)]
  show ?thesis
    using inapplicable_sample(5) by (simp add: gate_sample_truncate)
qed

end
