(* ===== verification/ToolPermissions.thy ===== *)
theory ToolPermissions
  imports Acts Lifecycle Scheduler
begin

text \<open>
  The permission of a tool call: \<^verbatim>\<open>packages/tool-host/src/permissions.ts\<close> and the part of
  \<^verbatim>\<open>contracts.ts\<close> it reads. The scopes and protected paths of a policy are read by the path
  resolver, whose answers are the facts; they are left out. The prompt is a function on the
  outside, and so are the digest of a request, its fresh identifier and the clock.
\<close>

section \<open>Contracts\<close>

datatype tool_risk =
    Risk_read | Risk_write | Risk_process | Risk_network | Risk_external_effect | Risk_destructive

datatype tool_action = Tool_allow | Tool_deny | Tool_ask

datatype tool_role = Role_executor | Role_judge

datatype security_mode = Security_safe | Security_auto | Security_dangerous

record tool_policy =
  tp_role :: tool_role
  tp_securityMode :: security_mode
  tp_interactive :: bool
  tp_headlessAsk :: tool_action
  tp_toolRules :: "(string \<times> tool_action) list"
  tp_allowedTools :: "string list option"
  tp_allowUnlistedProcess :: bool
  tp_allowDestructive :: bool
  tp_allowShell :: bool

record permission_facts =
  fa_risk :: tool_risk
  fa_mutatesWorkspace :: bool
  fa_pathProtected :: bool
  fa_pathInReadScope :: bool
  fa_pathInWriteScope :: bool
  fa_commandRuleId :: "string option"
  fa_commandRuleRisk :: "tool_risk option"
  fa_shell :: bool

record tool_authorization =
  ta_requestId :: string
  ta_requestHash :: string
  ta_action :: tool_action
  ta_reason :: string
  ta_ruleId :: "string option"
  ta_auditedOverride :: bool
  ta_decidedAt :: int

definition valid_tool_authorization :: "tool_authorization \<Rightarrow> bool" where
  "valid_tool_authorization a \<longleftrightarrow>
     nonempty (ta_requestId a) \<and> sha256 (ta_requestHash a) \<and> nonempty (ta_reason a) \<and> nonempty_opt (ta_ruleId a)"

record permission_request =
  tq_id :: string
  tq_requestHash :: string
  tq_toolCallId :: string
  tq_tool :: string
  tq_argumentsHash :: string
  tq_risk :: tool_risk
  tq_role :: tool_role
  tq_securityMode :: security_mode
  tq_reason :: string
  tq_requestedAt :: int

definition valid_permission_request :: "permission_request \<Rightarrow> bool" where
  "valid_permission_request q \<longleftrightarrow>
     nonempty (tq_id q) \<and> sha256 (tq_requestHash q) \<and> nonempty (tq_toolCallId q) \<and> nonempty (tq_tool q) \<and>
     sha256 (tq_argumentsHash q) \<and> nonempty (tq_reason q)"

record permission_response =
  ts_requestId :: string
  ts_requestHash :: string
  ts_action :: tool_action
  ts_reason :: string
  ts_respondedAt :: int

definition valid_permission_response :: "permission_response \<Rightarrow> bool" where
  "valid_permission_response r \<longleftrightarrow>
     nonempty (ts_requestId r) \<and> sha256 (ts_requestHash r) \<and> nonempty (ts_reason r) \<and> ts_action r \<noteq> Tool_ask"

text \<open>What a tool may throw: its own error, the loss of its transport, or anything else.\<close>

datatype tool_outcome =
    Outcome_success | Outcome_nonzero | Outcome_denied | Outcome_invalid | Outcome_error
  | Outcome_timeout | Outcome_cancelled | Outcome_unsettled

datatype tool_recovery =
    Safe_to_retry | Reconcile_by_precondition | Effect_confirmed | Effect_absent
  | Unknown_external_effect | Manual_review

datatype effect_kind = Effect_read | Effect_created | Effect_modified | Effect_process | Effect_artifact

record tool_effect =
  te_path :: "string option"
  te_kind :: effect_kind
  te_ref :: "string option"

datatype tool_failure =
    Tool_host_error string string tool_outcome tool_recovery bool "string list" "tool_effect list"
  | Effect_unsettled string
  | Other_failure string

definition errorMessage :: "tool_failure \<Rightarrow> string" where
  "errorMessage e =
     (case e of Tool_host_error code message a b c d f \<Rightarrow> message
      | Effect_unsettled message \<Rightarrow> message | Other_failure message \<Rightarrow> message)"

definition tool_error :: "string \<Rightarrow> string \<Rightarrow> tool_outcome \<Rightarrow> tool_failure" where
  "tool_error code message outcome = Tool_host_error code message outcome Manual_review False [] []"

definition invalid_value :: tool_failure where
  "invalid_value = Other_failure ''ZodError''"

section \<open>The decision\<close>

record rule_decision =
  rd_action :: tool_action
  rd_reason :: string
  rd_ruleId :: "string option"
  rd_auditedOverride :: bool

definition deny :: "string \<Rightarrow> rule_decision" where
  "deny reason = \<lparr>rd_action = Tool_deny, rd_reason = reason, rd_ruleId = None, rd_auditedOverride = False\<rparr>"

definition tool_rule :: "string \<Rightarrow> string option" where
  "tool_rule toolName = Some (''tool:'' @ toolName)"

definition decideToolPermission :: "tool_policy \<Rightarrow> permission_facts \<Rightarrow> string \<Rightarrow> rule_decision" where
  "decideToolPermission policy facts toolName =
     (let risk = fa_risk facts;
          nominalRule = (if toolName = [] then None else map_of (tp_toolRules policy) toolName);
          contained = (\<lambda>text. if nominalRule = Some Tool_allow
            then \<lparr>rd_action = Tool_allow,
                  rd_reason = ''Named tool policy allows '' @ toolName @ '' inside the authorized scope'',
                  rd_ruleId = tool_rule toolName, rd_auditedOverride = False\<rparr>
            else \<lparr>rd_action = Tool_allow, rd_reason = text, rd_ruleId = None, rd_auditedOverride = False\<rparr>) in
      if fa_pathProtected facts
      then deny ''Control-plane and explicitly protected paths are never tool-writable or readable''
      else if tp_role policy = Role_judge \<and> (fa_mutatesWorkspace facts \<or> risk \<noteq> Risk_read)
      then deny ''Judge sessions are read-only and cannot receive mutable or process capabilities''
      else if fa_shell facts \<and> \<not> tp_allowShell policy
      then deny ''Shell execution is disabled by the effective command-owned policy''
      else if risk = Risk_read \<and> \<not> fa_pathInReadScope facts
      then deny ''Read is outside all authorized scopes''
      else if risk = Risk_write \<and> \<not> fa_pathInWriteScope facts
      then deny ''Write is outside all authorized scopes''
      else if fa_mutatesWorkspace facts \<and> (risk = Risk_process \<or> risk = Risk_destructive) \<and>
              \<not> fa_pathInWriteScope facts
      then deny ''Process working directory is outside all authorized write scopes''
      else if toolName = ''artifact.publish'' \<and> \<not> fa_pathInReadScope facts
      then deny ''Artifact source is outside all authorized read scopes''
      else if nominalRule = Some Tool_deny
      then (deny (''Named tool policy denies '' @ toolName))\<lparr>rd_ruleId := tool_rule toolName\<rparr>
      else if nominalRule = Some Tool_ask
      then \<lparr>rd_action = Tool_ask, rd_reason = ''Named tool policy requires confirmation for '' @ toolName,
            rd_ruleId = tool_rule toolName, rd_auditedOverride = False\<rparr>
      else if risk = Risk_read then contained ''Read is contained by an authorized scope''
      else if risk = Risk_write then contained ''Preconditioned write is contained by an authorized scope''
      else if risk = Risk_destructive \<or> fa_commandRuleRisk facts = Some Risk_destructive
      then
        (if tp_securityMode policy = Security_safe
         then deny ''Safe security mode denies destructive operations''
         else if tp_securityMode policy = Security_dangerous \<and> tp_allowDestructive policy \<and>
                 truthy_opt (fa_commandRuleId facts)
         then \<lparr>rd_action = Tool_allow,
               rd_reason = ''Explicit dangerous-mode rule authorizes this destructive command'',
               rd_ruleId = fa_commandRuleId facts, rd_auditedOverride = True\<rparr>
         else \<lparr>rd_action = Tool_ask,
               rd_reason = ''Destructive operation requires an explicit per-call decision'',
               rd_ruleId = (if truthy_opt (fa_commandRuleId facts) then fa_commandRuleId facts else None),
               rd_auditedOverride = True\<rparr>)
      else if risk = Risk_process
      then
        (if truthy_opt (fa_commandRuleId facts)
         then \<lparr>rd_action = Tool_allow, rd_reason = ''Command matches an explicit executable and argv rule'',
               rd_ruleId = fa_commandRuleId facts, rd_auditedOverride = False\<rparr>
         else if tp_securityMode policy = Security_safe
         then deny (''Safe security mode requires an explicit executable and argv rule; '' @
                    ''a named tool allow cannot authorize an unlisted command'')
         else if tp_securityMode policy = Security_dangerous \<and> tp_allowUnlistedProcess policy
         then \<lparr>rd_action = Tool_allow,
               rd_reason = ''Dangerous mode explicitly permits unlisted process execution'',
               rd_ruleId = None, rd_auditedOverride = True\<rparr>
         else \<lparr>rd_action = Tool_ask,
               rd_reason = ''Unlisted process execution requires an explicit per-call decision'',
               rd_ruleId = None, rd_auditedOverride = (tp_securityMode policy = Security_dangerous)\<rparr>)
      else if nominalRule = Some Tool_allow
      then \<lparr>rd_action = Tool_allow,
            rd_reason = ''Named tool policy allows '' @ toolName @ '' after hard invariants'',
            rd_ruleId = tool_rule toolName, rd_auditedOverride = True\<rparr>
      else if tp_securityMode policy = Security_auto \<or> tp_securityMode policy = Security_dangerous
      then \<lparr>rd_action = Tool_ask,
            rd_reason = ''Network and external-effect tools require an explicit per-call decision'',
            rd_ruleId = None, rd_auditedOverride = (tp_securityMode policy = Security_dangerous)\<rparr>
      else deny ''Safe mode denies network and external-effect tools without a named allow rule'')"

section \<open>The authorization of a call\<close>

record 'a tool_call =
  tl_id :: string
  tl_modelCallId :: string
  tl_providerToolCallId :: string
  tl_name :: string
  tl_arguments :: 'a
  tl_idempotencyKey :: "string option"
  tl_requestedAt :: int

definition valid_tool_call :: "'a tool_call \<Rightarrow> bool" where
  "valid_tool_call c \<longleftrightarrow>
     nonempty (tl_id c) \<and> nonempty (tl_modelCallId c) \<and> nonempty (tl_providerToolCallId c) \<and>
     nonempty (tl_name c) \<and> nonempty_opt (tl_idempotencyKey c)"

text \<open>
  The outside as the host sees it: clock, fresh identifiers, digests and the prompt, which may be
  missing.
\<close>

record ('a, 'o) host_env =
  he_now :: "'o \<Rightarrow> int"
  he_uuid :: "'o \<Rightarrow> string"
  he_requestHash :: "permission_request \<Rightarrow> string"
  he_argumentsHash :: "'a \<Rightarrow> string"
  he_idempotencyHash :: "string \<Rightarrow> string \<Rightarrow> string \<Rightarrow> string"
  he_prompt :: "(permission_request \<Rightarrow> 'o \<Rightarrow> 'o \<times> (tool_failure + permission_response)) option"
  he_emit :: "string \<Rightarrow> string \<Rightarrow> 'o \<Rightarrow> 'o \<times> (tool_failure + unit)"

definition parse_tool_authorization :: "tool_authorization \<Rightarrow> tool_failure + tool_authorization" where
  "parse_tool_authorization a = (if valid_tool_authorization a then Inr a else Inl invalid_value)"

text \<open>The digest of a request is taken of its projection, without identifier, digest and time.\<close>

definition permission_projection ::
  "'a tool_call \<Rightarrow> string \<Rightarrow> tool_risk \<Rightarrow> tool_policy \<Rightarrow> string \<Rightarrow> permission_request" where
  "permission_projection call argumentsHash risk policy reason =
     \<lparr>tq_id = [], tq_requestHash = [], tq_toolCallId = tl_id call, tq_tool = tl_name call,
      tq_argumentsHash = argumentsHash, tq_risk = risk, tq_role = tp_role policy,
      tq_securityMode = tp_securityMode policy, tq_reason = reason, tq_requestedAt = 0\<rparr>"

definition authorizeToolCall ::
  "('a, 'o) host_env \<Rightarrow> 'a tool_call \<Rightarrow> string \<Rightarrow> tool_policy \<Rightarrow> permission_facts \<Rightarrow> 'o \<Rightarrow>
   'o \<times> (tool_failure + tool_authorization)" where
  "authorizeToolCall env call argumentsHash policy facts w =
     (let decision = decideToolPermission policy facts (tl_name call);
          projection = permission_projection call argumentsHash (fa_risk facts) policy (rd_reason decision);
          requestHash = he_requestHash env projection;
          requestId = ''permission-'' @ he_uuid env w;
          ruleId = (if truthy_opt (rd_ruleId decision) then rd_ruleId decision else None) in
      if rd_action decision \<noteq> Tool_ask
      then (w, parse_tool_authorization
              \<lparr>ta_requestId = requestId, ta_requestHash = requestHash, ta_action = rd_action decision,
               ta_reason = rd_reason decision, ta_ruleId = ruleId,
               ta_auditedOverride = rd_auditedOverride decision, ta_decidedAt = he_now env w\<rparr>)
      else
        (let request = projection\<lparr>tq_id := requestId, tq_requestHash := requestHash,
                                  tq_requestedAt := he_now env w\<rparr> in
         if \<not> valid_permission_request request then (w, Inl invalid_value)
         else if \<not> tp_interactive policy
         then
           (let allowed = (tp_headlessAsk policy = Tool_allow) in
            (w, parse_tool_authorization
              \<lparr>ta_requestId = requestId, ta_requestHash = requestHash,
               ta_action = (if allowed then Tool_allow else Tool_deny),
               ta_reason = (if allowed then ''Headless ask was explicitly configured to allow and remains audited''
                            else ''Headless ask defaults to deny; no invisible prompt was opened''),
               ta_ruleId = ruleId, ta_auditedOverride = allowed \<or> rd_auditedOverride decision,
               ta_decidedAt = he_now env w\<rparr>))
         else
           (case he_prompt env of
              None \<Rightarrow> (w, Inl (tool_error ''RALPH_TOOL_PERMISSION_PROMPT_UNAVAILABLE''
                        ''Interactive permission requires a command-owned prompt port'' Outcome_denied))
            | Some prompt \<Rightarrow>
                act_then (prompt request) (\<lambda>response w'.
                  if \<not> valid_permission_response response then (w', Inl invalid_value)
                  else if ts_requestId response \<noteq> tq_id request \<or>
                          ts_requestHash response \<noteq> tq_requestHash request
                  then (w', Inl (tool_error ''RALPH_TOOL_PERMISSION_RESPONSE_MISMATCH''
                         ''Permission response is not bound to the pending request'' Outcome_denied))
                  else (w', parse_tool_authorization
                         \<lparr>ta_requestId = requestId, ta_requestHash = requestHash,
                          ta_action = ts_action response, ta_reason = ts_reason response,
                          ta_ruleId = ruleId, ta_auditedOverride = rd_auditedOverride decision,
                          ta_decidedAt = ts_respondedAt response\<rparr>)) w)))"

section \<open>Facts on permissions\<close>

text \<open>The hard limits: what no rule, mode, prompt or default can grant.\<close>

definition within_limits :: "tool_policy \<Rightarrow> permission_facts \<Rightarrow> string \<Rightarrow> bool" where
  "within_limits policy facts toolName \<longleftrightarrow>
     \<not> fa_pathProtected facts \<and>
     (tp_role policy = Role_judge \<longrightarrow> fa_risk facts = Risk_read \<and> \<not> fa_mutatesWorkspace facts) \<and>
     (fa_shell facts \<longrightarrow> tp_allowShell policy) \<and>
     (fa_risk facts = Risk_read \<longrightarrow> fa_pathInReadScope facts) \<and>
     (fa_risk facts = Risk_write \<longrightarrow> fa_pathInWriteScope facts) \<and>
     (fa_mutatesWorkspace facts \<and> fa_risk facts \<in> {Risk_process, Risk_destructive} \<longrightarrow> fa_pathInWriteScope facts) \<and>
     (toolName = ''artifact.publish'' \<longrightarrow> fa_pathInReadScope facts) \<and>
     (toolName \<noteq> [] \<longrightarrow> map_of (tp_toolRules policy) toolName \<noteq> Some Tool_deny)"

text \<open>In the safe mode nothing is left to a question but what a named rule asks about.\<close>

definition safe_granted :: "tool_policy \<Rightarrow> permission_facts \<Rightarrow> string \<Rightarrow> bool" where
  "safe_granted policy facts toolName \<longleftrightarrow>
     map_of (tp_toolRules policy) toolName = Some Tool_ask \<or>
     fa_risk facts \<in> {Risk_read, Risk_write} \<or>
     fa_risk facts = Risk_process \<and> fa_commandRuleRisk facts \<noteq> Some Risk_destructive \<and>
       truthy_opt (fa_commandRuleId facts) \<or>
     fa_risk facts \<in> {Risk_network, Risk_external_effect} \<and> fa_commandRuleRisk facts \<noteq> Some Risk_destructive \<and>
       map_of (tp_toolRules policy) toolName = Some Tool_allow"

lemma deny_action [simp]: "rd_action (deny x) = Tool_deny"
  by (simp add: deny_def)

lemma decision_within_limits:
  assumes "rd_action (decideToolPermission policy facts toolName) \<noteq> Tool_deny"
  shows "within_limits policy facts toolName"
  using assms
  by (simp add: decideToolPermission_def within_limits_def Let_def split: if_splits) auto

lemma decision_safe_granted:
  assumes "rd_action (decideToolPermission policy facts toolName) \<noteq> Tool_deny"
    and "tp_securityMode policy = Security_safe"
  shows "safe_granted policy facts toolName"
  using assms
  by (cases "fa_risk facts") (auto simp: decideToolPermission_def safe_granted_def Let_def split: if_splits)

text \<open>Where an allowing authorization comes from.\<close>

lemma authorize_cases:
  assumes "authorizeToolCall env call argumentsHash policy facts w = (w', Inr a)" and "ta_action a = Tool_allow"
  shows "rd_action (decideToolPermission policy facts (tl_name call)) = Tool_allow \<and> w' = w \<or>
    rd_action (decideToolPermission policy facts (tl_name call)) = Tool_ask \<and>
    (\<not> tp_interactive policy \<and> tp_headlessAsk policy = Tool_allow \<and> ta_auditedOverride a \<and> w' = w \<or>
     tp_interactive policy \<and>
     (\<exists>prompt request response. he_prompt env = Some prompt \<and> prompt request w = (w', Inr response) \<and>
        tq_toolCallId request = tl_id call \<and> tq_argumentsHash request = argumentsHash \<and>
        ts_requestId response = tq_id request \<and> ts_requestHash response = tq_requestHash request \<and>
        ts_action response = Tool_allow))"
proof -
  let ?d = "decideToolPermission policy facts (tl_name call)"
  show ?thesis
  proof (cases "rd_action ?d = Tool_ask")
    case False
    then show ?thesis
      using assms by (auto simp: authorizeToolCall_def Let_def parse_tool_authorization_def split: if_splits)
  next
    case True
    show ?thesis
    proof (cases "tp_interactive policy")
      case False
      then show ?thesis
        using assms True
        by (auto simp: authorizeToolCall_def Let_def parse_tool_authorization_def split: if_splits)
    next
      case interactive: True
      let ?request = "(permission_projection call argumentsHash (fa_risk facts) policy (rd_reason ?d))
        \<lparr>tq_id := ''permission-'' @ he_uuid env w,
         tq_requestHash := he_requestHash env (permission_projection call argumentsHash (fa_risk facts) policy (rd_reason ?d)),
         tq_requestedAt := he_now env w\<rparr>"
      obtain prompt response where "he_prompt env = Some prompt" "prompt ?request w = (w', Inr response)"
          "ts_requestId response = tq_id ?request" "ts_requestHash response = tq_requestHash ?request"
          "ts_action response = ta_action a"
        using assms(1) True interactive
        by (auto simp: authorizeToolCall_def Let_def parse_tool_authorization_def act_then_Inr
            split: if_splits option.splits)
      moreover have "tq_toolCallId ?request = tl_id call" "tq_argumentsHash ?request = argumentsHash"
        by (simp_all add: permission_projection_def)
      ultimately show ?thesis
        using True interactive assms(2) by metis
    qed
  qed
qed

end
