(* ===== verification/ToolHost.thy ===== *)
theory ToolHost
  imports ToolPermissions
begin

text \<open>
  The host of tool calls: \<^verbatim>\<open>packages/tool-host/src/host.ts\<close>, \<^verbatim>\<open>registry.ts\<close> and
  \<^verbatim>\<open>journal.ts\<close>. A tool is a parser, an assessment that reads the workspace and an execution
  that changes it. The journal is an interface of the host; the one of \<^verbatim>\<open>journal.ts\<close> provides
  it. Contents, redacted arguments, digests of effects and durations
  are left out.
\<close>

section \<open>Records of calls\<close>

record tool_settlement =
  tz_toolCallId :: string
  tz_outcome :: tool_outcome
  tz_outputRefs :: "string list"
  tz_effects :: "tool_effect list"
  tz_retryable :: bool
  tz_recovery :: tool_recovery
  tz_reason :: "string option"
  tz_settledAt :: int

definition valid_tool_effect :: "tool_effect \<Rightarrow> bool" where
  "valid_tool_effect x \<longleftrightarrow> nonempty_opt (te_path x) \<and> nonempty_opt (te_ref x)"

definition valid_tool_settlement :: "tool_settlement \<Rightarrow> bool" where
  "valid_tool_settlement z \<longleftrightarrow>
     nonempty (tz_toolCallId z) \<and> list_all nonempty (tz_outputRefs z) \<and>
     list_all valid_tool_effect (tz_effects z) \<and> nonempty_opt (tz_reason z)"

datatype call_status =
    Call_requested | Call_authorized | Call_started | Call_settled | Call_unsettled

record tool_call_record =
  tc_id :: string
  tc_attemptId :: string
  tc_modelCallId :: string
  tc_providerToolCallId :: string
  tc_tool :: string
  tc_argumentsHash :: string
  tc_idempotencyKey :: string
  tc_risk :: tool_risk
  tc_authorization :: "tool_authorization option"
  tc_status :: call_status
  tc_effects :: "tool_effect list"
  tc_settlement :: "tool_settlement option"
  tc_recovery :: tool_recovery
  tc_requestedAt :: int
  tc_startedAt :: "int option"
  tc_settledAt :: "int option"
  tc_updatedAt :: int

definition valid_tool_call_record :: "tool_call_record \<Rightarrow> bool" where
  "valid_tool_call_record r \<longleftrightarrow>
     nonempty (tc_id r) \<and> nonempty (tc_attemptId r) \<and> nonempty (tc_modelCallId r) \<and>
     nonempty (tc_providerToolCallId r) \<and> nonempty (tc_tool r) \<and> sha256 (tc_argumentsHash r) \<and>
     nonempty (tc_idempotencyKey r) \<and> list_all valid_tool_effect (tc_effects r) \<and>
     (case tc_authorization r of None \<Rightarrow> True | Some a \<Rightarrow> valid_tool_authorization a) \<and>
     (case tc_settlement r of None \<Rightarrow> True | Some z \<Rightarrow> valid_tool_settlement z)"

datatype reserve_result =
    Call_reserved tool_call_record
  | Call_duplicate tool_call_record "tool_settlement option"
  | Budget_exhausted

section \<open>The journal\<close>

text \<open>The records in the order of their first insertion, and the index of provider keys.\<close>

record tool_journal =
  tj_records :: "tool_call_record list"
  tj_providerKeys :: "(string \<times> string) list"

definition empty_journal :: tool_journal where
  "empty_journal = \<lparr>tj_records = [], tj_providerKeys = []\<rparr>"

definition copyRecord :: "tool_call_record \<Rightarrow> tool_failure + tool_call_record" where
  "copyRecord r = (if valid_tool_call_record r then Inr r else Inl invalid_value)"

text \<open>The two identifiers with a null character between them.\<close>

definition provider_key :: "string \<Rightarrow> string \<Rightarrow> string" where
  "provider_key modelCallId providerToolCallId = modelCallId @ [CHR 0x00] @ providerToolCallId"

definition providerKey :: "tool_call_record \<Rightarrow> string" where
  "providerKey r = provider_key (tc_modelCallId r) (tc_providerToolCallId r)"

definition find_record :: "tool_journal \<Rightarrow> string \<Rightarrow> tool_call_record option" where
  "find_record j i = find (\<lambda>r. tc_id r = i) (tj_records j)"

text \<open>\<^verbatim>\<open>Map.set\<close>: the record of the same key is replaced where it stands.\<close>

definition put_record :: "tool_call_record \<Rightarrow> tool_journal \<Rightarrow> tool_journal" where
  "put_record r j =
     (if find_record j (tc_id r) = None then j\<lparr>tj_records := tj_records j @ [r]\<rparr>
      else j\<lparr>tj_records := map (\<lambda>x. if tc_id x = tc_id r then r else x) (tj_records j)\<rparr>)"

definition journal_transition :: "string \<Rightarrow> tool_failure" where
  "journal_transition text = tool_error ''RALPH_TOOL_JOURNAL_TRANSITION'' text Outcome_error"

definition reserve_call ::
  "tool_call_record \<Rightarrow> int \<Rightarrow> tool_journal \<Rightarrow> tool_journal \<times> (tool_failure + reserve_result)" where
  "reserve_call r maximumToolCalls j =
     (case copyRecord r of
        Inl e \<Rightarrow> (j, Inl e)
      | Inr candidate \<Rightarrow>
          (case map_of (tj_providerKeys j) (providerKey candidate) of
             Some existingId \<Rightarrow>
               (case find_record j existingId of
                  None \<Rightarrow> (j, Inl (Other_failure ''Tool journal provider index is corrupt''))
                | Some existing \<Rightarrow>
                    if tc_argumentsHash existing \<noteq> tc_argumentsHash candidate \<or>
                       tc_idempotencyKey existing \<noteq> tc_idempotencyKey candidate \<or>
                       tc_tool existing \<noteq> tc_tool candidate
                    then (j, Inl (tool_error ''RALPH_TOOL_CALL_ID_REUSED''
                           ''Provider tool call ID was reused with different arguments'' Outcome_invalid))
                    else
                      (case copyRecord existing of
                         Inl e \<Rightarrow> (j, Inl e)
                       | Inr copy \<Rightarrow> (j, Inr (Call_duplicate copy (tc_settlement existing)))))
           | None \<Rightarrow>
               if maximumToolCalls \<le>
                  int (length (filter (\<lambda>x. tc_attemptId x = tc_attemptId candidate) (tj_records j)))
               then (j, Inr Budget_exhausted)
               else if find_record j (tc_id candidate) \<noteq> None
               then (j, Inl (tool_error ''RALPH_TOOL_CALL_ID_DUPLICATE'' ''Tool call ID already exists'' Outcome_invalid))
               else
                 ((put_record candidate j)
                    \<lparr>tj_providerKeys := (providerKey candidate, tc_id candidate) # tj_providerKeys j\<rparr>,
                  Inr (Call_reserved candidate))))"

definition require_record :: "string \<Rightarrow> tool_journal \<Rightarrow> tool_journal \<times> (tool_failure + tool_call_record)" where
  "require_record i j =
     (j, case find_record j i of
           None \<Rightarrow> Inl (tool_error ''RALPH_TOOL_CALL_NOT_FOUND'' (''Tool call not found: '' @ i) Outcome_error)
         | Some r \<Rightarrow> Inr r)"

definition store_record :: "tool_call_record \<Rightarrow> tool_journal \<Rightarrow> tool_journal \<times> (tool_failure + tool_call_record)" where
  "store_record r j = (case copyRecord r of Inl e \<Rightarrow> (j, Inl e) | Inr copy \<Rightarrow> (put_record copy j, Inr copy))"

definition authorize_call ::
  "string \<Rightarrow> tool_authorization \<Rightarrow> tool_journal \<Rightarrow> tool_journal \<times> (tool_failure + tool_call_record)" where
  "authorize_call i a =
     act_then (require_record i) (\<lambda>current.
       if tc_status current \<noteq> Call_requested
       then act_throw (journal_transition ''Only requested calls may be authorized'')
       else store_record (current\<lparr>tc_authorization := Some a, tc_status := Call_authorized,
              tc_updatedAt := ta_decidedAt a\<rparr>))"

definition start_call :: "string \<Rightarrow> int \<Rightarrow> tool_journal \<Rightarrow> tool_journal \<times> (tool_failure + tool_call_record)" where
  "start_call i startedAt =
     act_then (require_record i) (\<lambda>current.
       if tc_status current \<noteq> Call_authorized \<or> map_option ta_action (tc_authorization current) \<noteq> Some Tool_allow
       then act_throw (journal_transition ''Only allowed calls may start effects'')
       else store_record (current\<lparr>tc_status := Call_started, tc_startedAt := Some startedAt,
              tc_updatedAt := startedAt\<rparr>))"

definition settle_call ::
  "string \<Rightarrow> tool_settlement \<Rightarrow> tool_journal \<Rightarrow> tool_journal \<times> (tool_failure + tool_call_record)" where
  "settle_call i z =
     act_then (require_record i) (\<lambda>current.
       if tc_status current \<noteq> Call_authorized \<and> tc_status current \<noteq> Call_started \<and>
          tc_status current \<noteq> Call_unsettled
       then act_throw (journal_transition ''Only authorized, started, or unsettled calls may settle'')
       else if tz_toolCallId z \<noteq> i
       then act_throw (tool_error ''RALPH_TOOL_SETTLEMENT_ID_MISMATCH'' ''Settlement targets another call'' Outcome_error)
       else store_record (current\<lparr>tc_status := Call_settled, tc_effects := tz_effects z,
              tc_settlement := Some z, tc_recovery := tz_recovery z,
              tc_settledAt := Some (tz_settledAt z), tc_updatedAt := tz_settledAt z\<rparr>))"

definition mark_unsettled ::
  "string \<Rightarrow> tool_recovery \<Rightarrow> int \<Rightarrow> tool_journal \<Rightarrow> tool_journal \<times> (tool_failure + tool_call_record)" where
  "mark_unsettled i recovery updatedAt =
     act_then (require_record i) (\<lambda>current.
       if tc_status current \<noteq> Call_started
       then act_throw (journal_transition ''Only a started call may be unsettled'')
       else store_record (current\<lparr>tc_status := Call_unsettled, tc_recovery := recovery, tc_updatedAt := updatedAt\<rparr>))"

fun copy_all :: "tool_call_record list \<Rightarrow> tool_failure + tool_call_record list" where
  "copy_all [] = Inr []"
| "copy_all (r # rs) =
     (case copyRecord r of
        Inl e \<Rightarrow> Inl e
      | Inr c \<Rightarrow> (case copy_all rs of Inl e \<Rightarrow> Inl e | Inr cs \<Rightarrow> Inr (c # cs)))"

definition get_call :: "tool_journal \<Rightarrow> string \<Rightarrow> tool_failure + tool_call_record option" where
  "get_call j i =
     (case find_record j i of
        None \<Rightarrow> Inr None
      | Some r \<Rightarrow> (case copyRecord r of Inl e \<Rightarrow> Inl e | Inr c \<Rightarrow> Inr (Some c)))"

definition list_unsettled :: "tool_journal \<Rightarrow> string \<Rightarrow> tool_failure + tool_call_record list" where
  "list_unsettled j attemptId =
     copy_all (filter (\<lambda>r. tc_attemptId r = attemptId \<and> tc_status r = Call_unsettled) (tj_records j))"

section \<open>Tools\<close>

record tool_definition =
  td_name :: string
  td_description :: string
  td_risk :: tool_risk
  td_mutatesWorkspace :: bool

record execution_result =
  er_outcome :: "tool_outcome option"
  er_outputRefs :: "string list option"
  er_effects :: "tool_effect list option"
  er_retryable :: "bool option"
  er_recovery :: tool_recovery
  er_reason :: "string option"

text \<open>What a tool is given besides its input: the immutable binding of the call and the policy.\<close>

record tool_context =
  tx_toolCallId :: string
  tx_argumentsHash :: string
  tx_idempotencyKey :: string
  tx_policy :: tool_policy

record ('a, 'p, 'e) registered_tool =
  rt_definition :: tool_definition
  rt_parse :: "'a \<Rightarrow> string + 'p"
  rt_assess :: "'p \<Rightarrow> tool_context \<Rightarrow> 'e \<Rightarrow> tool_failure + permission_facts"
  rt_execute :: "'p \<Rightarrow> tool_context \<Rightarrow> 'e \<Rightarrow> 'e \<times> (tool_failure + execution_result)"

type_synonym ('a, 'p, 'e) tool_registry = "(string \<times> ('a, 'p, 'e) registered_tool) list"

definition register_tool ::
  "('a, 'p, 'e) registered_tool \<Rightarrow> ('a, 'p, 'e) tool_registry \<Rightarrow> tool_failure + ('a, 'p, 'e) tool_registry" where
  "register_tool tool reg =
     (let name = td_name (rt_definition tool) in
      if \<not> nonempty name \<or> \<not> nonempty (td_description (rt_definition tool)) then Inl invalid_value
      else if map_of reg name \<noteq> None
      then Inl (tool_error ''RALPH_TOOL_REGISTRY_DUPLICATE'' (''Tool is already registered: '' @ name) Outcome_invalid)
      else Inr (reg @ [(name, tool)]))"

definition tool_definitions ::
  "(string \<Rightarrow> string \<Rightarrow> bool) \<Rightarrow> ('a, 'p, 'e) tool_registry \<Rightarrow> tool_policy \<Rightarrow> tool_definition list" where
  "tool_definitions collate reg policy =
     sort_by (\<lambda>a b. collate (td_name a) (td_name b))
       (filter (\<lambda>d. tp_role policy \<noteq> Role_judge \<or> td_risk d = Risk_read \<and> \<not> td_mutatesWorkspace d)
         (filter (\<lambda>d. map_of (tp_toolRules policy) (td_name d) \<noteq> Some Tool_deny)
           (filter (\<lambda>d. case tp_allowedTools policy of None \<Rightarrow> True | Some names \<Rightarrow> td_name d \<in> set names)
             (map (rt_definition \<circ> snd) reg))))"

section \<open>The host\<close>

text \<open>
  The path resolver of a session is made of its workspace, which may fail. What a tool does, with
  the output it streams, is an effect; the event sink of the host belongs to the outside. A policy
  has been parsed.
\<close>

record 'e tool_session =
  ss_attemptId :: string
  ss_modelCallId :: string
  ss_policy :: tool_policy
  ss_maximumToolCalls :: int
  ss_resolver :: "'e \<Rightarrow> tool_failure + unit"

record 'j journal_port =
  jp_reserve :: "tool_call_record \<Rightarrow> int \<Rightarrow> 'j \<Rightarrow> 'j \<times> (tool_failure + reserve_result)"
  jp_authorize :: "string \<Rightarrow> tool_authorization \<Rightarrow> 'j \<Rightarrow> 'j \<times> (tool_failure + tool_call_record)"
  jp_start :: "string \<Rightarrow> int \<Rightarrow> 'j \<Rightarrow> 'j \<times> (tool_failure + tool_call_record)"
  jp_settle :: "string \<Rightarrow> tool_settlement \<Rightarrow> 'j \<Rightarrow> 'j \<times> (tool_failure + tool_call_record)"

definition memory_journal :: "tool_journal journal_port" where
  "memory_journal = \<lparr>jp_reserve = reserve_call, jp_authorize = authorize_call, jp_start = start_call,
                     jp_settle = settle_call\<rparr>"

record ('j, 'o, 'e) host_state =
  hs_journal :: 'j
  hs_outside :: 'o
  hs_effects :: 'e

definition on_journal ::
  "('j \<Rightarrow> 'j \<times> 'r) \<Rightarrow> ('j, 'o, 'e) host_state \<Rightarrow> ('j, 'o, 'e) host_state \<times> 'r" where
  "on_journal f s = (let (j, r) = f (hs_journal s) in (s\<lparr>hs_journal := j\<rparr>, r))"

definition on_outside ::
  "('o \<Rightarrow> 'o \<times> 'r) \<Rightarrow> ('j, 'o, 'e) host_state \<Rightarrow> ('j, 'o, 'e) host_state \<times> 'r" where
  "on_outside f s = (let (w, r) = f (hs_outside s) in (s\<lparr>hs_outside := w\<rparr>, r))"

definition on_effects ::
  "('e \<Rightarrow> 'e \<times> 'r) \<Rightarrow> ('j, 'o, 'e) host_state \<Rightarrow> ('j, 'o, 'e) host_state \<times> 'r" where
  "on_effects f s = (let (x, r) = f (hs_effects s) in (s\<lparr>hs_effects := x\<rparr>, r))"

fun initialRecovery :: "tool_risk \<Rightarrow> tool_recovery" where
  "initialRecovery Risk_read = Safe_to_retry"
| "initialRecovery Risk_write = Reconcile_by_precondition"
| "initialRecovery Risk_destructive = Manual_review"
| "initialRecovery _ = Unknown_external_effect"

fun errorResult :: "tool_failure \<Rightarrow> execution_result" where
  "errorResult (Tool_host_error code message outcome recovery retryable refs effects) =
     \<lparr>er_outcome = Some outcome, er_outputRefs = Some refs, er_effects = Some effects,
      er_retryable = Some retryable, er_recovery = recovery, er_reason = Some message\<rparr>"
| "errorResult e =
     \<lparr>er_outcome = Some Outcome_error, er_outputRefs = None, er_effects = None,
      er_retryable = Some False, er_recovery = Manual_review, er_reason = Some (errorMessage e)\<rparr>"

definition plain_result :: "tool_outcome \<Rightarrow> tool_recovery \<Rightarrow> string \<Rightarrow> execution_result" where
  "plain_result outcome recovery reason =
     \<lparr>er_outcome = Some outcome, er_outputRefs = None, er_effects = None, er_retryable = None,
      er_recovery = recovery, er_reason = Some reason\<rparr>"

definition default_to :: "'a \<Rightarrow> 'a option \<Rightarrow> 'a" where
  "default_to d x = (case x of None \<Rightarrow> d | Some y \<Rightarrow> y)"

definition settlement_of ::
  "('a, 'o) host_env \<Rightarrow> string \<Rightarrow> execution_result \<Rightarrow> ('j, 'o, 'e) host_state \<Rightarrow>
   ('j, 'o, 'e) host_state \<times> (tool_failure + tool_settlement)" where
  "settlement_of env i result s =
     (let z = \<lparr>tz_toolCallId = i, tz_outcome = default_to Outcome_success (er_outcome result),
               tz_outputRefs = default_to [] (er_outputRefs result),
               tz_effects = default_to [] (er_effects result),
               tz_retryable = default_to False (er_retryable result), tz_recovery = er_recovery result,
               tz_reason = (if truthy_opt (er_reason result) then er_reason result else None),
               tz_settledAt = he_now env (hs_outside s)\<rparr> in
      (s, if valid_tool_settlement z then Inr z else Inl invalid_value))"

definition emit_event ::
  "('a, 'o) host_env \<Rightarrow> string \<Rightarrow> string \<Rightarrow> ('j, 'o, 'e) host_state \<Rightarrow>
   ('j, 'o, 'e) host_state \<times> (tool_failure + unit)" where
  "emit_event env kind i = on_outside (he_emit env kind i)"

text \<open>The settlement is stored, then announced, then returned.\<close>

definition settle_and_return ::
  "('a, 'o) host_env \<Rightarrow> 'j journal_port \<Rightarrow> string \<Rightarrow> execution_result \<Rightarrow> ('j, 'o, 'e) host_state \<Rightarrow>
   ('j, 'o, 'e) host_state \<times> (tool_failure + tool_settlement)" where
  "settle_and_return env jp i result =
     act_then (settlement_of env i result) (\<lambda>z.
     act_then (on_journal (jp_settle jp i z)) (\<lambda>_.
     act_then (emit_event env ''tool.call.settled'' i) (\<lambda>_. act_return z)))"

definition denyInvalid ::
  "('a, 'o) host_env \<Rightarrow> 'j journal_port \<Rightarrow> 'e tool_session \<Rightarrow> 'a tool_call \<Rightarrow> string \<Rightarrow> tool_risk \<Rightarrow> string \<Rightarrow>
   ('j, 'o, 'e) host_state \<Rightarrow> ('j, 'o, 'e) host_state \<times> (tool_failure + tool_settlement)" where
  "denyInvalid env jp session call argumentsHash risk reason s =
     (case parse_tool_authorization
         \<lparr>ta_requestId = ''invalid-'' @ tl_id call,
          ta_requestHash = he_requestHash env
            (permission_projection call argumentsHash risk (ss_policy session) reason),
          ta_action = Tool_deny, ta_reason = reason, ta_ruleId = None, ta_auditedOverride = False,
          ta_decidedAt = he_now env (hs_outside s)\<rparr> of
        Inl e \<Rightarrow> (s, Inl e)
      | Inr a \<Rightarrow>
          act_then (on_journal (jp_authorize jp (tl_id call) a)) (\<lambda>_.
          act_then (emit_event env ''tool.call.authorized'' (tl_id call)) (\<lambda>_.
          settle_and_return env jp (tl_id call) (plain_result Outcome_invalid Effect_absent reason))) s)"

text \<open>An effect whose transport is lost leaves the call started.\<close>

definition execute_started ::
  "('a, 'o) host_env \<Rightarrow> 'j journal_port \<Rightarrow> ('a, 'p, 'e) registered_tool \<Rightarrow> 'p \<Rightarrow> tool_context \<Rightarrow> string \<Rightarrow>
   ('j, 'o, 'e) host_state \<Rightarrow> ('j, 'o, 'e) host_state \<times> (tool_failure + tool_settlement)" where
  "execute_started env jp tool input context i s =
     (case on_effects (rt_execute tool input context) s of
        (s', Inl (Effect_unsettled message)) \<Rightarrow> (s', Inl (Effect_unsettled message))
      | (s', Inl e) \<Rightarrow> settle_and_return env jp i (errorResult e) s'
      | (s', Inr result) \<Rightarrow> settle_and_return env jp i result s')"

definition start_and_execute ::
  "('a, 'o) host_env \<Rightarrow> 'j journal_port \<Rightarrow> ('a, 'p, 'e) registered_tool \<Rightarrow> 'p \<Rightarrow> tool_context \<Rightarrow> string \<Rightarrow>
   ('j, 'o, 'e) host_state \<Rightarrow> ('j, 'o, 'e) host_state \<times> (tool_failure + tool_settlement)" where
  "start_and_execute env jp tool input context i s =
     act_then (on_journal (jp_start jp i (he_now env (hs_outside s)))) (\<lambda>_.
     act_then (emit_event env ''tool.call.started'' i) (\<lambda>_.
     execute_started env jp tool input context i)) s"

definition after_authorization ::
  "('a, 'o) host_env \<Rightarrow> 'j journal_port \<Rightarrow> ('a, 'p, 'e) registered_tool \<Rightarrow> 'p \<Rightarrow> tool_context \<Rightarrow> string \<Rightarrow>
   tool_authorization \<Rightarrow> ('j, 'o, 'e) host_state \<Rightarrow> ('j, 'o, 'e) host_state \<times> (tool_failure + tool_settlement)" where
  "after_authorization env jp tool input context i a =
     act_then (on_journal (jp_authorize jp i a)) (\<lambda>_.
     act_then (emit_event env ''tool.call.authorized'' i) (\<lambda>_.
       if ta_action a \<noteq> Tool_allow
       then settle_and_return env jp i (plain_result Outcome_denied Effect_absent (ta_reason a))
       else start_and_execute env jp tool input context i))"

definition assessed_call ::
  "('a, 'o) host_env \<Rightarrow> 'j journal_port \<Rightarrow> ('a, 'p, 'e) registered_tool \<Rightarrow> 'p \<Rightarrow> 'e tool_session \<Rightarrow> 'a tool_call \<Rightarrow>
   tool_call_record \<Rightarrow> ('j, 'o, 'e) host_state \<Rightarrow> ('j, 'o, 'e) host_state \<times> (tool_failure + tool_settlement)" where
  "assessed_call env jp tool input session call r s =
     (let context = \<lparr>tx_toolCallId = tl_id call, tx_argumentsHash = tc_argumentsHash r,
                     tx_idempotencyKey = tc_idempotencyKey r, tx_policy = ss_policy session\<rparr> in
      case ss_resolver session (hs_effects s) of
        Inl e \<Rightarrow> (s, Inl e)
      | Inr _ \<Rightarrow>
          (case rt_assess tool input context (hs_effects s) of
             Inl e \<Rightarrow> denyInvalid env jp session call (tc_argumentsHash r) (tc_risk r) (errorMessage e) s
           | Inr facts \<Rightarrow>
               (case on_outside (authorizeToolCall env call (tc_argumentsHash r) (ss_policy session) facts) s of
                  (s', Inl e) \<Rightarrow>
                    denyInvalid env jp session call (tc_argumentsHash r) (fa_risk facts) (errorMessage e) s'
                | (s', Inr a) \<Rightarrow> after_authorization env jp tool input context (tl_id call) a s')))"

definition reserved_call ::
  "('a, 'o) host_env \<Rightarrow> 'j journal_port \<Rightarrow> ('a, 'p, 'e) tool_registry \<Rightarrow> 'e tool_session \<Rightarrow> 'a tool_call \<Rightarrow>
   tool_call_record \<Rightarrow> ('j, 'o, 'e) host_state \<Rightarrow> ('j, 'o, 'e) host_state \<times> (tool_failure + tool_settlement)" where
  "reserved_call env jp reg session call r =
     (let invalid = denyInvalid env jp session call (tc_argumentsHash r) (tc_risk r) in
      act_then (emit_event env ''tool.call.requested'' (tl_id call)) (\<lambda>_.
        if tl_modelCallId call \<noteq> ss_modelCallId session
        then invalid ''Model call identity does not match the active command-owned session''
        else
          (case map_of reg (tl_name call) of
             None \<Rightarrow> invalid (''Unknown tool: '' @ tl_name call)
           | Some tool \<Rightarrow>
               if (case tp_allowedTools (ss_policy session) of
                     None \<Rightarrow> False | Some names \<Rightarrow> tl_name call \<notin> set names)
               then invalid (''Tool is not materialized for this session: '' @ tl_name call)
               else
                 (case rt_parse tool (tl_arguments call) of
                    Inl reason \<Rightarrow> invalid reason
                  | Inr input \<Rightarrow> assessed_call env jp tool input session call r))))"

definition requested_record ::
  "('a, 'o) host_env \<Rightarrow> ('a, 'p, 'e) tool_registry \<Rightarrow> 'e tool_session \<Rightarrow> 'a tool_call \<Rightarrow> 'o \<Rightarrow> tool_call_record" where
  "requested_record env reg session call w =
     (let risk = (case map_of reg (tl_name call) of
                    None \<Rightarrow> Risk_external_effect | Some tool \<Rightarrow> td_risk (rt_definition tool)) in
      \<lparr>tc_id = tl_id call, tc_attemptId = ss_attemptId session, tc_modelCallId = tl_modelCallId call,
       tc_providerToolCallId = tl_providerToolCallId call, tc_tool = tl_name call,
       tc_argumentsHash = he_argumentsHash env (tl_arguments call),
       tc_idempotencyKey = (case tl_idempotencyKey call of
          Some k \<Rightarrow> k
        | None \<Rightarrow> he_idempotencyHash env (ss_attemptId session) (tl_modelCallId call) (tl_providerToolCallId call)),
       tc_risk = risk, tc_authorization = None, tc_status = Call_requested, tc_effects = [],
       tc_settlement = None, tc_recovery = initialRecovery risk, tc_requestedAt = tl_requestedAt call,
       tc_startedAt = None, tc_settledAt = None, tc_updatedAt = he_now env w\<rparr>)"

definition execute_tool_call ::
  "('a, 'o) host_env \<Rightarrow> 'j journal_port \<Rightarrow> ('a, 'p, 'e) tool_registry \<Rightarrow> 'e tool_session \<Rightarrow> 'a tool_call \<Rightarrow>
   ('j, 'o, 'e) host_state \<Rightarrow> ('j, 'o, 'e) host_state \<times> (tool_failure + tool_settlement)" where
  "execute_tool_call env jp reg session call s =
     (if \<not> valid_tool_call call then (s, Inl invalid_value)
      else
        (let r = requested_record env reg session call (hs_outside s) in
         act_then (on_journal (jp_reserve jp r (max 0 (ss_maximumToolCalls session)))) (\<lambda>reserved.
           case reserved of
             Budget_exhausted \<Rightarrow>
               settlement_of env (tl_id call)
                 (plain_result Outcome_denied Effect_absent ''Maximum tool calls for this attempt was reached'')
           | Call_duplicate existing (Some z) \<Rightarrow> act_return z
           | Call_duplicate existing None \<Rightarrow>
               settlement_of env (tl_id call)
                 (plain_result Outcome_unsettled (tc_recovery existing)
                   ''Duplicate provider tool call has no durable settlement and was not replayed'')
           | Call_reserved _ \<Rightarrow> reserved_call env jp reg session call r) s))"

text \<open>The calls a session makes one after another, whatever each returns.\<close>

fun run_calls ::
  "('a, 'o) host_env \<Rightarrow> 'j journal_port \<Rightarrow> ('a, 'p, 'e) tool_registry \<Rightarrow>
   ('e tool_session \<times> 'a tool_call) list \<Rightarrow> ('j, 'o, 'e) host_state \<Rightarrow> ('j, 'o, 'e) host_state" where
  "run_calls env jp reg [] s = s"
| "run_calls env jp reg ((session, call) # rest) s =
     run_calls env jp reg rest (fst (execute_tool_call env jp reg session call s))"

end
