(* ===== verification/HostFacts.thy ===== *)
theory HostFacts
  imports ToolHost
begin

section \<open>What a journal promises\<close>

definition same_intent :: "tool_call_record \<Rightarrow> tool_call_record \<Rightarrow> bool" where
  "same_intent r r' \<longleftrightarrow> tc_authorization r' = tc_authorization r \<and> tc_startedAt r' = tc_startedAt r"

text \<open>
  A provider key is reserved once and stays known; what was authorized and started stays on the
  record of the call.
\<close>

locale call_journal =
  fixes jp :: "'j journal_port"
    and record_of :: "'j \<Rightarrow> string \<Rightarrow> tool_call_record option"
    and keys :: "'j \<Rightarrow> string set"
  assumes reserve_keeps: "jp_reserve jp r n j = (j', x) \<Longrightarrow> keys j \<subseteq> keys j'"
    and reserve_new: "jp_reserve jp r n j = (j', Inr (Call_reserved c)) \<Longrightarrow>
      providerKey r \<notin> keys j \<and> providerKey r \<in> keys j'"
    and authorize_keeps: "jp_authorize jp i a j = (j', y) \<Longrightarrow> keys j' = keys j"
    and authorize_stored: "jp_authorize jp i a j = (j', Inr c) \<Longrightarrow>
      \<exists>r. record_of j' i = Some r \<and> tc_authorization r = Some a"
    and start_keeps: "jp_start jp i t j = (j', y) \<Longrightarrow> keys j' = keys j"
    and start_stored: "jp_start jp i t j = (j', Inr c) \<Longrightarrow>
      \<exists>r r'. record_of j i = Some r \<and> record_of j' i = Some r' \<and>
        tc_authorization r' = tc_authorization r \<and> tc_startedAt r' \<noteq> None"
    and settle_keeps: "jp_settle jp i z j = (j', y) \<Longrightarrow> keys j' = keys j"
    and settle_intent: "jp_settle jp i z j = (j', y) \<Longrightarrow> record_of j i = Some r \<Longrightarrow>
      \<exists>r'. record_of j' i = Some r' \<and> same_intent r r'"

text \<open>Steps that leave the effects alone and lose no provider key.\<close>

definition no_effect :: "('j \<Rightarrow> 'k set) \<Rightarrow> ('j, 'o, 'e) host_state \<Rightarrow> ('j, 'o, 'e) host_state \<Rightarrow> bool" where
  "no_effect keys s s' \<longleftrightarrow> hs_effects s' = hs_effects s \<and> keys (hs_journal s) \<subseteq> keys (hs_journal s')"

lemma no_effect_refl: "no_effect keys s s"
  by (simp add: no_effect_def)

lemma no_effect_trans: "no_effect keys s s1 \<Longrightarrow> no_effect keys s1 s2 \<Longrightarrow> no_effect keys s s2"
  by (auto simp: no_effect_def)

lemma on_journal_eq: "on_journal f s = (s', x) \<Longrightarrow>
    f (hs_journal s) = (hs_journal s', x) \<and> hs_effects s' = hs_effects s \<and> hs_outside s' = hs_outside s"
  by (auto simp: on_journal_def split: prod.splits)

lemma on_outside_eq: "on_outside f s = (s', x) \<Longrightarrow>
    f (hs_outside s) = (hs_outside s', x) \<and> hs_effects s' = hs_effects s \<and> hs_journal s' = hs_journal s"
  by (auto simp: on_outside_def split: prod.splits)

lemma on_effects_eq: "on_effects f s = (s', x) \<Longrightarrow>
    f (hs_effects s) = (hs_effects s', x) \<and> hs_journal s' = hs_journal s \<and> hs_outside s' = hs_outside s"
  by (auto simp: on_effects_def split: prod.splits)

lemma emit_event_eq: "emit_event env kind i s = (s', x) \<Longrightarrow>
    hs_effects s' = hs_effects s \<and> hs_journal s' = hs_journal s"
  by (auto simp: emit_event_def dest: on_outside_eq)

lemma settlement_of_eq: "settlement_of env i result s = (s', x) \<Longrightarrow> s' = s"
  by (simp add: settlement_of_def Let_def split: if_splits)

text \<open>What a started call leaves on its record.\<close>

definition started_under :: "tool_authorization option \<Rightarrow> tool_call_record option \<Rightarrow> bool" where
  "started_under a x \<longleftrightarrow> (\<exists>r. x = Some r \<and> tc_authorization r = a \<and> tc_startedAt r \<noteq> None)"

context call_journal
begin

lemma settle_and_return_quiet:
  assumes "settle_and_return env jp i result s = (s', x)"
  shows "no_effect keys s s'"
    and "record_of (hs_journal s) k = Some r \<Longrightarrow> k = i \<Longrightarrow>
      \<exists>r'. record_of (hs_journal s') k = Some r' \<and> same_intent r r'"
proof -
  have "hs_effects s' = hs_effects s \<and>
     (hs_journal s' = hs_journal s \<or> (\<exists>z y. jp_settle jp i z (hs_journal s) = (hs_journal s', y)))"
    using assms unfolding settle_and_return_def
    by (elim act_then_cases) (auto simp: act_return_def dest!: settlement_of_eq on_journal_eq emit_event_eq)
  then show "no_effect keys s s'"
    and "record_of (hs_journal s) k = Some r \<Longrightarrow> k = i \<Longrightarrow>
      \<exists>r'. record_of (hs_journal s') k = Some r' \<and> same_intent r r'"
    using settle_keeps settle_intent by (fastforce simp: no_effect_def same_intent_def)+
qed

lemma denyInvalid_quiet:
  assumes "denyInvalid env jp session call h risk reason s = (s', x)"
  shows "no_effect keys s s'"
proof -
  let ?rest = "settle_and_return env jp (tl_id call) (plain_result Outcome_invalid Effect_absent reason)"
  consider "s' = s"
    | a where "act_then (on_journal (jp_authorize jp (tl_id call) a)) (\<lambda>_.
        act_then (emit_event env ''tool.call.authorized'' (tl_id call)) (\<lambda>_. ?rest)) s = (s', x)"
    using assms by (auto simp: denyInvalid_def split: sum.splits)
  then show ?thesis
  proof cases
    case 1
    then show ?thesis by (simp add: no_effect_refl)
  next
    case 2
    then show ?thesis
    proof (rule act_then_keeps)
      fix s1 r1
      assume "on_journal (jp_authorize jp (tl_id call) a) s = (s1, r1)"
      then show "no_effect keys s s1"
        using authorize_keeps by (fastforce simp: no_effect_def dest: on_journal_eq)
    next
      fix s1 y
      assume first: "no_effect keys s s1"
        and "act_then (emit_event env ''tool.call.authorized'' (tl_id call)) (\<lambda>_. ?rest) s1 = (s', x)"
      then have "no_effect keys s1 s'"
        by (elim act_then_cases)
          (auto simp: no_effect_def dest!: emit_event_eq settle_and_return_quiet(1))
      with first show "no_effect keys s s'" by (rule no_effect_trans)
    qed
  qed
qed

lemma execute_started_effects:
  assumes "execute_started env jp tool input context i s = (s', x)"
  shows "hs_effects s' = fst (rt_execute tool input context (hs_effects s))"
    and "keys (hs_journal s) \<subseteq> keys (hs_journal s')"
    and "record_of (hs_journal s) i = Some r \<Longrightarrow> \<exists>r'. record_of (hs_journal s') i = Some r' \<and> same_intent r r'"
proof -
  obtain s1 y where run: "on_effects (rt_execute tool input context) s = (s1, y)" by fastforce
  have "s' = s1 \<or> (\<exists>result x'. settle_and_return env jp i result s1 = (s', x'))"
    using assms run by (auto simp: execute_started_def split: sum.splits tool_failure.splits)
  then have later: "no_effect keys s1 s'"
      "\<And>r. record_of (hs_journal s1) i = Some r \<Longrightarrow> \<exists>r'. record_of (hs_journal s') i = Some r' \<and> same_intent r r'"
    using settle_and_return_quiet no_effect_refl by (fastforce simp: same_intent_def)+
  have "fst (rt_execute tool input context (hs_effects s)) = hs_effects s1" "hs_journal s1 = hs_journal s"
    using on_effects_eq [OF run] by simp_all
  then show "hs_effects s' = fst (rt_execute tool input context (hs_effects s))"
    and "keys (hs_journal s) \<subseteq> keys (hs_journal s')"
    and "record_of (hs_journal s) i = Some r \<Longrightarrow> \<exists>r'. record_of (hs_journal s') i = Some r' \<and> same_intent r r'"
    using later by (simp_all add: no_effect_def)
qed

lemma start_and_execute_effects:
  assumes "start_and_execute env jp tool input context i s = (s', x)"
  shows "keys (hs_journal s) \<subseteq> keys (hs_journal s')"
    and "hs_effects s' = hs_effects s \<or>
      hs_effects s' = fst (rt_execute tool input context (hs_effects s)) \<and>
      (\<exists>r. record_of (hs_journal s) i = Some r \<and>
        started_under (tc_authorization r) (record_of (hs_journal s') i))"
proof -
  have "keys (hs_journal s) \<subseteq> keys (hs_journal s') \<and> (hs_effects s' = hs_effects s \<or>
      hs_effects s' = fst (rt_execute tool input context (hs_effects s)) \<and>
      (\<exists>r. record_of (hs_journal s) i = Some r \<and>
        started_under (tc_authorization r) (record_of (hs_journal s') i)))"
    using assms unfolding start_and_execute_def
  proof (rule act_then_cases)
    fix e
    assume "on_journal (jp_start jp i (he_now env (hs_outside s))) s = (s', Inl e)"
    then show ?thesis using start_keeps by (fastforce dest: on_journal_eq)
  next
    fix s1 c
    assume "on_journal (jp_start jp i (he_now env (hs_outside s))) s = (s1, Inr c)"
      and rest: "act_then (emit_event env ''tool.call.started'' i)
        (\<lambda>_. execute_started env jp tool input context i) s1 = (s', x)"
    then have start: "jp_start jp i (he_now env (hs_outside s)) (hs_journal s) = (hs_journal s1, Inr c)"
        "hs_effects s1 = hs_effects s"
      by (auto dest: on_journal_eq)
    then obtain r r1 where r: "record_of (hs_journal s) i = Some r" "record_of (hs_journal s1) i = Some r1"
        "tc_authorization r1 = tc_authorization r" "tc_startedAt r1 \<noteq> None"
      using start_stored by blast
    have keys1: "keys (hs_journal s1) = keys (hs_journal s)" using start(1) start_keeps by blast
    show ?thesis
      using rest
    proof (rule act_then_cases)
      fix e
      assume "emit_event env ''tool.call.started'' i s1 = (s', Inl e)"
      then show ?thesis using start(2) keys1 by (auto dest: emit_event_eq)
    next
      fix s2 y
      assume "emit_event env ''tool.call.started'' i s1 = (s2, Inr y)"
        and run: "execute_started env jp tool input context i s2 = (s', x)"
      then have s2: "hs_effects s2 = hs_effects s" "hs_journal s2 = hs_journal s1"
        using start(2) by (auto dest: emit_event_eq)
      obtain r' where "record_of (hs_journal s') i = Some r'" "same_intent r1 r'"
        using execute_started_effects(3) [OF run] r(2) s2(2) by auto
      then have "started_under (tc_authorization r) (record_of (hs_journal s') i)"
        using r by (simp add: started_under_def same_intent_def)
      then show ?thesis
        using execute_started_effects(1,2) [OF run] r(1) s2 keys1 by simp
    qed
  qed
  then show "keys (hs_journal s) \<subseteq> keys (hs_journal s')"
    and "hs_effects s' = hs_effects s \<or>
      hs_effects s' = fst (rt_execute tool input context (hs_effects s)) \<and>
      (\<exists>r. record_of (hs_journal s) i = Some r \<and>
        started_under (tc_authorization r) (record_of (hs_journal s') i))"
    by blast+
qed

lemma after_authorization_effects:
  assumes "after_authorization env jp tool input context i a s = (s', x)"
  shows "keys (hs_journal s) \<subseteq> keys (hs_journal s') \<and> (hs_effects s' = hs_effects s \<or>
      ta_action a = Tool_allow \<and> hs_effects s' = fst (rt_execute tool input context (hs_effects s)) \<and>
      started_under (Some a) (record_of (hs_journal s') i))"
  using assms unfolding after_authorization_def
proof (rule act_then_cases)
  fix e
  assume "on_journal (jp_authorize jp i a) s = (s', Inl e)"
  then show ?thesis using authorize_keeps by (fastforce dest: on_journal_eq)
next
  fix s1 c
  let ?denied = "settle_and_return env jp i (plain_result Outcome_denied Effect_absent (ta_reason a))"
  assume "on_journal (jp_authorize jp i a) s = (s1, Inr c)"
    and rest: "act_then (emit_event env ''tool.call.authorized'' i) (\<lambda>_.
      if ta_action a \<noteq> Tool_allow then ?denied else start_and_execute env jp tool input context i) s1 = (s', x)"
  then have stored: "jp_authorize jp i a (hs_journal s) = (hs_journal s1, Inr c)" "hs_effects s1 = hs_effects s"
    by (auto dest: on_journal_eq)
  have keys1: "keys (hs_journal s1) = keys (hs_journal s)" using stored(1) authorize_keeps by blast
  obtain r where r: "record_of (hs_journal s1) i = Some r" "tc_authorization r = Some a"
    using stored(1) authorize_stored by blast
  show ?thesis
    using rest
  proof (rule act_then_cases)
    fix e
    assume "emit_event env ''tool.call.authorized'' i s1 = (s', Inl e)"
    then show ?thesis using stored(2) keys1 by (auto dest: emit_event_eq)
  next
    fix s2 y
    assume "emit_event env ''tool.call.authorized'' i s1 = (s2, Inr y)"
      and run: "(if ta_action a \<noteq> Tool_allow then ?denied
        else start_and_execute env jp tool input context i) s2 = (s', x)"
    then have s2: "hs_effects s2 = hs_effects s" "hs_journal s2 = hs_journal s1"
      using stored(2) by (auto dest: emit_event_eq)
    show ?thesis
    proof (cases "ta_action a = Tool_allow")
      case True
      then have run': "start_and_execute env jp tool input context i s2 = (s', x)" using run by simp
      show ?thesis
        using start_and_execute_effects [OF run'] s2 r keys1 True by auto
    next
      case False
      then have "?denied s2 = (s', x)" using run by simp
      then have "no_effect keys s2 s'" by (rule settle_and_return_quiet(1))
      then show ?thesis using s2 keys1 by (simp add: no_effect_def)
    qed
  qed
qed

text \<open>What must have been so for a call to have had an effect.\<close>

lemma assessed_call_effects:
  assumes run: "assessed_call env jp tool input session call r s = (s', x)"
  shows "no_effect keys s s' \<or>
    keys (hs_journal s) \<subseteq> keys (hs_journal s') \<and>
    (\<exists>context facts a w w'.
       rt_assess tool input context (hs_effects s) = Inr facts \<and>
       authorizeToolCall env call (tc_argumentsHash r) (ss_policy session) facts w = (w', Inr a) \<and>
       ta_action a = Tool_allow \<and> started_under (Some a) (record_of (hs_journal s') (tl_id call)) \<and>
       hs_effects s' = fst (rt_execute tool input context (hs_effects s)))"
proof -
  let ?cx = "\<lparr>tx_toolCallId = tl_id call, tx_argumentsHash = tc_argumentsHash r,
    tx_idempotencyKey = tc_idempotencyKey r, tx_policy = ss_policy session\<rparr>"
  let ?deny = "\<lambda>risk e. denyInvalid env jp session call (tc_argumentsHash r) risk (errorMessage e)"
  consider "s' = s"
    | e where "?deny (tc_risk r) e s = (s', x)"
    | facts s1 e where "on_outside (authorizeToolCall env call (tc_argumentsHash r) (ss_policy session) facts) s = (s1, Inl e)"
        "?deny (fa_risk facts) e s1 = (s', x)"
    | facts s1 a where "rt_assess tool input ?cx (hs_effects s) = Inr facts"
        "on_outside (authorizeToolCall env call (tc_argumentsHash r) (ss_policy session) facts) s = (s1, Inr a)"
        "after_authorization env jp tool input ?cx (tl_id call) a s1 = (s', x)"
    using run by (auto simp: assessed_call_def Let_def split: sum.splits prod.splits)
  then show ?thesis
  proof cases
    case 1
    then show ?thesis by (simp add: no_effect_refl)
  next
    case 2
    then show ?thesis by (blast dest: denyInvalid_quiet)
  next
    case 3
    then have "hs_effects s1 = hs_effects s" "hs_journal s1 = hs_journal s" "no_effect keys s1 s'"
      by (auto dest: on_outside_eq denyInvalid_quiet)
    then show ?thesis by (simp add: no_effect_def)
  next
    case 4
    then have same: "hs_effects s1 = hs_effects s" "hs_journal s1 = hs_journal s"
      and auth: "authorizeToolCall env call (tc_argumentsHash r) (ss_policy session) facts (hs_outside s)
        = (hs_outside s1, Inr a)"
      by (auto dest: on_outside_eq)
    have after: "keys (hs_journal s) \<subseteq> keys (hs_journal s') \<and> (hs_effects s' = hs_effects s \<or>
      ta_action a = Tool_allow \<and> hs_effects s' = fst (rt_execute tool input ?cx (hs_effects s)) \<and>
      started_under (Some a) (record_of (hs_journal s') (tl_id call)))"
      using after_authorization_effects [OF 4(3)] same by simp
    show ?thesis
    proof (cases "hs_effects s' = hs_effects s")
      case True
      then show ?thesis using after by (simp add: no_effect_def)
    next
      case False
      then show ?thesis using after 4(1) auth by blast
    qed
  qed
qed

lemma reserved_call_effects:
  assumes run: "reserved_call env jp reg session call r s = (s', x)"
  shows "no_effect keys s s' \<or>
    keys (hs_journal s) \<subseteq> keys (hs_journal s') \<and> tl_modelCallId call = ss_modelCallId session \<and>
    (case tp_allowedTools (ss_policy session) of None \<Rightarrow> True | Some names \<Rightarrow> tl_name call \<in> set names) \<and>
    (\<exists>tool input context facts a w w'.
       map_of reg (tl_name call) = Some tool \<and> rt_parse tool (tl_arguments call) = Inr input \<and>
       rt_assess tool input context (hs_effects s) = Inr facts \<and>
       authorizeToolCall env call (tc_argumentsHash r) (ss_policy session) facts w = (w', Inr a) \<and>
       ta_action a = Tool_allow \<and> started_under (Some a) (record_of (hs_journal s') (tl_id call)) \<and>
       hs_effects s' = fst (rt_execute tool input context (hs_effects s)))"
proof -
  let ?invalid = "denyInvalid env jp session call (tc_argumentsHash r) (tc_risk r)"
  obtain s1 y where emit: "emit_event env ''tool.call.requested'' (tl_id call) s = (s1, y)" by fastforce
  then have same: "hs_effects s1 = hs_effects s" "hs_journal s1 = hs_journal s" by (auto dest: emit_event_eq)
  consider "s' = s1"
    | reason where "?invalid reason s1 = (s', x)"
    | tool input where "tl_modelCallId call = ss_modelCallId session" "map_of reg (tl_name call) = Some tool"
        "case tp_allowedTools (ss_policy session) of None \<Rightarrow> True | Some names \<Rightarrow> tl_name call \<in> set names"
        "rt_parse tool (tl_arguments call) = Inr input"
        "assessed_call env jp tool input session call r s1 = (s', x)"
    using run emit
    by (auto simp: reserved_call_def Let_def act_then_def split: if_splits option.splits sum.splits)
  then show ?thesis
  proof cases
    case 1
    then show ?thesis using same by (simp add: no_effect_def)
  next
    case 2
    then have "no_effect keys s1 s'" by (rule denyInvalid_quiet)
    then show ?thesis using same by (simp add: no_effect_def)
  next
    case 3
    show ?thesis
      using assessed_call_effects [OF 3(5)] 3(1-4) same by (simp add: no_effect_def)
  qed
qed

lemma execute_effects:
  assumes run: "execute_tool_call env jp reg session call s = (s', x)"
  shows "no_effect keys s s' \<or>
    provider_key (tl_modelCallId call) (tl_providerToolCallId call) \<notin> keys (hs_journal s) \<and>
    provider_key (tl_modelCallId call) (tl_providerToolCallId call) \<in> keys (hs_journal s') \<and>
    keys (hs_journal s) \<subseteq> keys (hs_journal s') \<and> tl_modelCallId call = ss_modelCallId session \<and>
    (case tp_allowedTools (ss_policy session) of None \<Rightarrow> True | Some names \<Rightarrow> tl_name call \<in> set names) \<and>
    (\<exists>tool input context facts a w w'.
       map_of reg (tl_name call) = Some tool \<and> rt_parse tool (tl_arguments call) = Inr input \<and>
       rt_assess tool input context (hs_effects s) = Inr facts \<and>
       authorizeToolCall env call (he_argumentsHash env (tl_arguments call)) (ss_policy session) facts w =
         (w', Inr a) \<and>
       ta_action a = Tool_allow \<and> started_under (Some a) (record_of (hs_journal s') (tl_id call)) \<and>
       hs_effects s' = fst (rt_execute tool input context (hs_effects s)))"
proof -
  let ?r = "requested_record env reg session call (hs_outside s)"
  let ?n = "max 0 (ss_maximumToolCalls session)"
  have r: "tc_argumentsHash ?r = he_argumentsHash env (tl_arguments call)"
      "providerKey ?r = provider_key (tl_modelCallId call) (tl_providerToolCallId call)"
    by (simp_all add: requested_record_def Let_def providerKey_def)
  obtain s1 y where res: "on_journal (jp_reserve jp ?r ?n) s = (s1, y)" by fastforce
  then have stored: "jp_reserve jp ?r ?n (hs_journal s) = (hs_journal s1, y)" "hs_effects s1 = hs_effects s"
    by (auto dest: on_journal_eq)
  have quiet: "no_effect keys s s1"
    using stored reserve_keeps by (simp add: no_effect_def)
  consider "s' = s" | "s' = s1"
    | c where "y = Inr (Call_reserved c)" "reserved_call env jp reg session call ?r s1 = (s', x)"
    using run res
    by (auto simp: execute_tool_call_def Let_def act_then_def act_return_def dest!: settlement_of_eq
        split: if_splits sum.splits reserve_result.splits option.splits)
  then show ?thesis
  proof cases
    case 1
    then show ?thesis by (simp add: no_effect_refl)
  next
    case 2
    then show ?thesis using quiet by simp
  next
    case 3
    have new: "providerKey ?r \<notin> keys (hs_journal s)" "providerKey ?r \<in> keys (hs_journal s1)"
      using reserve_new stored(1) 3(1) by blast+
    show ?thesis
    proof (cases "no_effect keys s1 s'")
      case True
      then show ?thesis using no_effect_trans [OF quiet] by blast
    next
      case False
      then show ?thesis
        using reserved_call_effects [OF 3(2)] new quiet stored(2) r by (simp add: no_effect_def) blast
    qed
  qed
qed

lemma execute_keys:
  "keys (hs_journal s) \<subseteq> keys (hs_journal (fst (execute_tool_call env jp reg session call s)))"
  using execute_effects [of env reg session call s] by (cases "execute_tool_call env jp reg session call s")
    (auto simp: no_effect_def)

lemma run_calls_keys: "keys (hs_journal s) \<subseteq> keys (hs_journal (run_calls env jp reg calls s))"
proof (induction calls arbitrary: s)
  case (Cons x rest)
  then show ?case
    using execute_keys [of s env reg] by (cases x) (simp, blast)
qed simp

lemma known_call_no_effect:
  assumes "provider_key (tl_modelCallId call) (tl_providerToolCallId call) \<in> keys (hs_journal s)"
  shows "hs_effects (fst (execute_tool_call env jp reg session call s)) = hs_effects s"
proof -
  obtain s' x where run: "execute_tool_call env jp reg session call s = (s', x)" by fastforce
  show ?thesis
    using execute_effects [OF run] assms run by (auto simp: no_effect_def)
qed

lemma effect_known:
  assumes "execute_tool_call env jp reg session call s = (s', x)" and "hs_effects s' \<noteq> hs_effects s"
  shows "provider_key (tl_modelCallId call) (tl_providerToolCallId call) \<in> keys (hs_journal s')"
  using execute_effects [OF assms(1)] assms(2) by (auto simp: no_effect_def)

end

section \<open>The journal of the host\<close>

definition memory_keys :: "tool_journal \<Rightarrow> string set" where
  "memory_keys j = fst ` set (tj_providerKeys j)"

lemma find_record_id: "find_record j i = Some r \<Longrightarrow> tc_id r = i"
  by (auto simp: find_record_def find_Some_iff)

lemma find_map_other:
  assumes "\<And>x. P (f x) = P x" and "\<And>x. P x \<Longrightarrow> f x = x"
  shows "find P (map f xs) = find P xs"
  using assms by (induction xs) auto

lemma find_put [simp]: "find_record (put_record r j) (tc_id r) = Some r"
proof -
  have "find (\<lambda>x. tc_id x = i) xs \<noteq> None \<Longrightarrow> i = tc_id r \<Longrightarrow>
     find (\<lambda>x. tc_id x = i) (map (\<lambda>x. if tc_id x = i then r else x) xs) = Some r" for xs i
    by (induction xs) auto
  moreover have "find (\<lambda>x. tc_id x = i) xs = None \<Longrightarrow> i = tc_id r \<Longrightarrow>
     find (\<lambda>x. tc_id x = i) (xs @ [r]) = Some r" for xs i
    by (induction xs) auto
  ultimately show ?thesis
    unfolding put_record_def find_record_def by simp
qed

lemma put_keys [simp]: "tj_providerKeys (put_record r j) = tj_providerKeys j"
  by (simp add: put_record_def)

lemma store_record_eq:
  "store_record r j = (j', x) \<Longrightarrow>
     x = Inr r \<and> j' = put_record r j \<or> (\<exists>e. x = Inl e) \<and> j' = j"
  by (auto simp: store_record_def copyRecord_def split: sum.splits if_splits)

lemma require_record_eq:
  "require_record i j = (j', x) \<Longrightarrow> j' = j \<and> (\<forall>r. x = Inr r \<longrightarrow> find_record j i = Some r \<and> tc_id r = i)"
  by (auto simp: require_record_def split: option.splits dest: find_record_id)

text \<open>Every step of the journal on a known record: it is unchanged or its new form is stored.\<close>

definition journal_step ::
  "(tool_call_record \<Rightarrow> bool) \<Rightarrow> (tool_call_record \<Rightarrow> tool_call_record) \<Rightarrow> string \<Rightarrow> tool_journal \<Rightarrow>
   tool_journal \<times> (tool_failure + tool_call_record) \<Rightarrow> bool" where
  "journal_step pre f i j out \<longleftrightarrow>
     fst out = j \<and> (\<exists>e. snd out = Inl e) \<or>
     (\<exists>r. find_record j i = Some r \<and> pre r \<and> out = (put_record (f r) j, Inr (f r)))"

lemma journal_stepI:
  assumes "\<And>r j. (fst (k r j) = j \<and> (\<exists>e. snd (k r j) = Inl e)) \<or>
    (pre r \<and> k r j = (put_record (f r) j, Inr (f r)))"
  shows "journal_step pre f i j (act_then (require_record i) k j)"
proof (cases "find_record j i")
  case None
  then show ?thesis by (simp add: journal_step_def act_then_def require_record_def)
next
  case (Some r)
  then show ?thesis using assms [of r j] by (auto simp: journal_step_def act_then_def require_record_def)
qed

lemma store_record_cases:
  "(fst (store_record r j) = j \<and> (\<exists>e. snd (store_record r j) = Inl e)) \<or>
    store_record r j = (put_record r j, Inr r)"
  by (auto simp: store_record_def copyRecord_def split: sum.splits if_splits)

lemma authorize_step:
  "journal_step (\<lambda>r. True)
     (\<lambda>r. r\<lparr>tc_authorization := Some a, tc_status := Call_authorized, tc_updatedAt := ta_decidedAt a\<rparr>) i j
     (authorize_call i a j)"
  unfolding authorize_call_def
  by (rule journal_stepI) (simp add: act_throw_def store_record_cases)

lemma start_step:
  "journal_step (\<lambda>r. map_option ta_action (tc_authorization r) = Some Tool_allow)
     (\<lambda>r. r\<lparr>tc_status := Call_started, tc_startedAt := Some t, tc_updatedAt := t\<rparr>) i j (start_call i t j)"
  unfolding start_call_def
  by (rule journal_stepI) (simp add: act_throw_def store_record_cases)

lemma settle_step:
  "journal_step (\<lambda>r. True)
     (\<lambda>r. r\<lparr>tc_status := Call_settled, tc_effects := tz_effects z, tc_settlement := Some z,
            tc_recovery := tz_recovery z, tc_settledAt := Some (tz_settledAt z),
            tc_updatedAt := tz_settledAt z\<rparr>) i j (settle_call i z j)"
  unfolding settle_call_def
  by (rule journal_stepI) (simp add: act_throw_def store_record_cases)

lemma step_stores:
  assumes "journal_step pre f i j (j', x)" and "\<And>r. tc_id (f r) = tc_id r"
  shows "memory_keys j' = memory_keys j"
    and "x = Inr c \<Longrightarrow> \<exists>r. find_record j i = Some r \<and> pre r \<and> find_record j' i = Some (f r)"
    and "find_record j i = Some r \<Longrightarrow> find_record j' i = Some r \<or> find_record j' i = Some (f r)"
proof -
  have put: "find_record (put_record (f r) j) i = Some (f r)" if "find_record j i = Some r" for r
    using find_put [of "f r" j] assms(2) find_record_id [OF that] by simp
  show "memory_keys j' = memory_keys j"
    using assms(1) by (auto simp: journal_step_def memory_keys_def)
  show "x = Inr c \<Longrightarrow> \<exists>r. find_record j i = Some r \<and> pre r \<and> find_record j' i = Some (f r)"
    using assms(1) put by (auto simp: journal_step_def)
  show "find_record j i = Some r \<Longrightarrow> find_record j' i = Some r \<or> find_record j' i = Some (f r)"
    using assms(1) put by (auto simp: journal_step_def)
qed

lemma reserve_call_keys:
  assumes "reserve_call r n j = (j', x)"
  shows "memory_keys j \<subseteq> memory_keys j'"
    and "x = Inr (Call_reserved c) \<Longrightarrow> providerKey r \<notin> memory_keys j \<and> providerKey r \<in> memory_keys j'"
  using assms
  by (auto simp: reserve_call_def copyRecord_def memory_keys_def map_of_eq_None_iff split: sum.splits if_splits option.splits)

interpretation memory: call_journal memory_journal find_record memory_keys
proof
  show "memory_keys j \<subseteq> memory_keys j'" if "jp_reserve memory_journal r n j = (j', x)" for r n j j' x
    using that reserve_call_keys(1) by (simp add: memory_journal_def)
  show "providerKey r \<notin> memory_keys j \<and> providerKey r \<in> memory_keys j'"
    if "jp_reserve memory_journal r n j = (j', Inr (Call_reserved c))" for r n j j' c
    using that reserve_call_keys(2) by (simp add: memory_journal_def)
  show "memory_keys j' = memory_keys j" if "jp_authorize memory_journal i a j = (j', y)" for i a j j' y
    using that authorize_step [of a i j] by (simp add: memory_journal_def step_stores(1))
  show "\<exists>r. find_record j' i = Some r \<and> tc_authorization r = Some a"
    if "jp_authorize memory_journal i a j = (j', Inr c)" for i a j j' c
    using that authorize_step [of a i j] by (fastforce simp: memory_journal_def dest: step_stores(2))
  show "memory_keys j' = memory_keys j" if "jp_start memory_journal i t j = (j', y)" for i t j j' y
    using that start_step [of t i j] by (simp add: memory_journal_def step_stores(1))
  show "\<exists>r r'. find_record j i = Some r \<and> find_record j' i = Some r' \<and>
      tc_authorization r' = tc_authorization r \<and> tc_startedAt r' \<noteq> None"
    if "jp_start memory_journal i t j = (j', Inr c)" for i t j j' c
    using that start_step [of t i j] by (fastforce simp: memory_journal_def dest: step_stores(2))
  show "memory_keys j' = memory_keys j" if "jp_settle memory_journal i z j = (j', y)" for i z j j' y
    using that settle_step [of z i j] by (simp add: memory_journal_def step_stores(1))
  show "\<exists>r'. find_record j' i = Some r' \<and> same_intent r r'"
    if "jp_settle memory_journal i z j = (j', y)" "find_record j i = Some r" for i z j j' y r
    using that settle_step [of z i j]
    by (fastforce simp: memory_journal_def same_intent_def dest: step_stores(3))
qed

section \<open>What every step of the host keeps of a journal\<close>

locale kept_journal =
  fixes jp :: "'j journal_port" and kept :: "'j \<Rightarrow> bool"
  assumes authorize_kept: "kept j \<Longrightarrow> kept (fst (jp_authorize jp i a j))"
    and start_kept: "kept j \<Longrightarrow> kept (fst (jp_start jp i t j))"
    and settle_kept: "kept j \<Longrightarrow> kept (fst (jp_settle jp i z j))"

text \<open>A step that keeps a property of the journal.\<close>

definition preserves :: "('j \<Rightarrow> bool) \<Rightarrow> (('j, 'o, 'e) host_state \<Rightarrow> ('j, 'o, 'e) host_state \<times> 'r) \<Rightarrow> bool" where
  "preserves kept m \<longleftrightarrow> (\<forall>s. kept (hs_journal s) \<longrightarrow> kept (hs_journal (fst (m s))))"

named_theorems host_keeps

lemma keeps_then [host_keeps]: "preserves kept m \<Longrightarrow> (\<And>x. preserves kept (k x)) \<Longrightarrow> preserves kept (act_then m k)"
  by (fastforce simp: preserves_def act_then_def split: prod.splits sum.splits)

lemma keeps_if [host_keeps]: "preserves kept m \<Longrightarrow> preserves kept m' \<Longrightarrow> preserves kept (if b then m else m')"
  by simp

lemma keeps_return [host_keeps]: "preserves kept (act_return x)"
  by (simp add: preserves_def act_return_def)

lemma keeps_emit [host_keeps]: "preserves kept (emit_event env kind i)"
  by (simp add: preserves_def emit_event_def on_outside_def split: prod.splits)

lemma keeps_effects [host_keeps]: "preserves kept (on_effects f)"
  by (simp add: preserves_def on_effects_def split: prod.splits)

lemma keeps_outside [host_keeps]: "preserves kept (on_outside f)"
  by (simp add: preserves_def on_outside_def split: prod.splits)

lemma keeps_settlement [host_keeps]: "preserves kept (settlement_of env i result)"
  by (simp add: preserves_def settlement_of_def Let_def)

lemma keeps_journal: "(\<And>j. kept j \<Longrightarrow> kept (fst (f j))) \<Longrightarrow> preserves kept (on_journal f)"
  by (simp add: preserves_def on_journal_def split: prod.splits) (metis fst_conv)

lemma preservesD: "preserves kept m \<Longrightarrow> kept (hs_journal s) \<Longrightarrow> m s = (s', x) \<Longrightarrow> kept (hs_journal s')"
  by (metis fst_conv preserves_def)

lemma preservesI: "(\<And>s. kept (hs_journal s) \<Longrightarrow> kept (hs_journal (fst (m s)))) \<Longrightarrow> preserves kept m"
  by (simp add: preserves_def)

lemma on_effects_journal: "on_effects f s = (s', x) \<Longrightarrow> hs_journal s' = hs_journal s"
  by (simp add: on_effects_eq)

lemma on_outside_journal: "on_outside f s = (s', x) \<Longrightarrow> hs_journal s' = hs_journal s"
  by (simp add: on_outside_eq)

context kept_journal
begin

lemma settle_and_return_kept: "preserves kept (settle_and_return env jp i result)"
  unfolding settle_and_return_def by (intro host_keeps keeps_journal settle_kept)

lemma denied_kept: "preserves kept (act_then (on_journal (jp_authorize jp i a)) (\<lambda>_.
    act_then (emit_event env kind i) (\<lambda>_. settle_and_return env jp i result)))"
  by (intro host_keeps keeps_journal authorize_kept settle_and_return_kept)

lemma denyInvalid_kept: "preserves kept (denyInvalid env jp session call h risk reason)"
  by (rule preservesI) (simp add: denyInvalid_def denied_kept [unfolded preserves_def, rule_format] split: sum.splits)

lemma execute_started_kept: "preserves kept (execute_started env jp tool input context i)"
  by (rule preservesI)
    (auto simp: execute_started_def settle_and_return_kept [unfolded preserves_def, rule_format]
      split: prod.splits sum.splits tool_failure.splits dest: on_effects_journal)

lemma started_kept: "preserves kept (act_then (on_journal (jp_start jp i t)) (\<lambda>_.
    act_then (emit_event env kind i) (\<lambda>_. execute_started env jp tool input context i)))"
  by (intro host_keeps keeps_journal start_kept execute_started_kept)

lemma start_and_execute_kept: "preserves kept (start_and_execute env jp tool input context i)"
  by (rule preservesI) (simp add: start_and_execute_def started_kept [unfolded preserves_def, rule_format])

lemma after_authorization_kept: "preserves kept (after_authorization env jp tool input context i a)"
  unfolding after_authorization_def
  by (intro host_keeps keeps_journal authorize_kept settle_and_return_kept start_and_execute_kept)

lemma assessed_call_kept: "preserves kept (assessed_call env jp tool input session call r)"
  by (rule preservesI)
    (auto simp: assessed_call_def Let_def denyInvalid_kept [unfolded preserves_def, rule_format]
      after_authorization_kept [unfolded preserves_def, rule_format]
      split: sum.splits prod.splits dest: on_outside_journal)

lemma reserved_call_kept: "preserves kept (reserved_call env jp reg session call r)"
  unfolding reserved_call_def Let_def
  by (intro host_keeps) (auto split: option.splits sum.splits intro: denyInvalid_kept assessed_call_kept)

lemma execute_kept:
  assumes "kept (hs_journal s)"
    and "\<And>r. tc_attemptId r = ss_attemptId session \<Longrightarrow>
      kept (fst (jp_reserve jp r (max 0 (ss_maximumToolCalls session)) (hs_journal s)))"
  shows "kept (hs_journal (fst (execute_tool_call env jp reg session call s)))"
proof -
  let ?r = "requested_record env reg session call (hs_outside s)"
  obtain s1 y where res: "on_journal (jp_reserve jp ?r (max 0 (ss_maximumToolCalls session))) s = (s1, y)"
    by fastforce
  have "tc_attemptId ?r = ss_attemptId session" by (simp add: requested_record_def Let_def)
  then have one: "kept (hs_journal s1)"
    using assms(2) [of ?r] on_journal_eq [OF res] by (metis fst_conv)
  have "kept (hs_journal (fst (settlement_of env i result s1)))" for i result
    using one by (simp add: settlement_of_def Let_def)
  moreover have "kept (hs_journal (fst (reserved_call env jp reg session call ?r s1)))"
    using one by (rule reserved_call_kept [unfolded preserves_def, rule_format])
  ultimately show ?thesis
    using assms(1) res one
    by (auto simp: execute_tool_call_def Let_def act_then_def act_return_def
        split: sum.splits reserve_result.splits option.splits)
qed

end

section \<open>The budget of an attempt\<close>

definition calls_of :: "string \<Rightarrow> tool_journal \<Rightarrow> tool_call_record list" where
  "calls_of a j = filter (\<lambda>r. tc_attemptId r = a) (tj_records j)"

definition journal_within :: "string \<Rightarrow> int \<Rightarrow> tool_journal \<Rightarrow> bool" where
  "journal_within a n j \<longleftrightarrow> distinct (map tc_id (tj_records j)) \<and> int (length (calls_of a j)) \<le> n"

lemma length_filter_map: "length (filter p (map f xs)) = length (filter (p \<circ> f) xs)"
  by (induction xs) auto

lemma put_known_within:
  assumes "find_record j i = Some r" and "tc_id r' = tc_id r" and "tc_attemptId r' = tc_attemptId r"
    and within: "journal_within a n j"
  shows "journal_within a n (put_record r' j)"
proof -
  let ?f = "\<lambda>x. if tc_id x = tc_id r' then r' else x"
  have r: "r \<in> set (tj_records j)" "tc_id r' = i"
    using assms(1,2) find_record_id [OF assms(1)] by (simp_all add: find_record_def find_Some_iff) (metis nth_mem)
  have "x = r" if "x \<in> set (tj_records j)" "tc_id x = tc_id r" for x
    using within that r(1) by (auto simp: journal_within_def distinct_map dest: inj_onD)
  then have "tc_attemptId (?f x) = tc_attemptId x" if "x \<in> set (tj_records j)" for x
    using that assms(2,3) by auto
  then have "length (filter (\<lambda>x. tc_attemptId x = a) (map ?f (tj_records j))) =
      length (filter (\<lambda>x. tc_attemptId x = a) (tj_records j))"
    unfolding length_filter_map by (intro arg_cong [where f = length] filter_cong) auto
  moreover have "map tc_id (map ?f (tj_records j)) = map tc_id (tj_records j)" by auto
  moreover have "tj_records (put_record r' j) = map ?f (tj_records j)"
    using assms(1) r(2) by (simp add: put_record_def)
  ultimately show ?thesis
    using within by (simp only: journal_within_def calls_of_def)
qed

lemma step_within:
  assumes "journal_step pre f i j out" and "\<And>r. tc_id (f r) = tc_id r \<and> tc_attemptId (f r) = tc_attemptId r"
    and "journal_within a n j"
  shows "journal_within a n (fst out)"
  using assms put_known_within [of j i _ "f _"] by (auto simp: journal_step_def)

lemma reserve_within:
  assumes "journal_within a n j" and "tc_attemptId r = a \<Longrightarrow> m \<le> n"
  shows "journal_within a n (fst (reserve_call r m j))"
proof (cases "fst (reserve_call r m j) = j")
  case False
  then have new: "\<not> m \<le> int (length (calls_of (tc_attemptId r) j))" "find_record j (tc_id r) = None"
      "tj_records (fst (reserve_call r m j)) = tj_records j @ [r]"
    by (auto simp: reserve_call_def copyRecord_def calls_of_def put_record_def
        split: sum.splits if_splits option.splits)
  have "tc_id r \<notin> tc_id ` set (tj_records j)"
    using new(2) by (auto simp: find_record_def find_None_iff)
  then show ?thesis
    using assms new(1,3) by (auto simp: journal_within_def calls_of_def)
qed (use assms in simp)

interpretation budget: kept_journal memory_journal "journal_within a n" for a n
proof
  show "journal_within a n (fst (jp_authorize memory_journal i x j))" if "journal_within a n j" for j i x
    using step_within [OF authorize_step _ that] by (simp add: memory_journal_def)
  show "journal_within a n (fst (jp_start memory_journal i t j))" if "journal_within a n j" for j i t
    using step_within [OF start_step _ that] by (simp add: memory_journal_def)
  show "journal_within a n (fst (jp_settle memory_journal i z j))" if "journal_within a n j" for j i z
    using step_within [OF settle_step _ that] by (simp add: memory_journal_def)
qed

lemma run_calls_within:
  assumes "\<forall>(session, call) \<in> set calls. ss_attemptId session = a \<longrightarrow> max 0 (ss_maximumToolCalls session) \<le> n"
    and "journal_within a n (hs_journal s)"
  shows "journal_within a n (hs_journal (run_calls env memory_journal reg calls s))"
  using assms
proof (induction calls arbitrary: s)
  case (Cons x rest)
  obtain session call where x: "x = (session, call)" by fastforce
  have "journal_within a n (hs_journal (fst (execute_tool_call env memory_journal reg session call s)))"
    using Cons.prems x by (intro budget.execute_kept) (auto simp: memory_journal_def intro!: reserve_within)
  then show ?case using Cons x by simp
qed simp

text \<open>A decision always has a reason.\<close>

lemma reason_if:
  "nonempty (rd_reason x) \<Longrightarrow> nonempty (rd_reason y) \<Longrightarrow> nonempty (rd_reason (if b then x else y))"
  by simp

lemma decision_has_reason: "nonempty (rd_reason (decideToolPermission policy facts toolName))"
  unfolding decideToolPermission_def Let_def
  by (intro reason_if) (simp_all add: deny_def nonempty_def)

section \<open>A sample host\<close>

text \<open>A tool that adds its argument to a number, as a write inside the write scope.\<close>

definition host_sample_tool :: "(nat, nat, nat) registered_tool" where
  "host_sample_tool =
     \<lparr>rt_definition = \<lparr>td_name = ''fs.write'', td_description = ''adds'', td_risk = Risk_write,
        td_mutatesWorkspace = True\<rparr>,
      rt_parse = Inr,
      rt_assess = (\<lambda>_ _ _. Inr \<lparr>fa_risk = Risk_write, fa_mutatesWorkspace = True, fa_pathProtected = False,
        fa_pathInReadScope = True, fa_pathInWriteScope = True, fa_commandRuleId = None,
        fa_commandRuleRisk = None, fa_shell = False\<rparr>),
      rt_execute = (\<lambda>n _ x. (x + n, Inr \<lparr>er_outcome = None, er_outputRefs = None, er_effects = None,
        er_retryable = None, er_recovery = Effect_confirmed, er_reason = None\<rparr>))\<rparr>"

definition host_sample_env :: "(nat, unit) host_env" where
  "host_sample_env =
     \<lparr>he_now = (\<lambda>_. 0), he_uuid = (\<lambda>_. ''u''), he_requestHash = (\<lambda>_. sample_hash),
      he_argumentsHash = (\<lambda>_. sample_hash), he_idempotencyHash = (\<lambda>_ _ _. ''k''), he_prompt = None,
      he_emit = (\<lambda>_ _ w. (w, Inr ()))\<rparr>"

definition host_sample_policy :: tool_policy where
  "host_sample_policy =
     \<lparr>tp_role = Role_executor, tp_securityMode = Security_safe, tp_interactive = False,
      tp_headlessAsk = Tool_allow, tp_toolRules = [], tp_allowedTools = None,
      tp_allowUnlistedProcess = False, tp_allowDestructive = False, tp_allowShell = False\<rparr>"

definition host_sample_session :: "nat tool_session" where
  "host_sample_session =
     \<lparr>ss_attemptId = ''a'', ss_modelCallId = ''m'', ss_policy = host_sample_policy,
      ss_maximumToolCalls = 2, ss_resolver = (\<lambda>_. Inr ())\<rparr>"

definition host_sample_call :: "string \<Rightarrow> nat tool_call" where
  "host_sample_call i =
     \<lparr>tl_id = i, tl_modelCallId = ''m'', tl_providerToolCallId = i, tl_name = ''fs.write'',
      tl_arguments = 3, tl_idempotencyKey = None, tl_requestedAt = 0\<rparr>"

definition host_sample_state :: "(tool_journal, unit, nat) host_state" where
  "host_sample_state = \<lparr>hs_journal = empty_journal, hs_outside = (), hs_effects = 0\<rparr>"

definition host_sample_run :: "string \<Rightarrow> (tool_journal, unit, nat) host_state \<times> (tool_failure + tool_settlement)" where
  "host_sample_run i =
     execute_tool_call host_sample_env memory_journal [(''fs.write'', host_sample_tool)] host_sample_session
       (host_sample_call i) host_sample_state"

lemma host_sample_effect: "hs_effects (fst (host_sample_run ''c'')) = 3"
  by code_simp

section \<open>Properties\<close>

text \<open>C9. What a tool did, the policy allowed: whenever the host changes the
  effects its tools act on (not the journal, the events or the prompts), the tool is registered and materialized for the session whose model call it is, its
  input parsed, the facts of the call lie within the hard limits of the policy, in the safe mode
  also within what the safe mode grants, and the change is exactly the execution of that tool;
  the permission was the decision itself, or an answer to a question: an audited headless default,
  or the response of the prompt bound to the request of this very call. The journal holds the call
  as started under an allowing authorization.\<close>

theorem tool_effects_are_authorized:
  assumes "execute_tool_call env memory_journal reg session call s = (s', out)"
    and "hs_effects s' \<noteq> hs_effects s"
  shows "\<exists>tool input cx facts a r.
    map_of reg (tl_name call) = Some tool \<and> tl_modelCallId call = ss_modelCallId session \<and>
    (case tp_allowedTools (ss_policy session) of None \<Rightarrow> True | Some names \<Rightarrow> tl_name call \<in> set names) \<and>
    rt_parse tool (tl_arguments call) = Inr input \<and>
    rt_assess tool input cx (hs_effects s) = Inr facts \<and>
    within_limits (ss_policy session) facts (tl_name call) \<and>
    (tp_securityMode (ss_policy session) = Security_safe \<longrightarrow>
       safe_granted (ss_policy session) facts (tl_name call)) \<and>
    (rd_action (decideToolPermission (ss_policy session) facts (tl_name call)) = Tool_allow \<or>
     \<not> tp_interactive (ss_policy session) \<and> tp_headlessAsk (ss_policy session) = Tool_allow \<and> ta_auditedOverride a \<or>
     (\<exists>prompt request response w w'. he_prompt env = Some prompt \<and> prompt request w = (w', Inr response) \<and>
        tq_toolCallId request = tl_id call \<and>
        tq_argumentsHash request = he_argumentsHash env (tl_arguments call) \<and>
        ts_requestId response = tq_id request \<and> ts_requestHash response = tq_requestHash request \<and>
        ts_action response = Tool_allow)) \<and>
    hs_effects s' = fst (rt_execute tool input cx (hs_effects s)) \<and>
    find_record (hs_journal s') (tl_id call) = Some r \<and> tc_authorization r = Some a \<and>
    ta_action a = Tool_allow \<and> tc_startedAt r \<noteq> None"
proof -
  obtain tool input cx facts a w w' where call:
      "tl_modelCallId call = ss_modelCallId session"
      "case tp_allowedTools (ss_policy session) of None \<Rightarrow> True | Some names \<Rightarrow> tl_name call \<in> set names"
      "map_of reg (tl_name call) = Some tool" "rt_parse tool (tl_arguments call) = Inr input"
      "rt_assess tool input cx (hs_effects s) = Inr facts"
      "hs_effects s' = fst (rt_execute tool input cx (hs_effects s))"
    and auth: "authorizeToolCall env call (he_argumentsHash env (tl_arguments call)) (ss_policy session) facts w =
        (w', Inr a)" "ta_action a = Tool_allow"
    and "started_under (Some a) (find_record (hs_journal s') (tl_id call))"
    using memory.execute_effects [OF assms(1)] assms(2) by (auto simp: no_effect_def)
  then obtain r where r: "find_record (hs_journal s') (tl_id call) = Some r" "tc_authorization r = Some a"
      "tc_startedAt r \<noteq> None"
    by (auto simp: started_under_def)
  note granted = authorize_cases [OF auth]
  have "rd_action (decideToolPermission (ss_policy session) facts (tl_name call)) \<noteq> Tool_deny"
    using granted by auto
  then have limits: "within_limits (ss_policy session) facts (tl_name call)"
      "tp_securityMode (ss_policy session) = Security_safe \<longrightarrow> safe_granted (ss_policy session) facts (tl_name call)"
    using decision_within_limits decision_safe_granted by blast+
  have asked: "rd_action (decideToolPermission (ss_policy session) facts (tl_name call)) = Tool_allow \<or>
     \<not> tp_interactive (ss_policy session) \<and> tp_headlessAsk (ss_policy session) = Tool_allow \<and> ta_auditedOverride a \<or>
     (\<exists>prompt request response w w'. he_prompt env = Some prompt \<and> prompt request w = (w', Inr response) \<and>
        tq_toolCallId request = tl_id call \<and>
        tq_argumentsHash request = he_argumentsHash env (tl_arguments call) \<and>
        ts_requestId response = tq_id request \<and> ts_requestHash response = tq_requestHash request \<and>
        ts_action response = Tool_allow)"
    using granted by blast
  show ?thesis
    using call r auth(2) limits asked by blast
qed

theorem tool_effects_are_authorized_witness:
  "hs_effects (fst (host_sample_run ''c'')) \<noteq> hs_effects host_sample_state \<and>
   (\<exists>a r. find_record (hs_journal (fst (host_sample_run ''c''))) ''c'' = Some r \<and>
      tc_authorization r = Some a \<and> ta_action a = Tool_allow \<and> tc_startedAt r \<noteq> None)"
proof -
  have effect: "hs_effects (fst (host_sample_run ''c'')) \<noteq> hs_effects host_sample_state"
    using host_sample_effect by (simp add: host_sample_state_def)
  have run: "execute_tool_call host_sample_env memory_journal [(''fs.write'', host_sample_tool)]
      host_sample_session (host_sample_call ''c'') host_sample_state =
      (fst (host_sample_run ''c''), snd (host_sample_run ''c''))"
    by (simp add: host_sample_run_def)
  have "tl_id (host_sample_call ''c'') = ''c''" by (simp add: host_sample_call_def)
  then show ?thesis
    using tool_effects_are_authorized [OF run effect] effect by auto
qed

text \<open>C10. A tool call runs at most once: after a call has had an effect, and after any further calls
  of any sessions, a call with the same provider identifiers changes nothing of what tools act on.\<close>

theorem provider_call_runs_once:
  assumes "execute_tool_call env memory_journal reg session call s = (s1, out)"
    and "hs_effects s1 \<noteq> hs_effects s"
    and "tl_modelCallId again = tl_modelCallId call"
    and "tl_providerToolCallId again = tl_providerToolCallId call"
  shows "let s2 = run_calls env memory_journal reg calls s1 in
    hs_effects (fst (execute_tool_call env memory_journal reg session' again s2)) = hs_effects s2"
proof -
  have "provider_key (tl_modelCallId again) (tl_providerToolCallId again) \<in>
      memory_keys (hs_journal (run_calls env memory_journal reg calls s1))"
    using memory.effect_known [OF assms(1,2)] memory.run_calls_keys assms(3,4) by fastforce
  then show ?thesis
    unfolding Let_def by (rule memory.known_call_no_effect)
qed

theorem provider_call_runs_once_witness:
  "let s2 = run_calls host_sample_env memory_journal [(''fs.write'', host_sample_tool)]
      [(host_sample_session, host_sample_call ''d'')] (fst (host_sample_run ''c'')) in
    hs_effects (fst (execute_tool_call host_sample_env memory_journal [(''fs.write'', host_sample_tool)]
      host_sample_session (host_sample_call ''c'') s2)) = hs_effects s2"
proof -
  have run: "execute_tool_call host_sample_env memory_journal [(''fs.write'', host_sample_tool)]
      host_sample_session (host_sample_call ''c'') host_sample_state =
      (fst (host_sample_run ''c''), snd (host_sample_run ''c''))"
    by (simp add: host_sample_run_def)
  have "hs_effects (fst (host_sample_run ''c'')) \<noteq> hs_effects host_sample_state"
    using host_sample_effect by (simp add: host_sample_state_def)
  then show ?thesis
    by (rule provider_call_runs_once [OF run]) simp_all
qed

text \<open>C39. The budget of an attempt holds: however many calls are made, by whichever sessions, no more
  calls of an attempt enter the journal than the greatest maximum its sessions carry.\<close>

theorem tool_calls_within_budget:
  assumes "hs_journal s = empty_journal" and "0 \<le> n"
    and "\<forall>(session, call) \<in> set calls. ss_attemptId session = a \<longrightarrow> ss_maximumToolCalls session \<le> n"
  shows "int (length (filter (\<lambda>r. tc_attemptId r = a)
    (tj_records (hs_journal (run_calls env memory_journal reg calls s))))) \<le> n"
proof -
  have "journal_within a n (hs_journal (run_calls env memory_journal reg calls s))"
    using assms by (intro run_calls_within) (auto simp: journal_within_def empty_journal_def calls_of_def)
  then show ?thesis by (simp add: journal_within_def calls_of_def)
qed

theorem tool_calls_within_budget_witness:
  "int (length (filter (\<lambda>r. tc_attemptId r = ''a'')
    (tj_records (hs_journal (run_calls host_sample_env memory_journal [(''fs.write'', host_sample_tool)]
      (map (\<lambda>i. (host_sample_session, host_sample_call i)) [''c'', ''d'', ''e'']) host_sample_state))))) \<le> 2"
  by (rule tool_calls_within_budget) (simp_all add: host_sample_state_def host_sample_session_def)

text \<open>C40. A rule that asks loosens the safe mode: what the safe mode denies without a rule, and with
  a rule that allows, becomes a question under a rule that asks, so that a headless default of
  allowing authorizes a destructive or an unlisted command.\<close>

theorem ask_rule_loosens_safe_mode:
  assumes safe: "tp_securityMode policy = Security_safe"
    and risk: "fa_risk facts = Risk_destructive \<or> fa_risk facts = Risk_process \<and> fa_commandRuleId facts = None"
    and limits: "within_limits (policy\<lparr>tp_toolRules := []\<rparr>) facts (tl_name call)"
    and headless: "\<not> tp_interactive policy" "tp_headlessAsk policy = Tool_allow"
    and valid: "valid_tool_call call" "sha256 h" "\<forall>q. sha256 (he_requestHash env q)"
  shows "let decide = (\<lambda>rules. authorizeToolCall env call h (policy\<lparr>tp_toolRules := rules\<rparr>) facts w) in
    (\<exists>a. decide [] = (w, Inr a) \<and> ta_action a = Tool_deny) \<and>
    (\<exists>a. decide [(tl_name call, Tool_allow)] = (w, Inr a) \<and> ta_action a = Tool_deny) \<and>
    (\<exists>a. decide [(tl_name call, Tool_ask)] = (w, Inr a) \<and> ta_action a = Tool_allow \<and> ta_auditedOverride a)"
proof -
  let ?d = "\<lambda>rules. decideToolPermission (policy\<lparr>tp_toolRules := rules\<rparr>) facts (tl_name call)"
  have name: "tl_name call \<noteq> []" using valid(1) by (simp add: valid_tool_call_def nonempty_def)
  have decisions: "rd_action (?d []) = Tool_deny" "rd_action (?d [(tl_name call, Tool_allow)]) = Tool_deny"
      "rd_action (?d [(tl_name call, Tool_ask)]) = Tool_ask"
    using risk limits name
    by (elim disjE; simp add: decideToolPermission_def within_limits_def Let_def safe truthy_opt_def)+
  have reason: "nonempty (rd_reason (?d rules))" for rules
    by (rule decision_has_reason)
  have decided: "\<exists>a. authorizeToolCall env call h (policy\<lparr>tp_toolRules := rules\<rparr>) facts w = (w, Inr a) \<and>
      ta_action a = Tool_deny" if "rd_action (?d rules) = Tool_deny" for rules
    using that reason [of rules] valid(3)
    by (simp add: authorizeToolCall_def Let_def parse_tool_authorization_def valid_tool_authorization_def
        nonempty_def nonempty_opt_def truthy_opt_def split: option.splits)
  have asked: "\<exists>a. authorizeToolCall env call h (policy\<lparr>tp_toolRules := rules\<rparr>) facts w = (w, Inr a) \<and>
      ta_action a = Tool_allow \<and> ta_auditedOverride a" if "rd_action (?d rules) = Tool_ask" for rules
    using that reason [of rules] valid headless
    by (simp add: authorizeToolCall_def Let_def parse_tool_authorization_def valid_tool_authorization_def
        valid_permission_request_def permission_projection_def valid_tool_call_def
        nonempty_def nonempty_opt_def truthy_opt_def split: option.splits)
  show ?thesis
    unfolding Let_def using decided [OF decisions(1)] decided [OF decisions(2)] asked [OF decisions(3)] by blast
qed

theorem ask_rule_loosens_safe_mode_witness:
  "let facts = \<lparr>fa_risk = Risk_destructive, fa_mutatesWorkspace = True, fa_pathProtected = False,
      fa_pathInReadScope = True, fa_pathInWriteScope = True, fa_commandRuleId = None,
      fa_commandRuleRisk = None, fa_shell = False\<rparr>;
    decide = (\<lambda>rules. authorizeToolCall host_sample_env (host_sample_call ''c'') sample_hash
      (host_sample_policy\<lparr>tp_toolRules := rules\<rparr>) facts ()) in
    (\<exists>a. decide [] = ((), Inr a) \<and> ta_action a = Tool_deny) \<and>
    (\<exists>a. decide [(''fs.write'', Tool_ask)] = ((), Inr a) \<and> ta_action a = Tool_allow)"
proof -
  let ?facts = "\<lparr>fa_risk = Risk_destructive, fa_mutatesWorkspace = True, fa_pathProtected = False,
      fa_pathInReadScope = True, fa_pathInWriteScope = True, fa_commandRuleId = None,
      fa_commandRuleRisk = None, fa_shell = False\<rparr>"
  have hash: "sha256 sample_hash" by code_simp
  have name: "tl_name (host_sample_call ''c'') = ''fs.write''" by (simp add: host_sample_call_def)
  have "within_limits (host_sample_policy\<lparr>tp_toolRules := []\<rparr>) ?facts (tl_name (host_sample_call ''c''))"
    by (simp add: within_limits_def host_sample_policy_def name)
  from ask_rule_loosens_safe_mode [OF _ _ this, where env = host_sample_env and h = sample_hash and w = "()"]
  show ?thesis
    using hash unfolding name Let_def
    by (auto simp: host_sample_policy_def host_sample_env_def host_sample_call_def valid_tool_call_def
        nonempty_def nonempty_opt_def)
qed

end
