(* ===== verification/Spec2Isabelle.thy ===== *)
theory Spec2Isabelle
  imports Lifecycle Scheduler Watchdog Leases ResourceClaims PrdGraph ParallelSettle ChildScheduler Completion HostFacts
begin

text \<open>
  Ralph runs the tasks of a product requirements document (PRD) with a language model and
  decides by evidence whether a task is done. This library models the part of its TypeScript
  packages that takes the decisions a run depends on: which task is next, when a task may be
  called completed, when a stalled worker is stopped, and which process may write.

  The parts and the theories that model them.

  \<^item> \<open>Prelude\<close> (\<^verbatim>\<open>packages/domain/src/errors.ts\<close>, \<^verbatim>\<open>contracts.ts\<close>): a thrown
    \<^verbatim>\<open>RalphError\<close> or schema exception is the \<open>Inl\<close> of a \<open>result\<close>; \<open>and_then\<close> is the sequence
    of two statements, \<open>require\<close> a guard that throws. It also has the string and array
    functions of the language that several components call.
  \<^item> \<open>Lifecycle\<close> (\<^verbatim>\<open>packages/domain/src/execution.ts\<close>): the status and phase machines of
    runs, tasks and attempts (\<open>RUN_STATUS_TRANSITIONS\<close> and its siblings), the schemas' refinements
    (\<open>valid_...\<close>, \<open>parse_...\<close>), and the two ways a task becomes completed, \<open>completeTask\<close> and
    \<open>completeTaskWithOverride\<close>. Its properties: completion only by an authorization that grants
    it, on every path; overrides name exactly the gates they skip; an attempt decides after
    evidence and gates; a run can always be cancelled until it is final.
  \<^item> \<open>PrdModel\<close> (\<^verbatim>\<open>packages/prd/src/contracts.ts\<close>): documents, tasks, references and the
    compiled graph, as data.
  \<^item> \<open>Scheduler\<close> (\<^verbatim>\<open>packages/orchestration/src/scheduler.ts\<close>): \<open>selectTask\<close> over a compiled
    graph and the task records. \<open>work_step\<close> is one turn of a run that works on what was picked.
    Its properties: along any history of such turns work waits for everything it rests on, the
    scheduler never idles on a dependencies-first order, and a serial run works through that order.
  \<^item> \<open>WatchdogModel\<close> and \<open>Watchdog\<close> (\<^verbatim>\<open>packages/domain/src/watchdog.ts\<close>,
    \<^verbatim>\<open>packages/supervisor/src/watchdog.ts\<close>): profiles, durations and configuration, and
    \<open>evaluateWatchdog\<close>, a function of one observation, the profile, the previous snapshot and the
    restart budget. Its properties are about runs of probes: a stall is confirmed, destructive
    actions are taken once and only for a cause, the restart budget is kept, and exactly one kind
    of input makes the evaluation throw.
  \<^item> \<open>Table\<close> (\<^verbatim>\<open>packages/persistence/src/ledger.ts\<close>): a table of the SQLite ledger with its
    constraints, as the locale \<open>ledger_table\<close>. The laws of its statements are proved once there.
  \<^item> \<open>Leases\<close> (\<^verbatim>\<open>packages/persistence/src/leases.ts\<close>): supervisor leases over two tables
    that interpret \<open>ledger_table\<close>. One transaction is one function on \<open>lease_db\<close>;
    \<open>lease_step\<close> is what one process commits. Its properties: one owner per resource, takeover
    only after expiry and confirmed probes, which are stored with it, and fencing of every lease that has ended.
  \<^item> \<open>ResourceClaims\<close> (\<^verbatim>\<open>packages/persistence/src/resource-claims.ts\<close>): the claims of
    parallel attempts, over two further interpretations of \<open>ledger_table\<close>. \<open>claim_step\<close> is one
    committed transaction. Its properties: active claims of different sets never conflict, an
    acquired set is held, path claims overlap by whole segments; and two behaviours of the code
    that its callers do not expect, an expired set that cannot be ended and an identical retry
    that is refused.

  \<^item> \<open>PrdOrder\<close> and \<open>PrdGraph\<close> (\<^verbatim>\<open>packages/prd/src/graph.ts\<close>): the order of the tasks of a
    document, and the compiler that loads a root document with its child documents, checks them
    and orders all their tasks. The file system, the path library and the parser are arguments.
    The recursions over child documents carry a bound, the configured maximum of documents, which
    is proved never to be used up. Their properties: the order of a document is that of a
    reference definition, compilation returns, a compiled order is a schedule, and the serial
    run of \<open>Scheduler\<close> ends a compiled graph.
  \<^item> \<open>ParallelSched\<close> (\<^verbatim>\<open>packages/orchestration/src/parallel-scheduler.ts\<close>): the choice of a
    wave of tasks for parallel workers. The four capacity limits interpret one locale,
    \<open>capacity_scope\<close>. Its properties: what is dispatched may run, and a wave fills its capacity
    or is the one candidate of the child lane.
  \<^item> \<open>ParallelRun\<close> (\<^verbatim>\<open>parallel-scheduler.ts\<close>, \<^verbatim>\<open>parallel-runner.ts\<close>): claiming a
    wave, running its workers, and the loop over waves, on a record of ports, \<open>par_ports\<close>, whose
    operations act on a state the model does not look into. The workers of a wave interleave by
    any sequence of their indices; each takes four steps, so the sequence is completed by four
    rounds over all of them. The loop needs no fuel, a wave that goes on has started a worker.
    The locales \<open>reservations\<close> and \<open>run_invariant\<close> state what a run needs of its ports so that
    what it holds, and any invariant of the state, survive it.
  \<^item> \<open>ParallelPorts\<close> (\<^verbatim>\<open>parallel-capacity.ts\<close>, \<^verbatim>\<open>parallel-claims.ts\<close>,
    \<^verbatim>\<open>runner.ts\<close>): the ports of the parallel run over the ledgers of \<open>Leases\<close> and
    \<open>ResourceClaims\<close>, with their renewal timers, and the root run that uses them. Workers and
    observers are scripts that may call the ports; between any two calls other processes commit
    and timers fire, as functions of a turn counter say.
  \<^item> \<open>ParallelSettle\<close>: the invariant of that composition, that whatever is active for the process
    in a ledger is held by its ports, interpreted in both locales. Its properties: a parallel run
    leaves nothing active, slots are bounded, and all workers of one process share one slot.

  \<^item> \<open>RunStore\<close> (\<^verbatim>\<open>persistence/src/execution-store.ts\<close>,
    \<^verbatim>\<open>orchestration/src/state-store.ts\<close>): the rows of runs and tasks with their events, the
    writers, and what every sequence of them keeps (\<open>follows\<close>). \<open>run_db\<close> is extensible: the
    tables of child runs extend it.
  \<^item> \<open>ChildModel\<close> and \<open>ChildLedger\<close> (\<^verbatim>\<open>domain/src/child.ts\<close>,
    \<^verbatim>\<open>persistence/src/child-runs.ts\<close>, \<^verbatim>\<open>child-run-links-migration.ts\<close>): the links
    between parent tasks and child runs, their schemas, table constraints and triggers, and every
    operation on them: reservation, observation, settlement, projection of events, the walks over
    the tree and the gate that the verification of the parent waits for. The walks recurse on the
    links not yet visited, so they need no fuel.
  \<^item> \<open>ChildTree\<close>, \<open>ChildSteps\<close> and \<open>ChildRuns\<close>: links as edges and the invariant of both
    walks; the steps of the ledger, beside the writers of \<open>RunStore\<close> and arbitrary changes of
    leases, with the invariant \<open>child_db_ok\<close> and what never changes back (\<open>child_follows\<close>), the
    link table being another interpretation of \<open>ledger_table\<close>; and the properties: the links
    form a forest, a parent verifies only over a complete tree, a reservation is made once, a
    settled link is final.
  \<^item> \<open>ChildGraph\<close> and \<open>ChildScheduler\<close>
    (\<^verbatim>\<open>orchestration/src/child-scheduler.ts\<close>): the check of a compiled graph at run time,
    the reservation of a child run from it, and the choice of the next work of a run whose tasks
    are refined by child documents. The walk over the documents recurses on the depth the limit
    leaves, so it needs no fuel. Their properties: a checked graph is a tree, child runs are
    made only from the graph, a selection is sound over every ledger \<open>ChildSteps\<close> reaches, and
    over a graph of the compiler a scope waits only for stopped tasks.

  \<^item> \<open>Acts\<close>: sequences of steps that act on a state and may throw, for code that awaits ports.
  \<^item> \<open>GateRun\<close> (\<^verbatim>\<open>verification/src/gates.ts\<close>, \<^verbatim>\<open>gate-registry.ts\<close>,
    \<^verbatim>\<open>applicability.ts\<close>): the gates of a task, whether each applies and may be skipped, its
    executor, and the attempts with their deadlines and retries. A gate is tried at most as often
    as its specification says, which bounds \<open>attempt_loop\<close>. What runs outside is the record
    \<open>gate_ports\<close>.
  \<^item> \<open>Completion\<close> (\<^verbatim>\<open>verification/src/evidence.ts\<close>, \<^verbatim>\<open>evaluation.ts\<close>,
    \<^verbatim>\<open>domain/src/judge.ts\<close>): the deterministic verdict on evidence, and what assessments of
    judges or failures to reach one make of it. Its properties: the verdict accepts exactly the
    evidence that suffices, a judge has no authority over a refusal, a completed task had its
    blocking gates run and passed, which composes gates, verdict, judges and \<open>Lifecycle\<close>; and one
    behaviour its users do not expect, a gate that does not apply blocks its task.
  \<^item> \<open>ToolPermissions\<close>, \<open>ToolHost\<close> and \<open>HostFacts\<close> (\<^verbatim>\<open>tool-host/src/permissions.ts\<close>,
    \<^verbatim>\<open>host.ts\<close>, \<^verbatim>\<open>registry.ts\<close>, \<^verbatim>\<open>journal.ts\<close>): whether a model's tool call is allowed,
    denied or asked about, and the protocol of a call, from its reservation in the journal to its
    settlement. What a tool does to the workspace is a state of its own, apart from the journal
    and the outside of prompts, events and clocks. The locales \<open>call_journal\<close> and \<open>kept_journal\<close>
    state what the host needs of a journal and what it keeps of one; the journal in memory
    interprets both. Their properties: tools act only as authorized within the hard limits of the
    policy, a call of a provider runs at most once, the budget of an attempt holds; and a rule
    that asks loosens the safe mode.

  How they interact: the run loop (\<^verbatim>\<open>runner.ts\<close>) compiles the graph, holds a lease, asks
  the scheduler for a task, drives an attempt through its phases under the watchdog, and completes
  the task with an authorization, over the verdict on the gates it ran; the tool calls of the
  model go through the tool host; the parallel root run takes capacity leases and resource claims
  for each worker of a wave. The supervisor authority of \<open>ResourceClaims\<close> reads the leases of
  \<open>Leases\<close>, and the schedulers read the task records of \<open>Lifecycle\<close>.

  Conventions and bounds. Instants are integers, in milliseconds; revisions and counters are
  naturals where the schemas say so and integers elsewhere. The loops of the modelled code are
  bounded by the code itself: an acquisition of a lease tries three times and probes as often as
  its confirmations say, a slot is looked for among its maximum. Where a bound is a parameter of
  a definition, a lemma shows that it is enough, and every definition is total. Strings range over
  the characters up to 255. What a process cannot see is an argument: the clock readings, fresh
  identifiers, the result of a process probe, the transactions other processes commit, the
  platform test, and the collation of \<^verbatim>\<open>localeCompare\<close>. Operations inside one immediate
  transaction are atomic. Promises awaited together run in any interleaving for the workers of a
  wave; the concurrent releases at its end are taken as one pass over the claims and one over the
  capacity, which is the order of their first steps.

  Not modelled: error messages and details, event payloads, the JSON text of stored columns, the
  queries that only display, and all input and output. The executors of gates on schemas, git
  and artifacts, the tools with their path resolver, and the capture of the workspace are
  arguments, being file system and processes. Whole packages left out are the parsers,
  the commands and the terminal interface, the drivers of the model services, credentials, and
  distribution, which are input and output around third-party services.
\<close>

end
